(* ===== verification/Prelude.thy ===== *)
theory Prelude
  imports Main "HOL-Library.Word" "HOL-Library.Multiset" "HOL-Library.While_Combinator"
begin

text \<open>
  Shared vocabulary of the development: the types that stand for Go's basic types, the
  result type of Go calls (value, error, panic), the collections of simplification rules,
  generic lemmas on lists, and the interface of the stateful components
  (\<open>inv_system\<close>: a state machine whose operations keep an invariant).
\<close>

section \<open>Basic types\<close>

text \<open>
  A Go \<open>string\<close> or \<open>[]byte\<close> is a sequence of bytes, so both are the HOL type
  \<open>string\<close> (a list of 8-bit characters). \<open>uint64\<close> is a 64-bit word, whose
  addition wraps; \<open>int64\<close> and \<open>int\<close> are integers, with \<open>wrap64\<close> written
  out wherever the source computes a value that could leave the range.
\<close>

type_synonym bytes = string
type_synonym u64 = "64 word"
type_synonym i64 = int

definition wrap64 :: "int \<Rightarrow> i64" where
  "wrap64 x = (x + 2 ^ 63) mod 2 ^ 64 - 2 ^ 63"

definition in_i64 :: "int \<Rightarrow> bool" where
  "in_i64 x \<longleftrightarrow> - (2 ^ 63) \<le> x \<and> x < 2 ^ 63"

named_theorems go_simps \<open>unfolding rules of the Go result type\<close>
named_theorems table_simps \<open>lookup-after-update rules of tables\<close>

text \<open>
  A Go call returns a value and a nil error, returns an error, or panics.
\<close>

datatype ('e, 'a) go = Ok 'a | Err 'e | Panic

fun is_Ok :: "('e, 'a) go \<Rightarrow> bool" where
  "is_Ok (Ok _) = True"
| "is_Ok _ = False"

lemma is_Ok_iff: "is_Ok x \<longleftrightarrow> (\<exists>v. x = Ok v)"
  by (cases x) auto

section \<open>Wrap-around of int64\<close>

lemma wrap64_in_i64: "in_i64 (wrap64 x)"
proof -
  have "0 \<le> (x + 2 ^ 63) mod 2 ^ 64" and "(x + 2 ^ 63) mod 2 ^ 64 < 2 ^ 64"
    by simp_all
  then show ?thesis
    unfolding in_i64_def wrap64_def by simp
qed

lemma wrap64_id: "in_i64 x \<Longrightarrow> wrap64 x = x"
  by (simp add: in_i64_def wrap64_def)

section \<open>Generic lemmas on lists\<close>

lemma sort_key_sorted_id: "sorted (map f xs) \<Longrightarrow> sort_key f xs = xs"
proof (induction xs)
  case (Cons x xs)
  then have "sort_key f xs = xs" and "\<forall>y\<in>set xs. f x \<le> f y" by auto
  then show ?case by (cases xs) auto
qed simp

lemma mset_eq_setD: "mset xs = mset ys \<Longrightarrow> set xs = set ys"
  by (metis set_mset_mset)

lemma mset_eq_distinctD: "mset xs = mset ys \<Longrightarrow> distinct xs = distinct ys"
  by (metis mset_eq_imp_distinct_iff)

lemma if_Some_None: "(if b then Some e else x) = None \<longleftrightarrow> \<not> b \<and> x = None"
  by simp

lemma find_append: "find P (xs @ ys) = (case find P xs of None \<Rightarrow> find P ys | Some x \<Rightarrow> Some x)"
  by (induction xs) auto

lemma sort_key_filter_comm: "sort_key f (filter P xs) = filter P (sort_key f xs)"
  by (simp add: filter_sort)

section \<open>Interface: a machine whose operations keep an invariant\<close>

text \<open>
  The contract that the stateful components share: one step per operation of the source, an
  initial state, an invariant that the initial state has and every operation keeps. What
  clients get from it is the invariant after any sequence of operations.
\<close>

fun run :: "('s \<Rightarrow> 'e \<Rightarrow> 's) \<Rightarrow> 's \<Rightarrow> 'e list \<Rightarrow> 's" where
  "run step s [] = s"
| "run step s (e # es) = run step (step s e) es"

lemma run_append: "run step s (es @ fs) = run step (run step s es) fs"
  by (induction es arbitrary: s) auto

locale inv_system =
  fixes step :: "'s \<Rightarrow> 'e \<Rightarrow> 's"
    and allowed :: "'e \<Rightarrow> bool"
    and inv :: "'s \<Rightarrow> bool"
  assumes step_inv: "inv s \<Longrightarrow> allowed e \<Longrightarrow> inv (step s e)"
begin

lemma run_inv: "inv s \<Longrightarrow> list_all allowed es \<Longrightarrow> inv (run step s es)"
  by (induction es arbitrary: s) (auto intro: step_inv)

lemma run_prefix_inv:
  "inv s \<Longrightarrow> list_all allowed es \<Longrightarrow> inv (run step s (take n es))"
  by (rule run_inv) (auto simp: list_all_iff dest: in_set_takeD)

end

end
