(* ===== verification/GoLib.thy ===== *)
theory GoLib
  imports Prelude
begin

text \<open>
  The parts of Go's standard library that several components call: hexadecimal encoding
  (\<open>fmt.Sprintf("%x", b)\<close>, \<open>hex.EncodeToString\<close>, \<open>hex.DecodeString\<close>), decimal
  printing and parsing (\<open>strconv\<close>), UTF-8 decoding (\<open>unicode/utf8\<close>), and the
  cryptographic primitives, which are parameters collected in the record \<open>crypto\<close>.
\<close>

section \<open>Bytes and digits\<close>

abbreviation byte :: "char \<Rightarrow> nat" where
  "byte c \<equiv> of_char c"

lemma byte_less: "byte c < 256"
  by (metis nat_of_char_less_256 of_char_eq_iff)

lemma char_of_byte [simp]: "char_of (byte c) = c"
  by simp

lemma byte_char_of [simp]: "n < 256 \<Longrightarrow> byte (char_of n) = n"
  by simp

definition hexdig :: "nat \<Rightarrow> char" where
  "hexdig n = (if n < 10 then char_of (48 + n) else char_of (87 + n))"

definition hexval :: "char \<Rightarrow> nat option" where
  "hexval c = (let b = byte c in
     if 48 \<le> b \<and> b \<le> 57 then Some (b - 48)
     else if 97 \<le> b \<and> b \<le> 102 then Some (b - 87)
     else if 65 \<le> b \<and> b \<le> 70 then Some (b - 55)
     else None)"

lemma hexval_hexdig [simp]: "n < 16 \<Longrightarrow> hexval (hexdig n) = Some n"
  by (auto simp: hexval_def hexdig_def Let_def)

definition is_hex_lower :: "char \<Rightarrow> bool" where
  "is_hex_lower c \<longleftrightarrow> (48 \<le> byte c \<and> byte c \<le> 57) \<or> (97 \<le> byte c \<and> byte c \<le> 102)"

lemma is_hex_lower_hexdig [simp]: "n < 16 \<Longrightarrow> is_hex_lower (hexdig n)"
  by (auto simp: is_hex_lower_def hexdig_def)

section \<open>Hexadecimal strings\<close>

fun hexEncode :: "bytes \<Rightarrow> string" where
  "hexEncode [] = []"
| "hexEncode (c # cs) = hexdig (byte c div 16) # hexdig (byte c mod 16) # hexEncode cs"

fun hexDecodeString :: "string \<Rightarrow> bytes option" where
  "hexDecodeString [] = Some []"
| "hexDecodeString [_] = None"
| "hexDecodeString (a # b # cs) =
     (case (hexval a, hexval b, hexDecodeString cs) of
        (Some x, Some y, Some r) \<Rightarrow> Some (char_of (16 * x + y) # r)
      | _ \<Rightarrow> None)"

lemma length_hexEncode [simp]: "length (hexEncode b) = 2 * length b"
  by (induction b) auto

lemma byte_div_mod [simp]: "byte c div 16 < 16" "byte c mod 16 < 16"
  using byte_less [of c] by (linarith, simp)

lemma hexDecodeString_hexEncode [simp]: "hexDecodeString (hexEncode b) = Some b"
  by (induction b) auto

lemma hexEncode_inj: "hexEncode a = hexEncode b \<longleftrightarrow> a = b"
  by (metis hexDecodeString_hexEncode option.inject)

lemma hexEncode_lower: "list_all is_hex_lower (hexEncode b)"
  by (induction b) auto

lemma hexEncode_append [simp]: "hexEncode (a @ b) = hexEncode a @ hexEncode b"
  by (induction a) auto

lemma hexEncode_Nil_iff [simp]: "hexEncode b = [] \<longleftrightarrow> b = []"
  by (cases b) auto

section \<open>Decimal numbers\<close>

fun showNat :: "nat \<Rightarrow> string" where
  "showNat n = (if n < 10 then [char_of (48 + n)] else showNat (n div 10) @ [char_of (48 + n mod 10)])"

declare showNat.simps [simp del]

definition showInt :: "int \<Rightarrow> string" where
  "showInt i = (if i < 0 then CHR ''-'' # showNat (nat (- i)) else showNat (nat i))"

definition is_digit :: "char \<Rightarrow> bool" where
  "is_digit c \<longleftrightarrow> 48 \<le> byte c \<and> byte c \<le> 57"

definition readNat :: "string \<Rightarrow> nat" where
  "readNat s = foldl (\<lambda>a c. 10 * a + (byte c - 48)) 0 s"

lemma readNat_snoc: "readNat (s @ [c]) = 10 * readNat s + (byte c - 48)"
  by (simp add: readNat_def)

lemma readNat_showNat [simp]: "readNat (showNat n) = n"
proof (induction n rule: showNat.induct)
  case (1 n)
  show ?case
  proof (cases "n < 10")
    case True
    then show ?thesis by (subst showNat.simps) (simp add: readNat_def)
  next
    case False
    with "1.IH" have "readNat (showNat (n div 10)) = n div 10" by simp
    with False show ?thesis
      by (subst showNat.simps) (simp add: readNat_snoc)
  qed
qed

lemma showNat_digits: "\<forall>c\<in>set (showNat n). is_digit c"
proof (induction n rule: showNat.induct)
  case (1 n)
  then show ?case
    by (subst showNat.simps) (auto simp: is_digit_def)
qed

lemma showNat_not_Nil [simp]: "showNat n \<noteq> []"
  by (subst showNat.simps) simp

lemma showNat_hd_zero: "hd (showNat n) = CHR ''0'' \<longleftrightarrow> n = 0"
proof (induction n rule: showNat.induct)
  case (1 n)
  show ?case
  proof (cases "n < 10")
    case True
    then show ?thesis
      by (subst showNat.simps) (simp add: char_of_eq_iff take_bit_eq_mod)
  next
    case False
    with "1.IH" have "hd (showNat (n div 10)) \<noteq> CHR ''0''" by simp
    with False show ?thesis by (subst showNat.simps) simp
  qed
qed

lemma showNat_0: "showNat 0 = ''0''"
  by (subst showNat.simps) (simp add: char_of_eq_iff take_bit_eq_mod)

section \<open>UTF-8\<close>

text \<open>
  \<open>utf8Len s\<close> is the number of bytes of the rune at the front of \<open>s\<close>, \<open>None\<close>
  when \<open>utf8.DecodeRune\<close> reports an invalid encoding (it then skips one byte).
\<close>

definition cont :: "char \<Rightarrow> bool" where
  "cont c \<longleftrightarrow> 128 \<le> byte c \<and> byte c \<le> 191"

fun utf8Len :: "string \<Rightarrow> nat option" where
  "utf8Len [] = None"
| "utf8Len (a # s) = (let x = byte a in
     if x < 128 then Some 1
     else if 194 \<le> x \<and> x \<le> 223 then
       (case s of b # _ \<Rightarrow> if cont b then Some 2 else None | _ \<Rightarrow> None)
     else if 224 \<le> x \<and> x \<le> 239 then
       (case s of b # c # _ \<Rightarrow>
          if (if x = 224 then 160 \<le> byte b \<and> byte b \<le> 191
              else if x = 237 then 128 \<le> byte b \<and> byte b \<le> 159 else cont b) \<and> cont c
          then Some 3 else None | _ \<Rightarrow> None)
     else if 240 \<le> x \<and> x \<le> 244 then
       (case s of b # c # d # _ \<Rightarrow>
          if (if x = 240 then 144 \<le> byte b \<and> byte b \<le> 191
              else if x = 244 then 128 \<le> byte b \<and> byte b \<le> 143 else cont b) \<and> cont c \<and> cont d
          then Some 4 else None | _ \<Rightarrow> None)
     else None)"

lemma utf8Len_pos: "utf8Len s = Some n \<Longrightarrow> 0 < n \<and> n \<le> length s"
  by (cases s) (auto simp: Let_def split: if_splits list.splits)

lemma utf8Len_append: "utf8Len s = Some n \<Longrightarrow> utf8Len (s @ t) = Some n"
  by (cases s) (auto simp: Let_def split: if_splits list.splits)

lemma utf8Len_take: "utf8Len s = Some n \<Longrightarrow> utf8Len (take n s) = Some n"
  by (cases s) (auto simp: Let_def split: if_splits list.splits)

function validUtf8 :: "string \<Rightarrow> bool" where
  "validUtf8 s = (if s = [] then True else
     case utf8Len s of None \<Rightarrow> False | Some n \<Rightarrow> validUtf8 (drop n s))"
  by pat_completeness auto
termination
  by (relation "measure length") (auto dest: utf8Len_pos)

declare validUtf8.simps [simp del]

lemma validUtf8_Nil [simp]: "validUtf8 []"
  by (subst validUtf8.simps) simp

lemma validUtf8_ascii: "\<forall>c\<in>set s. byte c < 128 \<Longrightarrow> validUtf8 s"
proof (induction s)
  case (Cons a s)
  then show ?case by (subst validUtf8.simps) simp
qed simp

lemma utf8Len_ascii [simp]: "byte c < 128 \<Longrightarrow> utf8Len (c # s) = Some 1"
  by simp

lemma utf8Len_Nil [simp]: "utf8Len [] = None"
  by simp

declare utf8Len.simps [simp del]

lemma is_hex_lower_ascii: "is_hex_lower c \<Longrightarrow> byte c < 128"
  by (auto simp: is_hex_lower_def)

lemma validUtf8_hexEncode [simp]: "validUtf8 (hexEncode b)"
  using hexEncode_lower [of b]
  by (auto intro!: validUtf8_ascii is_hex_lower_ascii simp: list_all_iff)

section \<open>Cryptographic primitives\<close>

text \<open>
  SHA-256 and Ed25519 are parameters of the model. \<open>crypto_ok\<close> states what Go documents of
  them: a SHA-256 digest has 32 bytes; signing with a 64-byte private key gives 64 bytes that
  verify under the key's public half, which has 32 bytes. \<open>ed25519.Sign\<close> panics on a private
  key of another length, \<open>ed25519.Verify\<close> on a public key of another length, and it
  rejects a signature of another length; the wrappers below say so.
\<close>

record crypto =
  sha256 :: "bytes \<Rightarrow> bytes"
  edSign :: "bytes \<Rightarrow> bytes \<Rightarrow> bytes"
  edVerify :: "bytes \<Rightarrow> bytes \<Rightarrow> bytes \<Rightarrow> bool"
  edPublic :: "bytes \<Rightarrow> bytes"

definition crypto_ok :: "crypto \<Rightarrow> bool" where
  "crypto_ok C \<longleftrightarrow>
     (\<forall>m. length (sha256 C m) = 32) \<and>
     (\<forall>k m. length k = 64 \<longrightarrow> length (edSign C k m) = 64 \<and>
        length (edPublic C k) = 32 \<and> edVerify C (edPublic C k) m (edSign C k m))"

definition ed25519Sign :: "crypto \<Rightarrow> bytes \<Rightarrow> bytes \<Rightarrow> ('e, bytes) go" where
  "ed25519Sign C priv msg = (if length priv = 64 then Ok (edSign C priv msg) else Panic)"

definition ed25519Verify :: "crypto \<Rightarrow> bytes \<Rightarrow> bytes \<Rightarrow> bytes \<Rightarrow> ('e, bool) go" where
  "ed25519Verify C pub msg sig =
     (if length pub \<noteq> 32 then Panic
      else Ok (length sig = 64 \<and> edVerify C pub msg sig))"

lemma crypto_okD:
  assumes "crypto_ok C"
  shows "length (sha256 C m) = 32"
    and "length k = 64 \<Longrightarrow> length (edSign C k m) = 64"
    and "length k = 64 \<Longrightarrow> length (edPublic C k) = 32"
    and "length k = 64 \<Longrightarrow> edVerify C (edPublic C k) m (edSign C k m)"
  using assms by (auto simp: crypto_ok_def)

definition hashHex :: "crypto \<Rightarrow> bytes \<Rightarrow> string" where
  "hashHex C b = hexEncode (sha256 C b)"

lemma length_hashHex: "crypto_ok C \<Longrightarrow> length (hashHex C b) = 64"
  by (simp add: hashHex_def crypto_ok_def)

lemma hashHex_lower: "list_all is_hex_lower (hashHex C b)"
  by (simp add: hashHex_def hexEncode_lower)

lemma hashHex_utf8 [simp]: "validUtf8 (hashHex C b)"
  by (simp add: hashHex_def)

text \<open>
  A concrete instance for witnesses: a digest that is a 32-byte padding of the length and the
  bytes' sum, and a signature that repeats the digest of key and message.
\<close>

definition toyDigest :: "bytes \<Rightarrow> bytes" where
  "toyDigest b = map (\<lambda>i. char_of (foldl (\<lambda>a c. (31 * a + byte c + i) mod 65521) (length b + i) b mod 256)) [0..<32]"

definition toyPublic :: "bytes \<Rightarrow> bytes" where
  "toyPublic k = take 32 k"

definition toySign :: "bytes \<Rightarrow> bytes \<Rightarrow> bytes" where
  "toySign k m = toyDigest (take 32 k @ m) @ toyDigest m"

definition toyCrypto :: crypto where
  "toyCrypto = \<lparr>sha256 = toyDigest, edSign = toySign,
     edVerify = (\<lambda>p m s. s = toySign p m), edPublic = toyPublic\<rparr>"

lemma length_toyDigest [simp]: "length (toyDigest b) = 32"
  by (simp add: toyDigest_def)

lemma toyCrypto_ok: "crypto_ok toyCrypto"
  by (simp add: crypto_ok_def toyCrypto_def toySign_def toyPublic_def)

end
