(* ===== verification/Json.thy ===== *)
theory Json
  imports GoLib
begin

text \<open>
  The part of \<open>encoding/json\<close> the program relies on: encoding of strings with HTML escaping
  and replacement of invalid UTF-8 (\<open>json.Marshal\<close>), encoding of objects in a given field
  order, and decoding (\<open>json.Unmarshal\<close>): the scanner's grammar with its nesting limit,
  unquoting with surrogates and UTF-8 repair, and matching of object keys to struct fields.
  The round-trip lemmas are for flat objects, the only ones the program stores.
\<close>

section \<open>Values\<close>

text \<open>A number keeps its literal text, as the decoder does until it knows the target type.\<close>

datatype json =
    JNull
  | JBool bool
  | JNum string
  | JStr string
  | JArr "json list"
  | JObj "(string \<times> json) list"

section \<open>Encoding\<close>

abbreviation quote :: char where "quote \<equiv> CHR 0x22"
abbreviation bslash :: char where "bslash \<equiv> CHR 0x5C"

definition jsonEscape :: "char \<Rightarrow> string" where
  "jsonEscape c = (let b = byte c in
     if b = 34 \<or> b = 92 then [bslash, c]
     else if b = 8 then [bslash, CHR ''b'']
     else if b = 12 then [bslash, CHR ''f'']
     else if b = 10 then [bslash, CHR ''n'']
     else if b = 13 then [bslash, CHR ''r'']
     else if b = 9 then [bslash, CHR ''t'']
     else if b < 32 \<or> b = 60 \<or> b = 62 \<or> b = 38
       then [bslash, CHR ''u'', CHR ''0'', CHR ''0'', hexdig (b div 16), hexdig (b mod 16)]
     else [c])"

function jsonBody :: "string \<Rightarrow> string" where
  "jsonBody s = (case s of [] \<Rightarrow> [] | c # cs \<Rightarrow>
     if byte c < 128 then jsonEscape c @ jsonBody cs
     else (case utf8Len s of
         None \<Rightarrow> bslash # ''ufffd'' @ jsonBody cs
       | Some n \<Rightarrow>
           (if take n s = [CHR 0xE2, CHR 0x80, CHR 0xA8] then bslash # ''u2028''
            else if take n s = [CHR 0xE2, CHR 0x80, CHR 0xA9] then bslash # ''u2029''
            else take n s) @ jsonBody (drop n s)))"
  by pat_completeness auto
termination
  by (relation "measure length") (auto dest: utf8Len_pos)

declare jsonBody.simps [simp del]

definition jsonString :: "string \<Rightarrow> string" where
  "jsonString s = quote # jsonBody s @ [quote]"

fun joinWith :: "string \<Rightarrow> string list \<Rightarrow> string" where
  "joinWith sep [] = []"
| "joinWith sep [x] = x"
| "joinWith sep (x # xs) = x @ sep @ joinWith sep xs"

fun jsonEnc :: "json \<Rightarrow> string" where
  "jsonEnc JNull = ''null''"
| "jsonEnc (JBool b) = (if b then ''true'' else ''false'')"
| "jsonEnc (JNum t) = t"
| "jsonEnc (JStr s) = jsonString s"
| "jsonEnc (JArr vs) = CHR ''['' # joinWith '','' (map jsonEnc vs) @ '']''"
| "jsonEnc (JObj ms) = CHR ''{'' #
     joinWith '','' (map (\<lambda>(k, v). jsonString k @ '':'' @ jsonEnc v) ms) @ ''}''"

section \<open>Decoding: strings\<close>

definition encodeRune :: "nat \<Rightarrow> string" where
  "encodeRune r =
     (if r < 128 then [char_of r]
      else if r < 2048 then [char_of (192 + r div 64), char_of (128 + r mod 64)]
      else if (55296 \<le> r \<and> r \<le> 57343) \<or> 1114111 < r then [CHR 0xEF, CHR 0xBF, CHR 0xBD]
      else if r < 65536 then
        [char_of (224 + r div 4096), char_of (128 + r div 64 mod 64), char_of (128 + r mod 64)]
      else [char_of (240 + r div 262144), char_of (128 + r div 4096 mod 64),
            char_of (128 + r div 64 mod 64), char_of (128 + r mod 64)])"

definition unescape :: "char \<Rightarrow> char option" where
  "unescape c =
     (if c = quote \<or> c = bslash \<or> c = CHR ''/'' then Some c
      else if c = CHR ''b'' then Some (CHR 0x08)
      else if c = CHR ''f'' then Some (CHR 0x0C)
      else if c = CHR ''n'' then Some (CHR 0x0A)
      else if c = CHR ''r'' then Some (CHR 0x0D)
      else if c = CHR ''t'' then Some (CHR 0x09)
      else None)"

fun getu4 :: "string \<Rightarrow> nat option" where
  "getu4 (a # b # c # d # _) =
     (case (hexval a, hexval b, hexval c, hexval d) of
        (Some w, Some x, Some y, Some z) \<Rightarrow> Some (4096 * w + 256 * x + 16 * y + z)
      | _ \<Rightarrow> None)"
| "getu4 _ = None"

text \<open>
  \<open>unicodeEscape s\<close>, for \<open>s\<close> after a \<open>\u\<close>: the decoded rune and how many bytes it took.
  A high surrogate combines with a low one that follows as another \<open>\u\<close>; any other
  surrogate becomes the replacement character.
\<close>

definition unicodeEscape :: "string \<Rightarrow> (string \<times> nat) option" where
  "unicodeEscape s = (case getu4 s of None \<Rightarrow> None | Some r \<Rightarrow>
     if 55296 \<le> r \<and> r < 57344 then
       (case drop 4 s of a # b # t \<Rightarrow>
          if a = bslash \<and> b = CHR ''u'' \<and> r < 56320 then
            (case getu4 t of
               Some q \<Rightarrow> if 56320 \<le> q \<and> q < 57344
                 then Some (encodeRune (65536 + (r - 55296) * 1024 + (q - 56320)), 10)
                 else Some (encodeRune 65533, 4)
             | None \<Rightarrow> Some (encodeRune 65533, 4))
          else Some (encodeRune 65533, 4)
        | _ \<Rightarrow> Some (encodeRune 65533, 4))
     else Some (encodeRune r, 4))"

text \<open>
  \<open>unquote s\<close>, for \<open>s\<close> after the opening quote: the string's value and the input after
  the closing quote.
\<close>

function unquote :: "string \<Rightarrow> (string \<times> string) option" where
  "unquote s = (case s of [] \<Rightarrow> None | c # cs \<Rightarrow>
     if c = quote then Some ([], cs)
     else if c = bslash then
       (case cs of [] \<Rightarrow> None | e # ds \<Rightarrow>
          if e = CHR ''u'' then
            (case unicodeEscape ds of None \<Rightarrow> None
             | Some (r, n) \<Rightarrow> map_option (\<lambda>(t, rest). (r @ t, rest)) (unquote (drop n ds)))
          else (case unescape e of None \<Rightarrow> None
             | Some x \<Rightarrow> map_option (\<lambda>(t, rest). (x # t, rest)) (unquote ds)))
     else if byte c < 32 then None
     else (case utf8Len s of
         None \<Rightarrow> map_option (\<lambda>(t, rest). ([CHR 0xEF, CHR 0xBF, CHR 0xBD] @ t, rest)) (unquote cs)
       | Some n \<Rightarrow> map_option (\<lambda>(t, rest). (take n s @ t, rest)) (unquote (drop n s))))"
  by pat_completeness auto
termination
  by (relation "measure length") (auto dest: utf8Len_pos)

declare unquote.simps [simp del]

section \<open>Decoding: numbers and values\<close>

definition skipWs :: "string \<Rightarrow> string" where
  "skipWs s = dropWhile (\<lambda>c. byte c \<in> {32, 9, 10, 13}) s"

definition scanFrac :: "string \<Rightarrow> (string \<times> string) option" where
  "scanFrac s = (case s of
     c # t \<Rightarrow> if c = CHR ''.'' then
         (if takeWhile is_digit t = [] then None
          else Some (c # takeWhile is_digit t, dropWhile is_digit t))
       else Some ([], s)
   | [] \<Rightarrow> Some ([], []))"

definition scanExp :: "string \<Rightarrow> (string \<times> string) option" where
  "scanExp s = (case s of
     c # t \<Rightarrow> if c = CHR ''e'' \<or> c = CHR ''E'' then
         (let sg = (case t of d # _ \<Rightarrow> if d = CHR ''+'' \<or> d = CHR ''-'' then [d] else [] | [] \<Rightarrow> []);
              u = drop (length sg) t
          in if takeWhile is_digit u = [] then None
             else Some (c # sg @ takeWhile is_digit u, dropWhile is_digit u))
       else Some ([], s)
   | [] \<Rightarrow> Some ([], []))"

definition scanInt :: "string \<Rightarrow> (string \<times> string) option" where
  "scanInt s = (case s of
     [] \<Rightarrow> None
   | c # t \<Rightarrow> if c = CHR ''0'' then Some ([c], t)
             else if is_digit c then Some (takeWhile is_digit s, dropWhile is_digit s)
             else None)"

definition scanNumber :: "string \<Rightarrow> (string \<times> string) option" where
  "scanNumber s =
     (let sg = (case s of c # _ \<Rightarrow> if c = CHR ''-'' then [c] else [] | [] \<Rightarrow> []) in
      case scanInt (drop (length sg) s) of None \<Rightarrow> None | Some (i, s1) \<Rightarrow>
      (case scanFrac s1 of None \<Rightarrow> None | Some (f, s2) \<Rightarrow>
      (case scanExp s2 of None \<Rightarrow> None | Some (e, s3) \<Rightarrow> Some (sg @ i @ f @ e, s3))))"

text \<open>
  The value parser. The first argument is fuel, one unit per call; the second is the nesting
  depth, which the scanner limits to 10000. Fuel above the length of a well-formed text is
  never exhausted (\<open>parseValue_enc\<close>), and running out of it on a malformed one is the
  syntax error it has anyway.
\<close>

fun parseValue :: "nat \<Rightarrow> nat \<Rightarrow> string \<Rightarrow> (json \<times> string) option"
  and parseElems :: "nat \<Rightarrow> nat \<Rightarrow> string \<Rightarrow> (json list \<times> string) option"
  and parseMembers :: "nat \<Rightarrow> nat \<Rightarrow> string \<Rightarrow> ((string \<times> json) list \<times> string) option" where
  "parseValue 0 d s = None"
| "parseValue (Suc n) d s = (case skipWs s of [] \<Rightarrow> None | c # t \<Rightarrow>
     if c = quote then map_option (map_prod JStr id) (unquote t)
     else if c = CHR ''{'' then
       (if 10000 \<le> d then None
        else (case skipWs t of x # u \<Rightarrow>
            if x = CHR ''}'' then Some (JObj [], u)
            else map_option (map_prod JObj id) (parseMembers n (Suc d) t)
          | [] \<Rightarrow> None))
     else if c = CHR ''['' then
       (if 10000 \<le> d then None
        else (case skipWs t of x # u \<Rightarrow>
            if x = CHR '']'' then Some (JArr [], u)
            else map_option (map_prod JArr id) (parseElems n (Suc d) t)
          | [] \<Rightarrow> None))
     else if take 4 (c # t) = ''null'' then Some (JNull, drop 3 t)
     else if take 4 (c # t) = ''true'' then Some (JBool True, drop 3 t)
     else if take 5 (c # t) = ''false'' then Some (JBool False, drop 4 t)
     else map_option (map_prod JNum id) (scanNumber (c # t)))"
| "parseElems 0 d s = None"
| "parseElems (Suc n) d s = (case parseValue n d s of None \<Rightarrow> None | Some (v, s1) \<Rightarrow>
     (case skipWs s1 of [] \<Rightarrow> None | c # s2 \<Rightarrow>
        if c = CHR '']'' then Some ([v], s2)
        else if c = CHR '','' then map_option (map_prod (Cons v) id) (parseElems n d s2)
        else None))"
| "parseMembers 0 d s = None"
| "parseMembers (Suc n) d s = (case skipWs s of [] \<Rightarrow> None | q # s0 \<Rightarrow>
     if q \<noteq> quote then None else
     (case unquote s0 of None \<Rightarrow> None | Some (k, s1) \<Rightarrow>
     (case skipWs s1 of [] \<Rightarrow> None | col # s2 \<Rightarrow>
     if col \<noteq> CHR '':'' then None else
     (case parseValue n d s2 of None \<Rightarrow> None | Some (v, s3) \<Rightarrow>
     (case skipWs s3 of [] \<Rightarrow> None | c # s4 \<Rightarrow>
        if c = CHR ''}'' then Some ([(k, v)], s4)
        else if c = CHR '','' then map_option (map_prod (Cons (k, v)) id) (parseMembers n d s4)
        else None)))))"

definition jsonParse :: "string \<Rightarrow> json option" where
  "jsonParse s = (case parseValue (length s + 2) 0 s of
     Some (v, rest) \<Rightarrow> if skipWs rest = [] then Some v else None
   | None \<Rightarrow> None)"

section \<open>Decoding into struct fields\<close>

text \<open>
  An object key selects the field of that name or, failing that, one that is equal under
  the decoder's case folding, in which the long s and the Kelvin sign fold to ASCII letters.
\<close>

fun foldKey :: "string \<Rightarrow> string" where
  "foldKey [] = []"
| "foldKey (a # s) =
     (case s of
        b # t \<Rightarrow>
          if a = CHR 0xC5 \<and> b = CHR 0xBF then CHR ''S'' # foldKey t
          else (case t of
              c # u \<Rightarrow> if a = CHR 0xE2 \<and> b = CHR 0x84 \<and> c = CHR 0xAA then CHR ''K'' # foldKey u
                 else (if 97 \<le> byte a \<and> byte a \<le> 122 then char_of (byte a - 32) else a) # foldKey s
            | [] \<Rightarrow> (if 97 \<le> byte a \<and> byte a \<le> 122 then char_of (byte a - 32) else a) # foldKey s)
      | [] \<Rightarrow> [if 97 \<le> byte a \<and> byte a \<le> 122 then char_of (byte a - 32) else a])"

definition matchField :: "string list \<Rightarrow> string \<Rightarrow> string option" where
  "matchField names k = (if k \<in> set names then Some k
     else find (\<lambda>n. foldKey n = foldKey k) names)"

text \<open>\<open>strconv.ParseInt\<close> and \<open>ParseUint\<close> on a number literal, base 10, 64 bits.\<close>

definition parseI64 :: "string \<Rightarrow> i64 option" where
  "parseI64 t = (case t of [] \<Rightarrow> None | c # u \<Rightarrow>
     let v = (if c = CHR ''-'' then - int (readNat u) else int (readNat t));
         ds = (if c = CHR ''-'' then u else t)
     in if ds \<noteq> [] \<and> list_all is_digit ds \<and> in_i64 v then Some v else None)"

definition parseU64 :: "string \<Rightarrow> u64 option" where
  "parseU64 t = (if t \<noteq> [] \<and> list_all is_digit t \<and> readNat t < 2 ^ 64
     then Some (of_nat (readNat t)) else None)"

section \<open>Round trip of strings\<close>

lemma hexval_0: "hexval (CHR ''0'') = Some 0"
  by (simp add: hexval_def)

lemma getu4_00: "x < 16 \<Longrightarrow> y < 16 \<Longrightarrow> getu4 (CHR ''0'' # CHR ''0'' # hexdig x # hexdig y # s) = Some (16 * x + y)"
  by (simp add: hexval_0)

lemma unquote_u00:
  assumes "x < 16" "y < 16" "16 * x + y < 128"
  shows "unquote (bslash # CHR ''u'' # CHR ''0'' # CHR ''0'' # hexdig x # hexdig y # s) =
    map_option (\<lambda>(t, r). (char_of (16 * x + y) # t, r)) (unquote s)"
  using assms by (subst unquote.simps) (simp add: unicodeEscape_def getu4_00 encodeRune_def del: getu4.simps)

lemma unquote_plain:
  assumes "byte c < 128" "32 \<le> byte c" "c \<noteq> quote" "c \<noteq> bslash"
  shows "unquote (c # s) = map_option (\<lambda>(t, r). (c # t, r)) (unquote s)"
  using assms by (subst unquote.simps) simp

lemma unquote_short:
  assumes "unescape e = Some x"
  shows "unquote (bslash # e # s) = map_option (\<lambda>(t, r). (x # t, r)) (unquote s)"
proof -
  from assms have "e \<noteq> CHR ''u''" by (auto simp: unescape_def)
  with assms show ?thesis by (subst unquote.simps) simp
qed

lemma byte_eq_charI: "byte c = n \<Longrightarrow> c = char_of n"
  by auto

lemma unquote_jsonEscape:
  assumes "byte c < 128"
  shows "unquote (jsonEscape c @ s) = map_option (\<lambda>(t, r). (c # t, r)) (unquote s)"
proof -
  consider "byte c \<in> {34, 92, 8, 12, 10, 13, 9}"
    | "byte c \<notin> {34, 92, 8, 12, 10, 13, 9}" "byte c < 32 \<or> byte c = 60 \<or> byte c = 62 \<or> byte c = 38"
    | "byte c \<notin> {34, 92, 60, 62, 38}" "32 \<le> byte c"
    by fastforce
  then show ?thesis
  proof cases
    case 1
    then have "c = quote \<or> c = bslash \<or> c = CHR 0x08 \<or> c = CHR 0x0C \<or> c = CHR 0x0A \<or> c = CHR 0x0D \<or> c = CHR 0x09"
      by (auto dest!: byte_eq_charI simp: char_of_eq_iff take_bit_eq_mod)
    then show ?thesis
      by (elim disjE) (simp_all add: jsonEscape_def unquote_short unescape_def)
  next
    case 2
    have "byte c div 16 < 16" "byte c mod 16 < 16" "16 * (byte c div 16) + byte c mod 16 = byte c"
      by simp_all
    then have "unquote (bslash # CHR ''u'' # CHR ''0'' # CHR ''0'' # hexdig (byte c div 16) # hexdig (byte c mod 16) # s) =
      map_option (\<lambda>(t, r). (c # t, r)) (unquote s)"
      using assms unquote_u00 [of "byte c div 16" "byte c mod 16" s] by (metis char_of_byte)
    with 2 show ?thesis by (simp add: jsonEscape_def Let_def)
  next
    case 3
    then have "c \<noteq> quote" "c \<noteq> bslash" by auto
    with 3 assms show ?thesis by (simp add: jsonEscape_def Let_def unquote_plain)
  qed
qed

lemma unquote_multibyte:
  assumes "utf8Len s = Some n" and "128 \<le> byte (hd s)" and "s \<noteq> []"
  shows "unquote (take n s @ u) = map_option (\<lambda>(t, r). (take n s @ t, r)) (unquote u)"
proof -
  have n: "0 < n" "n \<le> length s" using utf8Len_pos [OF assms(1)] by auto
  then obtain c cs where tk: "take n s = c # cs" and c: "c = hd s"
    using assms(3) by (cases s; cases n) auto
  have len: "utf8Len (c # cs @ u) = Some n"
    using utf8Len_append [OF utf8Len_take [OF assms(1)], of u] tk by simp
  have "length (c # cs) = n" using n tk by (metis length_take min.absorb2)
  then have td: "take n (c # cs @ u) = c # cs" "drop n (c # cs @ u) = u" by auto
  have "c \<noteq> quote" "c \<noteq> bslash" "\<not> byte c < 32" using assms(2) c by auto
  then show ?thesis
    unfolding tk by (subst unquote.simps) (simp add: len td)
qed

lemma unquote_uescape:
  assumes "getu4 (w # x # y # z # s) = Some r" and "r < 55296 \<or> 57344 \<le> r"
  shows "unquote (bslash # CHR ''u'' # w # x # y # z # s) =
    map_option (\<lambda>(t, q). (encodeRune r @ t, q)) (unquote s)"
  using assms by (subst unquote.simps) (auto simp: unicodeEscape_def simp del: getu4.simps)

lemma unquote_quote [simp]: "unquote (quote # rest) = Some ([], rest)"
  by (subst unquote.simps) simp

text \<open>
  \<open>coerceUtf8\<close>: what decoding gives back of an encoded string, with every byte that is not
  valid UTF-8 replaced by U+FFFD.
\<close>

function coerceUtf8 :: "string \<Rightarrow> string" where
  "coerceUtf8 s = (case s of [] \<Rightarrow> [] | c # cs \<Rightarrow>
     (case utf8Len s of
        None \<Rightarrow> [CHR 0xEF, CHR 0xBF, CHR 0xBD] @ coerceUtf8 cs
      | Some n \<Rightarrow> take n s @ coerceUtf8 (drop n s)))"
  by pat_completeness auto
termination
  by (relation "measure length") (auto dest: utf8Len_pos)

declare coerceUtf8.simps [simp del]

lemma coerceUtf8_valid: "validUtf8 s \<Longrightarrow> coerceUtf8 s = s"
proof (induction s rule: coerceUtf8.induct)
  case (1 s)
  show ?case
  proof (cases s)
    case Nil
    then show ?thesis by (simp add: coerceUtf8.simps)
  next
    case (Cons c cs)
    from "1.prems" Cons obtain n where n: "utf8Len s = Some n" and v: "validUtf8 (drop n s)"
      by (subst (asm) validUtf8.simps) (auto split: option.splits)
    have "coerceUtf8 (drop n s) = drop n s"
      using "1.IH"(2) [OF Cons n] v by simp
    with Cons n show ?thesis by (subst coerceUtf8.simps) simp
  qed
qed

lemma unquote_jsonBody_any: "unquote (jsonBody s @ quote # rest) = Some (coerceUtf8 s, rest)"
proof (induction s rule: jsonBody.induct)
  case (1 s)
  show ?case
  proof (cases s)
    case Nil
    then show ?thesis by (simp add: jsonBody.simps [of "[]"] coerceUtf8.simps [of "[]"])
  next
    case (Cons c cs)
    show ?thesis
    proof (cases "byte c < 128")
      case True
      then have "unquote (jsonBody cs @ quote # rest) = Some (coerceUtf8 cs, rest)"
        using "1.IH"(1) [OF Cons True] by simp
      with Cons True show ?thesis
        by (simp add: jsonBody.simps [of "c # cs"] coerceUtf8.simps [of "c # cs"] unquote_jsonEscape)
    next
      case high: False
      show ?thesis
      proof (cases "utf8Len s")
        case None
        have "unquote (bslash # ''ufffd'' @ jsonBody cs @ quote # rest) =
            Some ([CHR 0xEF, CHR 0xBF, CHR 0xBD] @ coerceUtf8 cs, rest)"
          using unquote_uescape [of "CHR ''f''" "CHR ''f''" "CHR ''f''" "CHR ''d''" _ 65533]
            "1.IH"(2) [OF Cons high None]
          by (simp add: hexval_def encodeRune_def char_of_eq_iff take_bit_eq_mod)
        with Cons high None show ?thesis
          by (subst jsonBody.simps, subst coerceUtf8.simps) simp
      next
        case (Some n)
        have IH: "unquote (jsonBody (drop n s) @ quote # rest) = Some (coerceUtf8 (drop n s), rest)"
          using "1.IH"(3) [OF Cons high Some] .
        have c: "coerceUtf8 s = take n s @ coerceUtf8 (drop n s)"
          using Cons Some by (subst coerceUtf8.simps) simp
        have tk: "unquote (take n s @ jsonBody (drop n s) @ quote # rest) = Some (coerceUtf8 s, rest)"
          using unquote_multibyte [OF Some] Cons high IH c by simp
        have a: "unquote (bslash # ''u2028'' @ jsonBody (drop n s) @ quote # rest) =
            Some ([CHR 0xE2, CHR 0x80, CHR 0xA8] @ coerceUtf8 (drop n s), rest)"
          using unquote_uescape [of "CHR ''2''" "CHR ''0''" "CHR ''2''" "CHR ''8''" _ 8232] IH
          by (simp add: hexval_def encodeRune_def char_of_eq_iff take_bit_eq_mod)
        have b: "unquote (bslash # ''u2029'' @ jsonBody (drop n s) @ quote # rest) =
            Some ([CHR 0xE2, CHR 0x80, CHR 0xA9] @ coerceUtf8 (drop n s), rest)"
          using unquote_uescape [of "CHR ''2''" "CHR ''0''" "CHR ''2''" "CHR ''9''" _ 8233] IH
          by (simp add: hexval_def encodeRune_def char_of_eq_iff take_bit_eq_mod)
        show ?thesis
          using Cons high Some tk a b c by (subst jsonBody.simps) auto
      qed
    qed
  qed
qed

lemma unquote_jsonBody: "validUtf8 s \<Longrightarrow> unquote (jsonBody s @ quote # rest) = Some (s, rest)"
  by (simp add: unquote_jsonBody_any coerceUtf8_valid)

lemma jsonParse_string: "jsonParse (jsonString s) = Some (JStr (coerceUtf8 s))"
  by (simp add: jsonParse_def jsonString_def skipWs_def unquote_jsonBody_any)

section \<open>Round trip of flat objects\<close>

text \<open>
  The values the program writes: valid UTF-8 strings, integer literals, and arrays and objects
  of them. \<open>jdepth\<close> is the nesting depth that the decoder limits.
\<close>

fun json_ok :: "json \<Rightarrow> bool" where
  "json_ok JNull = True"
| "json_ok (JBool _) = True"
| "json_ok (JStr s) = validUtf8 s"
| "json_ok (JNum t) = (\<exists>i. t = showInt i)"
| "json_ok (JArr vs) = (\<forall>v\<in>set vs. json_ok v)"
| "json_ok (JObj ms) = (\<forall>m\<in>set ms. validUtf8 (fst m) \<and> json_ok (snd m))"

fun jdepth :: "json \<Rightarrow> nat" where
  "jdepth (JArr vs) = Suc (Max (insert 0 (set (map jdepth vs))))"
| "jdepth (JObj ms) = Suc (Max (insert 0 (set (map (\<lambda>m. jdepth (snd m)) ms))))"
| "jdepth _ = 0"

lemma jdepth_elem: "v \<in> set vs \<Longrightarrow> jdepth v < jdepth (JArr vs)"
  by (simp add: less_Suc_eq_le)

lemma jdepth_member: "m \<in> set ms \<Longrightarrow> jdepth (snd m) < jdepth (JObj ms)"
  by (simp add: less_Suc_eq_le)

definition term_char :: "char \<Rightarrow> bool" where
  "term_char c \<longleftrightarrow> c = CHR '','' \<or> c = CHR ''}'' \<or> c = CHR '']''"

text \<open>What may follow a value: nothing, or the delimiter of the enclosing array or object.\<close>

definition stops :: "string \<Rightarrow> bool" where
  "stops s \<longleftrightarrow> s = [] \<or> term_char (hd s)"

lemma stops_Cons [simp]: "stops (c # s) \<longleftrightarrow> term_char c"
  by (simp add: stops_def)

lemma skipWs_Cons: "byte c \<notin> {32, 9, 10, 13} \<Longrightarrow> skipWs (c # s) = c # s"
  by (simp add: skipWs_def)

lemma term_char_facts:
  "term_char c \<Longrightarrow> \<not> is_digit c \<and> c \<noteq> CHR ''.'' \<and> c \<noteq> CHR ''e'' \<and> c \<noteq> CHR ''E'' \<and> byte c \<notin> {32, 9, 10, 13}"
  by (auto simp: term_char_def is_digit_def)

lemma takeWhile_showNat:
  "stops s \<Longrightarrow> takeWhile is_digit (showNat n @ s) = showNat n"
  "stops s \<Longrightarrow> dropWhile is_digit (showNat n @ s) = s"
  using showNat_digits [of n]
  by (cases s; auto simp: takeWhile_append2 dropWhile_append2 dest: term_char_facts)+

lemma scanInt_showNat:
  assumes "stops s"
  shows "scanInt (showNat n @ s) = Some (showNat n, s)"
proof (cases "n = 0")
  case True
  then show ?thesis by (simp add: scanInt_def showNat_0)
next
  case False
  obtain d ds where d: "showNat n = d # ds" using showNat_not_Nil [of n] by (cases "showNat n") auto
  have "d \<noteq> CHR ''0''" using showNat_hd_zero [of n] False d by simp
  moreover have "is_digit d" using showNat_digits [of n] d by simp
  ultimately show ?thesis
    using takeWhile_showNat [OF assms, of n] unfolding d by (simp add: scanInt_def)
qed

lemma scanNumber_showInt:
  assumes "stops s"
  shows "scanNumber (showInt i @ s) = Some (showInt i, s)"
proof -
  have tail: "scanFrac s = Some ([], s)" "scanExp s = Some ([], s)"
    using assms by (cases s; auto simp: scanFrac_def scanExp_def dest: term_char_facts)+
  show ?thesis
  proof (cases "i < 0")
    case True
    then show ?thesis
      by (simp add: showInt_def scanNumber_def scanInt_showNat [OF assms] tail)
  next
    case False
    obtain d ds where d: "showNat (nat i) = d # ds" using showNat_not_Nil by (cases "showNat (nat i)") auto
    have "is_digit d" using showNat_digits [of "nat i"] d by simp
    then have "d \<noteq> CHR ''-''" by (auto simp: is_digit_def)
    then show ?thesis
      using False scanInt_showNat [OF assms, of "nat i"] d tail
      by (simp add: showInt_def scanNumber_def)
  qed
qed

lemma showInt_first:
  "\<exists>d ds. showInt i = d # ds \<and> (is_digit d \<or> d = CHR ''-'')"
proof (cases "i < 0")
  case True
  then show ?thesis by (simp add: showInt_def)
next
  case False
  then show ?thesis
    using showNat_not_Nil [of "nat i"] showNat_digits [of "nat i"]
    by (cases "showNat (nat i)") (auto simp: showInt_def)
qed

lemma skipWs_first:
  "json_ok v \<Longrightarrow> \<exists>c t. jsonEnc v = c # t \<and> byte c \<notin> {32, 9, 10, 13} \<and> c \<noteq> CHR '']'' \<and> c \<noteq> CHR ''}''"
proof (cases v)
  case (JNum t)
  assume "json_ok v"
  then obtain i where "t = showInt i" using JNum by auto
  then show ?thesis using JNum showInt_first [of i] by (auto simp: is_digit_def)
qed (auto simp: jsonString_def)

lemma parseValue_num:
  assumes "stops s"
  shows "parseValue (Suc n) d (showInt i @ s) = Some (JNum (showInt i), s)"
proof -
  obtain e es where e: "showInt i = e # es" and de: "is_digit e \<or> e = CHR ''-''"
    using showInt_first by blast
  have "e \<noteq> quote" "e \<noteq> CHR ''{''" "e \<noteq> CHR ''[''" "e \<noteq> CHR ''n''" "e \<noteq> CHR ''t''" "e \<noteq> CHR ''f''"
    "byte e \<notin> {32, 9, 10, 13}"
    using de by (auto simp: is_digit_def)
  then show ?thesis
    using e scanNumber_showInt [OF assms, of i] by (simp add: skipWs_Cons)
qed

text \<open>The encoder's output for one member, and for the members after the opening brace.\<close>

abbreviation encMember :: "string \<times> json \<Rightarrow> string" where
  "encMember \<equiv> (\<lambda>(k, v). jsonString k @ '':'' @ jsonEnc v)"

lemma joinWith_Cons: "joinWith sep (x # xs) = x @ (if xs = [] then [] else sep @ joinWith sep xs)"
  by (cases xs) auto

text \<open>
  One step of the list parsers: if the first value is read back up to its terminator, the rest
  of the list is read from there.
\<close>

lemma parseElems_step:
  assumes "\<And>c t. term_char c \<Longrightarrow> parseValue n d (jsonEnc v @ c # t) = Some (v, c # t)"
    and "vs \<noteq> [] \<Longrightarrow> parseElems n d (joinWith '','' (map jsonEnc vs) @ CHR '']'' # s) = Some (vs, s)"
  shows "parseElems (Suc n) d (joinWith '','' (map jsonEnc (v # vs)) @ CHR '']'' # s) = Some (v # vs, s)"
proof (cases "vs = []")
  case True
  then show ?thesis using assms(1) [of "CHR '']''" s] by (simp add: term_char_def skipWs_Cons)
next
  case False
  then show ?thesis
    using assms(1) [of "CHR '',''" "joinWith '','' (map jsonEnc vs) @ CHR '']'' # s"] assms(2)
    by (simp add: term_char_def skipWs_Cons joinWith_Cons)
qed

lemma parseMembers_step:
  assumes "validUtf8 k"
    and "\<And>c t. term_char c \<Longrightarrow> parseValue n d (jsonEnc v @ c # t) = Some (v, c # t)"
    and "ms \<noteq> [] \<Longrightarrow> parseMembers n d (joinWith '','' (map encMember ms) @ CHR ''}'' # s) = Some (ms, s)"
  shows "parseMembers (Suc n) d (joinWith '','' (map encMember ((k, v) # ms)) @ CHR ''}'' # s)
    = Some ((k, v) # ms, s)"
proof (cases "ms = []")
  case True
  then show ?thesis using assms(2) [of "CHR ''}''" s]
    by (simp add: term_char_def skipWs_Cons jsonString_def unquote_jsonBody [OF assms(1)])
next
  case False
  then show ?thesis
    using assms(2) [of "CHR '',''" "joinWith '','' (map encMember ms) @ CHR ''}'' # s"] assms(3)
    by (simp add: term_char_def skipWs_Cons joinWith_Cons jsonString_def unquote_jsonBody [OF assms(1)])
qed

lemma parseElems_enc:
  assumes "\<And>v n c t. v \<in> set vs \<Longrightarrow> length (jsonEnc v) < n \<Longrightarrow> term_char c \<Longrightarrow>
      parseValue n d (jsonEnc v @ c # t) = Some (v, c # t)"
    and "vs \<noteq> []" and "length (joinWith '','' (map jsonEnc vs)) + 1 < n"
  shows "parseElems n d (joinWith '','' (map jsonEnc vs) @ CHR '']'' # s) = Some (vs, s)"
  using assms
proof (induction vs arbitrary: n)
  case (Cons v vs)
  obtain m where n: "n = Suc m" using Cons.prems(3) by (cases n) auto
  show ?case unfolding n
  proof (rule parseElems_step)
    show "parseValue m d (jsonEnc v @ c # t) = Some (v, c # t)" if "term_char c" for c t
      using that Cons.prems(3) n by (intro Cons.prems(1)) (auto simp: joinWith_Cons)
    show "parseElems m d (joinWith '','' (map jsonEnc vs) @ CHR '']'' # s) = Some (vs, s)" if "vs \<noteq> []"
      using that Cons.prems n by (intro Cons.IH) (auto simp: joinWith_Cons)
  qed
qed simp

lemma parseMembers_enc:
  assumes "\<And>m n c t. m \<in> set ms \<Longrightarrow> length (jsonEnc (snd m)) < n \<Longrightarrow> term_char c \<Longrightarrow>
      parseValue n d (jsonEnc (snd m) @ c # t) = Some (snd m, c # t)"
    and "\<forall>m\<in>set ms. validUtf8 (fst m)"
    and "ms \<noteq> []" and "length (joinWith '','' (map encMember ms)) + 1 < n"
  shows "parseMembers n d (joinWith '','' (map encMember ms) @ CHR ''}'' # s) = Some (ms, s)"
  using assms
proof (induction ms arbitrary: n)
  case (Cons m ms)
  obtain k v where m: "m = (k, v)" by (cases m)
  obtain j where n: "n = Suc j" using Cons.prems(4) by (cases n) auto
  show ?case unfolding n m
  proof (rule parseMembers_step)
    show "validUtf8 k" using Cons.prems(2) m by simp
    show "parseValue j d (jsonEnc v @ c # t) = Some (v, c # t)" if "term_char c" for c t
      using that Cons.prems(4) n m Cons.prems(1) [of m j c t] by (auto simp: joinWith_Cons)
    show "parseMembers j d (joinWith '','' (map encMember ms) @ CHR ''}'' # s) = Some (ms, s)" if "ms \<noteq> []"
      using that Cons.prems n m by (intro Cons.IH) (auto simp: joinWith_Cons)
  qed
qed simp

lemma parseValue_enc:
  "json_ok v \<Longrightarrow> d + jdepth v \<le> 10000 \<Longrightarrow> length (jsonEnc v) < n \<Longrightarrow> stops s \<Longrightarrow>
   parseValue n d (jsonEnc v @ s) = Some (v, s)"
proof (induction v arbitrary: d n s)
  case (JArr vs)
  obtain m where n: "n = Suc m" using JArr.prems(3) by (cases n) auto
  show ?case
  proof (cases vs)
    case Nil
    then show ?thesis using JArr.prems(2) by (simp add: n skipWs_Cons)
  next
    case (Cons w ws)
    let ?b = "joinWith '','' (map jsonEnc vs)"
    obtain e es where e: "?b = e # es" "byte e \<notin> {32, 9, 10, 13}" "e \<noteq> CHR '']''"
      using skipWs_first [of w] JArr.prems(1) Cons by (auto simp: joinWith_Cons)
    have "parseElems m (Suc d) (?b @ CHR '']'' # s) = Some (vs, s)"
    proof (rule parseElems_enc)
      show "parseValue k (Suc d) (jsonEnc x @ z # t) = Some (x, z # t)"
        if "x \<in> set vs" "length (jsonEnc x) < k" "term_char z" for x k z t
        using that JArr.prems jdepth_elem [OF that(1)]
        by (intro JArr.IH) (auto simp del: jdepth.simps)
    qed (use JArr.prems Cons n in auto)
    then have el: "parseElems m (Suc d) (e # es @ CHR '']'' # s) = Some (vs, s)" by (simp add: e)
    have "d < 10000" using JArr.prems(2) by simp
    then show ?thesis
      using el e(2,3) by (simp add: n skipWs_Cons e(1) del: parseElems.simps)
  qed
next
  case (JObj ms)
  obtain m where n: "n = Suc m" using JObj.prems(3) by (cases n) auto
  show ?case
  proof (cases ms)
    case Nil
    then show ?thesis using JObj.prems(2) by (simp add: n skipWs_Cons)
  next
    case (Cons w ws)
    let ?b = "joinWith '','' (map encMember ms)"
    obtain es where e: "?b = quote # es"
      using Cons by (cases w) (auto simp: joinWith_Cons jsonString_def)
    have "parseMembers m (Suc d) (?b @ CHR ''}'' # s) = Some (ms, s)"
    proof (rule parseMembers_enc)
      show "parseValue k (Suc d) (jsonEnc (snd x) @ z # t) = Some (snd x, z # t)"
        if "x \<in> set ms" "length (jsonEnc (snd x)) < k" "term_char z" for x k z t
        using that JObj.prems jdepth_member [OF that(1)]
        by (intro JObj.IH [of x]) (auto simp: snds.simps simp del: jdepth.simps)
    qed (use JObj.prems Cons n in auto)
    then have "parseMembers m (Suc d) (quote # es @ CHR ''}'' # s) = Some (ms, s)"
      unfolding e by simp
    moreover have "d < 10000" using JObj.prems(2) by simp
    ultimately show ?thesis
      using e by (simp add: n skipWs_Cons del: parseMembers.simps)
  qed
next
  case (JNum t)
  then show ?case by (cases n) (auto simp: parseValue_num simp del: parseValue.simps)
next
  case (JStr t)
  then show ?case by (cases n) (auto simp: jsonString_def skipWs_Cons unquote_jsonBody)
next
  case (JBool b)
  then show ?case by (cases n; cases b) (auto simp: skipWs_Cons)
next
  case JNull
  then show ?case by (cases n) (auto simp: skipWs_Cons)
qed

lemma jsonParse_enc:
  assumes "json_ok v" and "jdepth v \<le> 10000"
  shows "jsonParse (jsonEnc v) = Some v"
  using parseValue_enc [OF assms(1), of 0 "length (jsonEnc v) + 2" "[]"] assms(2)
  by (simp add: jsonParse_def stops_def skipWs_def del: parseValue.simps)

text \<open>The members of a struct without nested values.\<close>

definition flat_ok :: "(string \<times> json) list \<Rightarrow> bool" where
  "flat_ok ms \<longleftrightarrow> (\<forall>(k, v)\<in>set ms. validUtf8 k \<and> json_ok v \<and> jdepth v = 0)"

lemma jsonParse_flat:
  assumes "flat_ok ms"
  shows "jsonParse (jsonEnc (JObj ms)) = Some (JObj ms)"
proof (rule jsonParse_enc)
  show "json_ok (JObj ms)" using assms by (auto simp: flat_ok_def)
  have "(\<lambda>m. jdepth (snd m)) ` set ms \<subseteq> {0}" using assms by (auto simp: flat_ok_def)
  then have eq: "insert 0 ((\<lambda>m. jdepth (snd m)) ` set ms) = {0}" by auto
  have "jdepth (JObj ms) = 1" unfolding jdepth.simps set_map eq by simp
  then show "jdepth (JObj ms) \<le> 10000" by (simp del: jdepth.simps)
qed

section \<open>Round trip of integers\<close>

lemma list_all_showNat: "list_all is_digit (showNat n)"
  using showNat_digits by (simp add: list_all_iff)

lemma parseI64_showInt [simp]: "in_i64 i \<Longrightarrow> parseI64 (showInt i) = Some i"
proof (cases "i < 0")
  case True
  assume "in_i64 i"
  with True show ?thesis
    by (simp add: showInt_def parseI64_def list_all_showNat)
next
  case False
  assume i: "in_i64 i"
  obtain d ds where d: "showNat (nat i) = d # ds" using showNat_not_Nil by (cases "showNat (nat i)") auto
  have "is_digit d" using showNat_digits [of "nat i"] d by simp
  then have "d \<noteq> CHR ''-''" by (auto simp: is_digit_def)
  moreover have "readNat (d # ds) = nat i" "list_all is_digit (d # ds)"
    using d list_all_showNat [of "nat i"] readNat_showNat [of "nat i"] by simp_all
  ultimately show ?thesis
    using False i by (simp add: showInt_def d parseI64_def)
qed

lemma parseU64_showNat [simp]: "parseU64 (showNat (unat (w :: u64))) = Some w"
  using unsigned_less [of w, where 'a = nat] by (simp add: parseU64_def list_all_showNat)

lemma showInt_uint: "showInt (uint (w :: u64)) = showNat (unat w)"
  by (simp add: showInt_def)

end
