(* ===== verification/Base64.thy ===== *)
theory Base64
  imports GoLib
begin

text \<open>
  Go's \<open>base64.StdEncoding\<close>, in which \<open>encoding/json\<close> writes and reads
  \<open>[]byte\<close> values: padded groups of four characters, line breaks ignored on input, no check
  of the unused bits of the last group.
\<close>

definition b64char :: "nat \<Rightarrow> char" where
  "b64char n = (if n < 26 then char_of (65 + n) else if n < 52 then char_of (71 + n)
     else if n < 62 then char_of (n - 4) else if n = 62 then CHR ''+'' else CHR ''/'')"

definition b64val :: "char \<Rightarrow> nat option" where
  "b64val c = (let b = byte c in
     if 65 \<le> b \<and> b \<le> 90 then Some (b - 65)
     else if 97 \<le> b \<and> b \<le> 122 then Some (b - 71)
     else if 48 \<le> b \<and> b \<le> 57 then Some (b + 4)
     else if b = 43 then Some 62
     else if b = 47 then Some 63
     else None)"

fun base64Encode :: "bytes \<Rightarrow> string" where
  "base64Encode [] = []"
| "base64Encode [a] = [b64char (byte a div 4), b64char (byte a mod 4 * 16), CHR ''='', CHR ''='']"
| "base64Encode [a, b] = [b64char (byte a div 4), b64char (byte a mod 4 * 16 + byte b div 16),
     b64char (byte b mod 16 * 4), CHR ''='']"
| "base64Encode (a # b # c # r) = b64char (byte a div 4) # b64char (byte a mod 4 * 16 + byte b div 16) #
     b64char (byte b mod 16 * 4 + byte c div 64) # b64char (byte c mod 64) # base64Encode r"

fun decodeQuanta :: "string \<Rightarrow> bytes option" where
  "decodeQuanta [] = Some []"
| "decodeQuanta (a # b # c # d # r) = (case (b64val a, b64val b) of
     (Some x, Some y) \<Rightarrow>
       (if c = CHR ''='' then
          (if d = CHR ''='' \<and> r = [] then Some [char_of (x * 4 + y div 16)] else None)
        else (case b64val c of None \<Rightarrow> None | Some z \<Rightarrow>
          if d = CHR ''='' then
            (if r = [] then Some [char_of (x * 4 + y div 16), char_of (y mod 16 * 16 + z div 4)] else None)
          else (case b64val d of None \<Rightarrow> None | Some w \<Rightarrow>
            map_option (\<lambda>t. char_of (x * 4 + y div 16) # char_of (y mod 16 * 16 + z div 4) #
              char_of (z mod 4 * 64 + w) # t) (decodeQuanta r))))
   | _ \<Rightarrow> None)"
| "decodeQuanta _ = None"

definition base64Decode :: "string \<Rightarrow> bytes option" where
  "base64Decode s = decodeQuanta (filter (\<lambda>c. byte c \<noteq> 10 \<and> byte c \<noteq> 13) s)"

lemma b64val_b64char [simp]: "n < 64 \<Longrightarrow> b64val (b64char n) = Some n"
  by (auto simp: b64val_def b64char_def Let_def)

lemma b64char_plain: "n < 64 \<Longrightarrow> b64char n \<noteq> CHR ''='' \<and> byte (b64char n) \<noteq> 10 \<and> byte (b64char n) \<noteq> 13 \<and> byte (b64char n) < 128"
  using b64val_b64char [of n] by (auto simp: b64val_def Let_def split: if_splits)

lemma high_bits: "byte a div 4 < 64" "byte b div 16 < 16" "byte c div 64 < 4"
  using byte_less [of a] byte_less [of b] byte_less [of c] by (simp_all add: less_mult_imp_div_less)

lemma sextets:
  "byte a mod 4 * 16 < 64" "byte a mod 4 * 16 + byte b div 16 < 64"
  "byte b mod 16 * 4 < 64" "byte b mod 16 * 4 + byte c div 64 < 64" "byte c mod 64 < 64"
proof -
  have "byte a mod 4 < 4" "byte b mod 16 < 16" by simp_all
  then show "byte a mod 4 * 16 < 64" "byte a mod 4 * 16 + byte b div 16 < 64"
    "byte b mod 16 * 4 < 64" "byte b mod 16 * 4 + byte c div 64 < 64" "byte c mod 64 < 64"
    using high_bits(2) [of b] high_bits(3) [of c] by (linarith, linarith, linarith, linarith, simp)
qed

lemma regroup:
  "(byte a mod 4 * 16 + byte b div 16) div 16 = byte a mod 4"
  "(byte a mod 4 * 16 + byte b div 16) mod 16 = byte b div 16"
  "(byte b mod 16 * 4 + byte c div 64) div 4 = byte b mod 16"
  "(byte b mod 16 * 4 + byte c div 64) mod 4 = byte c div 64"
  using high_bits(2) [of b] high_bits(3) [of c] by (simp_all add: div_mult_self3 mod_mult_self3)

lemma decodeQuanta_encode: "decodeQuanta (base64Encode b) = Some b"
proof (induction b rule: base64Encode.induct)
  case (2 a)
  show ?case by (simp add: high_bits sextets div_mult_mod_eq)
next
  case (3 a b)
  show ?case by (simp add: high_bits sextets b64char_plain regroup)
next
  case (4 a b c r)
  then show ?case by (simp add: high_bits sextets b64char_plain regroup)
qed simp

lemma base64Encode_chars: "c \<in> set (base64Encode b) \<Longrightarrow> byte c \<noteq> 10 \<and> byte c \<noteq> 13 \<and> byte c < 128"
  by (induction b rule: base64Encode.induct) (auto simp: high_bits sextets b64char_plain)

lemma base64Decode_Encode [simp]: "base64Decode (base64Encode b) = Some b"
proof -
  have "filter (\<lambda>c. byte c \<noteq> 10 \<and> byte c \<noteq> 13) (base64Encode b) = base64Encode b"
    using base64Encode_chars by (simp add: filter_id_conv)
  then show ?thesis by (simp add: base64Decode_def decodeQuanta_encode)
qed

lemma validUtf8_base64Encode [simp]: "validUtf8 (base64Encode b)"
  using base64Encode_chars by (blast intro: validUtf8_ascii)

end
