(* ===== verification/GoStruct.thy ===== *)
theory GoStruct
  imports Json Base64
begin

text \<open>
  How \<open>encoding/json\<close> decodes an object into a Go struct, for the structs of the key files
  and of the wire protocol: the struct is given by its JSON field names and their kinds, the
  result is the map of the fields that the input set. Keys match a field exactly or up to case,
  unknown keys are skipped, \<open>null\<close> leaves a scalar as it is and sets a slice, map or
  pointer to nil, a later key wins, a value of the wrong type is an error.
\<close>

datatype fkind = KStr | KInt | KU64 | KBool | KBytes | KStrMap | KOptBool | KOptInt

datatype fval = FStr string | FInt i64 | FU64 u64 | FBool bool | FBytes bytes | FStrMap "(string \<times> string) list"

type_synonym schema = "(string \<times> fkind) list"
type_synonym fields = "string \<Rightarrow> fval option"

fun byteElems :: "json list \<Rightarrow> bytes option" where
  "byteElems [] = Some []"
| "byteElems (JNum t # js) = (case parseI64 t of None \<Rightarrow> None | Some i \<Rightarrow>
     if 0 \<le> i \<and> i < 256 then map_option (Cons (char_of (nat i))) (byteElems js) else None)"
| "byteElems (JNull # js) = map_option (Cons (char_of (0 :: nat))) (byteElems js)"
| "byteElems _ = None"

text \<open>An entry of a \<open>map[string]string\<close>; a later key replaces, in its first place.\<close>

fun setEntry :: "string \<Rightarrow> string \<Rightarrow> (string \<times> string) list \<Rightarrow> (string \<times> string) list" where
  "setEntry k v [] = [(k, v)]"
| "setEntry k v ((j, w) # m) = (if j = k then (k, v) # m else (j, w) # setEntry k v m)"

fun mapEntries :: "(string \<times> json) list \<Rightarrow> (string \<times> string) list \<Rightarrow> (string \<times> string) list option" where
  "mapEntries [] m = Some m"
| "mapEntries ((k, JStr v) # ms) m = mapEntries ms (setEntry k v m)"
| "mapEntries ((k, JNull) # ms) m = mapEntries ms (setEntry k [] m)"
| "mapEntries _ m = None"

definition decodeField :: "fkind \<Rightarrow> fval option \<Rightarrow> json \<Rightarrow> fval option" where
  "decodeField kd old v = (case (kd, v) of
     (KStr, JStr s) \<Rightarrow> Some (FStr s)
   | (KInt, JNum t) \<Rightarrow> map_option FInt (parseI64 t)
   | (KOptInt, JNum t) \<Rightarrow> map_option FInt (parseI64 t)
   | (KU64, JNum t) \<Rightarrow> map_option FU64 (parseU64 t)
   | (KBool, JBool b) \<Rightarrow> Some (FBool b)
   | (KOptBool, JBool b) \<Rightarrow> Some (FBool b)
   | (KBytes, JStr s) \<Rightarrow> map_option FBytes (base64Decode s)
   | (KBytes, JArr js) \<Rightarrow> map_option FBytes (byteElems js)
   | (KStrMap, JObj ms) \<Rightarrow>
       map_option FStrMap (mapEntries ms (case old of Some (FStrMap m) \<Rightarrow> m | _ \<Rightarrow> []))
   | _ \<Rightarrow> None)"

definition nilable :: "fkind \<Rightarrow> bool" where
  "nilable kd \<longleftrightarrow> kd \<in> {KBytes, KStrMap, KOptBool, KOptInt}"

fun decodeMembers :: "schema \<Rightarrow> (string \<times> json) list \<Rightarrow> fields \<Rightarrow> fields option" where
  "decodeMembers sch [] m = Some m"
| "decodeMembers sch ((k, v) # ms) m = (case matchField (map fst sch) k of
     None \<Rightarrow> decodeMembers sch ms m
   | Some f \<Rightarrow> (case map_of sch f of None \<Rightarrow> None | Some kd \<Rightarrow>
       if v = JNull then decodeMembers sch ms (if nilable kd then m(f := None) else m)
       else (case decodeField kd (m f) v of None \<Rightarrow> None | Some x \<Rightarrow> decodeMembers sch ms (m(f \<mapsto> x)))))"

definition decodeStruct :: "schema \<Rightarrow> bytes \<Rightarrow> fields option" where
  "decodeStruct sch raw = (case jsonParse raw of
     Some (JObj ms) \<Rightarrow> decodeMembers sch ms Map.empty
   | Some JNull \<Rightarrow> Some Map.empty
   | _ \<Rightarrow> None)"

section \<open>Reading and writing fields\<close>

definition strF :: "fields \<Rightarrow> string \<Rightarrow> string" where
  "strF m k = (case m k of Some (FStr s) \<Rightarrow> s | _ \<Rightarrow> [])"

definition intF :: "fields \<Rightarrow> string \<Rightarrow> i64" where
  "intF m k = (case m k of Some (FInt i) \<Rightarrow> i | _ \<Rightarrow> 0)"

definition u64F :: "fields \<Rightarrow> string \<Rightarrow> u64" where
  "u64F m k = (case m k of Some (FU64 w) \<Rightarrow> w | _ \<Rightarrow> 0)"

definition boolF :: "fields \<Rightarrow> string \<Rightarrow> bool" where
  "boolF m k = (case m k of Some (FBool b) \<Rightarrow> b | _ \<Rightarrow> False)"

definition bytesF :: "fields \<Rightarrow> string \<Rightarrow> bytes" where
  "bytesF m k = (case m k of Some (FBytes b) \<Rightarrow> b | _ \<Rightarrow> [])"

definition strMapF :: "fields \<Rightarrow> string \<Rightarrow> (string \<times> string) list" where
  "strMapF m k = (case m k of Some (FStrMap e) \<Rightarrow> e | _ \<Rightarrow> [])"

definition optBoolF :: "fields \<Rightarrow> string \<Rightarrow> bool option" where
  "optBoolF m k = (case m k of Some (FBool b) \<Rightarrow> Some b | _ \<Rightarrow> None)"

definition optIntF :: "fields \<Rightarrow> string \<Rightarrow> i64 option" where
  "optIntF m k = (case m k of Some (FInt b) \<Rightarrow> Some b | _ \<Rightarrow> None)"

lemmas field_defs = strF_def intF_def u64F_def boolF_def bytesF_def strMapF_def optBoolF_def optIntF_def

text \<open>Members of an encoded struct, with and without \<open>omitempty\<close>; a nil \<open>[]byte\<close> is \<open>null\<close>.\<close>

definition omitStr :: "string \<Rightarrow> string \<Rightarrow> (string \<times> json) list" where
  "omitStr k s = (if s = [] then [] else [(k, JStr s)])"

definition omitInt :: "string \<Rightarrow> i64 \<Rightarrow> (string \<times> json) list" where
  "omitInt k i = (if i = 0 then [] else [(k, JNum (showInt i))])"

definition omitBool :: "string \<Rightarrow> bool \<Rightarrow> (string \<times> json) list" where
  "omitBool k b = (if b then [(k, JBool True)] else [])"

definition bytesJson :: "bytes \<Rightarrow> json" where
  "bytesJson b = (if b = [] then JNull else JStr (base64Encode b))"

definition strsJson :: "string list \<Rightarrow> json" where
  "strsJson ss = JArr (map JStr ss)"

section \<open>Round trip\<close>

text \<open>
  The members a program writes for a struct decode to their values: \<open>fieldsOf\<close> reads off
  what the members set.
\<close>

definition fieldsOf :: "schema \<Rightarrow> (string \<times> json) list \<Rightarrow> fields" where
  "fieldsOf sch ms = (\<lambda>k. case map_of ms k of None \<Rightarrow> None | Some v \<Rightarrow>
     (case map_of sch k of None \<Rightarrow> None | Some kd \<Rightarrow> if v = JNull then None else decodeField kd None v))"

lemma matchField_exact: "k \<in> set names \<Longrightarrow> matchField names k = Some k"
  by (simp add: matchField_def)

definition wellTyped :: "schema \<Rightarrow> (string \<times> json) list \<Rightarrow> bool" where
  "wellTyped sch ms \<longleftrightarrow> distinct (map fst ms) \<and>
     (\<forall>(k, v)\<in>set ms. \<exists>kd. map_of sch k = Some kd \<and> (v = JNull \<or> decodeField kd None v \<noteq> None))"

lemma decodeMembers_acc:
  assumes "wellTyped sch ms" and "\<forall>k\<in>fst ` set ms. m k = None"
  shows "decodeMembers sch ms m = Some (\<lambda>k. case fieldsOf sch ms k of None \<Rightarrow> m k | Some x \<Rightarrow> Some x)"
  using assms
proof (induction ms arbitrary: m)
  case Nil
  then show ?case by (simp add: fieldsOf_def)
next
  case (Cons kv ms)
  obtain k v where kv: "kv = (k, v)" by fastforce
  obtain kd where kd: "map_of sch k = Some kd" "v = JNull \<or> decodeField kd None v \<noteq> None"
    using Cons.prems(1) kv by (auto simp: wellTyped_def)
  have mf: "matchField (map fst sch) k = Some k"
    using kd(1) by (intro matchField_exact) (auto dest: map_of_SomeD simp: rev_image_eqI)
  have fresh: "k \<notin> fst ` set ms" and wt: "wellTyped sch ms"
    using Cons.prems(1) kv by (auto simp: wellTyped_def)
  have mk: "m k = None" using Cons.prems(2) kv by simp
  let ?m = "if v = JNull then m else m(k := decodeField kd None v)"
  have "\<forall>j\<in>fst ` set ms. ?m j = None" using Cons.prems(2) fresh kv by auto
  note ih = Cons.IH [OF wt this]
  have "decodeMembers sch (kv # ms) m = decodeMembers sch ms ?m"
    using kd mf mk kv by (auto simp: fun_upd_idem)
  also have "\<dots> = Some (\<lambda>j. case fieldsOf sch ms j of None \<Rightarrow> ?m j | Some x \<Rightarrow> Some x)" by (rule ih)
  also have "(\<lambda>j. case fieldsOf sch ms j of None \<Rightarrow> ?m j | Some x \<Rightarrow> Some x) =
      (\<lambda>j. case fieldsOf sch (kv # ms) j of None \<Rightarrow> m j | Some x \<Rightarrow> Some x)"
  proof
    fix j
    show "(case fieldsOf sch ms j of None \<Rightarrow> ?m j | Some x \<Rightarrow> Some x) =
        (case fieldsOf sch (kv # ms) j of None \<Rightarrow> m j | Some x \<Rightarrow> Some x)"
    proof (cases "j = k")
      case True
      have "map_of ms k = None" using fresh by (simp add: map_of_eq_None_iff)
      then show ?thesis using True kv kd mk by (auto simp: fieldsOf_def)
    next
      case False
      then have "fieldsOf sch (kv # ms) j = fieldsOf sch ms j" "?m j = m j"
        using kv by (simp_all add: fieldsOf_def)
      then show ?thesis by (simp only:)
    qed
  qed
  finally show ?case .
qed

lemma decodeStruct_encode:
  assumes "flat_ok ms" and "wellTyped sch ms"
  shows "decodeStruct sch (jsonEnc (JObj ms)) = Some (fieldsOf sch ms)"
proof -
  have "decodeMembers sch ms Map.empty = Some (fieldsOf sch ms)"
    using decodeMembers_acc [OF assms(2), of Map.empty] by (simp add: fun_eq_iff split: option.split)
  then show ?thesis by (simp only: decodeStruct_def jsonParse_flat [OF assms(1)] option.case json.case)
qed

end
