(* ===== verification/Protocol.thy ===== *)
theory Protocol
  imports GoStruct
begin

text \<open>
  \<open>internal/daemon/protocol.go\<close>: the frames of the daemon's wire protocol and its request and
  response messages. A connection is the sequence of bytes the peer has sent before it closes or
  the deadline passes; a request type is the schema of its JSON fields, a response its
  members in the order of the struct.
\<close>

section \<open>Message types\<close>

type_synonym msg = nat

definition MsgSignAppend :: msg where "MsgSignAppend = 0x01"
definition MsgSignAppendResp :: msg where "MsgSignAppendResp = 0x02"
definition MsgVerify :: msg where "MsgVerify = 0x03"
definition MsgVerifyResp :: msg where "MsgVerifyResp = 0x04"
definition MsgQuery :: msg where "MsgQuery = 0x05"
definition MsgQueryResp :: msg where "MsgQueryResp = 0x06"
definition MsgRegister :: msg where "MsgRegister = 0x07"
definition MsgRegisterResp :: msg where "MsgRegisterResp = 0x08"
definition MsgStatus :: msg where "MsgStatus = 0x09"
definition MsgStatusResp :: msg where "MsgStatusResp = 0x0A"
definition MsgPing :: msg where "MsgPing = 0x0B"
definition MsgPong :: msg where "MsgPong = 0x0C"
definition MsgSnapshot :: msg where "MsgSnapshot = 0x0D"
definition MsgSnapshotResp :: msg where "MsgSnapshotResp = 0x0E"
definition MsgRestore :: msg where "MsgRestore = 0x0F"
definition MsgRestoreResp :: msg where "MsgRestoreResp = 0x10"
definition MsgSnapshotList :: msg where "MsgSnapshotList = 0x11"
definition MsgSnapshotListResp :: msg where "MsgSnapshotListResp = 0x12"
definition MsgRegisterCompensate :: msg where "MsgRegisterCompensate = 0x13"
definition MsgRegisterCompensateResp :: msg where "MsgRegisterCompensateResp = 0x14"
definition MsgCompensate :: msg where "MsgCompensate = 0x15"
definition MsgCompensateResp :: msg where "MsgCompensateResp = 0x16"
definition MsgPolicyRegister :: msg where "MsgPolicyRegister = 0x17"
definition MsgPolicyRegisterResp :: msg where "MsgPolicyRegisterResp = 0x18"
definition MsgPolicyList :: msg where "MsgPolicyList = 0x19"
definition MsgPolicyListResp :: msg where "MsgPolicyListResp = 0x1A"
definition MsgPolicyDelete :: msg where "MsgPolicyDelete = 0x1B"
definition MsgPolicyDeleteResp :: msg where "MsgPolicyDeleteResp = 0x1C"
definition MsgPolicyEvaluate :: msg where "MsgPolicyEvaluate = 0x1D"
definition MsgPolicyEvaluateResp :: msg where "MsgPolicyEvaluateResp = 0x1E"
definition MsgNociceptionError :: msg where "MsgNociceptionError = 0x1F"
definition MsgTokenRequest :: msg where "MsgTokenRequest = 0x21"
definition MsgTokenResp :: msg where "MsgTokenResp = 0x22"
definition MsgTokenRevoke :: msg where "MsgTokenRevoke = 0x23"
definition MsgTokenRevokeResp :: msg where "MsgTokenRevokeResp = 0x24"
definition MsgTokenList :: msg where "MsgTokenList = 0x25"
definition MsgTokenListResp :: msg where "MsgTokenListResp = 0x26"
definition MsgMCPStart :: msg where "MsgMCPStart = 0x31"
definition MsgMCPStartResp :: msg where "MsgMCPStartResp = 0x32"
definition MsgMCPStop :: msg where "MsgMCPStop = 0x33"
definition MsgMCPStopResp :: msg where "MsgMCPStopResp = 0x34"
definition MsgMCPStatus :: msg where "MsgMCPStatus = 0x35"
definition MsgMCPStatusResp :: msg where "MsgMCPStatusResp = 0x36"
definition MsgMCPLog :: msg where "MsgMCPLog = 0x37"
definition MsgMCPLogResp :: msg where "MsgMCPLogResp = 0x38"
definition MsgSnapshotDiff :: msg where "MsgSnapshotDiff = 0x39"
definition MsgSnapshotDiffResp :: msg where "MsgSnapshotDiffResp = 0x3A"
definition MsgAuditEvents :: msg where "MsgAuditEvents = 0x3B"
definition MsgAuditEventsResp :: msg where "MsgAuditEventsResp = 0x3C"
definition MsgError :: msg where "MsgError = 0xFF"

definition MaxFrameSize :: nat where
  "MaxFrameSize = 4 * 1024 * 1024"

section \<open>Frames\<close>

record Frame =
  frType :: msg
  frBody :: bytes

definition putUint32 :: "nat \<Rightarrow> bytes" where
  "putUint32 n = [char_of (n div 16777216 mod 256), char_of (n div 65536 mod 256), char_of (n div 256 mod 256), char_of (n mod 256)]"

fun getUint32 :: "bytes \<Rightarrow> nat" where
  "getUint32 [a, b, c, d] = 16777216 * byte a + 65536 * byte b + 256 * byte c + byte d"
| "getUint32 _ = 0"

text \<open>
  \<open>WriteFrame\<close>: the bytes of the one \<open>Write\<close> call, \<open>None\<close> when the body is too large.
  The body's length fits in 64 bits and its sum with one in 32 after the check.
\<close>

definition WriteFrame :: "msg \<Rightarrow> bytes \<Rightarrow> bytes option" where
  "WriteFrame t body = (if MaxFrameSize < length body + 1 then None
     else Some (putUint32 (1 + length body) @ char_of t # body))"

datatype read_err = ReadEOF | BadFrameSize nat

text \<open>\<open>ReadFrame\<close>: the frame and the rest of the stream.\<close>

definition ReadFrame :: "bytes \<Rightarrow> read_err + (Frame \<times> bytes)" where
  "ReadFrame s = (if length s < 4 then Inl ReadEOF
     else let size = getUint32 (take 4 s) in
       if size = 0 \<or> MaxFrameSize < size then Inl (BadFrameSize size)
       else let rest = drop 4 s in
         if length rest < size then Inl ReadEOF
         else Inr (\<lparr>frType = byte (hd rest), frBody = drop 1 (take size rest)\<rparr>, drop size rest))"

definition WriteJSON :: "msg \<Rightarrow> json \<Rightarrow> bytes option" where
  "WriteJSON t v = WriteFrame t (jsonEnc v)"

definition errorSchema :: schema where
  "errorSchema = [(''message'', KStr)]"

datatype read_json_err = FrameErr read_err | DaemonError string | DecodeErr

text \<open>
  \<open>ReadJSON\<close> into a struct: the message type with the fields or the error, and the rest of the
  stream. A malformed error body counts as an empty message.
\<close>

definition ReadJSON :: "schema \<Rightarrow> bytes \<Rightarrow> msg \<times> (read_json_err + fields) \<times> bytes" where
  "ReadJSON sch s = (case ReadFrame s of
     Inl e \<Rightarrow> (0, Inl (FrameErr e), s)
   | Inr (f, rest) \<Rightarrow>
       if frType f = MsgError then
         (MsgError, Inl (DaemonError (case decodeStruct errorSchema (frBody f) of
            None \<Rightarrow> [] | Some m \<Rightarrow> strF m ''message'')), rest)
       else (case decodeStruct sch (frBody f) of
          None \<Rightarrow> (frType f, Inl DecodeErr, rest)
        | Some m \<Rightarrow> (frType f, Inr m, rest)))"

lemma length_putUint32 [simp]: "length (putUint32 n) = 4"
  by (simp add: putUint32_def)

lemma getUint32_putUint32:
  assumes "n < 2 ^ 32"
  shows "getUint32 (putUint32 n) = n"
proof -
  define x y z where "x = n div 256" and "y = x div 256" and "z = y div 256"
  have q: "n div 65536 = y" "n div 16777216 = z"
    by (simp_all add: x_def y_def z_def flip: div_mult2_eq)
  have z: "z mod 256 = z" using assms by (simp add: z_def y_def x_def flip: div_mult2_eq)
  have "getUint32 (putUint32 n) = 16777216 * (z mod 256) + 65536 * (y mod 256) + 256 * (x mod 256) + n mod 256"
    unfolding putUint32_def q x_def [symmetric] by simp
  also have "\<dots> = 65536 * (256 * z + y mod 256) + 256 * (x mod 256) + n mod 256" using z by simp
  also have "256 * z + y mod 256 = y" unfolding z_def by simp
  also have "65536 * y + 256 * (x mod 256) + n mod 256 = 256 * (256 * y + x mod 256) + n mod 256" by simp
  also have "256 * y + x mod 256 = x" unfolding y_def by simp
  also have "256 * x + n mod 256 = n" unfolding x_def by simp
  finally show ?thesis .
qed

lemma ReadFrame_WriteFrame:
  assumes "WriteFrame t body = Some w" and "t < 256"
  shows "ReadFrame (w @ rest) = Inr (\<lparr>frType = t, frBody = body\<rparr>, rest)"
proof -
  have sz: "length body + 1 \<le> MaxFrameSize" and w: "w = putUint32 (1 + length body) @ char_of t # body"
    using assms(1) by (auto simp: WriteFrame_def split: if_splits)
  have "getUint32 (putUint32 (1 + length body)) = 1 + length body"
    using sz by (intro getUint32_putUint32) (simp add: MaxFrameSize_def)
  then show ?thesis using sz assms(2) by (simp add: w ReadFrame_def Let_def)
qed

text \<open>
  What a connection carries: the frames one after the other, up to the first that cannot be read.
\<close>

function readFrames :: "bytes \<Rightarrow> Frame list" where
  "readFrames s = (case ReadFrame s of Inl _ \<Rightarrow> [] | Inr (f, rest) \<Rightarrow> f # readFrames rest)"
  by pat_completeness auto
termination
  by (relation "measure length") (auto simp: ReadFrame_def Let_def split: if_splits)

declare readFrames.simps [simp del]

fun writeFrames :: "Frame list \<Rightarrow> bytes option" where
  "writeFrames [] = Some []"
| "writeFrames (f # fs) = (case WriteFrame (frType f) (frBody f) of None \<Rightarrow> None | Some w \<Rightarrow>
     map_option (\<lambda>ws. w @ ws) (writeFrames fs))"

lemma ReadFrame_truncated:
  assumes "WriteFrame t body = Some v" and "k < length v"
  shows "\<exists>e. ReadFrame (take k v) = Inl e"
proof (cases "k < 4")
  case True
  then show ?thesis by (simp add: ReadFrame_def min_def)
next
  case False
  have sz: "length body + 1 \<le> MaxFrameSize" and v: "v = putUint32 (1 + length body) @ char_of t # body"
    using assms(1) by (auto simp: WriteFrame_def split: if_splits)
  have g: "getUint32 (putUint32 (1 + length body)) = 1 + length body"
    using sz by (intro getUint32_putUint32) (simp add: MaxFrameSize_def)
  have "take k v = putUint32 (1 + length body) @ take (k - 4) (char_of t # body)"
    using False by (simp add: v)
  moreover have "k - 4 < 1 + length body" using assms(2) False by (simp add: v)
  ultimately show ?thesis using g by (simp add: ReadFrame_def Let_def)
qed

lemma readFrames_writeFrames:
  assumes "writeFrames fs = Some w" and "\<forall>f\<in>set fs. frType f < 256"
  shows "readFrames (w @ rest) = fs @ readFrames rest"
  using assms
proof (induction fs arbitrary: w)
  case Nil
  then show ?case by simp
next
  case (Cons f fs)
  obtain a b where a: "WriteFrame (frType f) (frBody f) = Some a" and b: "writeFrames fs = Some b" and w: "w = a @ b"
    using Cons.prems(1) by (auto split: option.splits)
  have "readFrames (b @ rest) = fs @ readFrames rest" using Cons b by simp
  moreover have "ReadFrame (w @ rest) = Inr (f, b @ rest)"
    using ReadFrame_WriteFrame [OF a] Cons.prems(2) w by simp
  ultimately show ?case by (subst readFrames.simps) simp
qed

text \<open>
  C34. Frames survive the wire. Let a peer write any sequence of messages that \<open>WriteFrame\<close>
  accepts, then start one more frame and be cut off after any \<open>k\<close> of its bytes (fewer than all
  of them: in the header, right after it, or anywhere in the body). Repeated \<open>ReadFrame\<close> yields
  exactly the complete messages in the same order, whatever bytes their bodies contain: the
  truncated frame is never turned into a message, and it does not disturb those before it.
\<close>

theorem frames_roundtrip:
  assumes "writeFrames fs = Some w" and "\<forall>f\<in>set fs. frType f < 256"
    and "WriteFrame t body = Some v" and "k < length v"
  shows "readFrames (w @ take k v) = fs"
proof -
  obtain e where "ReadFrame (take k v) = Inl e" using ReadFrame_truncated [OF assms(3,4)] by blast
  then have "readFrames (take k v) = []" by (subst readFrames.simps) simp
  then show ?thesis using readFrames_writeFrames [OF assms(1,2)] by simp
qed

theorem frames_roundtrip_witness:
  "readFrames (the (writeFrames [\<lparr>frType = MsgPing, frBody = []\<rparr>, \<lparr>frType = MsgVerify, frBody = ''{}''\<rparr>])
     @ take 6 (the (WriteFrame MsgSignAppend ''{...}'')))
   = [\<lparr>frType = MsgPing, frBody = []\<rparr>, \<lparr>frType = MsgVerify, frBody = ''{}''\<rparr>]"
proof -
  let ?fs = "[\<lparr>frType = MsgPing, frBody = []\<rparr>, \<lparr>frType = MsgVerify, frBody = ''{}''\<rparr>]"
  have "writeFrames ?fs = Some (the (writeFrames ?fs))"
    by (simp add: WriteFrame_def MaxFrameSize_def)
  moreover have "\<forall>f\<in>set ?fs. frType f < 256" by (simp add: MsgPing_def MsgVerify_def)
  moreover have "WriteFrame MsgSignAppend ''{...}'' = Some (the (WriteFrame MsgSignAppend ''{...}''))"
    and "6 < length (the (WriteFrame MsgSignAppend ''{...}''))"
    by (simp_all add: WriteFrame_def MaxFrameSize_def)
  ultimately show ?thesis by (rule frames_roundtrip)
qed

text \<open>
  No frame is larger than four megabytes. Whatever bytes arrive, a frame that
  \<open>ReadFrame\<close> returns has a body shorter than \<open>MaxFrameSize\<close>, was preceded by a header
  whose size was checked before any of the body was read, and consumed exactly that size.
\<close>

theorem read_frame_bounded:
  assumes "ReadFrame s = Inr (f, rest)"
  shows "length (frBody f) + 1 = getUint32 (take 4 s) \<and> length (frBody f) < MaxFrameSize \<and> frType f < 256 \<and>
    length s = length rest + length (frBody f) + 5"
  using assms byte_less by (auto simp: ReadFrame_def Let_def split: if_splits)

theorem read_frame_bounded_witness:
  "length (frBody \<lparr>frType = 1, frBody = ''x''\<rparr>) < MaxFrameSize"
  using read_frame_bounded [of "putUint32 2 @ [CHR 0x01, CHR ''x'', CHR ''y'']" "\<lparr>frType = 1, frBody = ''x''\<rparr>" "''y''"]
  by (simp add: ReadFrame_def putUint32_def MaxFrameSize_def)

end
