(* ===== verification/Receipt.thy ===== *)
theory Receipt
  imports Json "HOL-Library.Char_ord" "HOL-Library.List_Lexorder"
begin

text \<open>
  \<open>internal/receipt/receipt.go\<close> and \<open>signer.go\<close>: the receipt, its canonical
  serialisation, its identifier and chain hash, signing and verification, and the builder of
  pre- and post-action receipts. Timestamps read from the wall clock are arguments.
\<close>

section \<open>The receipt\<close>

text \<open>
  Phase, ActionType, PolicyDecision and Outcome are string types in the source, so they stay
  strings; the two unexported caches of \<open>ComputeHash\<close> are fields too.
\<close>

record Receipt =
  ReceiptID :: string
  Phase :: string
  AgentID :: string
  ParentAgentID :: string
  PrevReceiptHash :: string
  ChainIndex :: u64
  ActionType :: string
  PayloadHash :: string
  PayloadSummary :: string
  PolicyDecision :: string
  AuthorizingContext :: string
  SnapshotID :: string
  Outcome :: string
  OutcomeSummary :: string
  DurationMS :: i64
  PreReceiptID :: string
  TimestampNS :: i64
  Signature :: string
  cachedHash :: string
  cachedRaw :: bytes

definition zeroReceipt :: Receipt where
  "zeroReceipt = \<lparr>ReceiptID = '''', Phase = '''', AgentID = '''', ParentAgentID = '''',
     PrevReceiptHash = '''', ChainIndex = 0, ActionType = '''', PayloadHash = '''',
     PayloadSummary = '''', PolicyDecision = '''', AuthorizingContext = '''', SnapshotID = '''',
     Outcome = '''', OutcomeSummary = '''', DurationMS = 0, PreReceiptID = '''', TimestampNS = 0,
     Signature = '''', cachedHash = '''', cachedRaw = ''''\<rparr>"

definition PhasePre :: string where "PhasePre = ''pre''"
definition PhasePost :: string where "PhasePost = ''post''"
definition ActionAgentDelegate :: string where "ActionAgentDelegate = ''agent.delegate''"
definition GenesisHash :: string where "GenesisHash = replicate 64 (CHR ''0'')"

section \<open>Serialisation\<close>

text \<open>Struct members in declaration order; \<open>optS\<close> and \<open>optI\<close> are \<open>omitempty\<close>.\<close>

definition reqS :: "string \<Rightarrow> string \<Rightarrow> (string \<times> json) list" where
  "reqS k s = [(k, JStr s)]"

definition optS :: "string \<Rightarrow> string \<Rightarrow> (string \<times> json) list" where
  "optS k s = (if s = '''' then [] else [(k, JStr s)])"

definition reqI :: "string \<Rightarrow> int \<Rightarrow> (string \<times> json) list" where
  "reqI k i = [(k, JNum (showInt i))]"

definition optI :: "string \<Rightarrow> int \<Rightarrow> (string \<times> json) list" where
  "optI k i = (if i = 0 then [] else [(k, JNum (showInt i))])"

definition receiptFields :: "Receipt \<Rightarrow> (string \<times> json) list" where
  "receiptFields r =
     reqS ''receipt_id'' (ReceiptID r) @ reqS ''phase'' (Phase r) @ reqS ''agent_id'' (AgentID r) @
     optS ''parent_agent_id'' (ParentAgentID r) @
     reqS ''prev_receipt_hash'' (PrevReceiptHash r) @ reqI ''chain_index'' (uint (ChainIndex r)) @
     reqS ''action_type'' (ActionType r) @ reqS ''payload_hash'' (PayloadHash r) @
     optS ''payload_summary'' (PayloadSummary r) @
     optS ''policy_decision'' (PolicyDecision r) @
     optS ''authorizing_context'' (AuthorizingContext r) @
     optS ''snapshot_id'' (SnapshotID r) @
     optS ''outcome'' (Outcome r) @ optS ''outcome_summary'' (OutcomeSummary r) @
     optI ''duration_ms'' (DurationMS r) @ optS ''pre_receipt_id'' (PreReceiptID r) @
     reqI ''timestamp_ns'' (TimestampNS r) @ optS ''signature'' (Signature r)"

definition marshalReceipt :: "Receipt \<Rightarrow> bytes" where
  "marshalReceipt r = jsonEnc (JObj (receiptFields r))"

text \<open>
  \<open>sortedJSON\<close>: object members in ascending byte order of their keys, arrays in order,
  anything else as \<open>json.Marshal\<close> writes it.
\<close>

fun sortedJSON :: "json \<Rightarrow> bytes" where
  "sortedJSON (JObj ms) = CHR ''{'' # joinWith '',''
     (map (\<lambda>(k, t). jsonString k @ '':'' @ t)
       (sort_key fst (map (\<lambda>(k, v). (k, sortedJSON v)) ms))) @ ''}''"
| "sortedJSON (JArr vs) = CHR ''['' # joinWith '','' (map sortedJSON vs) @ '']''"
| "sortedJSON v = jsonEnc v"

definition canonicalJSON :: "json \<Rightarrow> bytes option" where
  "canonicalJSON v = map_option sortedJSON (jsonParse (jsonEnc v))"

text \<open>The map built by \<open>SignableBytes\<close>, in the order of the assignments.\<close>

definition signableFields :: "Receipt \<Rightarrow> (string \<times> json) list" where
  "signableFields r =
     reqS ''action_type'' (ActionType r) @ reqS ''agent_id'' (AgentID r) @
     reqI ''chain_index'' (uint (ChainIndex r)) @ reqS ''payload_hash'' (PayloadHash r) @
     reqS ''phase'' (Phase r) @ reqS ''prev_receipt_hash'' (PrevReceiptHash r) @
     reqI ''timestamp_ns'' (TimestampNS r) @
     optS ''authorizing_context'' (AuthorizingContext r) @ optI ''duration_ms'' (DurationMS r) @
     optS ''outcome'' (Outcome r) @ optS ''outcome_summary'' (OutcomeSummary r) @
     optS ''parent_agent_id'' (ParentAgentID r) @ optS ''payload_summary'' (PayloadSummary r) @
     optS ''policy_decision'' (PolicyDecision r) @ optS ''pre_receipt_id'' (PreReceiptID r) @
     optS ''snapshot_id'' (SnapshotID r)"

definition SignableBytes :: "Receipt \<Rightarrow> bytes" where
  "SignableBytes r = sortedJSON (JObj (signableFields r))"

definition SetReceiptID :: "crypto \<Rightarrow> Receipt \<Rightarrow> Receipt" where
  "SetReceiptID C r = r\<lparr>ReceiptID := hexEncode (take 16 (sha256 C (SignableBytes r)))\<rparr>"

definition ComputeHash :: "crypto \<Rightarrow> Receipt \<Rightarrow> string \<times> Receipt" where
  "ComputeHash C r =
     (if cachedHash r \<noteq> '''' then (cachedHash r, r)
      else (let b = marshalReceipt r; h = hashHex C b
            in (h, r\<lparr>cachedRaw := b, cachedHash := h\<rparr>)))"

definition RawJSON :: "Receipt \<Rightarrow> bytes" where
  "RawJSON r = cachedRaw r"

section \<open>Deserialisation\<close>

definition receiptFieldNames :: "string list" where
  "receiptFieldNames = [''receipt_id'', ''phase'', ''agent_id'', ''parent_agent_id'',
     ''prev_receipt_hash'', ''chain_index'', ''action_type'', ''payload_hash'', ''payload_summary'',
     ''policy_decision'', ''authorizing_context'', ''snapshot_id'', ''outcome'', ''outcome_summary'',
     ''duration_ms'', ''pre_receipt_id'', ''timestamp_ns'', ''signature'']"

fun setStr :: "(string \<Rightarrow> 'r) \<Rightarrow> 'r \<Rightarrow> json \<Rightarrow> 'r option" where
  "setStr f r (JStr s) = Some (f s)"
| "setStr f r JNull = Some r"
| "setStr f r _ = None"

fun setI64 :: "(i64 \<Rightarrow> 'r) \<Rightarrow> 'r \<Rightarrow> json \<Rightarrow> 'r option" where
  "setI64 f r (JNum t) = map_option f (parseI64 t)"
| "setI64 f r JNull = Some r"
| "setI64 f r _ = None"

fun setU64 :: "(u64 \<Rightarrow> 'r) \<Rightarrow> 'r \<Rightarrow> json \<Rightarrow> 'r option" where
  "setU64 f r (JNum t) = map_option f (parseU64 t)"
| "setU64 f r JNull = Some r"
| "setU64 f r _ = None"

definition setReceiptField :: "string \<Rightarrow> json \<Rightarrow> Receipt \<Rightarrow> Receipt option" where
  "setReceiptField k v r = (case matchField receiptFieldNames k of None \<Rightarrow> Some r | Some n \<Rightarrow>
     if n = ''receipt_id'' then setStr (\<lambda>s. r\<lparr>ReceiptID := s\<rparr>) r v
     else if n = ''phase'' then setStr (\<lambda>s. r\<lparr>Phase := s\<rparr>) r v
     else if n = ''agent_id'' then setStr (\<lambda>s. r\<lparr>AgentID := s\<rparr>) r v
     else if n = ''parent_agent_id'' then setStr (\<lambda>s. r\<lparr>ParentAgentID := s\<rparr>) r v
     else if n = ''prev_receipt_hash'' then setStr (\<lambda>s. r\<lparr>PrevReceiptHash := s\<rparr>) r v
     else if n = ''chain_index'' then setU64 (\<lambda>i. r\<lparr>ChainIndex := i\<rparr>) r v
     else if n = ''action_type'' then setStr (\<lambda>s. r\<lparr>ActionType := s\<rparr>) r v
     else if n = ''payload_hash'' then setStr (\<lambda>s. r\<lparr>PayloadHash := s\<rparr>) r v
     else if n = ''payload_summary'' then setStr (\<lambda>s. r\<lparr>PayloadSummary := s\<rparr>) r v
     else if n = ''policy_decision'' then setStr (\<lambda>s. r\<lparr>PolicyDecision := s\<rparr>) r v
     else if n = ''authorizing_context'' then setStr (\<lambda>s. r\<lparr>AuthorizingContext := s\<rparr>) r v
     else if n = ''snapshot_id'' then setStr (\<lambda>s. r\<lparr>SnapshotID := s\<rparr>) r v
     else if n = ''outcome'' then setStr (\<lambda>s. r\<lparr>Outcome := s\<rparr>) r v
     else if n = ''outcome_summary'' then setStr (\<lambda>s. r\<lparr>OutcomeSummary := s\<rparr>) r v
     else if n = ''duration_ms'' then setI64 (\<lambda>i. r\<lparr>DurationMS := i\<rparr>) r v
     else if n = ''pre_receipt_id'' then setStr (\<lambda>s. r\<lparr>PreReceiptID := s\<rparr>) r v
     else if n = ''timestamp_ns'' then setI64 (\<lambda>i. r\<lparr>TimestampNS := i\<rparr>) r v
     else setStr (\<lambda>s. r\<lparr>Signature := s\<rparr>) r v)"

fun setReceiptFields :: "(string \<times> json) list \<Rightarrow> Receipt \<Rightarrow> Receipt option" where
  "setReceiptFields [] r = Some r"
| "setReceiptFields ((k, v) # ms) r =
     (case setReceiptField k v r of None \<Rightarrow> None | Some r' \<Rightarrow> setReceiptFields ms r')"

definition unmarshalReceipt :: "bytes \<Rightarrow> Receipt option" where
  "unmarshalReceipt raw = (case jsonParse raw of
     Some (JObj ms) \<Rightarrow> setReceiptFields ms zeroReceipt
   | Some JNull \<Rightarrow> Some zeroReceipt
   | _ \<Rightarrow> None)"

section \<open>Signing and verification\<close>

definition Sign :: "crypto \<Rightarrow> bytes \<Rightarrow> Receipt \<Rightarrow> ('e, Receipt) go" where
  "Sign C priv r =
     (let r1 = r\<lparr>cachedHash := '''', cachedRaw := ''''\<rparr>;
          msg = SignableBytes r1;
          r2 = (if ReceiptID r1 = '''' then r1\<lparr>ReceiptID := hexEncode (take 16 (sha256 C msg))\<rparr> else r1)
      in case ed25519Sign C priv msg of
           Ok sig \<Rightarrow> Ok (r2\<lparr>Signature := hexEncode sig\<rparr>)
         | Err e \<Rightarrow> Err e
         | Panic \<Rightarrow> Panic)"

datatype verify_error = NoSignature | BadSignatureHex | SignatureInvalid

definition Verify :: "crypto \<Rightarrow> Receipt \<Rightarrow> bytes \<Rightarrow> (verify_error, unit) go" where
  "Verify C r pub =
     (if Signature r = '''' then Err NoSignature
      else case hexDecodeString (Signature r) of
        None \<Rightarrow> Err BadSignatureHex
      | Some sig \<Rightarrow> (case ed25519Verify C pub (SignableBytes r) sig of
            Ok b \<Rightarrow> if b then Ok () else Err SignatureInvalid
          | Err e \<Rightarrow> Err e
          | Panic \<Rightarrow> Panic))"

section \<open>Builder\<close>

record ActionPayload =
  PType :: string
  PTarget :: string
  PArgs :: "(string \<times> string) list"
  PRaw :: string

text \<open>\<open>PArgs\<close> lists the map's entries in ascending key order, as the encoder writes them.\<close>

definition payloadJson :: "ActionPayload \<Rightarrow> json" where
  "payloadJson p = JObj (reqS ''type'' (PType p) @ optS ''target'' (PTarget p) @
     (if PArgs p = [] then [] else [(''args'', JObj (map (\<lambda>(k, v). (k, JStr v)) (PArgs p)))]) @
     optS ''raw'' (PRaw p))"

definition HashHex :: "crypto \<Rightarrow> ActionPayload \<Rightarrow> string" where
  "HashHex C p = (case canonicalJSON (payloadJson p) of None \<Rightarrow> '''' | Some b \<Rightarrow> hashHex C b)"

definition truncateStr :: "string \<Rightarrow> int \<Rightarrow> string" where
  "truncateStr s n =
     (if n < 1 then ''''
      else if int (length s) \<le> n then s
      else if n \<le> 3 then take (nat n) s
      else take (nat (n - 3)) s @ ''...'')"

record Builder =
  bAgentID :: string
  bParentAgentID :: string
  bPrevHash :: string
  bChainIndex :: u64

definition NewBuilder :: "string \<Rightarrow> string \<Rightarrow> u64 \<Rightarrow> Builder" where
  "NewBuilder agentID prevHash chainIndex =
     \<lparr>bAgentID = agentID, bParentAgentID = '''', bPrevHash = prevHash, bChainIndex = chainIndex\<rparr>"

definition WithParent :: "string \<Rightarrow> Builder \<Rightarrow> Builder" where
  "WithParent parentID b = b\<lparr>bParentAgentID := parentID\<rparr>"

definition PreAction ::
  "crypto \<Rightarrow> i64 \<Rightarrow> Builder \<Rightarrow> ActionPayload \<Rightarrow> string \<Rightarrow> string \<Rightarrow> string \<Rightarrow> Receipt" where
  "PreAction C now b payload summary decision authContext = zeroReceipt\<lparr>
     Phase := PhasePre, AgentID := bAgentID b, ParentAgentID := bParentAgentID b,
     PrevReceiptHash := bPrevHash b, ChainIndex := bChainIndex b,
     ActionType := PType payload, PayloadHash := HashHex C payload,
     PayloadSummary := truncateStr summary 80, PolicyDecision := decision,
     AuthorizingContext := truncateStr authContext 200, TimestampNS := now\<rparr>"

definition PostAction ::
  "i64 \<Rightarrow> Builder \<Rightarrow> string \<Rightarrow> string \<Rightarrow> string \<Rightarrow> string \<Rightarrow> string \<Rightarrow> string \<Rightarrow> i64 \<Rightarrow> Receipt" where
  "PostAction now b preReceiptID actionType payloadHash payloadSummary outcome summary durationMS =
     zeroReceipt\<lparr>
     Phase := PhasePost, AgentID := bAgentID b, ParentAgentID := bParentAgentID b,
     PrevReceiptHash := bPrevHash b, ChainIndex := bChainIndex b,
     ActionType := actionType, PayloadHash := payloadHash, PayloadSummary := payloadSummary,
     Outcome := outcome, OutcomeSummary := truncateStr summary 120, DurationMS := durationMS,
     PreReceiptID := preReceiptID, TimestampNS := now\<rparr>"

section \<open>Well-formed text\<close>

text \<open>
  A receipt whose strings are valid UTF-8 and whose integers fit int64 survives encoding and
  decoding; \<open>bare\<close> is the receipt as the decoder returns it, with empty caches.
\<close>

definition receipt_utf8 :: "Receipt \<Rightarrow> bool" where
  "receipt_utf8 r \<longleftrightarrow> list_all validUtf8 [ReceiptID r, Phase r, AgentID r, ParentAgentID r,
     PrevReceiptHash r, ActionType r, PayloadHash r, PayloadSummary r, PolicyDecision r,
     AuthorizingContext r, SnapshotID r, Outcome r, OutcomeSummary r, PreReceiptID r, Signature r]
   \<and> in_i64 (DurationMS r) \<and> in_i64 (TimestampNS r)"

definition bare :: "Receipt \<Rightarrow> Receipt" where
  "bare r = r\<lparr>cachedHash := '''', cachedRaw := ''''\<rparr>"

lemma receiptFields_bare [simp]: "receiptFields (bare r) = receiptFields r"
  by (simp add: receiptFields_def bare_def)

lemma signableFields_bare [simp]: "signableFields (bare r) = signableFields r"
  by (simp add: signableFields_def bare_def)

lemma marshal_bare [simp]: "marshalReceipt (bare r) = marshalReceipt r"
  by (simp add: marshalReceipt_def)

lemma SignableBytes_bare [simp]: "SignableBytes (bare r) = SignableBytes r"
  by (simp add: SignableBytes_def)

section \<open>Round trip of receipts\<close>

lemma setReceiptFields_append:
  "setReceiptFields (xs @ ys) r =
     (case setReceiptFields xs r of None \<Rightarrow> None | Some r' \<Rightarrow> setReceiptFields ys r')"
  by (induction xs arbitrary: r) (auto split: option.splits)

lemma matchField_own: "k \<in> set receiptFieldNames \<Longrightarrow> matchField receiptFieldNames k = Some k"
  by (simp add: matchField_def)

lemma names_in:
  "''receipt_id'' \<in> set receiptFieldNames" "''phase'' \<in> set receiptFieldNames"
  "''agent_id'' \<in> set receiptFieldNames" "''parent_agent_id'' \<in> set receiptFieldNames"
  "''prev_receipt_hash'' \<in> set receiptFieldNames" "''chain_index'' \<in> set receiptFieldNames"
  "''action_type'' \<in> set receiptFieldNames" "''payload_hash'' \<in> set receiptFieldNames"
  "''payload_summary'' \<in> set receiptFieldNames" "''policy_decision'' \<in> set receiptFieldNames"
  "''authorizing_context'' \<in> set receiptFieldNames" "''snapshot_id'' \<in> set receiptFieldNames"
  "''outcome'' \<in> set receiptFieldNames" "''outcome_summary'' \<in> set receiptFieldNames"
  "''duration_ms'' \<in> set receiptFieldNames" "''pre_receipt_id'' \<in> set receiptFieldNames"
  "''timestamp_ns'' \<in> set receiptFieldNames" "''signature'' \<in> set receiptFieldNames"
  by (simp_all add: receiptFieldNames_def)

lemmas own_names = names_in [THEN matchField_own]

lemma setReceiptField_simps:
  "setReceiptField ''receipt_id'' (JStr s) r = Some (r\<lparr>ReceiptID := s\<rparr>)"
  "setReceiptField ''phase'' (JStr s) r = Some (r\<lparr>Phase := s\<rparr>)"
  "setReceiptField ''agent_id'' (JStr s) r = Some (r\<lparr>AgentID := s\<rparr>)"
  "setReceiptField ''parent_agent_id'' (JStr s) r = Some (r\<lparr>ParentAgentID := s\<rparr>)"
  "setReceiptField ''prev_receipt_hash'' (JStr s) r = Some (r\<lparr>PrevReceiptHash := s\<rparr>)"
  "setReceiptField ''action_type'' (JStr s) r = Some (r\<lparr>ActionType := s\<rparr>)"
  "setReceiptField ''payload_hash'' (JStr s) r = Some (r\<lparr>PayloadHash := s\<rparr>)"
  "setReceiptField ''payload_summary'' (JStr s) r = Some (r\<lparr>PayloadSummary := s\<rparr>)"
  "setReceiptField ''policy_decision'' (JStr s) r = Some (r\<lparr>PolicyDecision := s\<rparr>)"
  "setReceiptField ''authorizing_context'' (JStr s) r = Some (r\<lparr>AuthorizingContext := s\<rparr>)"
  "setReceiptField ''snapshot_id'' (JStr s) r = Some (r\<lparr>SnapshotID := s\<rparr>)"
  "setReceiptField ''outcome'' (JStr s) r = Some (r\<lparr>Outcome := s\<rparr>)"
  "setReceiptField ''outcome_summary'' (JStr s) r = Some (r\<lparr>OutcomeSummary := s\<rparr>)"
  "setReceiptField ''pre_receipt_id'' (JStr s) r = Some (r\<lparr>PreReceiptID := s\<rparr>)"
  "setReceiptField ''signature'' (JStr s) r = Some (r\<lparr>Signature := s\<rparr>)"
  "in_i64 i \<Longrightarrow> setReceiptField ''duration_ms'' (JNum (showInt i)) r = Some (r\<lparr>DurationMS := i\<rparr>)"
  "in_i64 i \<Longrightarrow> setReceiptField ''timestamp_ns'' (JNum (showInt i)) r = Some (r\<lparr>TimestampNS := i\<rparr>)"
  "setReceiptField ''chain_index'' (JNum (showInt (uint w))) r = Some (r\<lparr>ChainIndex := w\<rparr>)"
  unfolding setReceiptField_def own_names option.case
  by (simp_all add: showInt_uint)

lemmas set_field_simps = setReceiptField_simps reqS_def optS_def reqI_def optI_def

lemma set_required:
  "setReceiptFields (reqS ''receipt_id'' s) r = Some (r\<lparr>ReceiptID := s\<rparr>)"
  "setReceiptFields (reqS ''phase'' s) r = Some (r\<lparr>Phase := s\<rparr>)"
  "setReceiptFields (reqS ''agent_id'' s) r = Some (r\<lparr>AgentID := s\<rparr>)"
  "setReceiptFields (reqS ''prev_receipt_hash'' s) r = Some (r\<lparr>PrevReceiptHash := s\<rparr>)"
  "setReceiptFields (reqS ''action_type'' s) r = Some (r\<lparr>ActionType := s\<rparr>)"
  "setReceiptFields (reqS ''payload_hash'' s) r = Some (r\<lparr>PayloadHash := s\<rparr>)"
  "in_i64 i \<Longrightarrow> setReceiptFields (reqI ''timestamp_ns'' i) r = Some (r\<lparr>TimestampNS := i\<rparr>)"
  "setReceiptFields (reqI ''chain_index'' (uint w)) r = Some (r\<lparr>ChainIndex := w\<rparr>)"
  by (simp_all add: set_field_simps)

lemma set_optional:
  "ParentAgentID r = '''' \<Longrightarrow> setReceiptFields (optS ''parent_agent_id'' s) r = Some (r\<lparr>ParentAgentID := s\<rparr>)"
  "PayloadSummary r = '''' \<Longrightarrow> setReceiptFields (optS ''payload_summary'' s) r = Some (r\<lparr>PayloadSummary := s\<rparr>)"
  "PolicyDecision r = '''' \<Longrightarrow> setReceiptFields (optS ''policy_decision'' s) r = Some (r\<lparr>PolicyDecision := s\<rparr>)"
  "AuthorizingContext r = '''' \<Longrightarrow> setReceiptFields (optS ''authorizing_context'' s) r = Some (r\<lparr>AuthorizingContext := s\<rparr>)"
  "SnapshotID r = '''' \<Longrightarrow> setReceiptFields (optS ''snapshot_id'' s) r = Some (r\<lparr>SnapshotID := s\<rparr>)"
  "Outcome r = '''' \<Longrightarrow> setReceiptFields (optS ''outcome'' s) r = Some (r\<lparr>Outcome := s\<rparr>)"
  "OutcomeSummary r = '''' \<Longrightarrow> setReceiptFields (optS ''outcome_summary'' s) r = Some (r\<lparr>OutcomeSummary := s\<rparr>)"
  "PreReceiptID r = '''' \<Longrightarrow> setReceiptFields (optS ''pre_receipt_id'' s) r = Some (r\<lparr>PreReceiptID := s\<rparr>)"
  "Signature r = '''' \<Longrightarrow> setReceiptFields (optS ''signature'' s) r = Some (r\<lparr>Signature := s\<rparr>)"
  "DurationMS r = 0 \<Longrightarrow> in_i64 i \<Longrightarrow> setReceiptFields (optI ''duration_ms'' i) r = Some (r\<lparr>DurationMS := i\<rparr>)"
  by (simp_all add: set_field_simps)

lemma setReceiptFields_receiptFields:
  assumes "in_i64 (DurationMS r)" "in_i64 (TimestampNS r)"
  shows "setReceiptFields (receiptFields r) zeroReceipt = Some (bare r)"
  unfolding receiptFields_def
  by (cases r) (use assms in \<open>simp add: setReceiptFields_append set_required set_optional bare_def zeroReceipt_def\<close>)

lemma flat_ok_parts:
  "flat_ok (xs @ ys) \<longleftrightarrow> flat_ok xs \<and> flat_ok ys"
  "flat_ok (reqS k s) \<longleftrightarrow> validUtf8 k \<and> validUtf8 s"
  "validUtf8 k \<Longrightarrow> flat_ok (optS k s) \<longleftrightarrow> validUtf8 s"
  "validUtf8 k \<Longrightarrow> flat_ok (reqI k i)"
  "validUtf8 k \<Longrightarrow> flat_ok (optI k i)"
  by (auto simp: flat_ok_def reqS_def optS_def reqI_def optI_def)

lemma receiptFields_flat: "receipt_utf8 r \<Longrightarrow> flat_ok (receiptFields r)"
  by (simp add: receiptFields_def receipt_utf8_def flat_ok_parts validUtf8_ascii)

lemma unmarshal_marshal:
  assumes "receipt_utf8 r"
  shows "unmarshalReceipt (marshalReceipt r) = Some (bare r)"
  using assms jsonParse_flat [OF receiptFields_flat [OF assms]]
  by (simp add: unmarshalReceipt_def marshalReceipt_def receipt_utf8_def
      setReceiptFields_receiptFields del: jsonEnc.simps)

section \<open>Hashing and signatures\<close>

lemma ComputeHash_bare:
  "ComputeHash C (bare r) = (hashHex C (marshalReceipt r),
     (bare r)\<lparr>cachedRaw := marshalReceipt r, cachedHash := hashHex C (marshalReceipt r)\<rparr>)"
proof -
  have "cachedHash (bare r) = ''''" by (simp add: bare_def)
  then show ?thesis by (simp add: ComputeHash_def Let_def)
qed

lemma Sign_Ok:
  assumes "Sign C priv r = Ok s"
  shows "length priv = 64"
    and "SignableBytes s = SignableBytes r"
    and "Signature s = hexEncode (edSign C priv (SignableBytes r))"
    and "bare s = s"
    and "ChainIndex s = ChainIndex r" "PrevReceiptHash s = PrevReceiptHash r"
      "TimestampNS s = TimestampNS r" "AgentID s = AgentID r" "Phase s = Phase r"
  using assms
  by (auto simp: Sign_def Let_def ed25519Sign_def bare_def SignableBytes_def signableFields_def
      split: go.splits if_splits)

lemma Sign_receipt_utf8:
  assumes "Sign C priv r = Ok s" "receipt_utf8 (r\<lparr>Signature := ''''\<rparr>)"
  shows "receipt_utf8 s"
  using assms
  by (auto simp: Sign_def Let_def ed25519Sign_def receipt_utf8_def split: go.splits if_splits)

lemma Sign_total: "length priv = 64 \<Longrightarrow> \<exists>s. Sign C priv r = Ok s"
  by (simp add: Sign_def Let_def ed25519Sign_def)

lemma Verify_Sign:
  assumes "crypto_ok C" and "Sign C priv r = Ok s"
  shows "Verify C s (edPublic C priv) = Ok ()"
proof -
  have k: "length priv = 64" using Sign_Ok(1) [OF assms(2)] .
  have "edSign C priv (SignableBytes r) \<noteq> []" using crypto_okD(2) [OF assms(1) k, of "SignableBytes r"] by auto
  then show ?thesis
    using Sign_Ok(2,3) [OF assms(2)] crypto_okD [OF assms(1)] k
    by (simp add: Verify_def ed25519Verify_def)
qed

lemma Verify_Ok_authentic:
  assumes "Verify C r pub = Ok ()"
  obtains sig where "hexDecodeString (Signature r) = Some sig" "length sig = 64"
    "edVerify C pub (SignableBytes r) sig"
  using assms by (auto simp: Verify_def ed25519Verify_def split: if_splits option.splits go.splits)

end
