(* ===== verification/GoText.thy ===== *)
theory GoText
  imports GoLib
begin

text \<open>
  The functions of Go's \<open>strings\<close> package that the program uses, on byte strings, and the
  part of its regular expressions that the fixed patterns of the program need.
\<close>

section \<open>Substrings, splitting, trimming\<close>

definition hasPrefix :: "string \<Rightarrow> string \<Rightarrow> bool" where
  "hasPrefix s p \<longleftrightarrow> take (length p) s = p"

fun containsSub :: "string \<Rightarrow> string \<Rightarrow> bool" where
  "containsSub [] p = (p = [])"
| "containsSub (c # s) p = (hasPrefix (c # s) p \<or> containsSub s p)"

definition containsAny :: "string \<Rightarrow> string \<Rightarrow> bool" where
  "containsAny s cs \<longleftrightarrow> (\<exists>c\<in>set s. c \<in> set cs)"

fun splitOn :: "char \<Rightarrow> string \<Rightarrow> string list" where
  "splitOn sep [] = [[]]"
| "splitOn sep (c # s) = (if c = sep then [] # splitOn sep s
     else (case splitOn sep s of x # xs \<Rightarrow> (c # x) # xs | [] \<Rightarrow> [[c]]))"

lemma containsSub_iff: "containsSub s p \<longleftrightarrow> (\<exists>us vs. s = us @ p @ vs)"
proof (induction s)
  case (Cons c s)
  have "hasPrefix (c # s) p \<longleftrightarrow> (\<exists>vs. c # s = p @ vs)"
    by (metis append_eq_conv_conj append_take_drop_id hasPrefix_def)
  then show ?case using Cons by (auto simp: Cons_eq_append_conv)
qed auto

lemma splitOn_not_Nil: "splitOn sep s \<noteq> []"
  by (induction s) (auto split: list.splits)

lemma splitOn_no_sep: "x \<in> set (splitOn sep s) \<Longrightarrow> sep \<notin> set x"
  by (induction s arbitrary: x) (auto split: if_splits list.splits)

text \<open>The encodings of the characters that \<open>unicode.IsSpace\<close> accepts.\<close>

definition spaceRunes :: "string list" where
  "spaceRunes = [[CHR 0x09], [CHR 0x0A], [CHR 0x0B], [CHR 0x0C], [CHR 0x0D], [CHR 0x20],
     [CHR 0xC2, CHR 0x85], [CHR 0xC2, CHR 0xA0], [CHR 0xE1, CHR 0x9A, CHR 0x80],
     [CHR 0xE2, CHR 0x80, CHR 0x80], [CHR 0xE2, CHR 0x80, CHR 0x81], [CHR 0xE2, CHR 0x80, CHR 0x82],
     [CHR 0xE2, CHR 0x80, CHR 0x83], [CHR 0xE2, CHR 0x80, CHR 0x84], [CHR 0xE2, CHR 0x80, CHR 0x85],
     [CHR 0xE2, CHR 0x80, CHR 0x86], [CHR 0xE2, CHR 0x80, CHR 0x87], [CHR 0xE2, CHR 0x80, CHR 0x88],
     [CHR 0xE2, CHR 0x80, CHR 0x89], [CHR 0xE2, CHR 0x80, CHR 0x8A], [CHR 0xE2, CHR 0x80, CHR 0xA8],
     [CHR 0xE2, CHR 0x80, CHR 0xA9], [CHR 0xE2, CHR 0x80, CHR 0xAF], [CHR 0xE2, CHR 0x81, CHR 0x9F],
     [CHR 0xE3, CHR 0x80, CHR 0x80]]"

definition dropRune :: "string list \<Rightarrow> string \<Rightarrow> nat" where
  "dropRune rs s = (case find (hasPrefix s) rs of Some r \<Rightarrow> length r | None \<Rightarrow> 0)"

function trimWith :: "string list \<Rightarrow> string \<Rightarrow> string" where
  "trimWith rs s = (if dropRune rs s = 0 \<or> s = [] then s else trimWith rs (drop (dropRune rs s) s))"
  by pat_completeness auto
termination
  by (relation "measure (\<lambda>(_, s). length s)") auto

declare trimWith.simps [simp del]

definition trimSpace :: "string \<Rightarrow> string" where
  "trimSpace s = rev (trimWith (map rev spaceRunes) (rev (trimWith spaceRunes s)))"

section \<open>Regular expressions\<close>

text \<open>
  Patterns over ASCII classes. Matching lists the ways a pattern matches at a position, in the
  order of preference of Go's leftmost-first semantics; a state is the character before the
  position (for \<open>\b\<close>) and the text after it. No class of the program contains a
  non-ASCII character, so matching bytes and matching runes agree.
\<close>

datatype re =
    Cls "char \<Rightarrow> bool"
  | Bnd
  | Seq re re
  | Alt re re
  | Rep nat "nat option" bool re

type_synonym re_state = "char option \<times> string"

definition wordChar :: "char \<Rightarrow> bool" where
  "wordChar c \<longleftrightarrow> (let b = byte c in (48 \<le> b \<and> b \<le> 57) \<or> (65 \<le> b \<and> b \<le> 90) \<or> (97 \<le> b \<and> b \<le> 122) \<or> b = 95)"

definition atBoundary :: "re_state \<Rightarrow> bool" where
  "atBoundary st = ((case fst st of None \<Rightarrow> False | Some c \<Rightarrow> wordChar c) \<noteq>
     (case snd st of [] \<Rightarrow> False | c # _ \<Rightarrow> wordChar c))"

fun times :: "nat \<Rightarrow> (re_state \<Rightarrow> re_state list) \<Rightarrow> re_state \<Rightarrow> re_state list" where
  "times 0 f st = [st]"
| "times (Suc n) f st = concat (map (times n f) (f st))"

text \<open>Up to \<open>n\<close> more repetitions; the greedy form prefers more, the lazy one fewer.\<close>

fun upTo :: "nat \<Rightarrow> bool \<Rightarrow> (re_state \<Rightarrow> re_state list) \<Rightarrow> re_state \<Rightarrow> re_state list" where
  "upTo 0 greedy f st = [st]"
| "upTo (Suc n) greedy f st =
     (let more = concat (map (upTo n greedy f) (f st)) in if greedy then more @ [st] else st # more)"

text \<open>
  An unbounded repetition of a pattern that consumes input repeats at most as often as the text
  is long.
\<close>

primrec matchRE :: "re \<Rightarrow> re_state \<Rightarrow> re_state list" where
  "matchRE (Cls p) st = (case snd st of c # s \<Rightarrow> if p c then [(Some c, s)] else [] | [] \<Rightarrow> [])"
| "matchRE Bnd st = (if atBoundary st then [st] else [])"
| "matchRE (Seq a b) st = concat (map (matchRE b) (matchRE a st))"
| "matchRE (Alt a b) st = matchRE a st @ matchRE b st"
| "matchRE (Rep lo hi greedy r) st =
     concat (map (upTo (case hi of Some h \<Rightarrow> h - lo | None \<Rightarrow> length (snd st)) greedy (matchRE r))
       (times lo (matchRE r) st))"

text \<open>
  \<open>FindString\<close>: the preferred match at the leftmost position that has one, as the matched
  text.
\<close>

fun findFrom :: "re \<Rightarrow> char option \<Rightarrow> string \<Rightarrow> string option" where
  "findFrom r prev [] = (case matchRE r (prev, []) of [] \<Rightarrow> None | st # _ \<Rightarrow> Some [])"
| "findFrom r prev (c # s) = (case matchRE r (prev, c # s) of
     st # _ \<Rightarrow> Some (take (length (c # s) - length (snd st)) (c # s))
   | [] \<Rightarrow> findFrom r (Some c) s)"

definition findString :: "re \<Rightarrow> string \<Rightarrow> string option" where
  "findString r s = findFrom r None s"

definition matchString :: "re \<Rightarrow> string \<Rightarrow> bool" where
  "matchString r s \<longleftrightarrow> findString r s \<noteq> None"

section \<open>What a match consumes\<close>

text \<open>
  \<open>consumes P r\<close>: every match of \<open>r\<close> reads at least one character in \<open>P\<close>, by the
  shape of the pattern.
\<close>

definition reads :: "re_state \<Rightarrow> re_state \<Rightarrow> string \<Rightarrow> bool" where
  "reads st st' w \<longleftrightarrow> snd st = w @ snd st'"

lemma times_reads:
  assumes "\<And>st st'. st' \<in> set (f st) \<Longrightarrow> \<exists>w. reads st st' w"
  shows "st' \<in> set (times n f st) \<Longrightarrow> \<exists>w. reads st st' w"
proof (induction n arbitrary: st)
  case (Suc n)
  then obtain st1 where s1: "st1 \<in> set (f st)" "st' \<in> set (times n f st1)" by auto
  obtain w v where "reads st st1 w" "reads st1 st' v" using assms [OF s1(1)] Suc.IH [OF s1(2)] by blast
  then have "reads st st' (w @ v)" by (simp add: reads_def)
  then show ?case by blast
qed (auto simp: reads_def)

lemma upTo_reads:
  assumes "\<And>st st'. st' \<in> set (f st) \<Longrightarrow> \<exists>w. reads st st' w"
  shows "st' \<in> set (upTo n g f st) \<Longrightarrow> \<exists>w. reads st st' w"
proof (induction n arbitrary: st)
  case (Suc n)
  show ?case
  proof (cases "st' = st")
    case True
    then show ?thesis by (auto simp: reads_def)
  next
    case False
    then obtain st1 where s1: "st1 \<in> set (f st)" "st' \<in> set (upTo n g f st1)"
      using Suc.prems by (auto simp: Let_def split: if_splits)
    obtain w v where "reads st st1 w" "reads st1 st' v" using assms [OF s1(1)] Suc.IH [OF s1(2)] by blast
    then have "reads st st' (w @ v)" by (simp add: reads_def)
    then show ?thesis by blast
  qed
qed (auto simp: reads_def)

lemma matchRE_reads: "st' \<in> set (matchRE r st) \<Longrightarrow> \<exists>w. reads st st' w"
proof (induction r arbitrary: st st')
  case (Cls p)
  then show ?case by (cases "snd st") (auto simp: reads_def split: if_splits)
next
  case (Seq a b)
  then obtain st1 where s1: "st1 \<in> set (matchRE a st)" "st' \<in> set (matchRE b st1)" by auto
  obtain w v where "reads st st1 w" "reads st1 st' v" using Seq.IH(1) [OF s1(1)] Seq.IH(2) [OF s1(2)] by blast
  then have "reads st st' (w @ v)" by (simp add: reads_def)
  then show ?case by blast
next
  case (Rep lo hi g r)
  then obtain st1 where s1: "st1 \<in> set (times lo (matchRE r) st)"
    "st' \<in> set (upTo (case hi of Some h \<Rightarrow> h - lo | None \<Rightarrow> length (snd st)) g (matchRE r) st1)" by auto
  obtain w v where "reads st st1 w" "reads st1 st' v"
    using times_reads [OF Rep.IH s1(1)] upTo_reads [OF Rep.IH s1(2)] by blast
  then have "reads st st' (w @ v)" by (simp add: reads_def)
  then show ?case by blast
qed (auto simp: reads_def split: list.splits if_splits)

primrec consumes :: "(char \<Rightarrow> bool) \<Rightarrow> re \<Rightarrow> bool" where
  "consumes P (Cls p) = (\<forall>c. p c \<longrightarrow> P c)"
| "consumes P Bnd = False"
| "consumes P (Seq a b) = (consumes P a \<or> consumes P b)"
| "consumes P (Alt a b) = (consumes P a \<and> consumes P b)"
| "consumes P (Rep lo hi g r) = (0 < lo \<and> consumes P r)"

lemma matchRE_consumes:
  "consumes P r \<Longrightarrow> st' \<in> set (matchRE r st) \<Longrightarrow> \<exists>w. reads st st' w \<and> (\<exists>c\<in>set w. P c)"
proof (induction r arbitrary: st st')
  case (Cls p)
  then show ?case by (cases "snd st") (auto simp: reads_def split: if_splits)
next
  case (Seq a b)
  then obtain st1 where s1: "st1 \<in> set (matchRE a st)" "st' \<in> set (matchRE b st1)" by auto
  obtain w v where wv: "reads st st1 w" "reads st1 st' v" "(\<exists>c\<in>set w. P c) \<or> (\<exists>c\<in>set v. P c)"
    using Seq.IH(1) [OF _ s1(1)] Seq.IH(2) [OF _ s1(2)] matchRE_reads [OF s1(1)] matchRE_reads [OF s1(2)] Seq.prems(1)
    by auto
  then have "reads st st' (w @ v) \<and> (\<exists>c\<in>set (w @ v). P c)" by (auto simp: reads_def)
  then show ?case by blast
next
  case (Rep lo hi g r)
  obtain n where lo: "lo = Suc n" using Rep.prems(1) by (cases lo) auto
  obtain st2 where s2: "st2 \<in> set (times lo (matchRE r) st)"
    "st' \<in> set (upTo (case hi of Some h \<Rightarrow> h - lo | None \<Rightarrow> length (snd st)) g (matchRE r) st2)"
    using Rep.prems(2) by auto
  from s2(1) lo obtain st1 where s1: "st1 \<in> set (matchRE r st)" "st2 \<in> set (times n (matchRE r) st1)" by auto
  obtain w c where w: "reads st st1 w" "c \<in> set w" "P c" using Rep.IH [OF _ s1(1)] Rep.prems(1) by auto
  obtain v u where "reads st1 st2 v" "reads st2 st' u"
    using times_reads [OF matchRE_reads [of _ r], OF _ s1(2)] upTo_reads [OF matchRE_reads [of _ r], OF _ s2(2)]
    by blast
  then have "reads st st' (w @ v @ u)" using w(1) by (simp add: reads_def)
  then show ?case using w(2,3) by (intro exI [of _ "w @ v @ u"]) auto
qed auto

lemma findFrom_consumes: "consumes P r \<Longrightarrow> findFrom r prev s \<noteq> None \<Longrightarrow> \<exists>c\<in>set s. P c"
proof (induction s arbitrary: prev)
  case Nil
  then obtain st where "st \<in> set (matchRE r (prev, []))" by (cases "matchRE r (prev, [])") auto
  then show ?case using matchRE_consumes [OF Nil(1)] by (fastforce simp: reads_def)
next
  case (Cons c s)
  show ?case
  proof (cases "matchRE r (prev, c # s)")
    case Nil
    then show ?thesis using Cons by auto
  next
    case (Cons st sts)
    then have "st \<in> set (matchRE r (prev, c # s))" by simp
    then obtain w where w: "reads (prev, c # s) st w" "\<exists>d\<in>set w. P d" using matchRE_consumes [OF Cons.prems(1)] by blast
    have "set w \<subseteq> set (c # s)" using w(1) unfolding reads_def snd_conv by simp
    then show ?thesis using w(2) by blast
  qed
qed

lemma matchString_consumes: "consumes P r \<Longrightarrow> matchString r s \<Longrightarrow> \<exists>c\<in>set s. P c"
  unfolding matchString_def findString_def by (rule findFrom_consumes)

end
