(* ===== verification/Policy.thy ===== *)
theory Policy
  imports GoText Json
begin

text \<open>
  \<open>internal/policy/policy.go\<close>: condition trees, their evaluation over facts, the comparison
  operators, and the pre-compilation of patterns. A \<open>float64\<close> is its 64-bit pattern; the
  operations of the standard library on floats and on patterns chosen by users are the
  record \<open>stdlib\<close>.
\<close>

section \<open>Values\<close>

datatype gval =
    VStr string
  | VInt int
  | VI64 i64
  | VU64 u64
  | VFloat u64
  | VBool bool
  | VNil
  | VList "gval list"
  | VMap "(string \<times> gval) list"

record stdlib =
  formatFloat :: "u64 \<Rightarrow> string"
  parseFloat :: "string \<Rightarrow> u64 option"
  floatOfInt :: "int \<Rightarrow> u64"
  floatLess :: "u64 \<Rightarrow> u64 \<Rightarrow> bool"
  floatLeq :: "u64 \<Rightarrow> u64 \<Rightarrow> bool"
  sprintV :: "gval \<Rightarrow> string"
  regexpOk :: "string \<Rightarrow> bool"
  regexpMatch :: "string \<Rightarrow> string \<Rightarrow> bool"
  jsonFloat :: "u64 \<Rightarrow> string option"

type_synonym facts = "string \<Rightarrow> gval option"

definition EffectAllow :: string where "EffectAllow = ''allow''"
definition EffectDeny :: string where "EffectDeny = ''deny''"
definition OpEq :: string where "OpEq = ''eq''"
definition OpNeq :: string where "OpNeq = ''neq''"
definition OpContains :: string where "OpContains = ''contains''"
definition OpMatches :: string where "OpMatches = ''matches''"
definition OpGt :: string where "OpGt = ''gt''"
definition OpLt :: string where "OpLt = ''lt''"
definition OpGte :: string where "OpGte = ''gte''"
definition OpLte :: string where "OpLte = ''lte''"
definition OpIn :: string where "OpIn = ''in''"
definition OpNotIn :: string where "OpNotIn = ''not_in''"

lemmas op_defs = OpEq_def OpNeq_def OpContains_def OpMatches_def OpGt_def OpLt_def OpGte_def OpLte_def
  OpIn_def OpNotIn_def

text \<open>\<open>compiledOpMatches\<close> holds the pattern that was compiled.\<close>

datatype Condition = Condition
  (All: "Condition list") (Any: "Condition list") (NoneOf: "Condition list")
  (Fact: string) (Operator: string) (Value: gval) (compiledOpMatches: "string option")

record PAction =
  Effect :: string
  ErrorType :: string
  ErrorMessage :: string

record Policy =
  PolID :: string
  Name :: string
  Description :: string
  Enabled :: bool
  Priority :: int
  Severity :: string
  Conditions :: Condition
  Action :: PAction
  CreatedNS :: i64
  UpdatedNS :: i64

record PolicyResult =
  rPolicyID :: string
  rPolicyName :: string
  rEffect :: string
  Matched :: bool
  rErrorType :: string
  rErrorMessage :: string

record NociceptionError =
  nPolicyID :: string
  nPolicyName :: string
  Message :: string
  nSeverity :: string
  nTimestampNS :: i64

definition NociceptionErrorText :: "NociceptionError \<Rightarrow> string" where
  "NociceptionErrorText e = ''NociceptionError ['' @ nSeverity e @ '']: '' @ Message e @ '' (policy: '' @ nPolicyName e @ '')''"

section \<open>Comparison\<close>

fun valueString :: "stdlib \<Rightarrow> gval \<Rightarrow> string" where
  "valueString L (VStr s) = s"
| "valueString L (VInt i) = showInt i"
| "valueString L (VI64 i) = showInt i"
| "valueString L (VU64 w) = showNat (unat w)"
| "valueString L (VFloat f) = formatFloat L f"
| "valueString L (VBool b) = (if b then ''true'' else ''false'')"
| "valueString L VNil = ''<nil>''"
| "valueString L v = sprintV L v"

fun toFloat64 :: "stdlib \<Rightarrow> gval \<Rightarrow> u64 option" where
  "toFloat64 L (VFloat f) = Some f"
| "toFloat64 L (VInt i) = Some (floatOfInt L i)"
| "toFloat64 L (VI64 i) = Some (floatOfInt L i)"
| "toFloat64 L (VU64 w) = Some (floatOfInt L (uint w))"
| "toFloat64 L (VStr s) = parseFloat L s"
| "toFloat64 L _ = None"

definition compareNumeric :: "stdlib \<Rightarrow> gval \<Rightarrow> gval \<Rightarrow> (u64 \<Rightarrow> u64 \<Rightarrow> bool) \<Rightarrow> bool" where
  "compareNumeric L actual expected cmp = (case (toFloat64 L actual, toFloat64 L expected) of
     (Some a, Some b) \<Rightarrow> cmp a b | _ \<Rightarrow> False)"

text \<open>The search of \<open>in\<close> and \<open>not_in\<close>: a list, or a comma-separated string.\<close>

definition listed :: "stdlib \<Rightarrow> gval \<Rightarrow> string \<Rightarrow> bool" where
  "listed L expected actualStr = (case expected of
     VList items \<Rightarrow> list_ex (\<lambda>item. valueString L item = actualStr) items
   | VStr s \<Rightarrow> list_ex (\<lambda>item. trimSpace item = actualStr) (splitOn (CHR '','') s)
   | _ \<Rightarrow> False)"

definition compareValues :: "stdlib \<Rightarrow> gval \<Rightarrow> string \<Rightarrow> gval \<Rightarrow> bool" where
  "compareValues L actual op expected =
     (if op = OpEq then valueString L actual = valueString L expected
      else if op = OpNeq then valueString L actual \<noteq> valueString L expected
      else if op = OpContains then containsSub (valueString L actual) (valueString L expected)
      else if op = OpMatches then
        (if regexpOk L (valueString L expected) then regexpMatch L (valueString L expected) (valueString L actual) else False)
      else if op = OpIn then listed L expected (valueString L actual)
      else if op = OpNotIn then \<not> listed L expected (valueString L actual)
      else if op = OpGt then compareNumeric L actual expected (\<lambda>a b. floatLess L b a)
      else if op = OpLt then compareNumeric L actual expected (floatLess L)
      else if op = OpGte then compareNumeric L actual expected (\<lambda>a b. floatLeq L b a)
      else if op = OpLte then compareNumeric L actual expected (floatLeq L)
      else False)"

section \<open>Evaluation\<close>

definition evalLeaf :: "stdlib \<Rightarrow> facts \<Rightarrow> string \<Rightarrow> string \<Rightarrow> gval \<Rightarrow> string option \<Rightarrow> bool" where
  "evalLeaf L facts f op v cre =
     (if f = '''' then True
      else case facts f of
        None \<Rightarrow> False
      | Some actual \<Rightarrow>
          (case cre of
             Some p \<Rightarrow> if op = OpMatches then regexpMatch L p (valueString L actual) else compareValues L actual op v
           | None \<Rightarrow> compareValues L actual op v))"

fun evaluateCondition :: "stdlib \<Rightarrow> facts \<Rightarrow> Condition \<Rightarrow> bool" where
  "evaluateCondition L facts (Condition al an no f op v cre) =
     (if al \<noteq> [] then list_all (evaluateCondition L facts) al
      else if an \<noteq> [] then list_ex (evaluateCondition L facts) an
      else if no \<noteq> [] then \<not> list_ex (evaluateCondition L facts) no
      else evalLeaf L facts f op v cre)"

definition EngineEvaluate :: "stdlib \<Rightarrow> Policy \<Rightarrow> facts \<Rightarrow> PolicyResult" where
  "EngineEvaluate L p facts = \<lparr>rPolicyID = PolID p, rPolicyName = Name p, rEffect = Effect (Action p),
     Matched = evaluateCondition L facts (Conditions p), rErrorType = ErrorType (Action p),
     rErrorMessage = ErrorMessage (Action p)\<rparr>"

section \<open>Pre-compilation of patterns\<close>

definition compileLeaf :: "stdlib \<Rightarrow> string \<Rightarrow> gval \<Rightarrow> string option \<Rightarrow> string option option" where
  "compileLeaf L op v cre =
     (if op = OpMatches then
        (let pattern = valueString L v in
         if 0 < length pattern \<and> length pattern < 1024 then
           (if regexpOk L pattern then Some (Some pattern) else None)
         else Some cre)
      else Some cre)"

text \<open>\<open>None\<close> is the error of a pattern that does not compile.\<close>

fun CompileRegexp :: "stdlib \<Rightarrow> Condition \<Rightarrow> Condition option"
  and compileAll :: "stdlib \<Rightarrow> Condition list \<Rightarrow> Condition list option" where
  "CompileRegexp L (Condition al an no f op v cre) =
     (case compileLeaf L op v cre of None \<Rightarrow> None | Some cre' \<Rightarrow>
     (case compileAll L al of None \<Rightarrow> None | Some al' \<Rightarrow>
     (case compileAll L an of None \<Rightarrow> None | Some an' \<Rightarrow>
     (case compileAll L no of None \<Rightarrow> None | Some no' \<Rightarrow>
        Some (Condition al' an' no' f op v cre')))))"
| "compileAll L [] = Some []"
| "compileAll L (c # cs) = (case CompileRegexp L c of None \<Rightarrow> None | Some c' \<Rightarrow>
     (case compileAll L cs of None \<Rightarrow> None | Some cs' \<Rightarrow> Some (c' # cs')))"

text \<open>A condition as the JSON decoder leaves it: no pattern compiled.\<close>

fun uncompiled :: "Condition \<Rightarrow> bool" where
  "uncompiled (Condition al an no f op v cre) =
     (cre = None \<and> list_all uncompiled al \<and> list_all uncompiled an \<and> list_all uncompiled no)"

lemma evalLeaf_compile:
  assumes "compileLeaf L op v None = Some cre'"
  shows "evalLeaf L facts f op v cre' = evalLeaf L facts f op v None"
proof (cases "op = OpMatches \<and> cre' \<noteq> None")
  case True
  then have "cre' = Some (valueString L v)" "regexpOk L (valueString L v)"
    using assms by (auto simp: compileLeaf_def Let_def split: if_splits)
  then show ?thesis using True by (simp add: evalLeaf_def compareValues_def op_defs split: option.splits)
next
  case False
  then have "cre' = None" using assms by (auto simp: compileLeaf_def Let_def split: if_splits)
  then show ?thesis by simp
qed

lemma list_all2_pred:
  "list_all2 (\<lambda>x y. P x = P y) xs ys \<Longrightarrow> list_all P xs = list_all P ys \<and> list_ex P xs = list_ex P ys"
  by (induction rule: list_all2_induct) auto

lemma CompileRegexp_eval:
  "CompileRegexp L c = Some c' \<Longrightarrow> uncompiled c \<Longrightarrow> evaluateCondition L facts c' = evaluateCondition L facts c"
  "compileAll L cs = Some cs' \<Longrightarrow> list_all uncompiled cs \<Longrightarrow>
     list_all2 (\<lambda>x y. evaluateCondition L facts x = evaluateCondition L facts y) cs' cs"
proof (induction L c and L cs arbitrary: c' and cs' rule: CompileRegexp_compileAll.induct)
  case (1 L al an no f op v cre)
  obtain cre' al' an' no' where c: "compileLeaf L op v cre = Some cre'" "compileAll L al = Some al'"
    "compileAll L an = Some an'" "compileAll L no = Some no'" "c' = Condition al' an' no' f op v cre'"
    using 1(4) by (auto split: option.splits)
  have u: "cre = None" "list_all uncompiled al" "list_all uncompiled an" "list_all uncompiled no"
    using 1(5) by auto
  note all = 1(1) [OF c(1,2) u(2)] 1(2) [OF c(1,2,3) u(3)] 1(3) [OF c(1,2,3,4) u(4)]
  have len: "al' = [] \<longleftrightarrow> al = []" "an' = [] \<longleftrightarrow> an = []" "no' = [] \<longleftrightarrow> no = []"
    using all [THEN list_all2_lengthD] by auto
  have "evalLeaf L facts f op v cre' = evalLeaf L facts f op v cre"
    using evalLeaf_compile c(1) u(1) by simp
  then show ?case using all [THEN list_all2_pred] len by (simp add: c(5))
next
  case (2 L)
  then show ?case by simp
next
  case (3 L c cs)
  then show ?case by (auto split: option.splits)
qed

section \<open>Properties\<close>

text \<open>
  C19. Compiling patterns ahead changes no decision. When \<open>CompileRegexp\<close> succeeds on a
  condition as the decoder leaves it, the compiled condition gives the same answer on all
  facts, at every depth of the tree.
\<close>

theorem compile_preserves_evaluation:
  assumes "CompileRegexp L c = Some c'" and "uncompiled c"
  shows "evaluateCondition L facts c' = evaluateCondition L facts c"
  using assms by (rule CompileRegexp_eval(1))

section \<open>Concrete instances\<close>

text \<open>
  A library in which a pattern is a literal text without parentheses; numbers are integers.
\<close>

definition exLib :: stdlib where
  "exLib = \<lparr>formatFloat = (\<lambda>w. showInt (sint w)), parseFloat = (\<lambda>s. map_option word_of_int (parseI64 s)),
     floatOfInt = word_of_int, floatLess = (\<lambda>a b. sint a < sint b), floatLeq = (\<lambda>a b. sint a \<le> sint b),
     sprintV = (\<lambda>_. ''''), regexpOk = (\<lambda>p. CHR ''('' \<notin> set p), regexpMatch = (\<lambda>p s. containsSub s p),
     jsonFloat = (\<lambda>w. Some (showInt (sint w)))\<rparr>"

definition exCond :: Condition where
  "exCond = Condition [] [Condition [] [] [] ''action_type'' OpMatches (VStr ''delete'') None] [] '''' '''' VNil None"

theorem compile_preserves_evaluation_witness:
  "\<exists>c'. CompileRegexp exLib exCond = Some c' \<and> c' \<noteq> exCond \<and>
     evaluateCondition exLib (\<lambda>_. Some (VStr ''db.delete'')) c' =
     evaluateCondition exLib (\<lambda>_. Some (VStr ''db.delete'')) exCond"
proof -
  let ?c = "Condition [] [Condition [] [] [] ''action_type'' OpMatches (VStr ''delete'') (Some ''delete'')] [] '''' '''' VNil None"
  have c: "CompileRegexp exLib exCond = Some ?c"
    by (simp add: exCond_def compileLeaf_def exLib_def op_defs)
  have "uncompiled exCond" by (simp add: exCond_def)
  from compile_preserves_evaluation [OF c this] show ?thesis using c by (auto simp: exCond_def)
qed

end
