(* ===== verification/AuditRing.thy ===== *)
theory AuditRing
  imports Prelude
begin

text \<open>
  The daemon's ring buffer of audit events (\<open>recordAuditEvent\<close> and \<open>getAuditEvents\<close> of
  \<open>internal/daemon/daemon.go\<close>), refined against its specification: the list of all events
  recorded so far, of which a reader gets the last ones.
\<close>

section \<open>The ring\<close>

record AuditEventEntry =
  aeTimestampNS :: i64
  aeComponent :: string
  aeEventType :: string
  aeDescription :: string

record audit_ring =
  auditRing :: "AuditEventEntry list"
  auditIdx :: i64
  auditCount :: i64

definition zeroEvent :: AuditEventEntry where
  "zeroEvent = \<lparr>aeTimestampNS = 0, aeComponent = [], aeEventType = [], aeDescription = []\<rparr>"

definition newRing :: audit_ring where
  "newRing = \<lparr>auditRing = replicate 200 zeroEvent, auditIdx = 0, auditCount = 0\<rparr>"

text \<open>Go's remainder has the sign of the dividend.\<close>

definition goRem :: "int \<Rightarrow> int \<Rightarrow> int" where
  "goRem a b = (if a < 0 then - ((- a) mod b) else a mod b)"

text \<open>An index outside the array panics.\<close>

definition recordAuditEvent :: "i64 \<Rightarrow> string \<Rightarrow> string \<Rightarrow> string \<Rightarrow> audit_ring \<Rightarrow> (unit, audit_ring) go" where
  "recordAuditEvent now component eventType description r = (let i = goRem (auditIdx r) 200 in
     if i < 0 then Panic
     else Ok (r\<lparr>auditRing := (auditRing r)[nat i := \<lparr>aeTimestampNS = now, aeComponent = component,
            aeEventType = eventType, aeDescription = description\<rparr>],
          auditIdx := wrap64 (auditIdx r + 1),
          auditCount := (if auditCount r < 200 then auditCount r + 1 else auditCount r)\<rparr>))"

definition getAuditEvents :: "i64 \<Rightarrow> audit_ring \<Rightarrow> AuditEventEntry list" where
  "getAuditEvents limit0 r = (let
       limit1 = (if limit0 \<le> 0 \<or> 200 < limit0 then 50 else limit0);
       limit = (if auditCount r < limit1 then auditCount r else limit1);
       start = goRem (auditIdx r - limit + 200) 200
     in map (\<lambda>i. auditRing r ! nat (goRem (start + int i) 200)) [0..<nat limit])"

section \<open>Refinement\<close>

text \<open>The list of all events, and what the ring keeps of it.\<close>

definition ringAbs :: "audit_ring \<Rightarrow> AuditEventEntry list \<Rightarrow> bool" where
  "ringAbs r es \<longleftrightarrow> length (auditRing r) = 200 \<and> auditIdx r = int (length es) \<and>
     auditCount r = int (min 200 (length es)) \<and>
     (\<forall>k < length es. length es \<le> k + 200 \<longrightarrow> auditRing r ! (k mod 200) = es ! k)"

definition lastEvents :: "i64 \<Rightarrow> AuditEventEntry list \<Rightarrow> AuditEventEntry list" where
  "lastEvents limit es = (let n = (if limit \<le> 0 \<or> 200 < limit then 50 else nat limit) in drop (length es - n) es)"

fun recordAll :: "AuditEventEntry list \<Rightarrow> audit_ring \<Rightarrow> (unit, audit_ring) go" where
  "recordAll [] r = Ok r"
| "recordAll (e # es) r = (case recordAuditEvent (aeTimestampNS e) (aeComponent e) (aeEventType e) (aeDescription e) r of
     Ok r' \<Rightarrow> recordAll es r' | Err u \<Rightarrow> Err u | Panic \<Rightarrow> Panic)"

lemma newRing_abs: "ringAbs newRing []"
  by (simp add: ringAbs_def newRing_def)

lemma goRem_nat: "goRem (int n) 200 = int (n mod 200)"
  by (simp add: goRem_def zmod_int)

lemma goRem_back:
  assumes "k \<le> n"
  shows "goRem (int n - int k + 200) 200 = int ((n - k) mod 200)"
proof -
  have "int n - int k + 200 = int (n - k + 200)" using assms by simp
  then show ?thesis by (simp only: goRem_nat mod_add_self2)
qed

lemma mod_200_inj: "k mod 200 = n mod 200 \<Longrightarrow> k < n \<Longrightarrow> n < k + 200 \<Longrightarrow> False" for k n :: nat
  using mod_eq_dvd_iff_nat [of k n 200] nat_dvd_not_less [of "n - k" 200] by (auto simp: eq_commute)

lemma record_abs:
  assumes "ringAbs r es" and "int (length es) + 1 < 2 ^ 63"
  shows "\<exists>r'. recordAuditEvent now c t d r = Ok r' \<and>
    ringAbs r' (es @ [\<lparr>aeTimestampNS = now, aeComponent = c, aeEventType = t, aeDescription = d\<rparr>])"
proof -
  let ?e = "\<lparr>aeTimestampNS = now, aeComponent = c, aeEventType = t, aeDescription = d\<rparr>"
  let ?n = "length es"
  let ?ring = "(auditRing r)[?n mod 200 := ?e]"
  have R: "length (auditRing r) = 200" "auditIdx r = int ?n" "auditCount r = int (min 200 ?n)"
    "\<And>k. k < ?n \<Longrightarrow> ?n \<le> k + 200 \<Longrightarrow> auditRing r ! (k mod 200) = es ! k"
    using assms(1) by (auto simp: ringAbs_def)
  have w: "wrap64 (int ?n + 1) = int ?n + 1" using assms(2) by (intro wrap64_id) (simp add: in_i64_def)
  have "?ring ! (k mod 200) = (es @ [?e]) ! k" if "k < Suc ?n" "Suc ?n \<le> k + 200" for k
  proof (cases "k = ?n")
    case True
    then show ?thesis using R(1) by simp
  next
    case False
    then have "k mod 200 \<noteq> ?n mod 200" using that mod_200_inj [of k ?n] by auto
    then show ?thesis using R(4) [of k] that False by (simp add: nth_append)
  qed
  then have "ringAbs (r\<lparr>auditRing := ?ring, auditIdx := int ?n + 1,
      auditCount := (if auditCount r < 200 then auditCount r + 1 else auditCount r)\<rparr>) (es @ [?e])"
    using R(1,3) by (auto simp: ringAbs_def)
  then show ?thesis by (simp add: recordAuditEvent_def Let_def R(2) goRem_nat w)
qed

lemma recordAll_abs:
  "ringAbs r es \<Longrightarrow> int (length es + length new) < 2 ^ 63 \<Longrightarrow> \<exists>r'. recordAll new r = Ok r' \<and> ringAbs r' (es @ new)"
proof (induction new arbitrary: r es)
  case (Cons e new)
  have e: "\<lparr>aeTimestampNS = aeTimestampNS e, aeComponent = aeComponent e, aeEventType = aeEventType e,
      aeDescription = aeDescription e\<rparr> = e" by simp
  from record_abs [OF Cons.prems(1), of "aeTimestampNS e" "aeComponent e" "aeEventType e" "aeDescription e"] Cons.prems(2)
  obtain r' where r': "recordAuditEvent (aeTimestampNS e) (aeComponent e) (aeEventType e) (aeDescription e) r = Ok r'"
    "ringAbs r' (es @ [e])" unfolding e by auto
  from Cons.IH [OF r'(2)] Cons.prems(2) r'(1) show ?case by auto
qed simp

lemma get_abs:
  assumes "ringAbs r es"
  shows "getAuditEvents limit r = lastEvents limit es"
proof -
  define n where "n = length es"
  define m where "m = (if limit \<le> 0 \<or> 200 < limit then 50 else nat limit)"
  define k where "k = min m n"
  have R: "auditIdx r = int n" "auditCount r = int (min 200 n)"
    "\<And>i. i < n \<Longrightarrow> n \<le> i + 200 \<Longrightarrow> auditRing r ! (i mod 200) = es ! i"
    using assms by (auto simp: ringAbs_def n_def)
  have m: "(if limit \<le> 0 \<or> 200 < limit then 50 else limit) = int m" "m \<le> 200"
    by (auto simp: m_def)
  have lim: "(if auditCount r < int m then auditCount r else int m) = int k"
    unfolding R k_def using m(2) by auto
  have k: "k \<le> n" "k \<le> 200" using m(2) by (auto simp: k_def)
  have "getAuditEvents limit r = map (\<lambda>i. auditRing r ! (((n - k) mod 200 + i) mod 200)) [0..<k]"
    unfolding getAuditEvents_def Let_def m(1) lim R(1) goRem_back [OF k(1)]
    by (simp add: goRem_nat flip: of_nat_add)
  also have "\<dots> = map (\<lambda>i. es ! (n - k + i)) [0..<k]"
  proof (rule map_cong [OF refl])
    fix i assume "i \<in> set [0..<k]"
    then show "auditRing r ! (((n - k) mod 200 + i) mod 200) = es ! (n - k + i)"
      using R(3) [of "n - k + i"] k by (simp only: mod_add_left_eq) simp
  qed
  also have "\<dots> = drop (n - k) es"
    using k by (intro nth_equalityI) (simp_all add: n_def)
  also have "\<dots> = lastEvents limit es"
    by (simp add: lastEvents_def Let_def k_def min_def flip: m_def n_def)
  finally show ?thesis .
qed

text \<open>
  C35. The audit ring refines the list of all events. After any sequence of events (fewer than
  \<open>2 ^ 63\<close>, the range of the counter) the buffer has not panicked, and a reader gets
  exactly the last events in the order they were recorded: as many as asked for, fifty when the
  limit is not between 1 and 200, all of them when there are fewer.
\<close>

theorem audit_ring_refines_list:
  assumes "int (length es) < 2 ^ 63"
  shows "\<exists>r. recordAll es newRing = Ok r \<and> getAuditEvents limit r = lastEvents limit es"
  using recordAll_abs [OF newRing_abs, of es] get_abs assms by fastforce

theorem audit_ring_refines_list_witness:
  "\<exists>r. recordAll (replicate 201 zeroEvent @ [zeroEvent\<lparr>aeTimestampNS := 7\<rparr>]) newRing = Ok r \<and>
     getAuditEvents 2 r = [zeroEvent, zeroEvent\<lparr>aeTimestampNS := 7\<rparr>]"
  using audit_ring_refines_list [of "replicate 201 zeroEvent @ [zeroEvent\<lparr>aeTimestampNS := 7\<rparr>]" 2]
  by (simp add: lastEvents_def)

end
