(* ===== verification/Broker.thy ===== *)
theory Broker
  imports GoStruct "HOL-Library.Char_ord" "HOL-Library.List_Lexorder"
begin

text \<open>
  \<open>internal/broker/broker.go\<close>: the broker of ephemeral credentials, its provider interface,
  its cache and the timers that revoke a credential when it expires. A provider is a record of
  the interface's methods; each method takes the value \<open>'e\<close> of what it reads from outside
  (clock, random source, environment, the remote service). Times are nanoseconds, an empty list
  stands for a nil slice or map.
\<close>

section \<open>Data\<close>

record Scope =
  scResource :: string
  scPermissions :: "string list"
  scConstraints :: "(string \<times> string) list"

record ProvisionRequest =
  prAgentID :: string
  prActionType :: string
  prScope :: Scope
  prTTLSeconds :: i64
  prRequestID :: string
  prPreReceiptID :: string
  prParentAgentID :: string
  prTimestamp :: int

record Credential =
  cdID :: string
  cdAgentID :: string
  cdProvider :: string
  cdType :: string
  cdSecret :: string
  cdMetadata :: "(string \<times> string) list"
  cdScope :: Scope
  cdIssuedAt :: int
  cdExpiresAt :: int
  cdRevoked :: bool
  cdRequestID :: string
  cdPreReceiptID :: string
  cdProvisionLogID :: string

record 'e CredProvider =
  cpName :: string
  ProvisionCredential :: "'e \<Rightarrow> ProvisionRequest \<Rightarrow> string + Credential"
  RevokeCredential :: "'e \<Rightarrow> string \<Rightarrow> string option"
  ValidateScope :: "Scope \<Rightarrow> string option"

text \<open>
  The cache is an association list from credential identifiers, in the order of insertion (Go
  leaves the order of a map open). \<open>brTimers\<close> are the goroutines of
  \<open>scheduleRevocation\<close> that wait for an expiry, \<open>brDone\<close> that \<open>done\<close> is closed.
\<close>

record 'e Broker =
  brProviders :: "string \<Rightarrow> 'e CredProvider option"
  brCreds :: "(string \<times> Credential) list"
  brTimers :: "(string \<times> int) list"
  brDone :: bool

datatype broker_err =
    AlreadyRegistered string
  | ProviderNotFound string
  | InvalidScope string
  | ProvisionFailed string string
  | CredentialNotFound string
  | RevokeFailed string string

definition NewBroker :: "'e Broker" where
  "NewBroker = \<lparr>brProviders = Map.empty, brCreds = [], brTimers = [], brDone = False\<rparr>"

section \<open>The cache\<close>

fun storeCred :: "Credential \<Rightarrow> (string \<times> Credential) list \<Rightarrow> (string \<times> Credential) list" where
  "storeCred c [] = [(cdID c, c)]"
| "storeCred c ((k, d) # cs) = (if k = cdID c then (k, c) # cs else (k, d) # storeCred c cs)"

definition markRevoked :: "string \<Rightarrow> (string \<times> Credential) list \<Rightarrow> (string \<times> Credential) list" where
  "markRevoked i cs = map (\<lambda>(k, c). (k, if k = i then c\<lparr>cdRevoked := True\<rparr> else c)) cs"

definition listActive :: "int \<Rightarrow> (string \<times> Credential) list \<Rightarrow> Credential list" where
  "listActive now cs = filter (\<lambda>c. \<not> cdRevoked c \<and> now < cdExpiresAt c) (map snd cs)"

section \<open>Operations\<close>

text \<open>\<open>rand.Read\<close> fills 16 bytes or fails; \<open>now\<close> is the clock of the fallback.\<close>

definition generateRequestID :: "crypto \<Rightarrow> bytes option \<Rightarrow> i64 \<Rightarrow> string" where
  "generateRequestID C rnd now = (case rnd of
     None \<Rightarrow> ''fallback-'' @ showInt now
   | Some b \<Rightarrow> hexEncode (take 8 (sha256 C b)))"

definition RegisterProvider :: "'e CredProvider \<Rightarrow> 'e Broker \<Rightarrow> broker_err option \<times> 'e Broker" where
  "RegisterProvider p b = (case brProviders b (cpName p) of
     Some _ \<Rightarrow> (Some (AlreadyRegistered (cpName p)), b)
   | None \<Rightarrow> (None, b\<lparr>brProviders := (brProviders b)(cpName p \<mapsto> p)\<rparr>))"

text \<open>\<open>scheduleRevocation\<close> up to its \<open>select\<close>; \<open>now\<close> is the clock when the goroutine starts.\<close>

definition scheduleRevocation :: "int \<Rightarrow> Credential \<Rightarrow> 'e Broker \<Rightarrow> 'e Broker" where
  "scheduleRevocation now c b = (if cdExpiresAt c - now \<le> 0 \<or> brDone b then b
     else b\<lparr>brTimers := brTimers b @ [(cdID c, cdExpiresAt c)]\<rparr>)"

record broker_env =
  bvRand :: "bytes option"
  bvRandNow :: i64
  bvNow :: int
  bvSched :: int

text \<open>\<open>Provision\<close> changes the request in place, so the request is part of its result.\<close>

definition Provision :: "crypto \<Rightarrow> broker_env \<Rightarrow> 'e \<Rightarrow> string \<Rightarrow> ProvisionRequest \<Rightarrow> 'e Broker
    \<Rightarrow> (broker_err + Credential) \<times> ProvisionRequest \<times> 'e Broker" where
  "Provision C V E name req b = (case brProviders b name of
     None \<Rightarrow> (Inl (ProviderNotFound name), req, b)
   | Some p \<Rightarrow>
       let req1 = (if 60 < prTTLSeconds req \<or> prTTLSeconds req \<le> 0 then req\<lparr>prTTLSeconds := 60\<rparr> else req) in
       (case ValidateScope p (prScope req1) of Some e \<Rightarrow> (Inl (InvalidScope e), req1, b) | None \<Rightarrow>
       let req2 = (if prRequestID req1 = '''' then req1\<lparr>prRequestID := generateRequestID C (bvRand V) (bvRandNow V)\<rparr> else req1);
           req3 = req2\<lparr>prTimestamp := bvNow V\<rparr> in
       (case ProvisionCredential p E req3 of
          Inl e \<Rightarrow> (Inl (ProvisionFailed name e), req3, b)
        | Inr c \<Rightarrow> (Inr c, req3, scheduleRevocation (bvSched V) c (b\<lparr>brCreds := storeCred c (brCreds b)\<rparr>)))))"

definition BrokerGet :: "string \<Rightarrow> 'e Broker \<Rightarrow> Credential option" where
  "BrokerGet i b = map_of (brCreds b) i"

definition Revoke :: "'e \<Rightarrow> string \<Rightarrow> 'e Broker \<Rightarrow> broker_err option \<times> 'e Broker" where
  "Revoke E i b = (case BrokerGet i b of None \<Rightarrow> (Some (CredentialNotFound i), b) | Some c \<Rightarrow>
     (case brProviders b (cdProvider c) of None \<Rightarrow> (Some (ProviderNotFound (cdProvider c)), b) | Some p \<Rightarrow>
     (case RevokeCredential p E i of
        Some e \<Rightarrow> (Some (RevokeFailed (cdProvider c) e), b)
      | None \<Rightarrow> (None, b\<lparr>brCreds := markRevoked i (brCreds b)\<rparr>))))"

definition ListActive :: "int \<Rightarrow> 'e Broker \<Rightarrow> Credential list" where
  "ListActive now b = listActive now (brCreds b)"

text \<open>A timer that runs out: the rest of \<open>scheduleRevocation\<close>; an error is only logged.\<close>

definition timerFires :: "'e \<Rightarrow> int \<Rightarrow> string \<Rightarrow> int \<Rightarrow> 'e Broker \<Rightarrow> 'e Broker" where
  "timerFires E now i due b = (if brDone b \<or> (i, due) \<notin> set (brTimers b) \<or> now < due then b
     else snd (Revoke E i (b\<lparr>brTimers := remove1 (i, due) (brTimers b)\<rparr>)))"

text \<open>Closing a closed channel panics.\<close>

definition CloseBroker :: "'e Broker \<Rightarrow> (unit, 'e Broker) go" where
  "CloseBroker b = (if brDone b then Panic else Ok (b\<lparr>brDone := True, brTimers := []\<rparr>))"

section \<open>JSON of a credential\<close>

definition sensitiveMetaKeys :: "string list" where
  "sensitiveMetaKeys = [''access_key'', ''session_token'', ''secret_key'']"

definition redactMeta :: "(string \<times> string) list \<Rightarrow> (string \<times> string) list" where
  "redactMeta m = map (\<lambda>(k, v). (k, if k \<in> set sensitiveMetaKeys then ''[REDACTED]'' else v)) m"

definition strMapJson :: "(string \<times> string) list \<Rightarrow> json" where
  "strMapJson m = JObj (map (\<lambda>(k, v). (k, JStr v)) (sort_key fst m))"

definition scopeJson :: "Scope \<Rightarrow> json" where
  "scopeJson s = JObj ([(''resource'', JStr (scResource s)),
      (''permissions'', if scPermissions s = [] then JNull else strsJson (scPermissions s))] @
     (if scConstraints s = [] then [] else [(''constraints'', strMapJson (scConstraints s))]))"

text \<open>
  \<open>MarshalJSON\<close>: the outer \<open>secret\<close> and \<open>metadata\<close> hide those of the embedded
  alias. \<open>fmtTime\<close> is the RFC 3339 form of a time.
\<close>

definition credentialJSON :: "(int \<Rightarrow> string) \<Rightarrow> Credential \<Rightarrow> json" where
  "credentialJSON fmtTime c = JObj [(''secret'', JStr ''[REDACTED]''), (''metadata'', strMapJson (redactMeta (cdMetadata c))),
     (''credential_id'', JStr (cdID c)), (''agent_id'', JStr (cdAgentID c)), (''provider'', JStr (cdProvider c)),
     (''type'', JStr (cdType c)), (''scope'', scopeJson (cdScope c)),
     (''issued_at'', JStr (fmtTime (cdIssuedAt c))), (''expires_at'', JStr (fmtTime (cdExpiresAt c))),
     (''revoked'', JBool (cdRevoked c)), (''request_id'', JStr (cdRequestID c)),
     (''pre_receipt_id'', JStr (cdPreReceiptID c)), (''provision_log_id'', JStr (cdProvisionLogID c))]"

section \<open>Interface: a credential provider\<close>

text \<open>
  What the broker relies on: a provider labels a credential with its own name and the request's
  agent, scope and identifier, does not hand it out revoked, and lets it expire the requested
  number of seconds after its issue.
\<close>

definition issuedFor :: "string \<Rightarrow> ProvisionRequest \<Rightarrow> Credential \<Rightarrow> bool" where
  "issuedFor name req c \<longleftrightarrow> cdProvider c = name \<and> cdAgentID c = prAgentID req \<and> cdScope c = prScope req \<and>
     cdRequestID c = prRequestID req \<and> \<not> cdRevoked c \<and> cdExpiresAt c = cdIssuedAt c + prTTLSeconds req * 10 ^ 9"

definition honest :: "'e CredProvider \<Rightarrow> bool" where
  "honest p \<longleftrightarrow> (\<forall>E req c. 0 < prTTLSeconds req \<and> prTTLSeconds req \<le> 60 \<longrightarrow>
     ProvisionCredential p E req = Inr c \<longrightarrow> issuedFor (cpName p) req c)"

locale credential_provider =
  fixes p :: "'e CredProvider"
  assumes provision_issued: "0 < prTTLSeconds req \<Longrightarrow> prTTLSeconds req \<le> 60 \<Longrightarrow>
    ProvisionCredential p E req = Inr c \<Longrightarrow> issuedFor (cpName p) req c"
begin

lemma honest_provider: "honest p"
  using provision_issued by (auto simp: honest_def)

lemma provision_issues:
  assumes "brProviders b (cpName p) = Some p" and "Provision C V E (cpName p) req b = (Inr c, req', b')"
  shows "issuedFor (cpName p) req' c \<and> 0 < prTTLSeconds req' \<and> prTTLSeconds req' \<le> 60 \<and> BrokerGet (cdID c) b' = Some c"
proof -
  have st: "map_of (storeCred c cs) (cdID c) = Some c" for cs
    by (induction cs) auto
  have "ProvisionCredential p E req' = Inr c" "0 < prTTLSeconds req'" "prTTLSeconds req' \<le> 60"
    "b' = scheduleRevocation (bvSched V) c (b\<lparr>brCreds := storeCred c (brCreds b)\<rparr>)"
    using assms by (auto simp: Provision_def Let_def split: option.splits sum.splits if_splits)
  then show ?thesis using provision_issued by (simp add: BrokerGet_def scheduleRevocation_def st)
qed

end

section \<open>The broker as a machine\<close>

datatype 'e broker_event =
    BRegister "'e CredProvider"
  | BProvision crypto broker_env 'e string ProvisionRequest
  | BRevoke 'e string
  | BTimer 'e int string int
  | BClose

fun brokerStep :: "'e Broker \<Rightarrow> 'e broker_event \<Rightarrow> 'e Broker" where
  "brokerStep b (BRegister p) = snd (RegisterProvider p b)"
| "brokerStep b (BProvision C V E name req) = snd (snd (Provision C V E name req b))"
| "brokerStep b (BRevoke E i) = snd (Revoke E i b)"
| "brokerStep b (BTimer E now i due) = timerFires E now i due b"
| "brokerStep b BClose = (case CloseBroker b of Ok b' \<Rightarrow> b' | _ \<Rightarrow> b)"

fun registersHonest :: "'e broker_event \<Rightarrow> bool" where
  "registersHonest (BRegister p) = honest p"
| "registersHonest _ = True"

text \<open>
  The invariant: every provider is registered under its name and keeps the contract, and a
  cached credential is stored under its identifier, belongs to a registered provider and lives
  for at most 60 seconds.
\<close>

definition shortLived :: "Credential \<Rightarrow> bool" where
  "shortLived c \<longleftrightarrow> cdIssuedAt c < cdExpiresAt c \<and> cdExpiresAt c \<le> cdIssuedAt c + 60 * 10 ^ 9"

definition broker_inv :: "'e Broker \<Rightarrow> bool" where
  "broker_inv b \<longleftrightarrow>
     (\<forall>n p. brProviders b n = Some p \<longrightarrow> cpName p = n \<and> honest p) \<and>
     distinct (map fst (brCreds b)) \<and>
     (\<forall>(k, c) \<in> set (brCreds b). k = cdID c \<and> shortLived c \<and> brProviders b (cdProvider c) \<noteq> None)"

lemma storeCred_fst: "fst ` set (storeCred c cs) = insert (cdID c) (fst ` set cs)"
  by (induction c cs rule: storeCred.induct) auto

lemma storeCred_keys: "distinct (map fst cs) \<Longrightarrow> distinct (map fst (storeCred c cs))"
  by (induction c cs rule: storeCred.induct) (auto simp: storeCred_fst)

lemma storeCred_set: "set (storeCred c cs) \<subseteq> insert (cdID c, c) (set cs)"
  by (induction c cs rule: storeCred.induct) (auto split: if_splits)

lemma markRevoked_keys [simp]: "map fst (markRevoked i cs) = map fst cs"
  by (simp add: markRevoked_def case_prod_beta comp_def)

lemma in_markRevoked:
  "(k, c) \<in> set (markRevoked i cs) \<Longrightarrow> \<exists>d. (k, d) \<in> set cs \<and> (c = d \<or> c = d\<lparr>cdRevoked := True\<rparr>)"
  by (auto simp: markRevoked_def split: if_splits)

lemma broker_inv_new: "broker_inv NewBroker"
  by (simp add: broker_inv_def NewBroker_def)

lemma broker_inv_markRevoked: "broker_inv b \<Longrightarrow> broker_inv (b\<lparr>brCreds := markRevoked i (brCreds b)\<rparr>)"
  by (fastforce simp: broker_inv_def shortLived_def dest: in_markRevoked)

lemma broker_inv_timers: "broker_inv (b\<lparr>brTimers := ts\<rparr>) = broker_inv b"
  by (simp add: broker_inv_def)

lemma Revoke_inv: "broker_inv b \<Longrightarrow> broker_inv (snd (Revoke E i b))"
  by (simp add: Revoke_def broker_inv_markRevoked split: option.splits)

lemma Provision_inv:
  assumes "broker_inv b"
  shows "broker_inv (snd (snd (Provision C V E name req b)))"
proof (cases "Provision C V E name req b")
  case (fields x req' b')
  show ?thesis
  proof (cases x)
    case (Inl e)
    with fields show ?thesis using assms by (auto simp: Provision_def Let_def split: option.splits sum.splits)
  next
    case (Inr c)
    obtain p where p: "brProviders b name = Some p" and pr: "ProvisionCredential p E req' = Inr c"
      and ttl: "0 < prTTLSeconds req'" "prTTLSeconds req' \<le> 60"
      and b': "b' = scheduleRevocation (bvSched V) c (b\<lparr>brCreds := storeCred c (brCreds b)\<rparr>)"
      using fields Inr by (auto simp: Provision_def Let_def split: option.splits sum.splits if_splits)
    from assms p have "cpName p = name" "honest p" by (auto simp: broker_inv_def)
    with pr ttl have issued: "issuedFor name req' c" by (auto simp: honest_def)
    have "shortLived c" using issued ttl by (simp add: shortLived_def issuedFor_def)
    moreover have "brProviders b (cdProvider c) \<noteq> None" using issued p by (simp add: issuedFor_def)
    ultimately have "broker_inv (b\<lparr>brCreds := storeCred c (brCreds b)\<rparr>)"
      using assms storeCred_set [of c "brCreds b"] storeCred_keys [of "brCreds b" c] by (auto simp: broker_inv_def)
    then show ?thesis using fields b' by (simp add: scheduleRevocation_def broker_inv_timers)
  qed
qed

lemma brokerStep_inv: "broker_inv b \<Longrightarrow> registersHonest e \<Longrightarrow> broker_inv (brokerStep b e)"
proof (induction b e rule: brokerStep.induct)
  case (1 b p)
  then show ?case by (auto simp: RegisterProvider_def broker_inv_def split: option.splits)
next
  case (4 b E now i due)
  then show ?case by (simp add: timerFires_def Revoke_inv broker_inv_timers)
next
  case (5 b)
  then show ?case by (simp add: CloseBroker_def broker_inv_def)
qed (simp_all add: Revoke_inv Provision_inv)

interpretation brokerSys: inv_system brokerStep registersHonest broker_inv
  by unfold_locales (rule brokerStep_inv)

end
