(* ===== verification/GoPath.thy ===== *)
theory GoPath
  imports GoText
begin

text \<open>
  Slash-separated paths as \<open>path/filepath\<close> treats them on Unix: an absolute path is the
  list of its components, \<open>cleanAbs\<close> the lexical cleaning of \<open>filepath.Join\<close> and
  \<open>filepath.Clean\<close>, and \<open>hasPathPrefix\<close> (\<open>internal/snapshot/filesystem.go\<close>)
  the test that one path lies below another.
\<close>

type_synonym path = "string list"

abbreviation slash :: char where
  "slash \<equiv> CHR ''/''"

definition absStr :: "path \<Rightarrow> string" where
  "absStr p = (if p = [] then [slash] else concat (map (\<lambda>c. slash # c) p))"

definition relStr :: "path \<Rightarrow> string" where
  "relStr p = drop 1 (absStr p)"

fun cleanFrom :: "path \<Rightarrow> string list \<Rightarrow> path" where
  "cleanFrom acc [] = acc"
| "cleanFrom acc (c # cs) = (if c = [] \<or> c = ''.'' then cleanFrom acc cs
     else if c = ''..'' then cleanFrom (butlast acc) cs
     else cleanFrom (acc @ [c]) cs)"

definition cleanAbs :: "string list \<Rightarrow> path" where
  "cleanAbs cs = cleanFrom [] cs"

text \<open>\<open>filepath.Join(root, name)\<close> for an absolute root.\<close>

definition joinAbs :: "path \<Rightarrow> string \<Rightarrow> path" where
  "joinAbs root name = cleanAbs (root @ splitOn slash name)"

definition hasPathPrefix :: "string \<Rightarrow> string \<Rightarrow> bool" where
  "hasPathPrefix p root \<longleftrightarrow> hasPrefix p (root @ [slash]) \<or> p = root"

text \<open>A component of a cleaned path, and paths made of them.\<close>

definition pathComp :: "string \<Rightarrow> bool" where
  "pathComp c \<longleftrightarrow> c \<noteq> [] \<and> c \<noteq> ''.'' \<and> c \<noteq> ''..'' \<and> slash \<notin> set c"

abbreviation cleanPath :: "path \<Rightarrow> bool" where
  "cleanPath p \<equiv> list_all pathComp p"

definition below :: "path \<Rightarrow> path \<Rightarrow> bool" where
  "below root p \<longleftrightarrow> take (length root) p = root"

lemma below_append [simp]: "below root (root @ p)"
  by (simp add: below_def)

lemma below_iff: "below root p \<longleftrightarrow> (\<exists>q. p = root @ q)"
  by (metis append_eq_conv_conj append_take_drop_id below_def)

lemma below_trans: "below p q \<Longrightarrow> below q r \<Longrightarrow> below p r"
  by (auto simp: below_iff)

lemma cleanFrom_id: "cleanPath cs \<Longrightarrow> cleanFrom acc cs = acc @ cs"
  by (induction cs arbitrary: acc) (auto simp: pathComp_def)

lemma cleanFrom_clean:
  "cleanPath acc \<Longrightarrow> \<forall>c\<in>set cs. slash \<notin> set c \<Longrightarrow> cleanPath (cleanFrom acc cs)"
proof (induction acc cs rule: cleanFrom.induct)
  case (2 acc c cs)
  have "cleanPath (butlast acc)" using 2(4) by (auto simp: list_all_iff dest: in_set_butlastD)
  moreover have "pathComp c" if "c \<noteq> []" "c \<noteq> ''.''" "c \<noteq> ''..''" using that 2(5) by (simp add: pathComp_def)
  ultimately show ?case using 2 by simp
qed simp

lemma cleanFrom_append: "cleanFrom acc (xs @ ys) = cleanFrom (cleanFrom acc xs) ys"
  by (induction acc xs rule: cleanFrom.induct) auto

lemma joinAbs_clean: "cleanPath root \<Longrightarrow> cleanPath (joinAbs root name)"
  using cleanFrom_clean [of root "splitOn slash name"] splitOn_no_sep
  by (simp add: joinAbs_def cleanAbs_def cleanFrom_append cleanFrom_id)

lemma absStr_append: "p \<noteq> [] \<Longrightarrow> absStr (p @ q) = absStr p @ (if q = [] then [] else absStr q)"
  by (simp add: absStr_def)

lemma absStr_Cons: "absStr (c # p) = slash # c @ (if p = [] then [] else absStr p)"
  by (simp add: absStr_def)

text \<open>On cleaned paths with a root other than \<open>/\<close> the test on strings is the test on components.\<close>

lemma slash_free_split:
  assumes "a @ slash # x = b @ slash # y" and "slash \<notin> set a" and "slash \<notin> set b"
  shows "a = b \<and> x = y"
  using assms by (induction a arbitrary: b) (case_tac [!] b, auto)

lemma absStr_prefix:
  assumes "cleanPath p" and "cleanPath root" and "absStr p = absStr root @ slash # z" and "root \<noteq> []"
  shows "below root p"
  using assms
proof (induction root arbitrary: p)
  case (Cons c root)
  obtain d q where p: "p = d # q" using Cons.prems(3) by (cases p) (auto simp: absStr_def)
  have ns: "slash \<notin> set c" "slash \<notin> set d" using Cons.prems by (auto simp: p pathComp_def)
  have eq: "d @ (if q = [] then [] else absStr q) = c @ (if root = [] then [] else absStr root) @ slash # z"
    using Cons.prems(3) by (simp add: p absStr_Cons)
  have q: "q \<noteq> []" using eq ns by (auto simp: append_eq_append_conv2)
  obtain y where y: "absStr q = slash # y" using q by (cases q) (auto simp: absStr_def)
  show ?case
  proof (cases "root = []")
    case True
    then show ?thesis using eq q y slash_free_split [of d y c z] ns by (simp add: p below_def)
  next
    case False
    then obtain w where w: "absStr root = slash # w" by (cases root) (auto simp: absStr_def)
    have "d = c" "y = w @ slash # z"
      using eq q y w False slash_free_split [of d y c "w @ slash # z"] ns by simp_all
    then show ?thesis using Cons.IH [of q] Cons.prems False y w by (simp add: p below_def)
  qed
qed simp

lemma absStr_inj:
  assumes "cleanPath p" and "cleanPath q" and "absStr p = absStr q"
  shows "p = q"
  using assms
proof (induction p arbitrary: q)
  case Nil
  then show ?case by (cases q) (auto simp: absStr_def pathComp_def)
next
  case (Cons c p)
  obtain d r where q: "q = d # r" using Cons.prems by (cases q) (auto simp: absStr_def pathComp_def)
  have ns: "slash \<notin> set c" "slash \<notin> set d" using Cons.prems by (auto simp: q pathComp_def)
  have eq: "c @ (if p = [] then [] else absStr p) = d @ (if r = [] then [] else absStr r)"
    using Cons.prems(3) by (simp add: q absStr_Cons)
  have st: "\<exists>y. absStr s = slash # y" for s by (cases s) (auto simp: absStr_def)
  show ?case
  proof (cases "p = [] \<or> r = []")
    case True
    then show ?thesis using eq ns st [of p] st [of r] by (auto simp: q split: if_splits)
  next
    case False
    obtain y z where "absStr p = slash # y" "absStr r = slash # z" using st by metis
    then have "c = d" "absStr p = absStr r"
      using eq False slash_free_split [of c y d z] ns by simp_all
    then show ?thesis using Cons.IH [of r] Cons.prems by (simp add: q)
  qed
qed

lemma hasPathPrefix_below:
  assumes "cleanPath p" and "cleanPath root" and "root \<noteq> []"
  shows "hasPathPrefix (absStr p) (absStr root) \<longleftrightarrow> below root p"
proof
  assume "hasPathPrefix (absStr p) (absStr root)"
  then consider z where "absStr p = absStr root @ slash # z" | "absStr p = absStr root"
    unfolding hasPathPrefix_def hasPrefix_def by (metis append.assoc append_Cons append_Nil append_take_drop_id)
  then show "below root p"
  proof cases
    case 1 then show ?thesis using absStr_prefix assms by blast
  next
    case 2 then show ?thesis using absStr_inj [OF assms(1,2)] by (simp add: below_def)
  qed
next
  assume "below root p"
  then obtain q where q: "p = root @ q" by (auto simp: below_iff)
  show "hasPathPrefix (absStr p) (absStr root)"
    using assms(3) by (cases q) (simp_all add: q hasPathPrefix_def hasPrefix_def absStr_append absStr_Cons)
qed

end
