(* ===== verification/SnapshotFS.thy ===== *)
theory SnapshotFS
  imports GoPath Json "HOL-Library.AList" "HOL-Library.Char_ord" "HOL-Library.List_Lexorder"
begin

text \<open>
  \<open>internal/snapshot/filesystem.go\<close>: capture, differential capture, comparison and restore
  of a workspace. The file system maps absolute paths to files (contents, permission bits,
  modification time in nanoseconds), directories (permission bits; their times are not
  modelled), symbolic links (with the absolute path their text denotes) and other nodes, which are
  devices, pipes and sockets. Paths are resolved through links the way the system calls do; the
  walks do not follow links. The snapshot archives lie in a directory of their own, outside what
  is captured, and are indexed by their path. The umask is taken as 0.
\<close>

section \<open>The file system and archives\<close>

datatype node = NFile bytes nat int | NDir nat | NLink path | NOther

record world =
  wFiles :: "(path \<times> node) list"
  wArchives :: "(string \<times> bytes) list"

datatype tflag = TReg | TDir | TOther

record tar_entry =
  teName :: string
  teFlag :: tflag
  teMode :: nat
  teMTime :: int
  teBody :: bytes

text \<open>
  \<open>archive/tar\<close> under \<open>compress/gzip\<close>. Reading yields the readable entries and how the
  archive ends: well, at something that is no entry, or inside the body of an entry; \<open>None\<close>
  is a bad gzip header. \<open>archiver_ok\<close> is the documented contract: what was written is read
  back, with the modification times rounded to the nearest second (a header of unspecified
  format).
\<close>

datatype arc_end = ArcEOF | ArcBad | ArcCut tar_entry bytes

record archiver =
  arcWrite :: "tar_entry list \<Rightarrow> bytes"
  arcRead :: "bytes \<Rightarrow> (tar_entry list \<times> arc_end) option"

definition roundSec :: "int \<Rightarrow> int" where
  "roundSec t = (t + 500000000) div 1000000000 * 1000000000"

definition roundEntry :: "tar_entry \<Rightarrow> tar_entry" where
  "roundEntry e = e\<lparr>teMTime := roundSec (teMTime e)\<rparr>"

definition validEntry :: "tar_entry \<Rightarrow> bool" where
  "validEntry e \<longleftrightarrow> teName e \<noteq> [] \<and> CHR 0x00 \<notin> set (teName e) \<and> teFlag e \<noteq> TOther \<and>
     (teFlag e = TDir \<longleftrightarrow> last (teName e) = slash) \<and> (teFlag e = TDir \<longrightarrow> teBody e = [])"

definition archiver_ok :: "archiver \<Rightarrow> bool" where
  "archiver_ok A \<longleftrightarrow> (\<forall>es. list_all validEntry es \<longrightarrow> arcRead A (arcWrite A es) = Some (map roundEntry es, ArcEOF))"

definition prefixes :: "path \<Rightarrow> path list" where
  "prefixes p = map (\<lambda>n. take n p) [1..<length p + 1]"

fun plain :: "node \<Rightarrow> bool" where
  "plain (NFile c m t) = True"
| "plain (NDir m) = True"
| "plain _ = False"

fun notDir :: "node option \<Rightarrow> bool" where
  "notDir None = False"
| "notDir (Some (NDir m)) = False"
| "notDir (Some _) = True"

definition addDir :: "nat \<Rightarrow> (path \<times> node) list \<Rightarrow> path \<Rightarrow> (path \<times> node) list" where
  "addDir m fs p = (if map_of fs p = None then AList.update p (NDir m) fs else fs)"

text \<open>
  How the system resolves a path: component by component, a symbolic link is replaced by what it
  points to, at most \<open>maxLinks\<close> times (then the call fails with \<open>ELOOP\<close>). The result is the path
  of the node itself, whether it exists or not.
\<close>

fun resolve :: "(path \<times> node) list \<Rightarrow> nat \<Rightarrow> path \<Rightarrow> path \<Rightarrow> path option" where
  "resolve fs n cur [] = Some cur"
| "resolve fs n cur (c # cs) = (case map_of fs (cur @ [c]) of
     Some (NLink t) \<Rightarrow> (case n of 0 \<Rightarrow> None | Suc m \<Rightarrow> resolve fs m [] (t @ cs))
   | _ \<Rightarrow> resolve fs n (cur @ [c]) cs)"

definition maxLinks :: nat where
  "maxLinks = 40"

definition realPath :: "(path \<times> node) list \<Rightarrow> path \<Rightarrow> path option" where
  "realPath fs p = resolve fs maxLinks [] p"

text \<open>
  \<open>os.MkdirAll\<close>, from the top: a prefix that resolves to a directory is passed through, one that
  resolves to anything else is an error, and so is a link that points nowhere; a missing one is
  created. \<open>os.RemoveAll\<close>.
\<close>

definition mkdirOne :: "nat \<Rightarrow> (path \<times> node) list \<Rightarrow> path \<Rightarrow> (path \<times> node) list option" where
  "mkdirOne m fs q = (case realPath fs q of
     None \<Rightarrow> None
   | Some r \<Rightarrow> (case map_of fs r of
       Some (NDir d) \<Rightarrow> Some fs
     | Some _ \<Rightarrow> None
     | None \<Rightarrow> if map_option (\<lambda>d. d @ [last q]) (realPath fs (butlast q)) = Some r then Some (AList.update r (NDir m) fs) else None))"

fun mkdirs :: "nat \<Rightarrow> (path \<times> node) list \<Rightarrow> path list \<Rightarrow> (path \<times> node) list option" where
  "mkdirs m fs [] = Some fs"
| "mkdirs m fs (q # qs) = (case mkdirOne m fs q of None \<Rightarrow> None | Some fs1 \<Rightarrow> mkdirs m fs1 qs)"

definition mkdirAll :: "path \<Rightarrow> nat \<Rightarrow> (path \<times> node) list \<Rightarrow> (path \<times> node) list option" where
  "mkdirAll p m fs = mkdirs m fs (prefixes p)"

definition dirAt :: "(path \<times> node) list \<Rightarrow> path \<Rightarrow> bool" where
  "dirAt fs p \<longleftrightarrow> p = [] \<or> (\<exists>m. map_of fs p = Some (NDir m))"

definition removeAll_path :: "path \<Rightarrow> (path \<times> node) list \<Rightarrow> (path \<times> node) list" where
  "removeAll_path p fs = filter (\<lambda>(q, n). \<not> below p q) fs"

section \<open>The snapshotter\<close>

record FileSystemSnap =
  WorkspaceRoot :: path
  IncludeExts :: "string list"
  ExcludePaths :: "string list"

definition NewFileSystemSnap :: "path \<Rightarrow> FileSystemSnap" where
  "NewFileSystemSnap root = \<lparr>WorkspaceRoot = root, IncludeExts = [], ExcludePaths = [''.ans'', ''node_modules'']\<rparr>"

definition isExcluded :: "FileSystemSnap \<Rightarrow> string \<Rightarrow> bool" where
  "isExcluded S rel \<longleftrightarrow> list_ex (\<lambda>p. rel = p \<or> hasPrefix rel (p @ ''/'') \<or> hasPrefix rel (p @ [CHR 0x5C])) (ExcludePaths S)"

definition SnapFileSystem :: string where "SnapFileSystem = ''filesystem''"
definition SnapFileSystemDiff :: string where "SnapFileSystemDiff = ''filesystem-diff''"
definition SnapMemory :: string where "SnapMemory = ''memory''"
definition SnapDatabase :: string where "SnapDatabase = ''database''"

record Snapshot =
  snID :: string
  snChainIndex :: u64
  snAgentID :: string
  snReceiptID :: string
  snSnapType :: string
  snStoragePath :: string
  snSizeBytes :: i64
  snHash :: string
  snTimestampNS :: i64
  snMetadata :: "(string \<times> string) list"

datatype fs_step = FMkdirStore | FCreateStore | FCloseTar | FCloseGzip | FOpenArchive | FReadArchive | FStat | FSeek
  | FMkdir path | FOpen path | FWrite path | FRemove path

text \<open>
  What the operating system contributes: which steps fail, which visited paths report an error,
  what \<open>EvalSymlinks\<close> gives (\<open>None\<close> for an error), the lower-case extension of a name, what
  a write that breaks off has left in a file, and the clock.
\<close>

record fs_env =
  feFail :: "fs_step \<Rightarrow> bool"
  feVisitErr :: "path \<Rightarrow> bool"
  feResolve :: "path \<Rightarrow> string option"
  feExt :: "string \<Rightarrow> string"
  fePartial :: bytes
  feNow :: i64

datatype snap_err =
    StepFailed fs_step
  | VisitFailed path
  | OutsideWorkspace path
  | HashMismatch
  | BadGzip
  | BadTar
  | ManifestSize int
  | BadDirectory path
  | BadFile path
  | NoChanges
  | StatFailed string
  | NoArchive string

section \<open>Capture\<close>

text \<open>\<open>filepath.Walk\<close> below the root: every path in lexical order; a missing root is an error.\<close>

definition walkList :: "path \<Rightarrow> (path \<times> node) list \<Rightarrow> (path \<times> node) list" where
  "walkList root fs = sort_key fst (filter (\<lambda>(p, n). below root p \<and> p \<noteq> root) fs)"

definition relOf :: "FileSystemSnap \<Rightarrow> path \<Rightarrow> string" where
  "relOf S p = relStr (drop (length (WorkspaceRoot S)) p)"

definition wantedExt :: "fs_env \<Rightarrow> FileSystemSnap \<Rightarrow> string \<Rightarrow> bool" where
  "wantedExt E S rel \<longleftrightarrow> IncludeExts S = [] \<or> feExt E rel \<in> set (IncludeExts S)"

definition captureVisit :: "fs_env \<Rightarrow> FileSystemSnap \<Rightarrow> path \<times> node \<Rightarrow> snap_err + tar_entry option" where
  "captureVisit E S pn = (case pn of (p, n) \<Rightarrow> let rel = relOf S p in
     if feVisitErr E p then Inl (VisitFailed p)
     else if isExcluded S rel then Inr None
     else (case n of
       NOther \<Rightarrow> Inr None
     | NLink t \<Rightarrow> Inr None
     | NDir m \<Rightarrow> Inr (Some \<lparr>teName = rel @ ''/'', teFlag = TDir, teMode = m, teMTime = 0, teBody = []\<rparr>)
     | NFile c m t \<Rightarrow>
         if \<not> wantedExt E S rel then Inr None
         else if \<not> hasPathPrefix (case feResolve E p of Some r \<Rightarrow> r | None \<Rightarrow> absStr p) (absStr (WorkspaceRoot S))
           then Inl (OutsideWorkspace p)
         else Inr (Some \<lparr>teName = rel, teFlag = TReg, teMode = m, teMTime = t, teBody = c\<rparr>)))"

fun captureWalk :: "fs_env \<Rightarrow> FileSystemSnap \<Rightarrow> (path \<times> node) list \<Rightarrow> snap_err + tar_entry list" where
  "captureWalk E S [] = Inr []"
| "captureWalk E S (pn # pns) = (case captureVisit E S pn of
     Inl e \<Rightarrow> Inl e
   | Inr o1 \<Rightarrow> (case captureWalk E S pns of
       Inl e \<Rightarrow> Inl e
     | Inr es \<Rightarrow> Inr (case o1 of None \<Rightarrow> es | Some e \<Rightarrow> e # es)))"

definition putArchive :: "string \<Rightarrow> bytes \<Rightarrow> world \<Rightarrow> world" where
  "putArchive f b w = w\<lparr>wArchives := AList.update f b (wArchives w)\<rparr>"

text \<open>
  Writing an archive from the entries of a walk, as \<open>Capture\<close>, \<open>CaptureDiff\<close> and
  \<open>SnapshotPaths\<close> do: the file is created (and emptied) first, so an error leaves what was
  written until then; then the archive is read again for its hash and size.
\<close>

definition writeArchive :: "crypto \<Rightarrow> archiver \<Rightarrow> fs_env \<Rightarrow> string \<Rightarrow> snap_err + tar_entry list \<Rightarrow> world
    \<Rightarrow> (snap_err + i64 \<times> string) \<times> world" where
  "writeArchive C A E store entries w =
     (if feFail E FMkdirStore then (Inl (StepFailed FMkdirStore), w)
      else if feFail E FCreateStore then (Inl (StepFailed FCreateStore), w)
      else (case entries of
        Inl e \<Rightarrow> (Inl e, putArchive store (fePartial E) w)
      | Inr es \<Rightarrow>
          if feFail E FCloseTar then (Inl (StepFailed FCloseTar), putArchive store (fePartial E) w)
          else if feFail E FCloseGzip then (Inl (StepFailed FCloseGzip), putArchive store (fePartial E) w)
          else let b = arcWrite A es; w1 = putArchive store b w in
            if feFail E FOpenArchive then (Inl (StepFailed FOpenArchive), w1)
            else if feFail E FReadArchive then (Inl (StepFailed FReadArchive), w1)
            else if feFail E FStat then (Inl (StepFailed FStat), w1)
            else (Inr (int (length b), hexEncode (sha256 C b)), w1)))"

definition walkOrErr :: "(path \<times> node) list \<Rightarrow> path \<Rightarrow> ((path \<times> node) list \<Rightarrow> snap_err + 'a) \<Rightarrow> snap_err + 'a" where
  "walkOrErr fs root f = (if map_of fs root = None then Inl (VisitFailed root) else f (walkList root fs))"

definition Capture :: "crypto \<Rightarrow> archiver \<Rightarrow> fs_env \<Rightarrow> FileSystemSnap \<Rightarrow> string \<Rightarrow> u64 \<Rightarrow> string \<Rightarrow> world
    \<Rightarrow> (snap_err + Snapshot) \<times> world" where
  "Capture C A E S agent idx store w =
     (case writeArchive C A E store (walkOrErr (wFiles w) (WorkspaceRoot S) (captureWalk E S)) w of
        (Inl e, w1) \<Rightarrow> (Inl e, w1)
      | (Inr (sz, h), w1) \<Rightarrow> (Inr \<lparr>snID = [], snChainIndex = idx, snAgentID = agent, snReceiptID = [],
           snSnapType = SnapFileSystem, snStoragePath = store, snSizeBytes = sz, snHash = h, snTimestampNS = feNow E,
           snMetadata = [(''workspace_root'', absStr (WorkspaceRoot S))]\<rparr>, w1))"

section \<open>Restore\<close>

definition entryName :: "string \<Rightarrow> string" where
  "entryName s = (let n = dropWhile (\<lambda>c. c = slash) s in if hasPrefix n ''./'' then drop 2 n else n)"

definition deletedMaxSize :: int where
  "deletedMaxSize = 10 * 1024 * 1024"

definition zeroModTime :: int where
  "zeroModTime = - 62135596800 * 10 ^ 9"

definition modTimeOf :: "fs_env \<Rightarrow> tar_entry \<Rightarrow> int" where
  "modTimeOf E e = (if teMTime e = zeroModTime then feNow E else teMTime e)"

text \<open>
  Writing one regular file. \<open>os.OpenFile\<close> with \<open>O_CREATE\<close> and \<open>O_TRUNC\<close> follows links, also the last
  component: what is written is the node the target resolves to. A device takes the bytes and
  keeps its place.
\<close>

definition restoreFile :: "fs_env \<Rightarrow> path \<Rightarrow> tar_entry \<Rightarrow> (path \<times> node) list \<Rightarrow> snap_err option \<times> (path \<times> node) list" where
  "restoreFile E target e fs = (
     if feFail E (FMkdir (butlast target)) then (Some (StepFailed (FMkdir (butlast target))), fs)
     else (case mkdirAll (butlast target) 448 fs of
       None \<Rightarrow> (Some (BadDirectory (butlast target)), fs)
     | Some fs1 \<Rightarrow>
         if feFail E (FOpen target) then (Some (StepFailed (FOpen target)), fs1)
         else (case realPath fs1 target of
           None \<Rightarrow> (Some (BadFile target), fs1)
         | Some r \<Rightarrow> (case map_of fs1 r of
             Some (NDir m) \<Rightarrow> (Some (BadFile target), fs1)
           | Some (NLink t) \<Rightarrow> (Some (BadFile target), fs1)
           | Some NOther \<Rightarrow> (None, fs1)
           | x \<Rightarrow> let m = (case x of Some (NFile c m t) \<Rightarrow> m | _ \<Rightarrow> teMode e mod 512) in
               if x = None \<and> \<not> dirAt fs1 (butlast r) then (Some (BadFile target), fs1)
               else if feFail E (FWrite target)
               then (Some (StepFailed (FWrite target)), AList.update r (NFile (fePartial E) m (feNow E)) fs1)
               else (None, AList.update r (NFile (teBody e) m (modTimeOf E e)) fs1)))))"

definition restoreDir :: "fs_env \<Rightarrow> path \<Rightarrow> nat \<Rightarrow> (path \<times> node) list \<Rightarrow> snap_err option \<times> (path \<times> node) list" where
  "restoreDir E target m fs = (
     if feFail E (FMkdir target) then (Some (StepFailed (FMkdir target)), fs)
     else (case mkdirAll target (m mod 512) fs of None \<Rightarrow> (Some (BadDirectory target), fs) | Some fs1 \<Rightarrow> (None, fs1)))"

text \<open>One entry: the error if any, the deletion manifest read so far and the file system.\<close>

definition restoreEntry :: "fs_env \<Rightarrow> path \<Rightarrow> tar_entry \<Rightarrow> string list \<times> (path \<times> node) list
    \<Rightarrow> snap_err option \<times> string list \<times> (path \<times> node) list" where
  "restoreEntry E root e st = (let (del, fs) = st; name = entryName (teName e) in
     if name = ''.'' \<or> name = [] then (None, st)
     else if name = ''.ans_deleted'' then
       (let sz = int (length (teBody e)) in if sz \<le> 0 \<or> deletedMaxSize < sz then (Some (ManifestSize sz), st)
        else (None, splitOn (CHR 0x0A) (trimSpace (teBody e)), fs))
     else let target = joinAbs root name in
       if \<not> hasPathPrefix (absStr target) (absStr root) then (None, st)
       else (case teFlag e of
         TDir \<Rightarrow> (let (x, fs1) = restoreDir E target (teMode e) fs in (x, del, fs1))
       | TReg \<Rightarrow> (let (x, fs1) = restoreFile E target e fs in (x, del, fs1))
       | TOther \<Rightarrow> (None, st)))"

fun restoreEntries :: "fs_env \<Rightarrow> path \<Rightarrow> tar_entry list \<Rightarrow> string list \<times> (path \<times> node) list
    \<Rightarrow> snap_err option \<times> string list \<times> (path \<times> node) list" where
  "restoreEntries E root [] st = (None, st)"
| "restoreEntries E root (e # es) st = (case restoreEntry E root e st of
     (Some x, st1) \<Rightarrow> (Some x, st1)
   | (None, st1) \<Rightarrow> restoreEntries E root es st1)"

text \<open>
  The deletions: \<open>os.RemoveAll\<close> follows links on the way to its target, but removes a link
  that is the target itself.
\<close>

fun removeDeleted :: "fs_env \<Rightarrow> path \<Rightarrow> string list \<Rightarrow> (path \<times> node) list \<Rightarrow> snap_err option \<times> (path \<times> node) list" where
  "removeDeleted E root [] fs = (None, fs)"
| "removeDeleted E root (rel # rels) fs = (let target = joinAbs root rel in
     if \<not> hasPathPrefix (absStr target) (absStr root) then removeDeleted E root rels fs
     else if feFail E (FRemove target) then (Some (StepFailed (FRemove target)), fs)
     else (case realPath fs (butlast target) of
       None \<Rightarrow> (Some (StepFailed (FRemove target)), fs)
     | Some d \<Rightarrow> removeDeleted E root rels (removeAll_path (d @ [last target]) fs)))"

text \<open>An archive that ends inside a body: the file gets the part that is there, then the copy fails.\<close>

definition restoreCut :: "fs_env \<Rightarrow> path \<Rightarrow> tar_entry \<Rightarrow> bytes \<Rightarrow> string list \<times> (path \<times> node) list
    \<Rightarrow> snap_err option \<times> string list \<times> (path \<times> node) list" where
  "restoreCut E root e part st = (if entryName (teName e) = ''.ans_deleted'' \<or> teFlag e \<noteq> TReg then (Some BadTar, st)
     else (case restoreEntry E root (e\<lparr>teBody := part\<rparr>) st of
       (Some x, st1) \<Rightarrow> (Some x, st1) | (None, st1) \<Rightarrow> (Some BadTar, st1)))"

definition restoreArchive :: "fs_env \<Rightarrow> path \<Rightarrow> tar_entry list \<times> arc_end \<Rightarrow> (path \<times> node) list
    \<Rightarrow> snap_err option \<times> (path \<times> node) list" where
  "restoreArchive E root arc fs = (case restoreEntries E root (fst arc) ([], fs) of
     (Some x, del, fs1) \<Rightarrow> (Some x, fs1)
   | (None, del, fs1) \<Rightarrow> (case snd arc of
       ArcBad \<Rightarrow> (Some BadTar, fs1)
     | ArcCut e part \<Rightarrow> (case restoreCut E root e part (del, fs1) of (x, del2, fs2) \<Rightarrow> (x, fs2))
     | ArcEOF \<Rightarrow> removeDeleted E root del fs1))"

text \<open>The part of \<open>Restore\<close> after the base snapshot.\<close>

definition restoreOne :: "crypto \<Rightarrow> archiver \<Rightarrow> fs_env \<Rightarrow> FileSystemSnap \<Rightarrow> string \<Rightarrow> string \<Rightarrow> world
    \<Rightarrow> snap_err option \<times> world" where
  "restoreOne C A E S store hash w = (case map_of (wArchives w) store of
     None \<Rightarrow> (Some (NoArchive store), w)
   | Some b \<Rightarrow>
     if feFail E FOpenArchive then (Some (NoArchive store), w)
     else if hash \<noteq> [] \<and> feFail E FReadArchive then (Some (StepFailed FReadArchive), w)
     else if hash \<noteq> [] \<and> hexEncode (sha256 C b) \<noteq> hash then (Some HashMismatch, w)
     else if hash \<noteq> [] \<and> feFail E FSeek then (Some (StepFailed FSeek), w)
     else (case arcRead A b of None \<Rightarrow> (Some BadGzip, w)
       | Some arc \<Rightarrow> (case restoreArchive E (WorkspaceRoot S) arc (wFiles w) of (x, fs) \<Rightarrow> (x, w\<lparr>wFiles := fs\<rparr>))))"

definition baseOf :: "Snapshot \<Rightarrow> string option" where
  "baseOf sn = (if snSnapType sn = SnapFileSystemDiff then
     (case map_of (snMetadata sn) ''base_snapshot'' of Some b \<Rightarrow> if b = [] then None else Some b | None \<Rightarrow> None)
     else None)"

definition Restore :: "crypto \<Rightarrow> archiver \<Rightarrow> fs_env \<Rightarrow> FileSystemSnap \<Rightarrow> Snapshot \<Rightarrow> world \<Rightarrow> snap_err option \<times> world" where
  "Restore C A E S sn w = (case baseOf sn of
     None \<Rightarrow> restoreOne C A E S (snStoragePath sn) (snHash sn) w
   | Some b \<Rightarrow> (case restoreOne C A E S b [] w of
       (Some e, w1) \<Rightarrow> (Some e, w1)
     | (None, w1) \<Rightarrow> restoreOne C A E S (snStoragePath sn) (snHash sn) w1))"

section \<open>Comparison and differential capture\<close>

definition unixNano :: "int \<Rightarrow> i64" where
  "unixNano t = wrap64 t"

definition listVisit :: "fs_env \<Rightarrow> FileSystemSnap \<Rightarrow> path \<times> node \<Rightarrow> snap_err + (string \<times> int \<times> i64) option" where
  "listVisit E S pn = (case pn of (p, n) \<Rightarrow> let rel = relOf S p in
     if feVisitErr E p then Inl (VisitFailed p)
     else if isExcluded S rel then Inr None
     else (case n of
       NFile c m t \<Rightarrow> Inr (if wantedExt E S rel then Some (rel, int (length c), unixNano t) else None)
     | _ \<Rightarrow> Inr None))"

fun listWalk :: "fs_env \<Rightarrow> FileSystemSnap \<Rightarrow> (path \<times> node) list \<Rightarrow> snap_err + (string \<times> int \<times> i64) list" where
  "listWalk E S [] = Inr []"
| "listWalk E S (pn # pns) = (case listVisit E S pn of
     Inl e \<Rightarrow> Inl e
   | Inr o1 \<Rightarrow> (case listWalk E S pns of
       Inl e \<Rightarrow> Inl e
     | Inr xs \<Rightarrow> Inr (case o1 of None \<Rightarrow> xs | Some x \<Rightarrow> x # xs)))"

definition listFiles :: "fs_env \<Rightarrow> FileSystemSnap \<Rightarrow> world \<Rightarrow> snap_err + (string \<times> int \<times> i64) list" where
  "listFiles E S w = walkOrErr (wFiles w) (WorkspaceRoot S) (listWalk E S)"

text \<open>The listing of the archive; a later entry of the same name wins.\<close>

fun priorFiles :: "tar_entry list \<Rightarrow> (string \<times> int \<times> i64) list \<Rightarrow> (string \<times> int \<times> i64) list" where
  "priorFiles [] acc = acc"
| "priorFiles (e # es) acc = priorFiles es (if teFlag e = TReg
     then AList.update (entryName (teName e)) (int (length (teBody e)), unixNano (teMTime e)) acc else acc)"

text \<open>
  The lists follow the order of the walk and of the archive; Go's maps leave the order open.
\<close>

definition diffOf :: "(string \<times> int \<times> i64) list \<Rightarrow> (string \<times> int \<times> i64) list \<Rightarrow> string list \<times> string list \<times> string list" where
  "diffOf prior current =
     (map fst (filter (\<lambda>(r, i). map_of prior r = None) current),
      map fst (filter (\<lambda>(r, i). case map_of prior r of None \<Rightarrow> False | Some j \<Rightarrow> fst i \<noteq> fst j \<or> snd i \<noteq> snd j) current),
      filter (\<lambda>r. map_of current r = None) (map fst prior))"

definition DiffSnap :: "archiver \<Rightarrow> fs_env \<Rightarrow> FileSystemSnap \<Rightarrow> string \<Rightarrow> world
    \<Rightarrow> snap_err + string list \<times> string list \<times> string list" where
  "DiffSnap A E S base w = (case map_of (wArchives w) base of None \<Rightarrow> Inl (NoArchive base) | Some b \<Rightarrow>
     if feFail E FOpenArchive then Inl (NoArchive base)
     else (case arcRead A b of None \<Rightarrow> Inl BadGzip | Some (es, fin) \<Rightarrow>
       if fin \<noteq> ArcEOF then Inl BadTar
       else (case listFiles E S w of Inl e \<Rightarrow> Inl e | Inr current \<Rightarrow> Inr (diffOf (priorFiles es []) current))))"

fun joinLines :: "string list \<Rightarrow> string" where
  "joinLines [] = []"
| "joinLines [s] = s"
| "joinLines (s # t # ss) = s @ CHR 0x0A # joinLines (t # ss)"

fun changedEntries :: "FileSystemSnap \<Rightarrow> (path \<times> node) list \<Rightarrow> string list \<Rightarrow> snap_err + tar_entry list" where
  "changedEntries S fs [] = Inr []"
| "changedEntries S fs (rel # rels) = (case map_of fs (joinAbs (WorkspaceRoot S) rel) of
     Some (NFile c m t) \<Rightarrow> (case changedEntries S fs rels of
       Inl e \<Rightarrow> Inl e
     | Inr es \<Rightarrow> Inr (\<lparr>teName = rel, teFlag = TReg, teMode = m, teMTime = t, teBody = c\<rparr> # es))
   | _ \<Rightarrow> Inl (StatFailed rel))"

record DiffEntry =
  deRelPath :: string
  deChange :: string

definition CaptureDiff :: "crypto \<Rightarrow> archiver \<Rightarrow> fs_env \<Rightarrow> FileSystemSnap \<Rightarrow> string \<Rightarrow> u64 \<Rightarrow> string \<Rightarrow> string \<Rightarrow> world
    \<Rightarrow> (snap_err + Snapshot \<times> DiffEntry list) \<times> world" where
  "CaptureDiff C A E S agent idx store base w = (case DiffSnap A E S base w of
     Inl e \<Rightarrow> (Inl e, w)
   | Inr (added, modified, deleted) \<Rightarrow>
     if added @ modified @ deleted = [] then (Inl NoChanges, w)
     else let manifest = (if deleted = [] then [] else [\<lparr>teName = ''.ans_deleted'', teFlag = TReg, teMode = 420,
                teMTime = feNow E, teBody = joinLines deleted\<rparr>]);
              entries = (case changedEntries S (wFiles w) (added @ modified) of Inl e \<Rightarrow> Inl e | Inr es \<Rightarrow> Inr (manifest @ es)) in
     (case writeArchive C A E store entries w of
        (Inl e, w1) \<Rightarrow> (Inl e, w1)
      | (Inr (sz, h), w1) \<Rightarrow> (Inr (\<lparr>snID = [], snChainIndex = idx, snAgentID = agent, snReceiptID = [],
           snSnapType = SnapFileSystemDiff, snStoragePath = store, snSizeBytes = sz, snHash = h, snTimestampNS = feNow E,
           snMetadata = [(''workspace_root'', absStr (WorkspaceRoot S)), (''base_snapshot'', base), (''differential'', ''true''),
             (''files_changed'', showNat (length (added @ modified))), (''files_deleted'', showNat (length deleted))]\<rparr>,
           map (\<lambda>r. \<lparr>deRelPath = r, deChange = ''added''\<rparr>) added @ map (\<lambda>r. \<lparr>deRelPath = r, deChange = ''modified''\<rparr>) modified @
           map (\<lambda>r. \<lparr>deRelPath = r, deChange = ''deleted''\<rparr>) deleted), w1)))"

fun CleanupAfterIndex :: "fs_env \<Rightarrow> Snapshot list \<Rightarrow> world \<Rightarrow> snap_err option \<times> world" where
  "CleanupAfterIndex E [] w = (None, w)"
| "CleanupAfterIndex E (sn # sns) w = (
     if feFail E (FRemove [snStoragePath sn]) then (Some (StepFailed (FRemove [snStoragePath sn])), w)
     else CleanupAfterIndex E sns (w\<lparr>wArchives := AList.delete (snStoragePath sn) (wArchives w)\<rparr>))"

section \<open>Snapshots of chosen paths\<close>

definition relDot :: "FileSystemSnap \<Rightarrow> path \<Rightarrow> string" where
  "relDot S p = (if p = WorkspaceRoot S then ''.'' else relOf S p)"

definition addVisit :: "fs_env \<Rightarrow> FileSystemSnap \<Rightarrow> path \<times> node \<Rightarrow> snap_err + tar_entry option" where
  "addVisit E S pn = (case pn of (p, n) \<Rightarrow> let rel = relDot S p in
     if feVisitErr E p then Inl (VisitFailed p)
     else if isExcluded S rel then Inr None
     else (case n of
       NDir m \<Rightarrow> Inr (Some \<lparr>teName = rel @ ''/'', teFlag = TDir, teMode = m, teMTime = 0, teBody = []\<rparr>)
     | NOther \<Rightarrow> Inr None
     | NLink t \<Rightarrow> Inr None
     | NFile c m t \<Rightarrow>
         if \<not> wantedExt E S rel then Inr None
         else if \<not> hasPathPrefix (case feResolve E p of Some r \<Rightarrow> r | None \<Rightarrow> absStr p) (absStr (WorkspaceRoot S))
           then Inl (OutsideWorkspace p)
         else Inr (Some \<lparr>teName = rel, teFlag = TReg, teMode = m, teMTime = t, teBody = c\<rparr>)))"

fun addWalk :: "fs_env \<Rightarrow> FileSystemSnap \<Rightarrow> (path \<times> node) list \<Rightarrow> snap_err + tar_entry list" where
  "addWalk E S [] = Inr []"
| "addWalk E S (pn # pns) = (case addVisit E S pn of
     Inl e \<Rightarrow> Inl e
   | Inr o1 \<Rightarrow> (case addWalk E S pns of
       Inl e \<Rightarrow> Inl e
     | Inr es \<Rightarrow> Inr (case o1 of None \<Rightarrow> es | Some e \<Rightarrow> e # es)))"

text \<open>
  A walk that starts at \<open>p\<close> visits \<open>p\<close> itself and, when it is a directory, everything below it.
  Links on the way to \<open>p\<close> are followed (the visited names still begin with \<open>p\<close>), \<open>p\<close> itself is not.
\<close>

definition addToTar :: "fs_env \<Rightarrow> FileSystemSnap \<Rightarrow> path \<Rightarrow> (path \<times> node) list \<Rightarrow> snap_err + tar_entry list" where
  "addToTar E S p fs = (case (if p = [] then Some [] else map_option (\<lambda>d. d @ [last p]) (realPath fs (butlast p))) of
     None \<Rightarrow> Inl (VisitFailed p)
   | Some r \<Rightarrow>
       if map_of fs r = None then Inl (VisitFailed p)
       else addWalk E S (map (\<lambda>(q, n). (p @ drop (length r) q, n)) (sort_key fst (filter (\<lambda>(q, n). below r q) fs))))"

fun pathsEntries :: "fs_env \<Rightarrow> FileSystemSnap \<Rightarrow> string list \<Rightarrow> (path \<times> node) list \<Rightarrow> snap_err + tar_entry list" where
  "pathsEntries E S [] fs = Inr []"
| "pathsEntries E S (p # ps) fs = (let abs = (if hasPrefix p ''/'' then cleanAbs (splitOn slash p) else joinAbs (WorkspaceRoot S) p) in
     if \<not> hasPathPrefix (absStr abs) (absStr (WorkspaceRoot S)) then Inl (OutsideWorkspace abs)
     else if isExcluded S (relDot S abs) then pathsEntries E S ps fs
     else (case addToTar E S abs fs of Inl e \<Rightarrow> Inl e | Inr es \<Rightarrow>
       (case pathsEntries E S ps fs of Inl e \<Rightarrow> Inl e | Inr fs' \<Rightarrow> Inr (es @ fs'))))"

definition SnapshotPaths :: "crypto \<Rightarrow> archiver \<Rightarrow> fs_env \<Rightarrow> FileSystemSnap \<Rightarrow> string list \<Rightarrow> string \<Rightarrow> world
    \<Rightarrow> (snap_err + Snapshot) \<times> world" where
  "SnapshotPaths C A E S ps store w = (case writeArchive C A E store (pathsEntries E S ps (wFiles w)) w of
     (Inl e, w1) \<Rightarrow> (Inl e, w1)
   | (Inr (sz, h), w1) \<Rightarrow> (Inr \<lparr>snID = [], snChainIndex = 0, snAgentID = [], snReceiptID = [], snSnapType = [],
        snStoragePath = store, snSizeBytes = sz, snHash = h, snTimestampNS = feNow E, snMetadata = []\<rparr>, w1))"

section \<open>Restore stays inside the workspace\<close>

text \<open>The directories above the workspace exist.\<close>

definition rootPlaced :: "path \<Rightarrow> (path \<times> node) list \<Rightarrow> bool" where
  "rootPlaced root fs \<longleftrightarrow> root \<noteq> [] \<and> cleanPath root \<and> (\<forall>q\<in>set (prefixes (butlast root)). \<exists>m. map_of fs q = Some (NDir m))"

text \<open>Every symbolic link of the workspace points into the workspace.\<close>

definition linksInside :: "path \<Rightarrow> (path \<times> node) list \<Rightarrow> bool" where
  "linksInside root fs \<longleftrightarrow> (\<forall>p t. below root p \<longrightarrow> map_of fs p = Some (NLink t) \<longrightarrow> below root t)"

definition enclosed :: "path \<Rightarrow> (path \<times> node) list \<Rightarrow> bool" where
  "enclosed root fs \<longleftrightarrow> rootPlaced root fs \<and> linksInside root fs"

text \<open>A change that touches nothing outside and makes no new link.\<close>

definition outsideSame :: "path \<Rightarrow> (path \<times> node) list \<Rightarrow> (path \<times> node) list \<Rightarrow> bool" where
  "outsideSame root fs fs' \<longleftrightarrow> (\<forall>p. \<not> below root p \<longrightarrow> map_of fs' p = map_of fs p) \<and>
     (\<forall>p t. map_of fs' p = Some (NLink t) \<longrightarrow> map_of fs p = Some (NLink t))"

lemma outsideSame_refl [simp]: "outsideSame root fs fs"
  by (simp add: outsideSame_def)

lemma outsideSame_trans: "outsideSame root a b \<Longrightarrow> outsideSame root b c \<Longrightarrow> outsideSame root a c"
  unfolding outsideSame_def by metis

lemma prefixes_iff: "q \<in> set (prefixes p) \<longleftrightarrow> q \<noteq> [] \<and> (\<exists>r. p = q @ r)"
proof
  assume "q \<in> set (prefixes p)"
  then obtain n where "1 \<le> n" "n \<le> length p" "q = take n p" by (auto simp: prefixes_def)
  then show "q \<noteq> [] \<and> (\<exists>r. p = q @ r)" by (metis append_take_drop_id length_greater_0_conv length_take min.absorb2 not_one_le_zero length_0_conv)
next
  assume "q \<noteq> [] \<and> (\<exists>r. p = q @ r)"
  then obtain r where "p = q @ r" "q \<noteq> []" by blast
  then have "q = take (length q) p" "length q \<in> set [1..<length p + 1]" by (auto simp: Suc_le_eq)
  then show "q \<in> set (prefixes p)" unfolding prefixes_def by (metis image_eqI list.set_map)
qed

lemma rootPlaced_same:
  assumes "outsideSame root fs fs'" and "rootPlaced root fs"
  shows "rootPlaced root fs'"
proof -
  have "\<not> below root q" if "q \<in> set (prefixes (butlast root))" for q
  proof
    assume "below root q"
    then have "length root \<le> length q" by (auto simp: below_iff)
    moreover have "length q \<le> length root - 1" using that by (auto simp: prefixes_iff dest: arg_cong [of _ _ length])
    ultimately show False using assms(2) by (cases root) (auto simp: rootPlaced_def)
  qed
  then have "map_of fs' q = map_of fs q" if "q \<in> set (prefixes (butlast root))" for q
    using that assms(1) unfolding outsideSame_def by blast
  then show ?thesis using assms(2) by (simp add: rootPlaced_def)
qed

lemma map_of_addDir: "map_of (addDir m fs p) q = (if q = p \<and> map_of fs p = None then Some (NDir m) else map_of fs q)"
  by (simp add: addDir_def update_conv')

lemma map_of_addDirs:
  "map_of (foldl (addDir m) fs ps) q = (if q \<in> set ps \<and> map_of fs q = None then Some (NDir m) else map_of fs q)"
  by (induction ps arbitrary: fs) (auto simp: map_of_addDir)

lemma enclosed_same:
  assumes "outsideSame root fs fs'" and "enclosed root fs"
  shows "enclosed root fs'"
  using assms rootPlaced_same [OF assms(1)] unfolding enclosed_def linksInside_def outsideSame_def by blast

lemma resolve_plain:
  "\<forall>q\<in>set (prefixes cs). \<forall>t. map_of fs (cur @ q) \<noteq> Some (NLink t) \<Longrightarrow> resolve fs n cur cs = Some (cur @ cs)"
proof (induction cs arbitrary: cur)
  case (Cons c cs)
  have "[c] \<in> set (prefixes (c # cs))" by (simp add: prefixes_iff)
  then have "map_of fs (cur @ [c]) \<noteq> Some (NLink t)" for t using Cons.prems by blast
  moreover have "\<forall>q\<in>set (prefixes cs). \<forall>t. map_of fs ((cur @ [c]) @ q) \<noteq> Some (NLink t)"
  proof
    fix q
    assume "q \<in> set (prefixes cs)"
    then have "c # q \<in> set (prefixes (c # cs))" by (auto simp: prefixes_iff)
    then show "\<forall>t. map_of fs ((cur @ [c]) @ q) \<noteq> Some (NLink t)" using Cons.prems by (metis append.assoc append_Cons append_Nil)
  qed
  then have "resolve fs n (cur @ [c]) cs = Some ((cur @ [c]) @ cs)" by (rule Cons.IH)
  ultimately show ?case by (simp split: option.split node.split)
qed simp

lemma realPath_plain: "\<forall>q\<in>set (prefixes p). \<forall>t. map_of fs q \<noteq> Some (NLink t) \<Longrightarrow> realPath fs p = Some p"
  using resolve_plain [of p fs "[]"] by (simp add: realPath_def)

lemma prefixes_prefix: "q \<in> set (prefixes p) \<Longrightarrow> r \<in> set (prefixes q) \<Longrightarrow> r \<in> set (prefixes p)"
  by (auto simp: prefixes_iff)

lemma above_root:
  assumes "rootPlaced root fs" and "q = butlast root \<or> q \<in> set (prefixes (butlast root))"
  shows "realPath fs q = Some q" and "q \<noteq> [] \<Longrightarrow> \<exists>m. map_of fs q = Some (NDir m)"
proof -
  have "r \<in> set (prefixes (butlast root))" if "r \<in> set (prefixes q)" for r
    using assms(2) that prefixes_prefix by blast
  then show "realPath fs q = Some q" using assms(1) by (intro realPath_plain) (force simp: rootPlaced_def)
  show "\<exists>m. map_of fs q = Some (NDir m)" if "q \<noteq> []"
    using assms that by (auto simp: rootPlaced_def prefixes_iff)
qed

text \<open>A prefix of a path of the workspace is above the root or below it.\<close>

lemma prefix_placed:
  assumes "below root (q @ r)" and "q \<noteq> []"
  shows "below root q \<or> q \<in> set (prefixes (butlast root))"
proof (cases "below root q")
  case False
  obtain t where "q @ r = root @ t" using assms(1) by (auto simp: below_iff)
  then obtain s where s: "root = q @ s" using False by (auto simp: append_eq_append_conv2 below_iff)
  then have "s \<noteq> []" using False by (auto simp: below_iff)
  then show ?thesis using s assms(2) by (auto simp: prefixes_iff butlast_append)
qed simp

lemma resolve_inside:
  "enclosed root fs \<Longrightarrow> below root (cur @ cs) \<Longrightarrow> resolve fs n cur cs = Some r \<Longrightarrow> below root r"
proof (induction fs n cur cs rule: resolve.induct)
  case (2 fs n cur c cs)
  show ?case
  proof (cases "\<exists>t. map_of fs (cur @ [c]) = Some (NLink t)")
    case True
    then obtain t where t: "map_of fs (cur @ [c]) = Some (NLink t)" by blast
    have "below root (cur @ [c])"
      using prefix_placed [of root "cur @ [c]" cs] "2.prems"(1,2) above_root(2) [of root fs "cur @ [c]"] t
      by (auto simp: enclosed_def)
    then have "below root t" using "2.prems"(1) t by (auto simp: enclosed_def linksInside_def)
    then have "below root (t @ cs)" by (auto simp: below_iff)
    moreover obtain m where "n = Suc m" "resolve fs m [] (t @ cs) = Some r" using "2.prems"(3) t by (auto split: nat.splits)
    ultimately show ?thesis using "2.IH" "2.prems"(1) t by auto
  next
    case False
    then have "resolve fs n (cur @ [c]) cs = Some r" using "2.prems"(3) by (auto split: option.splits node.splits)
    moreover have "below root ((cur @ [c]) @ cs)" using "2.prems"(2) by simp
    ultimately show ?thesis using "2.IH" "2.prems"(1) False
      by (cases "map_of fs (cur @ [c])"; cases "the (map_of fs (cur @ [c]))") auto
  qed
qed simp

lemma realPath_inside: "enclosed root fs \<Longrightarrow> below root p \<Longrightarrow> realPath fs p = Some r \<Longrightarrow> below root r"
  using resolve_inside [of root fs "[]" p] by (simp add: realPath_def)

lemma update_outside: "below root p \<Longrightarrow> \<forall>t. n \<noteq> NLink t \<Longrightarrow> outsideSame root fs (AList.update p n fs)"
  by (auto simp: outsideSame_def update_conv' split: if_splits)

lemma mkdirOne_outside:
  assumes "enclosed root fs" and "below root q \<or> q \<in> set (prefixes (butlast root))" and "mkdirOne m fs q = Some fs'"
  shows "outsideSame root fs fs'"
  using assms(2)
proof
  assume "below root q"
  then show ?thesis
    using assms(3) realPath_inside [OF assms(1)] update_outside [of root _ "NDir m" fs]
    by (auto simp: mkdirOne_def split: option.splits node.splits if_splits)
next
  assume q: "q \<in> set (prefixes (butlast root))"
  then have "q \<noteq> []" by (simp add: prefixes_iff)
  then have "fs' = fs" using above_root [of root fs q] q assms(1,3) by (auto simp: mkdirOne_def enclosed_def)
  then show ?thesis by simp
qed

lemma mkdirs_outside:
  "enclosed root fs \<Longrightarrow> \<forall>q\<in>set qs. below root q \<or> q \<in> set (prefixes (butlast root)) \<Longrightarrow> mkdirs m fs qs = Some fs' \<Longrightarrow>
   outsideSame root fs fs'"
proof (induction qs arbitrary: fs)
  case (Cons q qs)
  then obtain fs1 where f: "mkdirOne m fs q = Some fs1" "mkdirs m fs1 qs = Some fs'" by (auto split: option.splits)
  have "outsideSame root fs fs1" using mkdirOne_outside [OF Cons.prems(1) _ f(1)] Cons.prems(2) by simp
  then show ?case using Cons.IH [OF enclosed_same] f(2) Cons.prems outsideSame_trans by fastforce
qed simp

lemma mkdirAll_outside:
  assumes "mkdirAll p m fs = Some fs'" and "enclosed root fs" and "below root p \<or> p = butlast root"
  shows "outsideSame root fs fs'"
proof (rule mkdirs_outside [OF assms(2) _ assms(1) [unfolded mkdirAll_def]], rule ballI)
  fix q
  assume "q \<in> set (prefixes p)"
  moreover from this obtain r where "p = q @ r" "q \<noteq> []" by (auto simp: prefixes_iff)
  ultimately show "below root q \<or> q \<in> set (prefixes (butlast root))"
    using assms(3) prefix_placed [of root q r] by metis
qed

lemma below_butlast: "below root p \<Longrightarrow> below root (butlast p) \<or> butlast p = butlast root"
  by (auto simp: below_iff butlast_append)

lemma map_of_removeAll: "map_of (removeAll_path p fs) q = (if below p q then None else map_of fs q)"
  by (induction fs) (auto simp: removeAll_path_def)

lemma restoreFile_outside:
  assumes "enclosed root fs" and "below root target"
  shows "outsideSame root fs (snd (restoreFile E target e fs))"
proof (cases "mkdirAll (butlast target) 448 fs")
  case (Some fs1)
  have s: "outsideSame root fs fs1" using mkdirAll_outside [OF Some assms(1)] below_butlast [OF assms(2)] by blast
  have "outsideSame root fs (AList.update r (NFile c m t) fs1)" if "realPath fs1 target = Some r" for r c m t
    using outsideSame_trans [OF s update_outside] realPath_inside [OF enclosed_same [OF s assms(1)] assms(2) that] by simp
  then show ?thesis
    using s by (simp add: restoreFile_def Some Let_def split: option.split node.split)
qed (simp add: restoreFile_def)

lemma restoreDir_outside:
  assumes "enclosed root fs" and "below root target"
  shows "outsideSame root fs (snd (restoreDir E target m fs))"
  using mkdirAll_outside [OF _ assms(1)] assms(2) by (auto simp: restoreDir_def split: option.split)

lemma restoreEntry_outside:
  assumes "enclosed root fs"
  shows "outsideSame root fs (snd (snd (restoreEntry E root e (del, fs))))"
proof -
  let ?t = "joinAbs root (entryName (teName e))"
  have "hasPathPrefix (absStr ?t) (absStr root) \<longleftrightarrow> below root ?t"
    using assms by (intro hasPathPrefix_below joinAbs_clean) (auto simp: rootPlaced_def enclosed_def)
  then show ?thesis
    using restoreFile_outside [OF assms, of ?t E e] restoreDir_outside [OF assms, of ?t E "teMode e"]
    by (simp add: restoreEntry_def Let_def case_prod_beta split: tflag.split)
qed

lemma restoreEntries_outside:
  "enclosed root fs \<Longrightarrow> outsideSame root fs (snd (snd (restoreEntries E root es (del, fs))))"
proof (induction es arbitrary: del fs)
  case (Cons e es)
  obtain x del1 fs1 where r: "restoreEntry E root e (del, fs) = (x, del1, fs1)" by (metis prod.exhaust)
  then have "outsideSame root fs fs1" using restoreEntry_outside [OF Cons.prems, of E e del] by simp
  then show ?case
    using r Cons.IH [OF enclosed_same] Cons.prems by (auto split: option.split intro: outsideSame_trans)
qed simp

lemma removed_inside:
  assumes "enclosed root fs" and "below root t" and "realPath fs (butlast t) = Some d"
  shows "below root (d @ [last t])"
proof (cases "t = root")
  case True
  then show ?thesis using above_root(1) [of root fs "butlast root"] assms(1,3) by (auto simp: enclosed_def rootPlaced_def below_iff)
next
  case False
  then have "below root (butlast t)" using assms(2) by (auto simp: below_iff butlast_append)
  then have "below root d" using realPath_inside [OF assms(1)] assms(3) by blast
  then show ?thesis by (auto simp: below_iff)
qed

lemma removeDeleted_outside:
  "enclosed root fs \<Longrightarrow> outsideSame root fs (snd (removeDeleted E root rels fs))"
proof (induction rels arbitrary: fs)
  case (Cons rel rels)
  let ?t = "joinAbs root rel"
  have "hasPathPrefix (absStr ?t) (absStr root) \<longleftrightarrow> below root ?t"
    using Cons.prems by (intro hasPathPrefix_below joinAbs_clean) (auto simp: rootPlaced_def enclosed_def)
  moreover have rm: "outsideSame root fs (removeAll_path (d @ [last ?t]) fs)" if "below root ?t" "realPath fs (butlast ?t) = Some d" for d
  proof -
    have "below root (d @ [last ?t])" using removed_inside [OF Cons.prems that] .
    then show ?thesis by (auto simp: outsideSame_def map_of_removeAll dest: below_trans)
  qed
  ultimately show ?case
    using Cons.IH [OF Cons.prems] Cons.IH [OF enclosed_same [OF rm Cons.prems]] outsideSame_trans [OF rm]
    by (auto simp: Let_def split: option.split)
qed simp

lemma restoreArchive_outside:
  assumes "enclosed root fs"
  shows "outsideSame root fs (snd (restoreArchive E root arc fs))"
proof -
  obtain x del fs1 where r: "restoreEntries E root (fst arc) ([], fs) = (x, del, fs1)" by (metis prod.exhaust)
  then have s: "outsideSame root fs fs1" using restoreEntries_outside [OF assms, of E "fst arc" "[]"] by simp
  then have p: "enclosed root fs1" using enclosed_same assms by blast
  have "outsideSame root fs1 (snd (snd (restoreCut E root e part (del, fs1))))" for e part
    using restoreEntry_outside [OF p, of E "e\<lparr>teBody := part\<rparr>" del]
    by (auto simp: restoreCut_def split: prod.split option.split)
  then show ?thesis using removeDeleted_outside [OF p, of E del] s outsideSame_trans [OF s]
    by (auto simp: restoreArchive_def r split: option.split arc_end.split prod.split)
      (metis snd_conv)+
qed

lemma restoreOne_outside:
  assumes "enclosed (WorkspaceRoot S) (wFiles w)" and "restoreOne C A E S store hash w = (x, w')"
  shows "outsideSame (WorkspaceRoot S) (wFiles w) (wFiles w') \<and> wArchives w' = wArchives w"
  using assms restoreArchive_outside [OF assms(1), of E]
  by (auto simp: restoreOne_def split: option.splits if_splits prod.splits) (metis snd_conv)+

text \<open>
  C30. Restoring does not touch anything outside the workspace, unless a symbolic link leads
  there. Let the directories above the workspace root exist and every symbolic link at or below the
  root point to a path at or below it (no links at all is the common case; \<open>Restore\<close> follows links,
  and one that leads out is written through). Then whatever bytes the archives hold (absolute names,
  \<open>..\<close> components, names that run through links, deletion manifests, broken archives), whatever
  fails on the way, and for full and differential snapshots alike, every path that is not the
  workspace root or below it has the same contents after \<open>Restore\<close>, and no archive changes (they
  lie in a directory of their own).
\<close>

theorem restore_confined:
  assumes "rootPlaced (WorkspaceRoot S) (wFiles w)" and "linksInside (WorkspaceRoot S) (wFiles w)"
    and "Restore C A E S sn w = (x, w')" and "\<not> below (WorkspaceRoot S) p"
  shows "map_of (wFiles w') p = map_of (wFiles w) p \<and> wArchives w' = wArchives w"
proof -
  have en: "enclosed (WorkspaceRoot S) (wFiles w)" using assms(1,2) by (simp add: enclosed_def)
  have one: "outsideSame (WorkspaceRoot S) (wFiles v) (wFiles v') \<and> wArchives v' = wArchives v"
    if "enclosed (WorkspaceRoot S) (wFiles v)" "restoreOne C A E S st h v = (y, v')" for v v' y st h
    using restoreOne_outside [OF that] .
  have "outsideSame (WorkspaceRoot S) (wFiles w) (wFiles w') \<and> wArchives w' = wArchives w"
  proof (cases "baseOf sn")
    case None
    then show ?thesis using assms(3) one [OF en] by (simp add: Restore_def)
  next
    case (Some b)
    obtain y w1 where r: "restoreOne C A E S b [] w = (y, w1)" by (metis prod.exhaust)
    note s = one [OF en r]
    show ?thesis
    proof (cases y)
      case None
      then have "restoreOne C A E S (snStoragePath sn) (snHash sn) w1 = (x, w')"
        using assms(3) Some r by (simp add: Restore_def)
      then show ?thesis using one [OF enclosed_same [OF _ en]] s outsideSame_trans by metis
    next
      case (Some e)
      then show ?thesis using assms(3) \<open>baseOf sn = Some b\<close> r s by (simp add: Restore_def)
    qed
  qed
  then show ?thesis using assms(4) unfolding outsideSame_def by blast
qed

text \<open>
  A link that leads out is followed. When the target of a file entry is a link to an existing file
  elsewhere, restoring the entry overwrites that file.
\<close>

lemma restoreFile_follows_link:
  assumes "\<forall>q\<in>set (prefixes (butlast p)). \<exists>m. map_of fs q = Some (NDir m)" and "p \<noteq> []" and "map_of fs p = Some (NLink t)"
    and "\<forall>q\<in>set (prefixes t). \<forall>u. map_of fs q \<noteq> Some (NLink u)" and "map_of fs t = Some (NFile c m k)" and "\<forall>x. \<not> feFail E x"
  shows "restoreFile E p e fs = (None, AList.update t (NFile (teBody e) m (modTimeOf E e)) fs)"
proof -
  have mk: "mkdirAll (butlast p) 448 fs = Some fs"
  proof -
    have "mkdirs 448 fs qs = Some fs" if "\<forall>q\<in>set qs. q \<in> set (prefixes (butlast p))" for qs
      using that
    proof (induction qs)
      case (Cons q qs)
      have "realPath fs q = Some q" using assms(1) Cons.prems prefixes_prefix by (intro realPath_plain) fastforce
      then have "mkdirOne 448 fs q = Some fs" using assms(1) Cons.prems by (fastforce simp: mkdirOne_def)
      then show ?case using Cons by simp
    qed simp
    then show ?thesis by (simp add: mkdirAll_def)
  qed
  have "resolve fs n cur (cs @ [last p]) = resolve fs n (cur @ cs) [last p]"
    if "\<forall>q\<in>set (prefixes cs). \<forall>u. map_of fs (cur @ q) \<noteq> Some (NLink u)" for n cur cs
    using that
  proof (induction cs arbitrary: cur)
    case (Cons d cs)
    have "map_of fs (cur @ [d]) \<noteq> Some (NLink u)" for u using Cons.prems by (auto simp: prefixes_iff)
    moreover have "\<forall>q\<in>set (prefixes cs). \<forall>u. map_of fs ((cur @ [d]) @ q) \<noteq> Some (NLink u)"
    proof
      fix q
      assume "q \<in> set (prefixes cs)"
      then have "d # q \<in> set (prefixes (d # cs))" by (auto simp: prefixes_iff)
      then show "\<forall>u. map_of fs ((cur @ [d]) @ q) \<noteq> Some (NLink u)" using Cons.prems by (metis append.assoc append_Cons append_Nil)
    qed
    ultimately show ?case using Cons.IH [of "cur @ [d]"] by (auto split: option.split node.split)
  qed simp
  from this [of "butlast p" "[]" maxLinks] assms(1,2)
  have "realPath fs p = resolve fs maxLinks (butlast p) [last p]" unfolding realPath_def by fastforce
  also have "\<dots> = Some t" using assms(2,3) resolve_plain [of t fs "[]"] assms(4) by (simp add: maxLinks_def)
  finally show ?thesis using mk assms(5,6) by (simp add: restoreFile_def)
qed

section \<open>A captured workspace comes back\<close>

lemma splitOn_plain: "sep \<notin> set c \<Longrightarrow> splitOn sep c = [c]"
  by (induction c) auto

lemma splitOn_sep: "sep \<notin> set c \<Longrightarrow> splitOn sep (c @ sep # s) = c # splitOn sep s"
  by (induction c) auto

lemma relStr_Cons: "relStr (c # p) = c @ (if p = [] then [] else slash # relStr p)"
  by (cases p) (auto simp: relStr_def absStr_def)

lemma splitOn_relStr: "cleanPath q \<Longrightarrow> q \<noteq> [] \<Longrightarrow> splitOn slash (relStr q @ s) = butlast q @ splitOn slash (last q @ s)"
proof (induction q)
  case (Cons c q)
  show ?case
  proof (cases "q = []")
    case False
    have "splitOn slash (relStr (c # q) @ s) = c # splitOn slash (relStr q @ s)"
      using Cons.prems False splitOn_sep [of slash c "relStr q @ s"] by (simp add: relStr_Cons pathComp_def)
    then show ?thesis using Cons False by simp
  qed (simp add: relStr_Cons)
qed simp

lemma cleanFrom_root: "cleanPath root \<Longrightarrow> cleanAbs (root @ xs) = cleanFrom root xs"
  by (simp add: cleanAbs_def cleanFrom_append cleanFrom_id)

lemma joinAbs_relStr:
  assumes "cleanPath root" and "cleanPath q" and "q \<noteq> []"
  shows "joinAbs root (relStr q) = root @ q" and "joinAbs root (relStr q @ ''/'') = root @ q"
proof -
  have l: "slash \<notin> set (last q)" using assms(2,3) by (metis last_in_set list_all_iff pathComp_def)
  have "splitOn slash (relStr q) = q"
    using splitOn_relStr [OF assms(2,3), of "[]"] l assms(3) by (simp add: splitOn_plain)
  then show "joinAbs root (relStr q) = root @ q"
    using assms by (simp add: joinAbs_def cleanFrom_root cleanFrom_id)
  have "splitOn slash (relStr q @ ''/'') = q @ [[]]"
    using splitOn_relStr [OF assms(2,3), of "''/''"] splitOn_sep [OF l, of "[]"] assms(3) by (simp flip: append_Cons)
  then show "joinAbs root (relStr q @ ''/'') = root @ q"
    using assms by (simp add: joinAbs_def cleanFrom_root cleanFrom_append cleanFrom_id)
qed

lemma entryName_relStr:
  assumes "cleanPath q" and "q \<noteq> []"
  shows "entryName (relStr q @ s) = relStr q @ s" and "relStr q @ s \<noteq> []" and "relStr q \<noteq> ''.''"
proof -
  obtain c p where q: "q = c # p" using assms(2) by (cases q) auto
  then have c: "c \<noteq> []" "c \<noteq> ''.''" "slash \<notin> set c" using assms(1) by (auto simp: pathComp_def)
  then obtain a b where ab: "c = a # b" by (cases c) auto
  have a: "a \<noteq> slash" using c ab by auto
  have "\<not> hasPrefix (relStr q @ s) ''./''"
    using c ab by (cases b) (auto simp: q relStr_Cons hasPrefix_def)
  then show "entryName (relStr q @ s) = relStr q @ s"
    using a ab by (simp add: entryName_def q relStr_Cons)
  show "relStr q @ s \<noteq> []" using c by (simp add: q relStr_Cons)
  show "relStr q \<noteq> ''.''" using c ab by (auto simp: q relStr_Cons)
qed

text \<open>A well-formed workspace: its paths are those of a tree of directories, times after 1970.\<close>

definition wfNode :: "(path \<times> node) list \<Rightarrow> path \<times> node \<Rightarrow> bool" where
  "wfNode fs pn = (case pn of (p, n) \<Rightarrow> cleanPath p \<and> list_all (\<lambda>c. CHR 0x00 \<notin> set c) p \<and>
     list_all (\<lambda>q. case map_of fs q of Some (NDir m) \<Rightarrow> True | _ \<Rightarrow> False) (prefixes (butlast p)) \<and>
     (case n of NFile c m t \<Rightarrow> 0 \<le> t | _ \<Rightarrow> True))"

definition wfFS :: "(path \<times> node) list \<Rightarrow> bool" where
  "wfFS fs \<longleftrightarrow> distinct (map fst fs) \<and> list_all (wfNode fs) fs"

text \<open>What \<open>Capture\<close> takes, and the entry it writes.\<close>

definition kept :: "fs_env \<Rightarrow> FileSystemSnap \<Rightarrow> path \<times> node \<Rightarrow> bool" where
  "kept E S pn = (case pn of (p, n) \<Rightarrow> \<not> isExcluded S (relOf S p) \<and>
     (case n of NOther \<Rightarrow> False | NLink t \<Rightarrow> False | NDir m \<Rightarrow> True | NFile c m t \<Rightarrow> wantedExt E S (relOf S p)))"

definition captured :: "fs_env \<Rightarrow> FileSystemSnap \<Rightarrow> world \<Rightarrow> (path \<times> node) list" where
  "captured E S w = filter (kept E S) (walkList (WorkspaceRoot S) (wFiles w))"

fun entryFor :: "FileSystemSnap \<Rightarrow> path \<times> node \<Rightarrow> tar_entry" where
  "entryFor S (p, NFile c m t) = \<lparr>teName = relOf S p, teFlag = TReg, teMode = m, teMTime = t, teBody = c\<rparr>"
| "entryFor S (p, NDir m) = \<lparr>teName = relOf S p @ ''/'', teFlag = TDir, teMode = m, teMTime = 0, teBody = []\<rparr>"
| "entryFor S (p, n) = \<lparr>teName = relOf S p, teFlag = TOther, teMode = 0, teMTime = 0, teBody = []\<rparr>"

lemma captureVisit_Inr:
  "captureVisit E S pn = Inr o1 \<Longrightarrow> o1 = (if kept E S pn then Some (entryFor S pn) else None)"
  by (cases pn; cases "snd pn") (auto simp: captureVisit_def kept_def Let_def split: if_splits)

lemma captureWalk_Inr: "captureWalk E S L = Inr es \<Longrightarrow> es = map (entryFor S) (filter (kept E S) L)"
proof (induction L arbitrary: es)
  case (Cons pn L)
  then obtain o1 es1 where "captureVisit E S pn = Inr o1" "captureWalk E S L = Inr es1"
    "es = (case o1 of None \<Rightarrow> es1 | Some e \<Rightarrow> e # es1)" by (auto split: sum.splits)
  then show ?case using Cons.IH [of es1] captureVisit_Inr [of E S pn o1] by simp
qed simp

lemma Capture_Inr:
  assumes "Capture C A E S agent idx store w = (Inr sn, w1)"
  shows "snStoragePath sn = store \<and> snSnapType sn = SnapFileSystem \<and>
    snHash sn = hexEncode (sha256 C (arcWrite A (map (entryFor S) (captured E S w)))) \<and>
    w1 = putArchive store (arcWrite A (map (entryFor S) (captured E S w))) w"
  using assms unfolding Capture_def writeArchive_def walkOrErr_def captured_def
  by (auto simp: Let_def split: sum.splits if_splits dest!: captureWalk_Inr)

text \<open>What a captured node needs of the file system it is restored into, and what it becomes.\<close>

fun fitsNode :: "node \<Rightarrow> node option \<Rightarrow> bool" where
  "fitsNode (NDir m) x = (\<not> notDir x)"
| "fitsNode n x = (case x of None \<Rightarrow> True | Some (NFile c m t) \<Rightarrow> True | _ \<Rightarrow> False)"

definition fits :: "(path \<times> node) list \<Rightarrow> path \<times> node \<Rightarrow> bool" where
  "fits fs pn = (case pn of (p, n) \<Rightarrow> list_all (\<lambda>q. \<not> notDir (map_of fs q)) (prefixes (butlast p)) \<and> fitsNode n (map_of fs p))"

fun isRestored :: "node \<Rightarrow> node option \<Rightarrow> bool" where
  "isRestored (NFile c m t) x = (\<exists>m'. x = Some (NFile c m' (roundSec t)))"
| "isRestored (NDir m) x = (\<exists>m'. x = Some (NDir m'))"
| "isRestored n x = True"

lemma prefixes_self: "p \<noteq> [] \<Longrightarrow> set (prefixes p) = insert p (set (prefixes (butlast p)))"
proof -
  assume p: "p \<noteq> []"
  have "q \<in> set (prefixes p) \<longleftrightarrow> q = p \<or> q \<in> set (prefixes (butlast p))" for q
  proof
    assume "q \<in> set (prefixes p)"
    then obtain r where "q \<noteq> []" "p = q @ r" by (auto simp: prefixes_iff)
    then show "q = p \<or> q \<in> set (prefixes (butlast p))" by (cases "r = []") (auto simp: prefixes_iff butlast_append)
  next
    assume "q = p \<or> q \<in> set (prefixes (butlast p))"
    then show "q \<in> set (prefixes p)"
      using p by (auto simp: prefixes_iff) (metis append_butlast_last_id append.assoc)
  qed
  then show ?thesis by auto
qed

lemma prefixes_butlast_neq: "p \<notin> set (prefixes (butlast p))"
proof
  assume "p \<in> set (prefixes (butlast p))"
  then obtain r where "p \<noteq> []" "butlast p = p @ r" by (auto simp: prefixes_iff)
  then have "length p - 1 = length p + length r" by (metis length_append length_butlast)
  then show False using \<open>p \<noteq> []\<close> by (cases p) simp_all
qed

lemma mkdirs_fits:
  "\<forall>q\<in>set qs. q \<noteq> [] \<and> (\<forall>u\<in>set (prefixes q). \<not> notDir (map_of fs u)) \<Longrightarrow> mkdirs m fs qs = Some (foldl (addDir m) fs qs)"
proof (induction qs arbitrary: fs)
  case (Cons q qs)
  have nl: "\<forall>u\<in>set (prefixes q). \<forall>t. map_of fs u \<noteq> Some (NLink t)" and q: "q \<noteq> []" using Cons.prems by fastforce+
  have "\<forall>u\<in>set (prefixes (butlast q)). \<forall>t. map_of fs u \<noteq> Some (NLink t)" using nl prefixes_self [OF q] by simp
  then have r: "realPath fs q = Some q" "realPath fs (butlast q) = Some (butlast q)" using realPath_plain nl by blast+
  have "\<not> notDir (map_of fs q)" using Cons.prems prefixes_self [OF q] by simp
  then have one: "mkdirOne m fs q = Some (addDir m fs q)"
    using r q by (cases "map_of fs q"; cases "the (map_of fs q)") (auto simp: mkdirOne_def addDir_def)
  have "\<forall>q\<in>set qs. q \<noteq> [] \<and> (\<forall>u\<in>set (prefixes q). \<not> notDir (map_of (addDir m fs q') u))" for q'
    using Cons.prems by (auto simp: map_of_addDir)
  then show ?case using one Cons.IH by simp
qed simp

lemma mkdirAll_fits:
  "\<forall>q\<in>set (prefixes p). \<not> notDir (map_of fs q) \<Longrightarrow> mkdirAll p m fs = Some (foldl (addDir m) fs (prefixes p))"
  unfolding mkdirAll_def by (rule mkdirs_fits) (auto dest: prefixes_prefix simp: prefixes_iff)

text \<open>
  One step of the restore, for a captured node below the root that is no deletion manifest: its
  own path gets the captured content, missing directories above it appear, nothing else changes.
\<close>

definition placed :: "FileSystemSnap \<Rightarrow> path \<times> node \<Rightarrow> bool" where
  "placed S pn = (case pn of (p, n) \<Rightarrow> plain n \<and> cleanPath p \<and> below (WorkspaceRoot S) p \<and> p \<noteq> WorkspaceRoot S \<and>
     relOf S p \<noteq> ''.ans_deleted'' \<and> (case n of NFile c m t \<Rightarrow> 0 \<le> t | _ \<Rightarrow> True))"

lemma placed_target:
  assumes "placed S (p, n)" and "rootPlaced (WorkspaceRoot S) fs"
  shows "entryName (teName (entryFor S (p, n))) = teName (entryFor S (p, n))"
    and "teName (entryFor S (p, n)) \<notin> {''.'', [], ''.ans_deleted''}"
    and "joinAbs (WorkspaceRoot S) (teName (entryFor S (p, n))) = p"
    and "hasPathPrefix (absStr p) (absStr (WorkspaceRoot S))"
proof -
  obtain q where p: "p = WorkspaceRoot S @ q" "q \<noteq> []" using assms(1) by (auto simp: placed_def below_iff)
  have cl: "cleanPath (WorkspaceRoot S)" "WorkspaceRoot S \<noteq> []" "cleanPath q" "cleanPath p"
    using assms by (auto simp: placed_def rootPlaced_def p)
  have rel: "relOf S p = relStr q" by (simp add: relOf_def p)
  note en = entryName_relStr [OF cl(3) p(2)] and jo = joinAbs_relStr [OF cl(1,3) p(2)]
  have n: "plain n" and del: "relStr q \<noteq> ''.ans_deleted''" using assms(1) rel by (auto simp: placed_def)
  have sl: "relStr q @ ''/'' \<noteq> s" if "slash \<notin> set s" for s using that by (metis in_set_conv_decomp)
  show "entryName (teName (entryFor S (p, n))) = teName (entryFor S (p, n))"
    using en(1) [of "[]"] en(1) [of "''/''"] n by (cases n) (simp_all add: rel)
  show "teName (entryFor S (p, n)) \<notin> {''.'', [], ''.ans_deleted''}"
    using en(2) [of "[]"] en(3) del sl [of "''.''"] sl [of "''.ans_deleted''"] n by (cases n) (simp_all add: rel)
  show "joinAbs (WorkspaceRoot S) (teName (entryFor S (p, n))) = p"
    using jo n by (cases n) (simp_all add: relOf_def p(1))
  show "hasPathPrefix (absStr p) (absStr (WorkspaceRoot S))"
    using hasPathPrefix_below [OF cl(4,1,2)] by (simp add: p(1))
qed

lemma restoreFile_fits:
  assumes "mkdirAll (butlast p) 448 fs = Some fs1" and "realPath fs1 p = Some p" and "dirAt fs1 (butlast p)"
    and "case map_of fs1 p of None \<Rightarrow> True | Some (NFile c m t) \<Rightarrow> True | _ \<Rightarrow> False" and "\<forall>x. \<not> feFail E x"
  shows "\<exists>m'. restoreFile E p e fs = (None, AList.update p (NFile (teBody e) m' (modTimeOf E e)) fs1)"
  using assms by (simp add: restoreFile_def Let_def split: option.splits node.splits) blast+

lemma restoreEntry_node:
  assumes "placed S (p, n)" and "rootPlaced (WorkspaceRoot S) fs" and "fits fs (p, n)" and "\<forall>x. \<not> feFail E x"
  shows "\<exists>fs1. restoreEntry E (WorkspaceRoot S) (roundEntry (entryFor S (p, n))) (del, fs) = (None, del, fs1) \<and>
    isRestored n (map_of fs1 p) \<and>
    (\<forall>q. q \<noteq> p \<longrightarrow> map_of fs1 q = map_of fs q \<or>
       (map_of fs q = None \<and> q \<in> set (prefixes (butlast p)) \<and> (\<exists>m. map_of fs1 q = Some (NDir m))))"
proof -
  have tgt: "teName (roundEntry e) = teName e" "teFlag (roundEntry e) = teFlag e" "teMode (roundEntry e) = teMode e"
    "teBody (roundEntry e) = teBody e" "teMTime (roundEntry e) = roundSec (teMTime e)" for e
    by (simp_all add: roundEntry_def)
  note pl = placed_target [OF assms(1,2)]
  have pre: "\<forall>q\<in>set (prefixes (butlast p)). \<not> notDir (map_of fs q)" and fit: "fitsNode n (map_of fs p)"
    using assms(3) by (auto simp: fits_def list_all_iff)
  have p: "p \<noteq> []" using assms(1,2) by (auto simp: placed_def rootPlaced_def below_def)
  let ?e = "roundEntry (entryFor S (p, n))"
  have eq: "restoreEntry E (WorkspaceRoot S) ?e (del, fs) = (case teFlag ?e of
      TDir \<Rightarrow> (let (x, fs1) = restoreDir E p (teMode ?e) fs in (x, del, fs1))
    | TReg \<Rightarrow> (let (x, fs1) = restoreFile E p ?e fs in (x, del, fs1))
    | TOther \<Rightarrow> (None, del, fs))"
    using pl(2,4) by (simp add: restoreEntry_def Let_def tgt pl(1,3))
  show ?thesis
  proof (cases n)
    case (NFile c m t)
    let ?fs1 = "foldl (addDir 448) fs (prefixes (butlast p))"
    have mk: "mkdirAll (butlast p) 448 fs = Some ?fs1" using mkdirAll_fits [OF pre] .
    have at: "map_of ?fs1 p = map_of fs p" using prefixes_butlast_neq by (simp add: map_of_addDirs)
    have mt: "modTimeOf E ?e = roundSec t"
    proof -
      have "0 \<le> t" using assms(1) NFile by (simp add: placed_def)
      then have "0 \<le> roundSec t" by (simp add: roundSec_def)
      then show ?thesis using NFile by (simp add: modTimeOf_def tgt zeroModTime_def)
    qed
    have body: "teBody ?e = c" using NFile by (simp add: tgt)
    have fit1: "case map_of ?fs1 p of None \<Rightarrow> True | Some (NFile c m t) \<Rightarrow> True | _ \<Rightarrow> False" using fit NFile by (simp add: at)
    have dirs: "\<exists>m. map_of ?fs1 q = Some (NDir m)" if "q \<in> set (prefixes (butlast p))" for q
      using pre that by (cases "map_of fs q"; cases "the (map_of fs q)") (auto simp: map_of_addDirs)
    have "map_of ?fs1 q \<noteq> Some (NLink t)" if "q \<in> set (prefixes p)" for q t
      using that dirs [of q] fit1 unfolding prefixes_self [OF p] by (auto split: option.splits node.splits)
    then have rp: "realPath ?fs1 p = Some p" by (intro realPath_plain) blast
    have "dirAt ?fs1 (butlast p)" using dirs [of "butlast p"] by (auto simp: dirAt_def prefixes_iff)
    from restoreFile_fits [OF mk rp this fit1 assms(4), of ?e]
    obtain m' where "restoreFile E p ?e fs = (None, AList.update p (NFile c m' (roundSec t)) ?fs1)" unfolding mt body by blast
    moreover have "teFlag ?e = TReg" using NFile by (simp add: tgt)
    ultimately have "restoreEntry E (WorkspaceRoot S) ?e (del, fs) = (None, del, AList.update p (NFile c m' (roundSec t)) ?fs1)"
      unfolding eq by simp
    then show ?thesis unfolding NFile by (auto simp: update_conv' map_of_addDirs)
  next
    case (NDir m)
    have "\<forall>q\<in>set (prefixes p). \<not> notDir (map_of fs q)" using pre fit NDir by (simp add: prefixes_self [OF p])
    note mk = mkdirAll_fits [OF this, of "m mod 512"]
    have "restoreDir E p (teMode ?e) fs = (None, foldl (addDir (m mod 512)) fs (prefixes p))"
      using assms(4) NDir by (simp add: restoreDir_def tgt mk)
    moreover have "\<exists>m'. map_of (foldl (addDir (m mod 512)) fs (prefixes p)) p = Some (NDir m')"
      using fit NDir by (cases "map_of fs p"; cases "the (map_of fs p)") (auto simp: map_of_addDirs prefixes_self [OF p])
    moreover have "teFlag ?e = TDir" using NDir by (simp add: tgt)
    ultimately have "restoreEntry E (WorkspaceRoot S) ?e (del, fs) = (None, del, foldl (addDir (m mod 512)) fs (prefixes p)) \<and>
      (\<exists>m'. map_of (foldl (addDir (m mod 512)) fs (prefixes p)) p = Some (NDir m'))"
      unfolding eq by simp
    then show ?thesis unfolding NDir by (auto simp: map_of_addDirs prefixes_self [OF p])
  qed (use assms(1) in \<open>simp_all add: placed_def\<close>)
qed

lemma restored_not_None: "isRestored n x \<Longrightarrow> plain n \<Longrightarrow> x \<noteq> None"
  by (cases n) auto

definition isFile :: "node \<Rightarrow> bool" where
  "isFile n = (case n of NFile c m t \<Rightarrow> True | _ \<Rightarrow> False)"

lemma restoreEntries_nodes:
  assumes "\<forall>pn\<in>set L. placed S pn" and "distinct (map fst L)" and "\<forall>pn\<in>set L. fits fs pn"
    and "\<forall>(p, n)\<in>set L. \<forall>(p', n')\<in>set L. isFile n \<longrightarrow> p \<notin> set (prefixes (butlast p'))"
    and "rootPlaced (WorkspaceRoot S) fs" and "\<forall>x. \<not> feFail E x"
  shows "\<exists>fs'. restoreEntries E (WorkspaceRoot S) (map (\<lambda>pn. roundEntry (entryFor S pn)) L) (del, fs) = (None, del, fs') \<and>
    (\<forall>(p, n)\<in>set L. isRestored n (map_of fs' p)) \<and>
    (\<forall>q. q \<notin> fst ` set L \<longrightarrow> map_of fs q \<noteq> None \<longrightarrow> map_of fs' q = map_of fs q)"
  using assms(1-5)
proof (induction L arbitrary: fs)
  case (Cons pn L)
  obtain p n where pn: "pn = (p, n)" by (cases pn)
  have pl: "placed S (p, n)" and ft: "fits fs (p, n)" using Cons.prems by (auto simp: pn)
  obtain fs1 where fs1: "restoreEntry E (WorkspaceRoot S) (roundEntry (entryFor S (p, n))) (del, fs) = (None, del, fs1)"
    and rs: "isRestored n (map_of fs1 p)"
    and ch: "\<And>q. q \<noteq> p \<Longrightarrow> map_of fs1 q = map_of fs q \<or>
       (map_of fs q = None \<and> q \<in> set (prefixes (butlast p)) \<and> (\<exists>m. map_of fs1 q = Some (NDir m)))"
    using restoreEntry_node [OF pl Cons.prems(5) ft assms(6)] by blast
  have no: "plain n" using pl by (simp add: placed_def)
  have "fits fs1 (p', n')" if m: "(p', n') \<in> set L" for p' n'
  proof -
    have neq: "p' \<noteq> p" using m Cons.prems(2) by (force simp: pn)
    have old: "\<forall>q\<in>set (prefixes (butlast p')). \<not> notDir (map_of fs q)" "fitsNode n' (map_of fs p')"
      using Cons.prems(3) m by (auto simp: fits_def list_all_iff)
    have "\<not> notDir (map_of fs1 q)" if q: "q \<in> set (prefixes (butlast p'))" for q
    proof (cases "q = p")
      case True
      have "\<not> isFile n" using Cons.prems(4) m q True by (auto simp: pn)
      then show ?thesis using rs no True by (cases n) (auto simp: isFile_def)
    next
      case False
      then show ?thesis using ch [of q] old(1) q by auto
    qed
    moreover have "fitsNode n' (map_of fs1 p')"
    proof -
      have "isFile n' \<Longrightarrow> p' \<notin> set (prefixes (butlast p))" using Cons.prems(4) m by (auto simp: pn)
      moreover have "plain n'" using Cons.prems(1) m by (auto simp: placed_def)
      ultimately show ?thesis using ch [OF neq] old(2) by (cases n') (auto simp: isFile_def)
    qed
    ultimately show ?thesis by (simp add: fits_def list_all_iff)
  qed
  then have fits1: "\<forall>pn\<in>set L. fits fs1 pn" by auto
  have rp: "rootPlaced (WorkspaceRoot S) fs1"
  proof -
    have "map_of fs1 q = map_of fs q" if q: "q \<in> set (prefixes (butlast (WorkspaceRoot S)))" for q
    proof -
      have "q \<noteq> p"
        using q pl prefixes_butlast_neq [of "WorkspaceRoot S"] by (auto simp: placed_def below_iff prefixes_iff)
      then show ?thesis using ch [of q] Cons.prems(5) q by (auto simp: rootPlaced_def)
    qed
    then show ?thesis using Cons.prems(5) by (simp add: rootPlaced_def)
  qed
  have "\<forall>pn\<in>set L. placed S pn" "distinct (map fst L)" using Cons.prems(1,2) by simp_all
  moreover have "\<forall>(p, n)\<in>set L. \<forall>(p', n')\<in>set L. isFile n \<longrightarrow> p \<notin> set (prefixes (butlast p'))"
    using Cons.prems(4) by (auto simp: pn)
  ultimately obtain fs' where fs': "restoreEntries E (WorkspaceRoot S) (map (\<lambda>pn. roundEntry (entryFor S pn)) L) (del, fs1) = (None, del, fs')"
    "\<forall>(p, n)\<in>set L. isRestored n (map_of fs' p)"
    "\<forall>q. q \<notin> fst ` set L \<longrightarrow> map_of fs1 q \<noteq> None \<longrightarrow> map_of fs' q = map_of fs1 q"
    using Cons.IH [OF _ _ fits1 _ rp] by blast
  have "p \<notin> fst ` set L" using Cons.prems(2) by (simp add: pn)
  then have "isRestored n (map_of fs' p)" using fs'(3) rs restored_not_None [OF rs no] by auto
  moreover have "map_of fs' q = map_of fs q" if "q \<notin> fst ` set (pn # L)" "map_of fs q \<noteq> None" for q
    using that ch [of q] fs'(3) by (auto simp: pn)
  ultimately show ?case using fs1 fs'(1,2) by (auto simp: pn)
qed simp

lemma set_walkList: "set (walkList root fs) = {(p, n) \<in> set fs. below root p \<and> p \<noteq> root}"
  by (auto simp: walkList_def)

lemma distinct_walkList: "distinct (map fst fs) \<Longrightarrow> distinct (map fst (walkList root fs))"
proof -
  assume d: "distinct (map fst fs)"
  let ?xs = "filter (\<lambda>(p, n). below root p \<and> p \<noteq> root) fs"
  have "mset (map fst (sort_key fst ?xs)) = mset (map fst ?xs)" by (simp only: mset_map mset_sort)
  then show ?thesis using mset_eq_distinctD [of "map fst (sort_key fst ?xs)" "map fst ?xs"] distinct_map_filter [OF d]
    unfolding walkList_def by simp
qed

lemma captured_nodes:
  assumes "wfFS (wFiles w)" and "pn \<in> set (captured E S w)" and "relOf S (fst pn) \<noteq> ''.ans_deleted''"
  shows "placed S pn"
  using assms by (auto simp: captured_def set_walkList wfFS_def list_all_iff wfNode_def placed_def kept_def split: node.splits)

lemma captured_files:
  assumes "wfFS (wFiles w)"
  shows "\<forall>(p, n)\<in>set (captured E S w). \<forall>(p', n')\<in>set (captured E S w). isFile n \<longrightarrow> p \<notin> set (prefixes (butlast p'))"
proof -
  have "\<not> isFile n" if m: "(p, n) \<in> set (wFiles w)" "(p', n') \<in> set (wFiles w)" "p \<in> set (prefixes (butlast p'))" for p n p' n'
  proof -
    have "map_of (wFiles w) p = Some n" using m(1) assms by (simp add: wfFS_def)
    moreover have "wfNode (wFiles w) (p', n')" using m(2) assms by (simp add: wfFS_def list_all_iff)
    ultimately show ?thesis using m(3) by (auto simp: wfNode_def list_all_iff isFile_def split: node.splits)
  qed
  then show ?thesis by (auto simp: captured_def set_walkList)
qed

lemma captured_distinct: "wfFS (wFiles w) \<Longrightarrow> distinct (map fst (captured E S w))"
  by (simp add: captured_def wfFS_def distinct_map_filter distinct_walkList)

lemma relStr_chars: "x \<in> set (relStr q) \<Longrightarrow> x = slash \<or> (\<exists>c\<in>set q. x \<in> set c)"
  by (induction q) (auto simp: relStr_Cons relStr_def absStr_def split: if_splits)

lemma last_relStr: "cleanPath q \<Longrightarrow> q \<noteq> [] \<Longrightarrow> last (relStr q) \<noteq> slash"
proof (induction q)
  case (Cons c q)
  have "q \<noteq> [] \<Longrightarrow> relStr q \<noteq> []" using entryName_relStr(2) [of q "[]"] Cons.prems by simp
  then show ?case using Cons by (cases "q = []") (auto simp: relStr_Cons pathComp_def dest: last_in_set)
qed simp

lemma captured_valid:
  assumes "wfFS (wFiles w)"
  shows "list_all validEntry (map (entryFor S) (captured E S w))"
proof -
  have "validEntry (entryFor S (p, n))" if m: "(p, n) \<in> set (captured E S w)" for p n
  proof -
    have wf: "cleanPath p" "\<forall>c\<in>set p. CHR 0x00 \<notin> set c" "below (WorkspaceRoot S) p" "p \<noteq> WorkspaceRoot S" "plain n"
      using m assms by (auto simp: captured_def set_walkList wfFS_def list_all_iff wfNode_def kept_def split: node.splits)
    obtain q where q: "p = WorkspaceRoot S @ q" using wf(3) by (auto simp: below_iff)
    then have cq: "cleanPath q" "q \<noteq> []" and rel: "relOf S p = relStr q" using wf by (auto simp: relOf_def)
    have "CHR 0x00 \<notin> set (relStr q)" using relStr_chars [of "CHR 0x00" q] wf(2) q by auto
    moreover have "relStr q \<noteq> []" using entryName_relStr(2) [OF cq, of "[]"] by simp
    ultimately show ?thesis using last_relStr [OF cq] wf(5) by (cases n) (auto simp: validEntry_def rel)
  qed
  then show ?thesis by (auto simp: list_all_iff)
qed

text \<open>
  When a well-formed workspace (with no file called \<open>.ans_deleted\<close>) was captured, and later
  the archive is intact and no file stands where a captured directory was or the other way
  round, restoring succeeds when nothing fails.
\<close>

lemma capture_restore_nodes:
  assumes "archiver_ok A" and "wfFS (wFiles w)"
    and "Capture C A E S agent idx store w = (Inr sn, w1)"
    and "\<forall>pn\<in>set (captured E S w). relOf S (fst pn) \<noteq> ''.ans_deleted'' \<and> fits (wFiles w2) pn"
    and "map_of (wArchives w2) store = map_of (wArchives w1) store"
    and "rootPlaced (WorkspaceRoot S) (wFiles w2)" and "\<forall>x. \<not> feFail E2 x"
    and "snStoragePath sn' = store" "snHash sn' = snHash sn" "snSnapType sn' = SnapFileSystem"
  shows "\<exists>fs. Restore C A E2 S sn' w2 = (None, w2\<lparr>wFiles := fs\<rparr>) \<and>
    (\<forall>(p, n)\<in>set (captured E S w). isRestored n (map_of fs p)) \<and>
    (\<forall>p. p \<notin> fst ` set (captured E S w) \<longrightarrow> map_of (wFiles w2) p \<noteq> None \<longrightarrow> map_of fs p = map_of (wFiles w2) p)"
proof -
  let ?L = "captured E S w" and ?b = "arcWrite A (map (entryFor S) (captured E S w))"
  note cap = Capture_Inr [OF assms(3)]
  have ar: "map_of (wArchives w2) store = Some ?b" using assms(5) cap by (simp add: putArchive_def update_conv')
  have rd: "arcRead A ?b = Some (map (\<lambda>pn. roundEntry (entryFor S pn)) ?L, ArcEOF)"
    using assms(1) captured_valid [OF assms(2), of S E] by (simp add: archiver_ok_def comp_def)
  obtain fs where fs: "restoreEntries E2 (WorkspaceRoot S) (map (\<lambda>pn. roundEntry (entryFor S pn)) ?L) ([], wFiles w2) = (None, [], fs)"
    "\<forall>(p, n)\<in>set ?L. isRestored n (map_of fs p)"
    "\<forall>q. q \<notin> fst ` set ?L \<longrightarrow> map_of (wFiles w2) q \<noteq> None \<longrightarrow> map_of fs q = map_of (wFiles w2) q"
    using restoreEntries_nodes [OF _ captured_distinct [OF assms(2)] _ captured_files [OF assms(2)] assms(6,7), of E S "[]"]
      captured_nodes [OF assms(2)] assms(4) by blast
  have "baseOf sn' = None" using assms(10) by (simp add: baseOf_def SnapFileSystem_def SnapFileSystemDiff_def)
  then have "Restore C A E2 S sn' w2 = (None, w2\<lparr>wFiles := fs\<rparr>)"
    using cap assms(7-9) by (simp add: Restore_def restoreOne_def ar rd restoreArchive_def fs(1))
  then show ?thesis using fs(2,3) by blast
qed

section \<open>Comparing a workspace with its own snapshot\<close>

lemma map_of_priorFiles:
  "map_of (priorFiles es acc) r = (case map_of (rev (map (\<lambda>e. (entryName (teName e), int (length (teBody e)), unixNano (teMTime e)))
     (filter (\<lambda>e. teFlag e = TReg) es))) r of Some v \<Rightarrow> Some v | None \<Rightarrow> map_of acc r)"
  by (induction es acc rule: priorFiles.induct) (auto simp: update_conv' map_add_def split: option.splits)

lemma relOf_inj:
  assumes "placed S (p, n)" and "placed S (p', n')" and "relOf S p = relOf S p'"
  shows "p = p'"
proof -
  obtain q q' where q: "p = WorkspaceRoot S @ q" "p' = WorkspaceRoot S @ q'" "q \<noteq> []" "q' \<noteq> []"
    using assms by (auto simp: placed_def below_iff)
  then have cl: "cleanPath q" "cleanPath q'" using assms(1,2) by (auto simp: placed_def)
  have "absStr r = slash # relStr r" if "r \<noteq> []" for r using that by (cases r) (auto simp: relStr_def absStr_def)
  then have "absStr q = absStr q'" using assms(3) q by (simp add: relOf_def)
  then show ?thesis using absStr_inj [OF cl] q by simp
qed

definition fileInfo :: "FileSystemSnap \<Rightarrow> path \<times> node \<Rightarrow> string \<times> int \<times> i64" where
  "fileInfo S pn = (case pn of (p, NFile c m t) \<Rightarrow> (relOf S p, int (length c), unixNano t) | (p, _) \<Rightarrow> (relOf S p, 0, 0))"

lemma listWalk_no_err:
  assumes "\<forall>p. \<not> feVisitErr E p"
  shows "listWalk E S L = Inr (map (fileInfo S) (filter (\<lambda>pn. kept E S pn \<and> isFile (snd pn)) L))"
proof (induction L)
  case (Cons pn L)
  obtain p n where pn: "pn = (p, n)" by (cases pn)
  have "listVisit E S pn = Inr (if kept E S pn \<and> isFile (snd pn) then Some (fileInfo S pn) else None)"
    using assms by (cases n) (simp_all add: pn listVisit_def Let_def kept_def isFile_def fileInfo_def)
  then show ?case using Cons by simp
qed simp

definition unevenFile :: "path \<times> node \<Rightarrow> bool" where
  "unevenFile pn = (case snd pn of NFile c m t \<Rightarrow> unixNano (roundSec t) \<noteq> unixNano t | _ \<Rightarrow> False)"

definition archivedInfo :: "FileSystemSnap \<Rightarrow> path \<times> node \<Rightarrow> string \<times> int \<times> i64" where
  "archivedInfo S pn = (case pn of (p, NFile c m t) \<Rightarrow> (relOf S p, int (length c), unixNano (roundSec t)) | (p, _) \<Rightarrow> (relOf S p, 0, 0))"

lemma isFile_iff: "isFile n \<longleftrightarrow> (\<exists>c m t. n = NFile c m t)"
  by (cases n) (auto simp: isFile_def)

lemma prior_captured:
  assumes "wfFS (wFiles w)" and "\<forall>pn\<in>set (captured E S w). relOf S (fst pn) \<noteq> ''.ans_deleted''"
    and "rootPlaced (WorkspaceRoot S) (wFiles w)"
    and prior: "prior = priorFiles (map (\<lambda>pn. roundEntry (entryFor S pn)) (captured E S w)) []"
  shows "(p, NFile c m t) \<in> set (captured E S w) \<Longrightarrow> map_of prior (relOf S p) = Some (int (length c), unixNano (roundSec t))"
    and "map_of prior r \<noteq> None \<Longrightarrow> \<exists>p c m t. (p, NFile c m t) \<in> set (captured E S w) \<and> r = relOf S p"
proof -
  let ?L = "captured E S w"
  let ?kv = "\<lambda>e. (entryName (teName e), int (length (teBody e)), unixNano (teMTime e))"
  let ?xs = "map ?kv (filter (\<lambda>e. teFlag e = TReg) (map (\<lambda>pn. roundEntry (entryFor S pn)) ?L))"
  have pl: "placed S pn" if "pn \<in> set ?L" for pn using captured_nodes [OF assms(1) that] assms(2) that by blast
  have "map ?kv (filter (\<lambda>e. teFlag e = TReg) (map (\<lambda>pn. roundEntry (entryFor S pn)) M)) = map (archivedInfo S) (filter (\<lambda>pn. isFile (snd pn)) M)"
    if "set M \<subseteq> set ?L" for M
    using that
  proof (induction M)
    case (Cons pn M)
    obtain p n where pn: "pn = (p, n)" by (cases pn)
    have "placed S (p, n)" using pl Cons.prems pn by auto
    then show ?case
      using Cons placed_target(1) [OF _ assms(3), of p n] by (cases n) (simp_all add: pn roundEntry_def isFile_def archivedInfo_def)
  qed simp
  then have xs: "?xs = map (archivedInfo S) (filter (\<lambda>pn. isFile (snd pn)) ?L)" by blast
  have mem: "x \<in> set ?xs \<longleftrightarrow> (\<exists>p c m t. (p, NFile c m t) \<in> set ?L \<and> x = (relOf S p, int (length c), unixNano (roundSec t)))" for x
  proof -
    have "x \<in> set ?xs \<longleftrightarrow> (\<exists>p n. (p, n) \<in> set ?L \<and> isFile n \<and> x = archivedInfo S (p, n))"
      unfolding xs by (simp add: image_iff Bex_def)
    also have "\<dots> \<longleftrightarrow> (\<exists>p c m t. (p, NFile c m t) \<in> set ?L \<and> x = archivedInfo S (p, NFile c m t))"
      unfolding isFile_iff by blast
    finally show ?thesis by (simp add: archivedInfo_def)
  qed
  have mo: "map_of prior r = map_of (rev ?xs) r" for r
    unfolding prior map_of_priorFiles by (simp split: option.splits)
  show "map_of prior (relOf S p) = Some (int (length c), unixNano (roundSec t))" if "(p, NFile c m t) \<in> set ?L"
  proof -
    have "(relOf S p, int (length c), unixNano (roundSec t)) \<in> set (rev ?xs)" using mem that by auto
    then have "relOf S p \<in> fst ` set (rev ?xs)" by force
    then obtain v where v: "map_of (rev ?xs) (relOf S p) = Some v" using map_of_eq_None_iff [of "rev ?xs"] by blast
    then have "(relOf S p, v) \<in> set ?xs" using map_of_SomeD by fastforce
    then obtain p' c' m' t' where "(p', NFile c' m' t') \<in> set ?L" "relOf S p' = relOf S p" "v = (int (length c'), unixNano (roundSec t'))"
      using mem by auto
    moreover have "p' = p" using relOf_inj [OF pl pl] calculation that by blast
    ultimately show ?thesis
      using that captured_distinct [OF assms(1), of E S] v mo by (metis eq_key_imp_eq_value node.inject(1))
  qed
  show "\<exists>p c m t. (p, NFile c m t) \<in> set ?L \<and> r = relOf S p" if r: "map_of prior r \<noteq> None"
  proof -
    from r obtain v where "map_of (rev ?xs) r = Some v" unfolding mo by blast
    then have "(r, v) \<in> set ?xs" using map_of_SomeD by fastforce
    then show ?thesis using mem by auto
  qed
qed

text \<open>
  An unchanged workspace looks modified. Comparing a workspace with the snapshot that was
  just taken of it reports nothing added and nothing deleted, but reports as modified every file
  whose modification time is not a whole number of seconds: \<open>Diff\<close> compares nanoseconds
  with the time that the archive keeps in seconds.
\<close>

theorem diff_after_capture:
  assumes "archiver_ok A" and "wfFS (wFiles w)" and "rootPlaced (WorkspaceRoot S) (wFiles w)"
    and "Capture C A E S agent idx store w = (Inr sn, w1)" and "IncludeExts S = []"
    and "\<forall>pn\<in>set (captured E S w). relOf S (fst pn) \<noteq> ''.ans_deleted''"
    and "\<forall>x. \<not> feFail E2 x" and "\<forall>p. \<not> feVisitErr E2 p"
  shows "DiffSnap A E2 S store w1 = Inr ([], map (\<lambda>pn. relOf S (fst pn)) (filter unevenFile (captured E S w)), [])"
proof -
  let ?L = "captured E S w" and ?b = "arcWrite A (map (entryFor S) (captured E S w))"
  let ?prior = "priorFiles (map (\<lambda>pn. roundEntry (entryFor S pn)) ?L) []"
  let ?cur = "map (fileInfo S) (filter (\<lambda>pn. isFile (snd pn)) ?L)"
  note cap = Capture_Inr [OF assms(4)] and pr = prior_captured [OF assms(2,6,3) refl]
  have rd: "arcRead A ?b = Some (map (\<lambda>pn. roundEntry (entryFor S pn)) ?L, ArcEOF)"
    using assms(1) captured_valid [OF assms(2), of S E] by (simp add: archiver_ok_def comp_def)
  have root: "map_of (wFiles w) (WorkspaceRoot S) \<noteq> None"
    using assms(4) by (auto simp: Capture_def writeArchive_def walkOrErr_def split: if_splits)
  have "wantedExt E2 S = wantedExt E S" using assms(5) by (simp add: wantedExt_def fun_eq_iff)
  then have "kept E2 S = kept E S" by (intro ext) (simp add: kept_def split: node.split prod.split)
  then have cur: "listFiles E2 S w1 = Inr ?cur"
    using root cap by (simp add: listFiles_def walkOrErr_def listWalk_no_err [OF assms(8)] captured_def putArchive_def conj_commute)
  have fi: "\<exists>p c m t. pn = (p, NFile c m t)" if "isFile (snd pn)" for pn
    using that by (cases pn; cases "snd pn") (auto simp: isFile_def)
  have info: "fileInfo S (p, NFile c m t) = (relOf S p, int (length c), unixNano t)" for p c m t
    by (simp add: fileInfo_def)
  have known: "map_of ?prior (fst x) \<noteq> None" if "x \<in> set ?cur" for x
    using that pr(1) fi by (fastforce simp: info)
  have "filter (\<lambda>(r, i). map_of ?prior r = None) ?cur = []"
    unfolding filter_empty_conv case_prod_beta using known by blast
  moreover have "filter (\<lambda>r. map_of ?cur r = None) (map fst ?prior) = []"
  proof -
    have "map_of ?cur r \<noteq> None" if "r \<in> set (map fst ?prior)" for r
    proof -
      have "map_of ?prior r \<noteq> None" using that by (simp add: map_of_eq_None_iff)
      then obtain p c m t where "(p, NFile c m t) \<in> set ?L" "r = relOf S p" using pr(2) by blast
      then have "r \<in> fst ` set ?cur" by (force simp: isFile_def info image_iff)
      then show ?thesis by (simp add: map_of_eq_None_iff)
    qed
    then show ?thesis by (auto simp: filter_empty_conv)
  qed
  moreover have "map fst (filter (\<lambda>(r, i). case map_of ?prior r of None \<Rightarrow> False | Some j \<Rightarrow> fst i \<noteq> fst j \<or> snd i \<noteq> snd j) ?cur)
      = map (\<lambda>pn. relOf S (fst pn)) (filter unevenFile ?L)"
  proof -
    have "map fst (filter (\<lambda>(r, i). case map_of ?prior r of None \<Rightarrow> False | Some j \<Rightarrow> fst i \<noteq> fst j \<or> snd i \<noteq> snd j)
        (map (fileInfo S) (filter (\<lambda>pn. isFile (snd pn)) M))) = map (\<lambda>pn. relOf S (fst pn)) (filter unevenFile M)"
      if "set M \<subseteq> set ?L" for M
      using that
    proof (induction M)
      case (Cons pn M)
      obtain p n where pn: "pn = (p, n)" by (cases pn)
      show ?case using Cons pr(1) [of p] by (cases n) (auto simp: pn isFile_def unevenFile_def info)
    qed simp
    then show ?thesis by simp
  qed
  ultimately have "diffOf ?prior ?cur = ([], map (\<lambda>pn. relOf S (fst pn)) (filter unevenFile ?L), [])"
    unfolding diffOf_def by simp
  moreover have "map_of (wArchives w1) store = Some ?b" using cap by (simp add: putArchive_def update_conv')
  ultimately show ?thesis using assms(7) by (simp add: DiffSnap_def rd cur)
qed

text \<open>
  A deletion manifest that holds only white space (the file of that name was the only one
  deleted) removes the workspace itself: its one line is empty and names the root.
\<close>

theorem blank_manifest_removes_workspace:
  assumes "rootPlaced root fs" and "entryName (teName e) = ''.ans_deleted''" and "teBody e \<noteq> []"
    and "trimSpace (teBody e) = []" and "int (length (teBody e)) \<le> deletedMaxSize" and "\<forall>x. \<not> feFail E x"
  shows "\<exists>fs'. restoreArchive E root ([e], ArcEOF) fs = (None, fs') \<and> (\<forall>p. below root p \<longrightarrow> map_of fs' p = None)"
proof -
  have cl: "cleanPath root" "root \<noteq> []" using assms(1) by (auto simp: rootPlaced_def)
  have j: "joinAbs root [] = root" using cl by (simp add: joinAbs_def cleanFrom_root)
  have "hasPathPrefix (absStr root) (absStr root)" by (simp add: hasPathPrefix_def)
  moreover have "realPath fs (butlast root) = Some (butlast root)" using above_root(1) [OF assms(1)] by blast
  ultimately have "restoreArchive E root ([e], ArcEOF) fs = (None, removeAll_path root fs)"
    using assms cl(2) by (simp add: restoreArchive_def restoreEntry_def Let_def j)
  then show ?thesis by (simp add: map_of_removeAll)
qed

section \<open>A concrete archiver and workspace\<close>

text \<open>An archive format for the examples: every element is announced by \<open>c\<close>, every end by \<open>e\<close>.\<close>

fun encStr :: "string \<Rightarrow> bytes" where
  "encStr [] = ''e''"
| "encStr (x # s) = CHR ''c'' # x # encStr s"

fun decStr :: "bytes \<Rightarrow> string \<times> bytes" where
  "decStr (k # r) = (if k = CHR ''c'' then (case r of [] \<Rightarrow> ([], []) | x # r' \<Rightarrow> (case decStr r' of (s, t) \<Rightarrow> (x # s, t))) else ([], r))"
| "decStr [] = ([], [])"

fun encFlag :: "tflag \<Rightarrow> string" where
  "encFlag TReg = ''r''" | "encFlag TDir = ''d''" | "encFlag TOther = ''o''"

definition decFlag :: "string \<Rightarrow> tflag" where
  "decFlag s = (if s = ''r'' then TReg else if s = ''d'' then TDir else TOther)"

definition encInt :: "int \<Rightarrow> string" where
  "encInt i = (if i < 0 then CHR ''-'' else CHR ''+'') # showNat (nat \<bar>i\<bar>)"

definition decInt :: "string \<Rightarrow> int" where
  "decInt s = (if hd s = CHR ''-'' then - int (readNat (tl s)) else int (readNat (tl s)))"

definition encEntry :: "tar_entry \<Rightarrow> bytes" where
  "encEntry e = encStr (teName e) @ encStr (encFlag (teFlag e)) @ encStr (showNat (teMode e)) @ encStr (encInt (teMTime e)) @
     encStr (teBody e)"

definition decEntry :: "bytes \<Rightarrow> tar_entry \<times> bytes" where
  "decEntry b = (let (n, b1) = decStr b; (f, b2) = decStr b1; (m, b3) = decStr b2; (t, b4) = decStr b3; (c, b5) = decStr b4
     in (\<lparr>teName = n, teFlag = decFlag f, teMode = readNat m, teMTime = roundSec (decInt t), teBody = c\<rparr>, b5))"

fun encEntries :: "tar_entry list \<Rightarrow> bytes" where
  "encEntries [] = ''e''"
| "encEntries (e # es) = CHR ''c'' # encEntry e @ encEntries es"

fun decEntries :: "nat \<Rightarrow> bytes \<Rightarrow> tar_entry list" where
  "decEntries 0 b = []"
| "decEntries (Suc n) b = (case b of k # r \<Rightarrow> (if k = CHR ''c'' then (case decEntry r of (e, r') \<Rightarrow> e # decEntries n r') else []) | [] \<Rightarrow> [])"

definition toyArchiver :: archiver where
  "toyArchiver = \<lparr>arcWrite = encEntries, arcRead = (\<lambda>b. Some (decEntries (length b) b, ArcEOF))\<rparr>"

lemma decStr_encStr [simp]: "decStr (encStr s @ r) = (s, r)"
  by (induction s) auto

lemma decEntry_encEntry [simp]: "decEntry (encEntry e @ r) = (roundEntry e, r)"
proof -
  have "decInt (encInt i) = i" for i by (simp add: encInt_def decInt_def)
  moreover have "decFlag (encFlag f) = f" for f by (cases f) (simp_all add: decFlag_def)
  ultimately show ?thesis by (simp add: encEntry_def decEntry_def roundEntry_def)
qed

lemma decEntries_encEntries: "length es < n \<Longrightarrow> decEntries n (encEntries es) = map roundEntry es"
proof (induction es arbitrary: n)
  case (Cons e es)
  then show ?case by (cases n) simp_all
next
  case Nil
  then show ?case by (cases n) simp_all
qed

lemma length_encEntries: "length es < length (encEntries es)"
  by (induction es) auto

lemma toyArchiver_ok: "archiver_ok toyArchiver"
  by (simp add: archiver_ok_def toyArchiver_def decEntries_encEntries length_encEntries)

definition exSnap :: FileSystemSnap where
  "exSnap = NewFileSystemSnap [''w'']"

definition exFsEnv :: fs_env where
  "exFsEnv = \<lparr>feFail = (\<lambda>x. False), feVisitErr = (\<lambda>p. False), feResolve = (\<lambda>p. None), feExt = (\<lambda>r. []), fePartial = [], feNow = 9\<rparr>"

definition exFiles :: "bytes \<Rightarrow> (path \<times> node) list" where
  "exFiles c = [([''w''], NDir 493), ([''w'', ''a''], NFile c 420 1500000000)]"

definition exWorld :: world where
  "exWorld = \<lparr>wFiles = exFiles ''old'', wArchives = []\<rparr>"

lemma exSnap_simps [simp]: "WorkspaceRoot exSnap = [''w'']" "IncludeExts exSnap = []"
  by (simp_all add: exSnap_def NewFileSystemSnap_def)

lemma exFsEnv_simps [simp]: "feFail exFsEnv x = False" "feVisitErr exFsEnv p = False" "feResolve exFsEnv p = None" "feNow exFsEnv = 9"
  by (simp_all add: exFsEnv_def)

lemma exWorld_simps [simp]: "wFiles exWorld = exFiles ''old''" "wArchives exWorld = []"
  by (simp_all add: exWorld_def)

lemma exRel: "relOf exSnap [''w'', ''a''] = ''a''" "\<not> isExcluded exSnap ''a''"
  by (simp_all add: relOf_def relStr_def absStr_def isExcluded_def exSnap_def NewFileSystemSnap_def hasPrefix_def)

lemma exCaptured: "wFiles w = exFiles c \<Longrightarrow> captured exFsEnv exSnap w = [([''w'', ''a''], NFile c 420 1500000000)]"
  by (simp add: captured_def walkList_def exFiles_def below_def kept_def wantedExt_def exRel)

lemmas exCaptured_old = exCaptured [OF exWorld_simps(1)]

lemma exWf: "wfFS (exFiles c)"
  by (simp add: wfFS_def wfNode_def exFiles_def pathComp_def prefixes_def)

lemma exPlaced: "rootPlaced [''w''] (exFiles c)"
  by (simp add: rootPlaced_def pathComp_def prefixes_def)

lemma exFits: "\<forall>pn\<in>set (captured exFsEnv exSnap exWorld). relOf exSnap (fst pn) \<noteq> ''.ans_deleted'' \<and> fits (exFiles c) pn"
  by (simp add: exCaptured_old exRel fits_def prefixes_def exFiles_def)

lemma exCapture:
  assumes "wFiles w = exFiles c"
  shows "\<exists>sn. Capture C A exFsEnv exSnap agent idx store w =
    (Inr sn, putArchive store (arcWrite A (map (entryFor exSnap) (captured exFsEnv exSnap w))) w)"
proof -
  let ?L = "walkList [''w''] (exFiles c)"
  have L: "?L = [([''w'', ''a''], NFile c 420 1500000000)]" by (simp add: walkList_def exFiles_def below_def)
  have "captureWalk exFsEnv exSnap ?L = Inr (map (entryFor exSnap) (captured exFsEnv exSnap w))"
    unfolding L exCaptured [OF assms] by (simp add: captureVisit_def exRel wantedExt_def hasPathPrefix_def hasPrefix_def absStr_def)
  moreover have "map_of (exFiles c) [''w''] \<noteq> None" by (simp add: exFiles_def)
  ultimately show ?thesis by (simp add: Capture_def writeArchive_def walkOrErr_def Let_def assms)
qed

definition exEscape :: world where
  "exEscape = exWorld\<lparr>wArchives := [(''s'', arcWrite toyArchiver
     [\<lparr>teName = ''../x'', teFlag = TReg, teMode = 420, teMTime = 0, teBody = ''y''\<rparr>])]\<rparr>"

definition exEscapeSnap :: Snapshot where
  "exEscapeSnap = \<lparr>snID = [], snChainIndex = 1, snAgentID = [], snReceiptID = [], snSnapType = SnapFileSystem,
     snStoragePath = ''s'', snSizeBytes = 0, snHash = [], snTimestampNS = 0, snMetadata = []\<rparr>"

text \<open>
  A workspace with a link inside it and a name in the archive that runs through it; and one whose
  link leads out, for which the restore overwrites the file outside.
\<close>

theorem restore_confined_witness:
  "map_of (wFiles (snd (Restore toyCrypto toyArchiver exFsEnv exSnap exEscapeSnap
     (exEscape\<lparr>wFiles := exFiles ''old'' @ [([''w'', ''l''], NLink [''w''])]\<rparr>)))) [''x''] = None"
proof -
  let ?w = "exEscape\<lparr>wFiles := exFiles ''old'' @ [([''w'', ''l''], NLink [''w''])]\<rparr>"
  have "rootPlaced (WorkspaceRoot exSnap) (wFiles ?w)" "linksInside (WorkspaceRoot exSnap) (wFiles ?w)" "\<not> below (WorkspaceRoot exSnap) [''x'']"
    by (auto simp: rootPlaced_def pathComp_def prefixes_def linksInside_def exFiles_def below_def split: if_splits)
  from restore_confined [OF this(1,2) prod.collapse [symmetric] this(3)] show ?thesis by (simp add: exFiles_def)
qed

definition exLinkWorld :: world where
  "exLinkWorld = \<lparr>wFiles = [([''w''], NDir 493), ([''w'', ''a''], NLink [''x'']), ([''x''], NFile ''keep'' 384 0)],
     wArchives = [(''s'', arcWrite toyArchiver [\<lparr>teName = ''a'', teFlag = TReg, teMode = 420, teMTime = 0, teBody = ''y''\<rparr>])]\<rparr>"

theorem restore_follows_links:
  "\<not> below (WorkspaceRoot exSnap) [''x''] \<and>
   map_of (wFiles exLinkWorld) [''x''] = Some (NFile ''keep'' 384 0) \<and>
   fst (Restore toyCrypto toyArchiver exFsEnv exSnap exEscapeSnap exLinkWorld) = None \<and>
   map_of (wFiles (snd (Restore toyCrypto toyArchiver exFsEnv exSnap exEscapeSnap exLinkWorld))) [''x''] = Some (NFile ''y'' 384 0)"
proof -
  let ?e = "\<lparr>teName = ''a'', teFlag = TReg, teMode = 420, teMTime = 0, teBody = ''y''\<rparr>"
  let ?fs = "[([''w''], NDir 493), ([''w'', ''a''], NLink [''x'']), ([''x''], NFile ''keep'' 384 0)]"
  have "validEntry ?e" by (simp add: validEntry_def)
  then have rd: "arcRead toyArchiver (arcWrite toyArchiver [?e]) = Some ([?e], ArcEOF)"
    using toyArchiver_ok unfolding archiver_ok_def by (auto simp: roundEntry_def roundSec_def)
  have j: "joinAbs [''w''] ''a'' = [''w'', ''a'']" by (simp add: joinAbs_def cleanAbs_def)
  have "restoreFile exFsEnv [''w'', ''a''] ?e ?fs = (None, AList.update [''x''] (NFile ''y'' 384 (modTimeOf exFsEnv ?e)) ?fs)"
    using restoreFile_follows_link [of "[''w'', ''a'']" ?fs "[''x'']" "''keep''" 384 0 exFsEnv ?e] by (simp add: prefixes_def)
  then have "restoreArchive exFsEnv [''w''] ([?e], ArcEOF) ?fs = (None, AList.update [''x''] (NFile ''y'' 384 0) ?fs)"
    by (simp add: restoreArchive_def restoreEntry_def entryName_def hasPrefix_def Let_def j hasPathPrefix_def absStr_def modTimeOf_def zeroModTime_def)
  then show ?thesis
    by (simp add: Restore_def baseOf_def exEscapeSnap_def SnapFileSystem_def SnapFileSystemDiff_def restoreOne_def exLinkWorld_def rd below_def)
qed

theorem diff_after_capture_witness:
  "\<exists>sn w1. Capture toyCrypto toyArchiver exFsEnv exSnap ''ans_a'' 1 ''s'' exWorld = (Inr sn, w1) \<and>
     DiffSnap toyArchiver exFsEnv exSnap ''s'' w1 = Inr ([], [''a''], [])"
proof -
  obtain sn w1 where c: "Capture toyCrypto toyArchiver exFsEnv exSnap ''ans_a'' 1 ''s'' exWorld = (Inr sn, w1)"
    using exCapture [OF exWorld_simps(1)] by blast
  have "DiffSnap toyArchiver exFsEnv exSnap ''s'' w1 =
      Inr ([], map (\<lambda>pn. relOf exSnap (fst pn)) (filter unevenFile (captured exFsEnv exSnap exWorld)), [])"
    by (rule diff_after_capture [OF toyArchiver_ok _ _ c]) (use exFits in \<open>simp_all add: exWf exPlaced\<close>)
  then show ?thesis using c by (simp add: exCaptured_old exRel unevenFile_def roundSec_def unixNano_def wrap64_def)
qed

end
