(* ===== verification/SnapshotStore.thy ===== *)
theory SnapshotStore
  imports SnapshotFS GoStruct
begin

text \<open>
  \<open>internal/snapshot/snapshot.go\<close> and \<open>store.go\<close>: the table of snapshots and the store
  that captures, restores, lists and deletes through the registered snapshotters. The file
  system snapshotter is the one the package has, so a registered type maps to a
  \<open>FileSystemSnap\<close>.
\<close>

section \<open>The table\<close>

record snapshot_row =
  srID :: string
  srChainIndex :: int
  srAgentID :: string
  srReceiptID :: string
  srSnapType :: string
  srStoragePath :: string
  srSizeBytes :: i64
  srHash :: string
  srTimestampNS :: i64
  srMetadata :: string

record snap_store =
  ssRows :: "snapshot_row list"
  ssSnaps :: "string \<Rightarrow> FileSystemSnap option"
  ssBaseDir :: string

datatype store_err =
    NoSnapshotter string
  | CaptureErr snap_err
  | SaveErr
  | SnapNotFound u64
  | SnapQueryErr
  | RestoreErr snap_err

text \<open>\<open>NewStore\<close>: the two steps that can fail are creating the directory and the table.\<close>

definition NewSnapStore :: "bool \<Rightarrow> bool \<Rightarrow> snapshot_row list \<Rightarrow> string \<Rightarrow> string + snap_store" where
  "NewSnapStore mkdirErr schemaErr rows baseDir = (if mkdirErr then Inl ''creating snapshot base dir''
     else if schemaErr then Inl ''creating snapshots table''
     else Inr \<lparr>ssRows = rows, ssSnaps = (\<lambda>t. None), ssBaseDir = baseDir\<rparr>)"

definition RegisterSnapshotter :: "FileSystemSnap \<Rightarrow> snap_store \<Rightarrow> snap_store" where
  "RegisterSnapshotter S s = s\<lparr>ssSnaps := (ssSnaps s)(SnapFileSystem \<mapsto> S)\<rparr>"

definition metaJson :: "(string \<times> string) list \<Rightarrow> string" where
  "metaJson m = jsonEnc (JObj (map (\<lambda>(k, v). (k, JStr v)) (sort_key fst m)))"

text \<open>A text that does not decode leaves an empty map.\<close>

definition metaOf :: "string \<Rightarrow> (string \<times> string) list" where
  "metaOf s = (case jsonParse s of Some (JObj ms) \<Rightarrow> (case mapEntries ms [] of Some m \<Rightarrow> m | None \<Rightarrow> []) | _ \<Rightarrow> [])"

definition snapRow :: "Snapshot \<Rightarrow> int \<Rightarrow> snapshot_row" where
  "snapRow sn i = \<lparr>srID = snID sn, srChainIndex = i, srAgentID = snAgentID sn, srReceiptID = snReceiptID sn,
     srSnapType = snSnapType sn, srStoragePath = snStoragePath sn, srSizeBytes = snSizeBytes sn, srHash = snHash sn,
     srTimestampNS = snTimestampNS sn, srMetadata = metaJson (snMetadata sn)\<rparr>"

definition scanSnap :: "snapshot_row \<Rightarrow> Snapshot" where
  "scanSnap r = \<lparr>snID = srID r, snChainIndex = word_of_int (srChainIndex r), snAgentID = srAgentID r, snReceiptID = srReceiptID r,
     snSnapType = srSnapType r, snStoragePath = srStoragePath r, snSizeBytes = srSizeBytes r, snHash = srHash r,
     snTimestampNS = srTimestampNS r, snMetadata = metaOf (srMetadata r)\<rparr>"

text \<open>A bound \<open>uint64\<close> with its high bit set is refused; \<open>INSERT OR REPLACE\<close> puts the row last.\<close>

definition saveSnap :: "bool \<Rightarrow> Snapshot \<Rightarrow> snap_store \<Rightarrow> store_err option \<times> snap_store" where
  "saveSnap fault sn s = (if fault \<or> 2 ^ 63 \<le> uint (snChainIndex sn) then (Some SaveErr, s)
     else (None, s\<lparr>ssRows := filter (\<lambda>r. srID r \<noteq> snID sn) (ssRows s) @ [snapRow sn (uint (snChainIndex sn))]\<rparr>))"

text \<open>The first row in the order of insertion, as a scan of either index gives it.\<close>

definition getByChainIndex :: "bool \<Rightarrow> string \<Rightarrow> u64 \<Rightarrow> snap_store \<Rightarrow> store_err + Snapshot" where
  "getByChainIndex fault ty idx s = (if fault \<or> 2 ^ 63 \<le> uint idx then Inl SnapQueryErr
     else (case find (\<lambda>r. srChainIndex r = uint idx \<and> srSnapType r = ty) (ssRows s) of
       None \<Rightarrow> Inl (SnapNotFound idx) | Some r \<Rightarrow> Inr (scanSnap r)))"

text \<open>\<open>ORDER BY chain_index DESC\<close>; equal keys in the order of insertion.\<close>

definition listSnaps :: "bool \<Rightarrow> string \<Rightarrow> string \<Rightarrow> int \<Rightarrow> int \<Rightarrow> snap_store \<Rightarrow> store_err + Snapshot list" where
  "listSnaps fault agent ty limit offset s = (if fault then Inl SnapQueryErr else
     (let rows = sort_key (\<lambda>r. - srChainIndex r) (filter (\<lambda>r. srAgentID r = agent \<and> srSnapType r = ty) (ssRows s))
      in Inr (map scanSnap (if 0 < limit then take (nat limit) (drop (nat offset) rows) else rows))))"

section \<open>Operations\<close>

definition ListSnapshots :: "bool \<Rightarrow> string \<Rightarrow> string \<Rightarrow> int \<Rightarrow> int \<Rightarrow> snap_store \<Rightarrow> store_err + Snapshot list" where
  "ListSnapshots fault agent ty limit offset s = listSnaps fault agent ty (if limit < 0 then 0 else limit) (if offset < 0 then 0 else offset) s"

definition getLatestFullSnapshot :: "bool \<Rightarrow> string \<Rightarrow> snap_store \<Rightarrow> Snapshot option" where
  "getLatestFullSnapshot fault agent s = (case listSnaps fault agent SnapFileSystem 1 0 s of
     Inr (sn # _) \<Rightarrow> Some sn | _ \<Rightarrow> None)"

definition DeleteSnapshots :: "bool \<Rightarrow> u64 \<Rightarrow> snap_store \<Rightarrow> store_err option \<times> snap_store" where
  "DeleteSnapshots fault idx s = (if fault \<or> 2 ^ 63 \<le> uint idx then (Some SnapQueryErr, s)
     else (None, s\<lparr>ssRows := filter (\<lambda>r. srChainIndex r < uint idx) (ssRows s)\<rparr>))"

definition unsafeIDChar :: "char \<Rightarrow> bool" where
  "unsafeIDChar c \<longleftrightarrow> c \<in> {CHR ''/'', CHR 0x5C, CHR ''.'', CHR '':''}"

definition snapshotPath :: "snap_store \<Rightarrow> string \<Rightarrow> u64 \<Rightarrow> string \<Rightarrow> string" where
  "snapshotPath s agent idx ty = ssBaseDir s @ ''/'' @ map (\<lambda>c. if unsafeIDChar c then CHR ''_'' else c) (coerceUtf8 agent) @
     ''-'' @ ty @ ''-'' @ showNat (unat idx) @ ''.snap''"

definition snapshotID :: "crypto \<Rightarrow> string \<Rightarrow> string \<Rightarrow> u64 \<Rightarrow> i64 \<Rightarrow> string" where
  "snapshotID C ty agent idx ts = hexEncode (take 16 (sha256 C (ty @ ''-'' @ agent @ ''-'' @ showNat (unat idx) @ ''-'' @ showInt ts)))"

text \<open>The clock reading for the stored timestamp and the fault of the insertion.\<close>

record store_env =
  seStamp :: i64
  seSaveErr :: bool
  seQueryErr :: bool

definition labelled :: "crypto \<Rightarrow> store_env \<Rightarrow> string \<Rightarrow> u64 \<Rightarrow> string \<Rightarrow> string \<Rightarrow> Snapshot \<Rightarrow> Snapshot" where
  "labelled C V agent idx rcpt ty sn = sn\<lparr>snReceiptID := rcpt, snTimestampNS := seStamp V,
     snMetadata := AList.update ''agent_id'' agent (snMetadata sn), snID := snapshotID C ty agent idx (seStamp V)\<rparr>"

definition CaptureSnapshot :: "crypto \<Rightarrow> archiver \<Rightarrow> fs_env \<Rightarrow> store_env \<Rightarrow> string \<Rightarrow> string \<Rightarrow> u64 \<Rightarrow> string
    \<Rightarrow> snap_store \<times> world \<Rightarrow> (store_err + Snapshot) \<times> snap_store \<times> world" where
  "CaptureSnapshot C A E V ty agent idx rcpt st = (let (s, w) = st in
     case ssSnaps s ty of None \<Rightarrow> (Inl (NoSnapshotter ty), s, w) | Some S \<Rightarrow>
     (case Capture C A E S agent idx (snapshotPath s agent idx ty) w of
        (Inl e, w1) \<Rightarrow> (Inl (CaptureErr e), s, w1)
      | (Inr sn0, w1) \<Rightarrow> let sn = labelled C V agent idx rcpt ty (sn0\<lparr>snChainIndex := idx\<rparr>) in
        (case saveSnap (seSaveErr V) sn s of
           (Some e, s1) \<Rightarrow> (Inl e, s1, w1) | (None, s1) \<Rightarrow> (Inr sn, s1, w1))))"

definition CaptureDifferential :: "crypto \<Rightarrow> archiver \<Rightarrow> fs_env \<Rightarrow> store_env \<Rightarrow> string \<Rightarrow> string \<Rightarrow> u64 \<Rightarrow> string
    \<Rightarrow> snap_store \<times> world \<Rightarrow> (store_err + Snapshot) \<times> snap_store \<times> world" where
  "CaptureDifferential C A E V ty agent idx rcpt st = (let (s, w) = st in
     case ssSnaps s ty of None \<Rightarrow> (Inl (NoSnapshotter ty), s, w) | Some S \<Rightarrow>
     (case getLatestFullSnapshot (seQueryErr V) agent s of
        None \<Rightarrow> CaptureSnapshot C A E V ty agent idx rcpt st
      | Some base \<Rightarrow>
        (case CaptureDiff C A E S agent idx (snapshotPath s agent idx SnapFileSystemDiff) (snStoragePath base) w of
           (Inl e, w1) \<Rightarrow> (Inl (CaptureErr e), s, w1)
         | (Inr (sn0, entries), w1) \<Rightarrow> let sn = labelled C V agent idx rcpt SnapFileSystemDiff sn0 in
           (case saveSnap (seSaveErr V) sn s of
              (Some e, s1) \<Rightarrow> (Inl e, s1, w1) | (None, s1) \<Rightarrow> (Inr sn, s1, w1)))))"

definition RestoreSnapshot :: "crypto \<Rightarrow> archiver \<Rightarrow> fs_env \<Rightarrow> bool \<Rightarrow> string \<Rightarrow> u64 \<Rightarrow> snap_store \<Rightarrow> world
    \<Rightarrow> store_err option \<times> world" where
  "RestoreSnapshot C A E qerr ty idx s w = (case getByChainIndex qerr ty idx s of
     Inl e \<Rightarrow> (Some e, w)
   | Inr sn \<Rightarrow> (case ssSnaps s ty of None \<Rightarrow> (Some (NoSnapshotter ty), w) | Some S \<Rightarrow>
       (case Restore C A E S sn w of (Some e, w1) \<Rightarrow> (Some (RestoreErr e), w1) | (None, w1) \<Rightarrow> (None, w1))))"

fun restoreTypes :: "crypto \<Rightarrow> archiver \<Rightarrow> fs_env \<Rightarrow> bool \<Rightarrow> string list \<Rightarrow> u64 \<Rightarrow> snap_store \<Rightarrow> world \<Rightarrow> store_err option \<times> world" where
  "restoreTypes C A E qerr [] idx s w = (None, w)"
| "restoreTypes C A E qerr (ty # tys) idx s w = (if ssSnaps s ty = None then restoreTypes C A E qerr tys idx s w
     else (case RestoreSnapshot C A E qerr ty idx s w of
       (Some e, w1) \<Rightarrow> (Some e, w1) | (None, w1) \<Rightarrow> restoreTypes C A E qerr tys idx s w1))"

definition RestoreAll :: "crypto \<Rightarrow> archiver \<Rightarrow> fs_env \<Rightarrow> bool \<Rightarrow> u64 \<Rightarrow> snap_store \<Rightarrow> world \<Rightarrow> store_err option \<times> world" where
  "RestoreAll C A E qerr idx s w = restoreTypes C A E qerr [SnapDatabase, SnapFileSystem, SnapMemory] idx s w"

section \<open>Properties\<close>

lemma scan_row [simp]:
  "snStoragePath (scanSnap (snapRow sn i)) = snStoragePath sn" "snHash (scanSnap (snapRow sn i)) = snHash sn"
  "snSnapType (scanSnap (snapRow sn i)) = snSnapType sn"
  by (simp_all add: scanSnap_def snapRow_def)

lemma labelled_simps [simp]:
  "snStoragePath (labelled C V agent idx rcpt ty sn) = snStoragePath sn" "snHash (labelled C V agent idx rcpt ty sn) = snHash sn"
  "snSnapType (labelled C V agent idx rcpt ty sn) = snSnapType sn" "snChainIndex (labelled C V agent idx rcpt ty sn) = snChainIndex sn"
  "snID (labelled C V agent idx rcpt ty sn) = snapshotID C ty agent idx (seStamp V)"
  by (simp_all add: labelled_def)

lemma CaptureSnapshot_Inr:
  assumes "CaptureSnapshot C A E V ty agent idx rcpt (s, w) = (Inr sn, s1, w1)"
  obtains S sn0 where "ssSnaps s ty = Some S" "Capture C A E S agent idx (snapshotPath s agent idx ty) w = (Inr sn0, w1)"
    "snStoragePath sn = snStoragePath sn0" "snHash sn = snHash sn0" "snSnapType sn = SnapFileSystem"
    "snID sn = snapshotID C ty agent idx (seStamp V)" "snChainIndex sn = idx" "uint idx < 2 ^ 63"
    "s1 = s\<lparr>ssRows := filter (\<lambda>r. srID r \<noteq> snID sn) (ssRows s) @ [snapRow sn (uint idx)]\<rparr>"
proof -
  from assms obtain S sn0 where c: "ssSnaps s ty = Some S" "Capture C A E S agent idx (snapshotPath s agent idx ty) w = (Inr sn0, w1)"
    and sv: "saveSnap (seSaveErr V) sn s = (None, s1)" and sn: "sn = labelled C V agent idx rcpt ty (sn0\<lparr>snChainIndex := idx\<rparr>)"
    by (auto simp: CaptureSnapshot_def Let_def split: option.splits prod.splits sum.splits)
  show thesis
    using that [OF c] sn sv Capture_Inr [OF c(2)] by (auto simp: saveSnap_def split: if_splits)
qed

text \<open>
  C31. A stored snapshot brings the workspace back. Take a snapshot of a well-formed workspace
  (with no file called \<open>.ans_deleted\<close>) at a chain index that has none yet. Whatever the
  workspace has become since then, if the archive is intact, directories and files did not
  change places and nothing fails, \<open>Restore\<close> at that index succeeds: every captured file has
  its captured content again, with its modification time rounded to the second, every captured
  directory exists, and what was not captured stays as it was (files created since then are not
  removed).
\<close>

theorem stored_snapshot_restores:
  assumes "archiver_ok A" and "wfFS (wFiles w)"
    and "CaptureSnapshot C A E V SnapFileSystem agent idx rcpt (s, w) = (Inr sn, s1, w1)"
    and "\<forall>r\<in>set (ssRows s). srChainIndex r \<noteq> uint idx" and "ssSnaps s SnapFileSystem = Some S"
    and "\<forall>pn\<in>set (captured E S w). relOf S (fst pn) \<noteq> ''.ans_deleted'' \<and> fits (wFiles w2) pn"
    and "wArchives w2 = wArchives w1" and "rootPlaced (WorkspaceRoot S) (wFiles w2)" and "\<forall>x. \<not> feFail E2 x"
  shows "\<exists>fs. RestoreSnapshot C A E2 False SnapFileSystem idx s1 w2 = (None, w2\<lparr>wFiles := fs\<rparr>) \<and>
    (\<forall>(p, n)\<in>set (captured E S w). isRestored n (map_of fs p)) \<and>
    (\<forall>p. p \<notin> fst ` set (captured E S w) \<longrightarrow> map_of (wFiles w2) p \<noteq> None \<longrightarrow> map_of fs p = map_of (wFiles w2) p)"
proof -
  obtain S' sn0 where S': "ssSnaps s SnapFileSystem = Some S'"
    and c': "Capture C A E S' agent idx (snapshotPath s agent idx SnapFileSystem) w = (Inr sn0, w1)"
    and sn: "snStoragePath sn = snStoragePath sn0" "snHash sn = snHash sn0" "snSnapType sn = SnapFileSystem"
    "snID sn = snapshotID C SnapFileSystem agent idx (seStamp V)" "snChainIndex sn = idx" "uint idx < 2 ^ 63"
    and s1: "s1 = s\<lparr>ssRows := filter (\<lambda>r. srID r \<noteq> snID sn) (ssRows s) @ [snapRow sn (uint idx)]\<rparr>"
    by (rule CaptureSnapshot_Inr [OF assms(3)])
  note c = c' [unfolded option.inject [THEN iffD1, OF trans [OF S' [symmetric] assms(5)]]]
  have "find (\<lambda>r. srChainIndex r = uint idx \<and> srSnapType r = SnapFileSystem) (filter (\<lambda>r. srID r \<noteq> snID sn) (ssRows s)) = None"
    using assms(4) by (auto simp: find_None_iff)
  then have g: "getByChainIndex False SnapFileSystem idx s1 = Inr (scanSnap (snapRow sn (uint idx)))"
    using sn(3,6) by (simp add: getByChainIndex_def s1 find_append snapRow_def)
  have S1: "ssSnaps s1 SnapFileSystem = Some S" using assms(5) s1 by simp
  have st: "snStoragePath sn0 = snapshotPath s agent idx SnapFileSystem" using Capture_Inr [OF c] by simp
  from capture_restore_nodes [OF assms(1,2) c assms(6) _ assms(8,9), of "scanSnap (snapRow sn (uint idx))"] assms(7) sn st
  show ?thesis by (auto simp: RestoreSnapshot_def g S1)
qed

text \<open>
  A second snapshot at the same chain index destroys the first one for restoring. When an
  agent's workspace is captured twice before the chain grows, the second capture overwrites the
  archive of the first but adds a second row; \<open>Restore\<close> then finds the first row, whose hash
  is not the hash of the archive any more, and fails with a mismatch, whatever the workspace.
\<close>

theorem recapture_breaks_restore:
  assumes "crypto_ok C" and "CaptureSnapshot C A E V SnapFileSystem agent idx rcpt (s, w) = (Inr sn, s1, w1)"
    and "CaptureSnapshot C A E' V' SnapFileSystem agent idx rcpt' (s1, w2) = (Inr sn', s2, w3)"
    and "\<forall>r\<in>set (ssRows s). srChainIndex r \<noteq> uint idx"
    and "snID sn \<noteq> snID sn'" and "snHash sn \<noteq> snHash sn'" and "\<forall>x. \<not> feFail E2 x"
  shows "RestoreSnapshot C A E2 False SnapFileSystem idx s2 w3 = (Some (RestoreErr HashMismatch), w3)"
proof -
  obtain S sn0 where a: "ssSnaps s SnapFileSystem = Some S"
    "Capture C A E S agent idx (snapshotPath s agent idx SnapFileSystem) w = (Inr sn0, w1)"
    "snStoragePath sn = snStoragePath sn0" "snHash sn = snHash sn0" "snSnapType sn = SnapFileSystem" "uint idx < 2 ^ 63"
    "s1 = s\<lparr>ssRows := filter (\<lambda>r. srID r \<noteq> snID sn) (ssRows s) @ [snapRow sn (uint idx)]\<rparr>"
    using CaptureSnapshot_Inr [OF assms(2)] by metis
  obtain S' sn1 where b: "Capture C A E' S' agent idx (snapshotPath s1 agent idx SnapFileSystem) w2 = (Inr sn1, w3)"
    "snHash sn' = snHash sn1" "s2 = s1\<lparr>ssRows := filter (\<lambda>r. srID r \<noteq> snID sn') (ssRows s1) @ [snapRow sn' (uint idx)]\<rparr>"
    using CaptureSnapshot_Inr [OF assms(3)] by metis
  have path: "snapshotPath s1 agent idx SnapFileSystem = snapshotPath s agent idx SnapFileSystem"
    by (simp add: snapshotPath_def a(7))
  have "length (snHash sn) = 64" using Capture_Inr [OF a(2)] a(4) assms(1) by (simp add: crypto_ok_def)
  then have h: "snHash sn \<noteq> []" by auto
  have "find (\<lambda>r. srChainIndex r = uint idx \<and> srSnapType r = SnapFileSystem) (filter P (ssRows s)) = None" for P
    using assms(4) by (auto simp: find_None_iff)
  then have g: "getByChainIndex False SnapFileSystem idx s2 = Inr (scanSnap (snapRow sn (uint idx)))"
    using a(5,6) assms(5) by (simp add: getByChainIndex_def b(3) a(7) find_append snapRow_def)
  have arc: "\<exists>x. map_of (wArchives w3) (snStoragePath sn) = Some x \<and> hexEncode (sha256 C x) = snHash sn'"
    using Capture_Inr [OF b(1)] Capture_Inr [OF a(2)] a(3) b(2) path by (simp add: putArchive_def update_conv')
  have "baseOf (scanSnap (snapRow sn (uint idx))) = None" using a(5) by (simp add: baseOf_def SnapFileSystem_def SnapFileSystemDiff_def)
  moreover have "ssSnaps s2 SnapFileSystem = Some S" by (simp add: b(3) a(1,7))
  ultimately show ?thesis using arc assms(6,7) h by (auto simp: RestoreSnapshot_def g Restore_def restoreOne_def)
qed

text \<open>
  A differential snapshot cannot be restored through the store: no snapshotter is registered
  for its type.
\<close>

theorem diff_snapshot_not_restorable:
  assumes "NewSnapStore m e rows dir = Inr s"
  shows "\<exists>e. RestoreSnapshot C A E q SnapFileSystemDiff idx (fold RegisterSnapshotter Ss s\<lparr>ssRows := rows'\<rparr>) w = (Some e, w)"
proof -
  have "ssSnaps (fold RegisterSnapshotter Ss s) SnapFileSystemDiff = None"
    if "ssSnaps s SnapFileSystemDiff = None" for s
    using that by (induction Ss arbitrary: s)
      (simp_all add: RegisterSnapshotter_def SnapFileSystem_def SnapFileSystemDiff_def)
  moreover have "ssSnaps s SnapFileSystemDiff = None"
    using assms by (auto simp: NewSnapStore_def split: if_splits)
  ultimately show ?thesis by (simp add: RestoreSnapshot_def split: sum.split)
qed

section \<open>A concrete store\<close>

text \<open>A digest that keeps the last bytes, so that the examples can tell two texts apart.\<close>

definition revCrypto :: crypto where
  "revCrypto = toyCrypto\<lparr>sha256 := (\<lambda>b. take 32 (rev b @ replicate 32 (CHR 0x00)))\<rparr>"

lemma revCrypto_ok: "crypto_ok revCrypto"
  using toyCrypto_ok by (auto simp: crypto_ok_def revCrypto_def min_def)

definition exSnapStore :: snap_store where
  "exSnapStore = RegisterSnapshotter exSnap \<lparr>ssRows = [], ssSnaps = (\<lambda>t. None), ssBaseDir = ''/b''\<rparr>"

definition exStoreEnv :: "i64 \<Rightarrow> store_env" where
  "exStoreEnv t = \<lparr>seStamp = t, seSaveErr = False, seQueryErr = False\<rparr>"

definition exArchive :: "bytes \<Rightarrow> bytes" where
  "exArchive c = arcWrite toyArchiver [entryFor exSnap ([''w'', ''a''], NFile c 420 1500000000)]"

lemma exStoreCapture:
  assumes "wFiles w = exFiles c" and "ssSnaps s SnapFileSystem = Some exSnap"
  shows "\<exists>sn s1. CaptureSnapshot revCrypto toyArchiver exFsEnv (exStoreEnv t) SnapFileSystem ''ans_a'' 1 [] (s, w) =
      (Inr sn, s1, putArchive (snapshotPath s ''ans_a'' 1 SnapFileSystem) (exArchive c) w) \<and>
    ssSnaps s1 = ssSnaps s \<and> ssBaseDir s1 = ssBaseDir s \<and>
    snHash sn = hexEncode (sha256 revCrypto (exArchive c)) \<and> snID sn = snapshotID revCrypto SnapFileSystem ''ans_a'' 1 t"
proof -
  have arc: "arcWrite toyArchiver (map (entryFor exSnap) (captured exFsEnv exSnap w)) = exArchive c"
    by (simp add: exCaptured [OF assms(1)] exArchive_def)
  obtain sn0 where c: "Capture revCrypto toyArchiver exFsEnv exSnap ''ans_a'' 1 (snapshotPath s ''ans_a'' 1 SnapFileSystem) w =
      (Inr sn0, putArchive (snapshotPath s ''ans_a'' 1 SnapFileSystem) (exArchive c) w)"
    using exCapture [OF assms(1)] arc by metis
  have "snHash sn0 = hexEncode (sha256 revCrypto (exArchive c))"
    using Capture_Inr [OF c] arc by simp
  then show ?thesis by (simp add: CaptureSnapshot_def assms(2) c saveSnap_def exStoreEnv_def Let_def)
qed

lemma exSnapStore_simps [simp]: "ssSnaps exSnapStore SnapFileSystem = Some exSnap" "ssRows exSnapStore = []"
  by (simp_all add: exSnapStore_def RegisterSnapshotter_def)

theorem stored_snapshot_restores_witness:
  "\<exists>sn s1 w1 fs m. CaptureSnapshot revCrypto toyArchiver exFsEnv (exStoreEnv 1) SnapFileSystem ''ans_a'' 1 [] (exSnapStore, exWorld) = (Inr sn, s1, w1) \<and>
     RestoreSnapshot revCrypto toyArchiver exFsEnv False SnapFileSystem 1 s1 (w1\<lparr>wFiles := exFiles ''new''\<rparr>) = (None, w1\<lparr>wFiles := fs\<rparr>) \<and>
     map_of fs [''w'', ''a''] = Some (NFile ''old'' m 2000000000)"
proof -
  obtain sn s1 w1 where c: "CaptureSnapshot revCrypto toyArchiver exFsEnv (exStoreEnv 1) SnapFileSystem ''ans_a'' 1 [] (exSnapStore, exWorld) = (Inr sn, s1, w1)"
    using exStoreCapture [OF exWorld_simps(1) exSnapStore_simps(1)] by metis
  let ?w2 = "w1\<lparr>wFiles := exFiles ''new''\<rparr>"
  have "\<exists>fs. RestoreSnapshot revCrypto toyArchiver exFsEnv False SnapFileSystem 1 s1 ?w2 = (None, ?w2\<lparr>wFiles := fs\<rparr>) \<and>
      (\<forall>(p, n)\<in>set (captured exFsEnv exSnap exWorld). isRestored n (map_of fs p)) \<and>
      (\<forall>p. p \<notin> fst ` set (captured exFsEnv exSnap exWorld) \<longrightarrow> map_of (wFiles ?w2) p \<noteq> None \<longrightarrow> map_of fs p = map_of (wFiles ?w2) p)"
    by (rule stored_snapshot_restores [OF toyArchiver_ok _ c]) (use exFits in \<open>simp_all add: exWf exPlaced\<close>)
  then show ?thesis using c by (auto simp: exCaptured_old roundSec_def)
qed

theorem recapture_breaks_restore_witness:
  "\<exists>sn s1 w1 sn' s2 w3.
     CaptureSnapshot revCrypto toyArchiver exFsEnv (exStoreEnv 1) SnapFileSystem ''ans_a'' 1 [] (exSnapStore, exWorld) = (Inr sn, s1, w1) \<and>
     CaptureSnapshot revCrypto toyArchiver exFsEnv (exStoreEnv 2) SnapFileSystem ''ans_a'' 1 [] (s1, w1\<lparr>wFiles := exFiles ''new''\<rparr>) = (Inr sn', s2, w3) \<and>
     RestoreSnapshot revCrypto toyArchiver exFsEnv False SnapFileSystem 1 s2 w3 = (Some (RestoreErr HashMismatch), w3)"
proof -
  obtain sn s1 w1 where c: "CaptureSnapshot revCrypto toyArchiver exFsEnv (exStoreEnv 1) SnapFileSystem ''ans_a'' 1 [] (exSnapStore, exWorld) = (Inr sn, s1, w1)"
    "ssSnaps s1 SnapFileSystem = Some exSnap" "snHash sn = hexEncode (sha256 revCrypto (exArchive ''old''))"
    "snID sn = snapshotID revCrypto SnapFileSystem ''ans_a'' 1 1"
    using exStoreCapture [OF exWorld_simps(1) exSnapStore_simps(1)] exSnapStore_simps(1) by metis
  have "wFiles (w1\<lparr>wFiles := exFiles ''new''\<rparr>) = exFiles ''new''" by simp
  from exStoreCapture [OF this c(2), of 2] obtain sn' s2 w3 where
    d: "CaptureSnapshot revCrypto toyArchiver exFsEnv (exStoreEnv 2) SnapFileSystem ''ans_a'' 1 [] (s1, w1\<lparr>wFiles := exFiles ''new''\<rparr>) = (Inr sn', s2, w3)"
    "snHash sn' = hexEncode (sha256 revCrypto (exArchive ''new''))" "snID sn' = snapshotID revCrypto SnapFileSystem ''ans_a'' 1 2" by metis
  have i: "snID sn \<noteq> snID sn'" unfolding c(4) d(3) snapshotID_def hexEncode_inj by (simp add: revCrypto_def showInt_def showNat.simps)
  have h: "snHash sn \<noteq> snHash sn'"
    unfolding c(3) d(2) hexEncode_inj by (simp add: revCrypto_def exArchive_def toyArchiver_def encEntry_def)
  have "RestoreSnapshot revCrypto toyArchiver exFsEnv False SnapFileSystem 1 s2 w3 = (Some (RestoreErr HashMismatch), w3)"
    by (rule recapture_breaks_restore [OF revCrypto_ok c(1) d(1) _ i h]) simp_all
  then show ?thesis using c(1) d(1) by blast
qed

end
