(* ===== verification/Pii.thy ===== *)
theory Pii
  imports GoText
begin

text \<open>
  \<open>internal/policy/pii.go\<close>: the detection of personal data by fixed patterns, with the
  cheap character tests that guard them, and the Luhn check of card numbers.
\<close>

section \<open>Patterns\<close>

definition isDigitC :: "char \<Rightarrow> bool" where
  "isDigitC c \<longleftrightarrow> 48 \<le> byte c \<and> byte c \<le> 57"

definition isAlphaC :: "char \<Rightarrow> bool" where
  "isAlphaC c \<longleftrightarrow> (97 \<le> byte c \<and> byte c \<le> 122) \<or> (65 \<le> byte c \<and> byte c \<le> 90)"

abbreviation lit :: "char \<Rightarrow> re" where
  "lit c \<equiv> Cls (\<lambda>d. d = c)"

abbreviation digits :: "nat \<Rightarrow> nat \<Rightarrow> re" where
  "digits lo hi \<equiv> Rep lo (Some hi) True (Cls isDigitC)"

definition emailRE :: re where
  "emailRE = Seq (Rep 1 None True (Cls (\<lambda>c. isAlphaC c \<or> isDigitC c \<or> c \<in> set ''._%+-'')))
     (Seq (lit (CHR ''@''))
     (Seq (Rep 1 None True (Cls (\<lambda>c. isAlphaC c \<or> isDigitC c \<or> c \<in> set ''.-'')))
     (Seq (lit (CHR ''.'')) (Rep 2 None True (Cls isAlphaC)))))"

definition ssnRE :: re where
  "ssnRE = Seq Bnd (Seq (digits 3 3) (Seq (lit (CHR ''-'')) (Seq (digits 2 2)
     (Seq (lit (CHR ''-'')) (Seq (digits 4 4) Bnd)))))"

definition ccRE :: re where
  "ccRE = Seq Bnd (Seq (Rep 13 (Some 19) True
     (Seq (Cls isDigitC) (Rep 0 None False (Cls (\<lambda>c. c \<in> set '' -''))))) Bnd)"

definition phoneRE :: re where
  "phoneRE = Seq Bnd (Seq (Rep 0 (Some 1) True (lit (CHR ''+'')))
     (Seq (Rep 0 (Some 1) True (lit (CHR ''1''))) (Seq (digits 10 15) Bnd)))"

definition ipRE :: re where
  "ipRE = Seq Bnd (Seq (digits 1 3) (Seq (lit (CHR ''.'')) (Seq (digits 1 3) (Seq (lit (CHR ''.''))
     (Seq (digits 1 3) (Seq (lit (CHR ''.'')) (Seq (digits 1 3) Bnd)))))))"

definition apiKeyRE :: re where
  "apiKeyRE = Seq Bnd (Seq (Alt (Seq (lit (CHR ''s'')) (Seq (lit (CHR ''k'')) (lit (CHR ''-''))))
        (Seq (lit (CHR ''p'')) (Seq (lit (CHR ''k'')) (lit (CHR ''-'')))))
     (Seq (Rep 8 None True (Cls (\<lambda>c. isAlphaC c \<or> isDigitC c \<or> c \<in> set ''_-''))) Bnd))"

section \<open>Luhn check\<close>

text \<open>
  The argument is a match of \<open>ccRE\<close>, so its digits are ASCII digits. The loop runs from the
  last digit to the first; \<open>double\<close> alternates.
\<close>

definition luhnDigit :: "bool \<Rightarrow> int \<Rightarrow> int" where
  "luhnDigit double d = (if double then (if d * 2 > 9 then d * 2 - 9 else d * 2) else d)"

fun luhnSum :: "bool \<Rightarrow> int list \<Rightarrow> int" where
  "luhnSum double [] = 0"
| "luhnSum double (d # ds) = luhnDigit double d + luhnSum (\<not> double) ds"

definition cardDigits :: "string \<Rightarrow> int list" where
  "cardDigits s = map (\<lambda>c. int (byte c) - 48) (filter isDigitC s)"

definition isValidCreditCard :: "string \<Rightarrow> bool" where
  "isValidCreditCard s = (let ds = cardDigits s in
     if length ds < 13 \<or> length ds > 19 then False else luhnSum False (rev ds) mod 10 = 0)"

section \<open>Classification\<close>

record PIIClassification =
  HasEmail :: bool
  HasSSN :: bool
  HasCreditCard :: bool
  HasPhone :: bool
  HasIP :: bool
  HasAPIKey :: bool
  HasPII :: bool

definition containsDigit :: "string \<Rightarrow> bool" where
  "containsDigit s \<longleftrightarrow> (\<exists>c\<in>set s. isDigitC c)"

definition DetectPII :: "string \<Rightarrow> PIIClassification" where
  "DetectPII s =
     (let email = containsAny s ''@'' \<and> matchString emailRE s;
          ssn = containsAny s ''-'' \<and> matchString ssnRE s;
          cc = (case findString ccRE s of Some m \<Rightarrow> m \<noteq> '''' \<and> isValidCreditCard m | None \<Rightarrow> False);
          phone = containsDigit s \<and> matchString phoneRE s;
          ip = containsDigit s \<and> containsAny s ''.'' \<and> matchString ipRE s;
          api = containsAny s ''-_'' \<and> matchString apiKeyRE s
      in \<lparr>HasEmail = email, HasSSN = ssn, HasCreditCard = cc, HasPhone = phone, HasIP = ip,
          HasAPIKey = api, HasPII = email \<or> ssn \<or> cc \<or> phone \<or> ip \<or> api\<rparr>)"

section \<open>Properties\<close>

text \<open>
  The cheap character tests change no answer. Each flag of \<open>DetectPII\<close> is exactly the
  answer of its pattern (for cards, of the first match and the Luhn check), and \<open>HasPII\<close> is
  their disjunction: the pre-filters only save work.
\<close>

theorem detect_pii_prefilter_sound:
  "DetectPII s =
     (let cc = (case findString ccRE s of Some m \<Rightarrow> m \<noteq> '''' \<and> isValidCreditCard m | None \<Rightarrow> False) in
      \<lparr>HasEmail = matchString emailRE s, HasSSN = matchString ssnRE s, HasCreditCard = cc,
       HasPhone = matchString phoneRE s, HasIP = matchString ipRE s, HasAPIKey = matchString apiKeyRE s,
       HasPII = matchString emailRE s \<or> matchString ssnRE s \<or> cc \<or> matchString phoneRE s \<or>
         matchString ipRE s \<or> matchString apiKeyRE s\<rparr>)"
proof -
  have "matchString emailRE s \<Longrightarrow> containsAny s ''@''"
    using matchString_consumes [of "\<lambda>c. c = CHR ''@''" emailRE s] by (auto simp: emailRE_def containsAny_def)
  moreover have "matchString ssnRE s \<Longrightarrow> containsAny s ''-''"
    using matchString_consumes [of "\<lambda>c. c = CHR ''-''" ssnRE s] by (auto simp: ssnRE_def containsAny_def)
  moreover have "matchString phoneRE s \<Longrightarrow> containsDigit s"
    using matchString_consumes [of isDigitC phoneRE s] by (auto simp: phoneRE_def containsDigit_def)
  moreover have "matchString ipRE s \<Longrightarrow> containsDigit s \<and> containsAny s ''.''"
    using matchString_consumes [of isDigitC ipRE s] matchString_consumes [of "\<lambda>c. c = CHR ''.''" ipRE s]
    by (auto simp: ipRE_def containsDigit_def containsAny_def)
  moreover have "matchString apiKeyRE s \<Longrightarrow> containsAny s ''-_''"
    using matchString_consumes [of "\<lambda>c. c = CHR ''-''" apiKeyRE s] by (auto simp: apiKeyRE_def containsAny_def)
  ultimately show ?thesis by (auto simp: DetectPII_def Let_def)
qed

lemma luhnDigit_inj:
  assumes "0 \<le> a" "a \<le> 9" "0 \<le> b" "b \<le> 9" "a \<noteq> b"
  shows "(luhnDigit dbl a - luhnDigit dbl b) mod 10 \<noteq> 0"
proof -
  have "x \<in> {0,1,2,3,4,5,6,7,8,9}" if "0 \<le> x" "x \<le> 9" for x :: int
    using that unfolding insert_iff empty_iff by presburger
  from this [OF assms(1,2)] this [OF assms(3,4)]
  have "a \<in> {0,1,2,3,4,5,6,7,8,9}" "b \<in> {0,1,2,3,4,5,6,7,8,9}" .
  then show ?thesis using assms(5) by (cases dbl) (auto simp: luhnDigit_def)
qed

lemma luhnSum_append:
  "luhnSum b (xs @ ys) = luhnSum b xs + luhnSum (if even (length xs) then b else \<not> b) ys"
  by (induction xs arbitrary: b) auto

lemma luhnSum_one_digit:
  assumes "0 \<le> a" "a \<le> 9" "0 \<le> b" "b \<le> 9" "a \<noteq> b" "luhnSum dbl (xs @ a # ys) mod 10 = 0"
  shows "luhnSum dbl (xs @ b # ys) mod 10 \<noteq> 0"
proof
  assume "luhnSum dbl (xs @ b # ys) mod 10 = 0"
  then have "(luhnSum dbl (xs @ a # ys) - luhnSum dbl (xs @ b # ys)) mod 10 = 0"
    using assms(6) by presburger
  moreover have "luhnSum dbl (xs @ a # ys) - luhnSum dbl (xs @ b # ys) =
      luhnDigit (if even (length xs) then dbl else \<not> dbl) a - luhnDigit (if even (length xs) then dbl else \<not> dbl) b"
    by (simp add: luhnSum_append)
  ultimately show False using luhnDigit_inj [OF assms(1-5)] by metis
qed

text \<open>
  The card check notices every mistyped digit: changing one digit of an accepted number to
  another digit gives a number that \<open>isValidCreditCard\<close> rejects.
\<close>

theorem luhn_detects_single_digit_error:
  assumes "isValidCreditCard (xs @ c # ys)" and "isDigitC c" and "isDigitC d" and "c \<noteq> d"
  shows "\<not> isValidCreditCard (xs @ d # ys)"
proof -
  let ?X = "rev (cardDigits ys)" and ?Y = "rev (cardDigits xs)"
  let ?v = "\<lambda>c. int (byte c) - 48"
  have rv: "rev (cardDigits (xs @ e # ys)) = ?X @ ?v e # ?Y" if "isDigitC e" for e
    using that by (simp add: cardDigits_def)
  have len: "length (cardDigits (xs @ c # ys)) = length (cardDigits (xs @ d # ys))"
    using assms(2,3) by (simp add: cardDigits_def)
  have "byte c \<noteq> byte d" using assms(4) by (metis char_of_byte)
  moreover have "luhnSum False (?X @ ?v c # ?Y) mod 10 = 0"
    using assms(1) rv [OF assms(2)] by (simp add: isValidCreditCard_def Let_def split: if_splits)
  ultimately have "luhnSum False (?X @ ?v d # ?Y) mod 10 \<noteq> 0"
    using assms(2,3) by (intro luhnSum_one_digit [of "?v c"]) (auto simp: isDigitC_def)
  then show ?thesis using rv [OF assms(3)] by (simp add: isValidCreditCard_def Let_def)
qed

theorem luhn_detects_single_digit_error_witness:
  "isValidCreditCard (''4111 1111 1111 111'' @ CHR ''1'' # '''') \<and>
   \<not> isValidCreditCard (''4111 1111 1111 111'' @ CHR ''2'' # '''')"
proof -
  have v: "isValidCreditCard (''4111 1111 1111 111'' @ CHR ''1'' # '''')"
    by (simp add: isValidCreditCard_def Let_def cardDigits_def isDigitC_def luhnDigit_def)
  show ?thesis
    using luhn_detects_single_digit_error [OF v, of "CHR ''2''"] v by (simp add: isDigitC_def)
qed

end
