(* ===== verification/McpText.thy ===== *)
theory McpText
  imports GoText Pii Json
begin

text \<open>
  \<open>internal/mcp/optimizer.go\<close>, \<open>redact.go\<close> and \<open>injection.go\<close>: what the proxy does
  with the text of messages. A rune is the byte string of its UTF-8 encoding; an invalid byte
  becomes the encoding of U+FFFD, as Go's conversions make it. Which runes outside ASCII are
  letters or digits is a parameter (\<open>uni\<close>, the tables of package \<open>unicode\<close>).
\<close>

section \<open>Runes\<close>

function runesOf :: "string \<Rightarrow> string list" where
  "runesOf s = (case s of [] \<Rightarrow> [] | c # cs \<Rightarrow>
     (case utf8Len s of
        None \<Rightarrow> [CHR 0xEF, CHR 0xBF, CHR 0xBD] # runesOf cs
      | Some n \<Rightarrow> take n s # runesOf (drop n s)))"
  by pat_completeness auto
termination
  by (relation "measure length") (auto dest: utf8Len_pos)

declare runesOf.simps [simp del]

lemma runesOf_Nil [simp]: "runesOf [] = []"
  by (subst runesOf.simps) simp

lemma runesOf_valid: "s \<noteq> [] \<Longrightarrow> utf8Len s = Some n \<Longrightarrow> runesOf s = take n s # runesOf (drop n s)"
  by (subst runesOf.simps) (auto split: list.splits)

lemma concat_runesOf: "validUtf8 s \<Longrightarrow> concat (runesOf s) = s"
proof (induction s rule: runesOf.induct)
  case (1 s)
  show ?case
  proof (cases s)
    case (Cons c cs)
    obtain n where n: "utf8Len s = Some n" "validUtf8 (drop n s)"
      using 1(3) Cons by (subst (asm) validUtf8.simps) (auto split: option.splits)
    have "concat (runesOf (drop n s)) = drop n s" using 1(2) [OF Cons n(1) n(2)] .
    then show ?thesis using runesOf_valid [OF _ n(1)] Cons by simp
  qed simp
qed

section \<open>Optimizer\<close>

abbreviation newline :: char where "newline \<equiv> CHR 0x0A"

fun itoaDigits :: "nat \<Rightarrow> string" where
  "itoaDigits n = (if n = 0 then [] else itoaDigits (n div 10) @ [char_of (48 + n mod 10)])"

declare itoaDigits.simps [simp del]

text \<open>A negative number prints as the empty string.\<close>

definition itoa :: "int \<Rightarrow> string" where
  "itoa n = (if n = 0 then ''0'' else if n > 0 then itoaDigits (nat n) else '''')"

lemma itoaDigits_showNat: "n \<noteq> 0 \<Longrightarrow> itoaDigits n = showNat n"
proof (induction n rule: itoaDigits.induct)
  case (1 n)
  then show ?case
    by (subst itoaDigits.simps, subst showNat.simps) (auto simp: itoaDigits.simps [of 0] div_eq_0_iff)
qed

function optLines :: "bool \<Rightarrow> string \<Rightarrow> string list \<Rightarrow> string" where
  "optLines started out [] = out"
| "optLines started out (line # ls) =
     (if length line < 10 then optLines True (out @ (if started then [newline] else []) @ line) ls
      else (let repeatCount = 1 + length (takeWhile (\<lambda>l. l = line) ls) in
        if 4 \<le> repeatCount
        then optLines True (out @ (if out \<noteq> [] then [newline] else []) @ line @ '' ['' @ itoa (int repeatCount) @ ''x repeated]'')
               (drop (repeatCount - 1) ls)
        else optLines True (out @ (if started then [newline] else []) @ line) ls))"
  by pat_completeness auto
termination
  by (relation "measure (\<lambda>(_, _, ls). length ls)") auto

definition isBase64char :: "(string \<Rightarrow> bool) \<Rightarrow> string \<Rightarrow> bool" where
  "isBase64char uni r = (case r of
     [c] \<Rightarrow> isDigitC c \<or> isAlphaC c \<or> c = CHR ''+'' \<or> c = CHR ''/'' \<or> c = CHR ''=''
   | _ \<Rightarrow> uni r)"

function pruneRuns :: "(string \<Rightarrow> bool) \<Rightarrow> string list \<Rightarrow> string \<times> bool" where
  "pruneRuns uni [] = ([], False)"
| "pruneRuns uni (r # rs) =
     (if isBase64char uni r then
        (let run = r # takeWhile (isBase64char uni) rs; (out, pruned) = pruneRuns uni (dropWhile (isBase64char uni) rs) in
         if 200 < length run then (''[LONG DATA: '' @ itoa (int (length run)) @ '' chars]'' @ out, True)
         else (concat run @ out, pruned))
      else (let (out, pruned) = pruneRuns uni rs in (r @ out, pruned)))"
  by pat_completeness auto
termination
  by (relation "measure (\<lambda>(_, rs). length rs)") (auto simp: length_dropWhile_le le_imp_less_Suc)

definition pruneLongBase64 :: "(string \<Rightarrow> bool) \<Rightarrow> string \<Rightarrow> string \<times> bool" where
  "pruneLongBase64 uni s = pruneRuns uni (runesOf s)"

fun collapseRunes :: "nat \<Rightarrow> string list \<Rightarrow> string" where
  "collapseRunes n [] = []"
| "collapseRunes n (r # rs) =
     (if r = [newline] then (if Suc n \<le> 2 then r else []) @ collapseRunes (Suc n) rs
      else r @ collapseRunes 0 rs)"

definition collapseBlankLines :: "string \<Rightarrow> string" where
  "collapseBlankLines s = collapseRunes 0 (runesOf s)"

record OptimizeResult =
  oPruned :: bool
  PrunedLen :: int
  Output :: string

definition OptimizeContext :: "(string \<Rightarrow> bool) \<Rightarrow> string \<Rightarrow> OptimizeResult" where
  "OptimizeContext uni content =
     (let (r1, pruned) = pruneLongBase64 uni (optLines False [] (splitOn newline content));
          result = collapseBlankLines r1 in
      if length result < length content \<or> pruned
      then \<lparr>oPruned = True, PrunedLen = int (length content) - int (length result), Output = result\<rparr>
      else \<lparr>oPruned = False, PrunedLen = 0, Output = result\<rparr>)"

section \<open>Redaction\<close>

text \<open>
  \<open>ReplaceAllString\<close>: leftmost matches, one after the other; the character before a
  position is that of the original text. None of the patterns matches the empty string.
\<close>

function replaceFrom :: "re \<Rightarrow> string \<Rightarrow> char option \<Rightarrow> string \<Rightarrow> string" where
  "replaceFrom r repl prev [] = []"
| "replaceFrom r repl prev (c # s) =
     (case matchRE r (prev, c # s) of
        [] \<Rightarrow> c # replaceFrom r repl (Some c) s
      | st # _ \<Rightarrow>
          if length (snd st) < length (c # s) then repl @ replaceFrom r repl (fst st) (snd st)
          else c # replaceFrom r repl (Some c) s)"
  by pat_completeness auto
termination
  by (relation "measure (\<lambda>(_, _, _, s). length s)") auto

definition replaceAll :: "re \<Rightarrow> string \<Rightarrow> string \<Rightarrow> string" where
  "replaceAll r repl s = replaceFrom r repl None s"

definition RedactPII :: "string \<Rightarrow> string" where
  "RedactPII s =
     replaceAll apiKeyRE ''[REDACTED_API_KEY]''
      (replaceAll ipRE ''[REDACTED_IP]''
      (replaceAll phoneRE ''[REDACTED_PHONE]''
      (replaceAll ccRE ''[REDACTED_CC]''
      (replaceAll ssnRE ''[REDACTED_SSN]''
      (replaceAll emailRE ''[REDACTED_EMAIL]'' s)))))"

section \<open>Injection patterns\<close>

text \<open>
  \<open>(?i)\<close> matches a letter in both cases, and \<open>s\<close> and \<open>k\<close> also as the long s
  (U+017F) and the Kelvin sign (U+212A), their Unicode case folds.
\<close>

definition lowerOf :: "char \<Rightarrow> char" where
  "lowerOf c = (if 65 \<le> byte c \<and> byte c \<le> 90 then char_of (byte c + 32) else c)"

definition litI :: "char \<Rightarrow> re" where
  "litI c = (let a = Cls (\<lambda>d. lowerOf d = lowerOf c) in
     if lowerOf c = CHR ''s'' then Alt a (Seq (lit (CHR 0xC5)) (lit (CHR 0xBF)))
     else if lowerOf c = CHR ''k'' then Alt a (Seq (lit (CHR 0xE2)) (Seq (lit (CHR 0x84)) (lit (CHR 0xAA))))
     else a)"

fun strI :: "string \<Rightarrow> re" where
  "strI [] = Rep 0 (Some 0) True Bnd"
| "strI [c] = litI c"
| "strI (c # s) = Seq (litI c) (strI s)"

fun altI :: "re list \<Rightarrow> re" where
  "altI [] = Cls (\<lambda>_. False)"
| "altI [r] = r"
| "altI (r # rs) = Alt r (altI rs)"

abbreviation wordsI :: "string list \<Rightarrow> re" where
  "wordsI ws \<equiv> altI (map strI ws)"

definition spaceC :: "char \<Rightarrow> bool" where
  "spaceC c \<longleftrightarrow> byte c \<in> {9, 10, 12, 13, 32}"

definition spaces :: re where
  "spaces = Rep 1 None True (Cls spaceC)"

definition systemOverrideRE :: re where
  "systemOverrideRE = Seq Bnd (Seq (wordsI [''ignore'', ''override'', ''disregard'', ''forget'', ''discard''])
     (Seq spaces (Seq (Rep 0 (Some 1) True (Seq (strI ''all'') spaces))
       (wordsI [''previous'', ''above'', ''prior'', ''system'', ''instructions'']))))"

definition delimiterBreakRE :: re where
  "delimiterBreakRE = wordsI [[CHR 0x22, CHR 0x22, CHR 0x22], ''---'', ''<|im_end|>'', ''<|im_start|>'', ''<|sys|>'',
     ''<|assistant|>'', ''<|user|>'', ''[INST]'', ''[/INST]'']"

definition roleInjectionRE :: re where
  "roleInjectionRE = Seq Bnd (Seq (wordsI [''from now on'', ''you are now'', ''act as'', ''pretend to be'',
     ''you will now'', ''your new role'', ''your new system'']) Bnd)"

definition dataExfilRE :: re where
  "dataExfilRE = altI [
     Seq (strI ''send'') (Seq spaces (Seq (wordsI [''this'', ''the'', ''all'']) (Seq spaces
       (Seq (wordsI [''data'', ''info'', ''file'', ''document''])
         (Alt (Seq spaces (strI ''to''))
              (Seq (strI ''to'') (Seq spaces (Seq (strI ''http'') (Rep 0 (Some 1) True (litI (CHR ''s'')))))))))) ),
     strI ''exfiltrate'',
     Seq (strI ''leak'') (Seq spaces (strI ''this''))]"

definition contextOverflowRE :: re where
  "contextOverflowRE = altI [
     Seq (strI ''repeat'') (Seq spaces (wordsI [''after'', ''this'', ''the'', ''above''])),
     Seq (strI ''say'') (Seq spaces (Seq (strI ''the'') (Seq spaces (strI ''word'')))),
     Seq (strI ''print'') (Seq spaces (Seq (strI ''the'') (Seq spaces (strI ''word''))))]"

definition payloadObfuscationRE :: re where
  "payloadObfuscationRE = (let gap = Rep 0 None True (Cls (\<lambda>c. spaceC c \<or> c = CHR ''_'')) in altI [
     strI ''base64'', Seq (strI ''hex'') (Seq gap (strI ''encode'')), strI ''rot13'', strI ''cipher'',
     Seq (strI ''encoded'') (Seq gap (strI ''string'')), strI ''obfuscated''])"

text \<open>\<open>None\<close>: nothing found.\<close>

definition CheckInjection :: "string \<Rightarrow> string option" where
  "CheckInjection content =
     (if matchString systemOverrideRE content then Some ''system_override''
      else if matchString delimiterBreakRE content then Some ''delimiter_break''
      else if matchString roleInjectionRE content then Some ''role_injection''
      else if matchString dataExfilRE content then Some ''data_exfiltration''
      else if matchString contextOverflowRE content then Some ''context_overflow''
      else if matchString payloadObfuscationRE content then Some ''payload_obfuscation''
      else None)"

section \<open>Newlines and runs\<close>

text \<open>
  \<open>nlOk k s\<close>: after \<open>k\<close> newlines, \<open>s\<close> never reaches a third newline in a row.
\<close>

fun nlOk :: "nat \<Rightarrow> string \<Rightarrow> bool" where
  "nlOk k [] = True"
| "nlOk k (c # s) = (if c = newline then k < 2 \<and> nlOk (Suc k) s else nlOk 0 s)"

lemma nlOk_mono: "nlOk k s \<Longrightarrow> j \<le> k \<Longrightarrow> nlOk j s"
  by (induction s arbitrary: j k) auto

lemma nlOk_no_triple: "nlOk k s \<Longrightarrow> \<not> containsSub s [newline, newline, newline]"
proof (induction s arbitrary: k)
  case (Cons c s)
  have "\<not> hasPrefix (c # s) [newline, newline, newline]"
  proof
    assume "hasPrefix (c # s) [newline, newline, newline]"
    then obtain t where "c # s = newline # newline # newline # t"
      by (auto simp: hasPrefix_def) (metis append_Cons append_Nil append_take_drop_id)
    then show False using Cons.prems by auto
  qed
  moreover have "\<exists>j. nlOk j s" using Cons.prems by (auto split: if_splits)
  ultimately show ?case using Cons.IH by auto
qed simp

lemma nlOk_rune: "newline \<notin> set r \<Longrightarrow> r \<noteq> [] \<Longrightarrow> nlOk k (r @ s) = nlOk 0 s"
proof (induction r arbitrary: k)
  case (Cons c r)
  then show ?case by (cases "r = []") auto
qed simp

definition rune_ok :: "string \<Rightarrow> bool" where
  "rune_ok r \<longleftrightarrow> r = [newline] \<or> (newline \<notin> set r \<and> r \<noteq> [])"

lemma utf8Len_newline: "utf8Len s = Some n \<Longrightarrow> rune_ok (take n s)"
  by (cases s) (auto simp: utf8Len.simps rune_ok_def cont_def Let_def take_Cons' split: if_splits list.splits)

lemma runesOf_ok: "r \<in> set (runesOf s) \<Longrightarrow> rune_ok r"
proof (induction s rule: runesOf.induct)
  case (1 s)
  show ?case
  proof (cases s)
    case (Cons c cs)
    show ?thesis
    proof (cases "utf8Len s")
      case None
      then have "runesOf s = [CHR 0xEF, CHR 0xBF, CHR 0xBD] # runesOf cs"
        using Cons by (subst runesOf.simps) simp
      then show ?thesis using 1(1) [OF Cons None] 1(3) by (auto simp: rune_ok_def)
    next
      case (Some n)
      then show ?thesis
        using 1(2) [OF Cons Some] 1(3) runesOf_valid [OF _ Some] Cons utf8Len_newline [OF Some] by auto
    qed
  qed (use 1(3) in simp)
qed

lemma collapseRunes_nlOk: "\<forall>r\<in>set rs. rune_ok r \<Longrightarrow> nlOk (min n 2) (collapseRunes n rs)"
proof (induction rs arbitrary: n)
  case (Cons r rs)
  show ?case
  proof (cases "r = [newline]")
    case True
    have "nlOk (min (Suc n) 2) (collapseRunes (Suc n) rs)" using Cons.IH [of "Suc n"] Cons.prems by auto
    then show ?thesis using True by (cases "n < 2") (auto simp: min_def numeral_2_eq_2 le_Suc_eq not_less)
  next
    case False
    then have "newline \<notin> set r" "r \<noteq> []" using Cons.prems by (auto simp: rune_ok_def)
    moreover have "nlOk 0 (collapseRunes 0 rs)" using Cons.IH [of 0] Cons.prems by simp
    ultimately show ?thesis using False nlOk_rune by simp
  qed
qed simp

lemma collapseRunes_id: "\<forall>r\<in>set rs. rune_ok r \<Longrightarrow> nlOk n (concat rs) \<Longrightarrow> collapseRunes n rs = concat rs"
proof (induction rs arbitrary: n)
  case (Cons r rs)
  show ?case
  proof (cases "r = [newline]")
    case True
    then show ?thesis using Cons by auto
  next
    case False
    then have "newline \<notin> set r" "r \<noteq> []" using Cons.prems by (auto simp: rune_ok_def)
    then show ?thesis using False Cons nlOk_rune by simp
  qed
qed simp

text \<open>\<open>shortRuns\<close>: no run of base64-like runes is longer than 200.\<close>

fun shortRuns :: "(string \<Rightarrow> bool) \<Rightarrow> nat \<Rightarrow> string list \<Rightarrow> bool" where
  "shortRuns uni n [] = True"
| "shortRuns uni n (r # rs) = (if isBase64char uni r then Suc n \<le> 200 \<and> shortRuns uni (Suc n) rs else shortRuns uni 0 rs)"

lemma shortRuns_run:
  "shortRuns uni n rs \<Longrightarrow> n \<le> 200 \<Longrightarrow> n + length (takeWhile (isBase64char uni) rs) \<le> 200 \<and>
     shortRuns uni 0 (dropWhile (isBase64char uni) rs)"
proof (induction rs arbitrary: n)
  case (Cons r rs)
  then show ?case using Cons.IH [of "Suc n"] by (auto split: if_splits)
qed simp

lemma pruneRuns_id: "shortRuns uni 0 rs \<Longrightarrow> pruneRuns uni rs = (concat rs, False)"
proof (induction uni rs rule: pruneRuns.induct)
  case (2 uni r rs)
  show ?case
  proof (cases "isBase64char uni r")
    case True
    let ?tw = "takeWhile (isBase64char uni) rs" and ?dw = "dropWhile (isBase64char uni) rs"
    have "shortRuns uni 1 rs" using 2(3) True by simp
    then have s: "1 + length ?tw \<le> 200" "shortRuns uni 0 ?dw" using shortRuns_run [of uni 1 rs] by auto
    have "pruneRuns uni ?dw = (concat ?dw, False)" using 2(1) [OF True refl s(2)] .
    moreover have "concat rs = concat ?tw @ concat ?dw"
      by (metis concat_append takeWhile_dropWhile_id)
    ultimately show ?thesis using True s(1) by simp
  next
    case False
    then show ?thesis using 2 by simp
  qed
qed simp

text \<open>\<open>noRepeats\<close>: no line of ten bytes or more occurs four times in a row.\<close>

fun noRepeats :: "string list \<Rightarrow> bool" where
  "noRepeats [] = True"
| "noRepeats (l # ls) = ((length l < 10 \<or> length (takeWhile (\<lambda>x. x = l) ls) < 3) \<and> noRepeats ls)"

lemma optLines_started: "noRepeats ls \<Longrightarrow> optLines True out ls = out @ concat (map (Cons newline) ls)"
proof (induction ls arbitrary: out)
  case (Cons l ls)
  then show ?case by (cases "length l < 10") (auto simp: Let_def)
qed simp

lemma optLines_first: "noRepeats (l # ls) \<Longrightarrow> optLines False [] (l # ls) = l @ concat (map (Cons newline) ls)"
  by (cases "length l < 10") (auto simp: Let_def optLines_started)

lemma splitOn_join: "splitOn sep s = l # ls \<Longrightarrow> l @ concat (map (Cons sep) ls) = s"
proof (induction s arbitrary: l ls)
  case (Cons c s)
  obtain x xs where x: "splitOn sep s = x # xs" using splitOn_not_Nil [of sep s] by (cases "splitOn sep s") auto
  from Cons.IH [OF x] show ?case using Cons.prems x by (cases "c = sep") (auto simp: x)
qed simp

section \<open>Properties\<close>

text \<open>
  The optimizer leaves ordinary text alone. Valid UTF-8 in which no long line occurs four
  times in a row, no base64-like run exceeds 200 characters and no three newlines follow each
  other is returned byte for byte, and reported as not pruned.
\<close>

theorem optimize_identity:
  assumes "validUtf8 content" and "noRepeats (splitOn newline content)"
    and "shortRuns uni 0 (runesOf content)" and "nlOk 0 content"
  shows "OptimizeContext uni content = \<lparr>oPruned = False, PrunedLen = 0, Output = content\<rparr>"
proof -
  obtain l ls where sp: "splitOn newline content = l # ls" using splitOn_not_Nil [of newline content] by (cases "splitOn newline content") auto
  have "optLines False [] (splitOn newline content) = content"
    using optLines_first [of l ls] assms(2) splitOn_join [OF sp] sp by simp
  moreover have "pruneLongBase64 uni content = (content, False)"
    using pruneRuns_id [OF assms(3)] concat_runesOf [OF assms(1)] by (simp add: pruneLongBase64_def)
  moreover have "collapseBlankLines content = content"
    using collapseRunes_id [of "runesOf content" 0] runesOf_ok assms(4) concat_runesOf [OF assms(1)]
    by (auto simp: collapseBlankLines_def)
  ultimately show ?thesis by (simp add: OptimizeContext_def)
qed

text \<open>
  Whatever the input, the optimizer's output never has three newlines in a row.
\<close>

theorem optimize_no_blank_runs: "\<not> containsSub (Output (OptimizeContext uni content)) [newline, newline, newline]"
proof -
  have "nlOk 0 (collapseBlankLines s)" for s
    using collapseRunes_nlOk [of "runesOf s" 0] runesOf_ok by (auto simp: collapseBlankLines_def)
  then show ?thesis using nlOk_no_triple by (auto simp: OptimizeContext_def Let_def split: prod.splits)
qed

theorem optimize_identity_witness:
  "OptimizeContext (\<lambda>_. False) ''ab c'' = \<lparr>oPruned = False, PrunedLen = 0, Output = ''ab c''\<rparr>"
proof (rule optimize_identity)
  show "validUtf8 ''ab c''" by (rule validUtf8_ascii) simp
  have "runesOf ''ab c'' = [''a'', ''b'', '' '', ''c'']"
    by (simp add: runesOf_valid [where n = 1])
  then show "shortRuns (\<lambda>_. False) 0 (runesOf ''ab c'')" by (simp add: isBase64char_def)
qed simp_all

end
