(* ===== verification/McpSafety.thy ===== *)
theory McpSafety
  imports Prelude
begin

text \<open>
  \<open>internal/mcp/safety.go\<close>: the per-client rate limiter and token budget. Times are
  nanoseconds, a map is an association list with at most one entry per key (so that its length
  is \<open>len\<close>), and the clock readings of a call are arguments. Counters are Go's 64-bit \<open>int\<close>:
  sums wrap. The refill, which the source computes as
  \<open>int(elapsed.Minutes() * float64(perMin))\<close> in floating point, is a parameter.
\<close>

section \<open>Maps as association lists\<close>

fun put :: "'k \<Rightarrow> 'v \<Rightarrow> ('k \<times> 'v) list \<Rightarrow> ('k \<times> 'v) list" where
  "put k v [] = [(k, v)]"
| "put k v ((k', v') # m) = (if k' = k then (k, v) # m else (k', v') # put k v m)"

lemma map_of_put [table_simps]: "map_of (put k v m) = (map_of m)(k \<mapsto> v)"
  by (induction m) auto

lemma map_of_filter_None:
  "map_of (filter P m) k = Some v \<Longrightarrow> distinct (map fst m) \<Longrightarrow> map_of m k = Some v"
  by (auto simp: map_of_eq_Some_iff distinct_map_filter)

lemma keys_put: "fst ` set (put k v m) = insert k (fst ` set m)"
proof (induction m)
  case (Cons a m)
  then show ?case by (cases a; cases "fst a = k") auto
qed simp

lemma distinct_put: "distinct (map fst m) \<Longrightarrow> distinct (map fst (put k v m))"
proof (induction m)
  case (Cons a m)
  then show ?case using keys_put [of k v m] by (cases a) (auto simp flip: set_map)
qed simp

lemma list_all_put: "list_all P m \<Longrightarrow> P (k, v) \<Longrightarrow> list_all P (put k v m)"
  by (induction m) auto

lemma list_all_map_of: "list_all P m \<Longrightarrow> map_of m k = Some v \<Longrightarrow> P (k, v)"
  by (induction m) (auto split: if_splits)

lemma list_all_filter: "list_all P m \<Longrightarrow> list_all P (filter Q m)"
  by (simp add: list_all_iff)

declare map_of_eq_Some_iff [simp del]

definition fiveMinutes :: int where
  "fiveMinutes = 5 * 60 * 1000000000"

definition minuteNS :: int where
  "minuteNS = 60 * 1000000000"

section \<open>Rate limiter\<close>

record tokenBucket =
  tokens :: int
  last :: int

record RateLimiter =
  perMin :: int
  buckets :: "(string \<times> tokenBucket) list"

definition NewRateLimiter :: "int \<Rightarrow> RateLimiter" where
  "NewRateLimiter n = \<lparr>perMin = n, buckets = []\<rparr>"

definition rlPrune :: "int \<Rightarrow> RateLimiter \<Rightarrow> RateLimiter" where
  "rlPrune now rl = rl\<lparr>buckets := filter (\<lambda>(k, b). \<not> last b < now - fiveMinutes) (buckets rl)\<rparr>"

text \<open>\<open>Time.Sub\<close> saturates at the ends of the range of a \<open>Duration\<close>.\<close>

definition subTime :: "int \<Rightarrow> int \<Rightarrow> i64" where
  "subTime a b = max (- (2 ^ 63)) (min (2 ^ 63 - 1) (a - b))"

definition refillBucket :: "(int \<Rightarrow> int \<Rightarrow> int) \<Rightarrow> int \<Rightarrow> int \<Rightarrow> tokenBucket \<Rightarrow> tokenBucket" where
  "refillBucket refillOf now n b =
     (let elapsed = subTime now (last b); refill = refillOf elapsed n in
      if refill > 0 then \<lparr>tokens = min (wrap64 (tokens b + refill)) n, last = now\<rparr> else b)"

text \<open>\<open>t0\<close> is the clock reading of the pruning, \<open>now\<close> that of the call itself.\<close>

definition rlAllow :: "(int \<Rightarrow> int \<Rightarrow> int) \<Rightarrow> int \<Rightarrow> int \<Rightarrow> string \<Rightarrow> RateLimiter \<Rightarrow> bool \<times> RateLimiter" where
  "rlAllow refillOf t0 now key rl =
     (if perMin rl \<le> 0 then (True, rl)
      else (let rl1 = (if length (buckets rl) > 1000 \<and> length (buckets rl) mod 64 = 0 then rlPrune t0 rl else rl);
                b = (case map_of (buckets rl1) key of Some b \<Rightarrow> b | None \<Rightarrow> \<lparr>tokens = perMin rl, last = now\<rparr>);
                b1 = refillBucket refillOf now (perMin rl) b
            in if tokens b1 \<le> 0 then (False, rl1\<lparr>buckets := put key b1 (buckets rl1)\<rparr>)
               else (True, rl1\<lparr>buckets := put key (b1\<lparr>tokens := tokens b1 - 1\<rparr>) (buckets rl1)\<rparr>)))"

text \<open>
  What is used of the floating-point refill, for limits up to \<open>maxRate\<close> (which a \<open>float64\<close> holds
  exactly) and any duration: none for no time, at least a full bucket for five minutes or more, and
  never more than \<open>2 ^ 62\<close>, since the longest duration has fewer than \<open>2 ^ 28\<close> minutes.
\<close>

definition maxRate :: int where
  "maxRate = 2 ^ 31"

definition refill_ok :: "(int \<Rightarrow> int \<Rightarrow> int) \<Rightarrow> bool" where
  "refill_ok refillOf \<longleftrightarrow> (\<forall>p. 0 < p \<longrightarrow> p \<le> maxRate \<longrightarrow> refillOf 0 p = 0 \<and>
     (\<forall>e. in_i64 e \<longrightarrow> refillOf e p \<le> 2 ^ 62) \<and> (\<forall>e. in_i64 e \<longrightarrow> fiveMinutes \<le> e \<longrightarrow> p \<le> refillOf e p))"

lemma subTime_range: "in_i64 (subTime a b)"
  by (simp add: subTime_def in_i64_def)

lemma subTime_same [simp]: "subTime a a = 0"
  by (simp add: subTime_def)

lemma refill_sum:
  assumes "refill_ok r" "0 < n" "n \<le> maxRate" "0 \<le> tokens b" "tokens b \<le> n" "0 < r (subTime now (last b)) n"
  shows "wrap64 (tokens b + r (subTime now (last b)) n) = tokens b + r (subTime now (last b)) n"
proof (rule wrap64_id)
  have "r (subTime now (last b)) n \<le> 2 ^ 62" using assms(1-3) subTime_range by (auto simp: refill_ok_def)
  then show "in_i64 (tokens b + r (subTime now (last b)) n)" using assms(3-6) by (simp add: in_i64_def maxRate_def)
qed

lemma refillBucket_bounds:
  assumes "refill_ok r" "0 < n" "n \<le> maxRate" "0 \<le> tokens b" "tokens b \<le> n"
  shows "0 \<le> tokens (refillBucket r now n b)" "tokens (refillBucket r now n b) \<le> n"
  using refill_sum [OF assms, of now] assms(2,4,5) by (auto simp: refillBucket_def Let_def)

lemma refillBucket_twice:
  assumes "refill_ok r" "0 < n" "n \<le> maxRate" and "b' = (refillBucket r now n b)\<lparr>tokens := x\<rparr>"
  shows "refillBucket r now n b' = b'"
proof -
  have "r 0 n = 0" using assms(1-3) by (simp add: refill_ok_def)
  then show ?thesis by (auto simp: assms(4) refillBucket_def Let_def)
qed

lemma refillBucket_new:
  assumes "refill_ok r" "0 < n" "n \<le> maxRate"
  shows "refillBucket r now n \<lparr>tokens = k, last = now\<rparr> = \<lparr>tokens = k, last = now\<rparr>"
  using assms by (simp add: refillBucket_def refill_ok_def Let_def)

lemma refillBucket_stale:
  assumes "refill_ok r" "0 < n" "n \<le> maxRate" "0 \<le> tokens b" "tokens b \<le> n" "last b < now - fiveMinutes"
  shows "tokens (refillBucket r now n b) = n"
proof -
  have "fiveMinutes \<le> subTime now (last b)" using assms(6) by (simp add: subTime_def fiveMinutes_def)
  then have "n \<le> r (subTime now (last b)) n" using assms(1-3) subTime_range by (auto simp: refill_ok_def)
  then show ?thesis using refill_sum [OF assms(1-5), of now] assms(2,4) by (simp add: refillBucket_def Let_def)
qed

definition rl_inv :: "RateLimiter \<Rightarrow> bool" where
  "rl_inv rl \<longleftrightarrow> distinct (map fst (buckets rl)) \<and>
     (perMin rl > 0 \<longrightarrow> list_all (\<lambda>(k, b). 0 \<le> tokens b \<and> tokens b \<le> perMin rl) (buckets rl)) \<and> perMin rl \<le> maxRate"

lemma rlPrune_inv: "rl_inv rl \<Longrightarrow> rl_inv (rlPrune t rl)"
  by (auto simp: rl_inv_def rlPrune_def distinct_map_filter list_all_filter)

lemma rlAllow_inv:
  assumes "rl_inv rl" and "refill_ok refillOf"
  shows "rl_inv (snd (rlAllow refillOf t0 now key rl))" "perMin (snd (rlAllow refillOf t0 now key rl)) = perMin rl"
proof -
  let ?rl1 = "if length (buckets rl) > 1000 \<and> length (buckets rl) mod 64 = 0 then rlPrune t0 rl else rl"
  have i: "rl_inv ?rl1" and p: "perMin ?rl1 = perMin rl"
    using assms(1) rlPrune_inv by (auto simp: rlPrune_def)
  show "rl_inv (snd (rlAllow refillOf t0 now key rl))"
  proof (cases "perMin rl \<le> 0")
    case True
    then show ?thesis using assms by (simp add: rlAllow_def)
  next
    case False
    define b where "b = (case map_of (buckets ?rl1) key of Some b \<Rightarrow> b | None \<Rightarrow> \<lparr>tokens = perMin rl, last = now\<rparr>)"
    have b: "0 \<le> tokens b" "tokens b \<le> perMin rl"
      using i p False unfolding b_def rl_inv_def by (auto split: option.splits dest: list_all_map_of)
    define b1 where "b1 = refillBucket refillOf now (perMin rl) b"
    have b1: "0 \<le> tokens b1" "tokens b1 \<le> perMin rl"
      using refillBucket_bounds [OF assms(2) _ _ b] False assms(1) by (simp_all add: b1_def rl_inv_def)
    have "rlAllow refillOf t0 now key rl = (if tokens b1 \<le> 0 then (False, ?rl1\<lparr>buckets := put key b1 (buckets ?rl1)\<rparr>)
      else (True, ?rl1\<lparr>buckets := put key (b1\<lparr>tokens := tokens b1 - 1\<rparr>) (buckets ?rl1)\<rparr>))"
      using False unfolding rlAllow_def b_def [symmetric] b1_def [symmetric] Let_def by simp
    then show ?thesis
      using i p b1 unfolding rl_inv_def by (simp add: distinct_put list_all_put)
  qed
  show "perMin (snd (rlAllow refillOf t0 now key rl)) = perMin rl"
    using p by (simp add: rlAllow_def Let_def)
qed

section \<open>Token budget\<close>

record agentUsage =
  used :: int
  resetAt :: int

record TokenBudget =
  maxTokens :: int
  usage :: "(string \<times> agentUsage) list"

definition NewTokenBudget :: "int \<Rightarrow> TokenBudget" where
  "NewTokenBudget n = \<lparr>maxTokens = n, usage = []\<rparr>"

definition tbPrune :: "int \<Rightarrow> TokenBudget \<Rightarrow> TokenBudget" where
  "tbPrune now tb = tb\<lparr>usage := filter (\<lambda>(k, u). \<not> resetAt u < now - fiveMinutes) (usage tb)\<rparr>"

definition tbAllow :: "int \<Rightarrow> int \<Rightarrow> string \<Rightarrow> int \<Rightarrow> TokenBudget \<Rightarrow> bool \<times> TokenBudget" where
  "tbAllow t0 now key toks tb =
     (if maxTokens tb \<le> 0 then (True, tb)
      else (let tb1 = (if length (usage tb) > 1000 \<and> length (usage tb) mod 64 = 0 then tbPrune t0 tb else tb);
                (u, tb2) = (case map_of (usage tb1) key of
                    Some u \<Rightarrow> if now > resetAt u
                      then (let v = \<lparr>used = 0, resetAt = now + minuteNS\<rparr> in (v, tb1\<lparr>usage := put key v (usage tb1)\<rparr>))
                      else (u, tb1)
                  | None \<Rightarrow> (let v = \<lparr>used = 0, resetAt = now + minuteNS\<rparr> in (v, tb1\<lparr>usage := put key v (usage tb1)\<rparr>)))
            in if wrap64 (used u + toks) > maxTokens tb then (False, tb2)
               else (True, tb2\<lparr>usage := put key (u\<lparr>used := wrap64 (used u + toks)\<rparr>) (usage tb2)\<rparr>)))"

definition tbRemaining :: "int \<Rightarrow> string \<Rightarrow> TokenBudget \<Rightarrow> int" where
  "tbRemaining now key tb = (case map_of (usage tb) key of
     None \<Rightarrow> maxTokens tb
   | Some u \<Rightarrow> if now > resetAt u then maxTokens tb
       else let remaining = wrap64 (maxTokens tb - used u) in if remaining < 0 then 0 else remaining)"

text \<open>Budgets and requests up to \<open>maxToks\<close>: their sum does not wrap.\<close>

definition maxToks :: int where
  "maxToks = 2 ^ 62"

definition tb_inv :: "TokenBudget \<Rightarrow> bool" where
  "tb_inv tb \<longleftrightarrow> distinct (map fst (usage tb)) \<and>
     (maxTokens tb > 0 \<longrightarrow> list_all (\<lambda>(k, u). 0 \<le> used u \<and> used u \<le> maxTokens tb) (usage tb)) \<and> maxTokens tb < maxToks"

lemma tb_sum:
  "0 \<le> x \<Longrightarrow> x \<le> maxTokens tb \<Longrightarrow> maxTokens tb < maxToks \<Longrightarrow> 0 \<le> y \<Longrightarrow> y \<le> maxToks \<Longrightarrow> wrap64 (x + y) = x + y"
  by (rule wrap64_id) (simp add: in_i64_def maxToks_def)

lemma tbPrune_inv: "tb_inv tb \<Longrightarrow> tb_inv (tbPrune t tb)"
  by (auto simp: tb_inv_def tbPrune_def distinct_map_filter list_all_filter)

text \<open>
  The entry a call works on: the current window's, or a new one. Pruning drops only entries
  whose window is over, so it does not change what a later reading of the clock finds.
\<close>

definition tbEntry :: "int \<Rightarrow> string \<Rightarrow> TokenBudget \<Rightarrow> agentUsage" where
  "tbEntry now key tb = (case map_of (usage tb) key of
     Some u \<Rightarrow> if now > resetAt u then \<lparr>used = 0, resetAt = now + minuteNS\<rparr> else u
   | None \<Rightarrow> \<lparr>used = 0, resetAt = now + minuteNS\<rparr>)"

lemma map_of_filter_Some:
  "distinct (map fst m) \<Longrightarrow> map_of m k = Some v \<Longrightarrow> P (k, v) \<Longrightarrow> map_of (filter P m) k = Some v"
  by (auto simp: map_of_eq_Some_iff distinct_map_filter)

lemma map_of_filter_drop:
  "distinct (map fst m) \<Longrightarrow> map_of m k = Some v \<Longrightarrow> \<not> P (k, v) \<Longrightarrow> map_of (filter P m) k = None"
  by (induction m) (auto split: if_splits simp: map_of_eq_None_iff image_iff)

lemma map_of_filter_absent: "map_of m k = None \<Longrightarrow> map_of (filter P m) k = None"
  by (auto simp: map_of_eq_None_iff)

lemma tbEntry_prune:
  assumes "tb_inv tb" and "t0 \<le> now"
  shows "tbEntry now key (tbPrune t0 tb) = tbEntry now key tb"
proof (cases "map_of (usage tb) key")
  case None
  then show ?thesis by (simp add: tbEntry_def tbPrune_def map_of_filter_absent)
next
  case (Some u)
  have d: "distinct (map fst (usage tb))" using assms(1) by (simp add: tb_inv_def)
  let ?P = "\<lambda>(k, u). \<not> resetAt u < t0 - fiveMinutes"
  show ?thesis
  proof (cases "resetAt u < t0 - fiveMinutes")
    case True
    then have "now > resetAt u" using assms(2) by (simp add: fiveMinutes_def)
    then show ?thesis using Some map_of_filter_drop [OF d Some, of ?P] True by (simp add: tbEntry_def tbPrune_def)
  next
    case False
    then show ?thesis using Some map_of_filter_Some [OF d Some, of ?P] by (simp add: tbEntry_def tbPrune_def)
  qed
qed

lemma tbRemaining_prune:
  assumes "tb_inv tb" and "t0 \<le> now"
  shows "tbRemaining now key (tbPrune t0 tb) = tbRemaining now key tb"
proof (cases "map_of (usage tb) key")
  case None
  then show ?thesis by (simp add: tbRemaining_def tbPrune_def map_of_filter_absent)
next
  case (Some u)
  have d: "distinct (map fst (usage tb))" using assms(1) by (simp add: tb_inv_def)
  let ?P = "\<lambda>(k, u). \<not> resetAt u < t0 - fiveMinutes"
  show ?thesis
  proof (cases "resetAt u < t0 - fiveMinutes")
    case True
    then have "now > resetAt u" using assms(2) by (simp add: fiveMinutes_def)
    then show ?thesis using Some map_of_filter_drop [OF d Some, of ?P] True by (simp add: tbRemaining_def tbPrune_def)
  next
    case False
    then show ?thesis using Some map_of_filter_Some [OF d Some, of ?P] by (simp add: tbRemaining_def tbPrune_def)
  qed
qed

lemma tbRemaining_put: "k \<noteq> key \<Longrightarrow> tbRemaining now k (tb\<lparr>usage := put key u m\<rparr>) = tbRemaining now k (tb\<lparr>usage := m\<rparr>)"
  by (simp add: tbRemaining_def table_simps split: option.splits)

lemma tbAllow_eq:
  assumes "tb_inv tb" and "t0 \<le> now" and "maxTokens tb > 0"
  obtains m where "tbAllow t0 now key toks tb =
      (if wrap64 (used (tbEntry now key tb) + toks) > maxTokens tb then (False, tb\<lparr>usage := m\<rparr>)
       else (True, tb\<lparr>usage := put key ((tbEntry now key tb)\<lparr>used := wrap64 (used (tbEntry now key tb) + toks)\<rparr>) m\<rparr>))"
    "map_of m key = Some (tbEntry now key tb)" "tb_inv (tb\<lparr>usage := m\<rparr>)"
    "\<And>k. k \<noteq> key \<Longrightarrow> tbRemaining now k (tb\<lparr>usage := m\<rparr>) = tbRemaining now k tb"
proof -
  define tb1 where "tb1 = (if length (usage tb) > 1000 \<and> length (usage tb) mod 64 = 0 then tbPrune t0 tb else tb)"
  have i1: "tb_inv tb1" and e1: "tbEntry now key tb1 = tbEntry now key tb" and mx: "maxTokens tb1 = maxTokens tb"
    using assms tbPrune_inv tbEntry_prune by (auto simp: tb1_def tbPrune_def)
  have t1: "tb1 = tb\<lparr>usage := usage tb1\<rparr>" by (simp add: tb1_def tbPrune_def)
  have oth: "tbRemaining now k (tb\<lparr>usage := usage tb1\<rparr>) = tbRemaining now k tb" for k
    using tbRemaining_prune [OF assms(1,2), of k] t1 by (metis tb1_def)
  let ?e = "tbEntry now key tb"
  define m where "m = (case map_of (usage tb1) key of Some u \<Rightarrow> if now > resetAt u then put key ?e (usage tb1) else usage tb1
      | None \<Rightarrow> put key ?e (usage tb1))"
  have al: "tbAllow t0 now key toks tb =
      (if wrap64 (used ?e + toks) > maxTokens tb then (False, tb1\<lparr>usage := m\<rparr>)
       else (True, tb1\<lparr>usage := put key (?e\<lparr>used := wrap64 (used ?e + toks)\<rparr>) m\<rparr>))"
    using assms(3) unfolding tbAllow_def tb1_def [symmetric] e1 [symmetric] m_def
    by (auto simp: Let_def tbEntry_def split: option.splits)
  have u: "tb1\<lparr>usage := x\<rparr> = tb\<lparr>usage := x\<rparr>" for x using t1 by (metis TokenBudget.surjective TokenBudget.update_convs(2))
  have me: "map_of m key = Some ?e"
    unfolding m_def e1 [symmetric] by (auto simp: tbEntry_def table_simps split: option.splits)
  have "used ?e \<ge> 0 \<and> used ?e \<le> maxTokens tb"
    using assms(1,3) by (auto simp: tbEntry_def tb_inv_def split: option.splits dest: list_all_map_of)
  then have "tb_inv (tb\<lparr>usage := m\<rparr>)"
    using i1 mx unfolding m_def tb_inv_def by (simp add: distinct_put list_all_put split: option.splits)
  moreover have "k \<noteq> key \<Longrightarrow> tbRemaining now k (tb\<lparr>usage := m\<rparr>) = tbRemaining now k tb" for k
    using oth [of k] unfolding m_def by (simp add: tbRemaining_put split: option.splits)
  ultimately show thesis using al me unfolding u by (intro that [of m])
qed

lemma tbRemaining_entry:
  assumes "tb_inv tb" and "maxTokens tb > 0"
  shows "tbRemaining now key tb = maxTokens tb - used (tbEntry now key tb)"
proof (cases "map_of (usage tb) key")
  case (Some u)
  have "0 \<le> used u \<and> used u \<le> maxTokens tb"
    using assms list_all_map_of [OF _ Some] by (fastforce simp: tb_inv_def)
  moreover have "wrap64 (maxTokens tb - used u) = maxTokens tb - used u" if "0 \<le> used u \<and> used u \<le> maxTokens tb"
    using that assms(1) by (intro wrap64_id) (auto simp: in_i64_def tb_inv_def maxToks_def)
  ultimately show ?thesis using Some by (auto simp: tbRemaining_def tbEntry_def Let_def)
qed (simp add: tbRemaining_def tbEntry_def)

lemma tbAllow_inv:
  assumes "tb_inv tb" and "t0 \<le> now" and "0 \<le> toks" and "toks \<le> maxToks"
  shows "tb_inv (snd (tbAllow t0 now key toks tb))"
proof (cases "maxTokens tb > 0")
  case True
  obtain m where m: "tbAllow t0 now key toks tb =
      (if wrap64 (used (tbEntry now key tb) + toks) > maxTokens tb then (False, tb\<lparr>usage := m\<rparr>)
       else (True, tb\<lparr>usage := put key ((tbEntry now key tb)\<lparr>used := wrap64 (used (tbEntry now key tb) + toks)\<rparr>) m\<rparr>))"
    "map_of m key = Some (tbEntry now key tb)" "tb_inv (tb\<lparr>usage := m\<rparr>)"
    by (rule tbAllow_eq [OF assms(1,2) True])
  have e: "0 \<le> used (tbEntry now key tb)" "used (tbEntry now key tb) \<le> maxTokens tb"
    using m(2,3) True list_all_map_of [OF _ m(2)] by (fastforce simp: tb_inv_def)+
  have "wrap64 (used (tbEntry now key tb) + toks) = used (tbEntry now key tb) + toks"
    using tb_sum [OF e] assms by (simp add: tb_inv_def)
  then show ?thesis using m(1,3) assms(3) e(1) by (auto simp: tb_inv_def distinct_put list_all_put)
next
  case False
  then show ?thesis using assms(1) by (simp add: tbAllow_def)
qed

section \<open>Both limiters as machines\<close>

type_synonym rl_call = "int \<times> int \<times> string"
type_synonym tb_call = "int \<times> int \<times> string \<times> int"

definition rlStep :: "(int \<Rightarrow> int \<Rightarrow> int) \<Rightarrow> RateLimiter \<Rightarrow> rl_call \<Rightarrow> RateLimiter" where
  "rlStep refillOf rl c = (case c of (t0, now, key) \<Rightarrow> snd (rlAllow refillOf t0 now key rl))"

definition tbStep :: "TokenBudget \<Rightarrow> tb_call \<Rightarrow> TokenBudget" where
  "tbStep tb c = (case c of (t0, now, key, toks) \<Rightarrow> snd (tbAllow t0 now key toks tb))"

definition tbCallOk :: "tb_call \<Rightarrow> bool" where
  "tbCallOk c = (case c of (t0, now, key, toks) \<Rightarrow> t0 \<le> now \<and> 0 \<le> toks \<and> toks \<le> maxToks)"

interpretation rlSys: inv_system "rlStep refillOf" "\<lambda>_. True" "\<lambda>rl. refill_ok refillOf \<and> rl_inv rl" for refillOf
  by unfold_locales (auto simp: rlStep_def rlAllow_inv split: prod.splits)

interpretation tbSys: inv_system tbStep tbCallOk tb_inv
  by unfold_locales (auto simp: tbStep_def tbCallOk_def tbAllow_inv split: prod.splits)

section \<open>What is left for a client\<close>

definition avail :: "(int \<Rightarrow> int \<Rightarrow> int) \<Rightarrow> int \<Rightarrow> string \<Rightarrow> RateLimiter \<Rightarrow> int" where
  "avail refillOf now key rl = (case map_of (buckets rl) key of
     None \<Rightarrow> perMin rl
   | Some b \<Rightarrow> tokens (refillBucket refillOf now (perMin rl) b))"

lemma bucket_bounds:
  assumes "rl_inv rl" "perMin rl > 0" "map_of (buckets rl) key = Some b"
  shows "0 \<le> tokens b" "tokens b \<le> perMin rl"
  using assms list_all_map_of [OF _ assms(3)] by (auto simp: rl_inv_def)

lemma avail_bounds:
  assumes "rl_inv rl" "perMin rl > 0" "refill_ok r"
  shows "0 \<le> avail r now key rl \<and> avail r now key rl \<le> perMin rl"
proof (cases "map_of (buckets rl) key")
  case (Some b)
  have "perMin rl \<le> maxRate" using assms(1) by (simp add: rl_inv_def)
  then show ?thesis
    using refillBucket_bounds [OF assms(3,2) _ bucket_bounds [OF assms(1,2) Some]] Some by (simp add: avail_def)
qed (use assms in \<open>simp add: avail_def\<close>)

lemma avail_prune:
  assumes "rl_inv rl" "perMin rl > 0" "refill_ok r"
  shows "avail r now key (rlPrune now rl) = avail r now key rl"
proof (cases "map_of (buckets rl) key")
  case None
  then show ?thesis by (simp add: avail_def rlPrune_def map_of_filter_absent)
next
  case (Some b)
  have d: "distinct (map fst (buckets rl))" and mx: "perMin rl \<le> maxRate" using assms(1) by (auto simp: rl_inv_def)
  let ?P = "\<lambda>(k, b). \<not> last b < now - fiveMinutes"
  show ?thesis
  proof (cases "last b < now - fiveMinutes")
    case True
    then show ?thesis
      using Some map_of_filter_drop [OF d Some, of ?P] refillBucket_stale [OF assms(3,2) mx bucket_bounds [OF assms(1,2) Some]]
      by (simp add: avail_def rlPrune_def)
  next
    case False
    then show ?thesis using Some map_of_filter_Some [OF d Some, of ?P] by (simp add: avail_def rlPrune_def)
  qed
qed

lemma avail_put:
  "avail r now k (rl\<lparr>buckets := put key b (buckets rl)\<rparr>) =
     (if k = key then tokens (refillBucket r now (perMin rl) b) else avail r now k rl)"
  by (auto simp: avail_def table_simps split: option.splits)

lemma avail_rlAllow:
  assumes "rl_inv rl" "perMin rl > 0" "refill_ok r" "rlAllow r now now key rl = (ok, rl')"
  shows "avail r now k rl' = avail r now k rl - (if k = key \<and> ok then 1 else 0)"
    and "ok \<longleftrightarrow> 0 < avail r now key rl"
proof -
  define rl1 where "rl1 = (if length (buckets rl) > 1000 \<and> length (buckets rl) mod 64 = 0 then rlPrune now rl else rl)"
  have p: "perMin rl1 = perMin rl" and a1: "avail r now k rl1 = avail r now k rl" for k
    using avail_prune [OF assms(1-3)] by (auto simp: rl1_def rlPrune_def)
  have mx: "perMin rl \<le> maxRate" using assms(1) by (simp add: rl_inv_def)
  define b where "b = (case map_of (buckets rl1) key of Some b \<Rightarrow> b | None \<Rightarrow> \<lparr>tokens = perMin rl, last = now\<rparr>)"
  define b1 where "b1 = refillBucket r now (perMin rl) b"
  have av: "avail r now key rl1 = tokens b1"
    using p refillBucket_new [OF assms(3,2) mx] by (auto simp: avail_def b1_def b_def split: option.splits)
  have eq: "rlAllow r now now key rl = (if tokens b1 \<le> 0 then (False, rl1\<lparr>buckets := put key b1 (buckets rl1)\<rparr>)
      else (True, rl1\<lparr>buckets := put key (b1\<lparr>tokens := tokens b1 - 1\<rparr>) (buckets rl1)\<rparr>))"
    using assms(2) unfolding rlAllow_def rl1_def [symmetric] b_def [symmetric] b1_def [symmetric] Let_def by simp
  have nr: "refillBucket r now (perMin rl) (b1\<lparr>tokens := x\<rparr>) = b1\<lparr>tokens := x\<rparr>" for x
    by (rule refillBucket_twice [OF assms(3,2) mx, where b = b]) (simp add: b1_def)
  have nr0: "refillBucket r now (perMin rl) b1 = b1" using nr [of "tokens b1"] by simp
  show "ok \<longleftrightarrow> 0 < avail r now key rl" using eq assms(4) av a1 by (auto split: if_splits)
  show "avail r now k rl' = avail r now k rl - (if k = key \<and> ok then 1 else 0)"
  proof (cases "tokens b1 \<le> 0")
    case True
    then have "rl' = rl1\<lparr>buckets := put key b1 (buckets rl1)\<rparr>" "\<not> ok" using eq assms(4) by simp_all
    then show ?thesis using av a1 [of k] nr0 p by (auto simp: avail_put)
  next
    case False
    then have "rl' = rl1\<lparr>buckets := put key (b1\<lparr>tokens := tokens b1 - 1\<rparr>) (buckets rl1)\<rparr>" "ok"
      using eq assms(4) by simp_all
    then show ?thesis using av a1 [of k] nr p by (auto simp: avail_put)
  qed
qed

fun grants :: "(int \<Rightarrow> int \<Rightarrow> int) \<Rightarrow> int \<Rightarrow> string \<Rightarrow> RateLimiter \<Rightarrow> string list \<Rightarrow> nat" where
  "grants r now k rl [] = 0"
| "grants r now k rl (key # keys) = (let (ok, rl') = rlAllow r now now key rl in
     (if key = k \<and> ok then 1 else 0) + grants r now k rl' keys)"

lemma grants_avail:
  "rl_inv rl \<Longrightarrow> perMin rl > 0 \<Longrightarrow> refill_ok r \<Longrightarrow>
   int (grants r now k rl keys) = min (avail r now k rl) (int (count_list keys k))"
proof (induction keys arbitrary: rl)
  case Nil
  then show ?case using avail_bounds [of rl r now k] by simp
next
  case (Cons key keys)
  obtain ok rl' where al: "rlAllow r now now key rl = (ok, rl')" by (cases "rlAllow r now now key rl")
  have i: "rl_inv rl'" "perMin rl' = perMin rl"
    using rlAllow_inv [OF Cons.prems(1,3), of now now key] al by simp_all
  note a = avail_rlAllow [OF Cons.prems al]
  have "int (grants r now k rl' keys) = min (avail r now k rl') (int (count_list keys k))"
    using Cons.IH [OF i(1)] i(2) Cons.prems by simp
  then show ?case
    using a(1) [of k] a(2) al avail_bounds [OF Cons.prems, of now k] by auto
qed

section \<open>Properties\<close>

text \<open>
  C22. The rate limiter bounds bursts and is fair. Take a limiter with a limit from 1 to
  \<open>maxRate\<close> (two thousand million calls a minute), with any history of calls. In a burst of calls of
  any clients at one instant a client is granted exactly the smaller of its number of calls and
  what its bucket holds, which is at most the limit; the calls of others, and the pruning of stale
  entries they trigger, do not change it. The counters are 64-bit: up to that limit no sum wraps,
  while for very large limits one does (\<open>rate_limit_overflow\<close>).
\<close>

theorem rate_limit_burst:
  assumes "refill_ok refillOf" and "0 < n" and "n \<le> maxRate" and "rl = run (rlStep refillOf) (NewRateLimiter n) calls"
  shows "int (grants refillOf now key rl keys) = min (avail refillOf now key rl) (int (count_list keys key))
    \<and> 0 \<le> avail refillOf now key rl \<and> avail refillOf now key rl \<le> n"
proof -
  have i0: "rl_inv (NewRateLimiter n)" using assms(3) by (simp add: rl_inv_def NewRateLimiter_def)
  then have i: "rl_inv rl" using rlSys.run_inv [of refillOf "NewRateLimiter n" calls] assms(1,4) by (simp add: list_all_iff)
  have "perMin (run (rlStep refillOf) x cs) = perMin x" if "rl_inv x" for x cs
    using that assms(1) by (induction cs arbitrary: x) (auto simp: rlStep_def rlAllow_inv split: prod.splits)
  then have p: "perMin rl = n" using assms(4) i0 by (simp add: NewRateLimiter_def)
  show ?thesis using grants_avail [OF i _ assms(1)] avail_bounds [OF i _ assms(1)] p assms(2) by simp
qed

text \<open>
  \<open>Remaining\<close> tells exactly what \<open>Allow\<close> accepts. On any reachable token budget
  with a positive maximum below \<open>maxToks\<close>, a request is accepted if and only if it does not exceed the remaining
  tokens; acceptance subtracts it, refusal changes nothing, and no call changes what remains for
  another client at that time.
\<close>

theorem token_budget_exact:
  assumes "tb = run tbStep (NewTokenBudget n) calls" and "n < maxToks" and "list_all tbCallOk calls" and "maxTokens tb > 0"
    and "tbCallOk (t0, now, key, toks)" and "tbAllow t0 now key toks tb = (ok, tb')"
  shows "(ok \<longleftrightarrow> toks \<le> tbRemaining now key tb)
    \<and> tbRemaining now key tb' = tbRemaining now key tb - (if ok then toks else 0)
    \<and> 0 \<le> tbRemaining now key tb \<and> tbRemaining now key tb \<le> maxTokens tb
    \<and> (\<forall>k. k \<noteq> key \<longrightarrow> tbRemaining now k tb' = tbRemaining now k tb)"
proof -
  have "tb_inv (NewTokenBudget n)" using assms(2) by (simp add: tb_inv_def NewTokenBudget_def)
  then have i: "tb_inv tb" using tbSys.run_inv [OF _ assms(3)] assms(1) by simp
  have c: "t0 \<le> now" "0 \<le> toks" "toks \<le> maxToks" using assms(5) by (simp_all add: tbCallOk_def)
  let ?e = "tbEntry now key tb"
  obtain m where m: "tbAllow t0 now key toks tb =
      (if wrap64 (used ?e + toks) > maxTokens tb then (False, tb\<lparr>usage := m\<rparr>)
       else (True, tb\<lparr>usage := put key (?e\<lparr>used := wrap64 (used ?e + toks)\<rparr>) m\<rparr>))"
    "map_of m key = Some ?e" "tb_inv (tb\<lparr>usage := m\<rparr>)"
    "\<And>k. k \<noteq> key \<Longrightarrow> tbRemaining now k (tb\<lparr>usage := m\<rparr>) = tbRemaining now k tb"
    by (rule tbAllow_eq [OF i c(1) assms(4)]) blast
  have i': "tb_inv tb'" using tbAllow_inv [OF i c, of key] assms(6) by simp
  have mx: "maxTokens tb' = maxTokens tb" using m(1) assms(6) by (auto split: if_splits)
  note rem = tbRemaining_entry [OF i assms(4)] tbRemaining_entry [OF i', unfolded mx, OF assms(4)]
  have e: "used ?e \<ge> 0 \<and> used ?e \<le> maxTokens tb"
    using m(3) assms(4) list_all_map_of [OF _ m(2)] by (fastforce simp: tb_inv_def)
  then have ws: "wrap64 (used ?e + toks) = used ?e + toks" using tb_sum [of "used ?e" tb toks] i c by (simp add: tb_inv_def)
  have "resetAt ?e \<ge> now" by (auto simp: tbEntry_def minuteNS_def split: option.splits)
  then have "used (tbEntry now key tb') = used ?e + (if ok then toks else 0)"
    using m(1,2) assms(6) ws by (auto simp: tbEntry_def [of now key tb'] table_simps split: if_splits)
  moreover have "ok \<longleftrightarrow> used ?e + toks \<le> maxTokens tb" using m(1) assms(6) ws by (auto split: if_splits)
  moreover have "tbRemaining now k tb' = tbRemaining now k tb" if "k \<noteq> key" for k
    using m(1) m(4) [OF that] assms(6) that by (auto simp: tbRemaining_put split: if_splits)
  ultimately show ?thesis using rem e by auto
qed

definition exactRefill :: "int \<Rightarrow> int \<Rightarrow> int" where
  "exactRefill e p = (e * p) div minuteNS"

lemma exactRefill_ok: "refill_ok exactRefill"
proof -
  have lo: "p \<le> exactRefill e p" if "p > 0" "e \<ge> fiveMinutes" for p e :: int
  proof -
    have "minuteNS * p \<le> e * p" using that by (intro mult_right_mono) (auto simp: minuteNS_def fiveMinutes_def)
    then have "(minuteNS * p) div minuteNS \<le> (e * p) div minuteNS" by (intro zdiv_mono1) (auto simp: minuteNS_def)
    then show ?thesis by (simp add: minuteNS_def exactRefill_def)
  qed
  have hi: "exactRefill e p \<le> 2 ^ 62" if "0 < p" "p \<le> maxRate" "in_i64 e" for p e :: int
  proof -
    have "e * p \<le> 2 ^ 63 * p" using that by (intro mult_right_mono) (auto simp: in_i64_def)
    also have "\<dots> \<le> 2 ^ 63 * 2 ^ 31" using that by (simp add: maxRate_def)
    finally have "(e * p) div minuteNS \<le> (2 ^ 63 * 2 ^ 31) div minuteNS" by (intro zdiv_mono1) (auto simp: minuteNS_def)
    also have "\<dots> \<le> 2 ^ 62" by (simp add: minuteNS_def)
    finally show ?thesis by (simp add: exactRefill_def)
  qed
  show ?thesis using lo hi by (simp add: refill_ok_def exactRefill_def)
qed

text \<open>
  The limit is not checked when the proxy is started. With a limit of \<open>2 ^ 62\<close> calls a minute, a
  client that has made one call is refused ninety seconds later, although its bucket is full:
  the sum of its tokens and the refill wraps to a negative number.
\<close>

theorem rate_limit_overflow:
  "fst (rlAllow exactRefill 0 0 ''a'' (NewRateLimiter (2 ^ 62))) \<and>
   \<not> fst (rlAllow exactRefill 90000000000 90000000000 ''a'' (snd (rlAllow exactRefill 0 0 ''a'' (NewRateLimiter (2 ^ 62)))))"
  by (simp add: rlAllow_def NewRateLimiter_def refillBucket_def subTime_def exactRefill_def minuteNS_def wrap64_def Let_def)

theorem rate_limit_burst_witness:
  "int (grants exactRefill 7 ''a'' (run (rlStep exactRefill) (NewRateLimiter 2) [(7, 7, ''a'')]) [''a'', ''b'', ''a'', ''a'']) = 1"
proof -
  let ?rl = "run (rlStep exactRefill) (NewRateLimiter 2) [(7, 7, ''a'')]"
  have "avail exactRefill 7 ''a'' ?rl = 1"
    by (simp add: rlStep_def rlAllow_def NewRateLimiter_def avail_def refillBucket_def exactRefill_def Let_def)
  then show ?thesis
    using rate_limit_burst [OF exactRefill_ok, of 2 ?rl "[(7, 7, ''a'')]" 7 "''a''" "[''a'', ''b'', ''a'', ''a'']"] by (simp add: maxRate_def)
qed

theorem token_budget_exact_witness:
  "\<exists>ok tb'. tbAllow 5 5 ''a'' 30 (run tbStep (NewTokenBudget 100) [(1, 1, ''a'', 80)]) = (ok, tb') \<and>
     \<not> ok \<and> tbRemaining 5 ''a'' tb' = 20"
proof -
  let ?tb = "run tbStep (NewTokenBudget 100) [(1, 1, ''a'', 80)]"
  obtain ok tb' where al: "tbAllow 5 5 ''a'' 30 ?tb = (ok, tb')" by (cases "tbAllow 5 5 ''a'' 30 ?tb")
  have "maxTokens ?tb > 0" "tbRemaining 5 ''a'' ?tb = 20"
    by (simp_all add: tbStep_def tbAllow_def NewTokenBudget_def tbRemaining_def minuteNS_def wrap64_def Let_def)
  with token_budget_exact [OF refl _ _ _ _ al] al show ?thesis by (auto simp: tbCallOk_def maxToks_def)
qed

end
