(* ===== verification/McpProxy.thy ===== *)
theory McpProxy
  imports McpText McpSafety
begin

text \<open>
  \<open>internal/mcp/protocol.go\<close>, \<open>store.go\<close> and \<open>proxy.go\<close>: JSON-RPC messages, the
  audit log, and what the proxy does with each line it reads. Reading and writing the sockets is
  left out: \<open>processLine\<close> maps one received line to what is written to the other side, what
  is answered to the client, and the new state of limiters and log.
\<close>

section \<open>Raw JSON values\<close>

text \<open>
  The members of an object with the text of each value, as \<open>json.RawMessage\<close> keeps it:
  \<open>parseMembers\<close> with the consumed text added.
\<close>

fun rawMembers :: "nat \<Rightarrow> nat \<Rightarrow> string \<Rightarrow> (string \<times> string \<times> json) list" where
  "rawMembers 0 d s = []"
| "rawMembers (Suc n) d s = (case skipWs s of [] \<Rightarrow> [] | q # s0 \<Rightarrow>
     (case unquote s0 of None \<Rightarrow> [] | Some (k, s1) \<Rightarrow>
     (case skipWs s1 of [] \<Rightarrow> [] | col # s2 \<Rightarrow>
     (case parseValue n d s2 of None \<Rightarrow> [] | Some (v, s3) \<Rightarrow>
       (let v0 = skipWs s2; raw = take (length v0 - length s3) v0 in
        (k, raw, v) # (case skipWs s3 of [] \<Rightarrow> [] | c # s4 \<Rightarrow>
           if c = CHR '','' then rawMembers n d s4 else []))))))"

text \<open>Decoding into \<open>map[string]json.RawMessage\<close>; of equal keys the last wins.\<close>

definition rawObject :: "string \<Rightarrow> (string \<times> string \<times> json) list option" where
  "rawObject s = (case jsonParse s of
     Some (JObj []) \<Rightarrow> Some []
   | Some (JObj _) \<Rightarrow> Some (rawMembers (length s + 2) 1 (drop 1 (skipWs s)))
   | Some JNull \<Rightarrow> Some []
   | _ \<Rightarrow> None)"

definition rawLookup :: "(string \<times> string \<times> json) list \<Rightarrow> string \<Rightarrow> (string \<times> json) option" where
  "rawLookup ms k = map_of (rev ms) k"

text \<open>
  \<open>json.Marshal\<close> of a raw value: white space between tokens is dropped, the characters that
  are unsafe in HTML are escaped, and text that is not valid JSON is an error.
\<close>

fun compactFrom :: "bool \<Rightarrow> string \<Rightarrow> string" where
  "compactFrom inStr [] = []"
| "compactFrom inStr (c # s) =
     (if byte c = 60 \<or> byte c = 62 \<or> byte c = 38
        then bslash # ''u00'' @ [hexdig (byte c div 16), hexdig (byte c mod 16)] @ compactFrom inStr s
      else if c = CHR 0xE2 \<and> take 2 s = [CHR 0x80, CHR 0xA8] then bslash # ''u2028'' @ compactFrom inStr (drop 2 s)
      else if c = CHR 0xE2 \<and> take 2 s = [CHR 0x80, CHR 0xA9] then bslash # ''u2029'' @ compactFrom inStr (drop 2 s)
      else if inStr then
        (if c = bslash then (case s of d # t \<Rightarrow> c # d # compactFrom True t | [] \<Rightarrow> [c])
         else if c = quote then c # compactFrom False s
         else c # compactFrom True s)
      else if c = quote then c # compactFrom True s
      else if byte c \<in> {32, 9, 10, 13} then compactFrom False s
      else c # compactFrom False s)"

definition compactRaw :: "string \<Rightarrow> string option" where
  "compactRaw s = (case jsonParse s of None \<Rightarrow> None | Some _ \<Rightarrow> Some (compactFrom False s))"

section \<open>Messages\<close>

record JSONRPCError =
  jeCode :: int
  jeMessage :: string
  jeData :: string

record JSONRPC =
  jVersion :: string
  jID :: string
  jMethod :: string
  jParams :: string
  jResult :: string
  jError :: "JSONRPCError option"

definition emptyRPC :: JSONRPC where
  "emptyRPC = \<lparr>jVersion = '''', jID = '''', jMethod = '''', jParams = '''', jResult = '''', jError = None\<rparr>"

fun setRPCError :: "(string \<times> string \<times> json) list \<Rightarrow> JSONRPCError \<Rightarrow> JSONRPCError option" where
  "setRPCError [] e = Some e"
| "setRPCError ((k, raw, v) # ms) e = (case matchField [''code'', ''message'', ''data''] k of
     None \<Rightarrow> setRPCError ms e
   | Some f \<Rightarrow>
       if f = ''data'' then setRPCError ms (e\<lparr>jeData := raw\<rparr>)
       else if v = JNull then setRPCError ms e
       else if f = ''code'' then (case v of
           JNum t \<Rightarrow> (case parseI64 t of None \<Rightarrow> None | Some i \<Rightarrow> setRPCError ms (e\<lparr>jeCode := i\<rparr>)) | _ \<Rightarrow> None)
       else (case v of JStr s \<Rightarrow> setRPCError ms (e\<lparr>jeMessage := s\<rparr>) | _ \<Rightarrow> None))"

fun setRPC :: "(string \<times> string \<times> json) list \<Rightarrow> JSONRPC \<Rightarrow> JSONRPC option" where
  "setRPC [] m = Some m"
| "setRPC ((k, raw, v) # ms) m = (case matchField [''jsonrpc'', ''id'', ''method'', ''params'', ''result'', ''error''] k of
     None \<Rightarrow> setRPC ms m
   | Some f \<Rightarrow>
       if f = ''id'' then setRPC ms (m\<lparr>jID := raw\<rparr>)
       else if f = ''params'' then setRPC ms (m\<lparr>jParams := raw\<rparr>)
       else if f = ''result'' then setRPC ms (m\<lparr>jResult := raw\<rparr>)
       else if f = ''error'' then (case v of
           JNull \<Rightarrow> setRPC ms (m\<lparr>jError := None\<rparr>)
         | JObj _ \<Rightarrow> (case rawObject raw of None \<Rightarrow> None | Some es \<Rightarrow>
             (case setRPCError es (case jError m of Some e \<Rightarrow> e | None \<Rightarrow> \<lparr>jeCode = 0, jeMessage = '''', jeData = ''''\<rparr>) of
                None \<Rightarrow> None | Some e \<Rightarrow> setRPC ms (m\<lparr>jError := Some e\<rparr>)))
         | _ \<Rightarrow> None)
       else if v = JNull then setRPC ms m
       else (case v of JStr s \<Rightarrow> setRPC ms (if f = ''jsonrpc'' then m\<lparr>jVersion := s\<rparr> else m\<lparr>jMethod := s\<rparr>) | _ \<Rightarrow> None))"

definition unmarshalRPC :: "string \<Rightarrow> JSONRPC option" where
  "unmarshalRPC line = (case rawObject line of None \<Rightarrow> None | Some ms \<Rightarrow> setRPC ms emptyRPC)"

definition rawField :: "string \<Rightarrow> string \<Rightarrow> string list option" where
  "rawField k raw = (if raw = '''' then Some [] else map_option (\<lambda>t. [jsonString k @ '':'' @ t]) (compactRaw raw))"

definition marshalRPCError :: "JSONRPCError \<Rightarrow> string option" where
  "marshalRPCError e = map_option (\<lambda>d. CHR ''{'' # joinWith '','' ([jsonString ''code'' @ '':'' @ showInt (jeCode e),
      jsonString ''message'' @ '':'' @ jsonString (jeMessage e)] @ d) @ ''}'') (rawField ''data'' (jeData e))"

definition marshalRPC :: "JSONRPC \<Rightarrow> string option" where
  "marshalRPC m = (case (rawField ''id'' (jID m), rawField ''params'' (jParams m), rawField ''result'' (jResult m),
        case jError m of None \<Rightarrow> Some [] | Some e \<Rightarrow> map_option (\<lambda>t. [jsonString ''error'' @ '':'' @ t]) (marshalRPCError e)) of
     (Some i, Some p, Some r, Some e) \<Rightarrow> Some (CHR ''{'' # joinWith '',''
       ([jsonString ''jsonrpc'' @ '':'' @ jsonString (jVersion m)] @ i @
        (if jMethod m = '''' then [] else [jsonString ''method'' @ '':'' @ jsonString (jMethod m)]) @ p @ r @ e) @ ''}'')
   | _ \<Rightarrow> None)"

definition IsNotification :: "JSONRPC \<Rightarrow> bool" where
  "IsNotification m \<longleftrightarrow> jID m = '''' \<or> jID m = ''null''"

definition IsResponse :: "JSONRPC \<Rightarrow> bool" where
  "IsResponse m \<longleftrightarrow> jID m \<noteq> '''' \<and> jID m \<noteq> ''null'' \<and> jMethod m = ''''"

definition IsRequest :: "JSONRPC \<Rightarrow> bool" where
  "IsRequest m \<longleftrightarrow> jMethod m \<noteq> ''''"

definition EstimateTokens :: "string \<Rightarrow> int" where
  "EstimateTokens s = int (length s) div 4"

definition TruncateString :: "string \<Rightarrow> nat \<Rightarrow> string" where
  "TruncateString s maxLen = (if length s \<le> maxLen then s else take maxLen s @ ''...'')"

definition MethodToolsCall :: string where
  "MethodToolsCall = ''tools/call''"

datatype Direction = DirClientToServer | DirServerToClient

record LogEntry =
  leID :: i64
  leDirection :: Direction
  leMethod :: string
  leRequestID :: string
  leContent :: string
  leToksEst :: int
  leInjection :: bool
  leInjectionTy :: string
  lePruned :: bool
  lePrunedChars :: int
  leTimestampNS :: i64

section \<open>Scanning parameters\<close>

definition scanKeys :: "string list" where
  "scanKeys = [''text'', ''content'', ''prompt'', ''query'', ''input'', ''arguments'', ''uri'']"

definition nestedKeys :: "string list" where
  "nestedKeys = [''text'', ''content'', ''data'']"

text \<open>A raw value as a string: a JSON string is its text, \<open>null\<close> leaves the empty string.\<close>

fun asString :: "json \<Rightarrow> string option" where
  "asString (JStr s) = Some s"
| "asString JNull = Some ''''"
| "asString _ = None"

definition scanValue :: "string \<times> json \<Rightarrow> string list" where
  "scanValue rv = (case asString (snd rv) of
     Some s \<Rightarrow> [s]
   | None \<Rightarrow> (case rawObject (fst rv) of
       None \<Rightarrow> []
     | Some nested \<Rightarrow> concat (map (\<lambda>nk. case rawLookup nested nk of
           None \<Rightarrow> [] | Some nv \<Rightarrow> (case asString (snd nv) of Some s \<Rightarrow> [s] | None \<Rightarrow> [])) nestedKeys)))"

definition ScanParams :: "string \<Rightarrow> string" where
  "ScanParams raw = (if raw = '''' then '''' else
     case rawObject raw of
       None \<Rightarrow> raw
     | Some params \<Rightarrow> joinWith '' '' (concat (map (\<lambda>k. case rawLookup params k of None \<Rightarrow> [] | Some v \<Rightarrow> scanValue v) scanKeys)))"

section \<open>Audit log\<close>

record mcp_log =
  mrows :: "LogEntry list"
  mseq :: int

definition AuditInsert :: "bool \<Rightarrow> LogEntry \<Rightarrow> mcp_log \<Rightarrow> bool \<times> mcp_log" where
  "AuditInsert fault e l = (if fault then (False, l)
     else (True, \<lparr>mrows = mrows l @ [e\<lparr>leID := mseq l + 1\<rparr>], mseq = mseq l + 1\<rparr>))"

definition latest :: "int \<Rightarrow> LogEntry list \<Rightarrow> LogEntry list" where
  "latest limit rows = take (nat limit) (rev (sort_key leID rows))"

text \<open>\<open>None\<close> is an error of the driver.\<close>

definition QueryRecent :: "bool \<Rightarrow> int \<Rightarrow> mcp_log \<Rightarrow> LogEntry list option" where
  "QueryRecent fault limit l = (if fault then None else
     (let n = (if limit \<le> 0 then 100 else limit); n = (if n > 1000 then 1000 else n) in Some (latest n (mrows l))))"

definition QueryByMethod :: "bool \<Rightarrow> string \<Rightarrow> int \<Rightarrow> mcp_log \<Rightarrow> LogEntry list option" where
  "QueryByMethod fault m limit l = (if fault then None else
     Some (latest (if limit \<le> 0 then 100 else limit) (filter (\<lambda>e. leMethod e = m) (mrows l))))"

definition QueryInjections :: "bool \<Rightarrow> int \<Rightarrow> mcp_log \<Rightarrow> LogEntry list option" where
  "QueryInjections fault limit l = (if fault then None else
     Some (latest (if limit \<le> 0 then 100 else limit) (filter leInjection (mrows l))))"

record McpStats =
  TotalMessages :: int
  TotalToks :: int
  BurnToks :: int
  InjectionCount :: int
  PrunedCount :: int
  PrunedBytes :: int
  UptimeSeconds :: int

text \<open>
  \<open>BurnToks\<close> is the sum that the source divides by 60.0 for the burn rate; a failure of its
  query reads as 0, and without uptime the rate stays 0.
\<close>

definition McpGetStats :: "bool \<Rightarrow> bool \<Rightarrow> i64 \<Rightarrow> int \<Rightarrow> mcp_log \<Rightarrow> McpStats option" where
  "McpGetStats fault rfault now uptime l = (if fault then None else
     (let rows = mrows l; recent = filter (\<lambda>e. leTimestampNS e > now - 60000000000) rows in
      Some \<lparr>TotalMessages = int (length rows), TotalToks = sum_list (map leToksEst rows),
        BurnToks = (if uptime > 0 \<and> \<not> rfault then sum_list (map leToksEst recent) else 0),
        InjectionCount = int (length (filter leInjection rows)), PrunedCount = int (length (filter lePruned rows)),
        PrunedBytes = sum_list (map lePrunedChars rows), UptimeSeconds = uptime\<rparr>))"

section \<open>The proxy\<close>

record SafetyConfig =
  sRedactPII :: bool
  sRatePerMin :: int
  sTokenBudget :: int
  sCheckPolicy :: "(string \<Rightarrow> string \<Rightarrow> bool \<times> string) option"
  sApproveTool :: "(string \<Rightarrow> string \<Rightarrow> string \<Rightarrow> bool \<times> string) option"

record proxy_state =
  rateLim :: "RateLimiter option"
  tokBudget :: "TokenBudget option"
  auditLog :: mcp_log

text \<open>\<open>NewProxy(...).WithSafety(cfg)\<close>: a limiter exists only for a positive limit.\<close>

definition WithSafety :: "SafetyConfig \<Rightarrow> mcp_log \<Rightarrow> proxy_state" where
  "WithSafety cfg l = \<lparr>rateLim = (if sRatePerMin cfg > 0 then Some (NewRateLimiter (sRatePerMin cfg)) else None),
     tokBudget = (if sTokenBudget cfg > 0 then Some (NewTokenBudget (sTokenBudget cfg)) else None), auditLog = l\<rparr>"

definition analyze :: "string \<Rightarrow> Direction \<Rightarrow> i64 \<Rightarrow> LogEntry" where
  "analyze line dir now =
     (let e0 = \<lparr>leID = 0, leDirection = dir, leMethod = '''', leRequestID = '''', leContent = '''', leToksEst = 0,
            leInjection = False, leInjectionTy = '''', lePruned = False, lePrunedChars = 0, leTimestampNS = now\<rparr>;
          mark = (\<lambda>e text. case CheckInjection text of Some ty \<Rightarrow> e\<lparr>leInjection := True, leInjectionTy := ty\<rparr> | None \<Rightarrow> e)
      in case unmarshalRPC line of
        None \<Rightarrow> mark (e0\<lparr>leContent := TruncateString line 200, leToksEst := EstimateTokens line\<rparr>) line
      | Some msg \<Rightarrow>
          (let rid = (if IsNotification msg then ''(notification)''
                 else if 2 \<le> length (jID msg) \<and> hd (jID msg) = quote then butlast (tl (jID msg)) else jID msg);
               content = (if IsRequest msg \<and> jParams msg \<noteq> '''' then TruncateString (ScanParams (jParams msg)) 500
                 else if IsResponse msg \<and> jResult msg \<noteq> '''' then TruncateString (jResult msg) 500 else '''')
           in mark (e0\<lparr>leMethod := jMethod msg, leRequestID := rid, leContent := content,
                leToksEst := EstimateTokens content\<rparr>) content))"

definition extractToolName :: "string \<Rightarrow> string" where
  "extractToolName params = (if params = '''' then '''' else
     case rawObject params of
       None \<Rightarrow> ''''
     | Some ms \<Rightarrow>
         (let names = filter (\<lambda>(k, _, _). matchField [''name''] k \<noteq> None) ms;
              bad = list_ex (\<lambda>(_, _, v). asString v = None) names;
              name = (case rev (filter (\<lambda>(_, _, v). v \<noteq> JNull) names) of (_, _, JStr s) # _ \<Rightarrow> s | _ \<Rightarrow> '''')
          in if \<not> bad then name
             else (let args = filter (\<lambda>(k, _, _). matchField [''arguments''] k \<noteq> None) ms in
               if list_ex (\<lambda>(_, _, v). case v of JObj _ \<Rightarrow> False | JNull \<Rightarrow> False | _ \<Rightarrow> True) args then ''''
               else (let inner = concat (map (\<lambda>(_, _, v). case v of JObj xs \<Rightarrow> filter (\<lambda>(k, _). matchField [''name''] k \<noteq> None) xs | _ \<Rightarrow> []) args) in
                 if list_ex (\<lambda>(_, v). asString v = None) inner then ''''
                 else (case rev (filter (\<lambda>(_, v). v \<noteq> JNull) inner) of (_, JStr s) # _ \<Rightarrow> s | _ \<Rightarrow> '''')))))"

definition errorLine :: "string \<Rightarrow> int \<Rightarrow> string \<Rightarrow> string" where
  "errorLine reqID code message = jsonEnc (JObj [
     (''error'', JObj [(''code'', JNum (showInt code)), (''message'', JStr message)]),
     (''id'', if reqID \<noteq> '''' \<and> reqID \<noteq> ''(notification)'' then JStr reqID else JNull),
     (''jsonrpc'', JStr ''2.0'')]) @ [newline]"

record proxy_env =
  clientAddr :: string
  safety :: SafetyConfig
  refillFn :: "int \<Rightarrow> int \<Rightarrow> int"
  uniFn :: "string \<Rightarrow> bool"

text \<open>The four checks of a request, in their order.\<close>

definition rateStage :: "proxy_env \<Rightarrow> i64 \<Rightarrow> proxy_state \<Rightarrow> bool \<times> proxy_state" where
  "rateStage env now st = (case rateLim st of None \<Rightarrow> (True, st)
     | Some rl \<Rightarrow> (let (ok, rl') = rlAllow (refillFn env) now now (clientAddr env) rl in (ok, st\<lparr>rateLim := Some rl'\<rparr>)))"

definition budgetStage :: "proxy_env \<Rightarrow> i64 \<Rightarrow> string \<Rightarrow> proxy_state \<Rightarrow> bool \<times> proxy_state" where
  "budgetStage env now line st = (case tokBudget st of None \<Rightarrow> (True, st)
     | Some tb \<Rightarrow> (let (ok, tb') = tbAllow now now (clientAddr env) (EstimateTokens line) tb in (ok, st\<lparr>tokBudget := Some tb'\<rparr>)))"

definition policyStage :: "proxy_env \<Rightarrow> LogEntry \<Rightarrow> bool \<times> string" where
  "policyStage env entry = (case sCheckPolicy (safety env) of
     Some f \<Rightarrow> if leMethod entry \<noteq> '''' then f (clientAddr env) (leMethod entry) else (True, '''')
   | None \<Rightarrow> (True, ''''))"

text \<open>The message of a refusal, \<open>None\<close> when approved or not asked for.\<close>

definition toolStage :: "proxy_env \<Rightarrow> string \<Rightarrow> LogEntry \<Rightarrow> string option" where
  "toolStage env line entry = (case sApproveTool (safety env) of
     None \<Rightarrow> None
   | Some approve \<Rightarrow>
       if leMethod entry \<noteq> MethodToolsCall then None
       else (case unmarshalRPC line of
           None \<Rightarrow> Some ''failed to parse tool call''
         | Some msg \<Rightarrow>
             (let toolName = extractToolName (jParams msg);
                  (approved, reason) = approve (clientAddr env) toolName (jParams msg) in
              if approved then None else Some (''tool '' @ toolName @ '' not approved: '' @ reason))))"

text \<open>
  \<open>Inl resp\<close>: the message is dropped and \<open>resp\<close> is written to the client.
\<close>

definition checkRequestSafety :: "proxy_env \<Rightarrow> i64 \<Rightarrow> string \<Rightarrow> LogEntry \<Rightarrow> proxy_state \<Rightarrow> (string + unit) \<times> proxy_state" where
  "checkRequestSafety env now line entry st =
     (let (rlOk, st1) = rateStage env now st in
      if \<not> rlOk then (Inl (errorLine (leRequestID entry) (-32000) ''rate limit exceeded: too many requests per minute''), st1)
      else (let (tbOk, st2) = budgetStage env now line st1 in
        if \<not> tbOk then (Inl (errorLine (leRequestID entry) (-32001) ''token budget exceeded for current window''), st2)
        else (let (allowed, reason) = policyStage env entry in
          if \<not> allowed then (Inl (errorLine (leRequestID entry) (-32002)
             (''method '' @ leMethod entry @ '' denied by policy: '' @ reason)), st2)
          else (case toolStage env line entry of
              Some m \<Rightarrow> (Inl (errorLine (leRequestID entry) (-32003) m), st2)
            | None \<Rightarrow> (Inr (), st2)))))"

definition redactLine :: "string \<Rightarrow> LogEntry \<Rightarrow> string \<times> LogEntry" where
  "redactLine line entry = (case unmarshalRPC line of
     Some msg \<Rightarrow>
       if IsResponse msg \<and> jResult msg \<noteq> '''' then
         (let redacted = RedactPII (jResult msg) in
          if redacted \<noteq> jResult msg then
            ((case marshalRPC (msg\<lparr>jResult := redacted\<rparr>) of Some t \<Rightarrow> t | None \<Rightarrow> line),
             entry\<lparr>lePruned := True,
               lePrunedChars := lePrunedChars entry + int (length (jResult msg)) - int (length redacted)\<rparr>)
          else (line, entry))
       else (line, entry)
   | None \<Rightarrow> (line, entry))"

definition applyResponseSafety :: "proxy_env \<Rightarrow> i64 \<Rightarrow> string \<Rightarrow> LogEntry \<Rightarrow> proxy_state \<Rightarrow> string \<times> LogEntry \<times> proxy_state" where
  "applyResponseSafety env now line entry st =
     (let (line1, entry1) = (if sRedactPII (safety env) then redactLine line entry else (line, entry));
          st1 = (case tokBudget st of None \<Rightarrow> st
            | Some tb \<Rightarrow> st\<lparr>tokBudget := Some (snd (tbAllow now now (clientAddr env) (EstimateTokens line1) tb))\<rparr>)
      in (line1, entry1, st1))"

definition trimCRLF :: "string \<Rightarrow> string" where
  "trimCRLF s = rev (dropWhile (\<lambda>c. c = CHR 0x0D \<or> c = newline) (rev s))"

text \<open>
  One iteration of \<open>pipe\<close> on a line read without error. The result: what is written to the
  other side, what is written back to the client, the state.
\<close>

definition processLine :: "proxy_env \<Rightarrow> bool \<Rightarrow> i64 \<Rightarrow> Direction \<Rightarrow> string \<Rightarrow> proxy_state
    \<Rightarrow> string option \<times> string option \<times> proxy_state" where
  "processLine env auditFault now dir lineBytes st =
     (let line = trimCRLF lineBytes in
      if line = '''' then (None, None, st)
      else (let entry = analyze line dir now in
        case dir of
          DirClientToServer \<Rightarrow>
            (case checkRequestSafety env now line entry st of
               (Inl resp, st1) \<Rightarrow> (None, Some resp, st1)
             | (Inr _, st1) \<Rightarrow>
                 (Some (line @ [newline]), None, st1\<lparr>auditLog := snd (AuditInsert auditFault entry (auditLog st1))\<rparr>))
        | DirServerToClient \<Rightarrow>
            (let (line1, entry1, st1) = applyResponseSafety env now line entry st;
                 (line2, entry2) = (if leToksEst entry1 > 500 then
                     (let opt = OptimizeContext (uniFn env) line1 in
                      if oPruned opt then (Output opt, entry1\<lparr>lePruned := True, lePrunedChars := PrunedLen opt,
                          leToksEst := EstimateTokens (Output opt)\<rparr>)
                      else (line1, entry1))
                   else (line1, entry1))
             in (Some (line2 @ [newline]), None, st1\<lparr>auditLog := snd (AuditInsert auditFault entry2 (auditLog st1))\<rparr>))))"

section \<open>What a line goes through\<close>

lemma rateStage_facts:
  "auditLog (snd (rateStage env now st)) = auditLog st" "tokBudget (snd (rateStage env now st)) = tokBudget st"
  "fst (rateStage env now st) \<Longrightarrow> rateLim st = Some rl \<Longrightarrow> fst (rlAllow (refillFn env) now now (clientAddr env) rl)"
  by (auto simp: rateStage_def Let_def split: option.splits prod.splits)

lemma budgetStage_facts:
  "auditLog (snd (budgetStage env now line st)) = auditLog st"
  "fst (budgetStage env now line st) \<Longrightarrow> tokBudget st = Some tb \<Longrightarrow>
     fst (tbAllow now now (clientAddr env) (EstimateTokens line) tb)"
  by (auto simp: budgetStage_def Let_def split: option.splits prod.splits)

lemma checkRequestSafety_eq:
  "checkRequestSafety env now line entry st =
     (let st1 = snd (rateStage env now st); st2 = snd (budgetStage env now line st1) in
      if \<not> fst (rateStage env now st)
        then (Inl (errorLine (leRequestID entry) (-32000) ''rate limit exceeded: too many requests per minute''), st1)
      else if \<not> fst (budgetStage env now line st1)
        then (Inl (errorLine (leRequestID entry) (-32001) ''token budget exceeded for current window''), st2)
      else if \<not> fst (policyStage env entry)
        then (Inl (errorLine (leRequestID entry) (-32002)
             (''method '' @ leMethod entry @ '' denied by policy: '' @ snd (policyStage env entry))), st2)
      else (case toolStage env line entry of
              Some m \<Rightarrow> (Inl (errorLine (leRequestID entry) (-32003) m), st2)
            | None \<Rightarrow> (Inr (), st2)))"
  by (simp add: checkRequestSafety_def Let_def split_beta)

lemma checkRequestSafety_log: "auditLog (snd (checkRequestSafety env now line entry st)) = auditLog st"
  by (simp add: checkRequestSafety_eq Let_def rateStage_facts budgetStage_facts split: option.splits)

lemma checkRequestSafety_passed:
  assumes "checkRequestSafety env now line entry st = (Inr (), st')"
  shows "\<forall>rl. rateLim st = Some rl \<longrightarrow> fst (rlAllow (refillFn env) now now (clientAddr env) rl)"
    and "\<forall>tb. tokBudget st = Some tb \<longrightarrow> fst (tbAllow now now (clientAddr env) (EstimateTokens line) tb)"
    and "\<forall>f. sCheckPolicy (safety env) = Some f \<longrightarrow> leMethod entry \<noteq> '''' \<longrightarrow> fst (f (clientAddr env) (leMethod entry))"
    and "\<forall>g. sApproveTool (safety env) = Some g \<longrightarrow> leMethod entry = MethodToolsCall \<longrightarrow>
      (\<exists>msg. unmarshalRPC line = Some msg \<and> fst (g (clientAddr env) (extractToolName (jParams msg)) (jParams msg)))"
    and "auditLog st' = auditLog st"
proof -
  have p: "fst (rateStage env now st)" "fst (budgetStage env now line (snd (rateStage env now st)))"
    "fst (policyStage env entry)" "toolStage env line entry = None"
    using assms by (auto simp: checkRequestSafety_eq Let_def split: if_splits option.splits)
  show "\<forall>rl. rateLim st = Some rl \<longrightarrow> fst (rlAllow (refillFn env) now now (clientAddr env) rl)"
    using rateStage_facts(3) [OF p(1)] by blast
  show "\<forall>tb. tokBudget st = Some tb \<longrightarrow> fst (tbAllow now now (clientAddr env) (EstimateTokens line) tb)"
    using budgetStage_facts(2) [OF p(2)] rateStage_facts(2) by metis
  show "\<forall>f. sCheckPolicy (safety env) = Some f \<longrightarrow> leMethod entry \<noteq> '''' \<longrightarrow> fst (f (clientAddr env) (leMethod entry))"
    using p(3) by (auto simp: policyStage_def)
  show "\<forall>g. sApproveTool (safety env) = Some g \<longrightarrow> leMethod entry = MethodToolsCall \<longrightarrow>
      (\<exists>msg. unmarshalRPC line = Some msg \<and> fst (g (clientAddr env) (extractToolName (jParams msg)) (jParams msg)))"
    using p(4) by (auto simp: toolStage_def Let_def split: option.splits prod.splits if_splits)
  show "auditLog st' = auditLog st" using checkRequestSafety_log [of env now line entry st] assms by simp
qed

section \<open>Properties\<close>

text \<open>
  Nothing reaches the server unchecked. A client line that the proxy forwards is forwarded
  byte for byte (up to the line end), after the rate limiter and the token budget granted it,
  the policy callback allowed its method and, for a tool call, the approval callback approved
  the tool; and it is in the audit log. A client line that is dropped is answered with an error
  and leaves the audit log as it was.
\<close>

theorem request_forwarded_only_if_checked:
  assumes "processLine env auditFault now DirClientToServer bytes st = (out, resp, st')"
    and "line = trimCRLF bytes" and "line \<noteq> ''''" and "entry = analyze line DirClientToServer now"
  shows "(\<forall>w. out = Some w \<longrightarrow> w = line @ [newline] \<and> resp = None
      \<and> (\<forall>rl. rateLim st = Some rl \<longrightarrow> fst (rlAllow (refillFn env) now now (clientAddr env) rl))
      \<and> (\<forall>tb. tokBudget st = Some tb \<longrightarrow> fst (tbAllow now now (clientAddr env) (EstimateTokens line) tb))
      \<and> (\<forall>f. sCheckPolicy (safety env) = Some f \<longrightarrow> leMethod entry \<noteq> '''' \<longrightarrow> fst (f (clientAddr env) (leMethod entry)))
      \<and> (\<forall>g. sApproveTool (safety env) = Some g \<longrightarrow> leMethod entry = MethodToolsCall \<longrightarrow>
          (\<exists>msg. unmarshalRPC line = Some msg \<and> fst (g (clientAddr env) (extractToolName (jParams msg)) (jParams msg))))
      \<and> (\<not> auditFault \<longrightarrow> mrows (auditLog st') = mrows (auditLog st) @ [entry\<lparr>leID := mseq (auditLog st) + 1\<rparr>]))
    \<and> (out = None \<longrightarrow> resp \<noteq> None \<and> auditLog st' = auditLog st)"
proof -
  obtain v st1 where c: "checkRequestSafety env now line entry st = (v, st1)" by (cases "checkRequestSafety env now line entry st")
  show ?thesis
  proof (cases v)
    case (Inl r)
    then have "out = None" "resp = Some r" "st' = st1"
      using assms c by (simp_all add: processLine_def Let_def)
    then show ?thesis using checkRequestSafety_log [of env now line entry st] c by simp
  next
    case (Inr u)
    then have "out = Some (line @ [newline])" "resp = None"
      "st' = st1\<lparr>auditLog := snd (AuditInsert auditFault entry (auditLog st1))\<rparr>"
      using assms c by (simp_all add: processLine_def Let_def)
    moreover have c': "checkRequestSafety env now line entry st = (Inr (), st1)" using c Inr by simp
    ultimately show ?thesis
      using checkRequestSafety_passed [OF c'] by (auto simp: AuditInsert_def)
  qed
qed

lemma length_TruncateString: "length (TruncateString s n) \<le> n + 3"
  by (simp add: TruncateString_def)

lemma analyze_rpc:
  assumes "unmarshalRPC line = Some msg"
  obtains content where "length content \<le> 503" "leContent (analyze line dir now) = content"
    "leToksEst (analyze line dir now) = EstimateTokens content"
proof -
  define content where "content = (if IsRequest msg \<and> jParams msg \<noteq> '''' then TruncateString (ScanParams (jParams msg)) 500
     else if IsResponse msg \<and> jResult msg \<noteq> '''' then TruncateString (jResult msg) 500 else '''')"
  have "length content \<le> 503"
    using length_TruncateString [of "ScanParams (jParams msg)" 500] length_TruncateString [of "jResult msg" 500]
    by (simp add: content_def)
  then show thesis
    by (rule that) (simp_all add: analyze_def assms Let_def content_def [symmetric] split: option.splits)
qed

text \<open>
  The optimizer never sees a JSON-RPC message. The token estimate of a message that parses
  is computed from the content truncated to 500 bytes and so never exceeds 125, while the
  optimizer runs only above 500: every response that parses is forwarded as it leaves the
  redaction, whatever its size.
\<close>

theorem rpc_responses_never_optimized:
  assumes "unmarshalRPC (trimCRLF bytes) = Some msg" and "trimCRLF bytes \<noteq> ''''"
    and "processLine env auditFault now DirServerToClient bytes st = (out, resp, st')"
  shows "leToksEst (analyze (trimCRLF bytes) DirServerToClient now) \<le> 125
    \<and> out = Some (fst (applyResponseSafety env now (trimCRLF bytes)
        (analyze (trimCRLF bytes) DirServerToClient now) st) @ [newline])"
proof -
  let ?line = "trimCRLF bytes" and ?e = "analyze (trimCRLF bytes) DirServerToClient now"
  obtain content where c: "length content \<le> 503" "leToksEst ?e = EstimateTokens content"
    by (rule analyze_rpc [OF assms(1), of DirServerToClient now])
  then have t: "leToksEst ?e \<le> 125" by (simp add: EstimateTokens_def)
  obtain l1 e1 s1 where a: "applyResponseSafety env now ?line ?e st = (l1, e1, s1)"
    by (cases "applyResponseSafety env now ?line ?e st")
  have "leToksEst e1 = leToksEst ?e"
    using a by (auto simp: applyResponseSafety_def redactLine_def Let_def split: prod.splits option.splits if_splits)
  then have "\<not> leToksEst e1 > 500" using t by simp
  then show ?thesis using assms(2,3) t a by (simp add: processLine_def Let_def)
qed

text \<open>
  A redaction that breaks the JSON is dropped and the personal data forwarded. When
  replacing matches makes the result invalid JSON (for example an unquoted number), the message
  cannot be rebuilt: the original line goes to the client although the log entry says it was
  pruned.
\<close>

theorem failed_redaction_forwards_original:
  assumes "unmarshalRPC line = Some msg" and "IsResponse msg" and "jResult msg \<noteq> ''''"
    and "RedactPII (jResult msg) \<noteq> jResult msg" and "jsonParse (RedactPII (jResult msg)) = None"
    and "RedactPII (jResult msg) \<noteq> ''''"
  shows "fst (redactLine line entry) = line \<and> lePruned (snd (redactLine line entry))"
proof -
  have "marshalRPC (msg\<lparr>jResult := RedactPII (jResult msg)\<rparr>) = None"
    using assms(5,6) by (simp add: marshalRPC_def rawField_def compactRaw_def split: option.splits)
  then show ?thesis using assms(1-4) by (simp add: redactLine_def Let_def)
qed

section \<open>Concrete instances\<close>

definition exEnv :: proxy_env where
  "exEnv = \<lparr>clientAddr = ''c:1'', safety = \<lparr>sRedactPII = True, sRatePerMin = 0, sTokenBudget = 0,
     sCheckPolicy = Some (\<lambda>_ m. (m \<noteq> ''x'', ''no'')), sApproveTool = None\<rparr>, refillFn = exactRefill, uniFn = (\<lambda>_. False)\<rparr>"

definition exState :: proxy_state where
  "exState = \<lparr>rateLim = None, tokBudget = None, auditLog = \<lparr>mrows = [], mseq = 0\<rparr>\<rparr>"

definition exResponse :: string where
  "exResponse = ''{'' @ [quote] @ ''id'' @ [quote] @ '':7,'' @ [quote] @ ''result'' @ [quote] @ '':5551234567}''"

lemma exResponse_rpc: "unmarshalRPC exResponse = Some (emptyRPC\<lparr>jID := ''7'', jResult := ''5551234567''\<rparr>)"
  by code_simp

lemma exResponse_trim: "trimCRLF exResponse = exResponse" "exResponse \<noteq> ''''"
  by code_simp+

theorem request_forwarded_only_if_checked_witness:
  "\<exists>out resp st'. processLine exEnv False 1 DirClientToServer ''hi'' exState = (out, resp, st') \<and>
     (out = None \<longrightarrow> resp \<noteq> None)"
proof -
  obtain out resp st' where p: "processLine exEnv False 1 DirClientToServer ''hi'' exState = (out, resp, st')"
    by (cases "processLine exEnv False 1 DirClientToServer ''hi'' exState")
  have "trimCRLF ''hi'' \<noteq> ''''" by code_simp
  from request_forwarded_only_if_checked [OF p refl this refl] p show ?thesis by blast
qed

theorem rpc_responses_never_optimized_witness:
  "leToksEst (analyze exResponse DirServerToClient 1) \<le> 125"
proof -
  obtain out resp st' where p: "processLine exEnv False 1 DirServerToClient exResponse exState = (out, resp, st')"
    by (cases "processLine exEnv False 1 DirServerToClient exResponse exState")
  show ?thesis
    using rpc_responses_never_optimized [OF _ _ p] exResponse_rpc exResponse_trim by simp
qed

theorem failed_redaction_forwards_original_witness:
  "fst (redactLine exResponse (analyze exResponse DirServerToClient 1)) = exResponse \<and>
   lePruned (snd (redactLine exResponse (analyze exResponse DirServerToClient 1)))"
proof -
  have r: "RedactPII ''5551234567'' = ''[REDACTED_PHONE]''" by code_simp
  have j: "jsonParse ''[REDACTED_PHONE]'' = None" by code_simp
  show ?thesis
    by (rule failed_redaction_forwards_original [OF exResponse_rpc]) (simp_all add: IsResponse_def emptyRPC_def r j)
qed

end
