(* ===== verification/Messages.thy ===== *)
theory Messages
  imports Protocol Receipt Policy AuditRing Broker SnapshotStore McpProxy
begin

text \<open>
  The request and response structs of \<open>internal/daemon/protocol.go\<close>. A request type is the
  schema of its fields; a response is its JSON object, with the members in the order of the
  struct and those marked \<open>omitempty\<close> left out when they are zero.
\<close>

definition numJ :: "int \<Rightarrow> json" where "numJ i = JNum (showInt i)"
definition u64J :: "u64 \<Rightarrow> json" where "u64J w = JNum (showNat (unat w))"

text \<open>
  Decoding whose error is ignored: \<open>json.Unmarshal\<close> sets the fields that decode and skips
  those of the wrong type; a text that is no JSON sets nothing.
\<close>

fun lenientMembers :: "schema \<Rightarrow> (string \<times> json) list \<Rightarrow> fields \<Rightarrow> fields" where
  "lenientMembers sch [] m = m"
| "lenientMembers sch ((k, v) # ms) m = (case matchField (map fst sch) k of
     None \<Rightarrow> lenientMembers sch ms m
   | Some f \<Rightarrow> (case map_of sch f of None \<Rightarrow> lenientMembers sch ms m | Some kd \<Rightarrow>
       if v = JNull then lenientMembers sch ms (if nilable kd then m(f := None) else m)
       else (case decodeField kd (m f) v of None \<Rightarrow> lenientMembers sch ms m | Some x \<Rightarrow> lenientMembers sch ms (m(f \<mapsto> x)))))"

definition decodeLenient :: "schema \<Rightarrow> bytes \<Rightarrow> fields" where
  "decodeLenient sch raw = (case jsonParse raw of Some (JObj ms) \<Rightarrow> lenientMembers sch ms Map.empty | _ \<Rightarrow> Map.empty)"

section \<open>Requests\<close>

definition SignAppendReq :: schema where
  "SignAppendReq = [(''agent_id'', KStr), (''phase'', KStr), (''action_type'', KStr), (''payload_hash'', KStr),
     (''payload_summary'', KStr), (''policy_decision'', KStr), (''auth_context'', KStr), (''outcome'', KStr),
     (''outcome_summary'', KStr), (''duration_ms'', KInt), (''pre_receipt_id'', KStr), (''parent_agent_id'', KStr)]"

definition VerifyReq :: schema where
  "VerifyReq = [(''receipt_id'', KStr)]"

definition QueryReq :: schema where
  "QueryReq = [(''agent_id'', KStr), (''action_type'', KStr), (''phase'', KStr), (''since_ns'', KInt), (''limit'', KInt), (''offset'', KInt)]"

definition RegisterReq :: schema where
  "RegisterReq = [(''name'', KStr), (''version'', KStr), (''owner'', KStr), (''public_key_hex'', KStr), (''metadata'', KStrMap)]"

definition SnapshotReq :: schema where
  "SnapshotReq = [(''agent_id'', KStr), (''snap_type'', KStr), (''paths'', KStr)]"

definition RestoreReq :: schema where
  "RestoreReq = [(''target_index'', KU64), (''snap_type'', KStr)]"

definition SnapshotListReq :: schema where
  "SnapshotListReq = [(''agent_id'', KStr), (''snap_type'', KStr), (''limit'', KInt), (''offset'', KInt)]"

definition SnapshotDiffReq :: schema where
  "SnapshotDiffReq = [(''agent_id'', KStr), (''snap_type'', KStr)]"

definition RegisterCompensateReq :: schema where
  "RegisterCompensateReq = [(''agent_id'', KStr), (''receipt_id'', KStr), (''action_type'', KStr), (''reverse_action'', KStr), (''reverse_cmd'', KStr)]"

definition CompensateReq :: schema where
  "CompensateReq = [(''target_index'', KU64), (''dry_run'', KBool)]"

definition PolicyRegisterReq :: schema where
  "PolicyRegisterReq = [(''id'', KStr), (''name'', KStr), (''description'', KStr), (''enabled'', KBool), (''priority'', KInt),
     (''severity'', KStr), (''conditions'', KStr), (''action'', KStr)]"

definition PolicyListReq :: schema where
  "PolicyListReq = [(''enabled_only'', KBool)]"

definition PolicyDeleteReq :: schema where
  "PolicyDeleteReq = [(''id'', KStr)]"

definition PolicyEvaluateReq :: schema where
  "PolicyEvaluateReq = [(''agent_id'', KStr), (''action_type'', KStr), (''phase'', KStr), (''payload_hash'', KStr),
     (''payload_summary'', KStr), (''parent_agent_id'', KStr)]"

definition TokenRequestReq :: schema where
  "TokenRequestReq = [(''agent_id'', KStr), (''resource'', KStr), (''action'', KStr), (''ttl_seconds'', KInt), (''single_use'', KBool)]"

definition TokenRevokeReq :: schema where
  "TokenRevokeReq = [(''token_id'', KStr)]"

definition MCPStartReq :: schema where
  "MCPStartReq = [(''listen_addr'', KStr), (''target_url'', KStr), (''safety_disable'', KBool), (''redact_pii'', KOptBool),
     (''rate_limit'', KOptInt), (''token_budget'', KOptInt)]"

definition MCPLogReq :: schema where
  "MCPLogReq = [(''limit'', KInt), (''method'', KStr), (''injections_only'', KBool)]"

definition AuditEventsReq :: schema where
  "AuditEventsReq = [(''limit'', KInt)]"

definition EffectWarn :: string where "EffectWarn = ''warn''"
definition EffectAudit :: string where "EffectAudit = ''audit''"

section \<open>Responses\<close>

definition ErrorResp :: "string \<Rightarrow> json" where
  "ErrorResp m = JObj [(''message'', JStr m)]"

definition SignAppendResp :: "string \<Rightarrow> u64 \<Rightarrow> string \<Rightarrow> string \<Rightarrow> json" where
  "SignAppendResp rid idx tip sig = JObj [(''receipt_id'', JStr rid), (''chain_index'', u64J idx), (''chain_tip'', JStr tip), (''signature'', JStr sig)]"

record VerifyResp =
  vrValid :: bool
  vrReceiptID :: string
  vrAgentID :: string
  vrAgentName :: string
  vrActionType :: string
  vrPhase :: string
  vrPolicyDecision :: string
  vrOutcome :: string
  vrTimestampNS :: i64
  vrChainIndex :: u64
  vrError :: string

definition verifyRespJson :: "VerifyResp \<Rightarrow> json" where
  "verifyRespJson v = JObj ([(''valid'', JBool (vrValid v)), (''receipt_id'', JStr (vrReceiptID v)), (''agent_id'', JStr (vrAgentID v))] @
     omitStr ''agent_name'' (vrAgentName v) @ [(''action_type'', JStr (vrActionType v)), (''phase'', JStr (vrPhase v))] @
     omitStr ''policy_decision'' (vrPolicyDecision v) @ omitStr ''outcome'' (vrOutcome v) @
     [(''timestamp_ns'', numJ (vrTimestampNS v)), (''chain_index'', u64J (vrChainIndex v))] @ omitStr ''error'' (vrError v))"

definition RegisterResp :: "string \<Rightarrow> json" where
  "RegisterResp i = JObj [(''agent_id'', JStr i)]"

definition SnapshotResp :: "Snapshot \<Rightarrow> json" where
  "SnapshotResp sn = JObj [(''snapshot_id'', JStr (snID sn)), (''chain_index'', u64J (snChainIndex sn)), (''snap_type'', JStr (snSnapType sn)),
     (''size_bytes'', numJ (snSizeBytes sn)), (''hash'', JStr (snHash sn))]"

definition RestoreResp :: "u64 \<Rightarrow> string \<Rightarrow> json" where
  "RestoreResp idx m = JObj [(''success'', JBool True), (''target_index'', u64J idx), (''message'', JStr m)]"

definition snapshotJson :: "Snapshot \<Rightarrow> json" where
  "snapshotJson sn = JObj ([(''snapshot_id'', JStr (snID sn)), (''chain_index'', u64J (snChainIndex sn)), (''agent_id'', JStr (snAgentID sn))] @
     omitStr ''receipt_id'' (snReceiptID sn) @ [(''snap_type'', JStr (snSnapType sn)), (''storage_path'', JStr (snStoragePath sn)),
     (''size_bytes'', numJ (snSizeBytes sn)), (''hash'', JStr (snHash sn)), (''timestamp_ns'', numJ (snTimestampNS sn))] @
     (if snMetadata sn = [] then [] else [(''metadata'', strMapJson (snMetadata sn))]))"

text \<open>A nil slice is \<open>null\<close>.\<close>

definition SnapshotListResp :: "Snapshot list \<Rightarrow> json" where
  "SnapshotListResp sns = JObj [(''snapshots'', if sns = [] then JNull else JArr (map snapshotJson sns))]"

definition omitStrs :: "string \<Rightarrow> string list \<Rightarrow> (string \<times> json) list" where
  "omitStrs k ss = (if ss = [] then [] else [(k, strsJson ss)])"

definition SnapshotDiffResp :: "string list \<Rightarrow> string list \<Rightarrow> string list \<Rightarrow> string \<Rightarrow> json" where
  "SnapshotDiffResp added modified deleted m = JObj (omitStrs ''added'' added @ omitStrs ''modified'' modified @
     omitStrs ''deleted'' deleted @ omitStr ''message'' m)"

text \<open>The responses that say whether the request succeeded and add a message.\<close>

definition successResp :: "bool \<Rightarrow> string \<Rightarrow> json" where
  "successResp b m = JObj ((''success'', JBool b) # omitStr ''message'' m)"

definition CompensateResp :: "bool \<Rightarrow> nat \<Rightarrow> nat \<Rightarrow> string list \<Rightarrow> string \<Rightarrow> json" where
  "CompensateResp ok nrun nfail details m = JObj ([(''success'', JBool ok), (''actions_run'', JNum (showNat nrun)),
     (''actions_failed'', JNum (showNat nfail))] @ omitStrs ''details'' details @ omitStr ''message'' m)"

definition PolicyEntry :: "Policy \<Rightarrow> json" where
  "PolicyEntry p = JObj ([(''id'', JStr (PolID p)), (''name'', JStr (Name p))] @ omitStr ''description'' (Description p) @
     [(''enabled'', JBool (Enabled p)), (''priority'', numJ (Priority p))] @ omitStr ''severity'' (Severity p) @
     omitInt ''created_ns'' (CreatedNS p) @ omitInt ''updated_ns'' (UpdatedNS p))"

definition PolicyListResp :: "Policy list \<Rightarrow> json" where
  "PolicyListResp ps = JObj [(''policies'', JArr (map PolicyEntry ps))]"

definition NociceptionJson :: "NociceptionError \<Rightarrow> json" where
  "NociceptionJson n = JObj [(''policy_id'', JStr (nPolicyID n)), (''policy_name'', JStr (nPolicyName n)), (''message'', JStr (Message n)),
     (''severity'', JStr (nSeverity n))]"

definition policyResultJson :: "PolicyResult \<Rightarrow> json" where
  "policyResultJson r = JObj ([(''policy_id'', JStr (rPolicyID r)), (''policy_name'', JStr (rPolicyName r)), (''effect'', JStr (rEffect r)),
     (''matched'', JBool (Matched r))] @ omitStr ''error_message'' (rErrorMessage r))"

definition PolicyEvaluateResp :: "bool \<Rightarrow> bool \<Rightarrow> NociceptionError option \<Rightarrow> PolicyResult list \<Rightarrow> json" where
  "PolicyEvaluateResp allowed denied n rs = JObj ([(''allowed'', JBool allowed), (''denied'', JBool denied)] @
     (case n of None \<Rightarrow> [] | Some e \<Rightarrow> [(''nociception'', NociceptionJson e)]) @
     (if rs = [] then [] else [(''policy_results'', JArr (map policyResultJson rs))]))"

definition metaValue :: "(string \<times> string) list \<Rightarrow> string \<Rightarrow> string" where
  "metaValue m k = (case map_of m k of Some v \<Rightarrow> v | None \<Rightarrow> [])"

definition TokenRequestResp :: "Credential \<Rightarrow> json" where
  "TokenRequestResp c = JObj ([(''success'', JBool True)] @ omitStr ''token_id'' (cdID c) @ omitStr ''token_type'' (cdType c) @
     omitStr ''access_key'' (metaValue (cdMetadata c) ''access_key'') @ omitStr ''secret_key'' (cdSecret c) @
     omitStr ''session_token'' (metaValue (cdMetadata c) ''session_token'') @ omitStr ''resource'' (scResource (cdScope c)) @
     omitInt ''expires_ns'' (wrap64 (cdExpiresAt c)))"

definition TokenEntry :: "Credential \<Rightarrow> json" where
  "TokenEntry c = JObj [(''token_id'', JStr (cdID c)), (''provider'', JStr (cdProvider c)), (''token_type'', JStr (cdType c)),
     (''resource'', JStr (scResource (cdScope c))), (''action'', JStr (joinWith '','' (scPermissions (cdScope c)))), (''agent_id'', JStr (cdAgentID c)),
     (''created_ns'', numJ (wrap64 (cdIssuedAt c))), (''expires_ns'', numJ (wrap64 (cdExpiresAt c))), (''single_use'', JBool False),
     (''state'', JStr ''active'')]"

definition TokenListResp :: "Credential list \<Rightarrow> json" where
  "TokenListResp cs = JObj [(''tokens'', JArr (map TokenEntry cs))]"

definition AuditEventJson :: "AuditEventEntry \<Rightarrow> json" where
  "AuditEventJson e = JObj ([(''timestamp_ns'', numJ (aeTimestampNS e)), (''component'', JStr (aeComponent e)), (''event_type'', JStr (aeEventType e))] @
     omitStr ''description'' (aeDescription e))"

definition AuditEventsResp :: "AuditEventEntry list \<Rightarrow> json" where
  "AuditEventsResp es = JObj [(''events'', JArr (map AuditEventJson es))]"

definition QueryResp :: "Receipt list \<Rightarrow> json" where
  "QueryResp rs = JObj [(''receipts'', if rs = [] then JNull else JArr (map (\<lambda>r. JObj (receiptFields r)) rs))]"

definition MCPLogEntry :: "LogEntry \<Rightarrow> json" where
  "MCPLogEntry e = JObj ([(''id'', numJ (leID e)),
     (''direction'', JStr (case leDirection e of DirClientToServer \<Rightarrow> ''c2s'' | DirServerToClient \<Rightarrow> ''s2c'')),
     (''method'', JStr (leMethod e))] @ omitStr ''request_id'' (leRequestID e) @ omitStr ''content'' (leContent e) @
     [(''toks_est'', numJ (leToksEst e)), (''injection'', JBool (leInjection e))] @ omitStr ''injection_type'' (leInjectionTy e) @
     [(''pruned'', JBool (lePruned e)), (''pruned_chars'', numJ (lePrunedChars e)), (''timestamp_ns'', numJ (leTimestampNS e))])"

definition MCPLogResp :: "LogEntry list \<Rightarrow> json" where
  "MCPLogResp es = JObj [(''entries'', JArr (map MCPLogEntry es))]"

text \<open>\<open>fmtRate\<close> is the JSON form of the burn rate, the sum of the last minute divided by 60.\<close>

definition MCPStatusResp :: "(int \<Rightarrow> string) \<Rightarrow> int \<Rightarrow> McpStats \<Rightarrow> json" where
  "MCPStatusResp fmtRate uptime s = JObj [(''running'', JBool True), (''uptime_secs'', numJ uptime), (''total_msgs'', numJ (TotalMessages s)),
     (''total_toks'', numJ (TotalToks s)), (''burn_rate'', JNum (fmtRate (BurnToks s))), (''inj_count'', numJ (InjectionCount s)),
     (''pruned_count'', numJ (PrunedCount s)), (''pruned_bytes'', numJ (PrunedBytes s))]"

definition mcpNotRunning :: json where
  "mcpNotRunning = JObj [(''running'', JBool False), (''uptime_secs'', numJ 0), (''total_msgs'', numJ 0), (''total_toks'', numJ 0),
     (''burn_rate'', JNum ''0''), (''inj_count'', numJ 0), (''pruned_count'', numJ 0), (''pruned_bytes'', numJ 0),
     (''message'', JStr ''proxy not running'')]"

end
