(* ===== verification/Base58.thy ===== *)
theory Base58
  imports GoLib
begin

text \<open>
  \<open>base58Encode\<close> of \<open>internal/identity/identity.go\<close>, which turns the hash of a public
  key into an agent identifier by repeated long division, and its reference semantics:
  the digits of the number that the bytes spell.
\<close>

section \<open>The encoder\<close>

definition alphabet58 :: string where
  "alphabet58 = ''123456789ABCDEFGHJKLMNPQRSTUVWXYZabcdefghijkmnopqrstuvwxyz''"

text \<open>
  One pass of the inner loop over the digits (base 256, most significant first): the quotient
  without its leading zeros and the remainder.
\<close>

fun divPass :: "nat list \<Rightarrow> nat \<Rightarrow> nat list \<Rightarrow> nat list \<times> nat" where
  "divPass [] rem nxt = (nxt, rem)"
| "divPass (v # vs) rem nxt = (let cur = rem * 256 + v; q = cur div 58 in
     divPass vs (cur mod 58) (if nxt \<noteq> [] \<or> 0 < q then nxt @ [q] else nxt))"

definition val256 :: "nat list \<Rightarrow> nat" where
  "val256 ds = foldl (\<lambda>a d. a * 256 + d) 0 ds"

lemma val256_snoc [simp]: "val256 (ds @ [d]) = val256 ds * 256 + d"
  by (simp add: val256_def)

lemma val256_Nil [simp]: "val256 [] = 0"
  by (simp add: val256_def)

lemma val256_append: "val256 (as @ bs) = val256 as * 256 ^ length bs + val256 bs"
  by (induction bs rule: rev_induct) (simp_all add: algebra_simps flip: append_assoc)

lemma divPass_spec:
  "divPass vs rem nxt = (qs, r) \<Longrightarrow> rem < 58 \<Longrightarrow>
     r < 58 \<and> val256 qs * 58 + r = (val256 nxt * 58 + rem) * 256 ^ length vs + val256 vs"
proof (induction vs arbitrary: rem nxt)
  case (Cons v vs)
  let ?cur = "rem * 256 + v"
  let ?nxt = "if nxt \<noteq> [] \<or> 0 < ?cur div 58 then nxt @ [?cur div 58] else nxt"
  have n: "val256 ?nxt = val256 nxt * 256 + ?cur div 58" by auto
  have "divPass vs (?cur mod 58) ?nxt = (qs, r)" using Cons.prems(1) by (simp add: Let_def)
  from Cons.IH [OF this] have ih: "r < 58"
    "val256 qs * 58 + r = (val256 ?nxt * 58 + ?cur mod 58) * 256 ^ length vs + val256 vs" by simp_all
  have e: "val256 ?nxt * 58 + ?cur mod 58 = val256 nxt * 256 * 58 + ?cur"
    unfolding n using div_mult_mod_eq [of ?cur 58] by (simp only: algebra_simps)
  have c: "val256 (v # vs) = v * 256 ^ length vs + val256 vs"
    using val256_append [of "[v]" vs] by (simp add: val256_def)
  have "val256 qs * 58 + r = (val256 nxt * 58 + rem) * 256 ^ length (v # vs) + val256 (v # vs)"
    unfolding ih(2) e c by (simp add: algebra_simps)
  with ih(1) show ?case by blast
qed simp

lemma divPass_val:
  assumes "divPass vs 0 [] = (qs, r)"
  shows "val256 qs = val256 vs div 58" and "r = val256 vs mod 58"
proof -
  have r: "r < 58" and e: "val256 vs = val256 qs * 58 + r" using divPass_spec [OF assms] by auto
  from r show "val256 qs = val256 vs div 58" unfolding e by simp
  from r show "r = val256 vs mod 58" unfolding e by simp
qed

lemma divPass_head: "divPass vs rem nxt = (qs, r) \<Longrightarrow> nxt = [] \<or> 0 < hd nxt \<Longrightarrow> qs = [] \<or> 0 < hd qs"
  by (induction vs arbitrary: rem nxt) (auto simp: Let_def hd_append split: if_splits)

lemma val256_pos: "ds \<noteq> [] \<Longrightarrow> 0 < hd ds \<Longrightarrow> 0 < val256 ds"
  using val256_append [of "[hd ds]" "tl ds"] by (cases ds) (auto simp: val256_def)

lemma divPass_Nil_iff: "divPass vs 0 [] = (qs, r) \<Longrightarrow> qs = [] \<longleftrightarrow> val256 vs < 58"
proof -
  assume d: "divPass vs 0 [] = (qs, r)"
  have "qs = [] \<longleftrightarrow> val256 qs = 0" using divPass_head [OF d] val256_pos [of qs] by force
  then show ?thesis using divPass_val(1) [OF d] by (simp add: div_eq_0_iff)
qed

text \<open>
  The outer loop, least significant digit first. It ends because the number falls with every
  pass; the length of the digit list need not.
\<close>

function digits58 :: "nat list \<Rightarrow> nat list" where
  "digits58 num = (if num = [] then [] else (case divPass num 0 [] of (nxt, r) \<Rightarrow> r # digits58 nxt))"
  by pat_completeness auto
termination
proof (relation "measure (\<lambda>num. if num = [] then 0 else Suc (val256 num))", goal_cases)
  case (2 num nxt r)
  then have d: "divPass num 0 [] = (nxt, r)" by simp
  show ?case
    using 2(1) divPass_val(1) [OF d] divPass_Nil_iff [OF d] by (auto simp: not_less)
qed simp

declare digits58.simps [simp del]

definition base58Encode :: "bytes \<Rightarrow> string" where
  "base58Encode input = rev (map (\<lambda>d. alphabet58 ! d) (digits58 (map byte input)) @
     replicate (length (takeWhile (\<lambda>b. byte b = 0) input)) (alphabet58 ! 0))"

section \<open>Reference semantics\<close>

text \<open>The digits of a number in base 58, least significant first, and a number's value.\<close>

fun toBase58 :: "nat \<Rightarrow> nat list" where
  "toBase58 n = (if n < 58 then [n] else (n mod 58) # toBase58 (n div 58))"

declare toBase58.simps [simp del]

lemma digits58_ref: "num \<noteq> [] \<Longrightarrow> digits58 num = toBase58 (val256 num)"
proof (induction num rule: digits58.induct)
  case (1 num)
  obtain nxt r where d: "divPass num 0 [] = (nxt, r)" by fastforce
  note v = divPass_val [OF d]
  show ?case
  proof (cases "val256 num < 58")
    case True
    then have "nxt = []" using divPass_Nil_iff [OF d] by simp
    then have "digits58 num = [val256 num]"
      using 1(2) d v True by (subst digits58.simps) (simp add: digits58.simps [of "[]"])
    then show ?thesis using True by (simp add: toBase58.simps [of "val256 num"])
  next
    case False
    then have ne: "nxt \<noteq> []" using divPass_Nil_iff [OF d] by simp
    have "digits58 nxt = toBase58 (val256 num div 58)" using "1.IH" [OF 1(2) _ ne] d v by simp
    then have "digits58 num = val256 num mod 58 # toBase58 (val256 num div 58)"
      using 1(2) d v by (subst digits58.simps) simp
    then show ?thesis using False by (simp add: toBase58.simps [of "val256 num"])
  qed
qed

definition val58 :: "nat list \<Rightarrow> nat" where
  "val58 ds = foldr (\<lambda>d a. a * 58 + d) ds 0"

lemma val58_Cons [simp]: "val58 (d # ds) = val58 ds * 58 + d"
  by (simp add: val58_def)

lemma val58_toBase58 [simp]: "val58 (toBase58 n) = n"
proof (induction n rule: toBase58.induct)
  case (1 n)
  show ?case
  proof (cases "n < 58")
    case True
    then show ?thesis by (subst toBase58.simps) (simp add: val58_def)
  next
    case False
    then have "val58 (toBase58 (n div 58)) = n div 58" using 1 by simp
    with False show ?thesis by (subst toBase58.simps) simp
  qed
qed

lemma toBase58_bound: "d \<in> set (toBase58 n) \<Longrightarrow> d < 58"
proof (induction n rule: toBase58.induct)
  case (1 n)
  then show ?case by (subst (asm) toBase58.simps) (auto split: if_splits)
qed

lemma toBase58_last: "last (toBase58 n) = 0 \<longleftrightarrow> n = 0"
proof (induction n rule: toBase58.induct)
  case (1 n)
  show ?case
  proof (cases "n < 58")
    case True
    then show ?thesis by (subst toBase58.simps) simp
  next
    case False
    then have "last (toBase58 (n div 58)) = 0 \<longleftrightarrow> n div 58 = 0" using 1 by simp
    moreover have "toBase58 (n div 58) \<noteq> []" by (subst toBase58.simps) simp
    moreover have "n div 58 \<noteq> 0" using False by (simp add: div_eq_0_iff)
    ultimately show ?thesis using False by (subst toBase58.simps) auto
  qed
qed

lemma toBase58_not_Nil [simp]: "toBase58 n \<noteq> []"
  by (subst toBase58.simps) simp

lemma alphabet58_length: "length alphabet58 = 58"
  by (simp add: alphabet58_def)

lemma alphabet58_distinct: "distinct alphabet58"
  by (simp add: alphabet58_def)

section \<open>Decoding\<close>

text \<open>
  A decoder, for the statement of the round trip: leading \<open>1\<close> characters are zero bytes. The
  encoder writes one more of them than there are zero bytes when every byte is zero.
\<close>

fun indexOf :: "string \<Rightarrow> char \<Rightarrow> nat" where
  "indexOf [] c = 0"
| "indexOf (x # xs) c = (if x = c then 0 else Suc (indexOf xs c))"

fun toBytes :: "nat \<Rightarrow> nat list" where
  "toBytes n = (if n = 0 then [] else toBytes (n div 256) @ [n mod 256])"

declare toBytes.simps [simp del]

definition base58Decode :: "string \<Rightarrow> bytes" where
  "base58Decode s = (let
       z = length (takeWhile (\<lambda>c. c = alphabet58 ! 0) s);
       n = val58 (map (indexOf alphabet58) (rev (dropWhile (\<lambda>c. c = alphabet58 ! 0) s)))
     in map char_of (replicate (if n = 0 then z - 1 else z) 0 @ toBytes n))"

lemma indexOf_nth: "distinct xs \<Longrightarrow> i < length xs \<Longrightarrow> indexOf xs (xs ! i) = i"
  by (induction xs arbitrary: i) (auto simp: nth_Cons split: nat.splits)

lemma alphabet58_nth: "d < 58 \<Longrightarrow> indexOf alphabet58 (alphabet58 ! d) = d"
  by (rule indexOf_nth) (simp_all add: alphabet58_distinct alphabet58_length)

lemma alphabet58_eq: "d < 58 \<Longrightarrow> alphabet58 ! d = alphabet58 ! 0 \<longleftrightarrow> d = 0"
  using alphabet58_distinct alphabet58_length by (simp add: nth_eq_iff_index_eq)

lemma toBytes_val256: "ds = [] \<or> 0 < hd ds \<Longrightarrow> \<forall>d\<in>set ds. d < 256 \<Longrightarrow> toBytes (val256 ds) = ds"
proof (induction ds rule: rev_induct)
  case Nil
  then show ?case by (simp add: toBytes.simps)
next
  case (snoc d ds)
  have d: "d < 256" using snoc.prems by simp
  have "ds = [] \<or> 0 < hd ds" using snoc.prems(1) by (cases ds) auto
  then have ih: "toBytes (val256 ds) = ds" using snoc by simp
  have "0 < val256 (ds @ [d])" using snoc.prems(1) by (intro val256_pos) auto
  then show ?case using d ih by (subst toBytes.simps) simp
qed

lemma val256_zeros: "val256 (replicate z 0 @ ds) = val256 ds"
proof -
  have "val256 (replicate z 0) = 0" by (induction z) (simp_all add: replicate_append_same [symmetric])
  then show ?thesis by (simp add: val256_append)
qed

lemma bytes_split:
  obtains z r where "map byte b = replicate z 0 @ r" "z = length (takeWhile (\<lambda>c. byte c = 0) b)"
    "r = [] \<or> 0 < hd r" "\<forall>d\<in>set r. d < 256" "b = map char_of (replicate z 0 @ r)"
proof -
  let ?z = "length (takeWhile (\<lambda>c. byte c = 0) b)" and ?r = "map byte (dropWhile (\<lambda>c. byte c = 0) b)"
  have t: "map byte (takeWhile (\<lambda>c. byte c = 0) b) = replicate ?z 0"
    by (rule replicate_eqI) (auto dest: set_takeWhileD)
  then have m: "map byte b = replicate ?z 0 @ ?r"
    by (metis map_append takeWhile_dropWhile_id)
  have "?r = [] \<or> 0 < hd ?r"
    by (metis (mono_tags, lifting) hd_dropWhile hd_map list.map_disc_iff neq0_conv)
  moreover have "\<forall>d\<in>set ?r. d < 256" using byte_less by auto
  moreover have "b = map char_of (map byte b)" by (simp add: comp_def)
  ultimately show ?thesis using that [of ?z ?r] m by simp
qed

lemma base58Encode_ref:
  assumes "map byte b = replicate z 0 @ r" "z = length (takeWhile (\<lambda>c. byte c = 0) b)" "b \<noteq> []"
  shows "base58Encode b = replicate z (alphabet58 ! 0) @ rev (map ((!) alphabet58) (toBase58 (val256 r)))"
proof -
  have "digits58 (map byte b) = toBase58 (val256 r)"
    using assms(3) digits58_ref [of "map byte b"] val256_zeros [of z r]
    by (metis assms(1) map_is_Nil_conv)
  then show ?thesis by (simp add: base58Encode_def assms(2))
qed

lemma strip_ones:
  assumes "n \<noteq> 0"
  shows "takeWhile (\<lambda>c. c = alphabet58 ! 0) (replicate z (alphabet58 ! 0) @ rev (map ((!) alphabet58) (toBase58 n)))
      = replicate z (alphabet58 ! 0)"
    and "dropWhile (\<lambda>c. c = alphabet58 ! 0) (replicate z (alphabet58 ! 0) @ rev (map ((!) alphabet58) (toBase58 n)))
      = rev (map ((!) alphabet58) (toBase58 n))"
proof -
  let ?w = "rev (map ((!) alphabet58) (toBase58 n))"
  have "last (toBase58 n) < 58" using toBase58_bound last_in_set toBase58_not_Nil by blast
  then have "hd ?w \<noteq> alphabet58 ! 0"
    using assms toBase58_last [of n] alphabet58_eq by (simp add: hd_rev last_map)
  moreover have "?w \<noteq> []" by simp
  ultimately obtain x xs where w: "?w = x # xs" "x \<noteq> alphabet58 ! 0" by (cases ?w) auto
  have a: "\<forall>c\<in>set (replicate z (alphabet58 ! 0)). c = alphabet58 ! 0" by auto
  show "takeWhile (\<lambda>c. c = alphabet58 ! 0) (replicate z (alphabet58 ! 0) @ ?w) = replicate z (alphabet58 ! 0)"
    unfolding w(1) using w(2) by (subst takeWhile_append2) auto
  show "dropWhile (\<lambda>c. c = alphabet58 ! 0) (replicate z (alphabet58 ! 0) @ ?w) = ?w"
    unfolding w(1) using w(2) by (subst dropWhile_append2) auto
qed

text \<open>
  Base58 identifiers lose nothing. Decoding what \<open>base58Encode\<close> prints gives back the
  bytes, for every input, leading zero bytes included; so two different byte strings
  never print alike, and the identifiers of two agents differ when the
  hashes they are derived from do.
\<close>

theorem base58_roundtrip: "base58Decode (base58Encode b) = b"
proof (cases "b = []")
  case True
  then show ?thesis
    by (simp add: base58Encode_def digits58.simps base58Decode_def Let_def val58_def toBytes.simps)
next
  case False
  obtain z r where m: "map byte b = replicate z 0 @ r" "z = length (takeWhile (\<lambda>c. byte c = 0) b)"
    and r: "r = [] \<or> 0 < hd r" "\<forall>d\<in>set r. d < 256" and b: "b = map char_of (replicate z 0 @ r)"
    by (rule bytes_split)
  note e = base58Encode_ref [OF m False]
  show ?thesis
  proof (cases "r = []")
    case True
    have "base58Encode b = replicate (Suc z) (alphabet58 ! 0)"
      unfolding e True by (simp add: toBase58.simps [of 0] replicate_append_same)
    then have "base58Decode (base58Encode b) = map char_of (replicate z (0 :: nat))"
      by (simp add: base58Decode_def Let_def val58_def toBytes.simps [of 0] takeWhile_replicate dropWhile_replicate
          del: replicate_Suc)
    then show ?thesis using b True by simp
  next
    case ne: False
    then have n: "val256 r \<noteq> 0" using r val256_pos by auto
    have i: "map (indexOf alphabet58) (map ((!) alphabet58) (toBase58 (val256 r))) = toBase58 (val256 r)"
      unfolding map_map by (rule map_idI) (simp add: alphabet58_nth toBase58_bound)
    have "base58Decode (base58Encode b) = map char_of (replicate z 0 @ toBytes (val256 r))"
      unfolding e base58Decode_def strip_ones [OF n] Let_def rev_rev_ident i val58_toBase58
      using n by (simp only: if_False length_replicate)
    then show ?thesis using b toBytes_val256 [OF r] by simp
  qed
qed

end
