(* ===== verification/Keystore.thy ===== *)
theory Keystore
  imports GoStruct Base58 "HOL-Library.AList" "HOL-Library.Char_ord" "HOL-Library.List_Lexorder"
begin

text \<open>
  \<open>internal/identity\<close>: agents and their identifiers (\<open>identity.go\<close>), the keystore, a
  directory of encrypted key files with a cache in memory (\<open>keystore.go\<close>), and key rotation
  (\<open>rotation.go\<close>). AES-256-GCM is a parameter, the record \<open>aead\<close>; so are the key
  pairs that \<open>ed25519.GenerateKey\<close> draws, the nonces and the wall clock.
\<close>

section \<open>Agents\<close>

definition AgentIDPrefix :: string where
  "AgentIDPrefix = ''ans_''"

record Agent =
  agID :: string
  agName :: string
  agVersion :: string
  agOwner :: string
  agPublicKey :: bytes
  agPrivateKey :: bytes
  agRegisteredAt :: i64
  agMetadata :: "(string \<times> string) list"

definition deriveID :: "crypto \<Rightarrow> bytes \<Rightarrow> string" where
  "deriveID C pub = AgentIDPrefix @ base58Encode (take 10 (sha256 C pub))"

definition NewFromKeys :: "crypto \<Rightarrow> i64 \<Rightarrow> string \<Rightarrow> string \<Rightarrow> string \<Rightarrow> bytes \<Rightarrow> bytes \<Rightarrow> Agent" where
  "NewFromKeys C now name ver owner pub priv = \<lparr>agID = deriveID C pub, agName = name, agVersion = ver,
     agOwner = owner, agPublicKey = pub, agPrivateKey = priv, agRegisteredAt = now, agMetadata = []\<rparr>"

text \<open>\<open>New\<close>: the random source yields a key pair or fails.\<close>

definition NewAgent :: "crypto \<Rightarrow> (bytes \<times> bytes) option \<Rightarrow> i64 \<Rightarrow> string \<Rightarrow> string \<Rightarrow> string \<Rightarrow> Agent option" where
  "NewAgent C keys now name ver owner = (case keys of None \<Rightarrow> None | Some (pub, priv) \<Rightarrow>
     Some \<lparr>agID = deriveID C pub, agName = name, agVersion = ver,
       agOwner = owner, agPublicKey = pub, agPrivateKey = priv, agRegisteredAt = now, agMetadata = []\<rparr>)"

definition agentSign :: "crypto \<Rightarrow> Agent \<Rightarrow> bytes \<Rightarrow> ('e, bytes) go" where
  "agentSign C a msg = ed25519Sign C (agPrivateKey a) msg"

definition agentVerify :: "crypto \<Rightarrow> Agent \<Rightarrow> bytes \<Rightarrow> bytes \<Rightarrow> ('e, bool) go" where
  "agentVerify C a msg sig = ed25519Verify C (agPublicKey a) msg sig"

record AgentExport =
  axID :: string
  axName :: string
  axVersion :: string
  axOwner :: string
  axPublicKeyHex :: string
  axRegisteredAt :: i64
  axMetadata :: "(string \<times> string) list"

definition Export :: "Agent \<Rightarrow> AgentExport" where
  "Export a = \<lparr>axID = agID a, axName = agName a, axVersion = agVersion a, axOwner = agOwner a,
     axPublicKeyHex = hexEncode (agPublicKey a), axRegisteredAt = agRegisteredAt a, axMetadata = agMetadata a\<rparr>"

section \<open>The cipher\<close>

text \<open>
  AES-GCM: \<open>aeadSeal\<close> and \<open>aeadOpen\<close> take a key, a nonce of 12 bytes and a text.
  \<open>aead_ok\<close> is the documented contract: what was sealed opens under the same key and nonce.
\<close>

record aead =
  aeadSeal :: "bytes \<Rightarrow> bytes \<Rightarrow> bytes \<Rightarrow> bytes"
  aeadOpen :: "bytes \<Rightarrow> bytes \<Rightarrow> bytes \<Rightarrow> bytes option"

definition aead_ok :: "aead \<Rightarrow> bool" where
  "aead_ok A \<longleftrightarrow> (\<forall>k n p. aeadOpen A k n (aeadSeal A k n p) = Some p)"

definition nonceSize :: nat where
  "nonceSize = 12"

definition validKeyLen :: "bytes \<Rightarrow> bool" where
  "validKeyLen key \<longleftrightarrow> length key \<in> {16, 24, 32}"

text \<open>\<open>rand.Read\<close> fills the nonce or fails.\<close>

definition ksEncrypt :: "aead \<Rightarrow> bytes option \<Rightarrow> bytes \<Rightarrow> bytes \<Rightarrow> bytes option" where
  "ksEncrypt A nonce key plaintext = (if \<not> validKeyLen key then None else
     (case nonce of None \<Rightarrow> None | Some n \<Rightarrow> Some (n @ aeadSeal A key n plaintext)))"

definition ksDecrypt :: "aead \<Rightarrow> bytes \<Rightarrow> bytes \<Rightarrow> bytes option" where
  "ksDecrypt A key ciphertext = (if \<not> validKeyLen key then None
     else if length ciphertext < nonceSize then None
     else aeadOpen A key (take nonceSize ciphertext) (drop nonceSize ciphertext))"

lemma ksDecrypt_Encrypt:
  assumes "aead_ok A" and "ksEncrypt A (Some n) key p = Some c" and "length n = nonceSize"
  shows "ksDecrypt A key c = Some p"
  using assms by (auto simp: ksEncrypt_def ksDecrypt_def aead_ok_def split: if_splits)

section \<open>Key files\<close>

text \<open>\<open>agentIDSafe\<close> is \<open>^[a-zA-Z0-9_-]+$\<close>.\<close>

definition idChar :: "char \<Rightarrow> bool" where
  "idChar c \<longleftrightarrow> (let b = byte c in (97 \<le> b \<and> b \<le> 122) \<or> (65 \<le> b \<and> b \<le> 90) \<or> (48 \<le> b \<and> b \<le> 57) \<or> b = 95 \<or> b = 45)"

definition agentIDSafe :: "string \<Rightarrow> bool" where
  "agentIDSafe s \<longleftrightarrow> s \<noteq> [] \<and> list_all idChar s"

datatype ks_err =
    BadIDLength
  | BadIDChars
  | EncryptFailed
  | WriteFailed
  | AgentNotFound string
  | ReadFailed
  | DecryptFailed
  | UnmarshalFailed
  | RemoveFailed
  | DirFailed
  | KeygenFailed

definition sanitizeAgentID :: "string \<Rightarrow> ks_err option" where
  "sanitizeAgentID i = (if i = [] \<or> 128 < length i then Some BadIDLength
     else if \<not> agentIDSafe i then Some BadIDChars else None)"

record KeystoreEntry =
  keAgentID :: string
  keName :: string
  keVersion :: string
  keOwner :: string
  kePublicKey :: bytes
  kePrivateKey :: bytes

definition entryMembers :: "KeystoreEntry \<Rightarrow> (string \<times> json) list" where
  "entryMembers e = [(''agent_id'', JStr (keAgentID e)), (''name'', JStr (keName e)),
     (''version'', JStr (keVersion e)), (''owner'', JStr (keOwner e)),
     (''public_key'', bytesJson (kePublicKey e)), (''private_key'', bytesJson (kePrivateKey e))]"

definition entrySchema :: schema where
  "entrySchema = [(''agent_id'', KStr), (''name'', KStr), (''version'', KStr), (''owner'', KStr),
     (''public_key'', KBytes), (''private_key'', KBytes)]"

definition unmarshalEntry :: "bytes \<Rightarrow> KeystoreEntry option" where
  "unmarshalEntry raw = map_option (\<lambda>m. \<lparr>keAgentID = strF m ''agent_id'', keName = strF m ''name'',
     keVersion = strF m ''version'', keOwner = strF m ''owner'', kePublicKey = bytesF m ''public_key'',
     kePrivateKey = bytesF m ''private_key''\<rparr>) (decodeStruct entrySchema raw)"

definition entryOf :: "Agent \<Rightarrow> KeystoreEntry" where
  "entryOf a = \<lparr>keAgentID = agID a, keName = agName a, keVersion = agVersion a, keOwner = agOwner a,
     kePublicKey = agPublicKey a, kePrivateKey = agPrivateKey a\<rparr>"

definition entry_utf8 :: "KeystoreEntry \<Rightarrow> bool" where
  "entry_utf8 e \<longleftrightarrow> validUtf8 (keAgentID e) \<and> validUtf8 (keName e) \<and> validUtf8 (keVersion e) \<and> validUtf8 (keOwner e)"

lemma bytesJson_decode: "bytesJson b = JNull \<or> decodeField KBytes None (bytesJson b) \<noteq> None"
  by (simp add: bytesJson_def decodeField_def)

lemma bytesJson_read: "(case (if bytesJson b = JNull then None else decodeField KBytes None (bytesJson b)) of
    Some (FBytes x) \<Rightarrow> x | _ \<Rightarrow> []) = b"
  by (simp add: bytesJson_def decodeField_def)

lemma unmarshalEntry_marshal:
  assumes "entry_utf8 e"
  shows "unmarshalEntry (jsonEnc (JObj (entryMembers e))) = Some e"
proof -
  have "flat_ok (entryMembers e)"
    using assms by (auto simp: flat_ok_def entryMembers_def entry_utf8_def bytesJson_def intro!: validUtf8_ascii)
  moreover have "wellTyped entrySchema (entryMembers e)"
    using bytesJson_decode by (auto simp: wellTyped_def entryMembers_def entrySchema_def decodeField_def)
  ultimately have "decodeStruct entrySchema (jsonEnc (JObj (entryMembers e))) =
      Some (fieldsOf entrySchema (entryMembers e))" by (rule decodeStruct_encode)
  moreover have "strF (fieldsOf entrySchema (entryMembers e)) ''agent_id'' = keAgentID e"
    "strF (fieldsOf entrySchema (entryMembers e)) ''name'' = keName e"
    "strF (fieldsOf entrySchema (entryMembers e)) ''version'' = keVersion e"
    "strF (fieldsOf entrySchema (entryMembers e)) ''owner'' = keOwner e"
    "bytesF (fieldsOf entrySchema (entryMembers e)) ''public_key'' = kePublicKey e"
    "bytesF (fieldsOf entrySchema (entryMembers e)) ''private_key'' = kePrivateKey e"
    by (simp_all add: field_defs fieldsOf_def entryMembers_def entrySchema_def decodeField_def bytesJson_def)
  ultimately show ?thesis by (simp add: unmarshalEntry_def)
qed

section \<open>The keystore\<close>

definition cacheTTL :: i64 where
  "cacheTTL = 5 * 60000000000"

text \<open>
  The directory is an association list of file names and contents; a sanitized identifier has no
  path separator, so \<open>filepath.Join(dir, id + ".key")\<close> is an entry of it.
\<close>

record Keystore =
  ksEncKey :: bytes
  ksFiles :: "(string \<times> bytes) list"
  ksCache :: "string \<Rightarrow> (Agent \<times> i64) option"

definition newKeystore :: "bytes \<Rightarrow> (string \<times> bytes) list \<Rightarrow> Keystore" where
  "newKeystore key files = \<lparr>ksEncKey = key, ksFiles = files, ksCache = Map.empty\<rparr>"

definition keyFile :: "string \<Rightarrow> string" where
  "keyFile i = i @ ''.key''"

text \<open>What a call reads from outside: clock, random values, and the outcome of file operations.\<close>

datatype write_outcome = Written | OpenFailed | Truncated bytes

datatype dir_outcome = DirOk | DirMissing | DirUnreadable

record ks_env =
  kvNow :: i64
  kvRegistered :: i64
  kvCachedAt :: i64
  kvNonce :: "bytes option"
  kvKeys :: "(bytes \<times> bytes) option"
  kvStamp :: string
  kvReadErr :: bool
  kvWrite :: write_outcome
  kvRemoveErr :: bool
  kvDir :: dir_outcome

definition writeFile :: "write_outcome \<Rightarrow> string \<Rightarrow> bytes \<Rightarrow> Keystore \<Rightarrow> ks_err option \<times> Keystore" where
  "writeFile w f c ks = (case w of
     Written \<Rightarrow> (None, ks\<lparr>ksFiles := AList.update f c (ksFiles ks)\<rparr>)
   | OpenFailed \<Rightarrow> (Some WriteFailed, ks)
   | Truncated d \<Rightarrow> (Some WriteFailed, ks\<lparr>ksFiles := AList.update f d (ksFiles ks)\<rparr>))"

definition saveLocked :: "aead \<Rightarrow> ks_env \<Rightarrow> Agent \<Rightarrow> Keystore \<Rightarrow> ks_err option \<times> Keystore" where
  "saveLocked A E a ks = (case sanitizeAgentID (agID a) of Some e \<Rightarrow> (Some e, ks) | None \<Rightarrow>
     let ks1 = ks\<lparr>ksCache := (ksCache ks)(agID a := None)\<rparr> in
     (case ksEncrypt A (kvNonce E) (ksEncKey ks1) (jsonEnc (JObj (entryMembers (entryOf a)))) of
        None \<Rightarrow> (Some EncryptFailed, ks1)
      | Some c \<Rightarrow> writeFile (kvWrite E) (keyFile (agID a)) c ks1))"

definition Save :: "aead \<Rightarrow> ks_env \<Rightarrow> Agent \<Rightarrow> Keystore \<Rightarrow> ks_err option \<times> Keystore" where
  "Save A E a ks = saveLocked A E a ks"

definition loadLocked :: "crypto \<Rightarrow> aead \<Rightarrow> ks_env \<Rightarrow> string \<Rightarrow> Keystore \<Rightarrow> (ks_err + Agent) \<times> Keystore" where
  "loadLocked C A E i ks = (case sanitizeAgentID i of Some e \<Rightarrow> (Inl e, ks) | None \<Rightarrow>
     let miss = (if kvReadErr E then (Inl ReadFailed, ks) else
       (case map_of (ksFiles ks) (keyFile i) of None \<Rightarrow> (Inl (AgentNotFound i), ks) | Some c \<Rightarrow>
       (case ksDecrypt A (ksEncKey ks) c of None \<Rightarrow> (Inl DecryptFailed, ks) | Some p \<Rightarrow>
       (case unmarshalEntry p of None \<Rightarrow> (Inl UnmarshalFailed, ks) | Some e \<Rightarrow>
          let a = NewFromKeys C (kvRegistered E) (keName e) (keVersion e) (keOwner e) (kePublicKey e) (kePrivateKey e)
          in (Inr a, ks\<lparr>ksCache := (ksCache ks)(i \<mapsto> (a, wrap64 (kvCachedAt E + cacheTTL)))\<rparr>)))))
     in (case ksCache ks i of
           Some (a, expires) \<Rightarrow> if kvNow E < expires then (Inr a, ks) else miss
         | None \<Rightarrow> miss))"

definition Load :: "crypto \<Rightarrow> aead \<Rightarrow> ks_env \<Rightarrow> string \<Rightarrow> Keystore \<Rightarrow> (ks_err + Agent) \<times> Keystore" where
  "Load C A E i ks = loadLocked C A E i ks"

definition hasKeyExt :: "string \<Rightarrow> bool" where
  "hasKeyExt f \<longleftrightarrow> 4 \<le> length f \<and> drop (length f - 4) f = ''.key''"

text \<open>\<open>os.ReadDir\<close> sorts by file name.\<close>

definition KeystoreList :: "ks_env \<Rightarrow> Keystore \<Rightarrow> ks_err + string list" where
  "KeystoreList E ks = (case kvDir E of
     DirMissing \<Rightarrow> Inr []
   | DirUnreadable \<Rightarrow> Inl DirFailed
   | DirOk \<Rightarrow> Inr (map (\<lambda>f. take (length f - 4) f) (filter hasKeyExt (sort (map fst (ksFiles ks))))))"

definition KeystoreDelete :: "ks_env \<Rightarrow> string \<Rightarrow> Keystore \<Rightarrow> ks_err option \<times> Keystore" where
  "KeystoreDelete E i ks = (case sanitizeAgentID i of Some e \<Rightarrow> (Some e, ks) | None \<Rightarrow>
     let ks1 = ks\<lparr>ksCache := (ksCache ks)(i := None)\<rparr> in
     if kvRemoveErr E \<or> map_of (ksFiles ks1) (keyFile i) = None then (Some RemoveFailed, ks1)
     else (None, ks1\<lparr>ksFiles := AList.delete (keyFile i) (ksFiles ks1)\<rparr>))"

section \<open>Rotation\<close>

record RotationRecord =
  roAgentID :: string
  roOldPublicKey :: string
  roNewPublicKey :: string
  roRotatedAt :: string
  roOldSignature :: string
  roNewSignature :: string

definition rotationBody :: "string \<Rightarrow> string \<Rightarrow> string \<Rightarrow> string \<Rightarrow> bytes" where
  "rotationBody i oldPub newPub stamp = jsonEnc (JObj [(''agent_id'', JStr i), (''old_public_key_hex'', JStr oldPub),
     (''new_public_key_hex'', JStr newPub), (''rotated_at'', JStr stamp)])"

definition Rotate :: "crypto \<Rightarrow> aead \<Rightarrow> ks_env \<Rightarrow> string \<Rightarrow> Keystore \<Rightarrow> (ks_err, Agent \<times> RotationRecord) go \<times> Keystore" where
  "Rotate C A E i ks = (case loadLocked C A E i ks of
     (Inl e, ks1) \<Rightarrow> (Err e, ks1)
   | (Inr old, ks1) \<Rightarrow>
     (case NewAgent C (kvKeys E) (kvRegistered E) (agName old) (agVersion old) (agOwner old) of
        None \<Rightarrow> (Err KeygenFailed, ks1)
      | Some new \<Rightarrow>
        let op = hexEncode (agPublicKey old); np = hexEncode (agPublicKey new);
            body = rotationBody i op np (kvStamp E) in
        (case (ed25519Sign C (agPrivateKey old) body :: (ks_err, bytes) go,
               ed25519Sign C (agPrivateKey new) body :: (ks_err, bytes) go) of
           (Ok os, Ok ns) \<Rightarrow>
             let rc = \<lparr>roAgentID = i, roOldPublicKey = op, roNewPublicKey = np, roRotatedAt = kvStamp E,
               roOldSignature = hexEncode os, roNewSignature = hexEncode ns\<rparr> in
             (case saveLocked A E new ks1 of
                (Some e, ks2) \<Rightarrow> (Err e, ks2)
              | (None, ks2) \<Rightarrow> (Ok (new, rc), ks2))
         | _ \<Rightarrow> (Panic, ks1))))"

datatype rotation_err = NilRecord | BadOldKey | BadNewKey | BadOldSigHex | BadNewSigHex | OldSigInvalid | NewSigInvalid

definition VerifyRotation :: "crypto \<Rightarrow> RotationRecord option \<Rightarrow> rotation_err option" where
  "VerifyRotation C rc = (case rc of None \<Rightarrow> Some NilRecord | Some r \<Rightarrow>
     let body = rotationBody (roAgentID r) (roOldPublicKey r) (roNewPublicKey r) (roRotatedAt r) in
     (case hexDecodeString (roOldPublicKey r) of None \<Rightarrow> Some BadOldKey | Some op \<Rightarrow>
     if length op \<noteq> 32 then Some BadOldKey else
     (case hexDecodeString (roNewPublicKey r) of None \<Rightarrow> Some BadNewKey | Some np \<Rightarrow>
     if length np \<noteq> 32 then Some BadNewKey else
     (case hexDecodeString (roOldSignature r) of None \<Rightarrow> Some BadOldSigHex | Some os \<Rightarrow>
     (case hexDecodeString (roNewSignature r) of None \<Rightarrow> Some BadNewSigHex | Some ns \<Rightarrow>
     if (ed25519Verify C op body os :: (unit, bool) go) \<noteq> Ok True then Some OldSigInvalid
     else if (ed25519Verify C np body ns :: (unit, bool) go) \<noteq> Ok True then Some NewSigInvalid
     else None)))))"

section \<open>The cache agrees with the directory\<close>

definition diskAgent :: "crypto \<Rightarrow> aead \<Rightarrow> i64 \<Rightarrow> Keystore \<Rightarrow> string \<Rightarrow> ks_err + Agent" where
  "diskAgent C A now ks i = (case map_of (ksFiles ks) (keyFile i) of None \<Rightarrow> Inl (AgentNotFound i) | Some c \<Rightarrow>
     (case ksDecrypt A (ksEncKey ks) c of None \<Rightarrow> Inl DecryptFailed | Some p \<Rightarrow>
     (case unmarshalEntry p of None \<Rightarrow> Inl UnmarshalFailed | Some e \<Rightarrow>
        Inr (NewFromKeys C now (keName e) (keVersion e) (keOwner e) (kePublicKey e) (kePrivateKey e)))))"

definition coherent :: "crypto \<Rightarrow> aead \<Rightarrow> Keystore \<Rightarrow> bool" where
  "coherent C A ks \<longleftrightarrow> (\<forall>i a x. ksCache ks i = Some (a, x) \<longrightarrow> diskAgent C A (agRegisteredAt a) ks i = Inr a)"

lemma keyFile_eq [simp]: "keyFile i = keyFile j \<longleftrightarrow> i = j"
  by (simp add: keyFile_def)

lemma loadLocked_eq:
  "loadLocked C A E i ks = (case sanitizeAgentID i of Some e \<Rightarrow> (Inl e, ks) | None \<Rightarrow>
     (case ksCache ks i of
        Some (a, x) \<Rightarrow> if kvNow E < x then (Inr a, ks)
          else if kvReadErr E then (Inl ReadFailed, ks)
          else (diskAgent C A (kvRegistered E) ks i, case diskAgent C A (kvRegistered E) ks i of Inl _ \<Rightarrow> ks
             | Inr a \<Rightarrow> ks\<lparr>ksCache := (ksCache ks)(i \<mapsto> (a, wrap64 (kvCachedAt E + cacheTTL)))\<rparr>)
      | None \<Rightarrow> if kvReadErr E then (Inl ReadFailed, ks)
          else (diskAgent C A (kvRegistered E) ks i, case diskAgent C A (kvRegistered E) ks i of Inl _ \<Rightarrow> ks
             | Inr a \<Rightarrow> ks\<lparr>ksCache := (ksCache ks)(i \<mapsto> (a, wrap64 (kvCachedAt E + cacheTTL)))\<rparr>)))"
  unfolding loadLocked_def diskAgent_def Let_def
  by (auto split: option.split)

lemma diskAgent_cong: "ksFiles ks' = ksFiles ks \<Longrightarrow> ksEncKey ks' = ksEncKey ks \<Longrightarrow> diskAgent C A t ks' i = diskAgent C A t ks i"
  unfolding diskAgent_def by (simp split: option.split)

lemma diskAgent_cache [simp]: "diskAgent C A t (ks\<lparr>ksCache := m\<rparr>) i = diskAgent C A t ks i"
  by (rule diskAgent_cong) simp_all

lemma diskAgent_time: "diskAgent C A t ks i = Inr a \<Longrightarrow> agRegisteredAt a = t"
  by (auto simp: diskAgent_def NewFromKeys_def split: option.splits)

lemma diskAgent_self: "diskAgent C A t ks i = Inr a \<Longrightarrow> diskAgent C A (agRegisteredAt a) ks i = Inr a"
  by (simp add: diskAgent_time)

lemma diskAgent_other: "i \<noteq> j \<Longrightarrow> diskAgent C A t (ks\<lparr>ksFiles := AList.update (keyFile j) c (ksFiles ks)\<rparr>) i = diskAgent C A t ks i"
  unfolding diskAgent_def by (simp add: update_conv' split: option.split)

lemma diskAgent_other_delete: "i \<noteq> j \<Longrightarrow> diskAgent C A t (ks\<lparr>ksFiles := AList.delete (keyFile j) (ksFiles ks)\<rparr>) i = diskAgent C A t ks i"
  unfolding diskAgent_def by (simp add: delete_conv' split: option.split)

lemma coherent_uncache: "coherent C A ks \<Longrightarrow> coherent C A (ks\<lparr>ksCache := (ksCache ks)(i := None)\<rparr>)"
  by (auto simp: coherent_def)

lemma coherent_write:
  "coherent C A ks \<Longrightarrow> ksCache ks i = None \<Longrightarrow> coherent C A (ks\<lparr>ksFiles := AList.update (keyFile i) c (ksFiles ks)\<rparr>)"
  by (auto simp: coherent_def) (metis diskAgent_other option.distinct(1))

lemma coherent_remove:
  "coherent C A ks \<Longrightarrow> ksCache ks i = None \<Longrightarrow> coherent C A (ks\<lparr>ksFiles := AList.delete (keyFile i) (ksFiles ks)\<rparr>)"
  by (auto simp: coherent_def) (metis diskAgent_other_delete option.distinct(1))

lemma coherent_save:
  assumes "coherent C A ks"
  shows "coherent C A (snd (saveLocked A E a ks))"
proof -
  let ?k = "ks\<lparr>ksCache := (ksCache ks)(agID a := None)\<rparr>"
  have u: "coherent C A ?k" using assms by (rule coherent_uncache)
  have w: "coherent C A (?k\<lparr>ksFiles := AList.update (keyFile (agID a)) c (ksFiles ?k)\<rparr>)" for c
    using u by (rule coherent_write) simp
  show ?thesis
    using assms u w by (simp add: saveLocked_def writeFile_def Let_def split: option.split write_outcome.split)
qed

lemma coherent_load:
  assumes "coherent C A ks"
  shows "coherent C A (snd (loadLocked C A E i ks))"
  using assms
  by (auto simp: loadLocked_eq coherent_def intro: diskAgent_self split: option.split sum.split)

lemma coherent_delete:
  assumes "coherent C A ks"
  shows "coherent C A (snd (KeystoreDelete E i ks))"
proof -
  let ?k = "ks\<lparr>ksCache := (ksCache ks)(i := None)\<rparr>"
  have u: "coherent C A ?k" using assms by (rule coherent_uncache)
  have "coherent C A (?k\<lparr>ksFiles := AList.delete (keyFile i) (ksFiles ?k)\<rparr>)"
    using u by (rule coherent_remove) simp
  then show ?thesis
    using assms u by (simp add: KeystoreDelete_def Let_def split: option.split)
qed

lemma coherent_rotate:
  assumes "coherent C A ks"
  shows "coherent C A (snd (Rotate C A E i ks))"
proof -
  obtain r ks1 where l: "loadLocked C A E i ks = (r, ks1)" by fastforce
  have "coherent C A ks1" using coherent_load [OF assms, of E i] l by simp
  then have "coherent C A ks1 \<and> (\<forall>a. coherent C A (snd (saveLocked A E a ks1)))"
    using coherent_save by blast
  then show ?thesis
    using l by (auto simp: Rotate_def Let_def split: sum.split option.split go.split prod.split)
       (metis snd_conv)+
qed

text \<open>The keystore as a machine of its calls.\<close>

datatype ks_event =
    KSave ks_env Agent
  | KLoad ks_env string
  | KDelete ks_env string
  | KRotate ks_env string

definition ksStep :: "crypto \<Rightarrow> aead \<Rightarrow> Keystore \<Rightarrow> ks_event \<Rightarrow> Keystore" where
  "ksStep C A ks ev = (case ev of
     KSave E a \<Rightarrow> snd (Save A E a ks)
   | KLoad E i \<Rightarrow> snd (Load C A E i ks)
   | KDelete E i \<Rightarrow> snd (KeystoreDelete E i ks)
   | KRotate E i \<Rightarrow> snd (Rotate C A E i ks))"

interpretation keystoreSys: inv_system "ksStep C A" "\<lambda>_. True" "coherent C A" for C A
  by unfold_locales
    (auto simp: ksStep_def Save_def Load_def coherent_save coherent_load coherent_delete coherent_rotate
      split: ks_event.split)

lemma coherent_new: "coherent C A (newKeystore key files)"
  by (simp add: coherent_def newKeystore_def)

definition keyMaterial :: "Agent \<Rightarrow> string \<times> string \<times> string \<times> string \<times> bytes \<times> bytes" where
  "keyMaterial a = (agID a, agName a, agVersion a, agOwner a, agPublicKey a, agPrivateKey a)"

lemma diskAgent_material: "diskAgent C A t ks i = Inr a \<Longrightarrow> \<exists>b. diskAgent C A u ks i = Inr b \<and> keyMaterial b = keyMaterial a"
  by (auto simp: diskAgent_def NewFromKeys_def keyMaterial_def split: option.splits)

text \<open>
  C28. The keystore's cache is transparent. After any sequence of saves, loads, deletions and
  rotations through one keystore, with any failures of the file system and any clock, loading an
  agent whose key file is readable gives exactly what an empty cache would give: the same error, or
  an agent with the same identifier, name, version, owner and keys. So a deleted or
  replaced key is never served from memory.
\<close>

theorem keystore_cache_transparent:
  assumes "\<not> kvReadErr E"
  shows "let ks = run (ksStep C A) (newKeystore key files) es in
    map_sum (\<lambda>e. e) keyMaterial (fst (Load C A E i ks)) =
    map_sum (\<lambda>e. e) keyMaterial (fst (Load C A E i (ks\<lparr>ksCache := Map.empty\<rparr>)))"
proof -
  define ks where "ks = run (ksStep C A) (newKeystore key files) es"
  have co: "coherent C A ks"
    unfolding ks_def by (rule keystoreSys.run_inv [OF coherent_new]) (simp add: list_all_iff)
  have "map_sum (\<lambda>e. e) keyMaterial (Inr a) = map_sum (\<lambda>e. e) keyMaterial (diskAgent C A (kvRegistered E) ks i)"
    if "ksCache ks i = Some (a, x)" for a x
    using co that diskAgent_material [of C A _ ks i a "kvRegistered E"] by (fastforce simp: coherent_def)
  then show ?thesis
    using assms unfolding ks_def [symmetric] Let_def Load_def loadLocked_eq
    by (simp split: option.split)
qed

text \<open>Concrete values for the witnesses: a cipher that appends the key, a hash
  that is cheap to evaluate, and a key pair.\<close>

definition toyAead :: aead where
  "toyAead = \<lparr>aeadSeal = (\<lambda>k n p. p @ k), aeadOpen = (\<lambda>k n c.
     if length k \<le> length c \<and> drop (length c - length k) c = k then Some (take (length c - length k) c) else None)\<rparr>"

lemma toyAead_ok: "aead_ok toyAead"
  by (simp add: aead_ok_def toyAead_def)

definition flatCrypto :: crypto where
  "flatCrypto = \<lparr>sha256 = \<lambda>_. replicate 32 (CHR 0x00), edSign = \<lambda>k _. take 64 k,
     edVerify = \<lambda>p _ sg. take 32 sg = p, edPublic = take 32\<rparr>"

lemma flatCrypto_ok: "crypto_ok flatCrypto"
  by (simp add: crypto_ok_def flatCrypto_def)

definition exKey :: "nat \<Rightarrow> bytes" where
  "exKey k = replicate 64 (char_of (k + 65))"

definition exKsEnv :: "nat \<Rightarrow> ks_env" where
  "exKsEnv k = \<lparr>kvNow = 100, kvRegistered = 200, kvCachedAt = 300, kvNonce = Some (replicate 12 (CHR ''n'')),
     kvKeys = Some (take 32 (exKey k), exKey k), kvStamp = ''2024-01-02T03:04:05Z'', kvReadErr = False,
     kvWrite = Written, kvRemoveErr = False, kvDir = DirOk\<rparr>"

definition exAgent :: "nat \<Rightarrow> Agent" where
  "exAgent k = NewFromKeys flatCrypto 7 ''bot'' ''1.0'' ''me'' (take 32 (exKey k)) (exKey k)"

definition exKeystore :: Keystore where
  "exKeystore = newKeystore (replicate 32 (CHR ''k'')) []"

theorem keystore_cache_transparent_witness:
  "let ks = run (ksStep flatCrypto toyAead) exKeystore
       [KSave (exKsEnv 0) (exAgent 0), KLoad (exKsEnv 0) (agID (exAgent 0)), KDelete (exKsEnv 0) (agID (exAgent 0))] in
   map_sum (\<lambda>e. e) keyMaterial (fst (Load flatCrypto toyAead (exKsEnv 0) (agID (exAgent 0)) ks)) =
   map_sum (\<lambda>e. e) keyMaterial (fst (Load flatCrypto toyAead (exKsEnv 0) (agID (exAgent 0)) (ks\<lparr>ksCache := Map.empty\<rparr>)))"
  unfolding exKeystore_def by (rule keystore_cache_transparent) (simp add: exKsEnv_def)

section \<open>Saving and loading\<close>

lemma save_disk:
  assumes "aead_ok A" and "saveLocked A E a ks = (None, ks')"
    and "kvNonce E = Some n" and "length n = nonceSize" and "entry_utf8 (entryOf a)"
  shows "diskAgent C A t ks' (agID a) =
      Inr (NewFromKeys C t (agName a) (agVersion a) (agOwner a) (agPublicKey a) (agPrivateKey a))"
    and "ksCache ks' (agID a) = None" and "sanitizeAgentID (agID a) = None"
proof -
  let ?p = "jsonEnc (JObj (entryMembers (entryOf a)))"
  from assms(2,3) obtain c where s: "sanitizeAgentID (agID a) = None"
    and c: "ksEncrypt A (Some n) (ksEncKey ks) ?p = Some c"
    and ks': "ks' = ks\<lparr>ksCache := (ksCache ks)(agID a := None), ksFiles := AList.update (keyFile (agID a)) c (ksFiles ks)\<rparr>"
    by (auto simp: saveLocked_def writeFile_def Let_def split: option.splits write_outcome.splits)
  have "ksDecrypt A (ksEncKey ks) c = Some ?p" by (rule ksDecrypt_Encrypt [OF assms(1) c assms(4)])
  then show "diskAgent C A t ks' (agID a) =
      Inr (NewFromKeys C t (agName a) (agVersion a) (agOwner a) (agPublicKey a) (agPrivateKey a))"
    using unmarshalEntry_marshal [OF assms(5)] ks' by (simp add: diskAgent_def update_conv' entryOf_def)
  show "ksCache ks' (agID a) = None" "sanitizeAgentID (agID a) = None" using ks' s by simp_all
qed

text \<open>
  A saved key can be loaded. After a successful \<open>Save\<close> of an agent whose text fields are
  valid UTF-8, the next \<open>Load\<close> of its identifier, at any time, returns an agent with its
  name, version, owner, public and private key, whose identifier is derived from the public
  key; the JSON, the base64 of the keys and the encryption cancel out.
\<close>

theorem keystore_save_load:
  assumes "aead_ok A" and "Save A E a ks = (None, ks')"
    and "kvNonce E = Some n" and "length n = nonceSize" and "entry_utf8 (entryOf a)"
    and "\<not> kvReadErr F"
  shows "fst (Load C A F (agID a) ks') =
    Inr (NewFromKeys C (kvRegistered F) (agName a) (agVersion a) (agOwner a) (agPublicKey a) (agPrivateKey a))"
  using save_disk(1) [OF assms(1) assms(2) [unfolded Save_def] assms(3-5), of C "kvRegistered F"]
    save_disk(2,3) [OF assms(1) assms(2) [unfolded Save_def] assms(3-5)] assms(6)
  by (simp add: Load_def loadLocked_eq)

lemma exAgent_facts: "agID (exAgent k) = ''ans_11111111111''" "agName (exAgent k) = ''bot''"
    "agVersion (exAgent k) = ''1.0''" "agOwner (exAgent k) = ''me''"
    "agPublicKey (exAgent k) = take 32 (exKey k)" "agPrivateKey (exAgent k) = exKey k"
    "deriveID flatCrypto pub = ''ans_11111111111''"
proof -
  have "AgentIDPrefix @ base58Encode (take 10 (replicate 32 (CHR 0x00))) = ''ans_11111111111''" by code_simp
  then show d: "deriveID flatCrypto pub = ''ans_11111111111''" for pub
    unfolding deriveID_def flatCrypto_def by (simp only: crypto.simps)
  show "agID (exAgent k) = ''ans_11111111111''" "agName (exAgent k) = ''bot''"
    "agVersion (exAgent k) = ''1.0''" "agOwner (exAgent k) = ''me''"
    "agPublicKey (exAgent k) = take 32 (exKey k)" "agPrivateKey (exAgent k) = exKey k"
    using d by (simp_all add: exAgent_def NewFromKeys_def)
qed

lemma exID_safe: "sanitizeAgentID ''ans_11111111111'' = None"
  by code_simp

lemma exAgent_utf8: "entry_utf8 (entryOf (exAgent k))"
  unfolding entry_utf8_def entryOf_def KeystoreEntry.simps exAgent_facts by code_simp

lemma exSave: "Save toyAead (exKsEnv 0) (exAgent 0) exKeystore = (None, snd (Save toyAead (exKsEnv 0) (exAgent 0) exKeystore))"
proof -
  have "fst (Save toyAead (exKsEnv 0) (exAgent 0) exKeystore) = None"
    by (simp add: Save_def saveLocked_def exAgent_facts exID_safe ksEncrypt_def validKeyLen_def exKeystore_def
        newKeystore_def exKsEnv_def writeFile_def Let_def)
  then show ?thesis by (metis prod.collapse)
qed

theorem keystore_save_load_witness:
  "fst (Load flatCrypto toyAead (exKsEnv 0) (agID (exAgent 0)) (snd (Save toyAead (exKsEnv 0) (exAgent 0) exKeystore))) =
   Inr (NewFromKeys flatCrypto 200 ''bot'' ''1.0'' ''me'' (take 32 (exKey 0)) (exKey 0))"
  using keystore_save_load [OF toyAead_ok exSave, of "replicate 12 (CHR ''n'')" "exKsEnv 0" flatCrypto] exAgent_utf8
  by (simp add: exKsEnv_def nonceSize_def exAgent_facts)

section \<open>Rotations\<close>

lemma loadLocked_keys:
  assumes "loadLocked C A E i ks = (Inr a, ks1)" and "coherent C A ks"
  shows "\<exists>t. diskAgent C A t ks i = Inr a"
  using assms by (fastforce simp: loadLocked_eq coherent_def split: option.splits if_splits)

lemma rotation_result:
  assumes C: "crypto_ok C" and load: "loadLocked C A E i ks = (Inr old, ks1)"
    and old: "length (agPrivateKey old) = 64" "agPublicKey old = edPublic C (agPrivateKey old)"
    and new: "kvKeys E = Some (edPublic C k, k)" "length k = 64"
    and run: "Rotate C A E i ks = (Ok (a, rc), ks')"
  shows "VerifyRotation C (Some rc) = None" and "roAgentID rc = i"
    and "(agName a, agVersion a, agOwner a) = (agName old, agVersion old, agOwner old)"
    and "\<forall>f. f \<noteq> keyFile (agID a) \<longrightarrow> map_of (ksFiles ks') f = map_of (ksFiles ks) f"
proof -
  note D = crypto_okD [OF C]
  let ?b = "rotationBody i (hexEncode (agPublicKey old)) (hexEncode (edPublic C k)) (kvStamp E)"
  let ?rc = "\<lparr>roAgentID = i, roOldPublicKey = hexEncode (agPublicKey old), roNewPublicKey = hexEncode (edPublic C k),
    roRotatedAt = kvStamp E, roOldSignature = hexEncode (edSign C (agPrivateKey old) ?b),
    roNewSignature = hexEncode (edSign C k ?b)\<rparr>"
  have r: "rc = ?rc" and a: "(agName a, agVersion a, agOwner a) = (agName old, agVersion old, agOwner old)"
    and s: "saveLocked A E a ks1 = (None, ks')"
    using run load old(1) new
    by (auto simp: Rotate_def NewAgent_def ed25519Sign_def Let_def split: prod.splits option.splits)
  show "roAgentID rc = i" "(agName a, agVersion a, agOwner a) = (agName old, agVersion old, agOwner old)"
    using r a by simp_all
  have "length (agPublicKey old) = 32" "length (edPublic C k) = 32"
    using D(3) [OF old(1)] D(3) [OF new(2)] old(2) by simp_all
  then show "VerifyRotation C (Some rc) = None"
    using D(2,4) [OF old(1)] D(2,4) [OF new(2)] old(2) unfolding r
    by (simp add: VerifyRotation_def ed25519Verify_def Let_def)
  have "ksFiles ks1 = ksFiles ks"
    using load by (auto simp: loadLocked_eq split: option.splits if_splits sum.splits)
  then show "\<forall>f. f \<noteq> keyFile (agID a) \<longrightarrow> map_of (ksFiles ks') f = map_of (ksFiles ks) f"
    using s by (auto simp: saveLocked_def writeFile_def Let_def update_conv' split: option.splits write_outcome.splits)
qed

lemma load_encKey [simp]: "ksEncKey (snd (loadLocked C A E i ks)) = ksEncKey ks"
  by (auto simp: loadLocked_eq split: option.split sum.split)

lemma save_encKey [simp]: "ksEncKey (snd (saveLocked A E a ks)) = ksEncKey ks"
  by (auto simp: saveLocked_def writeFile_def Let_def split: option.split write_outcome.split)

lemma rotate_Ok:
  assumes "loadLocked C A E i ks = (Inr old, ks1)" and "length (agPrivateKey old) = 64"
    and "kvKeys E = Some (pub, k)" and "length k = 64" and "sanitizeAgentID (deriveID C pub) = None"
    and "kvNonce E = Some n" and "kvWrite E = Written" and "validKeyLen (ksEncKey ks1)"
  shows "is_Ok (fst (Rotate C A E i ks))"
  unfolding Rotate_def assms(1) using assms(2-)
  by (simp add: NewAgent_def ed25519Sign_def saveLocked_def ksEncrypt_def writeFile_def Let_def)

text \<open>
  Rotation records verify. When the old private key is the key of the old public key, a
  successful \<open>Rotate\<close> returns a record that \<open>VerifyRotation\<close> accepts, the new agent
  keeps name, version and owner, and the key files other than the new agent's own are untouched.
\<close>

theorem rotation_verifies:
  assumes "crypto_ok C" and "loadLocked C A E i ks = (Inr old, ks1)"
    and "length (agPrivateKey old) = 64" and "agPublicKey old = edPublic C (agPrivateKey old)"
    and "kvKeys E = Some (edPublic C k, k)" and "length k = 64"
    and "Rotate C A E i ks = (Ok (a, rc), ks')"
  shows "VerifyRotation C (Some rc) = None \<and> roAgentID rc = i \<and>
    (agName a, agVersion a, agOwner a) = (agName old, agVersion old, agOwner old) \<and>
    (\<forall>f. f \<noteq> keyFile (agID a) \<longrightarrow> map_of (ksFiles ks') f = map_of (ksFiles ks) f)"
  using rotation_result [OF assms] by blast

theorem rotation_verifies_witness:
  "\<exists>a rc ks'. Rotate flatCrypto toyAead (exKsEnv 1) (agID (exAgent 0))
       (snd (Save toyAead (exKsEnv 0) (exAgent 0) exKeystore)) = (Ok (a, rc), ks') \<and>
     VerifyRotation flatCrypto (Some rc) = None"
proof -
  let ?ks = "snd (Save toyAead (exKsEnv 0) (exAgent 0) exKeystore)"
  let ?l = "loadLocked flatCrypto toyAead (exKsEnv 1) (agID (exAgent 0)) ?ks"
  let ?r = "Rotate flatCrypto toyAead (exKsEnv 1) (agID (exAgent 0)) ?ks"
  let ?old = "NewFromKeys flatCrypto 200 ''bot'' ''1.0'' ''me'' (take 32 (exKey 0)) (exKey 0)"
  have E: "kvNonce (exKsEnv j) = Some (replicate 12 (CHR ''n''))" "kvWrite (exKsEnv j) = Written"
    "\<not> kvReadErr (exKsEnv j)" "kvRegistered (exKsEnv j) = 200"
    "kvKeys (exKsEnv j) = Some (edPublic flatCrypto (exKey j), exKey j)" "length (exKey j) = 64" for j
    by (simp_all add: exKsEnv_def flatCrypto_def exKey_def)
  note sd = save_disk [OF toyAead_ok exSave [unfolded Save_def] E(1) _ exAgent_utf8, folded Save_def]
  have "fst ?l = Inr ?old"
    using sd(1) [of flatCrypto 200] sd(2,3) E(3,4) [of 1]
    by (simp add: loadLocked_eq nonceSize_def exAgent_facts)
  then have l: "?l = (Inr ?old, snd ?l)" by (metis prod.collapse)
  have o: "length (agPrivateKey ?old) = 64" "agPublicKey ?old = edPublic flatCrypto (agPrivateKey ?old)"
    using E(6) by (simp_all add: NewFromKeys_def flatCrypto_def)
  have "ksEncKey (snd ?l) = replicate 32 (CHR ''k'')"
    by (simp add: Save_def exKeystore_def newKeystore_def)
  then have "is_Ok (fst ?r)"
    using rotate_Ok [OF l o(1) E(5,6) _ E(1,2)] by (simp add: exAgent_facts exID_safe validKeyLen_def)
  then obtain a rc where "fst ?r = Ok (a, rc)" by (auto simp: is_Ok_iff)
  then have r: "?r = (Ok (a, rc), snd ?r)" by (metis prod.collapse)
  show ?thesis using rotation_verifies [OF flatCrypto_ok l o E(5,6) r] r by blast
qed

definition forgedRotation :: "crypto \<Rightarrow> string \<Rightarrow> bytes \<Rightarrow> bytes \<Rightarrow> string \<Rightarrow> RotationRecord" where
  "forgedRotation C i k1 k2 stamp = (let op = hexEncode (edPublic C k1); np = hexEncode (edPublic C k2);
     body = rotationBody i op np stamp in
     \<lparr>roAgentID = i, roOldPublicKey = op, roNewPublicKey = np, roRotatedAt = stamp,
      roOldSignature = hexEncode (edSign C k1 body), roNewSignature = hexEncode (edSign C k2 body)\<rparr>)"

text \<open>
  A rotation record binds no agent. \<open>VerifyRotation\<close> checks the two signatures
  against the keys that the record itself carries and never that the old key belongs to
  \<open>AgentID\<close>: whoever holds two key pairs can make an accepted record that names any agent.
\<close>

theorem rotation_binds_no_agent:
  assumes "crypto_ok C" and "length k1 = 64" and "length k2 = 64"
  shows "VerifyRotation C (Some (forgedRotation C victim k1 k2 stamp)) = None \<and>
    roAgentID (forgedRotation C victim k1 k2 stamp) = victim"
  using crypto_okD [OF assms(1)] assms(2,3)
  by (simp add: VerifyRotation_def forgedRotation_def ed25519Verify_def Let_def)

theorem rotation_binds_no_agent_witness:
  "VerifyRotation flatCrypto (Some (forgedRotation flatCrypto (agID (exAgent 0)) (exKey 5) (exKey 6) ''now'')) = None"
  using rotation_binds_no_agent [OF flatCrypto_ok, of "exKey 5" "exKey 6" "agID (exAgent 0)" "''now''"]
  by (simp add: exKey_def)

end
