(* ===== verification/PolicyStore.thy ===== *)
theory PolicyStore
  imports Policy Pii "HOL-Library.Char_ord" "HOL-Library.List_Lexorder"
begin

text \<open>
  \<open>internal/policy/store.go\<close> and \<open>executor.go\<close>: the policies table, the store with
  its cache of enabled policies, the executor and the facts. The table is shared by every store
  that was opened on the database, so it is an argument of the operations; the store record
  holds what a store keeps in memory.
\<close>

section \<open>JSON of conditions and actions\<close>

fun valJson :: "stdlib \<Rightarrow> gval \<Rightarrow> json option"
  and valJsons :: "stdlib \<Rightarrow> gval list \<Rightarrow> json list option"
  and valMembers :: "stdlib \<Rightarrow> (string \<times> gval) list \<Rightarrow> (string \<times> json) list option" where
  "valJson L (VStr s) = Some (JStr s)"
| "valJson L (VInt i) = Some (JNum (showInt i))"
| "valJson L (VI64 i) = Some (JNum (showInt i))"
| "valJson L (VU64 w) = Some (JNum (showNat (unat w)))"
| "valJson L (VFloat f) = map_option JNum (jsonFloat L f)"
| "valJson L (VBool b) = Some (JBool b)"
| "valJson L VNil = Some JNull"
| "valJson L (VList vs) = map_option JArr (valJsons L vs)"
| "valJson L (VMap ms) = map_option JObj (valMembers L ms)"
| "valJsons L [] = Some []"
| "valJsons L (v # vs) = (case valJson L v of None \<Rightarrow> None | Some j \<Rightarrow> map_option (Cons j) (valJsons L vs))"
| "valMembers L [] = Some []"
| "valMembers L ((k, v) # ms) = (case valJson L v of None \<Rightarrow> None | Some j \<Rightarrow>
     map_option (Cons (k, j)) (valMembers L ms))"

definition optArr :: "string \<Rightarrow> json list \<Rightarrow> (string \<times> json) list" where
  "optArr k js = (if js = [] then [] else [(k, JArr js)])"

definition optStr :: "string \<Rightarrow> string \<Rightarrow> (string \<times> json) list" where
  "optStr k s = (if s = '''' then [] else [(k, JStr s)])"

fun condJson :: "stdlib \<Rightarrow> Condition \<Rightarrow> json option"
  and condJsons :: "stdlib \<Rightarrow> Condition list \<Rightarrow> json list option" where
  "condJson L (Condition al an no f op v cre) =
     (case (condJsons L al, condJsons L an, condJsons L no, valJson L v) of
        (Some a, Some b, Some n, Some j) \<Rightarrow> Some (JObj (optArr ''all'' a @ optArr ''any'' b @ optArr ''none'' n @
           optStr ''fact'' f @ optStr ''operator'' op @ (if v = VNil then [] else [(''value'', j)])))
      | _ \<Rightarrow> None)"
| "condJsons L [] = Some []"
| "condJsons L (c # cs) = (case condJson L c of None \<Rightarrow> None | Some j \<Rightarrow> map_option (Cons j) (condJsons L cs))"

definition actionJson :: "PAction \<Rightarrow> json" where
  "actionJson a = JObj ([(''effect'', JStr (Effect a))] @ optStr ''error_type'' (ErrorType a) @
     optStr ''error_message'' (ErrorMessage a))"

fun valOfJson :: "stdlib \<Rightarrow> json \<Rightarrow> gval option"
  and valsOfJson :: "stdlib \<Rightarrow> json list \<Rightarrow> gval list option"
  and membersOfJson :: "stdlib \<Rightarrow> (string \<times> json) list \<Rightarrow> (string \<times> gval) list option" where
  "valOfJson L JNull = Some VNil"
| "valOfJson L (JBool b) = Some (VBool b)"
| "valOfJson L (JNum t) = map_option VFloat (parseFloat L t)"
| "valOfJson L (JStr s) = Some (VStr s)"
| "valOfJson L (JArr vs) = map_option VList (valsOfJson L vs)"
| "valOfJson L (JObj ms) = map_option VMap (membersOfJson L ms)"
| "valsOfJson L [] = Some []"
| "valsOfJson L (v # vs) = (case valOfJson L v of None \<Rightarrow> None | Some x \<Rightarrow> map_option (Cons x) (valsOfJson L vs))"
| "membersOfJson L [] = Some []"
| "membersOfJson L ((k, v) # ms) = (case valOfJson L v of None \<Rightarrow> None | Some x \<Rightarrow>
     map_option (Cons (k, x)) (membersOfJson L ms))"

definition emptyCond :: Condition where
  "emptyCond = Condition [] [] [] '''' '''' VNil None"

definition condFields :: "string list" where
  "condFields = [''all'', ''any'', ''none'', ''fact'', ''operator'', ''value'']"

text \<open>
  Decoding into the struct: keys match field names exactly or up to case, unknown keys are
  skipped, \<open>null\<close> leaves a string as it is and clears a list or value, a value of the wrong
  type is an error, a later key wins.
\<close>

fun condOfJson :: "stdlib \<Rightarrow> json \<Rightarrow> Condition option"
  and condsOfJson :: "stdlib \<Rightarrow> json list \<Rightarrow> Condition list option"
  and condMembers :: "stdlib \<Rightarrow> (string \<times> json) list \<Rightarrow> Condition \<Rightarrow> Condition option" where
  "condOfJson L (JObj ms) = condMembers L ms emptyCond"
| "condOfJson L JNull = Some emptyCond"
| "condOfJson L _ = None"
| "condsOfJson L [] = Some []"
| "condsOfJson L (j # js) = (case condOfJson L j of None \<Rightarrow> None | Some c \<Rightarrow> map_option (Cons c) (condsOfJson L js))"
| "condMembers L [] c = Some c"
| "condMembers L ((k, v) # ms) c =
     (case matchField condFields k of
        None \<Rightarrow> condMembers L ms c
      | Some f \<Rightarrow>
          (if v = JNull then condMembers L ms
             (if f = ''value'' then Condition (All c) (Any c) (NoneOf c) (Fact c) (Operator c) VNil None
              else if f = ''all'' then Condition [] (Any c) (NoneOf c) (Fact c) (Operator c) (Value c) None
              else if f = ''any'' then Condition (All c) [] (NoneOf c) (Fact c) (Operator c) (Value c) None
              else if f = ''none'' then Condition (All c) (Any c) [] (Fact c) (Operator c) (Value c) None
              else c)
           else (case v of
             JArr js \<Rightarrow>
               (if f = ''value'' then (case valOfJson L v of None \<Rightarrow> None | Some x \<Rightarrow>
                    condMembers L ms (Condition (All c) (Any c) (NoneOf c) (Fact c) (Operator c) x None))
                else (case condsOfJson L js of None \<Rightarrow> None | Some cs \<Rightarrow>
                  if f = ''all'' then condMembers L ms (Condition cs (Any c) (NoneOf c) (Fact c) (Operator c) (Value c) None)
                  else if f = ''any'' then condMembers L ms (Condition (All c) cs (NoneOf c) (Fact c) (Operator c) (Value c) None)
                  else if f = ''none'' then condMembers L ms (Condition (All c) (Any c) cs (Fact c) (Operator c) (Value c) None)
                  else None))
           | JStr s \<Rightarrow>
               (if f = ''value'' then condMembers L ms (Condition (All c) (Any c) (NoneOf c) (Fact c) (Operator c) (VStr s) None)
                else if f = ''fact'' then condMembers L ms (Condition (All c) (Any c) (NoneOf c) s (Operator c) (Value c) None)
                else if f = ''operator'' then condMembers L ms (Condition (All c) (Any c) (NoneOf c) (Fact c) s (Value c) None)
                else None)
           | _ \<Rightarrow>
               (if f = ''value'' then (case valOfJson L v of None \<Rightarrow> None | Some x \<Rightarrow>
                    condMembers L ms (Condition (All c) (Any c) (NoneOf c) (Fact c) (Operator c) x None))
                else None))))"

definition actionFields :: "string list" where
  "actionFields = [''effect'', ''error_type'', ''error_message'']"

fun actionMembers :: "(string \<times> json) list \<Rightarrow> PAction \<Rightarrow> PAction option" where
  "actionMembers [] a = Some a"
| "actionMembers ((k, v) # ms) a =
     (case matchField actionFields k of
        None \<Rightarrow> actionMembers ms a
      | Some f \<Rightarrow> (case v of
          JNull \<Rightarrow> actionMembers ms a
        | JStr s \<Rightarrow> actionMembers ms (if f = ''effect'' then a\<lparr>Effect := s\<rparr>
             else if f = ''error_type'' then a\<lparr>ErrorType := s\<rparr> else a\<lparr>ErrorMessage := s\<rparr>)
        | _ \<Rightarrow> None))"

definition unmarshalAction :: "string \<Rightarrow> PAction option" where
  "unmarshalAction s = (case jsonParse s of
     Some (JObj ms) \<Rightarrow> actionMembers ms \<lparr>Effect = '''', ErrorType = '''', ErrorMessage = ''''\<rparr>
   | Some JNull \<Rightarrow> Some \<lparr>Effect = '''', ErrorType = '''', ErrorMessage = ''''\<rparr>
   | _ \<Rightarrow> None)"

section \<open>The table\<close>

record policy_row =
  prId :: string
  prName :: string
  prDescription :: string
  prEnabled :: int
  prPriority :: int
  prSeverity :: string
  prConditions :: string
  prAction :: string
  prCreated :: i64
  prUpdated :: i64

datatype policy_error = PMarshalErr | PExecErr | PQueryErr | PNoRow | PCondErr string | PRegexErr string | PActionErr string

definition boolInt :: "bool \<Rightarrow> int" where
  "boolInt b = (if b then 1 else 0)"

definition scanPolicy :: "stdlib \<Rightarrow> policy_row \<Rightarrow> (policy_error, Policy) go" where
  "scanPolicy L row =
     (case jsonParse (prConditions row) of None \<Rightarrow> Err (PCondErr (prId row)) | Some j \<Rightarrow>
     (case condOfJson L j of None \<Rightarrow> Err (PCondErr (prId row)) | Some c \<Rightarrow>
     (case CompileRegexp L c of None \<Rightarrow> Err (PRegexErr (prId row)) | Some c' \<Rightarrow>
     (case unmarshalAction (prAction row) of None \<Rightarrow> Err (PActionErr (prId row)) | Some a \<Rightarrow>
       Ok \<lparr>PolID = prId row, Name = prName row, Description = prDescription row, Enabled = (prEnabled row \<noteq> 0),
          Priority = prPriority row, Severity = prSeverity row, Conditions = c', Action = a,
          CreatedNS = prCreated row, UpdatedNS = prUpdated row\<rparr>))))"

fun scanPolicies :: "stdlib \<Rightarrow> policy_row list \<Rightarrow> (policy_error, Policy list) go" where
  "scanPolicies L [] = Ok []"
| "scanPolicies L (row # rows) = (case scanPolicy L row of
     Ok p \<Rightarrow> (case scanPolicies L rows of Ok ps \<Rightarrow> Ok (p # ps) | Err e \<Rightarrow> Err e | Panic \<Rightarrow> Panic)
   | Err e \<Rightarrow> Err e | Panic \<Rightarrow> Panic)"

text \<open>\<open>ORDER BY priority DESC, name ASC\<close>; rows equal in both in the order of insertion.\<close>

definition policyOrder :: "policy_row list \<Rightarrow> policy_row list" where
  "policyOrder rows = sort_key (\<lambda>r. - prPriority r) (sort_key prName rows)"

section \<open>The store\<close>

definition policyCacheTTL :: int where
  "policyCacheTTL = 10 * 1000000000"

record cachedPolicies =
  cpPolicies :: "Policy list"
  expiresAt :: i64

record Store =
  cache :: "cachedPolicies option"
  dirty :: bool

definition NewStore :: Store where
  "NewStore = \<lparr>cache = None, dirty = False\<rparr>"

definition policyRow :: "Policy \<Rightarrow> string \<Rightarrow> string \<Rightarrow> i64 \<Rightarrow> policy_row" where
  "policyRow p condJSON actJSON now = \<lparr>prId = PolID p, prName = Name p, prDescription = Description p,
     prEnabled = boolInt (Enabled p), prPriority = Priority p, prSeverity = Severity p,
     prConditions = condJSON, prAction = actJSON, prCreated = now, prUpdated = now\<rparr>"

text \<open>\<open>INSERT OR REPLACE\<close> removes a row with the same key and adds the new one.\<close>

definition Insert :: "stdlib \<Rightarrow> bool \<Rightarrow> i64 \<Rightarrow> Policy \<Rightarrow> policy_row list \<times> Store
    \<Rightarrow> (policy_error, unit) go \<times> policy_row list \<times> Store" where
  "Insert L fault now p st = (let (rows, s) = st; s1 = s\<lparr>dirty := True\<rparr> in
     case condJson L (Conditions p) of
       None \<Rightarrow> (Err PMarshalErr, rows, s1)
     | Some cj \<Rightarrow>
         if fault then (Err PExecErr, rows, s1)
         else (Ok (), filter (\<lambda>r. prId r \<noteq> PolID p) rows @
                [policyRow p (jsonEnc cj) (jsonEnc (actionJson (Action p))) now], s1))"

definition PGet :: "stdlib \<Rightarrow> bool \<Rightarrow> string \<Rightarrow> policy_row list \<Rightarrow> (policy_error, Policy) go" where
  "PGet L fault pid rows = (if fault then Err PQueryErr else
     case find (\<lambda>r. prId r = pid) rows of None \<Rightarrow> Err PNoRow | Some r \<Rightarrow> scanPolicy L r)"

definition listNoLock :: "stdlib \<Rightarrow> bool \<Rightarrow> bool \<Rightarrow> policy_row list \<Rightarrow> (policy_error, Policy list) go" where
  "listNoLock L qfault rfault rows = (if qfault then Err PQueryErr else
     case scanPolicies L (policyOrder rows) of
       Ok ps \<Rightarrow> if rfault then Err PQueryErr else Ok ps
     | Err e \<Rightarrow> Err e | Panic \<Rightarrow> Panic)"

definition fresh :: "i64 \<Rightarrow> Store \<Rightarrow> bool" where
  "fresh now s = (case cache s of None \<Rightarrow> False | Some cp \<Rightarrow> \<not> dirty s \<and> now < expiresAt cp)"

text \<open>
  The times are the readings of the clock at the first check, at the check under the write lock
  and when the new cache gets its expiry.
\<close>

definition ListEnabled :: "stdlib \<Rightarrow> bool \<Rightarrow> bool \<Rightarrow> i64 \<Rightarrow> i64 \<Rightarrow> i64 \<Rightarrow> policy_row list \<Rightarrow> Store
    \<Rightarrow> (policy_error, Policy list) go \<times> Store" where
  "ListEnabled L qfault rfault t1 t2 t3 rows s =
     (if fresh t1 s \<or> fresh t2 s
      then (case cache s of Some cp \<Rightarrow> (Ok (cpPolicies cp), s) | None \<Rightarrow> (Panic, s))
      else (let s1 = s\<lparr>dirty := False\<rparr> in
        case listNoLock L qfault rfault rows of
          Ok ps \<Rightarrow> (let enabled = filter Enabled ps in
            (Ok enabled, s1\<lparr>cache := Some \<lparr>cpPolicies = enabled, expiresAt = wrap64 (t3 + policyCacheTTL)\<rparr>\<rparr>))
        | Err e \<Rightarrow> (Err e, s1)
        | Panic \<Rightarrow> (Panic, s1)))"

definition Delete :: "bool \<Rightarrow> string \<Rightarrow> policy_row list \<times> Store \<Rightarrow> (policy_error, unit) go \<times> policy_row list \<times> Store" where
  "Delete fault pid st = (let (rows, s) = st; s1 = s\<lparr>dirty := True\<rparr> in
     if fault then (Err PExecErr, rows, s1) else (Ok (), filter (\<lambda>r. prId r \<noteq> pid) rows, s1))"

section \<open>The executor\<close>

record EvalResult =
  Allowed :: bool
  Denied :: bool
  Nociception :: "NociceptionError option"
  PolicyResults :: "PolicyResult list"

definition denies :: "PolicyResult \<Rightarrow> bool" where
  "denies pr \<longleftrightarrow> Matched pr \<and> rEffect pr = EffectDeny"

fun evalPolicies :: "(Policy \<Rightarrow> facts \<Rightarrow> PolicyResult) \<Rightarrow> facts \<Rightarrow> Policy list \<Rightarrow> EvalResult \<Rightarrow> EvalResult" where
  "evalPolicies engine facts [] res = res"
| "evalPolicies engine facts (p # ps) res =
     (let pr = engine p facts; res1 = res\<lparr>PolicyResults := PolicyResults res @ [pr]\<rparr> in
      if denies pr
      then res1\<lparr>Allowed := False, Denied := True,
             Nociception := Some \<lparr>nPolicyID = PolID p, nPolicyName = Name p, Message = rErrorMessage pr,
               nSeverity = Severity p, nTimestampNS = 0\<rparr>\<rparr>
      else evalPolicies engine facts ps res1)"

definition allowResult :: EvalResult where
  "allowResult = \<lparr>Allowed = True, Denied = False, Nociception = None, PolicyResults = []\<rparr>"

definition Evaluate :: "(Policy \<Rightarrow> facts \<Rightarrow> PolicyResult) \<Rightarrow> facts \<Rightarrow> (policy_error, Policy list) go \<Rightarrow> EvalResult" where
  "Evaluate engine facts enabled = (case enabled of
     Ok ps \<Rightarrow> evalPolicies engine facts ps allowResult
   | _ \<Rightarrow> \<lparr>Allowed = False, Denied = True, Nociception = None, PolicyResults = []\<rparr>)"

definition ExecutorEvaluate :: "stdlib \<Rightarrow> bool \<Rightarrow> bool \<Rightarrow> i64 \<Rightarrow> i64 \<Rightarrow> i64 \<Rightarrow> policy_row list \<Rightarrow> Store \<Rightarrow> facts
    \<Rightarrow> EvalResult \<times> Store" where
  "ExecutorEvaluate L qfault rfault t1 t2 t3 rows s facts =
     (let (enabled, s') = ListEnabled L qfault rfault t1 t2 t3 rows s
      in (Evaluate (EngineEvaluate L) facts enabled, s'))"

definition MakeFacts :: "string \<Rightarrow> string \<Rightarrow> string \<Rightarrow> string \<Rightarrow> string \<Rightarrow> (string \<rightharpoonup> gval) option \<Rightarrow> facts" where
  "MakeFacts agentID actionType phase payloadSummary parentAgentID context factPath =
     (let pii = DetectPII (payloadSummary @ agentID @ actionType) in
      if factPath = ''agent_id'' then Some (VStr agentID)
      else if factPath = ''action_type'' then Some (VStr actionType)
      else if factPath = ''phase'' then Some (VStr phase)
      else if factPath = ''payload_summary'' then Some (VStr payloadSummary)
      else if factPath = ''parent_agent_id'' then Some (VStr parentAgentID)
      else if factPath = ''context.contains_pii'' then Some (VBool (HasPII pii))
      else if factPath = ''context.has_email'' then Some (VBool (HasEmail pii))
      else if factPath = ''context.has_ssn'' then Some (VBool (HasSSN pii))
      else if factPath = ''context.has_credit_card'' then Some (VBool (HasCreditCard pii))
      else if factPath = ''context.has_ip'' then Some (VBool (HasIP pii))
      else if factPath = ''context.has_phone'' then Some (VBool (HasPhone pii))
      else if factPath = ''context.has_api_key'' then Some (VBool (HasAPIKey pii))
      else (case context of None \<Rightarrow> None | Some m \<Rightarrow> m factPath))"

section \<open>Interface: a policy engine\<close>

text \<open>
  What the executor relies on: the engine's report carries the policy's own identifier, effect
  and message. The decision of the executor is proved from this contract alone.
\<close>

locale policy_engine =
  fixes engine :: "Policy \<Rightarrow> facts \<Rightarrow> PolicyResult"
  assumes reports_id: "rPolicyID (engine p f) = PolID p"
    and reports_effect: "rEffect (engine p f) = Effect (Action p)"
    and reports_message: "rErrorMessage (engine p f) = ErrorMessage (Action p)"
begin

definition blocks :: "facts \<Rightarrow> Policy \<Rightarrow> bool" where
  "blocks f p \<longleftrightarrow> Matched (engine p f) \<and> Effect (Action p) = EffectDeny"

lemma denies_iff: "denies (engine p f) \<longleftrightarrow> blocks f p"
  by (simp add: denies_def blocks_def reports_effect)

lemma evalPolicies_pass:
  "\<forall>p\<in>set ps. \<not> blocks f p \<Longrightarrow>
   evalPolicies engine f ps res = res\<lparr>PolicyResults := PolicyResults res @ map (\<lambda>p. engine p f) ps\<rparr>"
  by (induction ps arbitrary: res) (auto simp: Let_def denies_iff)

lemma evalPolicies_stop:
  assumes "\<forall>p\<in>set us. \<not> blocks f p" and "blocks f p"
  shows "evalPolicies engine f (us @ p # vs) res =
    res\<lparr>PolicyResults := PolicyResults res @ map (\<lambda>p. engine p f) (us @ [p]), Allowed := False, Denied := True,
      Nociception := Some \<lparr>nPolicyID = PolID p, nPolicyName = Name p, Message = ErrorMessage (Action p),
        nSeverity = Severity p, nTimestampNS = 0\<rparr>\<rparr>"
  using assms by (induction us arbitrary: res) (auto simp: Let_def denies_iff reports_message)

lemma decision:
  "(Denied (Evaluate engine f (Ok ps)) \<longleftrightarrow> (\<exists>p\<in>set ps. blocks f p)) \<and>
   (Allowed (Evaluate engine f (Ok ps)) \<longleftrightarrow> \<not> Denied (Evaluate engine f (Ok ps)))"
proof (cases "\<exists>p\<in>set ps. blocks f p")
  case True
  then obtain us p vs where "ps = us @ p # vs" "blocks f p" "\<forall>q\<in>set us. \<not> blocks f q"
    using split_list_first_prop [of ps "blocks f"] by blast
  then show ?thesis by (auto simp: Evaluate_def evalPolicies_stop)
qed (simp add: Evaluate_def evalPolicies_pass allowResult_def)

lemma first_denial:
  assumes "Nociception (Evaluate engine f (Ok ps)) = Some n"
  obtains us p vs where "ps = us @ p # vs" "blocks f p" "\<forall>q\<in>set us. \<not> blocks f q"
    "nPolicyID n = PolID p" "Message n = ErrorMessage (Action p)"
proof (cases "\<exists>p\<in>set ps. blocks f p")
  case True
  then obtain us p vs where "ps = us @ p # vs" "blocks f p" "\<forall>q\<in>set us. \<not> blocks f q"
    using split_list_first_prop [of ps "blocks f"] by blast
  then show thesis using assms by (intro that [of us p vs]) (auto simp: Evaluate_def evalPolicies_stop)
next
  case False
  then show thesis using assms by (simp add: Evaluate_def evalPolicies_pass allowResult_def)
qed

end

interpretation defaultEngine: policy_engine "EngineEvaluate L" for L
  by unfold_locales (simp_all add: EngineEvaluate_def)

lemma defaultEngine_blocks:
  "defaultEngine.blocks L f p \<longleftrightarrow> evaluateCondition L f (Conditions p) \<and> Effect (Action p) = EffectDeny"
  by (simp add: defaultEngine.blocks_def EngineEvaluate_def)

section \<open>The store as a machine\<close>

datatype policy_event =
    PInsert bool i64 Policy
  | PDelete bool string
  | PRefresh bool bool i64 i64 i64

fun policyStep :: "stdlib \<Rightarrow> policy_row list \<times> Store \<Rightarrow> policy_event \<Rightarrow> policy_row list \<times> Store" where
  "policyStep L st (PInsert fault now p) = snd (Insert L fault now p st)"
| "policyStep L st (PDelete fault pid) = snd (Delete fault pid st)"
| "policyStep L (rows, s) (PRefresh qf rf t1 t2 t3) = (rows, snd (ListEnabled L qf rf t1 t2 t3 rows s))"

definition cache_ok :: "policy_row list \<times> Store \<Rightarrow> bool" where
  "cache_ok st = (case cache (snd st) of None \<Rightarrow> True
     | Some cp \<Rightarrow> list_all Enabled (cpPolicies cp) \<and> sorted (map (\<lambda>p. - Priority p) (cpPolicies cp)))"

lemma scanPolicy_priority: "scanPolicy L row = Ok p \<Longrightarrow> Priority p = prPriority row \<and> PolID p = prId row"
  by (auto simp: scanPolicy_def split: option.splits)

lemma scanPolicies_map: "scanPolicies L rows = Ok ps \<Longrightarrow> map Priority ps = map prPriority rows"
proof (induction rows arbitrary: ps)
  case (Cons row rows)
  then show ?case by (auto simp: scanPolicy_priority split: go.splits)
qed simp

lemma scanPolicies_in:
  "scanPolicies L rows = Ok ps \<Longrightarrow> row \<in> set rows \<Longrightarrow> \<exists>p\<in>set ps. scanPolicy L row = Ok p"
  by (induction rows arbitrary: ps) (auto split: go.splits)

lemma listNoLock_sorted:
  assumes "listNoLock L qf rf rows = Ok ps"
  shows "sorted (map (\<lambda>p. - Priority p) ps)"
proof -
  have "scanPolicies L (policyOrder rows) = Ok ps"
    using assms by (auto simp: listNoLock_def split: go.splits if_splits)
  from arg_cong [OF scanPolicies_map [OF this], of "map uminus"]
  have "map (\<lambda>p. - Priority p) ps = map (\<lambda>r. - prPriority r) (policyOrder rows)" by (simp add: comp_def)
  moreover have "sorted (map (\<lambda>r. - prPriority r) (policyOrder rows))" unfolding policyOrder_def by (rule sorted_sort_key)
  ultimately show ?thesis by simp
qed

lemma sorted_map_filter: "sorted (map f xs) \<Longrightarrow> sorted (map f (filter P xs))"
  by (induction xs) auto

lemma ListEnabled_cache_ok:
  assumes "cache_ok (rows, s)"
  shows "cache_ok (rows, snd (ListEnabled L qf rf t1 t2 t3 rows s))"
    and "fst (ListEnabled L qf rf t1 t2 t3 rows s) = Ok ps \<Longrightarrow> list_all Enabled ps \<and> sorted (map (\<lambda>p. - Priority p) ps)"
proof -
  have "list_all Enabled (filter Enabled qs)" for qs by (simp add: list_all_iff)
  then show "cache_ok (rows, snd (ListEnabled L qf rf t1 t2 t3 rows s))"
    using assms listNoLock_sorted [of L qf rf rows]
    by (auto simp: ListEnabled_def Let_def cache_ok_def sorted_map_filter split: option.splits go.splits)
  show "fst (ListEnabled L qf rf t1 t2 t3 rows s) = Ok ps \<Longrightarrow> list_all Enabled ps \<and> sorted (map (\<lambda>p. - Priority p) ps)"
    using assms listNoLock_sorted [of L qf rf rows] \<open>\<And>qs. list_all Enabled (filter Enabled qs)\<close>
    by (auto simp: ListEnabled_def Let_def cache_ok_def sorted_map_filter split: option.splits go.splits if_splits)
qed

lemma cache_ok_cong: "cache (snd st) = cache (snd st') \<Longrightarrow> cache_ok st = cache_ok st'"
  by (simp add: cache_ok_def)

lemma policyStep_cache_ok:
  assumes "cache_ok st"
  shows "cache_ok (policyStep L st e)"
proof (cases e)
  case (PInsert fault now p)
  have "cache (snd (policyStep L st e)) = cache (snd st)"
    by (cases st) (simp add: PInsert Insert_def Let_def split: option.splits)
  then show ?thesis using assms cache_ok_cong by blast
next
  case (PDelete fault pid)
  have "cache (snd (policyStep L st e)) = cache (snd st)"
    by (cases st) (simp add: PDelete Delete_def Let_def)
  then show ?thesis using assms cache_ok_cong by blast
next
  case (PRefresh qf rf t1 t2 t3)
  then show ?thesis using assms ListEnabled_cache_ok(1) by (cases st) simp
qed

interpretation policySys: inv_system "policyStep L" "\<lambda>_. True" cache_ok for L
  by unfold_locales (rule policyStep_cache_ok)

section \<open>Properties\<close>

text \<open>
  C18. The executor decides as the policies say, and fails closed. If the enabled policies cannot
  be listed, the action is denied. Otherwise it is denied if and only if some listed policy has
  effect deny and its conditions hold of the facts; the result is never both allowed and denied;
  and on a store whose operations were the program's, the denial reported is that of a policy
  with the highest priority among those that deny.
\<close>

theorem executor_decision:
  assumes "st = run (policyStep L) ([], NewStore) es" and "(rows, s) = st"
    and "ListEnabled L qf rf t1 t2 t3 rows s = (enabled, s')"
    and "ExecutorEvaluate L qf rf t1 t2 t3 rows s facts = (res, s'')"
  shows "(\<not> is_Ok enabled \<longrightarrow> Denied res \<and> \<not> Allowed res) \<and>
    (\<forall>ps. enabled = Ok ps \<longrightarrow>
       (Denied res \<longleftrightarrow> (\<exists>p\<in>set ps. Effect (Action p) = EffectDeny \<and> evaluateCondition L facts (Conditions p))) \<and>
       (Allowed res \<longleftrightarrow> \<not> Denied res) \<and>
       (\<forall>n. Nociception res = Some n \<longrightarrow> (\<exists>p\<in>set ps. nPolicyID n = PolID p \<and> Message n = ErrorMessage (Action p) \<and>
          evaluateCondition L facts (Conditions p) \<and> Effect (Action p) = EffectDeny \<and>
          (\<forall>q\<in>set ps. Effect (Action q) = EffectDeny \<and> evaluateCondition L facts (Conditions q) \<longrightarrow> Priority q \<le> Priority p))))"
proof -
  have res: "res = Evaluate (EngineEvaluate L) facts enabled" using assms(3,4) by (simp add: ExecutorEvaluate_def)
  have "cache_ok ([], NewStore)" by (simp add: cache_ok_def NewStore_def)
  then have "cache_ok (rows, s)"
    using policySys.run_inv [of "([], NewStore)" es L] assms(1,2) by (simp add: list_all_iff)
  note so = ListEnabled_cache_ok(2) [OF this, of L qf rf t1 t2 t3]
  have "\<exists>p\<in>set ps. nPolicyID n = PolID p \<and> Message n = ErrorMessage (Action p) \<and>
          evaluateCondition L facts (Conditions p) \<and> Effect (Action p) = EffectDeny \<and>
          (\<forall>q\<in>set ps. Effect (Action q) = EffectDeny \<and> evaluateCondition L facts (Conditions q) \<longrightarrow> Priority q \<le> Priority p)"
    if ps: "enabled = Ok ps" and n: "Nociception res = Some n" for ps n
  proof -
    obtain us p vs where d: "ps = us @ p # vs" "defaultEngine.blocks L facts p"
      "\<forall>q\<in>set us. \<not> defaultEngine.blocks L facts q" "nPolicyID n = PolID p" "Message n = ErrorMessage (Action p)"
      using n unfolding res ps by (rule defaultEngine.first_denial)
    have "sorted (map (\<lambda>p. - Priority p) ps)" using so ps assms(3) by simp
    then have "\<forall>q\<in>set (p # vs). Priority q \<le> Priority p" using d(1) by (auto simp: sorted_append)
    then show ?thesis using d by (intro bexI [of _ p]) (auto simp: defaultEngine_blocks)
  qed
  moreover have "\<not> is_Ok enabled \<Longrightarrow> Denied res \<and> \<not> Allowed res"
    by (cases enabled) (auto simp: res Evaluate_def)
  ultimately show ?thesis
    using defaultEngine.decision [of L facts] by (auto simp: res defaultEngine_blocks)
qed

lemma ListEnabled_dirty:
  assumes "dirty s"
  shows "ListEnabled L qf rf t1 t2 t3 rows s = (case listNoLock L qf rf rows of
      Ok ps \<Rightarrow> (Ok (filter Enabled ps), s\<lparr>dirty := False, cache := Some \<lparr>cpPolicies = filter Enabled ps, expiresAt = wrap64 (t3 + policyCacheTTL)\<rparr>\<rparr>)
    | Err e \<Rightarrow> (Err e, s\<lparr>dirty := False\<rparr>) | Panic \<Rightarrow> (Panic, s\<lparr>dirty := False\<rparr>))"
  using assms by (simp add: ListEnabled_def fresh_def Let_def split: option.splits go.splits)

lemma Insert_Ok:
  assumes "Insert L fault now p (rows, s) = (Ok (), rows', s')"
  obtains cj where "condJson L (Conditions p) = Some cj" "s' = s\<lparr>dirty := True\<rparr>"
    "rows' = filter (\<lambda>r. prId r \<noteq> PolID p) rows @ [policyRow p (jsonEnc cj) (jsonEnc (actionJson (Action p))) now]"
  using assms by (auto simp: Insert_def Let_def split: option.splits if_splits)

text \<open>
  A policy registered through a store is enforced by the next evaluation of that store,
  whatever its cache held: the next listing reads the table, which contains the new policy once.
\<close>

theorem insert_enforced_at_once:
  assumes "Insert L False now p (rows, s) = (Ok (), rows', s')"
    and "ListEnabled L False False t1 t2 t3 rows' s' = (Ok ps, s'')" and "Enabled p"
  shows "\<exists>q\<in>set ps. PolID q = PolID p \<and> Priority q = Priority p \<and> Enabled q \<and>
    (\<forall>row\<in>set rows'. prId row = PolID p \<longrightarrow> scanPolicy L row = Ok q)"
proof -
  obtain cj where i: "s' = s\<lparr>dirty := True\<rparr>"
    "rows' = filter (\<lambda>r. prId r \<noteq> PolID p) rows @ [policyRow p (jsonEnc cj) (jsonEnc (actionJson (Action p))) now]"
    by (rule Insert_Ok [OF assms(1)])
  let ?row = "policyRow p (jsonEnc cj) (jsonEnc (actionJson (Action p))) now"
  obtain all where all: "listNoLock L False False rows' = Ok all" "ps = filter Enabled all"
    using assms(2) i(1) ListEnabled_dirty [of s' L False False t1 t2 t3 rows'] by (auto split: go.splits)
  have "scanPolicies L (policyOrder rows') = Ok all"
    using all(1) by (auto simp: listNoLock_def split: go.splits)
  moreover have "?row \<in> set (policyOrder rows')" by (simp add: policyOrder_def i(2))
  ultimately obtain q where q: "q \<in> set all" "scanPolicy L ?row = Ok q" using scanPolicies_in by blast
  have "Enabled q" "PolID q = PolID p" "Priority q = Priority p"
    using q(2) assms(3) by (auto simp: scanPolicy_def policyRow_def boolInt_def split: option.splits)
  then show ?thesis using q all(2) by (auto simp: i(2))
qed

text \<open>
  A failed refresh hides a registered policy. When the listing that should pick up a new
  policy fails, the store has already cleared its dirty mark; until the old cache expires, later
  listings then return the old policies without reading the table.
\<close>

theorem failed_refresh_serves_stale_cache:
  assumes "cache s = Some cp" and "Insert L False now p (rows, s) = (Ok (), rows', s1)"
    and "ListEnabled L True rf t1 t2 t3 rows' s1 = (x, s2)" and "t < expiresAt cp"
  shows "\<not> is_Ok x \<and> ListEnabled L qf rf' t t' t'' rows' s2 = (Ok (cpPolicies cp), s2)"
proof -
  have s1: "s1 = s\<lparr>dirty := True\<rparr>" by (rule Insert_Ok [OF assms(2)])
  have "x = Err PQueryErr" "s2 = s1\<lparr>dirty := False\<rparr>"
    using assms(3) ListEnabled_dirty [of s1 L True rf t1 t2 t3 rows'] s1 by (auto simp: listNoLock_def)
  then show ?thesis using assms(1,4) s1 by (simp add: ListEnabled_def fresh_def)
qed

section \<open>Concrete instances\<close>

definition exPolicy :: Policy where
  "exPolicy = \<lparr>PolID = ''p1'', Name = ''no delete'', Description = '''', Enabled = True, Priority = 5,
     Severity = ''high'', Conditions = emptyCond, Action = \<lparr>Effect = EffectDeny, ErrorType = '''', ErrorMessage = ''no''\<rparr>,
     CreatedNS = 0, UpdatedNS = 0\<rparr>"

definition exRow :: policy_row where
  "exRow = policyRow exPolicy ''{}'' (jsonEnc (actionJson (Action exPolicy))) 1"

lemma exInsert: "Insert exLib False 1 exPolicy ([], s) = (Ok (), [exRow], s\<lparr>dirty := True\<rparr>)"
  by (simp add: Insert_def exPolicy_def emptyCond_def optArr_def optStr_def exRow_def)

lemma exAction_parse: "unmarshalAction (jsonEnc (actionJson (Action exPolicy))) = Some (Action exPolicy)"
proof -
  have "flat_ok [(''effect'', JStr ''deny''), (''error_message'', JStr ''no'')]"
    by (simp add: flat_ok_def validUtf8_ascii)
  from jsonParse_flat [OF this] show ?thesis
    by (simp add: unmarshalAction_def actionJson_def exPolicy_def EffectDeny_def optStr_def matchField_def actionFields_def
        del: jsonEnc.simps)
qed

lemma exScan: "scanPolicy exLib exRow = Ok (exPolicy\<lparr>CreatedNS := 1, UpdatedNS := 1\<rparr>)"
proof -
  have "jsonParse ''{}'' = Some (JObj [])" using jsonParse_flat [of "[]"] by (simp add: flat_ok_def)
  then show ?thesis
    using exAction_parse
    by (simp add: scanPolicy_def exRow_def policyRow_def emptyCond_def compileLeaf_def op_defs)
       (simp add: exPolicy_def emptyCond_def boolInt_def)
qed

lemma exList: "listNoLock exLib False False [exRow] = Ok [exPolicy\<lparr>CreatedNS := 1, UpdatedNS := 1\<rparr>]"
  by (simp add: listNoLock_def policyOrder_def exScan)

theorem insert_enforced_at_once_witness:
  "\<exists>ps s''. ListEnabled exLib False False 2 2 2 [exRow] (NewStore\<lparr>dirty := True\<rparr>) = (Ok ps, s'') \<and>
     (\<exists>q\<in>set ps. PolID q = ''p1'' \<and> Priority q = 5)"
proof -
  let ?ps = "[exPolicy\<lparr>CreatedNS := 1, UpdatedNS := 1\<rparr>]"
  obtain s'' where l: "ListEnabled exLib False False 2 2 2 [exRow] (NewStore\<lparr>dirty := True\<rparr>) = (Ok ?ps, s'')"
    by (simp add: ListEnabled_dirty exList) (simp add: exPolicy_def)
  have "Enabled exPolicy" by (simp add: exPolicy_def)
  from insert_enforced_at_once [OF exInsert l this] l show ?thesis by (auto simp: exPolicy_def)
qed

theorem failed_refresh_serves_stale_cache_witness:
  "ListEnabled exLib False False 3 3 3 [exRow] \<lparr>cache = Some \<lparr>cpPolicies = [], expiresAt = 100\<rparr>, dirty = False\<rparr> =
     (Ok [], \<lparr>cache = Some \<lparr>cpPolicies = [], expiresAt = 100\<rparr>, dirty = False\<rparr>)"
proof -
  let ?s = "\<lparr>cache = Some \<lparr>cpPolicies = [], expiresAt = 100\<rparr>, dirty = False\<rparr>"
  have f: "ListEnabled exLib True False 2 2 2 [exRow] (?s\<lparr>dirty := True\<rparr>) = (Err PQueryErr, ?s)"
    by (simp add: ListEnabled_dirty listNoLock_def)
  show ?thesis
    using failed_refresh_serves_stale_cache [OF _ exInsert f, of "\<lparr>cpPolicies = [], expiresAt = 100\<rparr>" 3] by simp
qed

theorem executor_decision_witness:
  "\<exists>res s''. ExecutorEvaluate exLib False False 2 2 2 [exRow] (NewStore\<lparr>dirty := True\<rparr>) (\<lambda>_. None) = (res, s'') \<and>
     Denied res \<and> \<not> Allowed res"
proof -
  let ?s = "NewStore\<lparr>dirty := True\<rparr>"
  let ?ps = "[exPolicy\<lparr>CreatedNS := 1, UpdatedNS := 1\<rparr>]"
  have r: "([exRow], ?s) = run (policyStep exLib) ([], NewStore) [PInsert False 1 exPolicy]"
    by (simp add: exInsert)
  obtain s' where l: "ListEnabled exLib False False 2 2 2 [exRow] ?s = (Ok ?ps, s')"
    by (simp add: ListEnabled_dirty exList) (simp add: exPolicy_def)
  obtain res s'' where e: "ExecutorEvaluate exLib False False 2 2 2 [exRow] ?s (\<lambda>_. None) = (res, s'')"
    by (cases "ExecutorEvaluate exLib False False 2 2 2 [exRow] ?s (\<lambda>_. None)")
  from executor_decision [OF r refl l e] have "Denied res \<and> \<not> Allowed res"
    by (auto simp: exPolicy_def emptyCond_def evalLeaf_def)
  with e show ?thesis by blast
qed

end
