(* ===== verification/Clock.thy ===== *)
theory Clock
  imports Prelude
begin

text \<open>
  \<open>internal/clock/hlc.go\<close>: the hybrid logical clock that stamps receipts. The wall clock
  (\<open>time.Now().UnixNano()\<close>) is an argument of \<open>Now\<close>.
\<close>

section \<open>The clock\<close>

record HLC =
  physical :: i64

definition zeroHLC :: HLC where
  "zeroHLC = \<lparr>physical = 0\<rparr>"

definition Now :: "i64 \<Rightarrow> HLC \<Rightarrow> i64 \<times> HLC" where
  "Now wall h =
     (let p = (if wall > physical h then wall else wrap64 (physical h + 1))
      in (p, h\<lparr>physical := p\<rparr>))"

text \<open>The timestamps that a sequence of calls returns, one per wall-clock reading.\<close>

fun nows :: "HLC \<Rightarrow> i64 list \<Rightarrow> i64 list" where
  "nows h [] = []"
| "nows h (w # ws) = (let (t, h') = Now w h in t # nows h' ws)"

section \<open>Monotonicity\<close>

lemma Now_physical [simp]: "physical (snd (Now w h)) = fst (Now w h)"
  by (simp add: Now_def Let_def)

lemma Now_ge_wall: "physical h < 2 ^ 63 - 1 \<Longrightarrow> - (2 ^ 63) \<le> physical h \<Longrightarrow> w \<le> fst (Now w h)"
  by (auto simp: Now_def Let_def wrap64_id in_i64_def)

lemma Now_gt_physical:
  assumes "in_i64 (physical h)" and "physical h \<noteq> 2 ^ 63 - 1"
  shows "physical h < fst (Now w h)"
proof -
  have "in_i64 (physical h + 1)" using assms by (auto simp: in_i64_def)
  then show ?thesis by (auto simp: Now_def Let_def wrap64_id)
qed

lemma Now_bound:
  assumes "in_i64 (physical h)" and "physical h \<noteq> 2 ^ 63 - 1"
  shows "fst (Now w h) \<le> max w (physical h + 1)"
proof -
  have "in_i64 (physical h + 1)" using assms by (auto simp: in_i64_def)
  then show ?thesis by (auto simp: Now_def Let_def wrap64_id)
qed

lemma nows_strict:
  assumes "in_i64 (physical h)"
    and "\<forall>w\<in>set ws. w + int (length ws) < 2 ^ 63"
    and "physical h + int (length ws) < 2 ^ 63"
  shows "sorted_wrt (<) (physical h # nows h ws)"
  using assms
proof (induction ws arbitrary: h)
  case (Cons w ws)
  let ?t = "fst (Now w h)" and ?h = "snd (Now w h)"
  from Cons.prems have ne: "physical h \<noteq> 2 ^ 63 - 1" by auto
  have gt: "physical h < ?t" using Now_gt_physical [OF Cons.prems(1) ne] .
  have le: "?t \<le> max w (physical h + 1)" using Now_bound [OF Cons.prems(1) ne] .
  have ub: "?t + int (length ws) < 2 ^ 63" using le Cons.prems(2,3) by auto
  have "in_i64 ?t" using gt ub Cons.prems(1) by (auto simp: in_i64_def)
  then have "sorted_wrt (<) (?t # nows ?h ws)"
    using Cons.IH [of ?h] Cons.prems(2) ub by fastforce
  moreover have "nows h (w # ws) = ?t # nows ?h ws" by (simp add: split_beta Let_def)
  ultimately show ?case using gt by auto
qed simp

text \<open>
  C16. Timestamps are strictly increasing. Over any sequence of wall-clock readings, even one
  in which the clock stands still or runs backwards, the values \<open>Now\<close> returns are strictly
  increasing and above the last value returned before, as long as no reading is within
  \<open>n\<close> nanoseconds of the end of the int64 range, \<open>n\<close> being the number of calls.
\<close>

theorem hlc_strictly_increasing:
  assumes "in_i64 (physical h)"
    and "\<forall>w\<in>set ws. w + int (length ws) < 2 ^ 63"
    and "physical h + int (length ws) < 2 ^ 63"
  shows "sorted_wrt (<) (physical h # nows h ws)"
  using assms by (rule nows_strict)

theorem hlc_strictly_increasing_witness:
  "in_i64 (physical zeroHLC) \<and> nows zeroHLC [10, 10, 7, 20] = [10, 11, 12, 20]
   \<and> sorted_wrt (<) (physical zeroHLC # nows zeroHLC [10, 10, 7, 20])"
proof -
  have "sorted_wrt (<) (physical zeroHLC # nows zeroHLC [10, 10, 7, 20])"
    by (rule hlc_strictly_increasing) (simp_all add: in_i64_def zeroHLC_def)
  then show ?thesis
    by (simp add: zeroHLC_def Now_def in_i64_def wrap64_def Let_def)
qed

end
