(* ===== verification/Chain.thy ===== *)
theory Chain
  imports Clock Receipt
begin

text \<open>
  \<open>internal/chain/chain.go\<close>: schema validation of receipts, the SQLite tables of the
  chain, opening, appending, and the queries. A table is the list of its rows in the order of
  insertion; a statement of the source is the function that SQL gives it on that list. Whether
  the database driver reports an error at a call is an argument of the operation (\<open>fault\<close>
  below), so that every error return is a branch of the model.
\<close>

section \<open>Schema validation\<close>

definition isIdChar :: "char \<Rightarrow> bool" where
  "isIdChar c \<longleftrightarrow> (let b = byte c in (97 \<le> b \<and> b \<le> 122) \<or> (65 \<le> b \<and> b \<le> 90) \<or> (48 \<le> b \<and> b \<le> 57)
     \<or> b = 95 \<or> b = 45)"

definition reReceiptID :: "string \<Rightarrow> bool" where
  "reReceiptID s \<longleftrightarrow> length s = 32 \<and> list_all is_hex_lower s"

definition rePrevHash :: "string \<Rightarrow> bool" where
  "rePrevHash s \<longleftrightarrow> length s = 64 \<and> list_all is_hex_lower s"

definition reSignature :: "string \<Rightarrow> bool" where
  "reSignature s \<longleftrightarrow> length s = 128 \<and> list_all is_hex_lower s"

definition reAgentID :: "string \<Rightarrow> bool" where
  "reAgentID s \<longleftrightarrow> take 4 s = ''ans_'' \<and> 7 \<le> length s \<and> list_all isIdChar (drop 4 s)"

definition isActionChar :: "char \<Rightarrow> bool" where
  "isActionChar c \<longleftrightarrow> (let b = byte c in (97 \<le> b \<and> b \<le> 122) \<or> (48 \<le> b \<and> b \<le> 57)
     \<or> b = 95 \<or> b = 46 \<or> b = 45)"

definition reActionType :: "string \<Rightarrow> bool" where
  "reActionType s \<longleftrightarrow> (case s of [] \<Rightarrow> False | c # cs \<Rightarrow>
     97 \<le> byte c \<and> byte c \<le> 122 \<and> 1 \<le> length cs \<and> length cs \<le> 63 \<and> list_all isActionChar cs)"

definition validPhases :: "string list" where
  "validPhases = [''pre'', ''post'']"

definition validOutcomes :: "string list" where
  "validOutcomes = [''success'', ''failure'', ''partial'']"

definition validPolicies :: "string list" where
  "validPolicies = [''allow'', ''deny'', ''allow_with_conditions'']"

datatype schema_error =
    BadReceiptID | BadAgentID | BadPrevHash | BadPhase | BadActionType | BadChainIndex
  | LongPayloadSummary | LongAuthorizingContext | LongOutcomeSummary
  | BadPolicyDecision | BadOutcome | BadSignature | BadPreReceiptID | BadParentAgentID
  | NegativeDuration

text \<open>\<open>None\<close> is a nil error; \<open>Some e\<close> the first violation.\<close>

definition validateReceipt :: "Receipt \<Rightarrow> schema_error option" where
  "validateReceipt r =
     (if \<not> reReceiptID (ReceiptID r) then Some BadReceiptID
      else if \<not> reAgentID (AgentID r) then Some BadAgentID
      else if \<not> rePrevHash (PrevReceiptHash r) \<and> PrevReceiptHash r \<noteq> GenesisHash then Some BadPrevHash
      else if Phase r \<notin> set validPhases then Some BadPhase
      else if \<not> reActionType (ActionType r) then Some BadActionType
      else if ChainIndex r < 1 then Some BadChainIndex
      else if length (PayloadSummary r) > 80 then Some LongPayloadSummary
      else if length (AuthorizingContext r) > 200 then Some LongAuthorizingContext
      else if length (OutcomeSummary r) > 120 then Some LongOutcomeSummary
      else if PolicyDecision r \<noteq> '''' \<and> PolicyDecision r \<notin> set validPolicies then Some BadPolicyDecision
      else if Outcome r \<noteq> '''' \<and> Outcome r \<notin> set validOutcomes then Some BadOutcome
      else if Signature r \<noteq> '''' \<and> \<not> reSignature (Signature r) then Some BadSignature
      else if PreReceiptID r \<noteq> '''' \<and> \<not> reReceiptID (PreReceiptID r) then Some BadPreReceiptID
      else if ParentAgentID r \<noteq> '''' \<and> \<not> reAgentID (ParentAgentID r) then Some BadParentAgentID
      else if DurationMS r < 0 then Some NegativeDuration
      else None)"

section \<open>Tables\<close>

record receipt_row =
  chain_index :: int
  receipt_id :: string
  agent_id :: string
  phase :: string
  action_type :: string
  prev_hash :: string
  receipt_hash :: string
  timestamp_ns :: i64
  raw_receipt :: string

record anchor_row =
  anchor_id :: int
  from_index :: int
  to_index :: int
  acount :: int
  merkle_root :: string
  merkle_tree :: string
  pruned_at :: i64

record compensation_row =
  comp_id :: int
  comp_chain_index :: int
  comp_agent_id :: string
  comp_receipt_id :: string
  comp_action_type :: string
  comp_reverse_action :: string
  comp_reverse_cmd :: string
  comp_executed :: int
  comp_created_ns :: i64

record chainDB =
  receipts :: "receipt_row list"
  anchors :: "anchor_row list"
  compensations :: "compensation_row list"
  anchorSeq :: int
  compSeq :: int

definition emptyDB :: chainDB where
  "emptyDB = \<lparr>receipts = [], anchors = [], compensations = [], anchorSeq = 0, compSeq = 0\<rparr>"

text \<open>
  A bound \<open>uint64\<close> argument with its high bit set is refused by \<open>database/sql\<close>
  before the statement runs.
\<close>

definition u64Arg :: "u64 \<Rightarrow> int option" where
  "u64Arg w = (if uint w < 2 ^ 63 then Some (uint w) else None)"

definition insertReceipt :: "bool \<Rightarrow> receipt_row \<Rightarrow> chainDB \<Rightarrow> chainDB option" where
  "insertReceipt fault row db =
     (if fault \<or> chain_index row \<in> chain_index ` set (receipts db)
         \<or> receipt_id row \<in> receipt_id ` set (receipts db)
      then None else Some (db\<lparr>receipts := receipts db @ [row]\<rparr>))"

section \<open>The chain\<close>

record Chain =
  db :: chainDB
  lastIdx :: u64
  lastHash :: string
  hlc :: HLC

datatype open_step = HomeDir | MkdirAll | SqlOpen | SchemaMain | SchemaAnchor | SchemaSnapshot
  | SchemaCompensation | SchemaPolicy | SchemaMCP | SchemaBroker | ReadTip

definition openSteps :: "open_step list" where
  "openSteps = [HomeDir, MkdirAll, SqlOpen, SchemaMain, SchemaAnchor, SchemaSnapshot,
     SchemaCompensation, SchemaPolicy, SchemaMCP, SchemaBroker]"

definition selectTip :: "chainDB \<Rightarrow> receipt_row option" where
  "selectTip d = (case rev (sort_key chain_index (receipts d)) of [] \<Rightarrow> None | row # _ \<Rightarrow> Some row)"

text \<open>
  \<open>fails\<close> says which step reports an error. An error while reading the tip (or an index
  that does not fit \<open>uint64\<close>) is ignored, as an empty table is: the chain then starts at
  the genesis hash.
\<close>

definition Open :: "(open_step \<Rightarrow> bool) \<Rightarrow> chainDB \<Rightarrow> (open_step, Chain) go" where
  "Open fails d = (case find fails openSteps of
     Some s \<Rightarrow> Err s
   | None \<Rightarrow>
       (let c = \<lparr>db = d, lastIdx = 0, lastHash = GenesisHash, hlc = zeroHLC\<rparr>
        in if fails ReadTip then Ok c
           else (case selectTip d of
               None \<Rightarrow> Ok c
             | Some row \<Rightarrow> if chain_index row < 0 then Ok c else Ok (c\<lparr>lastIdx := word_of_int (chain_index row), lastHash := receipt_hash row\<rparr>))))"

datatype chain_error =
    BuildErr string
  | IndexMismatch u64 u64
  | PrevMismatch string string
  | SchemaErr schema_error
  | InsertErr
  | NotFound
  | QueryErr
  | JsonErr

definition receiptRow :: "Receipt \<Rightarrow> string \<Rightarrow> int \<Rightarrow> receipt_row" where
  "receiptRow r hash i = \<lparr>chain_index = i, receipt_id = ReceiptID r, agent_id = AgentID r,
     phase = Phase r, action_type = ActionType r, prev_hash = PrevReceiptHash r,
     receipt_hash = hash, timestamp_ns = TimestampNS r, raw_receipt = RawJSON r\<rparr>"

definition AppendNew ::
  "crypto \<Rightarrow> (string \<Rightarrow> u64 \<Rightarrow> string + Receipt) \<Rightarrow> bytes \<Rightarrow> i64 \<Rightarrow> bool \<Rightarrow> Chain
     \<Rightarrow> (chain_error, Receipt) go \<times> Chain" where
  "AppendNew C buildFn priv wall fault c =
     (let nextIdx = lastIdx c + 1; expectedPrevHash = lastHash c in
      case buildFn expectedPrevHash nextIdx of
        Inl e \<Rightarrow> (Err (BuildErr e), c)
      | Inr r \<Rightarrow>
          if ChainIndex r \<noteq> nextIdx then (Err (IndexMismatch (ChainIndex r) nextIdx), c)
          else if PrevReceiptHash r \<noteq> expectedPrevHash
            then (Err (PrevMismatch (PrevReceiptHash r) expectedPrevHash), c)
          else (let (t, h) = Now wall (hlc c); c1 = c\<lparr>hlc := h\<rparr> in
            case Sign C priv (r\<lparr>TimestampNS := t\<rparr>) of
              Panic \<Rightarrow> (Panic, c1)
            | Err e \<Rightarrow> (Err e, c1)
            | Ok r1 \<Rightarrow>
                (case validateReceipt r1 of
                   Some e \<Rightarrow> (Err (SchemaErr e), c1)
                 | None \<Rightarrow>
                     (let (hash, r2) = ComputeHash C r1 in
                      case u64Arg (ChainIndex r2) of
                        None \<Rightarrow> (Err InsertErr, c1)
                      | Some i \<Rightarrow>
                          (case insertReceipt fault (receiptRow r2 hash i) (db c1) of
                             None \<Rightarrow> (Err InsertErr, c1)
                           | Some d \<Rightarrow>
                               (Ok r2, c1\<lparr>db := d, lastIdx := ChainIndex r2, lastHash := hash\<rparr>))))))"

definition Tip :: "Chain \<Rightarrow> u64 \<times> string" where
  "Tip c = (lastIdx c, lastHash c)"

section \<open>Queries\<close>

definition decodeRow :: "receipt_row \<Rightarrow> (chain_error, Receipt) go" where
  "decodeRow row = (case unmarshalReceipt (raw_receipt row) of None \<Rightarrow> Err JsonErr | Some r \<Rightarrow> Ok r)"

definition GetByIndex :: "bool \<Rightarrow> u64 \<Rightarrow> Chain \<Rightarrow> (chain_error, Receipt) go" where
  "GetByIndex fault idx c = (if fault then Err QueryErr else
     case u64Arg idx of None \<Rightarrow> Err QueryErr | Some i \<Rightarrow>
     (case find (\<lambda>row. chain_index row = i) (receipts (db c)) of
        None \<Rightarrow> Err NotFound | Some row \<Rightarrow> decodeRow row))"

definition Get :: "bool \<Rightarrow> string \<Rightarrow> Chain \<Rightarrow> (chain_error, Receipt) go" where
  "Get fault receiptID c = (if fault then Err QueryErr else
     case find (\<lambda>row. receipt_id row = receiptID) (receipts (db c)) of
       None \<Rightarrow> Err NotFound | Some row \<Rightarrow> decodeRow row)"

record QueryOptions =
  qAgentID :: string
  qActionType :: string
  qPhase :: string
  qSince :: "i64 option"
  qLimit :: int
  qOffset :: int

definition noFilter :: QueryOptions where
  "noFilter = \<lparr>qAgentID = '''', qActionType = '''', qPhase = '''', qSince = None, qLimit = 0, qOffset = 0\<rparr>"

definition matchesQuery :: "QueryOptions \<Rightarrow> receipt_row \<Rightarrow> bool" where
  "matchesQuery q row \<longleftrightarrow>
     (qAgentID q \<noteq> '''' \<longrightarrow> agent_id row = qAgentID q) \<and>
     (qActionType q \<noteq> '''' \<longrightarrow> action_type row = qActionType q) \<and>
     (qPhase q \<noteq> '''' \<longrightarrow> phase row = qPhase q) \<and>
     (case qSince q of None \<Rightarrow> True | Some t \<Rightarrow> t \<le> timestamp_ns row)"

fun decodeRows :: "receipt_row list \<Rightarrow> (chain_error, Receipt list) go" where
  "decodeRows [] = Ok []"
| "decodeRows (row # rows) = (case decodeRow row of
     Ok r \<Rightarrow> (case decodeRows rows of Ok rs \<Rightarrow> Ok (r # rs) | Err e \<Rightarrow> Err e | Panic \<Rightarrow> Panic)
   | Err e \<Rightarrow> Err e | Panic \<Rightarrow> Panic)"

definition selectRows :: "QueryOptions \<Rightarrow> chainDB \<Rightarrow> receipt_row list" where
  "selectRows q d =
     (let rows = rev (sort_key chain_index (filter (matchesQuery q) (receipts d)))
      in if qLimit q > 0
         then take (nat (qLimit q)) (drop (nat (if qOffset q < 0 then 0 else qOffset q)) rows)
         else rows)"

text \<open>
  \<open>List\<close>: \<open>qfault\<close> is an error of the query itself, \<open>rfault\<close> an error that
  \<open>rows.Err()\<close> reports after the rows were read.
\<close>

definition ListReceipts :: "bool \<Rightarrow> bool \<Rightarrow> QueryOptions \<Rightarrow> Chain \<Rightarrow> (chain_error, Receipt list) go" where
  "ListReceipts qfault rfault q c = (if qfault then Err QueryErr else
     case decodeRows (selectRows q (db c)) of
       Ok rs \<Rightarrow> if rfault then Err QueryErr else Ok rs
     | Err e \<Rightarrow> Err e | Panic \<Rightarrow> Panic)"

definition Count :: "Chain \<Rightarrow> int" where
  "Count c = int (length (receipts (db c)))"

record Stats =
  TotalReceipts :: int
  TotalAgents :: int
  ChainLength :: u64
  OldestReceiptNS :: i64
  NewestReceiptNS :: i64
  DBSizeBytes :: i64

text \<open>The two PRAGMA values are arguments; the aggregates over an empty table are NULL, read as 0.\<close>

definition GetStats :: "bool \<Rightarrow> int \<Rightarrow> int \<Rightarrow> Chain \<Rightarrow> (chain_error, Stats) go" where
  "GetStats fault pageCount pageSize c = (if fault then Err QueryErr else
     (let rows = receipts (db c); ts = map timestamp_ns rows in
      Ok \<lparr>TotalReceipts = int (length rows), TotalAgents = int (card (agent_id ` set rows)),
          ChainLength = lastIdx c,
          OldestReceiptNS = (if rows = [] then 0 else Min (set ts)),
          NewestReceiptNS = (if rows = [] then 0 else Max (set ts)),
          DBSizeBytes = wrap64 (pageCount * pageSize)\<rparr>))"

section \<open>Compensations\<close>

record CompensationRecord =
  crID :: i64
  crChainIndex :: u64
  crAgentID :: string
  crReceiptID :: string
  crActionType :: string
  crReverseAction :: string
  crReverseCmd :: string
  crExecuted :: bool
  crCreatedNS :: i64

definition boolToInt :: "bool \<Rightarrow> int" where
  "boolToInt b = (if b then 1 else 0)"

definition SaveCompensation :: "bool \<Rightarrow> CompensationRecord \<Rightarrow> Chain \<Rightarrow> (chain_error, unit) go \<times> Chain" where
  "SaveCompensation fault rc c = (case u64Arg (crChainIndex rc) of
     None \<Rightarrow> (Err InsertErr, c)
   | Some i \<Rightarrow>
       if fault then (Err InsertErr, c)
       else (let d = db c; row = \<lparr>comp_id = compSeq d + 1, comp_chain_index = i,
                comp_agent_id = crAgentID rc, comp_receipt_id = crReceiptID rc,
                comp_action_type = crActionType rc, comp_reverse_action = crReverseAction rc,
                comp_reverse_cmd = crReverseCmd rc, comp_executed = boolToInt (crExecuted rc),
                comp_created_ns = crCreatedNS rc\<rparr>
             in (Ok (), c\<lparr>db := d\<lparr>compensations := compensations d @ [row], compSeq := compSeq d + 1\<rparr>\<rparr>)))"

definition scanCompensation :: "compensation_row \<Rightarrow> CompensationRecord" where
  "scanCompensation row = \<lparr>crID = comp_id row, crChainIndex = word_of_int (comp_chain_index row),
     crAgentID = comp_agent_id row, crReceiptID = comp_receipt_id row,
     crActionType = comp_action_type row, crReverseAction = comp_reverse_action row,
     crReverseCmd = comp_reverse_cmd row, crExecuted = (comp_executed row \<noteq> 0),
     crCreatedNS = comp_created_ns row\<rparr>"

text \<open>
  \<open>ORDER BY chain_index DESC\<close> leaves the order of equal keys open; the model takes the
  newest row first, the order of a backward scan of the index on \<open>chain_index\<close>.
\<close>

definition GetCompensations :: "bool \<Rightarrow> u64 \<Rightarrow> Chain \<Rightarrow> (chain_error, CompensationRecord list) go" where
  "GetCompensations fault fromIndex c = (if fault then Err QueryErr else
     case u64Arg fromIndex of None \<Rightarrow> Err QueryErr | Some i \<Rightarrow>
     Ok (map scanCompensation (rev (sort_key comp_chain_index
           (filter (\<lambda>row. i \<le> comp_chain_index row) (compensations (db c)))))))"

definition MarkCompensationExecuted :: "bool \<Rightarrow> i64 \<Rightarrow> Chain \<Rightarrow> (chain_error, unit) go \<times> Chain" where
  "MarkCompensationExecuted fault cid c = (if fault then (Err QueryErr, c) else
     (Ok (), c\<lparr>db := (db c)\<lparr>compensations :=
        map (\<lambda>row. if comp_id row = cid then row\<lparr>comp_executed := 1\<rparr> else row) (compensations (db c))\<rparr>\<rparr>))"

section \<open>What an append does\<close>

text \<open>The row that a signed receipt becomes.\<close>

definition storedRow :: "crypto \<Rightarrow> Receipt \<Rightarrow> receipt_row" where
  "storedRow C r = (let h = hashHex C (marshalReceipt r)
     in receiptRow (r\<lparr>cachedRaw := marshalReceipt r, cachedHash := h\<rparr>) h (uint (ChainIndex r)))"

lemma storedRow_simps [simp]:
  "chain_index (storedRow C r) = uint (ChainIndex r)"
  "receipt_id (storedRow C r) = ReceiptID r"
  "agent_id (storedRow C r) = AgentID r"
  "phase (storedRow C r) = Phase r"
  "action_type (storedRow C r) = ActionType r"
  "prev_hash (storedRow C r) = PrevReceiptHash r"
  "receipt_hash (storedRow C r) = hashHex C (marshalReceipt r)"
  "timestamp_ns (storedRow C r) = TimestampNS r"
  "raw_receipt (storedRow C r) = marshalReceipt r"
  by (simp_all add: storedRow_def receiptRow_def RawJSON_def Let_def)

lemma AppendNew_Ok:
  assumes "AppendNew C buildFn priv wall fault c = (Ok r, c')"
  obtains s b where
    "buildFn (lastHash c) (lastIdx c + 1) = Inr b"
    "Sign C priv (b\<lparr>TimestampNS := fst (Now wall (hlc c))\<rparr>) = (Ok s :: (chain_error, Receipt) go)"
    "r = s\<lparr>cachedRaw := marshalReceipt s, cachedHash := hashHex C (marshalReceipt s)\<rparr>"
    "ChainIndex s = lastIdx c + 1" "PrevReceiptHash s = lastHash c"
    "validateReceipt s = None" "uint (lastIdx c + 1) < 2 ^ 63" "\<not> fault"
    "chain_index (storedRow C s) \<notin> chain_index ` set (receipts (db c))"
    "receipt_id (storedRow C s) \<notin> receipt_id ` set (receipts (db c))"
    "c' = c\<lparr>hlc := snd (Now wall (hlc c)), db := (db c)\<lparr>receipts := receipts (db c) @ [storedRow C s]\<rparr>,
       lastIdx := lastIdx c + 1, lastHash := hashHex C (marshalReceipt s)\<rparr>"
proof -
  obtain t h where nw: "Now wall (hlc c) = (t, h)" by (cases "Now wall (hlc c)")
  from assms obtain b where b: "buildFn (lastHash c) (lastIdx c + 1) = Inr b"
    and ci: "ChainIndex b = lastIdx c + 1" and ph: "PrevReceiptHash b = lastHash c"
    by (auto simp: AppendNew_def Let_def split: sum.splits if_splits)
  have eq0: "AppendNew C buildFn priv wall fault c =
    (case (Sign C priv (b\<lparr>TimestampNS := t\<rparr>) :: (chain_error, Receipt) go) of
       Panic \<Rightarrow> (Panic, c\<lparr>hlc := h\<rparr>)
     | Err e \<Rightarrow> (Err e, c\<lparr>hlc := h\<rparr>)
     | Ok s \<Rightarrow> (case validateReceipt s of Some e \<Rightarrow> (Err (SchemaErr e), c\<lparr>hlc := h\<rparr>)
         | None \<Rightarrow> (let (hash, r2) = ComputeHash C s in
             case u64Arg (ChainIndex r2) of None \<Rightarrow> (Err InsertErr, c\<lparr>hlc := h\<rparr>)
             | Some i \<Rightarrow> (case insertReceipt fault (receiptRow r2 hash i) (db (c\<lparr>hlc := h\<rparr>)) of
                  None \<Rightarrow> (Err InsertErr, c\<lparr>hlc := h\<rparr>)
                | Some d \<Rightarrow> (Ok r2, c\<lparr>hlc := h, db := d, lastIdx := ChainIndex r2, lastHash := hash\<rparr>)))))"
    by (simp add: AppendNew_def Let_def nw b ci ph)
  obtain s where s: "Sign C priv (b\<lparr>TimestampNS := t\<rparr>) = (Ok s :: (chain_error, Receipt) go)"
    using assms unfolding eq0
    by (cases "Sign C priv (b\<lparr>TimestampNS := t\<rparr>) :: (chain_error, Receipt) go") simp_all
  have v: "validateReceipt s = None"
    using assms unfolding eq0 s by (cases "validateReceipt s") simp_all
  have ci': "ChainIndex s = lastIdx c + 1" and ph': "PrevReceiptHash s = lastHash c" and bs: "bare s = s"
    using Sign_Ok [OF s] ci ph by simp_all
  have ch: "ComputeHash C s = (hashHex C (marshalReceipt s), s\<lparr>cachedRaw := marshalReceipt s, cachedHash := hashHex C (marshalReceipt s)\<rparr>)"
    using ComputeHash_bare [of C s] bs by simp
  let ?h' = "hashHex C (marshalReceipt s)"
  let ?r = "s\<lparr>cachedRaw := marshalReceipt s, cachedHash := ?h'\<rparr>"
  have eq: "AppendNew C buildFn priv wall fault c =
    (case u64Arg (lastIdx c + 1) of None \<Rightarrow> (Err InsertErr, c\<lparr>hlc := h\<rparr>)
     | Some i \<Rightarrow> (case insertReceipt fault (receiptRow ?r ?h' i) (db c) of
         None \<Rightarrow> (Err InsertErr, c\<lparr>hlc := h\<rparr>)
       | Some d \<Rightarrow> (Ok ?r, c\<lparr>hlc := h, db := d, lastIdx := lastIdx c + 1, lastHash := ?h'\<rparr>)))"
    unfolding eq0 by (simp add: s v ch ci' split: option.splits)
  obtain i where i: "u64Arg (lastIdx c + 1) = Some i"
    using assms unfolding eq by (cases "u64Arg (lastIdx c + 1)") simp_all
  obtain d where d: "insertReceipt fault (receiptRow ?r ?h' i) (db c) = Some d"
    using assms unfolding eq i by (cases "insertReceipt fault (receiptRow ?r ?h' i) (db c)") simp_all
  have r: "r = ?r" and c': "c' = c\<lparr>hlc := h, db := d, lastIdx := lastIdx c + 1, lastHash := ?h'\<rparr>"
    using assms unfolding eq i by (simp_all add: d)
  have i': "uint (lastIdx c + 1) < 2 ^ 63" "i = uint (ChainIndex s)"
    using i ci' by (auto simp: u64Arg_def split: if_splits)
  have row: "receiptRow ?r ?h' i = storedRow C s" by (simp add: storedRow_def Let_def i')
  from d [unfolded row insertReceipt_def]
  have ins: "\<not> fault" "chain_index (storedRow C s) \<notin> chain_index ` set (receipts (db c))"
      "receipt_id (storedRow C s) \<notin> receipt_id ` set (receipts (db c))"
      "d = (db c)\<lparr>receipts := receipts (db c) @ [storedRow C s]\<rparr>"
    by (auto split: if_splits simp del: storedRow_simps)
  show thesis
    using b s r ci' ph' v i'(1) ins c' by (intro that [of b s]) (simp_all add: nw)
qed

lemma AppendNew_not_Ok:
  assumes "AppendNew C buildFn priv wall fault c = (x, c')" and "\<not> is_Ok x"
  shows "c' = c \<or> c' = c\<lparr>hlc := snd (Now wall (hlc c))\<rparr>"
  using assms
  by (auto simp: AppendNew_def Let_def split: sum.splits if_splits prod.splits go.splits option.splits)

section \<open>The chain invariant\<close>

text \<open>
  \<open>chained i h rows\<close>: the rows have consecutive indices from \<open>i\<close> and each row's
  \<open>prev_hash\<close> is the hash of the row before, \<open>h\<close> for the first.
\<close>

fun chained :: "int \<Rightarrow> string \<Rightarrow> receipt_row list \<Rightarrow> bool" where
  "chained i h [] = True"
| "chained i h (x # xs) =
     (chain_index x = i \<and> prev_hash x = h \<and> chained (i + 1) (receipt_hash x) xs)"

definition tipHash :: "string \<Rightarrow> receipt_row list \<Rightarrow> string" where
  "tipHash h xs = (if xs = [] then h else receipt_hash (last xs))"

lemma chained_append:
  "chained i h (xs @ ys) \<longleftrightarrow> chained i h xs \<and> chained (i + int (length xs)) (tipHash h xs) ys"
  by (induction xs arbitrary: i h) (auto simp: tipHash_def algebra_simps)

lemma chained_index_bounds:
  "chained i h xs \<Longrightarrow> x \<in> set xs \<Longrightarrow> i \<le> chain_index x \<and> chain_index x < i + int (length xs)"
  by (induction xs arbitrary: i h) (fastforce)+

lemma chained_sorted: "chained i h xs \<Longrightarrow> sorted (map chain_index xs)"
proof (induction xs arbitrary: i h)
  case (Cons x xs)
  then have "\<forall>y\<in>set xs. i + 1 \<le> chain_index y" using chained_index_bounds by fastforce
  with Cons show ?case by force
qed simp

lemma chained_filter_ge:
  assumes "chained i h xs"
  shows "filter (\<lambda>x. u < chain_index x) xs = drop (nat (u + 1 - i)) xs"
    and "filter (\<lambda>x. chain_index x \<le> u) xs = take (nat (u + 1 - i)) xs"
  using assms
proof (induction xs arbitrary: i h)
  case (Cons x xs)
  {
    case 1
    show ?case
    proof (cases "i \<le> u")
      case True
      then have "nat (u + 1 - i) = Suc (nat (u + 1 - (i + 1)))" by simp
      with True 1 Cons.IH(1) [of "i + 1" "receipt_hash x"] show ?thesis by simp
    next
      case False
      then have "\<forall>y\<in>set xs. u < chain_index y" using 1 chained_index_bounds [of "i + 1" "receipt_hash x" xs] by fastforce
      with False 1 show ?thesis by simp
    qed
  next
    case 2
    show ?case
    proof (cases "i \<le> u")
      case True
      then have "nat (u + 1 - i) = Suc (nat (u + 1 - (i + 1)))" by simp
      with True 2 Cons.IH(2) [of "i + 1" "receipt_hash x"] show ?thesis by simp
    next
      case False
      then have "\<forall>y\<in>set xs. \<not> chain_index y \<le> u" using 2 chained_index_bounds [of "i + 1" "receipt_hash x" xs] by fastforce
      with False 2 show ?thesis by simp
    qed
  }
qed simp_all

text \<open>
  \<open>row_ok\<close>: the stored JSON decodes to a receipt that encodes to this very row, and its
  signature verifies under the public key of the agent's key in the key ring \<open>K\<close>.
\<close>

definition row_ok :: "crypto \<Rightarrow> (string \<Rightarrow> bytes) \<Rightarrow> receipt_row \<Rightarrow> bool" where
  "row_ok C K row = (case unmarshalReceipt (raw_receipt row) of None \<Rightarrow> False
     | Some r \<Rightarrow> row = storedRow C r \<and> receipt_utf8 r \<and> cachedHash r = '''' \<and> cachedRaw r = '''' \<and>
         length (K (AgentID r)) = 64 \<and> Verify C r (edPublic C (K (AgentID r))) = Ok ())"

lemma bare_id: "cachedHash r = '''' \<Longrightarrow> cachedRaw r = '''' \<Longrightarrow> bare r = r"
  by (simp add: bare_def)

lemma row_okE:
  assumes "row_ok C K row"
  obtains r where "unmarshalReceipt (raw_receipt row) = Some r" "row = storedRow C r" "receipt_utf8 r"
    "bare r = r" "length (K (AgentID r)) = 64" "Verify C r (edPublic C (K (AgentID r))) = Ok ()"
  using assms by (auto simp: row_ok_def bare_id split: option.splits)

lemma row_okI:
  assumes "receipt_utf8 r" "bare r = r" "length (K (AgentID r)) = 64"
    "Verify C r (edPublic C (K (AgentID r))) = Ok ()"
  shows "row_ok C K (storedRow C r)"
proof -
  have "unmarshalReceipt (marshalReceipt r) = Some r" using unmarshal_marshal [OF assms(1)] assms(2) by simp
  moreover have "cachedHash (bare r) = ''''" "cachedRaw (bare r) = ''''" by (simp_all add: bare_def)
  ultimately show ?thesis using assms by (simp add: row_ok_def)
qed

text \<open>
  \<open>anchored i as\<close>: the anchors cover consecutive index ranges from \<open>i\<close> on.
\<close>

fun anchored :: "int \<Rightarrow> anchor_row list \<Rightarrow> bool" where
  "anchored i [] = True"
| "anchored i (a # as) = (from_index a = i \<and> i \<le> to_index a \<and> anchored (to_index a + 1) as)"

definition anchorEnd :: "anchor_row list \<Rightarrow> int" where
  "anchorEnd as = (if as = [] then 0 else to_index (last as))"

definition headPrev :: "receipt_row list \<Rightarrow> string" where
  "headPrev rows = (case rows of [] \<Rightarrow> GenesisHash | x # _ \<Rightarrow> prev_hash x)"

definition chain_inv :: "crypto \<Rightarrow> (string \<Rightarrow> bytes) \<Rightarrow> Chain \<Rightarrow> bool" where
  "chain_inv C K c \<longleftrightarrow>
     (let rows = receipts (db c); as = anchors (db c) in
      list_all (row_ok C K) rows \<and> distinct (map receipt_id rows) \<and>
      anchored 1 as \<and> chained (anchorEnd as + 1) (headPrev rows) rows \<and>
      (as = [] \<longrightarrow> headPrev rows = GenesisHash) \<and> (rows = [] \<longrightarrow> as = []) \<and>
      uint (lastIdx c) = anchorEnd as + int (length rows) \<and> uint (lastIdx c) < 2 ^ 63 \<and>
      lastHash c = tipHash GenesisHash rows \<and> in_i64 (physical (hlc c)))"

lemma validUtf8_Genesis [simp]: "validUtf8 GenesisHash"
  by (rule validUtf8_ascii) (simp add: GenesisHash_def)

lemma row_ok_hash_utf8: "row_ok C K row \<Longrightarrow> validUtf8 (receipt_hash row)"
  by (erule row_okE) simp

lemma chain_inv_lastHash_utf8: "chain_inv C K c \<Longrightarrow> validUtf8 (lastHash c)"
  by (auto simp: chain_inv_def Let_def tipHash_def list_all_iff intro: row_ok_hash_utf8)

lemma Now_in_i64: "in_i64 w \<Longrightarrow> in_i64 (fst (Now w h))"
  by (simp add: Now_def Let_def wrap64_in_i64)

text \<open>
  What an append may assume of its caller: the wall clock fits int64; the builder returns text
  in valid UTF-8 when the previous hash is, and the signing key is the key ring's key of the
  receipt's agent.
\<close>

definition append_allowed ::
  "(string \<Rightarrow> bytes) \<Rightarrow> (string \<Rightarrow> u64 \<Rightarrow> string + Receipt) \<Rightarrow> bytes \<Rightarrow> i64 \<Rightarrow> bool" where
  "append_allowed K buildFn priv wall \<longleftrightarrow> in_i64 wall \<and>
     (\<forall>p i b. validUtf8 p \<longrightarrow> buildFn p i = Inr b \<longrightarrow>
        receipt_utf8 (b\<lparr>TimestampNS := 0, Signature := ''''\<rparr>) \<and> priv = K (AgentID b))"

lemma uint_plus_1: "uint (w + 1 :: u64) < 2 ^ 63 \<Longrightarrow> uint w < 2 ^ 63 \<Longrightarrow> uint (w + 1) = uint w + 1"
  by (simp add: uint_word_ariths)

lemma chained_tip_notin:
  "chained i h xs \<Longrightarrow> i + int (length xs) \<notin> chain_index ` set xs"
  using chained_index_bounds by fastforce

lemma AppendNew_utf8:
  assumes utf: "validUtf8 (lastHash c)"
    and al: "append_allowed K buildFn priv wall"
    and b: "buildFn (lastHash c) (lastIdx c + 1) = Inr b"
    and s: "Sign C priv (b\<lparr>TimestampNS := fst (Now wall (hlc c))\<rparr>) = (Ok s :: (chain_error, Receipt) go)"
  shows "receipt_utf8 s" and "priv = K (AgentID s)"
proof -
  have bu: "receipt_utf8 (b\<lparr>TimestampNS := 0, Signature := ''''\<rparr>)" and k: "priv = K (AgentID b)"
    and w: "in_i64 wall"
    using al utf b by (auto simp: append_allowed_def)
  have "receipt_utf8 (b\<lparr>TimestampNS := fst (Now wall (hlc c)), Signature := ''''\<rparr>)"
    using bu Now_in_i64 [OF w] by (simp add: receipt_utf8_def)
  then show "receipt_utf8 s" using Sign_receipt_utf8 [OF s] by simp
  show "priv = K (AgentID s)" using k Sign_Ok(8) [OF s] by simp
qed

lemma AppendNew_row_ok:
  assumes ok: "crypto_ok C" and utf: "validUtf8 (lastHash c)"
    and al: "append_allowed K buildFn priv wall"
    and b: "buildFn (lastHash c) (lastIdx c + 1) = Inr b"
    and s: "Sign C priv (b\<lparr>TimestampNS := fst (Now wall (hlc c))\<rparr>) = (Ok s :: (chain_error, Receipt) go)"
  shows "row_ok C K (storedRow C s)"
  using AppendNew_utf8 [OF utf al b s] Sign_Ok(1,4) [OF s] Verify_Sign [OF ok s]
  by (intro row_okI) simp_all

lemma AppendNew_inv:
  assumes ok: "crypto_ok C" and inv: "chain_inv C K c" and al: "append_allowed K buildFn priv wall"
  shows "chain_inv C K (snd (AppendNew C buildFn priv wall fault c))"
proof -
  obtain x c' where ap: "AppendNew C buildFn priv wall fault c = (x, c')" by (cases "AppendNew C buildFn priv wall fault c")
  have w: "in_i64 wall" using al by (simp add: append_allowed_def)
  have hl: "in_i64 (physical (snd (Now wall (hlc c))))" using Now_in_i64 [OF w] by simp
  show ?thesis
  proof (cases x)
    case (Ok r)
    from AppendNew_Ok [OF ap [unfolded Ok]] obtain s b where
      b: "buildFn (lastHash c) (lastIdx c + 1) = Inr b" and
      s: "Sign C priv (b\<lparr>TimestampNS := fst (Now wall (hlc c))\<rparr>) = (Ok s :: (chain_error, Receipt) go)" and
      ci: "ChainIndex s = lastIdx c + 1" and ph: "PrevReceiptHash s = lastHash c" and
      lt: "uint (lastIdx c + 1) < 2 ^ 63" and
      fresh: "receipt_id (storedRow C s) \<notin> receipt_id ` set (receipts (db c))" and
      c': "c' = c\<lparr>hlc := snd (Now wall (hlc c)), db := (db c)\<lparr>receipts := receipts (db c) @ [storedRow C s]\<rparr>,
         lastIdx := lastIdx c + 1, lastHash := hashHex C (marshalReceipt s)\<rparr>"
      by (metis (no_types))
    have rk: "row_ok C K (storedRow C s)"
      using AppendNew_row_ok [OF ok chain_inv_lastHash_utf8 [OF inv] al b s] .
    have up: "uint (lastIdx c + 1) = uint (lastIdx c) + 1"
      using uint_plus_1 [OF lt] inv by (simp add: chain_inv_def Let_def)
    let ?rows = "receipts (db c)" and ?as = "anchors (db c)"
    have ch: "chained (anchorEnd ?as + 1) (headPrev (?rows @ [storedRow C s])) (?rows @ [storedRow C s])"
      using inv ph ci up
      by (cases ?rows) (auto simp: chain_inv_def Let_def chained_append headPrev_def tipHash_def anchorEnd_def)
    have hp: "?as = [] \<longrightarrow> headPrev (?rows @ [storedRow C s]) = GenesisHash"
      using inv ph by (cases ?rows) (auto simp: chain_inv_def Let_def headPrev_def tipHash_def)
    show ?thesis
      using inv rk fresh ch hp hl lt up unfolding ap snd_conv c'
      by (simp add: chain_inv_def Let_def tipHash_def)
  next
    case (Err e)
    then show ?thesis using AppendNew_not_Ok [OF ap] inv hl unfolding ap by (auto simp: chain_inv_def Let_def)
  next
    case Panic
    then show ?thesis using AppendNew_not_Ok [OF ap] inv hl unfolding ap by (auto simp: chain_inv_def Let_def)
  qed
qed

lemma Open_fresh_inv:
  assumes "Open fails emptyDB = Ok c"
  shows "chain_inv C K c"
proof -
  have "c = \<lparr>db = emptyDB, lastIdx = 0, lastHash = GenesisHash, hlc = zeroHLC\<rparr>"
    using assms by (auto simp: Open_def Let_def selectTip_def emptyDB_def split: option.splits if_splits)
  then show ?thesis
    by (simp add: chain_inv_def emptyDB_def anchorEnd_def headPrev_def tipHash_def zeroHLC_def in_i64_def)
qed

text \<open>Reopening the database of a chain restores its tip.\<close>

lemma selectTip_inv:
  assumes "chain_inv C K c" "receipts (db c) \<noteq> []"
  shows "selectTip (db c) = Some (last (receipts (db c)))"
proof -
  have "sorted (map chain_index (receipts (db c)))"
    using assms(1) chained_sorted by (auto simp: chain_inv_def Let_def)
  then have "sort_key chain_index (receipts (db c)) = receipts (db c)" by (rule sort_key_sorted_id)
  moreover obtain xs x where "receipts (db c) = xs @ [x]" using assms(2) by (cases "receipts (db c)" rule: rev_cases) auto
  ultimately show ?thesis by (simp add: selectTip_def)
qed

lemma chain_inv_last_index:
  assumes "chain_inv C K c" "receipts (db c) \<noteq> []"
  shows "chain_index (last (receipts (db c))) = uint (lastIdx c)"
proof -
  obtain xs x where "receipts (db c) = xs @ [x]" using assms(2) by (cases "receipts (db c)" rule: rev_cases) auto
  then show ?thesis using assms(1) by (auto simp: chain_inv_def Let_def chained_append)
qed

lemma Open_reopen:
  assumes "chain_inv C K c" "\<forall>s. \<not> fails s"
  shows "Open fails (db c) = Ok (c\<lparr>hlc := zeroHLC\<rparr>)"
proof -
  have "find fails openSteps = None" using assms(2) by (simp add: find_None_iff)
  moreover have "receipts (db c) \<noteq> [] \<Longrightarrow> lastHash c = receipt_hash (last (receipts (db c)))"
    and "receipts (db c) = [] \<Longrightarrow> lastHash c = GenesisHash \<and> lastIdx c = 0"
    using assms(1) by (auto simp: chain_inv_def Let_def tipHash_def anchorEnd_def uint_0_iff)
  moreover have "receipts (db c) = [] \<Longrightarrow> selectTip (db c) = None" by (simp add: selectTip_def)
  ultimately show ?thesis
    using assms selectTip_inv [OF assms(1)] chain_inv_last_index [OF assms(1)]
    by (cases "receipts (db c) = []") (auto simp: Open_def Let_def)
qed

section \<open>Properties\<close>

text \<open>
  C9. A receipt with valid text that was appended is read back unchanged. Let the builder only
  produce receipts whose texts are valid UTF-8 and whose agent's key of the ring is the signing
  key, and let the wall clock fit an \<open>int64\<close> (\<open>append_allowed\<close>; a text cut inside a rune is
  outside, and is not read back as it was signed). After a successful \<open>AppendNew\<close>
  on a well-formed chain, \<open>GetByIndex\<close> at the returned index and \<open>Get\<close> at the returned
  identifier give the returned receipt (up to the hash cache, which is not stored), at the next
  index, linked to the previous tip, and the returned receipt satisfies the schema.
\<close>

theorem append_then_get:
  assumes "crypto_ok C" and "chain_inv C K c" and "append_allowed K buildFn priv wall"
    and "AppendNew C buildFn priv wall fault c = (Ok r, c')"
  shows "GetByIndex False (ChainIndex r) c' = Ok (bare r) \<and> Get False (ReceiptID r) c' = Ok (bare r)
    \<and> ChainIndex r = lastIdx c + 1 \<and> PrevReceiptHash r = lastHash c
    \<and> lastIdx c' = ChainIndex r \<and> validateReceipt r = None"
proof -
  from AppendNew_Ok [OF assms(4)] obtain s b where
    b: "buildFn (lastHash c) (lastIdx c + 1) = Inr b" and
    s: "Sign C priv (b\<lparr>TimestampNS := fst (Now wall (hlc c))\<rparr>) = (Ok s :: (chain_error, Receipt) go)" and
    r: "r = s\<lparr>cachedRaw := marshalReceipt s, cachedHash := hashHex C (marshalReceipt s)\<rparr>" and
    ci: "ChainIndex s = lastIdx c + 1" and ph: "PrevReceiptHash s = lastHash c" and
    v: "validateReceipt s = None" and lt: "uint (lastIdx c + 1) < 2 ^ 63" and
    fresh: "chain_index (storedRow C s) \<notin> chain_index ` set (receipts (db c))"
      "receipt_id (storedRow C s) \<notin> receipt_id ` set (receipts (db c))" and
    c': "c' = c\<lparr>hlc := snd (Now wall (hlc c)), db := (db c)\<lparr>receipts := receipts (db c) @ [storedRow C s]\<rparr>,
       lastIdx := lastIdx c + 1, lastHash := hashHex C (marshalReceipt s)\<rparr>"
    by (metis (no_types))
  have u: "receipt_utf8 s"
    using AppendNew_utf8(1) [OF chain_inv_lastHash_utf8 [OF assms(2)] assms(3) b s] .
  have bs: "bare s = s" using Sign_Ok(4) [OF s] .
  have br: "bare r = s" using bs r by (simp add: bare_def)
  have "unmarshalReceipt (marshalReceipt s) = Some s"
    using bs unmarshal_marshal [OF u] by simp
  then have dec: "decodeRow (storedRow C s) = Ok s" by (simp add: decodeRow_def)
  have fi: "find (\<lambda>row. chain_index row = uint (lastIdx c + 1)) (receipts (db c)) = None"
    and fr: "find (\<lambda>row. receipt_id row = ReceiptID s) (receipts (db c)) = None"
    using fresh ci by (auto simp: find_None_iff image_iff)
  have "validateReceipt r = validateReceipt s" by (simp add: r validateReceipt_def)
  with fi fr dec br lt ci ph v show ?thesis
    by (simp add: GetByIndex_def Get_def u64Arg_def c' r find_append)
qed

text \<open>
  C15. A failed append leaves the chain as it was. Whatever the reason (builder error, tip
  mismatch, schema violation, database error, a private key of the wrong size that makes the
  signer panic), tables, tip index and tip hash are unchanged; at most the clock has advanced.
\<close>

theorem append_failure_atomic:
  assumes "AppendNew C buildFn priv wall fault c = (x, c')" and "\<not> is_Ok x"
  shows "db c' = db c \<and> lastIdx c' = lastIdx c \<and> lastHash c' = lastHash c"
  using AppendNew_not_Ok [OF assms] by auto

lemma validateReceipt_None:
  "validateReceipt r = None \<longleftrightarrow>
     reReceiptID (ReceiptID r) \<and> reAgentID (AgentID r) \<and>
     (rePrevHash (PrevReceiptHash r) \<or> PrevReceiptHash r = GenesisHash) \<and>
     Phase r \<in> set validPhases \<and> reActionType (ActionType r) \<and> ChainIndex r \<noteq> 0 \<and>
     length (PayloadSummary r) \<le> 80 \<and> length (AuthorizingContext r) \<le> 200 \<and>
     length (OutcomeSummary r) \<le> 120 \<and>
     (PolicyDecision r = '''' \<or> PolicyDecision r \<in> set validPolicies) \<and>
     (Outcome r = '''' \<or> Outcome r \<in> set validOutcomes) \<and>
     (Signature r = '''' \<or> reSignature (Signature r)) \<and>
     (PreReceiptID r = '''' \<or> reReceiptID (PreReceiptID r)) \<and>
     (ParentAgentID r = '''' \<or> reAgentID (ParentAgentID r)) \<and> 0 \<le> DurationMS r"
  unfolding validateReceipt_def if_Some_None by (simp add: linorder_not_less word_less_1)

lemma AppendNew_succeeds:
  assumes "crypto_ok C" and "length priv = 64"
    and "buildFn (lastHash c) (lastIdx c + 1) = Inr b"
    and "ChainIndex b = lastIdx c + 1" and "PrevReceiptHash b = lastHash c" and "ReceiptID b = ''''"
    and "validateReceipt (b\<lparr>ReceiptID := replicate 32 (CHR ''0''), Signature := ''''\<rparr>) = None"
    and "uint (lastIdx c + 1) < 2 ^ 63"
    and "uint (lastIdx c + 1) \<notin> chain_index ` set (receipts (db c))"
    and "hexEncode (take 16 (sha256 C (SignableBytes (b\<lparr>TimestampNS := fst (Now wall (hlc c))\<rparr>))))
           \<notin> receipt_id ` set (receipts (db c))"
  shows "\<exists>r c'. AppendNew C buildFn priv wall False c = (Ok r, c')"
proof -
  obtain t h where nw: "Now wall (hlc c) = (t, h)" by (cases "Now wall (hlc c)")
  let ?b = "b\<lparr>TimestampNS := t, cachedHash := '''', cachedRaw := ''''\<rparr>"
  have sb: "SignableBytes ?b = SignableBytes (b\<lparr>TimestampNS := t\<rparr>)"
    by (simp add: SignableBytes_def signableFields_def)
  define i where "i = hexEncode (take 16 (sha256 C (SignableBytes (b\<lparr>TimestampNS := t\<rparr>))))"
  define g where "g = hexEncode (edSign C priv (SignableBytes (b\<lparr>TimestampNS := t\<rparr>)))"
  let ?s = "?b\<lparr>ReceiptID := i, Signature := g\<rparr>"
  have s: "Sign C priv (b\<lparr>TimestampNS := t\<rparr>) = Ok ?s"
    using assms(2,6) sb by (simp add: Sign_def Let_def ed25519Sign_def i_def g_def)
  have "length (sha256 C (SignableBytes (b\<lparr>TimestampNS := t\<rparr>))) = 32"
    using crypto_okD(1) [OF assms(1)] .
  then have i: "reReceiptID i" by (simp add: i_def reReceiptID_def hexEncode_lower)
  have g: "reSignature g"
    using crypto_okD(2) [OF assms(1,2)] by (simp add: g_def reSignature_def hexEncode_lower)
  have v: "validateReceipt ?s = None"
    using assms(7) i g by (simp add: validateReceipt_None)
  have ci: "ChainIndex (snd (ComputeHash C ?s)) = lastIdx c + 1" "ReceiptID (snd (ComputeHash C ?s)) = i"
    using assms(4) by (simp_all add: ComputeHash_def Let_def)
  obtain hash r2 where ch: "ComputeHash C ?s = (hash, r2)" by (cases "ComputeHash C ?s")
  have "insertReceipt False (receiptRow r2 hash (uint (lastIdx c + 1))) (db c) \<noteq> None"
    using assms(9,10) ci ch nw by (simp add: insertReceipt_def receiptRow_def i_def)
  then obtain d where d: "insertReceipt False (receiptRow r2 hash (uint (lastIdx c + 1))) (db c) = Some d"
    by auto
  have "AppendNew C buildFn priv wall False c =
     (Ok r2, c\<lparr>hlc := h, db := d, lastIdx := lastIdx c + 1, lastHash := hash\<rparr>)"
    using assms(3,4,5,8) ci ch d by (simp add: AppendNew_def Let_def nw s v u64Arg_def)
  then show ?thesis by blast
qed

text \<open>
  An append that the schema allows succeeds. If the builder returns a receipt for the tip
  with an empty identifier, whose other fields satisfy the schema, the key has the size of an
  Ed25519 private key, the next index fits SQLite's signed integers and neither the index nor
  the identifier to be assigned is in the table, then \<open>AppendNew\<close> returns a receipt.
\<close>

theorem append_succeeds:
  assumes "crypto_ok C" and "length priv = 64"
    and "buildFn (lastHash c) (lastIdx c + 1) = Inr b"
    and "ChainIndex b = lastIdx c + 1" and "PrevReceiptHash b = lastHash c" and "ReceiptID b = ''''"
    and "validateReceipt (b\<lparr>ReceiptID := replicate 32 (CHR ''0''), Signature := ''''\<rparr>) = None"
    and "uint (lastIdx c + 1) < 2 ^ 63"
    and "uint (lastIdx c + 1) \<notin> chain_index ` set (receipts (db c))"
    and "hexEncode (take 16 (sha256 C (SignableBytes (b\<lparr>TimestampNS := fst (Now wall (hlc c))\<rparr>))))
           \<notin> receipt_id ` set (receipts (db c))"
  shows "\<exists>r c'. AppendNew C buildFn priv wall False c = (Ok r, c')"
  using assms by (rule AppendNew_succeeds)

section \<open>Concrete instances\<close>

text \<open>
  A key, a builder and the empty chain, used to show that the hypotheses of the theorems can
  hold.
\<close>

definition exKey :: bytes where
  "exKey = replicate 64 (CHR ''k'')"

definition exReceipt :: "string \<Rightarrow> u64 \<Rightarrow> Receipt" where
  "exReceipt p i = zeroReceipt\<lparr>Phase := PhasePre, AgentID := ''ans_agent'', PrevReceiptHash := p,
     ChainIndex := i, ActionType := ''file.read'', PayloadHash := ''ab''\<rparr>"

definition exBuild :: "string \<Rightarrow> u64 \<Rightarrow> string + Receipt" where
  "exBuild p i = Inr (exReceipt p i)"

definition exEmpty :: Chain where
  "exEmpty = \<lparr>db = emptyDB, lastIdx = 0, lastHash = GenesisHash, hlc = zeroHLC\<rparr>"

lemma exEmpty_inv: "chain_inv C K exEmpty"
  by (rule Open_fresh_inv [of "\<lambda>_. False"])
     (simp add: Open_def openSteps_def selectTip_def emptyDB_def exEmpty_def)

lemma exReceipt_utf8: "validUtf8 p \<Longrightarrow> receipt_utf8 ((exReceipt p i)\<lparr>TimestampNS := 0, Signature := ''''\<rparr>)"
  by (simp add: receipt_utf8_def exReceipt_def zeroReceipt_def PhasePre_def validUtf8_ascii in_i64_def)

lemma exBuild_allowed: "append_allowed (\<lambda>_. exKey) exBuild exKey 1000"
  by (simp add: append_allowed_def exBuild_def exReceipt_utf8 in_i64_def)

lemma exReceipt_valid:
  "i \<noteq> 0 \<Longrightarrow> rePrevHash p \<or> p = GenesisHash \<Longrightarrow>
   validateReceipt ((exReceipt p i)\<lparr>ReceiptID := replicate 32 (CHR ''0''), Signature := ''''\<rparr>) = None"
  by (auto simp: validateReceipt_None exReceipt_def zeroReceipt_def PhasePre_def reReceiptID_def is_hex_lower_def
      reAgentID_def isIdChar_def reActionType_def isActionChar_def validPhases_def list_all_iff)

lemma exAppend: "\<exists>r c'. AppendNew toyCrypto exBuild exKey 1000 False exEmpty = (Ok r, c')"
  using AppendNew_succeeds [where C = toyCrypto and priv = exKey and buildFn = exBuild and c = exEmpty
      and b = "exReceipt GenesisHash 1" and wall = 1000] exReceipt_valid [of 1 GenesisHash]
  by (simp add: toyCrypto_ok exKey_def exBuild_def exEmpty_def emptyDB_def exReceipt_def zeroReceipt_def)

theorem append_succeeds_witness:
  "\<exists>r c'. AppendNew toyCrypto exBuild exKey 1000 False exEmpty = (Ok r, c')"
  using append_succeeds [where C = toyCrypto and priv = exKey and buildFn = exBuild and c = exEmpty
      and b = "exReceipt GenesisHash 1" and wall = 1000] exReceipt_valid [of 1 GenesisHash]
  by (simp add: toyCrypto_ok exKey_def exBuild_def exEmpty_def emptyDB_def exReceipt_def zeroReceipt_def)

theorem append_then_get_witness:
  "\<exists>r c'. AppendNew toyCrypto exBuild exKey 1000 False exEmpty = (Ok r, c') \<and>
     GetByIndex False (ChainIndex r) c' = Ok (bare r) \<and> Get False (ReceiptID r) c' = Ok (bare r)
    \<and> ChainIndex r = lastIdx exEmpty + 1 \<and> PrevReceiptHash r = lastHash exEmpty
    \<and> lastIdx c' = ChainIndex r \<and> validateReceipt r = None"
proof -
  obtain r c' where "AppendNew toyCrypto exBuild exKey 1000 False exEmpty = (Ok r, c')"
    using exAppend by blast
  with append_then_get [OF toyCrypto_ok exEmpty_inv exBuild_allowed] show ?thesis by blast
qed

theorem append_failure_atomic_witness:
  "\<exists>c'. AppendNew toyCrypto exBuild [] 1000 False exEmpty = (Panic, c') \<and>
     db c' = db exEmpty \<and> lastIdx c' = lastIdx exEmpty \<and> lastHash c' = lastHash exEmpty"
proof -
  let ?c = "exEmpty\<lparr>hlc := snd (Now 1000 (hlc exEmpty))\<rparr>"
  have ap: "AppendNew toyCrypto exBuild [] 1000 False exEmpty = (Panic, ?c)"
    by (simp add: AppendNew_def exBuild_def exReceipt_def exEmpty_def Let_def Sign_def ed25519Sign_def
        split_beta)
  show ?thesis using append_failure_atomic [OF ap] ap by auto
qed

end
