(* ===== verification/Prune.thy ===== *)
theory Prune
  imports Chain
begin

text \<open>
  \<open>internal/chain/prune.go\<close>: the Merkle tree over pruned receipts, \<open>Prune\<close>,
  \<open>ListAnchors\<close> and \<open>VerifyInclusion\<close>. Hashes are lower-case hexadecimal strings, as
  in the source; byte arithmetic of \<open>hexDecode\<close> wraps at 256; indexing a slice out of
  range is a panic.
\<close>

unbundle bit_operations_syntax

section \<open>Hexadecimal digits without validation\<close>

definition hexNibble :: "char \<Rightarrow> nat" where
  "hexNibble c = (let b = byte c in
     if 97 \<le> b \<and> b \<le> 102 then b - 97 + 10
     else if 65 \<le> b \<and> b \<le> 70 then b - 65 + 10
     else (b + 256 - 48) mod 256)"

fun hexPairs :: "string \<Rightarrow> bytes" where
  "hexPairs (h # l # s) = char_of (((hexNibble h * 16) mod 256) OR hexNibble l) # hexPairs s"
| "hexPairs _ = []"

definition hexDecode :: "string \<Rightarrow> bytes" where
  "hexDecode s = (if length s mod 2 \<noteq> 0 then [] else hexPairs s)"

section \<open>Merkle trees\<close>

fun merklePairs :: "crypto \<Rightarrow> string list \<Rightarrow> string list" where
  "merklePairs C [] = []"
| "merklePairs C [l] = [hashHex C (hexDecode l @ hexDecode l)]"
| "merklePairs C (l # r # xs) = hashHex C (hexDecode l @ hexDecode r) # merklePairs C xs"

lemma length_merklePairs [simp]: "length (merklePairs C xs) = (length xs + 1) div 2"
  by (induction C xs rule: merklePairs.induct) auto

function merkleLevels :: "crypto \<Rightarrow> string list \<Rightarrow> string list list" where
  "merkleLevels C current =
     current # (if length current > 1 then merkleLevels C (merklePairs C current) else [])"
  by pat_completeness auto
termination
  by (relation "measure (\<lambda>(_, xs). length xs)") auto

declare merkleLevels.simps [simp del]

definition buildMerkleTree :: "crypto \<Rightarrow> bytes list \<Rightarrow> string list list" where
  "buildMerkleTree C leaves =
     (if leaves = [] then [[hashHex C []]] else merkleLevels C (map (hashHex C) leaves))"

definition merkleRoot :: "crypto \<Rightarrow> bytes list \<Rightarrow> string" where
  "merkleRoot C leaves = last (buildMerkleTree C leaves) ! 0"

section \<open>Anchors\<close>

record Anchor =
  AnchorID :: i64
  FromIndex :: u64
  ToIndex :: u64
  ACount :: int
  MerkleRoot :: string
  MerkleTree :: "string list list"
  PrunedAt :: i64

datatype prune_error =
    UpToNotBelowTip | TooCloseToTip | PruneQueryErr | PruneRowsErr | NothingToPrune
  | AnchorInsertErr | PruneDeleteErr

record prune_faults =
  fPruneQuery :: bool
  fPruneRows :: bool
  fPruneMin :: bool
  fAnchorInsert :: bool
  fPruneDelete :: bool

definition noPruneFaults :: prune_faults where
  "noPruneFaults = \<lparr>fPruneQuery = False, fPruneRows = False, fPruneMin = False,
     fAnchorInsert = False, fPruneDelete = False\<rparr>"

definition treeJSON :: "string list list \<Rightarrow> string" where
  "treeJSON tree = jsonEnc (JArr (map (\<lambda>l. JArr (map JStr l)) tree))"

text \<open>
  The rows to prune in ascending order; the smallest index among them, 1 when the aggregate
  cannot be read or is not positive.
\<close>

definition pruneRows :: "int \<Rightarrow> chainDB \<Rightarrow> receipt_row list" where
  "pruneRows u d = sort_key chain_index (filter (\<lambda>row. chain_index row \<le> u) (receipts d))"

definition pruneFrom :: "bool \<Rightarrow> receipt_row list \<Rightarrow> int" where
  "pruneFrom fault rows = (if fault \<or> rows = [] \<or> Min (chain_index ` set rows) \<le> 0 then 1
     else Min (chain_index ` set rows))"

text \<open>
  \<open>Prune\<close> runs its statements one by one, without a transaction: when the deletion fails,
  the anchor row stays.
\<close>

definition Prune :: "crypto \<Rightarrow> prune_faults \<Rightarrow> i64 \<Rightarrow> u64 \<Rightarrow> Chain \<Rightarrow> (prune_error, Anchor) go \<times> Chain" where
  "Prune C f now upToIndex c =
     (if lastIdx c \<le> upToIndex then (Err UpToNotBelowTip, c)
      else if lastIdx c - upToIndex < 10 then (Err TooCloseToTip, c)
      else case u64Arg upToIndex of
        None \<Rightarrow> (Err PruneQueryErr, c)
      | Some u \<Rightarrow>
          if fPruneQuery f then (Err PruneQueryErr, c)
          else if fPruneRows f then (Err PruneRowsErr, c)
          else (let d = db c; rows = pruneRows u d; raws = map raw_receipt rows in
            if raws = [] then (Err NothingToPrune, c)
            else (let tree = buildMerkleTree C raws; root = last tree ! 0;
                      fromIndex = pruneFrom (fPruneMin f) rows in
              if fAnchorInsert f then (Err AnchorInsertErr, c)
              else (let aid = anchorSeq d + 1;
                        d1 = d\<lparr>anchors := anchors d @ [\<lparr>anchor_id = aid, from_index = fromIndex,
                                 to_index = u, acount = int (length raws), merkle_root = root,
                                 merkle_tree = treeJSON tree, pruned_at = now\<rparr>],
                               anchorSeq := aid\<rparr> in
                if fPruneDelete f then (Err PruneDeleteErr, c\<lparr>db := d1\<rparr>)
                else (Ok \<lparr>AnchorID = aid, FromIndex = word_of_int fromIndex, ToIndex = upToIndex,
                          ACount = int (length raws), MerkleRoot = root, MerkleTree = tree, PrunedAt = now\<rparr>,
                      c\<lparr>db := d1\<lparr>receipts := filter (\<lambda>row. \<not> chain_index row \<le> u) (receipts d1)\<rparr>\<rparr>)))))"

text \<open>
  Decoding the tree column ignores errors: invalid JSON leaves the tree nil, a value of the
  wrong type leaves the element at its zero value.
\<close>

fun decodeLeaf :: "json \<Rightarrow> string" where
  "decodeLeaf (JStr s) = s"
| "decodeLeaf _ = ''''"

fun decodeLevel :: "json \<Rightarrow> string list" where
  "decodeLevel (JArr vs) = map decodeLeaf vs"
| "decodeLevel _ = []"

definition decodeTree :: "string \<Rightarrow> string list list" where
  "decodeTree s = (if s = '''' then [] else
     case jsonParse s of Some (JArr ls) \<Rightarrow> map decodeLevel ls | _ \<Rightarrow> [])"

definition scanAnchor :: "anchor_row \<Rightarrow> Anchor option" where
  "scanAnchor a = (if from_index a < 0 \<or> to_index a < 0 then None
     else Some \<lparr>AnchorID = anchor_id a, FromIndex = word_of_int (from_index a),
       ToIndex = word_of_int (to_index a), ACount = acount a, MerkleRoot = merkle_root a,
       MerkleTree = decodeTree (merkle_tree a), PrunedAt = pruned_at a\<rparr>)"

text \<open>
  Anchors in the order of \<open>from_index\<close>; equal keys, which SQL leaves open, in the order
  of the index on (\<open>from_index\<close>, \<open>to_index\<close>). A scan error ends the call.
\<close>

definition ListAnchors :: "bool \<Rightarrow> Chain \<Rightarrow> (chain_error, Anchor list) go" where
  "ListAnchors fault c = (if fault then Err QueryErr else
     (let as = map scanAnchor (sort_key from_index (sort_key to_index (anchors (db c)))) in
      if None \<in> set as then Err QueryErr else Ok (map the as)))"

section \<open>Proofs of inclusion\<close>

datatype inclusion_error = NoRoot | NotInAnchor | NoTree | NotInTree | TooDeep
  | BadLeftHash nat | BadRightHash nat | ProofFailed nat

fun leafIndex :: "string \<Rightarrow> string list \<Rightarrow> nat option" where
  "leafIndex h [] = None"
| "leafIndex h (x # xs) = (if x = h then Some 0 else map_option Suc (leafIndex h xs))"

text \<open>One step per level that has a parent level.\<close>

fun proofWalk :: "crypto \<Rightarrow> nat \<Rightarrow> nat \<Rightarrow> string list list \<Rightarrow> (inclusion_error, unit) go" where
  "proofWalk C level idx (nodes # parents # rest) =
     (if length nodes \<le> idx then Panic
      else (let siblingIdx = (if idx mod 2 = 0 then idx + 1 else idx - 1);
                siblingHash = (if length nodes \<le> siblingIdx then nodes ! idx else nodes ! siblingIdx);
                left = (if idx mod 2 = 1 then siblingHash else nodes ! idx);
                right = (if idx mod 2 = 1 then nodes ! idx else siblingHash) in
        if length (hexDecode left) \<noteq> 32 then Err (BadLeftHash level)
        else if length (hexDecode right) \<noteq> 32 then Err (BadRightHash level)
        else if length parents \<le> idx div 2 then Panic
        else if hashHex C (hexDecode left @ hexDecode right) \<noteq> parents ! (idx div 2)
          then Err (ProofFailed level)
        else proofWalk C (level + 1) (idx div 2) (parents # rest)))"
| "proofWalk C level idx _ = Ok ()"

definition VerifyInclusion :: "crypto \<Rightarrow> Anchor \<Rightarrow> bytes \<Rightarrow> (inclusion_error, unit) go" where
  "VerifyInclusion C anchor rawReceipt =
     (if MerkleRoot anchor = '''' then Err NoRoot
      else if ACount anchor = 1 then
        (if hashHex C rawReceipt \<noteq> MerkleRoot anchor then Err NotInAnchor else Ok ())
      else case MerkleTree anchor of
        [] \<Rightarrow> Err NoTree
      | level0 # levels \<Rightarrow>
          (case leafIndex (hashHex C rawReceipt) level0 of
             None \<Rightarrow> Err NotInTree
           | Some leafIdx \<Rightarrow>
               if 64 < length levels then Err TooDeep
               else proofWalk C 0 leafIdx (level0 # levels)))"

section \<open>Hashes decode to their bytes\<close>

lemma hexNibble_hexdig: "n < 16 \<Longrightarrow> hexNibble (hexdig n) = n"
  by (auto simp: hexNibble_def hexdig_def Let_def)

lemma nibbles_or: "l < 16 \<Longrightarrow> (h * 16) OR l = h * 16 + (l::nat)"
proof -
  assume l: "l < 16"
  have "or (h * 16) l = or (push_bit 4 h) (take_bit 4 l)"
    using l by (simp add: push_bit_eq_mult take_bit_eq_mod mult.commute)
  also have "\<dots> = push_bit 4 h + take_bit 4 l"
    by (rule disjunctive_add [symmetric]) (auto simp: bit_push_bit_iff bit_take_bit_iff)
  finally show ?thesis using l by (simp add: push_bit_eq_mult take_bit_eq_mod mult.commute)
qed

lemma hexDecode_hexEncode [simp]: "hexDecode (hexEncode b) = b"
proof -
  have "hexPairs (hexEncode b) = b"
    by (induction b) (use byte_less in \<open>auto simp: hexNibble_hexdig nibbles_or\<close>)
  then show ?thesis by (simp add: hexDecode_def)
qed

lemma hexDecode_hashHex [simp]: "hexDecode (hashHex C b) = sha256 C b"
  by (simp add: hashHex_def)

section \<open>The tree\<close>

definition hashes :: "crypto \<Rightarrow> string list \<Rightarrow> bool" where
  "hashes C xs \<longleftrightarrow> (\<forall>x\<in>set xs. \<exists>b. x = hashHex C b)"

lemma hashes_map [simp]: "hashes C (map (hashHex C) bs)"
  by (auto simp: hashes_def)

lemma hashes_merklePairs [simp]: "hashes C (merklePairs C xs)"
  unfolding hashes_def by (induction C xs rule: merklePairs.induct) auto

lemma hashes_nth: "crypto_ok C \<Longrightarrow> hashes C xs \<Longrightarrow> i < length xs \<Longrightarrow> length (hexDecode (xs ! i)) = 32"
  using crypto_okD(1) [of C] by (fastforce simp: hashes_def dest: nth_mem)

lemma hashes_utf8: "hashes C xs \<Longrightarrow> x \<in> set xs \<Longrightarrow> validUtf8 x"
  by (auto simp: hashes_def)

lemma merklePairs_nth:
  "i < length (merklePairs C xs) \<Longrightarrow> merklePairs C xs ! i =
     hashHex C (hexDecode (xs ! (2 * i)) @ hexDecode (xs ! (if 2 * i + 1 < length xs then 2 * i + 1 else 2 * i)))"
proof (induction C xs arbitrary: i rule: merklePairs.induct)
  case (3 C l r xs)
  then show ?case by (cases i) auto
qed auto

lemma merkleLevels_one: "merkleLevels C [x] = [[x]]"
  by (subst merkleLevels.simps) simp

lemma merkleLevels_more:
  "1 < length xs \<Longrightarrow> merkleLevels C xs = xs # merkleLevels C (merklePairs C xs)"
  by (subst merkleLevels.simps) simp

lemma merkleLevels_not_Nil [simp]: "merkleLevels C xs \<noteq> []"
  by (subst merkleLevels.simps) simp

lemma hd_merkleLevels: "hd (merkleLevels C xs) = xs"
  by (subst merkleLevels.simps) simp

lemma length_one_or_more: "xs \<noteq> [] \<Longrightarrow> (\<exists>x. xs = [x]) \<or> 1 < length xs"
  by (cases xs) (auto simp: Suc_lessI)

lemma merklePairs_not_Nil: "1 < length xs \<Longrightarrow> merklePairs C xs \<noteq> []"
  using length_merklePairs [of C xs] by (cases "merklePairs C xs") auto

lemma merkleLevels_top:
  "xs \<noteq> [] \<Longrightarrow> hashes C xs \<Longrightarrow> \<exists>b. last (merkleLevels C xs) = [hashHex C b]"
proof (induction C xs rule: merkleLevels.induct)
  case (1 C xs)
  show ?case
  proof (cases "1 < length xs")
    case True
    then show ?thesis using 1 merklePairs_not_Nil [OF True] by (simp add: merkleLevels_more)
  next
    case False
    then obtain x where "xs = [x]" using length_one_or_more [OF 1(2)] by auto
    then show ?thesis using 1(3) by (auto simp: merkleLevels_one hashes_def)
  qed
qed

lemma merkleLevels_hashes: "hashes C xs \<Longrightarrow> level \<in> set (merkleLevels C xs) \<Longrightarrow> hashes C level"
proof (induction C xs rule: merkleLevels.induct)
  case (1 C xs)
  then show ?case by (subst (asm) (2) merkleLevels.simps) (auto split: if_splits)
qed

lemma merkleLevels_depth:
  "xs \<noteq> [] \<Longrightarrow> length xs \<le> 2 ^ k \<Longrightarrow> length (merkleLevels C xs) \<le> k + 1"
proof (induction k arbitrary: xs)
  case 0
  then obtain x where "xs = [x]" using length_one_or_more [of xs] by auto
  then show ?case by (simp add: merkleLevels_one)
next
  case (Suc k)
  show ?case
  proof (cases "1 < length xs")
    case True
    then have "length (merklePairs C xs) \<le> 2 ^ k" using Suc.prems(2) by simp
    then show ?thesis
      using Suc.IH merklePairs_not_Nil [OF True] True by (simp add: merkleLevels_more)
  next
    case False
    then obtain x where "xs = [x]" using length_one_or_more [OF Suc.prems(1)] by auto
    then show ?thesis by (simp add: merkleLevels_one)
  qed
qed

lemma merkleLevels_Cons: obtains rest where "merkleLevels C xs = xs # rest"
  using hd_merkleLevels [of C xs] by (cases "merkleLevels C xs") auto

text \<open>
  The walk from any leaf of a tree that was built from its leaves succeeds at every level.
\<close>

lemma proofWalk_step:
  fixes k idx :: nat
  assumes "idx = 2 * k \<or> idx = 2 * k + 1" and "idx < length nodes" and "k < length parents"
    and "\<And>j. j < length nodes \<Longrightarrow> length (hexDecode (nodes ! j)) = 32"
    and "parents ! k = hashHex C (hexDecode (nodes ! (2 * k)) @
      hexDecode (nodes ! (if 2 * k + 1 < length nodes then 2 * k + 1 else 2 * k)))"
  shows "proofWalk C level idx (nodes # parents # rest) = proofWalk C (level + 1) k (parents # rest)"
  using assms by (auto simp: Let_def)

lemma proofWalk_merkleLevels:
  "crypto_ok C \<Longrightarrow> hashes C xs \<Longrightarrow> idx < length xs \<Longrightarrow> proofWalk C level idx (merkleLevels C xs) = Ok ()"
proof (induction C xs arbitrary: idx level rule: merkleLevels.induct)
  case (1 C xs)
  show ?case
  proof (cases "1 < length xs")
    case True
    let ?ps = "merklePairs C xs"
    obtain rest where up: "merkleLevels C ?ps = ?ps # rest" by (rule merkleLevels_Cons)
    have half: "idx div 2 < length ?ps" using 1(4) by simp
    have "proofWalk C level idx (xs # ?ps # rest) = proofWalk C (level + 1) (idx div 2) (?ps # rest)"
    proof (rule proofWalk_step)
      show "idx = 2 * (idx div 2) \<or> idx = 2 * (idx div 2) + 1" by presburger
    qed (use half 1(4) hashes_nth [OF 1(2,3)] merklePairs_nth [OF half] in simp_all)
    moreover have "proofWalk C (level + 1) (idx div 2) (?ps # rest) = Ok ()"
      using 1(1) [OF True 1(2) hashes_merklePairs half] up by simp
    ultimately show ?thesis by (simp only: merkleLevels_more [OF True] up)
  next
    case False
    then obtain x where "xs = [x]" using length_one_or_more [of xs] 1(4) by fastforce
    then show ?thesis by (simp add: merkleLevels_one)
  qed
qed

lemma leafIndex_Some: "x \<in> set xs \<Longrightarrow> \<exists>i. leafIndex x xs = Some i \<and> i < length xs"
  by (induction xs) auto

lemma leafIndex_None: "x \<notin> set xs \<Longrightarrow> leafIndex x xs = None"
  by (induction xs) auto

lemma hashHex_not_Nil: "crypto_ok C \<Longrightarrow> hashHex C b \<noteq> ''''"
  using length_hashHex [of C b] by auto

text \<open>What an anchor says of the pruned receipts.\<close>

definition anchorOf :: "crypto \<Rightarrow> bytes list \<Rightarrow> Anchor \<Rightarrow> bool" where
  "anchorOf C raws a \<longleftrightarrow> raws \<noteq> [] \<and> ACount a = int (length raws) \<and>
     MerkleTree a = buildMerkleTree C raws \<and> MerkleRoot a = last (buildMerkleTree C raws) ! 0"

lemma anchorOf_root:
  assumes "anchorOf C raws a" and "crypto_ok C"
  shows "MerkleRoot a \<noteq> ''''" and "length raws = 1 \<Longrightarrow> MerkleRoot a = hashHex C (hd raws)"
proof -
  have "\<exists>b. last (merkleLevels C (map (hashHex C) raws)) = [hashHex C b]"
    using assms(1) by (intro merkleLevels_top) (auto simp: anchorOf_def)
  then show "MerkleRoot a \<noteq> ''''"
    using assms hashHex_not_Nil by (auto simp: anchorOf_def buildMerkleTree_def)
  show "length raws = 1 \<Longrightarrow> MerkleRoot a = hashHex C (hd raws)"
    using assms(1) by (auto simp: anchorOf_def buildMerkleTree_def length_Suc_conv merkleLevels_one)
qed

lemma VerifyInclusion_complete:
  assumes "crypto_ok C" "anchorOf C raws a" "raw \<in> set raws" "length raws \<le> 2 ^ 64"
  shows "VerifyInclusion C a raw = Ok ()"
proof (cases "length raws = 1")
  case True
  then obtain x where "raws = [x]" by (auto simp: length_Suc_conv)
  then show ?thesis
    using assms(2,3) anchorOf_root [OF assms(2,1)] by (simp add: VerifyInclusion_def anchorOf_def)
next
  case False
  let ?xs = "map (hashHex C) raws"
  obtain rest where lv: "merkleLevels C ?xs = ?xs # rest" by (rule merkleLevels_Cons)
  have an: "raws \<noteq> []" "ACount a = int (length raws)" "MerkleTree a = ?xs # rest"
    using assms(2) lv by (auto simp: anchorOf_def buildMerkleTree_def)
  obtain i where i: "leafIndex (hashHex C raw) ?xs = Some i" "i < length ?xs"
    using leafIndex_Some [of "hashHex C raw" ?xs] assms(3) by auto
  have "length (merkleLevels C ?xs) \<le> 64 + 1"
    using an(1) assms(4) by (intro merkleLevels_depth) auto
  moreover have "proofWalk C 0 i (merkleLevels C ?xs) = Ok ()"
    using proofWalk_merkleLevels [OF assms(1) hashes_map i(2)] .
  ultimately show ?thesis
    using False i(1) an(2,3) anchorOf_root(1) [OF assms(2,1)]
    unfolding lv VerifyInclusion_def an(3) by simp
qed

lemma VerifyInclusion_sound:
  assumes "crypto_ok C" "anchorOf C raws a" "VerifyInclusion C a raw = Ok ()"
  shows "\<exists>leaf\<in>set raws. sha256 C leaf = sha256 C raw"
proof (cases "length raws = 1")
  case True
  then have "hashHex C raw = hashHex C (hd raws)"
    using assms(2,3) anchorOf_root [OF assms(2,1)]
    by (auto simp: VerifyInclusion_def anchorOf_def split: if_splits)
  moreover have "hd raws \<in> set raws" using assms(2) by (simp add: anchorOf_def)
  ultimately show ?thesis by (metis hashHex_def hexEncode_inj)
next
  case False
  let ?xs = "map (hashHex C) raws"
  obtain rest where lv: "merkleLevels C ?xs = ?xs # rest" by (rule merkleLevels_Cons)
  have an: "ACount a = int (length raws)" "MerkleTree a = ?xs # rest"
    using assms(2) lv by (auto simp: anchorOf_def buildMerkleTree_def)
  have "hashHex C raw \<in> set ?xs"
  proof (rule ccontr)
    assume "hashHex C raw \<notin> set ?xs"
    from leafIndex_None [OF this] show False
      using assms(3) an False unfolding VerifyInclusion_def an(2) by (simp split: if_splits)
  qed
  then show ?thesis by (force simp: hashHex_def hexEncode_inj)
qed

section \<open>The stored tree\<close>

lemma decodeTree_treeJSON:
  assumes "\<forall>level\<in>set tree. \<forall>x\<in>set level. validUtf8 x"
  shows "decodeTree (treeJSON tree) = tree"
proof -
  let ?v = "JArr (map (\<lambda>l. JArr (map JStr l)) tree)"
  have leaf: "jdepth (JArr (map JStr l)) = 1" for l
    by (cases l) (auto simp: image_image insert_absorb image_constant_conv)
  have "\<forall>d\<in>set (map jdepth (map (\<lambda>l. JArr (map JStr l)) tree)). d \<le> 1"
    using leaf by (auto simp del: jdepth.simps)
  then have "Max (insert 0 (set (map jdepth (map (\<lambda>l. JArr (map JStr l)) tree)))) \<le> 1"
    by (intro Max.boundedI) (auto simp del: jdepth.simps)
  then have "jdepth ?v \<le> 10000" unfolding jdepth.simps(1) by linarith
  moreover have "json_ok ?v" using assms by simp
  ultimately have "jsonParse (treeJSON tree) = Some ?v"
    unfolding treeJSON_def by (intro jsonParse_enc)
  moreover have "map decodeLevel (map (\<lambda>l. JArr (map JStr l)) tree) = tree"
    by (simp add: comp_def)
  moreover have "treeJSON tree \<noteq> ''''" by (simp add: treeJSON_def)
  ultimately show ?thesis by (simp add: decodeTree_def)
qed

lemma decodeTree_buildMerkleTree: "decodeTree (treeJSON (buildMerkleTree C raws)) = buildMerkleTree C raws"
proof (rule decodeTree_treeJSON, intro ballI)
  fix level x assume l: "level \<in> set (buildMerkleTree C raws)" "x \<in> set level"
  then have "hashes C level"
    using merkleLevels_hashes [OF hashes_map] by (auto simp: buildMerkleTree_def hashes_def split: if_splits)
  then show "validUtf8 x" using l(2) by (rule hashes_utf8)
qed

section \<open>What pruning does\<close>

lemma Prune_Ok:
  assumes "Prune C f now upTo c = (Ok a, c')"
  obtains "uint upTo < uint (lastIdx c)" "uint upTo < 2 ^ 63" "10 \<le> uint (lastIdx c) - uint upTo"
    "pruneRows (uint upTo) (db c) \<noteq> []"
    "a = \<lparr>AnchorID = anchorSeq (db c) + 1,
        FromIndex = word_of_int (pruneFrom (fPruneMin f) (pruneRows (uint upTo) (db c))), ToIndex = upTo,
        ACount = int (length (pruneRows (uint upTo) (db c))),
        MerkleRoot = last (buildMerkleTree C (map raw_receipt (pruneRows (uint upTo) (db c)))) ! 0,
        MerkleTree = buildMerkleTree C (map raw_receipt (pruneRows (uint upTo) (db c))), PrunedAt = now\<rparr>"
    "receipts (db c') = filter (\<lambda>row. uint upTo < chain_index row) (receipts (db c))"
    "anchors (db c') = anchors (db c) @ [\<lparr>anchor_id = AnchorID a,
        from_index = pruneFrom (fPruneMin f) (pruneRows (uint upTo) (db c)), to_index = uint upTo,
        acount = ACount a, merkle_root = MerkleRoot a, merkle_tree = treeJSON (MerkleTree a), pruned_at = now\<rparr>]"
    "lastIdx c' = lastIdx c" "lastHash c' = lastHash c" "hlc c' = hlc c"
proof -
  have lt: "uint upTo < uint (lastIdx c)" "\<not> lastIdx c - upTo < 10" "uint upTo < 2 ^ 63"
    using assms by (auto simp: Prune_def u64Arg_def word_le_def not_le split: if_splits option.splits)
  have "uint (lastIdx c - upTo) = uint (lastIdx c) - uint upTo"
    using lt(1) by (simp add: uint_sub_if_size)
  then have "10 \<le> uint (lastIdx c) - uint upTo" using lt(2) by (simp add: word_less_def)
  then show thesis
    using assms lt
    by (intro that)
       (auto simp: Prune_def u64Arg_def Let_def word_le_def word_less_def not_le split: if_splits)
qed

lemma Prune_anchorOf:
  assumes "Prune C f now upTo c = (Ok a, c')"
  shows "anchorOf C (map raw_receipt (pruneRows (uint upTo) (db c))) a"
  by (rule Prune_Ok [OF assms]) (simp add: anchorOf_def)

lemma Prune_not_Ok:
  assumes "Prune C f now upTo c = (x, c')" "\<not> is_Ok x" "x \<noteq> Err PruneDeleteErr"
  shows "c' = c"
  using assms by (auto simp: Prune_def Let_def split: if_splits option.splits)

lemma pruneRows_inv:
  assumes "chain_inv C K c"
  shows "pruneRows u (db c) = take (nat (u - anchorEnd (anchors (db c)))) (receipts (db c))"
proof -
  have ch: "chained (anchorEnd (anchors (db c)) + 1) (headPrev (receipts (db c))) (receipts (db c))"
    using assms by (simp add: chain_inv_def Let_def)
  have sk: "sort_key chain_index (receipts (db c)) = receipts (db c)"
    using chained_sorted [OF ch] by (rule sort_key_sorted_id)
  have "u + 1 - (anchorEnd (anchors (db c)) + 1) = u - anchorEnd (anchors (db c))" by simp
  then show ?thesis
    using chained_filter_ge(2) [OF ch, of u] unfolding pruneRows_def sort_key_filter_comm sk by simp
qed

lemma chained_Min: "chained i h xs \<Longrightarrow> xs \<noteq> [] \<Longrightarrow> Min (chain_index ` set xs) = i"
proof (rule Min_eqI)
  assume ch: "chained i h xs" and ne: "xs \<noteq> []"
  show "\<And>y. y \<in> chain_index ` set xs \<Longrightarrow> i \<le> y" using chained_index_bounds [OF ch] by auto
  show "i \<in> chain_index ` set xs" using ch ne by (cases xs) auto
qed simp

lemma anchored_append:
  "anchored i (as @ bs) \<longleftrightarrow> anchored i as \<and> anchored (if as = [] then i else to_index (last as) + 1) bs"
  by (induction as arbitrary: i) auto

lemma anchored_sorted:
  assumes "anchored i as"
  shows "sorted (map from_index as) \<and> sorted (map to_index as) \<and>
    (\<forall>a\<in>set as. i \<le> from_index a \<and> from_index a \<le> to_index a)"
  using assms
proof (induction as arbitrary: i)
  case (Cons a as)
  then show ?case using Cons.IH [of "to_index a + 1"] by fastforce
qed simp

text \<open>On a well-formed chain the first index pruned is the one after the last anchor.\<close>

lemma pruneFrom_inv:
  assumes inv: "chain_inv C K c" and ne: "pruneRows u (db c) \<noteq> []" and "\<not> b"
  shows "pruneFrom b (pruneRows u (db c)) = anchorEnd (anchors (db c)) + 1"
    and "anchorEnd (anchors (db c)) < u"
proof -
  let ?e = "anchorEnd (anchors (db c))"
  have ch: "chained (?e + 1) (headPrev (receipts (db c))) (receipts (db c))" and an: "anchored 1 (anchors (db c))"
    using inv by (simp_all add: chain_inv_def Let_def)
  have e0: "0 \<le> ?e" using anchored_sorted [OF an] by (cases "anchors (db c)" rule: rev_cases) (auto simp: anchorEnd_def)
  have "chained (?e + 1) (headPrev (receipts (db c))) (pruneRows u (db c))"
    using ch unfolding pruneRows_inv [OF inv]
    by (metis append_take_drop_id chained_append)
  with ne have m: "Min (chain_index ` set (pruneRows u (db c))) = ?e + 1" by (rule chained_Min [rotated])
  with e0 ne assms(3) show "pruneFrom b (pruneRows u (db c)) = ?e + 1" by (simp add: pruneFrom_def)
  show "?e < u" using ne pruneRows_inv [OF inv, of u] by auto
qed

lemma Prune_inv:
  assumes inv: "chain_inv C K c" and pr: "Prune C f now upTo c = (x, c')" and nd: "x \<noteq> Err PruneDeleteErr"
    and nm: "\<not> fPruneMin f"
  shows "chain_inv C K c'"
proof (cases x)
  case (Ok a)
  let ?rows = "receipts (db c)" and ?as = "anchors (db c)" and ?u = "uint upTo"
  note pr' = pr [unfolded Ok]
  show ?thesis
  proof (rule Prune_Ok [OF pr'])
    assume A: "?u < uint (lastIdx c)" "10 \<le> uint (lastIdx c) - ?u" "pruneRows ?u (db c) \<noteq> []"
      "receipts (db c') = filter (\<lambda>row. ?u < chain_index row) ?rows"
      "anchors (db c') = ?as @ [\<lparr>anchor_id = AnchorID a,
        from_index = pruneFrom (fPruneMin f) (pruneRows ?u (db c)), to_index = ?u,
        acount = ACount a, merkle_root = MerkleRoot a, merkle_tree = treeJSON (MerkleTree a), pruned_at = now\<rparr>]"
      "lastIdx c' = lastIdx c" "lastHash c' = lastHash c" "hlc c' = hlc c"
    define k where "k = nat (?u - anchorEnd ?as)"
    have ch: "chained (anchorEnd ?as + 1) (headPrev ?rows) ?rows"
      and last: "uint (lastIdx c) = anchorEnd ?as + int (length ?rows)"
      using inv by (simp_all add: chain_inv_def Let_def)
    note from_eq = pruneFrom_inv [OF inv A(3) nm]
    have kint: "int k = ?u - anchorEnd ?as" using from_eq(2) by (simp add: k_def)
    have klen: "k < length ?rows" using A(1) last kint by linarith
    have drop: "receipts (db c') = drop k ?rows"
      unfolding A(4) using chained_filter_ge(1) [OF ch, of ?u] by (simp add: k_def algebra_simps)
    have "chained (anchorEnd ?as + 1 + int k) (tipHash (headPrev ?rows) (take k ?rows)) (drop k ?rows)"
      using ch chained_append [of "anchorEnd ?as + 1" "headPrev ?rows" "take k ?rows" "drop k ?rows"] klen
      by simp
    then have "chained (?u + 1) (tipHash (headPrev ?rows) (take k ?rows)) (drop k ?rows)"
      using kint by (simp add: algebra_simps)
    moreover obtain y ys where y: "drop k ?rows = y # ys" using klen by (cases "drop k ?rows") auto
    ultimately have ch': "chained (?u + 1) (headPrev (drop k ?rows)) (drop k ?rows)"
      by (simp add: headPrev_def)
    have an': "anchored 1 (anchors (db c'))" and ae: "anchorEnd (anchors (db c')) = ?u"
      using inv from_eq unfolding A(5) by (auto simp: chain_inv_def Let_def anchored_append anchorEnd_def)
    have "distinct (map receipt_id (drop k ?rows))" "list_all (row_ok C K) (drop k ?rows)"
      using inv by (auto simp: chain_inv_def Let_def drop_map [symmetric] list_all_iff dest: in_set_dropD)
    moreover have "tipHash GenesisHash (drop k ?rows) = tipHash GenesisHash ?rows"
      using klen by (auto simp: tipHash_def)
    moreover have "uint (lastIdx c) = ?u + int (length (drop k ?rows))"
      using kint last klen by simp
    moreover have "anchors (db c') \<noteq> []" "drop k ?rows \<noteq> []" using A(5) y by simp_all
    ultimately show ?thesis
      using inv ch' an' A(6-8) unfolding chain_inv_def Let_def drop ae by simp
  qed
qed (use Prune_not_Ok [OF pr] nd inv in auto)

lemma ListAnchors_inv:
  assumes "chain_inv C K c"
  shows "ListAnchors False c = Ok (map (\<lambda>a. the (scanAnchor a)) (anchors (db c)))"
proof -
  have an: "anchored 1 (anchors (db c))" using assms by (simp add: chain_inv_def Let_def)
  from anchored_sorted [OF this]
  have "sort_key from_index (sort_key to_index (anchors (db c))) = anchors (db c)"
    by (simp add: sort_key_sorted_id)
  moreover have "\<forall>a\<in>set (anchors (db c)). scanAnchor a \<noteq> None"
    using anchored_sorted [OF an] by (force simp: scanAnchor_def)
  ultimately show ?thesis by (force simp: ListAnchors_def Let_def)
qed

section \<open>Properties\<close>

text \<open>
  C10. Pruning keeps the evidence. When \<open>Prune\<close> succeeds on a well-formed chain, the
  returned anchor proves the inclusion of every pruned receipt, and \<open>VerifyInclusion\<close> accepts
  no byte string whose SHA-256 digest is not that of a pruned receipt. When moreover the query
  for the smallest index did not fail (the code ignores that failure and writes 1 as the
  anchor's first index, so that it may be listed before former anchors), \<open>ListAnchors\<close>
  returns the former anchors followed by this one, its Merkle tree read back from the database
  without loss.
\<close>

theorem prune_anchor_proves_inclusion:
  assumes "crypto_ok C" and "chain_inv C K c" and "Prune C f now upTo c = (Ok a, c')"
  shows "(\<forall>row\<in>set (receipts (db c)). chain_index row \<le> uint upTo \<longrightarrow>
        VerifyInclusion C a (raw_receipt row) = Ok ())
    \<and> (\<forall>raw. VerifyInclusion C a raw = Ok () \<longrightarrow> (\<exists>row\<in>set (receipts (db c)).
        chain_index row \<le> uint upTo \<and> sha256 C (raw_receipt row) = sha256 C raw))
    \<and> (\<not> fPruneMin f \<longrightarrow>
        (\<exists>as. ListAnchors False c = Ok as \<and> ListAnchors False c' = Ok (as @ [a])))"
proof (intro conjI)
  let ?rows = "pruneRows (uint upTo) (db c)"
  note an = Prune_anchorOf [OF assms(3)]
  have "length ?rows \<le> length (receipts (db c))" by (simp add: pruneRows_inv [OF assms(2)])
  moreover have "int (length (receipts (db c))) < 2 ^ 63"
    using assms(2) anchored_sorted [of 1 "anchors (db c)"]
    by (cases "anchors (db c)" rule: rev_cases) (auto simp: chain_inv_def Let_def anchorEnd_def)
  ultimately have len: "length ?rows \<le> 2 ^ 64" by simp
  show "\<forall>row\<in>set (receipts (db c)). chain_index row \<le> uint upTo \<longrightarrow> VerifyInclusion C a (raw_receipt row) = Ok ()"
    using VerifyInclusion_complete [OF assms(1) an] len by (simp add: pruneRows_def)
  show "\<forall>raw. VerifyInclusion C a raw = Ok () \<longrightarrow> (\<exists>row\<in>set (receipts (db c)).
        chain_index row \<le> uint upTo \<and> sha256 C (raw_receipt row) = sha256 C raw)"
    using VerifyInclusion_sound [OF assms(1) an] by (fastforce simp: pruneRows_def)
  show "\<not> fPruneMin f \<longrightarrow> (\<exists>as. ListAnchors False c = Ok as \<and> ListAnchors False c' = Ok (as @ [a]))"
  proof
    assume nm: "\<not> fPruneMin f"
    have inv': "chain_inv C K c'" using Prune_inv [OF assms(2,3) _ nm] by simp
    show "\<exists>as. ListAnchors False c = Ok as \<and> ListAnchors False c' = Ok (as @ [a])"
      unfolding ListAnchors_inv [OF assms(2)] ListAnchors_inv [OF inv']
      by (rule Prune_Ok [OF assms(3)])
         (use pruneFrom_inv [OF assms(2) _ nm] anchored_sorted [of 1 "anchors (db c')"] inv' in
           \<open>auto simp: scanAnchor_def decodeTree_buildMerkleTree chain_inv_def Let_def\<close>)
  qed
qed

text \<open>
  Pruning never removes the last ten receipts, and a call that is refused or fails before
  the deletion changes nothing. Whatever faults occur, the tip is unchanged and every receipt
  above the bound is still stored.
\<close>

theorem prune_keeps_window:
  assumes "Prune C f now upTo c = (x, c')"
  shows "Tip c' = Tip c
    \<and> (\<forall>row\<in>set (receipts (db c)). uint (lastIdx c) - 10 < chain_index row \<longrightarrow> row \<in> set (receipts (db c')))
    \<and> (is_Ok x \<or> receipts (db c') = receipts (db c))
    \<and> (is_Ok x \<or> x = Err PruneDeleteErr \<or> c' = c)"
proof (cases x)
  case (Ok a)
  with assms have pr: "Prune C f now upTo c = (Ok a, c')" by simp
  show ?thesis by (rule Prune_Ok [OF pr]) (auto simp: Ok Tip_def)
next
  case (Err e)
  then have "receipts (db c') = receipts (db c) \<and> Tip c' = Tip c"
    using assms by (auto simp: Prune_def Let_def Tip_def split: if_splits option.splits)
  then show ?thesis using Prune_not_Ok [OF assms] Err by auto
next
  case Panic
  then show ?thesis using Prune_not_Ok [OF assms] by auto
qed

text \<open>
  For an anchor over several receipts the recorded Merkle root plays no part in the check:
  \<open>VerifyInclusion\<close> recomputes the path inside the stored tree and never compares its top
  with \<open>MerkleRoot\<close>, so replacing the root by any other non-empty string changes no answer.
\<close>

theorem inclusion_ignores_root:
  assumes "ACount a \<noteq> 1" and "MerkleRoot a \<noteq> ''''" and "root \<noteq> ''''"
  shows "VerifyInclusion C (a\<lparr>MerkleRoot := root\<rparr>) raw = VerifyInclusion C a raw"
  using assms by (simp add: VerifyInclusion_def)

section \<open>A chain of n receipts\<close>

definition exSigned :: "string \<Rightarrow> u64 \<Rightarrow> Receipt" where
  "exSigned p i = (exReceipt p i)\<lparr>ReceiptID := showNat (unat i),
     Signature := hexEncode (edSign toyCrypto exKey (SignableBytes (exReceipt p i)))\<rparr>"

fun exRows :: "nat \<Rightarrow> receipt_row list" where
  "exRows 0 = []"
| "exRows (Suc n) = exRows n @ [storedRow toyCrypto (exSigned (tipHash GenesisHash (exRows n)) (of_nat (Suc n)))]"

definition exChain :: "nat \<Rightarrow> Chain" where
  "exChain n = \<lparr>db = emptyDB\<lparr>receipts := exRows n\<rparr>, lastIdx = of_nat n,
     lastHash = tipHash GenesisHash (exRows n), hlc = zeroHLC\<rparr>"

lemma exSigned_Sign:
  "Sign toyCrypto exKey ((exReceipt p i)\<lparr>ReceiptID := showNat (unat i)\<rparr>) = Ok (exSigned p i)"
proof -
  have "SignableBytes ((exReceipt p i)\<lparr>ReceiptID := showNat (unat i), cachedHash := '''', cachedRaw := ''''\<rparr>) =
      SignableBytes (exReceipt p i)"
    by (simp add: SignableBytes_def signableFields_def)
  then show ?thesis
    by (simp add: Sign_def Let_def ed25519Sign_def exSigned_def exReceipt_def zeroReceipt_def exKey_def)
qed

lemma length_exKey: "length exKey = 64"
  by (simp add: exKey_def)

lemma exSigned_bare: "bare (exSigned p i) = exSigned p i"
  by (rule Sign_Ok(4) [OF exSigned_Sign])

lemma exSigned_utf8:
  assumes "validUtf8 p"
  shows "receipt_utf8 (exSigned p i)"
proof -
  have "validUtf8 (showNat (unat i))"
    using showNat_digits [of "unat i"] by (auto intro!: validUtf8_ascii simp: is_digit_def)
  then show ?thesis
    using assms by (intro Sign_receipt_utf8 [OF exSigned_Sign])
      (simp add: receipt_utf8_def exReceipt_def zeroReceipt_def PhasePre_def validUtf8_ascii in_i64_def)
qed

lemma exSigned_row_ok: "validUtf8 p \<Longrightarrow> row_ok toyCrypto (\<lambda>_. exKey) (storedRow toyCrypto (exSigned p i))"
  by (rule row_okI) (simp_all add: exSigned_utf8 exSigned_bare Verify_Sign [OF toyCrypto_ok exSigned_Sign] length_exKey)

lemma exSigned_fields [simp]:
  "ChainIndex (exSigned p i) = i" "PrevReceiptHash (exSigned p i) = p" "ReceiptID (exSigned p i) = showNat (unat i)"
  by (simp_all add: exSigned_def exReceipt_def)

lemma length_exRows [simp]: "length (exRows n) = n"
  by (induction n) simp_all

lemma unat_of_nat_Suc: "n < 2 ^ 63 \<Longrightarrow> unat (of_nat (Suc n) :: u64) = Suc n \<and> uint (of_nat (Suc n) :: u64) = int n + 1"
proof -
  assume n: "n < 2 ^ 63"
  then have u: "unat (of_nat (Suc n) :: u64) = Suc n"
    by (simp add: unsigned_of_nat take_bit_nat_eq_self del: of_nat_Suc)
  have "uint (of_nat (Suc n) :: u64) = int (unat (of_nat (Suc n) :: u64))" by simp
  with u show ?thesis by (simp only: u) simp
qed

lemma exRows_ok: "list_all (row_ok toyCrypto (\<lambda>_. exKey)) (exRows n)"
proof (induction n)
  case (Suc n)
  have "validUtf8 (tipHash GenesisHash (exRows n))"
    using Suc row_ok_hash_utf8 by (cases "exRows n" rule: rev_cases) (auto simp: tipHash_def)
  then show ?case using Suc exSigned_row_ok by simp
qed simp

lemma exRows_chained:
  "n < 2 ^ 63 \<Longrightarrow> chained 1 GenesisHash (exRows n) \<and> map receipt_id (exRows n) = map showNat [1..<Suc n]"
proof (induction n)
  case (Suc n)
  then show ?case using unat_of_nat_Suc [of n] by (simp add: chained_append del: of_nat_Suc)
qed simp

lemma showNat_inj: "showNat a = showNat b \<longleftrightarrow> a = b"
  by (metis readNat_showNat)

lemma exChain_inv:
  assumes "n < 2 ^ 63"
  shows "chain_inv toyCrypto (\<lambda>_. exKey) (exChain n)"
proof -
  have "distinct (map receipt_id (exRows n))"
    using exRows_chained [OF assms] by (simp add: distinct_map inj_on_def showNat_inj del: upt_Suc)
  moreover have "headPrev (exRows n) = GenesisHash"
    using exRows_chained [OF assms] by (cases "exRows n") (auto simp: headPrev_def)
  moreover have "uint (of_nat n :: u64) = int n"
    using assms by (simp add: uint_nat unat_of_nat)
  ultimately show ?thesis
    using assms exRows_chained [OF assms] exRows_ok [of n]
    by (simp add: chain_inv_def exChain_def emptyDB_def anchorEnd_def zeroHLC_def in_i64_def)
qed

lemma exPrune:
  "\<exists>a c'. Prune toyCrypto noPruneFaults 5 2 (exChain 12) = (Ok a, c')"
proof -
  have "pruneRows 2 (db (exChain 12)) = take 2 (exRows 12)"
    using pruneRows_inv [OF exChain_inv [of 12], of 2] by (simp add: exChain_def emptyDB_def anchorEnd_def)
  moreover have "take 2 (exRows 12) \<noteq> []" using length_exRows [of 12] by (metis length_0_conv take_eq_Nil zero_neq_numeral)
  moreover have "\<not> lastIdx (exChain 12) \<le> 2" "\<not> lastIdx (exChain 12) - 2 < 10"
    by (simp_all add: exChain_def)
  ultimately show ?thesis by (simp add: Prune_def noPruneFaults_def u64Arg_def Let_def)
qed

theorem prune_anchor_proves_inclusion_witness:
  "\<exists>a c'. Prune toyCrypto noPruneFaults 5 2 (exChain 12) = (Ok a, c') \<and>
     VerifyInclusion toyCrypto a (raw_receipt (hd (exRows 12))) = Ok () \<and>
     ListAnchors False c' = Ok [a]"
proof -
  obtain a c' where pr: "Prune toyCrypto noPruneFaults 5 2 (exChain 12) = (Ok a, c')"
    using exPrune by blast
  have "chained 1 GenesisHash (exRows 12)" using exRows_chained [of 12] by simp
  then obtain row rows where r: "exRows 12 = row # rows" "chain_index row = 1"
    using length_exRows [of 12] by (cases "exRows 12") (auto simp del: exRows.simps)
  have rc: "receipts (db (exChain 12)) = row # rows" unfolding exChain_def using r(1) by simp
  have nm: "\<not> fPruneMin noPruneFaults" by (simp add: noPruneFaults_def)
  from prune_anchor_proves_inclusion [OF toyCrypto_ok exChain_inv pr]
  have "VerifyInclusion toyCrypto a (raw_receipt row) = Ok ()"
    "\<exists>as. ListAnchors False (exChain 12) = Ok as \<and> ListAnchors False c' = Ok (as @ [a])"
    unfolding rc using r(2) nm by simp_all
  moreover have "ListAnchors False (exChain 12) = Ok []"
    by (simp add: ListAnchors_def exChain_def emptyDB_def)
  ultimately show ?thesis using pr unfolding r(1) by auto
qed

theorem prune_keeps_window_witness:
  "\<exists>x c'. Prune toyCrypto noPruneFaults 5 2 (exChain 12) = (x, c') \<and> Tip c' = Tip (exChain 12) \<and>
     (\<forall>row\<in>set (receipts (db (exChain 12))). 2 < chain_index row \<longrightarrow> row \<in> set (receipts (db c')))"
proof -
  obtain a c' where pr: "Prune toyCrypto noPruneFaults 5 2 (exChain 12) = (Ok a, c')"
    using exPrune by blast
  have "uint (lastIdx (exChain 12)) = 12" by (simp add: exChain_def)
  with prune_keeps_window [OF pr] pr show ?thesis by auto
qed

definition exAnchor :: Anchor where
  "exAnchor = \<lparr>AnchorID = 1, FromIndex = 1, ToIndex = 2, ACount = 2, MerkleRoot = ''aa'',
     MerkleTree = buildMerkleTree toyCrypto [''x'', ''y''], PrunedAt = 0\<rparr>"

theorem inclusion_ignores_root_witness:
  "VerifyInclusion toyCrypto (exAnchor\<lparr>MerkleRoot := ''bb''\<rparr>) ''x'' = VerifyInclusion toyCrypto exAnchor ''x''"
  by (rule inclusion_ignores_root) (simp_all add: exAnchor_def)

end
