(* ===== verification/Verify.thy ===== *)
theory Verify
  imports Prune
begin

text \<open>
  \<open>internal/chain/verify.go\<close>: the walk over the whole chain and the check of a single
  receipt. Error messages are constructors that carry what the message prints. A public key of
  the wrong size makes \<open>ed25519.Verify\<close> panic, and so the walk.
\<close>

section \<open>The checks of one row\<close>

datatype verification_error =
    NoError | ListingAnchors | VQueryErr | ScanErr int | ChainGap int
  | BrokenLink int string string | CorruptJSON int | HashMismatch int string string
  | UnknownAgent string int | SigInvalid int verify_error | RowsErr

record VerificationResult =
  Valid :: bool
  TotalChecked :: int
  FirstBrokenAt :: int
  VError :: verification_error

type_synonym pubkeys = "(string \<Rightarrow> bytes option) option"

text \<open>
  The part of the loop body after the link check: decode, recompute the hash, verify the
  signature when keys were given (\<open>None\<close> is a nil map).
\<close>

definition checkRow :: "crypto \<Rightarrow> pubkeys \<Rightarrow> receipt_row \<Rightarrow> (verification_error, unit) go" where
  "checkRow C pubkeys row =
     (case unmarshalReceipt (raw_receipt row) of
        None \<Rightarrow> Err (CorruptJSON (chain_index row))
      | Some r \<Rightarrow>
          (let computed = fst (ComputeHash C r) in
           if computed \<noteq> receipt_hash row
           then Err (HashMismatch (chain_index row) (receipt_hash row) computed)
           else case pubkeys of
             None \<Rightarrow> Ok ()
           | Some m \<Rightarrow>
               (case m (AgentID r) of
                  None \<Rightarrow> Err (UnknownAgent (AgentID r) (chain_index row))
                | Some pub \<Rightarrow>
                    (case Verify C r pub of
                       Ok _ \<Rightarrow> Ok ()
                     | Err e \<Rightarrow> Err (SigInvalid (chain_index row) e)
                     | Panic \<Rightarrow> Panic))))"

definition broken :: "int \<Rightarrow> int \<Rightarrow> verification_error \<Rightarrow> VerificationResult" where
  "broken at checked e = \<lparr>Valid = False, TotalChecked = checked, FirstBrokenAt = at, VError = e\<rparr>"

text \<open>
  What the first row's link is compared with: its own \<open>prev_hash\<close> directly after the last
  anchor, the genesis hash at index 1, nothing acceptable otherwise.
\<close>

definition seedPrev :: "u64 \<Rightarrow> receipt_row \<Rightarrow> string option" where
  "seedPrev anchorToIndex row =
     (if 0 < anchorToIndex \<and> word_of_int (chain_index row) = anchorToIndex + 1 then Some (prev_hash row)
      else if (word_of_int (chain_index row) :: u64) = 1 then Some GenesisHash
      else None)"

section \<open>The walk\<close>

text \<open>
  \<open>expectedPrev\<close> is \<open>None\<close> before the first row. A scan error leaves the index variable
  at 0, which the result then reports.
\<close>

fun verifyRows ::
  "crypto \<Rightarrow> pubkeys \<Rightarrow> (nat \<Rightarrow> bool) \<Rightarrow> bool \<Rightarrow> u64 \<Rightarrow> nat \<Rightarrow> string option \<Rightarrow> receipt_row list
     \<Rightarrow> (verification_error, VerificationResult) go" where
  "verifyRows C pubkeys scanFault rowsFault anchorToIndex checked expectedPrev [] =
     (if rowsFault then Ok (broken (-1) (int checked) RowsErr)
      else Ok \<lparr>Valid = True, TotalChecked = int checked, FirstBrokenAt = -1, VError = NoError\<rparr>)"
| "verifyRows C pubkeys scanFault rowsFault anchorToIndex checked expectedPrev (row # rows) =
     (if scanFault checked then Ok (broken 0 (int checked) (ScanErr 0))
      else (let idx = chain_index row; checked1 = Suc checked;
                expected = (case expectedPrev of Some h \<Rightarrow> Some h | None \<Rightarrow> seedPrev anchorToIndex row) in
        case expected of
          None \<Rightarrow> Ok (broken idx (int checked1) (ChainGap idx))
        | Some h \<Rightarrow>
            if prev_hash row \<noteq> h then Ok (broken idx (int checked1) (BrokenLink idx h (prev_hash row)))
            else (case checkRow C pubkeys row of
                Panic \<Rightarrow> Panic
              | Err e \<Rightarrow> Ok (broken idx (int checked1) e)
              | Ok _ \<Rightarrow> verifyRows C pubkeys scanFault rowsFault anchorToIndex checked1
                  (Some (receipt_hash row)) rows)))"

record verify_faults =
  fListAnchors :: bool
  fVerifyQuery :: bool
  fVerifyScan :: "nat \<Rightarrow> bool"
  fVerifyRows :: bool

definition noVerifyFaults :: verify_faults where
  "noVerifyFaults = \<lparr>fListAnchors = False, fVerifyQuery = False, fVerifyScan = (\<lambda>_. False), fVerifyRows = False\<rparr>"

definition VerifyChain ::
  "crypto \<Rightarrow> verify_faults \<Rightarrow> pubkeys \<Rightarrow> Chain \<Rightarrow> (verification_error, VerificationResult) go" where
  "VerifyChain C f pubkeys c =
     (case ListAnchors (fListAnchors f) c of
        Ok as \<Rightarrow>
          (let anchorToIndex = (if as = [] then 0 else ToIndex (last as)) in
           if fVerifyQuery f then Ok (broken (-1) 0 VQueryErr)
           else verifyRows C pubkeys (fVerifyScan f) (fVerifyRows f) anchorToIndex 0 None
                  (sort_key chain_index (receipts (db c))))
      | _ \<Rightarrow> Ok (broken (-1) 0 ListingAnchors))"

datatype receipt_check_error = RNotFound | RQueryErr | RCorrupt | RHashMismatch string string
  | RSigInvalid verify_error

text \<open>A single receipt: a missing key skips the signature check.\<close>

definition VerifyReceipt ::
  "crypto \<Rightarrow> bool \<Rightarrow> string \<Rightarrow> pubkeys \<Rightarrow> Chain \<Rightarrow> (receipt_check_error, unit) go" where
  "VerifyReceipt C fault receiptID pubkeys c =
     (if fault then Err RQueryErr else
      case find (\<lambda>row. receipt_id row = receiptID) (receipts (db c)) of
        None \<Rightarrow> Err RNotFound
      | Some row \<Rightarrow>
          (case unmarshalReceipt (raw_receipt row) of
             None \<Rightarrow> Err RCorrupt
           | Some r \<Rightarrow>
               (let computed = fst (ComputeHash C r) in
                if computed \<noteq> receipt_hash row then Err (RHashMismatch (receipt_hash row) computed)
                else case pubkeys of
                  None \<Rightarrow> Ok ()
                | Some m \<Rightarrow>
                    (case m (AgentID r) of
                       None \<Rightarrow> Ok ()
                     | Some pub \<Rightarrow>
                         (case Verify C r pub of
                            Ok _ \<Rightarrow> Ok () | Err e \<Rightarrow> Err (RSigInvalid e) | Panic \<Rightarrow> Panic)))))"

section \<open>What the walk accepts\<close>

text \<open>\<open>linked h rows\<close>: the \<open>prev_hash\<close> column follows the \<open>receipt_hash\<close> column.\<close>

fun linked :: "string \<Rightarrow> receipt_row list \<Rightarrow> bool" where
  "linked h [] = True"
| "linked h (x # xs) = (prev_hash x = h \<and> linked (receipt_hash x) xs)"

lemma chained_linked: "chained i h xs \<Longrightarrow> linked h xs"
  by (induction xs arbitrary: i h) auto

lemma linked_append: "linked h (xs @ ys) \<longleftrightarrow> linked h xs \<and> linked (tipHash h xs) ys"
  by (induction xs arbitrary: h) (auto simp: tipHash_def)

definition validResult :: "nat \<Rightarrow> VerificationResult" where
  "validResult n = \<lparr>Valid = True, TotalChecked = int n, FirstBrokenAt = -1, VError = NoError\<rparr>"

lemma verifyRows_linked:
  assumes "linked h rows" and "\<forall>row\<in>set rows. checkRow C pk row = Ok ()"
  shows "verifyRows C pk (\<lambda>_. False) False a n (Some h) rows = Ok (validResult (n + length rows))"
  using assms by (induction rows arbitrary: h n) (auto simp: validResult_def Let_def)

lemma verifyRows_valid_iff:
  "(\<exists>v. verifyRows C pk sf rf a n (Some h) rows = Ok v \<and> Valid v) \<longleftrightarrow>
   \<not> rf \<and> (\<forall>i < length rows. \<not> sf (n + i)) \<and> linked h rows \<and> (\<forall>row\<in>set rows. checkRow C pk row = Ok ())"
proof (induction rows arbitrary: n h)
  case (Cons row rows)
  have split: "(\<forall>i < length (row # rows). \<not> sf (n + i)) \<longleftrightarrow> \<not> sf n \<and> (\<forall>i < length rows. \<not> sf (Suc n + i))"
    by (auto simp: less_Suc_eq_0_disj)
  show ?case
    unfolding split using Cons.IH [of "Suc n" "receipt_hash row"]
    by (auto simp: Let_def broken_def split: go.splits)
qed (simp add: broken_def)

lemma verifyRows_first:
  "verifyRows C pk sf rf a n None (row # rows) =
     (if sf n then Ok (broken 0 (int n) (ScanErr 0))
      else case seedPrev a row of
        None \<Rightarrow> Ok (broken (chain_index row) (int (Suc n)) (ChainGap (chain_index row)))
      | Some h \<Rightarrow> verifyRows C pk sf rf a n (Some h) (row # rows))"
  by (simp add: Let_def split: option.splits)

lemma checkRow_Ok:
  "checkRow C pk row = Ok () \<longleftrightarrow> (\<exists>r. unmarshalReceipt (raw_receipt row) = Some r \<and>
     fst (ComputeHash C r) = receipt_hash row \<and>
     (\<forall>m. pk = Some m \<longrightarrow> (\<exists>pub. m (AgentID r) = Some pub \<and> Verify C r pub = Ok ())))"
  by (auto simp: checkRow_def Let_def split: option.splits go.splits)

lemma checkRow_row_ok:
  assumes "row_ok C K row" and "\<forall>m. pk = Some m \<longrightarrow> (\<forall>a. m a = Some (edPublic C (K a)))"
  shows "checkRow C pk row = Ok ()"
proof -
  obtain r where r: "unmarshalReceipt (raw_receipt row) = Some r" "row = storedRow C r" "bare r = r"
    "Verify C r (edPublic C (K (AgentID r))) = Ok ()"
    using assms(1) by (rule row_okE)
  have "fst (ComputeHash C r) = receipt_hash row" using ComputeHash_bare [of C r] r(2,3) by simp
  then show ?thesis using r(1,4) assms(2) by (auto simp: checkRow_Ok)
qed

lemma checkRow_prev:
  "checkRow C pk (row\<lparr>prev_hash := h\<rparr>) = Ok () \<longleftrightarrow> checkRow C pk row = Ok ()"
  by (simp add: checkRow_Ok)

text \<open>
  \<open>VerifyChain\<close> without driver faults: the last anchor decides where the walk may start.
\<close>

definition lastAnchorTo :: "Chain \<Rightarrow> u64" where
  "lastAnchorTo c = (case ListAnchors False c of Ok as \<Rightarrow> if as = [] then 0 else ToIndex (last as) | _ \<Rightarrow> 0)"

lemma VerifyChain_noFaults:
  assumes "ListAnchors False c = Ok as"
  shows "VerifyChain C noVerifyFaults pk c =
    verifyRows C pk (\<lambda>_. False) False (lastAnchorTo c) 0 None (sort_key chain_index (receipts (db c)))"
  using assms by (simp add: VerifyChain_def noVerifyFaults_def lastAnchorTo_def)

lemma lastAnchorTo_inv:
  assumes "chain_inv C K c"
  shows "lastAnchorTo c = word_of_int (anchorEnd (anchors (db c)))"
proof (cases "anchors (db c)" rule: rev_cases)
  case Nil
  then show ?thesis
    using ListAnchors_inv [OF assms] by (simp add: lastAnchorTo_def anchorEnd_def)
next
  case (snoc as a)
  have "anchored 1 (anchors (db c))" using assms by (simp add: chain_inv_def Let_def)
  from anchored_sorted [OF this] have "0 \<le> from_index a" "0 \<le> to_index a" using snoc by auto
  then show ?thesis
    using ListAnchors_inv [OF assms] snoc by (simp add: lastAnchorTo_def anchorEnd_def scanAnchor_def)
qed

lemma seedPrev_inv:
  assumes "chain_inv C K c" and "receipts (db c) = row # rows" and "chain_index x = chain_index row"
    and "prev_hash x = prev_hash row"
  shows "seedPrev (lastAnchorTo c) x = Some (prev_hash row)"
proof -
  let ?e = "anchorEnd (anchors (db c))"
  have ci: "chain_index row = ?e + 1" and e: "uint (lastIdx c) = ?e + int (length (receipts (db c)))"
    and lt: "uint (lastIdx c) < 2 ^ 63" and gen: "anchors (db c) = [] \<longrightarrow> prev_hash row = GenesisHash"
    and an: "anchored 1 (anchors (db c))"
    using assms(1,2) by (auto simp: chain_inv_def Let_def headPrev_def)
  show ?thesis
  proof (cases "anchors (db c) = []")
    case True
    then show ?thesis
      using assms ci gen lastAnchorTo_inv [OF assms(1)] by (simp add: seedPrev_def anchorEnd_def)
  next
    case False
    then have "1 \<le> ?e" using anchored_sorted [OF an]
      by (cases "anchors (db c)" rule: rev_cases) (auto simp: anchorEnd_def)
    moreover have "?e < 2 ^ 63" using e lt by linarith
    ultimately have "(0 :: u64) < word_of_int ?e"
      by (simp add: word_less_def uint_word_of_int)
    then show ?thesis
      using assms ci lastAnchorTo_inv [OF assms(1)] by (simp add: seedPrev_def)
  qed
qed

text \<open>
  The walk over any rows that start like a well-formed chain, follow each other in the
  \<open>prev_hash\<close> column and pass the row checks. Indices after the first play no part.
\<close>

lemma VerifyChain_walk:
  assumes inv: "chain_inv C K c" and rows: "receipts (db c) = row # rows"
    and "c' = c\<lparr>db := (db c)\<lparr>receipts := row # zs\<rparr>\<rparr>"
    and "sorted (map chain_index (row # zs))"
    and "linked (receipt_hash row) zs" and "\<forall>z\<in>set (row # zs). checkRow C pk z = Ok ()"
  shows "VerifyChain C noVerifyFaults pk c' = Ok (validResult (length (row # zs)))"
proof -
  obtain as where as: "ListAnchors False c = Ok as" using ListAnchors_inv [OF inv] by simp
  then have as': "ListAnchors False c' = Ok as" and la: "lastAnchorTo c' = lastAnchorTo c"
    using assms(3) by (simp_all add: ListAnchors_def lastAnchorTo_def)
  have "sort_key chain_index (receipts (db c')) = row # zs"
    using assms(3,4) by (simp add: sort_key_sorted_id del: sort_key_simps)
  then have "VerifyChain C noVerifyFaults pk c' =
      verifyRows C pk (\<lambda>_. False) False (lastAnchorTo c) 0 None (row # zs)"
    using VerifyChain_noFaults [OF as'] la by simp
  also have "\<dots> = verifyRows C pk (\<lambda>_. False) False (lastAnchorTo c) 0 (Some (prev_hash row)) (row # zs)"
    using seedPrev_inv [OF inv rows] by (simp add: verifyRows_first del: verifyRows.simps)
  also have "\<dots> = Ok (validResult (length (row # zs)))"
    using verifyRows_linked [of "prev_hash row" "row # zs" C pk] assms(5,6) by simp
  finally show ?thesis .
qed

lemma VerifyChain_inv:
  assumes inv: "chain_inv C K c" and keys: "\<forall>m. pk = Some m \<longrightarrow> (\<forall>a. m a = Some (edPublic C (K a)))"
  shows "VerifyChain C noVerifyFaults pk c = Ok (validResult (length (receipts (db c))))"
proof (cases "receipts (db c)")
  case Nil
  then show ?thesis
    using VerifyChain_noFaults [OF ListAnchors_inv [OF inv]] by (simp add: validResult_def)
next
  case (Cons row rows)
  have ch: "chained (anchorEnd (anchors (db c)) + 1) (headPrev (receipts (db c))) (receipts (db c))"
    and ok: "list_all (row_ok C K) (receipts (db c))"
    using inv by (simp_all add: chain_inv_def Let_def)
  have "sorted (map chain_index (row # rows))" using chained_sorted [OF ch] Cons by simp
  moreover have "linked (receipt_hash row) rows" using chained_linked [OF ch] Cons by simp
  moreover have "\<forall>z\<in>set (row # rows). checkRow C pk z = Ok ()"
    using ok keys Cons checkRow_row_ok by (metis list_all_iff)
  moreover have "c = c\<lparr>db := (db c)\<lparr>receipts := row # rows\<rparr>\<rparr>" using Cons by simp
  ultimately show ?thesis using VerifyChain_walk [OF inv Cons] Cons by metis
qed

section \<open>Properties\<close>

text \<open>
  C2. What a valid verdict means, exactly. Whatever the tables hold, and when the anchors can be
  read, \<open>VerifyChain\<close> without driver faults answers Valid if and only if, in ascending
  order of index, the first row starts the chain (directly after the last anchor, or index 1
  linked to the genesis hash), every row's \<open>prev_hash\<close> column is the \<open>receipt_hash\<close>
  column of the row before, every stored receipt decodes, re-hashes to its \<open>receipt_hash\<close>
  column and, when keys are given, belongs to a known agent whose key verifies its signature.
\<close>

theorem verify_chain_valid_iff:
  assumes "ListAnchors False c = Ok as"
  shows "(\<exists>v. VerifyChain C noVerifyFaults pk c = Ok v \<and> Valid v) \<longleftrightarrow>
    (case sort_key chain_index (receipts (db c)) of
       [] \<Rightarrow> True
     | row # rows \<Rightarrow>
         (\<exists>h. seedPrev (if as = [] then 0 else ToIndex (last as)) row = Some h \<and> linked h (row # rows)) \<and>
         (\<forall>x\<in>set (row # rows). \<exists>r. unmarshalReceipt (raw_receipt x) = Some r \<and>
            fst (ComputeHash C r) = receipt_hash x \<and>
            (\<forall>m. pk = Some m \<longrightarrow> (\<exists>pub. m (AgentID r) = Some pub \<and> Verify C r pub = Ok ()))))"
proof -
  have la: "lastAnchorTo c = (if as = [] then 0 else ToIndex (last as))"
    using assms by (simp add: lastAnchorTo_def)
  show ?thesis
  proof (cases "sort_key chain_index (receipts (db c))")
    case Nil
    then show ?thesis by (simp add: VerifyChain_noFaults [OF assms])
  next
    case (Cons row rows)
    show ?thesis
      unfolding VerifyChain_noFaults [OF assms] Cons la list.case verifyRows_first checkRow_Ok [symmetric]
      using verifyRows_valid_iff [of C pk "\<lambda>_. False" False _ 0 _ "row # rows"]
      by (auto simp: broken_def simp del: verifyRows.simps split: option.splits)
  qed
qed

text \<open>In a chain that verifies every row decodes to a receipt with the stored hash.\<close>

lemma valid_checks:
  assumes "VerifyChain C noVerifyFaults pk c = Ok v" "Valid v" and "row \<in> set (receipts (db c))"
  shows "\<exists>r. unmarshalReceipt (raw_receipt row) = Some r \<and> fst (ComputeHash C r) = receipt_hash row"
proof -
  obtain as where as: "ListAnchors False c = Ok as"
    using assms by (cases "ListAnchors False c") (auto simp: VerifyChain_def noVerifyFaults_def broken_def)
  have "row \<in> set (sort_key chain_index (receipts (db c)))" using assms(3) by simp
  then obtain z zs where z: "sort_key chain_index (receipts (db c)) = z # zs" "row \<in> set (z # zs)"
    by (cases "sort_key chain_index (receipts (db c))") auto
  have "\<exists>h v. verifyRows C pk (\<lambda>_. False) False (lastAnchorTo c) 0 (Some h) (z # zs) = Ok v \<and> Valid v"
    using assms(1,2) unfolding VerifyChain_noFaults [OF as] z(1) verifyRows_first
    by (auto simp: broken_def simp del: verifyRows.simps split: option.splits)
  then show ?thesis using verifyRows_valid_iff [of C pk "\<lambda>_. False" False] z(2) checkRow_Ok by blast
qed

text \<open>The walk passes over a prefix whose rows are linked and pass their checks.\<close>

lemma verifyRows_prefix:
  assumes "linked h xs" and "\<forall>x\<in>set xs. checkRow C pk x = Ok ()"
  shows "verifyRows C pk (\<lambda>_. False) rf a n (Some h) (xs @ zs) =
    verifyRows C pk (\<lambda>_. False) rf a (n + length xs) (Some (tipHash h xs)) zs"
  using assms by (induction xs arbitrary: h n) (auto simp: Let_def tipHash_def)

lemma checkRow_no_panic:
  assumes "\<forall>m g p. pk = Some m \<longrightarrow> m g = Some p \<longrightarrow> length p = 32"
  shows "checkRow C pk row \<noteq> Panic"
  using assms
  by (auto simp: checkRow_def Let_def Verify_def ed25519Verify_def split: option.splits go.splits if_splits)

text \<open>
  A row whose content has another hash than the successor's link expects: the walk stops at it, or
  at its successor.
\<close>

lemma verifyRows_tampered:
  assumes np: "checkRow C pk row' \<noteq> Panic"
    and ch: "\<forall>r. unmarshalReceipt (raw_receipt row') = Some r \<longrightarrow> fst (ComputeHash C r) \<noteq> g"
    and nx: "receipt_hash row' = g \<or> (\<exists>y zs. ys = y # zs \<and> prev_hash y = g \<and> chain_index y = chain_index row' + 1)"
  shows "\<exists>v. verifyRows C pk (\<lambda>_. False) rf a n (Some h) (row' # ys) = Ok v \<and> \<not> Valid v \<and>
    (FirstBrokenAt v = chain_index row' \<and> TotalChecked v = int n + 1 \<or>
     FirstBrokenAt v = chain_index row' + 1 \<and> TotalChecked v = int n + 2)"
proof (cases "checkRow C pk row'")
  case (Ok u)
  then have "receipt_hash row' \<noteq> g" using ch checkRow_Ok [of C pk row'] by auto
  then obtain y zs where "ys = y # zs" "prev_hash y = g" "chain_index y = chain_index row' + 1" using nx by blast
  then show ?thesis using Ok \<open>receipt_hash row' \<noteq> g\<close> by (simp add: Let_def broken_def)
qed (use np in \<open>auto simp: Let_def broken_def\<close>)

text \<open>
  C3. A changed receipt is detected and located. Take a well-formed chain and overwrite one row:
  its JSON, its hash column, its \<open>prev_hash\<close> column and any other column but the index may become
  anything, as long as the new JSON does not decode or decodes to a receipt whose recomputed
  hash is not the original one (no SHA-256 collision), and, when the row is the last one, its
  hash column is kept (the tip has no successor that would notice another hash). Then
  \<open>VerifyChain\<close>, called without keys or with the 32-byte public keys of the ring, answers
  Invalid, and reports as the first broken index that of the overwritten row or of its direct
  successor, with the number of rows up to it as the number checked.
\<close>

theorem tampering_located:
  assumes "chain_inv C K c" and "receipts (db c) = xs @ row # ys" and "chain_index row' = chain_index row"
    and "\<forall>r. unmarshalReceipt (raw_receipt row') = Some r \<longrightarrow> fst (ComputeHash C r) \<noteq> receipt_hash row"
    and "ys \<noteq> [] \<or> receipt_hash row' = receipt_hash row"
    and "pk = None \<or> pk = Some (\<lambda>g. Some (edPublic C (K g))) \<and> (\<forall>g. length (edPublic C (K g)) = 32)"
    and "c' = c\<lparr>db := (db c)\<lparr>receipts := xs @ row' # ys\<rparr>\<rparr>"
  shows "\<exists>v. VerifyChain C noVerifyFaults pk c' = Ok v \<and> \<not> Valid v \<and>
    (FirstBrokenAt v = chain_index row \<and> TotalChecked v = int (length xs) + 1 \<or>
     FirstBrokenAt v = chain_index row + 1 \<and> TotalChecked v = int (length xs) + 2)"
proof -
  let ?e = "anchorEnd (anchors (db c)) + 1" and ?h = "headPrev (receipts (db c))"
  let ?w = "verifyRows C pk (\<lambda>_. False) False (lastAnchorTo c)"
  have ch: "chained ?e ?h (xs @ row # ys)" and ok: "list_all (row_ok C K) (xs @ row # ys)"
    using assms(1,2) by (simp_all add: chain_inv_def Let_def)
  have as: "ListAnchors False c = ListAnchors False c'" "lastAnchorTo c' = lastAnchorTo c"
    using assms(7) by (simp_all add: ListAnchors_def lastAnchorTo_def)
  have "sorted (map chain_index (xs @ row' # ys))" using chained_sorted [OF ch] assms(3) by simp
  then have sk: "sort_key chain_index (receipts (db c')) = xs @ row' # ys"
    using assms(7) by (simp add: sort_key_sorted_id)
  have V: "VerifyChain C noVerifyFaults pk c' = ?w 0 None (xs @ row' # ys)"
    using VerifyChain_noFaults [of c'] ListAnchors_inv [OF assms(1)] as unfolding sk by simp
  have np: "checkRow C pk row' \<noteq> Panic" using assms(6) by (intro checkRow_no_panic) auto
  have nx: "receipt_hash row' = receipt_hash row \<or>
      (\<exists>y zs. ys = y # zs \<and> prev_hash y = receipt_hash row \<and> chain_index y = chain_index row' + 1)"
    using assms(3,5) ch by (cases ys) (auto simp: chained_append)
  note t = verifyRows_tampered [OF np assms(4) nx, unfolded assms(3)]
  show ?thesis
  proof (cases xs)
    case Nil
    have "?w 0 None (row' # ys) = Ok (broken (chain_index row) 1 (ChainGap (chain_index row)))
        \<or> (\<exists>h. ?w 0 None (row' # ys) = ?w 0 (Some h) (row' # ys))"
      by (auto simp: verifyRows_first assms(3) simp del: verifyRows.simps split: option.split)
    then show ?thesis unfolding V Nil using t [of False "lastAnchorTo c" 0]
      by (auto simp: broken_def simp del: verifyRows.simps)
  next
    case (Cons x zs)
    have "seedPrev (lastAnchorTo c) x = Some (prev_hash x)"
      using seedPrev_inv [OF assms(1)] assms(2) Cons by simp
    then have "?w 0 None (xs @ row' # ys) = ?w 0 (Some (prev_hash x)) (xs @ row' # ys)"
      unfolding Cons append_Cons by (simp add: verifyRows_first del: verifyRows.simps)
    also have "\<dots> = ?w (length xs) (Some (tipHash (prev_hash x) xs)) (row' # ys)"
    proof -
      have "linked (prev_hash x) xs" using chained_linked [OF ch] Cons by (simp add: linked_append)
      moreover have "\<forall>z\<in>set xs. checkRow C pk z = Ok ()"
        using ok assms(6) by (auto simp: list_all_iff intro!: checkRow_row_ok [of C K])
      ultimately show ?thesis using verifyRows_prefix [of "prev_hash x" xs C pk False _ 0] by simp
    qed
    finally show ?thesis unfolding V using t [of False "lastAnchorTo c" "length xs"] by simp
  qed
qed

fun relink :: "string \<Rightarrow> receipt_row list \<Rightarrow> receipt_row list" where
  "relink h [] = []"
| "relink h (y # ys) = y\<lparr>prev_hash := h\<rparr> # ys"

lemma relink_map_index: "map chain_index (relink h ys) = map chain_index ys"
  by (cases ys) auto

lemma relink_linked: "linked g ys \<Longrightarrow> linked h (relink h ys)"
  by (cases ys) auto

lemma relink_check: "\<forall>y\<in>set ys. checkRow C pk y = Ok () \<Longrightarrow> \<forall>y\<in>set (relink h ys). checkRow C pk y = Ok ()"
  by (cases ys) (auto simp: checkRow_prev)

text \<open>
  C11. Removing a receipt is not detected. From a well-formed chain, any receipt but the first
  can be deleted: rewriting the \<open>prev_hash\<close> column of its successor to the deleted row's
  makes \<open>VerifyChain\<close> answer Valid, with every signature checked, because the walk compares
  only columns and never looks at the index or the previous hash inside the signed receipts.
\<close>

theorem deletion_undetected:
  assumes "chain_inv C K c" and "receipts (db c) = xs @ x # ys" and "xs \<noteq> []"
    and "c' = c\<lparr>db := (db c)\<lparr>receipts := xs @ relink (prev_hash x) ys\<rparr>\<rparr>"
  shows "VerifyChain C noVerifyFaults (Some (\<lambda>a. Some (edPublic C (K a)))) c' =
    Ok (validResult (length (receipts (db c)) - 1))"
proof -
  let ?pk = "Some (\<lambda>a. Some (edPublic C (K a)))"
  obtain z zs where z: "xs = z # zs" using assms(3) by (cases xs) auto
  let ?new = "zs @ relink (prev_hash x) ys"
  have ch: "chained (anchorEnd (anchors (db c)) + 1) (headPrev (receipts (db c))) (receipts (db c))"
    and ok: "list_all (row_ok C K) (receipts (db c))"
    using assms(1) by (simp_all add: chain_inv_def Let_def)
  have so: "sorted (map chain_index (xs @ x # ys))" using chained_sorted [OF ch] assms(2) by simp
  have li: "linked (headPrev (xs @ x # ys)) (xs @ x # ys)" using chained_linked [OF ch] assms(2) by simp
  have c': "c' = c\<lparr>db := (db c)\<lparr>receipts := z # ?new\<rparr>\<rparr>" using assms(4) z by simp
  have so': "sorted (map chain_index (z # ?new))"
    using so unfolding z by (simp only: list.map map_append relink_map_index) (auto simp: sorted_append)
  have li': "linked (receipt_hash z) ?new"
    using li z relink_linked [of "receipt_hash x" ys "prev_hash x"] by (auto simp: linked_append)
  have all: "\<forall>w\<in>set (receipts (db c)). checkRow C ?pk w = Ok ()"
    using ok checkRow_row_ok [of C K _ ?pk] by (simp add: list_all_iff)
  have ck: "\<forall>w\<in>set (z # ?new). checkRow C ?pk w = Ok ()"
    using all relink_check [of ys C ?pk "prev_hash x"] assms(2) z by auto
  have first: "receipts (db c) = z # (zs @ x # ys)" using assms(2) z by simp
  have len: "length (z # ?new) = length (receipts (db c)) - 1"
    using assms(2) z by (cases ys) auto
  show ?thesis using VerifyChain_walk [OF assms(1) first c' so' li' ck] unfolding len .
qed

section \<open>Concrete instances\<close>

lemma exRows_split: "\<exists>x y z ys. exRows (n + 3) = x # y # z # ys"
  using length_exRows [of "n + 3"] by (auto simp: length_Suc_conv eval_nat_numeral simp del: exRows.simps length_exRows)

theorem verify_chain_valid_iff_witness:
  "ListAnchors False (exChain 3) = Ok [] \<and>
   (\<exists>v. VerifyChain toyCrypto noVerifyFaults None (exChain 3) = Ok v \<and> Valid v) \<and>
   (\<exists>row rows. exRows 3 = row # rows \<and> seedPrev 0 row = Some GenesisHash \<and> linked GenesisHash (row # rows))"
proof -
  have la: "ListAnchors False (exChain 3) = Ok []"
    by (simp add: ListAnchors_def exChain_def emptyDB_def)
  have v: "\<exists>v. VerifyChain toyCrypto noVerifyFaults None (exChain 3) = Ok v \<and> Valid v"
    using VerifyChain_inv [OF exChain_inv [of 3], of None] by (simp add: validResult_def)
  obtain row rows where r: "exRows 3 = row # rows" using exRows_split [of 0] by auto
  have ch: "chained 1 GenesisHash (exRows 3)" using exRows_chained [of 3] by simp
  have sk: "sort_key chain_index (receipts (db (exChain 3))) = row # rows"
    using sort_key_sorted_id [OF chained_sorted [OF ch]] r by (simp add: exChain_def del: exRows.simps)
  have i: "seedPrev 0 row = Some GenesisHash" using ch r by (simp add: seedPrev_def)
  have "linked GenesisHash (row # rows)"
    using v i unfolding verify_chain_valid_iff [OF la] sk by (auto simp del: linked.simps)
  with la v r i show ?thesis by blast
qed

text \<open>
  A two-receipt chain and a forged version of its first receipt. The digest used here tells the
  forged text from all others, and nothing more.
\<close>

definition exForged :: Receipt where
  "exForged = (exSigned GenesisHash 1)\<lparr>PayloadHash := ''cd''\<rparr>"

definition exMark :: crypto where
  "exMark = toyCrypto\<lparr>sha256 := (\<lambda>m. replicate 32 (if m = marshalReceipt exForged then CHR 0x01 else CHR 0x00))\<rparr>"

definition exPair :: "receipt_row list" where
  "exPair = (let r = storedRow exMark (exSigned GenesisHash 1) in
     [r, storedRow exMark (exSigned (receipt_hash r) 2)])"

definition exPairChain :: Chain where
  "exPairChain = \<lparr>db = emptyDB\<lparr>receipts := exPair\<rparr>, lastIdx = 2, lastHash = tipHash GenesisHash exPair, hlc = zeroHLC\<rparr>"

lemma exMark_row_ok: "validUtf8 p \<Longrightarrow> row_ok exMark (\<lambda>_. exKey) (storedRow exMark (exSigned p i))"
proof (rule row_okI)
  have "Verify exMark r pub = Verify toyCrypto r pub" "edPublic exMark = edPublic toyCrypto" for r pub
    by (simp_all add: exMark_def Verify_def ed25519Verify_def split: option.split)
  then show "Verify exMark (exSigned p i) (edPublic exMark exKey) = Ok ()"
    using Verify_Sign [OF toyCrypto_ok exSigned_Sign] by simp
qed (simp_all add: exSigned_utf8 exSigned_bare length_exKey)

lemma exPairChain_inv: "chain_inv exMark (\<lambda>_. exKey) exPairChain"
  by (simp add: chain_inv_def exPairChain_def exPair_def Let_def emptyDB_def anchorEnd_def zeroHLC_def in_i64_def
      exMark_row_ok headPrev_def tipHash_def showNat_inj)

lemma exForged_hash:
  "unmarshalReceipt (marshalReceipt exForged) = Some exForged"
  "fst (ComputeHash exMark exForged) \<noteq> hashHex exMark (marshalReceipt (exSigned GenesisHash 1))"
proof -
  have u: "receipt_utf8 exForged"
    using exSigned_utf8 [of GenesisHash 1] by (simp add: exForged_def receipt_utf8_def validUtf8_ascii)
  have b: "bare exForged = exForged"
    by (simp add: bare_def exForged_def exSigned_def exReceipt_def zeroReceipt_def)
  show d: "unmarshalReceipt (marshalReceipt exForged) = Some exForged" using unmarshal_marshal [OF u] b by simp
  have "unmarshalReceipt (marshalReceipt (exSigned GenesisHash 1)) = Some (exSigned GenesisHash 1)"
    using unmarshal_marshal [OF exSigned_utf8] exSigned_bare by simp
  moreover have "exForged \<noteq> exSigned GenesisHash 1" by (simp add: exForged_def exSigned_def exReceipt_def zeroReceipt_def)
  ultimately have "marshalReceipt (exSigned GenesisHash 1) \<noteq> marshalReceipt exForged" using d by auto
  then show "fst (ComputeHash exMark exForged) \<noteq> hashHex exMark (marshalReceipt (exSigned GenesisHash 1))"
    using ComputeHash_bare [of exMark exForged] b by (simp add: hashHex_def exMark_def hexEncode_inj replicate_eq_replicate)
qed

theorem tampering_located_witness:
  "\<exists>x y v. receipts (db exPairChain) = [x, y] \<and> unmarshalReceipt (marshalReceipt exForged) = Some exForged \<and>
     VerifyChain exMark noVerifyFaults (Some (\<lambda>g. Some (edPublic exMark exKey)))
       (exPairChain\<lparr>db := (db exPairChain)\<lparr>receipts :=
          [x\<lparr>raw_receipt := marshalReceipt exForged, receipt_hash := hashHex exMark (marshalReceipt exForged)\<rparr>, y]\<rparr>\<rparr>)
     = Ok v \<and> \<not> Valid v \<and> (FirstBrokenAt v = 1 \<or> FirstBrokenAt v = 2)"
proof -
  define x where "x = storedRow exMark (exSigned GenesisHash 1)"
  define y where "y = storedRow exMark (exSigned (receipt_hash x) 2)"
  let ?x = "x\<lparr>raw_receipt := marshalReceipt exForged, receipt_hash := hashHex exMark (marshalReceipt exForged)\<rparr>"
  have r: "receipts (db exPairChain) = [] @ x # [y]"
    by (simp add: exPairChain_def exPair_def x_def y_def Let_def)
  have "\<exists>v. VerifyChain exMark noVerifyFaults (Some (\<lambda>g. Some (edPublic exMark exKey)))
       (exPairChain\<lparr>db := (db exPairChain)\<lparr>receipts := [] @ ?x # [y]\<rparr>\<rparr>) = Ok v \<and> \<not> Valid v \<and>
    (FirstBrokenAt v = chain_index x \<and> TotalChecked v = int (length ([] :: receipt_row list)) + 1 \<or>
     FirstBrokenAt v = chain_index x + 1 \<and> TotalChecked v = int (length ([] :: receipt_row list)) + 2)"
    by (rule tampering_located [OF exPairChain_inv r])
       (use exForged_hash in \<open>simp_all add: x_def exMark_def toyCrypto_def toyPublic_def exKey_def\<close>)
  moreover have "chain_index x = 1" by (simp add: x_def)
  ultimately show ?thesis using r exForged_hash(1) by auto
qed

theorem deletion_undetected_witness:
  "\<exists>x y z ys c'. exRows 3 = x # y # z # ys \<and>
     c' = (exChain 3)\<lparr>db := (db (exChain 3))\<lparr>receipts := [x] @ relink (prev_hash y) (z # ys)\<rparr>\<rparr> \<and>
     VerifyChain toyCrypto noVerifyFaults (Some (\<lambda>a. Some (edPublic toyCrypto exKey))) c' = Ok (validResult 2)"
proof -
  obtain x y z ys where r: "exRows 3 = x # y # z # ys" using exRows_split [of 0] by auto
  have rc: "receipts (db (exChain 3)) = [x] @ y # (z # ys)" "length (receipts (db (exChain 3))) = 3"
    using r length_exRows [of 3] by (simp_all add: exChain_def del: exRows.simps length_exRows)
  show ?thesis using deletion_undetected [OF exChain_inv rc(1) _ refl] r rc(2) by fastforce
qed

end
