(* ===== verification/ChainSystem.thy ===== *)
theory ChainSystem
  imports Verify
begin

text \<open>
  The chain as a machine: every operation of \<open>internal/chain\<close> that changes state is an
  event, \<open>chainStep\<close> runs it, and the chain invariant is carried through any sequence of
  events by the interface \<open>inv_system\<close>.
\<close>

datatype chain_event =
    EAppend "string \<Rightarrow> u64 \<Rightarrow> string + Receipt" bytes i64 bool
  | EPrune prune_faults i64 u64
  | EReopen "open_step \<Rightarrow> bool"
  | ESaveCompensation bool CompensationRecord
  | EMarkExecuted bool i64

text \<open>Reopening: a failed \<open>Open\<close> leaves the database as it is for the next attempt.\<close>

fun chainStep :: "crypto \<Rightarrow> Chain \<Rightarrow> chain_event \<Rightarrow> Chain" where
  "chainStep C c (EAppend buildFn priv wall fault) = snd (AppendNew C buildFn priv wall fault c)"
| "chainStep C c (EPrune f now upTo) = snd (Prune C f now upTo c)"
| "chainStep C c (EReopen fails) = (case Open fails (db c) of Ok c' \<Rightarrow> c' | _ \<Rightarrow> c)"
| "chainStep C c (ESaveCompensation fault rc) = snd (SaveCompensation fault rc c)"
| "chainStep C c (EMarkExecuted fault cid) = snd (MarkCompensationExecuted fault cid c)"

text \<open>
  The events the invariant survives. Appends come from builders that produce valid text, signed
  with the agent's key; pruning may fail anywhere but in reading the minimum index and in the
  deletion, opening anywhere but in reading the tip.
\<close>

fun eventAllowed :: "(string \<Rightarrow> bytes) \<Rightarrow> chain_event \<Rightarrow> bool" where
  "eventAllowed K (EAppend buildFn priv wall fault) = append_allowed K buildFn priv wall"
| "eventAllowed K (EPrune f now upTo) = (\<not> fPruneMin f \<and> \<not> fPruneDelete f)"
| "eventAllowed K (EReopen fails) = (\<not> fails ReadTip)"
| "eventAllowed K (ESaveCompensation fault rc) = True"
| "eventAllowed K (EMarkExecuted fault cid) = True"

lemma Prune_no_delete_fault: "Prune C f now upTo c = (x, c') \<Longrightarrow> \<not> fPruneDelete f \<Longrightarrow> x \<noteq> Err PruneDeleteErr"
  by (auto simp: Prune_def Let_def split: if_splits option.splits)

lemma Open_step_inv:
  assumes "chain_inv C K c" "\<not> fails ReadTip"
  shows "Open fails (db c) = Ok (c\<lparr>hlc := zeroHLC\<rparr>) \<or> (\<exists>s. Open fails (db c) = Err s)"
proof (cases "find fails openSteps")
  case None
  then have "\<forall>s\<in>set openSteps. \<not> fails s" by (auto simp: find_None_iff)
  then have "\<not> fails s" for s
    using assms(2) by (cases s) (auto simp: openSteps_def)
  then show ?thesis using Open_reopen [OF assms(1)] by simp
qed (simp add: Open_def)

lemma chain_inv_hlc: "chain_inv C K c \<Longrightarrow> chain_inv C K (c\<lparr>hlc := zeroHLC\<rparr>)"
  by (simp add: chain_inv_def zeroHLC_def in_i64_def Let_def)

lemma chain_inv_compensations:
  "chain_inv C K c \<Longrightarrow> receipts d = receipts (db c) \<Longrightarrow> anchors d = anchors (db c) \<Longrightarrow>
   chain_inv C K (c\<lparr>db := d\<rparr>)"
  by (simp add: chain_inv_def)

lemma chainStep_inv:
  assumes ok: "crypto_ok C" and inv: "chain_inv C K c" and al: "eventAllowed K e"
  shows "chain_inv C K (chainStep C c e)"
proof (cases e)
  case (EAppend buildFn priv wall fault)
  then show ?thesis using AppendNew_inv [OF ok inv] al by simp
next
  case (EPrune f now upTo)
  obtain x c' where p: "Prune C f now upTo c = (x, c')" by (cases "Prune C f now upTo c")
  then show ?thesis using Prune_inv [OF inv p Prune_no_delete_fault [OF p]] al EPrune by simp
next
  case (EReopen fails)
  then show ?thesis using Open_step_inv [OF inv, of fails] al inv chain_inv_hlc [OF inv] by auto
next
  case (ESaveCompensation fault rc)
  then show ?thesis
    using inv by (auto simp: SaveCompensation_def Let_def intro: chain_inv_compensations split: option.splits)
next
  case (EMarkExecuted fault cid)
  then show ?thesis
    using inv by (auto simp: MarkCompensationExecuted_def intro: chain_inv_compensations)
qed

interpretation chainSys: inv_system "chainStep C" "eventAllowed K" "\<lambda>c. crypto_ok C \<and> chain_inv C K c"
  for C :: crypto and K :: "string \<Rightarrow> bytes"
  by unfold_locales (simp add: chainStep_inv)

section \<open>Properties\<close>

text \<open>
  C1. The chains the program builds verify. Take a fresh database and any sequence of appends
  (successful or not), prunes, reopenings and compensation updates that satisfies
  \<open>eventAllowed\<close>: every receipt a builder hands to an append is valid UTF-8 in all its texts and
  is signed with the key the ring \<open>K\<close> holds for its agent, the wall clock fits an \<open>int64\<close>, a
  prune's query for the smallest index and its DELETE do not fail, and an \<open>Open\<close> that reads the
  tip reads it without error (every other fault may occur). Then \<open>VerifyChain\<close> answers Valid and
  counts every stored receipt, both without keys and with the public keys of the agents, so that
  every signature is checked. The conditions are needed: an append whose text was cut inside a
  rune leaves a chain that does not verify, and so does a prune whose DELETE fails after an
  earlier prune (\<open>failed_prune_breaks_verification\<close>).
\<close>

theorem reachable_chain_verifies:
  assumes "crypto_ok C" and "Open (\<lambda>_. False) emptyDB = Ok c0" and "list_all (eventAllowed K) es"
    and "c = run (chainStep C) c0 es"
  shows "VerifyChain C noVerifyFaults None c = Ok (validResult (length (receipts (db c))))
    \<and> VerifyChain C noVerifyFaults (Some (\<lambda>a. Some (edPublic C (K a)))) c =
        Ok (validResult (length (receipts (db c))))"
proof -
  have "crypto_ok C \<and> chain_inv C K c0" using assms(1) Open_fresh_inv [OF assms(2)] by simp
  then have "chain_inv C K c" using chainSys.run_inv [OF _ assms(3)] assms(4) by simp
  then show ?thesis by (simp add: VerifyChain_inv)
qed

lemma chainStep_appends:
  assumes "\<forall>f now upTo. e \<noteq> EPrune f now upTo"
  shows "\<exists>zs. receipts (db (chainStep C c e)) = receipts (db c) @ zs"
proof (cases e)
  case (EAppend buildFn priv wall fault)
  obtain x c' where ap: "AppendNew C buildFn priv wall fault c = (x, c')"
    by (cases "AppendNew C buildFn priv wall fault c")
  show ?thesis
  proof (cases x)
    case (Ok r)
    have "\<exists>zs. receipts (db c') = receipts (db c) @ zs"
      by (rule AppendNew_Ok [OF ap [unfolded Ok]]) simp
    then show ?thesis by (simp add: EAppend ap)
  qed (use AppendNew_not_Ok [OF ap] EAppend ap in auto)
next
  case (EReopen fails)
  then show ?thesis by (auto simp: Open_def Let_def split: option.splits)
qed (use assms in \<open>auto simp: SaveCompensation_def MarkCompensationExecuted_def Let_def split: option.splits\<close>)

text \<open>
  C14. The receipts table is append-only. Whatever the events do and whatever fails, as long as
  none of them is a prune, every earlier receipt stays where it is and unchanged, and new ones
  are added at the end.
\<close>

theorem receipts_append_only:
  assumes "\<forall>e\<in>set es. \<forall>f now upTo. e \<noteq> EPrune f now upTo"
  shows "\<exists>zs. receipts (db (run (chainStep C) c es)) = receipts (db c) @ zs"
  using assms
proof (induction es arbitrary: c)
  case (Cons e es)
  then obtain zs where z: "receipts (db (chainStep C c e)) = receipts (db c) @ zs"
    using chainStep_appends [of e C c] by auto
  obtain ws where "receipts (db (run (chainStep C) (chainStep C c e) es)) = receipts (db (chainStep C c e)) @ ws"
    using Cons.IH [of "chainStep C c e"] Cons.prems by auto
  then show ?case using z by simp
qed simp

lemma Prune_delete_fault:
  assumes "Prune C f now upTo c = (Err PruneDeleteErr, c')"
  obtains a where "receipts (db c') = receipts (db c)" "anchors (db c') = anchors (db c) @ [a]"
    "to_index a = uint upTo" "from_index a = pruneFrom (fPruneMin f) (pruneRows (uint upTo) (db c))"
    "pruneRows (uint upTo) (db c) \<noteq> []" "uint upTo < 2 ^ 63"
  using assms by (auto simp: Prune_def Let_def u64Arg_def split: if_splits option.splits)

text \<open>
  An interrupted second prune makes a good chain unverifiable. When the deletion of a
  prune fails on a well-formed chain that was pruned before, the anchor stays although the
  receipts were not removed, and \<open>VerifyChain\<close> then reports a gap at the first stored index.
\<close>

theorem failed_prune_breaks_verification:
  assumes "chain_inv C K c" and "anchors (db c) \<noteq> []" and "\<not> fPruneMin f"
    and "Prune C f now upTo c = (Err PruneDeleteErr, c')"
  shows "VerifyChain C noVerifyFaults pk c' =
    Ok (broken (anchorEnd (anchors (db c)) + 1) 1 (ChainGap (anchorEnd (anchors (db c)) + 1)))"
proof -
  let ?e = "anchorEnd (anchors (db c))" and ?u = "uint upTo"
  obtain a where a: "receipts (db c') = receipts (db c)" "anchors (db c') = anchors (db c) @ [a]"
    "to_index a = ?u" "from_index a = pruneFrom (fPruneMin f) (pruneRows ?u (db c))"
    "pruneRows ?u (db c) \<noteq> []" "?u < 2 ^ 63"
    by (rule Prune_delete_fault [OF assms(4)])
  have an: "anchored 1 (anchors (db c))" and ch: "chained (?e + 1) (headPrev (receipts (db c))) (receipts (db c))"
    using assms(1) by (simp_all add: chain_inv_def Let_def)
  have fr: "from_index a = ?e + 1" and lt: "?e < ?u"
    using pruneFrom_inv [OF assms(1) a(5) assms(3)] a(4) by simp_all
  have an': "anchored 1 (anchors (db c'))"
    using an assms(2) fr lt a by (auto simp: anchored_append anchorEnd_def)
  have e1: "1 \<le> ?e" using anchored_sorted [OF an] assms(2)
    by (cases "anchors (db c)" rule: rev_cases) (auto simp: anchorEnd_def)
  have "sort_key from_index (sort_key to_index (anchors (db c'))) = anchors (db c')"
    using anchored_sorted [OF an'] by (simp add: sort_key_sorted_id)
  moreover have "\<forall>b\<in>set (anchors (db c')). scanAnchor b \<noteq> None"
    using anchored_sorted [OF an'] by (force simp: scanAnchor_def)
  ultimately have la: "ListAnchors False c' = Ok (map (\<lambda>b. the (scanAnchor b)) (anchors (db c')))"
    by (force simp: ListAnchors_def Let_def)
  then have to: "lastAnchorTo c' = word_of_int ?u"
    using a(2,3) fr e1 lt by (simp add: lastAnchorTo_def scanAnchor_def)
  obtain row rows where r: "receipts (db c) = row # rows" "chain_index row = ?e + 1"
    using a(5) ch by (cases "receipts (db c)") (auto simp: pruneRows_def)
  have sk: "sort_key chain_index (receipts (db c')) = row # rows"
    using sort_key_sorted_id [OF chained_sorted [OF ch]] a(1) r(1) by simp
  have "(word_of_int (?e + 1) :: u64) \<noteq> word_of_int (?u + 1)" "(word_of_int (?e + 1) :: u64) \<noteq> word_of_int 1"
    using e1 lt a(6) by (simp_all only: word_of_int_eq_iff take_bit_eq_mod) simp_all
  then have "seedPrev (lastAnchorTo c') row = None"
    using r(2) to by (simp add: seedPrev_def)
  then show ?thesis
    unfolding VerifyChain_noFaults [OF la] sk verifyRows_first using r(2) by simp
qed

section \<open>Concrete instances\<close>

theorem reachable_chain_verifies_witness:
  "VerifyChain toyCrypto noVerifyFaults None
     (run (chainStep toyCrypto) exEmpty [EAppend exBuild exKey 1000 False, EReopen (\<lambda>_. False)]) =
   Ok (validResult (length (receipts (db
     (run (chainStep toyCrypto) exEmpty [EAppend exBuild exKey 1000 False, EReopen (\<lambda>_. False)])))))"
proof -
  have o: "Open (\<lambda>_. False) emptyDB = Ok exEmpty"
    by (simp add: Open_def openSteps_def selectTip_def emptyDB_def exEmpty_def)
  have al: "list_all (eventAllowed (\<lambda>_. exKey)) [EAppend exBuild exKey 1000 False, EReopen (\<lambda>_. False)]"
    by (simp add: exBuild_allowed)
  show ?thesis using reachable_chain_verifies [OF toyCrypto_ok o al refl] by blast
qed

theorem receipts_append_only_witness:
  "\<exists>zs. receipts (db (run (chainStep toyCrypto) (exChain 3) [EAppend exBuild exKey 1000 False])) =
     exRows 3 @ zs"
  using receipts_append_only [of "[EAppend exBuild exKey 1000 False]" toyCrypto "exChain 3"]
  by (simp add: exChain_def del: exRows.simps)

theorem failed_prune_breaks_verification_witness:
  "\<exists>a c1 c2. Prune toyCrypto noPruneFaults 5 2 (exChain 24) = (Ok a, c1) \<and>
     Prune toyCrypto (noPruneFaults\<lparr>fPruneDelete := True\<rparr>) 6 4 c1 = (Err PruneDeleteErr, c2) \<and>
     VerifyChain toyCrypto noVerifyFaults None c2 = Ok (broken 3 1 (ChainGap 3))"
proof -
  let ?c = "exChain 24"
  have inv: "chain_inv toyCrypto (\<lambda>_. exKey) ?c" by (rule exChain_inv) simp
  have nr: "pruneRows 2 (db ?c) \<noteq> []"
    using pruneRows_inv [OF inv, of 2] length_exRows [of 24]
    by (auto simp: exChain_def emptyDB_def anchorEnd_def simp del: exRows.simps length_exRows)
  have nm: "\<not> fPruneMin noPruneFaults" "\<not> fPruneMin (noPruneFaults\<lparr>fPruneDelete := True\<rparr>)"
    by (simp_all add: noPruneFaults_def)
  have "lastIdx ?c = 24" by (simp add: exChain_def)
  then obtain a c1 where p: "Prune toyCrypto noPruneFaults 5 2 ?c = (Ok a, c1)"
    using nr by (simp add: Prune_def noPruneFaults_def u64Arg_def Let_def)
  have inv1: "chain_inv toyCrypto (\<lambda>_. exKey) c1" using Prune_inv [OF inv p _ nm(1)] by simp
  have l: "lastIdx c1 = 24" and ae: "anchors (db c1) \<noteq> [] \<and> anchorEnd (anchors (db c1)) = 2"
    by (rule Prune_Ok [OF p]; simp add: anchorEnd_def \<open>lastIdx ?c = 24\<close>)+
  have "length (receipts (db c1)) = 22"
    using inv1 l ae by (simp add: chain_inv_def Let_def)
  then have "pruneRows 4 (db c1) \<noteq> []"
    using pruneRows_inv [OF inv1, of 4] ae by auto
  then obtain c2 where d: "Prune toyCrypto (noPruneFaults\<lparr>fPruneDelete := True\<rparr>) 6 4 c1 = (Err PruneDeleteErr, c2)"
    using l by (simp add: Prune_def noPruneFaults_def u64Arg_def Let_def)
  show ?thesis
    using failed_prune_breaks_verification [OF inv1 _ nm(2) d, of None] ae p d by auto
qed

end
