(* ===== verification/Providers.thy ===== *)
theory Providers
  imports Broker GoText
begin

text \<open>
  The credential providers of \<open>internal/broker\<close>: \<open>dev.go\<close>, \<open>env.go\<close> and the
  providers for AWS, Google Cloud, Azure, OAuth2 and Vault. The remote services and client
  libraries are functions in the environment of a call; what the code sends to them, and what it
  makes of the answer, is modelled.
\<close>

section \<open>The outside\<close>

record http_req =
  hrURL :: string
  hrAuth :: string
  hrContentType :: string
  hrBody :: bytes

record sts_request =
  stRole :: string
  stSession :: string
  stDuration :: int
  stPolicy :: bytes

record sts_credentials =
  scAccessKey :: string
  scSecretKey :: string
  scToken :: string
  scExpiration :: string

record vault_secret =
  vsData :: "json option"
  vsLeaseID :: string
  vsRenewable :: bool
  vsRequestID :: string

text \<open>
  Random draws in the order of the calls, the clock, environment variables, HTTP (an error or
  status and body), STS (an error or a reply with or without credentials), the Vault client (an
  error, no secret or a secret), the Google token source, the AWS and Vault configuration. The text of a JSON decoding error
  is left out of the messages that end with it.
\<close>

record prov_env =
  peRand :: "bytes option"
  peRand2 :: "bytes option"
  peNow :: int
  peGetenv :: "string \<Rightarrow> string"
  peURLErr :: "string \<Rightarrow> string option"
  peHTTP :: "http_req \<Rightarrow> string + int \<times> bytes"
  peSTS :: "sts_request \<Rightarrow> string + sts_credentials option"
  peVault :: "string \<Rightarrow> string \<Rightarrow> string + vault_secret option"
  peGoogleJSON :: "string \<Rightarrow> string option"
  peGoogleDefault :: "string option"
  peToken :: "string + string"
  peConfigErr :: "string option"

definition emDash :: string where
  "emDash = map char_of [226, 128, 148 :: nat]"

definition newCredential :: "crypto \<Rightarrow> bytes option \<Rightarrow> prov_env \<Rightarrow> ProvisionRequest \<Rightarrow> string \<Rightarrow> string \<Rightarrow> string
    \<Rightarrow> (string \<times> string) list \<Rightarrow> Credential" where
  "newCredential C rnd E req provider type secret meta = \<lparr>cdID = generateRequestID C rnd (wrap64 (peNow E)),
     cdAgentID = prAgentID req, cdProvider = provider, cdType = type, cdSecret = secret, cdMetadata = meta,
     cdScope = prScope req, cdIssuedAt = peNow E,
     cdExpiresAt = peNow E + wrap64 (prTTLSeconds req * 10 ^ 9), cdRevoked = False,
     cdRequestID = prRequestID req, cdPreReceiptID = prPreReceiptID req, cdProvisionLogID = ''''\<rparr>"

section \<open>Development and environment\<close>

definition DevProvider :: "crypto \<Rightarrow> prov_env CredProvider" where
  "DevProvider C = \<lparr>cpName = ''dev'',
     ProvisionCredential = (\<lambda>E req. Inr (newCredential C (peRand E) E req ''dev'' ''dev'' ''dev-secret''
        [(''access_key'', ''dev-access-key'')])),
     RevokeCredential = (\<lambda>E i. Some ''dev provider: revocation not implemented''),
     ValidateScope = (\<lambda>s. None)\<rparr>"

definition EnvProvider :: "crypto \<Rightarrow> prov_env CredProvider" where
  "EnvProvider C = \<lparr>cpName = ''env'',
     ProvisionCredential = (\<lambda>E req. let ak = peGetenv E ''AWS_ACCESS_KEY_ID''; sk = peGetenv E ''AWS_SECRET_ACCESS_KEY'';
         st = peGetenv E ''AWS_SESSION_TOKEN'' in
       if ak = '''' then Inl ''env provider: AWS_ACCESS_KEY_ID not set''
       else Inr (newCredential C (peRand E) E req ''env'' ''access-key'' sk [(''access_key'', ak), (''session_token'', st)])),
     RevokeCredential = (\<lambda>E i. Some (''env provider: revocation not implemented '' @ emDash @ '' environment variables cannot be revoked'')),
     ValidateScope = (\<lambda>s. None)\<rparr>"

section \<open>AWS\<close>

fun firstBad :: "string list \<Rightarrow> string list \<Rightarrow> string option" where
  "firstBad ok [] = None"
| "firstBad ok (p # ps) = (if p \<in> set ok then firstBad ok ps else Some p)"

definition awsValidateScope :: "Scope \<Rightarrow> string option" where
  "awsValidateScope s = (let r = scResource s in
     if r = '''' then Some ''aws resource cannot be empty''
     else if \<not> hasPrefix r ''s3://'' \<and> \<not> hasPrefix r ''arn:aws:'' \<and> \<not> hasPrefix r ''arn:aws-cn:'' \<and> \<not> hasPrefix r ''arn:aws-us-gov:''
       then Some (''invalid AWS resource format: '' @ r)
     else map_option (\<lambda>p. ''invalid AWS permission: '' @ p)
       (firstBad [''read'', ''write'', ''delete'', ''list'', ''put'', ''get'', ''update'', ''*''] (scPermissions s)))"

definition resolveRoleARN :: "string \<Rightarrow> string \<Rightarrow> string + string" where
  "resolveRoleARN account r = (if hasPrefix r ''arn:'' then Inr r
     else if hasPrefix r ''s3://'' then Inr (''arn:aws:iam::'' @ account @ '':role/ans-s3-access'')
     else Inl (''unsupported AWS resource format: '' @ r))"

definition actionMap :: "string \<rightharpoonup> string" where
  "actionMap = map_of [(''read'', ''s3:GetObject''), (''write'', ''s3:PutObject''), (''delete'', ''s3:DeleteObject''),
     (''list'', ''s3:ListBucket''), (''get'', ''s3:GetObject''), (''put'', ''s3:PutObject'')]"

definition mapPermissionsToActions :: "string list \<Rightarrow> string list" where
  "mapPermissionsToActions perms = (if perms = [] \<or> ''*'' \<in> set perms then [''*'']
     else map (\<lambda>p. case actionMap p of Some a \<Rightarrow> a | None \<Rightarrow> p) perms)"

definition normalizeResource :: "string \<Rightarrow> string" where
  "normalizeResource r = (if hasPrefix r ''arn:'' then r
     else if hasPrefix r ''s3://'' then ''arn:aws:s3:::'' @ drop 5 r else r)"

text \<open>The marshalled policy document; the keys of a map are sorted.\<close>

definition buildPolicy :: "Scope \<Rightarrow> json" where
  "buildPolicy s = JObj [(''Statement'', JArr [JObj [(''Action'', strsJson (mapPermissionsToActions (scPermissions s))),
     (''Effect'', JStr ''Allow''), (''Resource'', JStr (normalizeResource (scResource s)))]]), (''Version'', JStr ''2012-10-17'')]"

text \<open>
  \<open>sanitizeSessionName\<close>: \<open>strings.Map\<close> over the runes; after \<open>coerceUtf8\<close> each
  rune has one byte that does not continue another.
\<close>

definition sessionChar :: "char \<Rightarrow> bool" where
  "sessionChar c \<longleftrightarrow> (let b = byte c in (97 \<le> b \<and> b \<le> 122) \<or> (65 \<le> b \<and> b \<le> 90) \<or> (48 \<le> b \<and> b \<le> 57) \<or> b = 45 \<or> b = 95)"

definition sanitizeSessionName :: "string \<Rightarrow> string" where
  "sanitizeSessionName name = take 32 (map (\<lambda>c. if sessionChar c then c else CHR ''-'')
     (filter (\<lambda>c. \<not> (128 \<le> byte c \<and> byte c < 192)) (coerceUtf8 name)))"

text \<open>
  The provider's own state: whether it has an STS client and whether \<open>initOnce\<close> has run.
  The pointers inside the STS credentials are required members of the reply.
\<close>

record AWSProvider =
  awsAccount :: string
  awsRegion :: string
  awsClient :: bool
  awsInitDone :: bool

definition awsDuration :: "i64 \<Rightarrow> int" where
  "awsDuration ttl = (let d = (ttl + 2 ^ 31) mod 2 ^ 32 - 2 ^ 31 in if d < 900 then 900 else d)"

definition awsSession :: "crypto \<Rightarrow> prov_env \<Rightarrow> ProvisionRequest \<Rightarrow> string" where
  "awsSession C E req = ''ans-'' @ sanitizeSessionName (prAgentID req) @ ''-'' @ take 8 (generateRequestID C (peRand E) (wrap64 (peNow E)))"

definition awsIssue :: "crypto \<Rightarrow> AWSProvider \<Rightarrow> prov_env \<Rightarrow> ProvisionRequest \<Rightarrow> string + Credential" where
  "awsIssue C P E req = (case resolveRoleARN (awsAccount P) (scResource (prScope req)) of
     Inl e \<Rightarrow> Inl (''aws: '' @ e)
   | Inr role \<Rightarrow> let session = awsSession C E req in
     (case peSTS E \<lparr>stRole = role, stSession = session, stDuration = awsDuration (prTTLSeconds req),
          stPolicy = jsonEnc (buildPolicy (prScope req))\<rparr> of
        Inl e \<Rightarrow> Inl (''aws: STS AssumeRole failed: '' @ e)
      | Inr None \<Rightarrow> Inl ''aws: STS returned empty credentials''
      | Inr (Some k) \<Rightarrow> Inr (newCredential C (peRand2 E) E req ''aws-iam'' ''aws-sts'' (scSecretKey k)
           [(''role_arn'', role), (''session_name'', session), (''access_key'', scAccessKey k),
            (''session_token'', scToken k), (''region'', awsRegion P), (''expiration'', scExpiration k)])))"

definition awsProvision :: "crypto \<Rightarrow> prov_env \<Rightarrow> ProvisionRequest \<Rightarrow> AWSProvider \<Rightarrow> (string, Credential) go \<times> AWSProvider" where
  "awsProvision C E req P = (let
       initErr = (if awsInitDone P \<or> awsClient P then None else peConfigErr E);
       P1 = P\<lparr>awsClient := (awsClient P \<or> \<not> awsInitDone P \<and> initErr = None), awsInitDone := True\<rparr>
     in case initErr of Some e \<Rightarrow> (Err (''aws: failed to load AWS config: '' @ e), P1)
      | None \<Rightarrow> (case resolveRoleARN (awsAccount P) (scResource (prScope req)) of
          Inl e \<Rightarrow> (Err (''aws: '' @ e), P1)
        | Inr _ \<Rightarrow> if \<not> awsClient P1 then (Panic, P1)
            else (case awsIssue C P1 E req of Inl e \<Rightarrow> (Err e, P1) | Inr c \<Rightarrow> (Ok c, P1))))"

text \<open>The provider as the broker sees it once it has its client.\<close>

definition awsProvider :: "crypto \<Rightarrow> AWSProvider \<Rightarrow> prov_env CredProvider" where
  "awsProvider C P = \<lparr>cpName = ''aws-iam'', ProvisionCredential = awsIssue C P,
     RevokeCredential = (\<lambda>E i. Some (''aws provider: STS credentials cannot be explicitly revoked '' @ emDash @ '' use short TTLs'')),
     ValidateScope = awsValidateScope\<rparr>"

section \<open>HTTP token endpoints\<close>

definition unreserved :: "char \<Rightarrow> bool" where
  "unreserved c \<longleftrightarrow> sessionChar c \<or> c = CHR ''.'' \<or> c = CHR ''~''"

definition upperHex :: "nat \<Rightarrow> char" where
  "upperHex d = char_of (if d < 10 then 48 + d else 55 + d)"

definition queryEscape :: "string \<Rightarrow> string" where
  "queryEscape s = concat (map (\<lambda>c. if unreserved c then [c] else if c = CHR '' '' then ''+''
     else [CHR ''%'', upperHex (byte c div 16), upperHex (byte c mod 16)]) s)"

text \<open>\<open>url.Values.Encode\<close> of the form both token endpoints get: sorted by key.\<close>

definition tokenForm :: "string \<Rightarrow> string \<Rightarrow> string \<Rightarrow> bytes" where
  "tokenForm clientID secret scope = ''client_id='' @ queryEscape clientID @ ''&client_secret='' @ queryEscape secret @
     ''&grant_type=client_credentials&scope='' @ queryEscape scope"

definition statusErr :: "string \<Rightarrow> int \<Rightarrow> bytes \<Rightarrow> string" where
  "statusErr what code body = what @ '' returned status '' @ showInt code @ '': '' @ body"

record AzureProvider =
  azTenant :: string
  azClientID :: string
  azClientSecret :: string
  azTokenURL :: string

definition hasSuffix :: "string \<Rightarrow> string \<Rightarrow> bool" where
  "hasSuffix s p \<longleftrightarrow> length p \<le> length s \<and> drop (length s - length p) s = p"

definition resolveScope :: "string \<Rightarrow> string" where
  "resolveScope r = (if r = '''' then ''''
     else if hasSuffix r ''/.default'' then r
     else if hasPrefix r ''https://'' \<or> hasPrefix r ''api://'' then
       (if last r = CHR ''/'' then r @ ''.default'' else r @ ''/.default'')
     else r @ ''/.default'')"

definition azureTokenSchema :: schema where
  "azureTokenSchema = [(''access_token'', KStr), (''expires_in'', KInt), (''token_type'', KStr)]"

definition azureIssue :: "crypto \<Rightarrow> AzureProvider \<Rightarrow> prov_env \<Rightarrow> ProvisionRequest \<Rightarrow> string + Credential" where
  "azureIssue C P E req = (if azTenant P = '''' then Inl ''azure: tenantID is required''
     else if azClientID P = '''' then Inl ''azure: clientID is required''
     else if azClientSecret P = '''' then Inl ''azure: clientSecret is required''
     else let u = (if azTokenURL P = '''' then ''https://login.microsoftonline.com/'' @ azTenant P @ ''/oauth2/v2.0/token'' else azTokenURL P) in
     (case peURLErr E u of Some e \<Rightarrow> Inl (''azure: failed to create token request: '' @ e) | None \<Rightarrow>
     (case peHTTP E \<lparr>hrURL = u, hrAuth = '''', hrContentType = ''application/x-www-form-urlencoded'',
          hrBody = tokenForm (azClientID P) (azClientSecret P) (resolveScope (scResource (prScope req)))\<rparr> of
        Inl e \<Rightarrow> Inl (''azure: token endpoint request failed: '' @ e)
      | Inr (code, body) \<Rightarrow>
        if code \<noteq> 200 then Inl (statusErr ''azure: token endpoint'' code body) else
        (case decodeStruct azureTokenSchema body of None \<Rightarrow> Inl ''azure: failed to parse token response'' | Some m \<Rightarrow>
        if strF m ''access_token'' = '''' then Inl ''azure: token endpoint returned empty access token''
        else Inr (newCredential C (peRand E) E req ''azure-ad'' ''oauth2-access-token'' (strF m ''access_token'')
          [(''tenant_id'', azTenant P), (''client_id'', azClientID P), (''resource'', scResource (prScope req)),
           (''token_type'', strF m ''token_type'')])))))"

definition azureValidateScope :: "Scope \<Rightarrow> string option" where
  "azureValidateScope s = (let r = scResource s in
     if r = '''' then Some ''azure resource path cannot be empty''
     else if \<not> hasPrefix r ''https://'' \<and> \<not> hasPrefix r ''api://'' then Some (''invalid Azure resource format: '' @ r)
     else map_option (\<lambda>p. ''invalid Azure permission: '' @ p)
       (firstBad [''read'', ''write'', ''delete'', ''list'', ''get'', ''post'', ''put'', ''patch'', ''*''] (scPermissions s)))"

definition azureProvider :: "crypto \<Rightarrow> AzureProvider \<Rightarrow> prov_env CredProvider" where
  "azureProvider C P = \<lparr>cpName = ''azure-ad'', ProvisionCredential = azureIssue C P,
     RevokeCredential = (\<lambda>E i. Some (''azure provider: revocation not implemented '' @ emDash @ '' use short TTLs'')),
     ValidateScope = azureValidateScope\<rparr>"

record OAuth2Provider =
  oaTokenURL :: string
  oaClientID :: string
  oaSecret :: string
  oaScopes :: "string list"

definition oauthTokenSchema :: schema where
  "oauthTokenSchema = [(''access_token'', KStr), (''expires_in'', KInt), (''token_type'', KStr), (''scope'', KStr)]"

definition oauthIssue :: "crypto \<Rightarrow> OAuth2Provider \<Rightarrow> prov_env \<Rightarrow> ProvisionRequest \<Rightarrow> string + Credential" where
  "oauthIssue C P E req = (if oaTokenURL P = '''' then Inl ''oauth2: token URL is required''
     else if oaClientID P = '''' then Inl ''oauth2: client ID is required''
     else if oaSecret P = '''' then Inl ''oauth2: client secret is required''
     else let joined = joinWith '' '' (oaScopes P);
              scope = (if joined = '''' then scResource (prScope req) else joined) in
     (case peURLErr E (oaTokenURL P) of Some e \<Rightarrow> Inl (''oauth2: failed to create token request: '' @ e) | None \<Rightarrow>
     (case peHTTP E \<lparr>hrURL = oaTokenURL P, hrAuth = '''', hrContentType = ''application/x-www-form-urlencoded'',
          hrBody = tokenForm (oaClientID P) (oaSecret P) scope\<rparr> of
        Inl e \<Rightarrow> Inl (''oauth2: token request failed: '' @ e)
      | Inr (code, body) \<Rightarrow>
        if code \<noteq> 200 then Inl (statusErr ''oauth2: token endpoint'' code body) else
        (case decodeStruct oauthTokenSchema body of None \<Rightarrow> Inl ''oauth2: failed to parse token response'' | Some m \<Rightarrow>
        if strF m ''access_token'' = '''' then Inl ''oauth2: token endpoint returned empty access token''
        else Inr (newCredential C (peRand E) E req ''oauth2'' ''bearer-token'' (strF m ''access_token'')
          [(''token_url'', oaTokenURL P), (''token_type'', strF m ''token_type''), (''scope'', strF m ''scope'')])))))"

definition oauthProvider :: "crypto \<Rightarrow> OAuth2Provider \<Rightarrow> prov_env CredProvider" where
  "oauthProvider C P = \<lparr>cpName = ''oauth2'', ProvisionCredential = oauthIssue C P,
     RevokeCredential = (\<lambda>E i. Some (''oauth2 provider: revocation not implemented '' @ emDash @ '' use short TTLs'')),
     ValidateScope = (\<lambda>s. if scResource s = '''' then Some ''oauth2 resource path cannot be empty'' else None)\<rparr>"

section \<open>Google Cloud\<close>

definition resolveServiceAccount :: "string \<Rightarrow> string \<Rightarrow> string" where
  "resolveServiceAccount project r = (
     if hasPrefix r ''gs://'' then ''ans-storage-sa@'' @ (if project = '''' then ''PROJECT_ID'' else project) @ ''.iam.gserviceaccount.com''
     else if hasPrefix r ''projects/'' \<and> 2 \<le> length (splitOn (CHR ''/'') r)
       then ''ans-compute-sa@'' @ (splitOn (CHR ''/'') r ! 1) @ ''.iam.gserviceaccount.com''
     else ''ans-default-sa@'' @ (if project = '''' then ''PROJECT_ID'' else project) @ ''.iam.gserviceaccount.com'')"

definition gcpBody :: "i64 \<Rightarrow> bytes" where
  "gcpBody ttl = jsonEnc (JObj [(''lifetime'', JStr (if 3600 < ttl then ''3600s'' else showInt ttl @ ''s'')),
     (''scope'', strsJson [''https://www.googleapis.com/auth/cloud-platform''])])"

definition gcpTokenSchema :: schema where
  "gcpTokenSchema = [(''accessToken'', KStr), (''expireTime'', KStr)]"

text \<open>
  The options of \<open>NewGCPProvider\<close>: whether a token source was given, the credentials, the project.
  Google's credential lookups are arguments (\<open>peGoogleJSON\<close> on the text it is given, \<open>peGoogleDefault\<close>),
  of which only the error matters here.
\<close>

record GCPProvider =
  gcpTokenSource :: bool
  gcpCredentialsFile :: string
  gcpProjectID :: string

definition getTokenSource :: "GCPProvider \<Rightarrow> prov_env \<Rightarrow> string option" where
  "getTokenSource P E = (if gcpTokenSource P then None
     else if gcpCredentialsFile P \<noteq> '''' then map_option (\<lambda>e. ''failed to parse credentials file: '' @ e) (peGoogleJSON E (gcpCredentialsFile P))
     else map_option (\<lambda>e. ''gcp: no credentials found (set GOOGLE_APPLICATION_CREDENTIALS or provide credentials file): '' @ e) (peGoogleDefault E))"

definition gcpIssue :: "crypto \<Rightarrow> GCPProvider \<Rightarrow> prov_env \<Rightarrow> ProvisionRequest \<Rightarrow> string + Credential" where
  "gcpIssue C P E req = (let project = gcpProjectID P in case getTokenSource P E of Some e \<Rightarrow> Inl (''gcp: failed to get token source: '' @ e) | None \<Rightarrow>
     (case peToken E of Inl e \<Rightarrow> Inl (''gcp: failed to get access token for IAM API call: '' @ e) | Inr tok \<Rightarrow>
     let sa = resolveServiceAccount project (scResource (prScope req));
         u = ''https://iamcredentials.googleapis.com/v1/projects/-/serviceAccounts/'' @ sa @ '':generateAccessToken'' in
     (case peURLErr E u of Some e \<Rightarrow> Inl (''gcp: failed to create request: '' @ e) | None \<Rightarrow>
     (case peHTTP E \<lparr>hrURL = u, hrAuth = ''Bearer '' @ tok, hrContentType = ''application/json'', hrBody = gcpBody (prTTLSeconds req)\<rparr> of
        Inl e \<Rightarrow> Inl (''gcp: IAM API call failed: '' @ e)
      | Inr (code, body) \<Rightarrow>
        if code \<noteq> 200 then Inl (statusErr ''gcp: IAM API'' code body) else
        (case decodeStruct gcpTokenSchema body of None \<Rightarrow> Inl ''gcp: failed to parse IAM API response'' | Some m \<Rightarrow>
         Inr (newCredential C (peRand E) E req ''gcp-iam'' ''oauth2-access-token'' (strF m ''accessToken'')
          [(''project_id'', project), (''service_account'', sa), (''resource'', scResource (prScope req)),
           (''expire_time'', strF m ''expireTime'')]))))))"

definition gcpValidateScope :: "Scope \<Rightarrow> string option" where
  "gcpValidateScope s = (let r = scResource s in
     if r = '''' then Some ''gcp resource path cannot be empty''
     else if \<not> hasPrefix r ''gs://'' \<and> \<not> hasPrefix r ''projects/'' \<and> \<not> hasPrefix r ''//'' then Some (''invalid GCP resource format: '' @ r)
     else map_option (\<lambda>p. ''invalid GCP permission: '' @ p)
       (firstBad [''read'', ''write'', ''delete'', ''list'', ''get'', ''update'', ''create'', ''*''] (scPermissions s)))"

definition gcpProvider :: "crypto \<Rightarrow> GCPProvider \<Rightarrow> prov_env CredProvider" where
  "gcpProvider C P = \<lparr>cpName = ''gcp-iam'', ProvisionCredential = gcpIssue C P,
     RevokeCredential = (\<lambda>E i. Some (''gcp provider: revocation not implemented '' @ emDash @ '' use short TTLs'')),
     ValidateScope = gcpValidateScope\<rparr>"

section \<open>Vault\<close>

record VaultProvider =
  vaAddress :: string
  vaToken :: string

definition trimPrefix :: "string \<Rightarrow> string \<Rightarrow> string" where
  "trimPrefix s p = (if hasPrefix s p then drop (length p) s else s)"

definition vaultPath :: "string \<Rightarrow> string" where
  "vaultPath r = (let v1 = trimPrefix r ''vault://''; v2 = (if v1 = r then trimPrefix v1 ''vault:'' else v1)
     in ''/v1/'' @ trimPrefix v2 ''/'')"

definition vaultIssue :: "crypto \<Rightarrow> VaultProvider \<Rightarrow> prov_env \<Rightarrow> ProvisionRequest \<Rightarrow> string + Credential" where
  "vaultIssue C P E req = (if vaAddress P = '''' then Inl ''vault: address is required''
     else if vaToken P = '''' then Inl ''vault: token is required''
     else (case peConfigErr E of Some e \<Rightarrow> Inl (''vault: failed to create client: '' @ e) | None \<Rightarrow>
     let path = vaultPath (scResource (prScope req)) in
     (case peVault E path (showInt (prTTLSeconds req) @ ''s'') of
        Inl e \<Rightarrow> Inl (''vault: failed to write dynamic secret at '' @ path @ '': '' @ e)
      | Inr None \<Rightarrow> Inl (''vault: returned nil secret for path '' @ path)
      | Inr (Some v) \<Rightarrow> (case vsData v of None \<Rightarrow> Inl (''vault: returned nil secret for path '' @ path) | Some d \<Rightarrow>
          Inr (newCredential C (peRand E) E req ''vault'' ''vault-dynamic-secret'' (jsonEnc d)
            ([(''vault_path'', path), (''lease_id'', vsLeaseID v)] @
             (if vsRenewable v then [(''renewable'', ''true'')] else []) @ [(''request_id'', vsRequestID v)]))))))"

definition vaultValidateScope :: "Scope \<Rightarrow> string option" where
  "vaultValidateScope s = (let r = scResource s in
     if r = '''' then Some ''vault resource path cannot be empty''
     else if \<not> hasPrefix r ''vault://'' \<and> \<not> hasPrefix r ''vault:''
       then Some (''invalid vault resource format: '' @ r @ '' (expected vault://path)'')
     else map_option (\<lambda>p. ''invalid vault permission: '' @ p)
       (firstBad [''read'', ''write'', ''delete'', ''list'', ''create'', ''update'', ''*''] (scPermissions s)))"

definition vaultProvider :: "crypto \<Rightarrow> VaultProvider \<Rightarrow> prov_env CredProvider" where
  "vaultProvider C P = \<lparr>cpName = ''vault'', ProvisionCredential = vaultIssue C P,
     RevokeCredential = (\<lambda>E i. None), ValidateScope = vaultValidateScope\<rparr>"

section \<open>Every provider keeps the contract\<close>

lemma newCredential_issued:
  "0 < prTTLSeconds req \<Longrightarrow> prTTLSeconds req \<le> 60 \<Longrightarrow> issuedFor provider req (newCredential C rnd E req provider type secret meta)"
  by (simp add: newCredential_def issuedFor_def wrap64_id in_i64_def)

lemmas issue_splits = option.splits sum.splits if_splits prod.splits

interpretation devProv: credential_provider "DevProvider C" for C
  by unfold_locales (auto simp: DevProvider_def newCredential_issued)

interpretation envProv: credential_provider "EnvProvider C" for C
  by unfold_locales (auto simp: EnvProvider_def Let_def newCredential_issued split: if_splits)

interpretation awsProv: credential_provider "awsProvider C P" for C P
  by unfold_locales (auto simp: awsProvider_def awsIssue_def Let_def newCredential_issued split: issue_splits)

interpretation azureProv: credential_provider "azureProvider C P" for C P
  by unfold_locales (auto simp: azureProvider_def azureIssue_def Let_def newCredential_issued split: issue_splits)

interpretation oauthProv: credential_provider "oauthProvider C P" for C P
  by unfold_locales (auto simp: oauthProvider_def oauthIssue_def Let_def newCredential_issued split: issue_splits)

interpretation gcpProv: credential_provider "gcpProvider C P" for C P
  by unfold_locales (auto simp: gcpProvider_def gcpIssue_def Let_def newCredential_issued split: issue_splits)

interpretation vaultProv: credential_provider "vaultProvider C P" for C P
  by unfold_locales (auto simp: vaultProvider_def vaultIssue_def Let_def newCredential_issued split: issue_splits)

text \<open>The providers of the package, and brokers that register no others.\<close>

definition packageProviders :: "prov_env CredProvider set" where
  "packageProviders = range DevProvider \<union> range EnvProvider \<union> {awsProvider C P |C P. True} \<union>
     {azureProvider C P |C P. True} \<union> {oauthProvider C P |C P. True} \<union> {gcpProvider C P |C P. True} \<union>
     {vaultProvider C P |C P. True}"

lemma packageProviders_cases:
  assumes "p \<in> packageProviders"
  shows "honest p \<and> (cpName p = ''vault'' \<or> (\<exists>m. \<forall>E i. RevokeCredential p E i = Some m))"
  using assms unfolding packageProviders_def
  by (auto simp: devProv.honest_provider envProv.honest_provider awsProv.honest_provider azureProv.honest_provider
      oauthProv.honest_provider gcpProv.honest_provider vaultProv.honest_provider)
    (simp_all add: DevProvider_def EnvProvider_def awsProvider_def azureProvider_def oauthProvider_def
      gcpProvider_def vaultProvider_def)

fun registersPackage :: "prov_env broker_event \<Rightarrow> bool" where
  "registersPackage (BRegister p) = (p \<in> packageProviders)"
| "registersPackage _ = True"

definition package_inv :: "prov_env Broker \<Rightarrow> bool" where
  "package_inv b \<longleftrightarrow> broker_inv b \<and> (\<forall>n p. brProviders b n = Some p \<longrightarrow> p \<in> packageProviders)"

lemma registersPackage_honest: "registersPackage e \<Longrightarrow> registersHonest e"
  using packageProviders_cases by (cases e) auto

lemma Revoke_providers [simp]: "brProviders (snd (Revoke E i b)) = brProviders b"
  by (simp add: Revoke_def split: option.splits)

lemma Provision_providers [simp]: "brProviders (snd (snd (Provision C V E n r b))) = brProviders b"
  by (simp add: Provision_def Let_def scheduleRevocation_def split: option.splits sum.splits)

lemma brokerStep_providers:
  "brProviders (brokerStep b e) n = Some p \<Longrightarrow> registersPackage e \<Longrightarrow> brProviders b n = Some p \<or> p \<in> packageProviders"
  by (cases e) (auto simp: RegisterProvider_def timerFires_def CloseBroker_def split: option.splits if_splits)

interpretation packageSys: inv_system brokerStep registersPackage package_inv
proof
  fix b e
  assume "package_inv b" "registersPackage e"
  then show "package_inv (brokerStep b e)"
    using brokerStep_inv [OF _ registersPackage_honest] brokerStep_providers
    unfolding package_inv_def by blast
qed

lemma package_inv_new: "package_inv NewBroker"
  by (simp add: package_inv_def broker_inv_new) (simp add: NewBroker_def)

lemma hasPrefix_append: "hasPrefix s (p @ q) \<Longrightarrow> hasPrefix s p"
  by (metis append_eq_conv_conj append_take_drop_id append_assoc hasPrefix_def)

lemma awsValidateScope_role:
  assumes "awsValidateScope s = None"
  shows "\<exists>role. resolveRoleARN account (scResource s) = Inr role"
proof -
  let ?r = "scResource s"
  have "hasPrefix ?r ''s3://'' \<or> hasPrefix ?r ''arn:aws:'' \<or> hasPrefix ?r ''arn:aws-cn:'' \<or> hasPrefix ?r ''arn:aws-us-gov:''"
    using assms by (auto simp: awsValidateScope_def Let_def split: if_splits)
  then have "hasPrefix ?r ''s3://'' \<or> hasPrefix ?r ''arn:''"
    using hasPrefix_append [of ?r "''arn:''" "''aws:''"] hasPrefix_append [of ?r "''arn:''" "''aws-cn:''"]
      hasPrefix_append [of ?r "''arn:''" "''aws-us-gov:''"] by auto
  then show ?thesis by (auto simp: resolveRoleARN_def)
qed

text \<open>A concrete request, environment and broker for the examples.\<close>

definition exProvEnv :: prov_env where
  "exProvEnv = \<lparr>peRand = None, peRand2 = None, peNow = 5, peGetenv = (\<lambda>v. ''key''), peURLErr = (\<lambda>u. None),
     peHTTP = (\<lambda>q. Inl ''offline''), peSTS = (\<lambda>q. Inr (Some \<lparr>scAccessKey = ''ak'', scSecretKey = ''sk'', scToken = ''st'',
     scExpiration = ''later''\<rparr>)), peVault = (\<lambda>a b. Inr None), peGoogleJSON = (\<lambda>s. None), peGoogleDefault = None, peToken = Inl ''none'',
     peConfigErr = Some ''no config''\<rparr>"

definition exProvisionReq :: ProvisionRequest where
  "exProvisionReq = \<lparr>prAgentID = ''ans_a'', prActionType = ''read'', prScope = \<lparr>scResource = ''s3://b'',
     scPermissions = [''read''], scConstraints = []\<rparr>, prTTLSeconds = 30, prRequestID = ''r'', prPreReceiptID = '''',
     prParentAgentID = '''', prTimestamp = 0\<rparr>"

definition exBrokerEnv :: broker_env where
  "exBrokerEnv = \<lparr>bvRand = None, bvRandNow = 0, bvNow = 0, bvSched = 6\<rparr>"

definition exBrokerEvents :: "prov_env broker_event list" where
  "exBrokerEvents = [BRegister (EnvProvider toyCrypto), BProvision toyCrypto exBrokerEnv exProvEnv ''env'' exProvisionReq]"

definition exCredential :: Credential where
  "exCredential = newCredential toyCrypto None exProvEnv exProvisionReq ''env'' ''access-key'' ''key''
     [(''access_key'', ''key''), (''session_token'', ''key'')]"

lemma exCredential_simps [simp]:
  "cdIssuedAt exCredential = 5" "cdExpiresAt exCredential = 30000000005" "cdRevoked exCredential = False"
  "cdProvider exCredential = ''env''"
  by (simp_all add: exCredential_def newCredential_def exProvEnv_def exProvisionReq_def wrap64_def)

lemma exBroker_eq: "run brokerStep NewBroker exBrokerEvents =
    \<lparr>brProviders = [''env'' \<mapsto> EnvProvider toyCrypto], brCreds = [(cdID exCredential, exCredential)],
      brTimers = [(cdID exCredential, 30000000005)], brDone = False\<rparr>"
proof -
  have "ProvisionCredential (EnvProvider toyCrypto) exProvEnv (exProvisionReq\<lparr>prTimestamp := 0\<rparr>) = Inr exCredential"
    by (simp add: EnvProvider_def Let_def exProvEnv_def exCredential_def newCredential_def exProvisionReq_def)
  moreover have "cpName (EnvProvider toyCrypto) = ''env''" "ValidateScope (EnvProvider toyCrypto) s = None" for s
    by (simp_all add: EnvProvider_def)
  moreover have "prTTLSeconds exProvisionReq = 30" "prRequestID exProvisionReq = ''r''" "bvNow exBrokerEnv = 0" "bvSched exBrokerEnv = 6"
    by (simp_all add: exProvisionReq_def exBrokerEnv_def)
  ultimately show ?thesis
    by (simp add: exBrokerEvents_def RegisterProvider_def NewBroker_def Provision_def scheduleRevocation_def)
qed

lemma exBroker_package: "list_all registersPackage exBrokerEvents"
  by (simp add: exBrokerEvents_def packageProviders_def)

section \<open>Properties\<close>

text \<open>
  No credential stays active for more than a minute. After any sequence of registrations
  of the package's providers, requests (with any TTL and whatever the services answer),
  revocations, timers and a close, a credential that the broker lists as active at some moment
  was issued less than 60 seconds before, is not revoked, and is the one stored under its
  identifier.
\<close>

theorem active_credentials_short_lived:
  assumes "list_all registersPackage es" and "c \<in> set (ListActive now (run brokerStep NewBroker es))"
  shows "now < cdIssuedAt c + 60 * 10 ^ 9 \<and> \<not> cdRevoked c \<and>
    BrokerGet (cdID c) (run brokerStep NewBroker es) = Some c"
proof -
  have "broker_inv (run brokerStep NewBroker es)"
    using packageSys.run_inv [OF package_inv_new assms(1)] by (simp add: package_inv_def)
  then show ?thesis using assms(2)
    by (fastforce simp: ListActive_def listActive_def broker_inv_def shortLived_def BrokerGet_def)
qed

theorem active_credentials_short_lived_witness:
  "exCredential \<in> set (ListActive 7 (run brokerStep NewBroker exBrokerEvents)) \<and> 7 < cdIssuedAt exCredential + 60 * 10 ^ 9"
  using active_credentials_short_lived [OF exBroker_package, of exCredential 7]
  by (simp add: exBroker_eq ListActive_def listActive_def)

text \<open>
  What the broker calls revocation stops no credential. Whatever was done before, revoking
  a credential of any provider but Vault fails and changes nothing, so the credential stays
  listed until it expires (the package's description promises providers that revoke at once).
\<close>

theorem revocation_fails_except_vault:
  assumes "list_all registersPackage es" and "b = run brokerStep NewBroker es"
    and "BrokerGet i b = Some c" and "cdProvider c \<noteq> ''vault''"
  shows "\<exists>m. Revoke E i b = (Some (RevokeFailed (cdProvider c) m), b)"
proof -
  have inv: "package_inv b" using packageSys.run_inv [OF package_inv_new assms(1)] assms(2) by simp
  have "(i, c) \<in> set (brCreds b)" using assms(3) by (auto simp: BrokerGet_def dest: map_of_SomeD)
  then obtain p where p: "brProviders b (cdProvider c) = Some p"
    using inv by (auto simp: package_inv_def broker_inv_def)
  then have "cpName p = cdProvider c" "p \<in> packageProviders"
    using inv by (auto simp: package_inv_def broker_inv_def)
  then obtain m where "RevokeCredential p E i = Some m"
    using packageProviders_cases [of p] assms(4) by auto
  then show ?thesis using p assms(3) by (simp add: Revoke_def)
qed

theorem revocation_fails_except_vault_witness:
  "\<exists>m. Revoke exProvEnv (cdID exCredential) (run brokerStep NewBroker exBrokerEvents) =
     (Some (RevokeFailed ''env'' m), run brokerStep NewBroker exBrokerEvents)"
  using revocation_fails_except_vault [OF exBroker_package refl, of "cdID exCredential" exCredential exProvEnv]
  by (simp add: exBroker_eq BrokerGet_def)

text \<open>
  AWS credentials outlive the broker's promise. The broker caps a request at 60 seconds and
  reports the credential as expired after that, but the session that the AWS provider asks STS
  for lasts 900 seconds: the returned secret is that of a 900-second session.
\<close>

theorem aws_session_outlives_ttl:
  assumes "ProvisionCredential (awsProvider C P) E req = Inr c" and "0 < prTTLSeconds req" and "prTTLSeconds req \<le> 60"
  shows "\<exists>q k. stDuration q = 900 \<and> peSTS E q = Inr (Some k) \<and> cdSecret c = scSecretKey k \<and>
    cdExpiresAt c \<le> cdIssuedAt c + 60 * 10 ^ 9"
proof -
  have d: "awsDuration (prTTLSeconds req) = 900"
    using assms(2,3) by (simp add: awsDuration_def Let_def)
  have "cdExpiresAt c \<le> cdIssuedAt c + 60 * 10 ^ 9"
    using awsProv.provision_issued [OF assms(2,3,1)] assms(3) by (simp add: issuedFor_def)
  moreover obtain role k where "peSTS E \<lparr>stRole = role, stSession = awsSession C E req, stDuration = 900,
      stPolicy = jsonEnc (buildPolicy (prScope req))\<rparr> = Inr (Some k)" "cdSecret c = scSecretKey k"
    using assms(1) by (auto simp: awsProvider_def awsIssue_def Let_def d newCredential_def split: issue_splits)
  ultimately show ?thesis by (metis sts_request.select_convs(3))
qed

theorem aws_session_outlives_ttl_witness:
  "\<exists>q k. stDuration q = 900 \<and> peSTS exProvEnv q = Inr (Some k) \<and> scSecretKey k = ''sk''"
proof -
  let ?P = "\<lparr>awsAccount = ''1'', awsRegion = ''eu'', awsClient = True, awsInitDone = False\<rparr>"
  obtain c where c: "ProvisionCredential (awsProvider toyCrypto ?P) exProvEnv exProvisionReq = Inr c" "cdSecret c = ''sk''"
    by (simp add: awsProvider_def awsIssue_def resolveRoleARN_def exProvEnv_def exProvisionReq_def hasPrefix_def newCredential_def)
  have "0 < prTTLSeconds exProvisionReq" "prTTLSeconds exProvisionReq \<le> 60" by (simp_all add: exProvisionReq_def)
  from aws_session_outlives_ttl [OF c(1) this] c(2) show ?thesis by auto
qed

text \<open>
  After a failed initialisation the AWS provider crashes. When loading the AWS
  configuration fails in the first request, the request reports the error, but
  \<open>initOnce\<close> has run: the next request for a supported resource finds no client and panics.
\<close>

theorem aws_panics_after_failed_init:
  assumes "\<not> awsClient P" and "\<not> awsInitDone P" and "peConfigErr E = Some e"
    and "awsProvision C E req P = (r, P')" and "awsValidateScope (prScope req2) = None"
  shows "r = Err (''aws: failed to load AWS config: '' @ e) \<and> fst (awsProvision C E2 req2 P') = Panic"
proof -
  have P': "P' = P\<lparr>awsInitDone := True\<rparr>" and r: "r = Err (''aws: failed to load AWS config: '' @ e)"
    using assms by (auto simp: awsProvision_def Let_def)
  from awsValidateScope_role [OF assms(5)] obtain role
    where "resolveRoleARN (awsAccount P) (scResource (prScope req2)) = Inr role" by blast
  then show ?thesis using assms(1) r by (simp add: P' awsProvision_def Let_def)
qed

theorem aws_panics_after_failed_init_witness:
  "let P = \<lparr>awsAccount = ''1'', awsRegion = ''eu'', awsClient = False, awsInitDone = False\<rparr>;
       P1 = snd (awsProvision toyCrypto exProvEnv exProvisionReq P)
   in fst (awsProvision toyCrypto exProvEnv exProvisionReq P1) = Panic"
proof -
  let ?P = "\<lparr>awsAccount = ''1'', awsRegion = ''eu'', awsClient = False, awsInitDone = False\<rparr>"
  have "peConfigErr exProvEnv = Some ''no config''" "awsValidateScope (prScope exProvisionReq) = None"
    by (simp_all add: exProvEnv_def exProvisionReq_def awsValidateScope_def hasPrefix_def)
  then show ?thesis
    using aws_panics_after_failed_init [of ?P exProvEnv "''no config''" toyCrypto exProvisionReq
        "fst (awsProvision toyCrypto exProvEnv exProvisionReq ?P)" "snd (awsProvision toyCrypto exProvEnv exProvisionReq ?P)"
        exProvisionReq exProvEnv] by (simp add: Let_def)
qed

text \<open>
  Marshalling a credential reveals no secret. Changing the secret and the values of the
  sensitive metadata keys in any way does not change the JSON text at all.
\<close>

theorem credential_json_redacts:
  "credentialJSON fmtTime (c\<lparr>cdSecret := s,
     cdMetadata := map (\<lambda>(k, v). (k, if k \<in> set sensitiveMetaKeys then w k else v)) (cdMetadata c)\<rparr>)
   = credentialJSON fmtTime c"
proof -
  have "redactMeta (map (\<lambda>(k, v). (k, if k \<in> set sensitiveMetaKeys then w k else v)) m) = redactMeta m" for m
    by (auto simp: redactMeta_def)
  then show ?thesis by (simp add: credentialJSON_def)
qed

end
