(* ===== verification/Daemon.thy ===== *)
theory Daemon
  imports Messages Keystore PolicyStore ChainSystem Providers
begin

text \<open>
  \<open>internal/daemon/daemon.go\<close>: the daemon that owns the chain, the keystore, the policies,
  the broker, the snapshots and the MCP proxy. What a request reads from outside (clocks, random
  values, faults of the database and the file system, the network, the texts of error values) is
  the record \<open>daemon_env\<close>; the stateful parts are the record \<open>Daemon\<close>.
\<close>

section \<open>State\<close>

datatype derr =
    BadJson
  | KsErr ks_err
  | ChErr chain_error
  | CheckErr receipt_check_error
  | PolErr policy_error
  | BrErr broker_err
  | SnErr store_err
  | FsErr snap_err
  | EmptyCmd
  | CmdNotAllowed string
  | CmdFailed string string string
  | UrlErr string
  | ListenErr string

record daemon_env =
  dvCrypto :: crypto
  dvAead :: aead
  dvStd :: stdlib
  dvArc :: archiver
  dvErr :: "derr \<Rightarrow> string"
  dvNow :: i64
  dvWall :: i64
  dvKs :: ks_env
  dvKs2 :: ks_env
  dvPolQ :: bool
  dvPolR :: bool
  dvT1 :: i64
  dvT2 :: i64
  dvT3 :: i64
  dvDb :: bool
  dvDb2 :: bool
  dvMark :: "i64 \<Rightarrow> bool"
  dvPages :: "int \<times> int"
  dvExec :: "string \<Rightarrow> string list \<Rightarrow> (string \<times> string) option"
  dvDev :: bool
  dvBr :: broker_env
  dvBr2 :: broker_env
  dvProv :: prov_env
  dvFs :: fs_env
  dvSt :: store_env
  dvParseURL :: "string \<Rightarrow> (string \<times> string) option"
  dvLookup :: "string \<Rightarrow> string list option"
  dvIP6 :: "string \<Rightarrow> bool option"
  dvListen :: "string option"
  dvUptime :: int
  dvUptimeText :: string
  dvStartedText :: string
  dvRFC3339 :: string
  dvRate :: "int \<Rightarrow> string"

text \<open>The MCP proxy as the daemon handles it.\<close>

record mcp_proxy =
  mpListenAddr :: string
  mpTargetURL :: string
  mpRedactPII :: bool
  mpRatePerMin :: i64
  mpTokenBudget :: i64
  mpRunning :: bool

text \<open>
  \<open>dNDJSON\<close> is what was handed to the NDJSON writer, if there is one (the code ignores the
  writer's error, so what arrives may be less); \<open>dHooks\<close> are the receipts of the webhook
  goroutines that were started and have not ended, \<open>dPosted\<close> the webhook requests that were
  handed to the HTTP client, \<open>dRan\<close> the commands that compensation has run.
\<close>

record Daemon =
  dChain :: Chain
  dKeystore :: Keystore
  dSnapStore :: snap_store
  dWorld :: world
  dPolicies :: "policy_row list"
  dPolicyExec :: Store
  dBroker :: "prov_env Broker"
  dProxy :: "mcp_proxy option"
  dMcpAudit :: mcp_log
  dNDJSON :: "bytes option"
  dWebhookURL :: string
  dHooks :: "bytes list"
  dPosted :: "(string \<times> bytes) list"
  dAudit :: audit_ring
  dRan :: "(string \<times> string list) list"

section \<open>Starting\<close>

definition initBroker :: "crypto \<Rightarrow> bool \<Rightarrow> prov_env Broker" where
  "initBroker C dev = (let b1 = snd (RegisterProvider (EnvProvider C) NewBroker)
     in if dev then snd (RegisterProvider (DevProvider C) b1) else b1)"

definition initSnapshotStore :: "bool \<Rightarrow> bool \<Rightarrow> string \<Rightarrow> path \<Rightarrow> snapshot_row list \<Rightarrow> string + snap_store" where
  "initSnapshotStore mkdirErr schemaErr home root rows = map_sum id (RegisterSnapshotter (NewFileSystemSnap root))
     (NewSnapStore mkdirErr schemaErr rows (home @ ''/.ans/snapshots/data''))"

text \<open>
  \<open>New\<close> and \<open>NewWithPaths\<close> on what is stored: each step can fail (the error texts are cut
  to what the step adds); the workspace root is the
  working directory or the directory of the chain file.
\<close>

record stored =
  stChain :: chainDB
  stKeystore :: "string + Keystore"
  stRoot :: "path option"
  stHome :: "string option"
  stSnaps :: "snapshot_row list"
  stWorld :: world
  stPolicies :: "policy_row list"
  stMcp :: mcp_log

definition NewDaemon :: "crypto \<Rightarrow> bool \<Rightarrow> (open_step \<Rightarrow> bool) \<Rightarrow> bool \<Rightarrow> bool \<Rightarrow> stored \<Rightarrow> string + Daemon" where
  "NewDaemon C dev openFails mkdirErr schemaErr st = (case Open openFails (stChain st) of
     Ok c \<Rightarrow> (case stKeystore st of Inl e \<Rightarrow> Inl (''opening keystore: '' @ e) | Inr ks \<Rightarrow>
       (case stRoot st of None \<Rightarrow> Inl ''getting working directory'' | Some root \<Rightarrow>
       (case stHome st of None \<Rightarrow> Inl ''initialising snapshot store'' | Some home \<Rightarrow>
       (case initSnapshotStore mkdirErr schemaErr home root (stSnaps st) of Inl e \<Rightarrow> Inl (''initialising snapshot store: '' @ e) | Inr ss \<Rightarrow>
         Inr \<lparr>dChain = c, dKeystore = ks, dSnapStore = ss, dWorld = stWorld st, dPolicies = stPolicies st, dPolicyExec = NewStore,
           dBroker = initBroker C dev, dProxy = None, dMcpAudit = stMcp st, dNDJSON = None, dWebhookURL = [], dHooks = [], dPosted = [],
           dAudit = newRing, dRan = []\<rparr>))))
   | _ \<Rightarrow> Inl ''opening chain'')"

section \<open>Policy questions\<close>

definition weightCtx :: "string \<rightharpoonup> gval" where
  "weightCtx = [''model.weight_type'' \<mapsto> VStr ''open'']"

definition evaluate :: "daemon_env \<Rightarrow> facts \<Rightarrow> Daemon \<Rightarrow> EvalResult \<times> Daemon" where
  "evaluate V f d = (let (r, s) = ExecutorEvaluate (dvStd V) (dvPolQ V) (dvPolR V) (dvT1 V) (dvT2 V) (dvT3 V) (dPolicies d) (dPolicyExec d) f
     in (r, d\<lparr>dPolicyExec := s\<rparr>))"

definition nociceptionMessage :: "NociceptionError option \<Rightarrow> string" where
  "nociceptionMessage n = (case n of None \<Rightarrow> [] | Some e \<Rightarrow> Message e)"

definition checkMCPPolicy :: "daemon_env \<Rightarrow> string \<Rightarrow> string \<Rightarrow> Daemon \<Rightarrow> (bool \<times> string) \<times> Daemon" where
  "checkMCPPolicy V addr method d = (let ctx = [''mcp.client_addr'' \<mapsto> VStr addr, ''mcp.method'' \<mapsto> VStr method];
       (r, d1) = evaluate V (MakeFacts ''mcp-proxy'' (''mcp.'' @ method) ''pre'' [] [] (Some ctx)) d
     in ((Allowed r, nociceptionMessage (Nociception r)), d1))"

definition approveToolCall :: "daemon_env \<Rightarrow> string \<Rightarrow> string \<Rightarrow> Daemon \<Rightarrow> (bool \<times> string) \<times> Daemon" where
  "approveToolCall V addr tool d = (let ctx = [''mcp.client_addr'' \<mapsto> VStr addr, ''mcp.tool_name'' \<mapsto> VStr tool];
       (r, d1) = evaluate V (MakeFacts ''mcp-proxy'' ''mcp.tools.call'' ''pre'' (''tool: '' @ tool) [] (Some ctx)) d
     in ((Allowed r, nociceptionMessage (Nociception r)), d1))"

section \<open>After an append\<close>

definition ndjsonLine :: "bytes \<Rightarrow> bytes" where
  "ndjsonLine raw = ''{'' @ jsonString ''type'' @ '':'' @ jsonString ''receipt'' @ '','' @ jsonString ''data'' @ '':'' @ raw @ ''}'' @ [CHR 0x0A]"

text \<open>
  The CloudEvents body: the receipt goes through Go's \<open>map[string]interface{}\<close>, so its numbers
  become floating-point values; keys are sorted.
\<close>

definition webhookEvent :: "stdlib \<Rightarrow> string \<Rightarrow> bytes \<Rightarrow> bytes option" where
  "webhookEvent L time raw = (case jsonParse raw of
     Some (JObj ms) \<Rightarrow> (case membersOfJson L ms of None \<Rightarrow> None | Some fs \<Rightarrow>
       (let rid = (case map_of (rev fs) ''receipt_id'' of Some (VStr s) \<Rightarrow> s | _ \<Rightarrow> []) in
        case valJson L (VMap (sort_key fst fs)) of
          None \<Rightarrow> Some []
        | Some data \<Rightarrow> Some (jsonEnc (JObj [(''data'', data), (''datacontenttype'', JStr ''application/json''), (''id'', JStr rid),
            (''source'', JStr ''ans/daemon''), (''specversion'', JStr ''1.0''), (''time'', JStr time), (''type'', JStr ''ans.receipt.append'')]))))
   | _ \<Rightarrow> None)"

text \<open>
  \<open>afterAppend\<close>: the event is recorded, the line handed to the writer, and one goroutine started
  for the webhook, counted in the daemon's wait group before it runs.
\<close>

definition afterAppend :: "daemon_env \<Rightarrow> bytes \<Rightarrow> Daemon \<Rightarrow> (unit, unit) go \<times> Daemon" where
  "afterAppend V raw d = (case recordAuditEvent (dvNow V) ''receipt-chain'' ''COMMIT'' ''receipt appended'' (dAudit d) of
     Ok ring \<Rightarrow>
       let d1 = d\<lparr>dAudit := ring, dNDJSON := map_option (\<lambda>out. out @ ndjsonLine raw) (dNDJSON d)\<rparr> in
       if dWebhookURL d1 = [] \<or> (\<not> hasPrefix (dWebhookURL d1) ''https://'' \<and> \<not> dvDev V) then (Ok (), d1)
       else (Ok (), d1\<lparr>dHooks := dHooks d1 @ [raw]\<rparr>)
   | _ \<Rightarrow> (Panic, d))"

text \<open>
  The goroutine's work: the event is built and posted, with a timeout of ten seconds, so that it
  ends whatever the other side does. \<open>finishHook\<close> is the end of the \<open>k\<close>-th one still running.
\<close>

definition webhookPost :: "daemon_env \<Rightarrow> bytes \<Rightarrow> Daemon \<Rightarrow> Daemon" where
  "webhookPost V raw d = (case webhookEvent (dvStd V) (dvRFC3339 V) raw of
     None \<Rightarrow> d
   | Some body \<Rightarrow> if dvParseURL V (dWebhookURL d) = None then d
       else d\<lparr>dPosted := dPosted d @ [(dWebhookURL d, body)]\<rparr>)"

definition finishHook :: "daemon_env \<Rightarrow> nat \<Rightarrow> Daemon \<Rightarrow> Daemon" where
  "finishHook V k d = webhookPost V (dHooks d ! k) (d\<lparr>dHooks := take k (dHooks d) @ drop (Suc k) (dHooks d)\<rparr>)"

end
