(* ===== verification/Handlers.thy ===== *)
theory Handlers
  imports Daemon
begin

text \<open>
  \<open>internal/daemon/handlers.go\<close>: one definition per request handler, each with every check in
  the order of the source, the dispatch of a frame and the loop over a connection. A handler
  returns the one reply it writes (message type and JSON body) and the new daemon, or a panic,
  which ends the process.
\<close>

type_synonym reply = "msg \<times> json"
type_synonym handled = "(unit, reply) go \<times> Daemon"

definition failWith :: "string \<Rightarrow> Daemon \<Rightarrow> handled" where
  "failWith m d = (Ok (MsgError, ErrorResp m), d)"

definition ticked :: "string \<Rightarrow> string" where
  "ticked s = [CHR 0x27] @ s @ [CHR 0x27]"

section \<open>Signing and appending\<close>

definition signAppendInvalid :: "fields \<Rightarrow> string option" where
  "signAppendInvalid m = (let agentID = strF m ''agent_id''; phase = strF m ''phase''; actionType = strF m ''action_type'';
       payloadHash = strF m ''payload_hash''; payloadSummary = strF m ''payload_summary''; policyDecision = strF m ''policy_decision'';
       authContext = strF m ''auth_context''; outcome = strF m ''outcome''; outcomeSummary = strF m ''outcome_summary'' in
     if agentID = [] \<or> actionType = [] then Some ''agent_id, action_type required''
     else if phase = ''post'' \<and> payloadHash = [] \<and> strF m ''pre_receipt_id'' = []
       then Some ''payload_hash or pre_receipt_id required for post phase''
     else if 128 < length agentID \<or> 64 < length actionType \<or> 128 < length payloadHash \<or> 200 < length payloadSummary \<or>
         500 < length authContext \<or> 500 < length outcomeSummary then Some ''field too long''
     else if phase \<noteq> ''pre'' \<and> phase \<noteq> ''post'' then Some (''phase must be '' @ ticked ''pre'' @ '' or '' @ ticked ''post'')
     else if phase = ''pre'' \<and> policyDecision \<noteq> [] \<and> policyDecision \<notin> {''allow'', ''deny'', ''allow_with_conditions''}
       then Some (''policy_decision must be '' @ ticked ''allow'' @ '', '' @ ticked ''deny'' @ '', or '' @ ticked ''allow_with_conditions'')
     else if phase = ''post'' \<and> outcome \<noteq> [] \<and> outcome \<notin> {''success'', ''failure'', ''partial''}
       then Some (''outcome must be '' @ ticked ''success'' @ '', '' @ ticked ''failure'' @ '', or '' @ ticked ''partial'')
     else if intF m ''duration_ms'' < 0 then Some ''duration_ms must be >= 0''
     else None)"

text \<open>The function that \<open>AppendNew\<close> calls with the tip.\<close>

definition buildReceipt :: "crypto \<Rightarrow> i64 \<Rightarrow> fields \<Rightarrow> string \<Rightarrow> u64 \<Rightarrow> string + Receipt" where
  "buildReceipt C now m prevHash nextIdx = (let b0 = NewBuilder (strF m ''agent_id'') prevHash nextIdx;
       parent = strF m ''parent_agent_id''; b = (if parent \<noteq> [] then WithParent parent b0 else b0) in
     if strF m ''phase'' = ''pre'' then
       (let payload = \<lparr>PType = strF m ''action_type'', PTarget = [], PArgs = [], PRaw = []\<rparr>;
            r = PreAction C now b payload (strF m ''payload_summary'') (strF m ''policy_decision'') (strF m ''auth_context'')
        in Inr (r\<lparr>PayloadHash := strF m ''payload_hash''\<rparr>))
     else Inr (PostAction now b (strF m ''pre_receipt_id'') (strF m ''action_type'') (strF m ''payload_hash'') (strF m ''payload_summary'')
       (strF m ''outcome'') (strF m ''outcome_summary'') (intF m ''duration_ms'')))"

text \<open>What the policies are asked about a request.\<close>

definition requestFacts :: "fields \<Rightarrow> facts" where
  "requestFacts m = MakeFacts (strF m ''agent_id'') (strF m ''action_type'') (strF m ''phase'') (strF m ''payload_summary'')
     (strF m ''parent_agent_id'') (Some weightCtx)"

definition denyReply :: "EvalResult \<Rightarrow> reply" where
  "denyReply r = (case Nociception r of
     Some n \<Rightarrow> (MsgNociceptionError, NociceptionJson n)
   | None \<Rightarrow> (MsgError, ErrorResp ''action denied by policy''))"

text \<open>The receipt that \<open>AppendNew\<close> returns has its hash cached, so \<open>ComputeHash\<close> returns it.\<close>

definition handleSignAppend :: "daemon_env \<Rightarrow> bytes \<Rightarrow> Daemon \<Rightarrow> handled" where
  "handleSignAppend V body d = (case decodeStruct SignAppendReq body of
     None \<Rightarrow> failWith (''bad request: '' @ dvErr V BadJson) d
   | Some m \<Rightarrow>
     (case signAppendInvalid m of Some e \<Rightarrow> failWith e d | None \<Rightarrow>
     (case evaluate V (requestFacts m) d of (res, d1) \<Rightarrow>
     if \<not> Allowed res then (Ok (denyReply res), d1)
     else (case Load (dvCrypto V) (dvAead V) (dvKs V) (strF m ''agent_id'') (dKeystore d1) of
       (Inl e, ks) \<Rightarrow> failWith (''agent not found: '' @ dvErr V (KsErr e)) (d1\<lparr>dKeystore := ks\<rparr>)
     | (Inr agent, ks) \<Rightarrow>
       let d2 = d1\<lparr>dKeystore := ks\<rparr> in
       (case AppendNew (dvCrypto V) (buildReceipt (dvCrypto V) (dvNow V) m) (agPrivateKey agent) (dvWall V) (dvDb V) (dChain d2) of
         (Panic, c) \<Rightarrow> (Panic, d2\<lparr>dChain := c\<rparr>)
       | (Err e, c) \<Rightarrow> failWith (''append failed: '' @ dvErr V (ChErr e)) (d2\<lparr>dChain := c\<rparr>)
       | (Ok r, c) \<Rightarrow>
         (case afterAppend V (RawJSON r) (d2\<lparr>dChain := c\<rparr>) of
            (Ok _, d3) \<Rightarrow> (Ok (MsgSignAppendResp, SignAppendResp (ReceiptID r) (ChainIndex r) (fst (ComputeHash (dvCrypto V) r)) (Signature r)), d3)
          | (_, d3) \<Rightarrow> (Panic, d3)))))))"

section \<open>Reading the chain\<close>

definition handleVerify :: "daemon_env \<Rightarrow> bytes \<Rightarrow> Daemon \<Rightarrow> handled" where
  "handleVerify V body d = (let rid = (case decodeStruct VerifyReq body of None \<Rightarrow> [] | Some m \<Rightarrow> strF m ''receipt_id'') in
     if rid = [] then failWith ''receipt_id required'' d
     else (case Get (dvDb V) rid (dChain d) of
       Ok r \<Rightarrow>
         (case Load (dvCrypto V) (dvAead V) (dvKs V) (AgentID r) (dKeystore d) of (la, ks1) \<Rightarrow>
          let pubkeys = (case la of Inr ag \<Rightarrow> Some [AgentID r \<mapsto> agPublicKey ag] | Inl _ \<Rightarrow> None) in
          (case VerifyReceipt (dvCrypto V) (dvDb2 V) rid pubkeys (dChain d) of
             Panic \<Rightarrow> (Panic, d\<lparr>dKeystore := ks1\<rparr>)
           | res \<Rightarrow> (case Load (dvCrypto V) (dvAead V) (dvKs2 V) (AgentID r) ks1 of (lb, ks2) \<Rightarrow>
               (Ok (MsgVerifyResp, verifyRespJson \<lparr>vrValid = is_Ok res, vrReceiptID = ReceiptID r, vrAgentID = AgentID r,
                  vrAgentName = (case lb of Inr ag \<Rightarrow> agName ag | Inl _ \<Rightarrow> []), vrActionType = ActionType r, vrPhase = Phase r,
                  vrPolicyDecision = PolicyDecision r, vrOutcome = Outcome r, vrTimestampNS = TimestampNS r, vrChainIndex = ChainIndex r,
                  vrError = (case res of Err e \<Rightarrow> dvErr V (CheckErr e) | _ \<Rightarrow> [])\<rparr>), d\<lparr>dKeystore := ks2\<rparr>))))
     | Err e \<Rightarrow> (Ok (MsgVerifyResp, verifyRespJson \<lparr>vrValid = False, vrReceiptID = rid, vrAgentID = [], vrAgentName = [], vrActionType = [],
          vrPhase = [], vrPolicyDecision = [], vrOutcome = [], vrTimestampNS = 0, vrChainIndex = 0, vrError = dvErr V (ChErr e)\<rparr>), d)
     | Panic \<Rightarrow> (Panic, d)))"

definition queryOptions :: "fields \<Rightarrow> QueryOptions" where
  "queryOptions m = (let l0 = intF m ''limit''; l1 = (if l0 \<le> 0 then 50 else l0); limit = (if 1000 < l1 then 1000 else l1);
       off = intF m ''offset'' in
     \<lparr>qAgentID = strF m ''agent_id'', qActionType = strF m ''action_type'', qPhase = strF m ''phase'',
       qSince = (if 0 < intF m ''since_ns'' then Some (intF m ''since_ns'') else None), qLimit = limit, qOffset = (if off < 0 then 0 else off)\<rparr>)"

definition handleQuery :: "daemon_env \<Rightarrow> bytes \<Rightarrow> Daemon \<Rightarrow> handled" where
  "handleQuery V body d = (case decodeStruct QueryReq body of
     None \<Rightarrow> failWith (''bad request: '' @ dvErr V BadJson) d
   | Some m \<Rightarrow> (case ListReceipts (dvDb V) (dvDb2 V) (queryOptions m) (dChain d) of
       Ok rs \<Rightarrow> (Ok (MsgQueryResp, QueryResp rs), d)
     | Err e \<Rightarrow> failWith (dvErr V (ChErr e)) d
     | Panic \<Rightarrow> (Panic, d)))"

definition handleStatus :: "daemon_env \<Rightarrow> Daemon \<Rightarrow> handled" where
  "handleStatus V d = (case GetStats (dvDb V) (fst (dvPages V)) (snd (dvPages V)) (dChain d) of
     Ok s \<Rightarrow> (Ok (MsgStatusResp, JObj ([(''uptime'', JStr (dvUptimeText V)), (''chain_length'', u64J (ChainLength s)),
        (''total_receipts'', numJ (TotalReceipts s)), (''total_agents'', numJ (TotalAgents s)), (''db_size_bytes'', numJ (DBSizeBytes s))] @
        omitInt ''last_receipt_ts'' (NewestReceiptNS s) @ [(''started_at'', JStr (dvStartedText V))])), d)
   | Err e \<Rightarrow> failWith (dvErr V (ChErr e)) d
   | Panic \<Rightarrow> (Panic, d))"

section \<open>Registration\<close>

definition registerInvalid :: "fields \<Rightarrow> string option" where
  "registerInvalid m = (if strF m ''name'' = [] then Some ''name required''
     else if 128 < length (strF m ''name'') \<or> 32 < length (strF m ''version'') \<or> 128 < length (strF m ''owner'') \<or>
       256 < length (strF m ''public_key_hex'') then Some ''field too long'' else None)"

text \<open>With a public key the agent has no private key; without one a key pair is drawn.\<close>

definition registeredAgent :: "daemon_env \<Rightarrow> fields \<Rightarrow> string + Agent" where
  "registeredAgent V m = (let name = strF m ''name''; ver = strF m ''version''; owner = strF m ''owner''; pk = strF m ''public_key_hex'' in
     if pk \<noteq> [] then (case hexDecodeString pk of
         Some pub \<Rightarrow> if length pub = 32 then Inr (NewFromKeys (dvCrypto V) (kvRegistered (dvKs V)) name ver owner pub [])
           else Inl ''invalid public_key_hex''
       | None \<Rightarrow> Inl ''invalid public_key_hex'')
     else (case NewAgent (dvCrypto V) (kvKeys (dvKs V)) (kvRegistered (dvKs V)) name ver owner of
         Some a \<Rightarrow> Inr a | None \<Rightarrow> Inl (''keygen failed: '' @ dvErr V (KsErr KeygenFailed))))"

definition handleRegister :: "daemon_env \<Rightarrow> bytes \<Rightarrow> Daemon \<Rightarrow> handled" where
  "handleRegister V body d = (case decodeStruct RegisterReq body of
     None \<Rightarrow> failWith (''invalid JSON: '' @ dvErr V BadJson) d
   | Some m \<Rightarrow> (case registerInvalid m of Some e \<Rightarrow> failWith e d | None \<Rightarrow>
     (case registeredAgent V m of Inl e \<Rightarrow> failWith e d | Inr ag \<Rightarrow>
     (case Save (dvAead V) (dvKs V) ag (dKeystore d) of
        (Some e, ks) \<Rightarrow> failWith (''save failed: '' @ dvErr V (KsErr e)) (d\<lparr>dKeystore := ks\<rparr>)
      | (None, ks) \<Rightarrow> (Ok (MsgRegisterResp, RegisterResp (agID ag)), d\<lparr>dKeystore := ks\<rparr>)))))"

section \<open>Snapshots\<close>

definition snapTypeOf :: "fields \<Rightarrow> string" where
  "snapTypeOf m = (if strF m ''snap_type'' \<noteq> [] then strF m ''snap_type'' else SnapFileSystem)"

definition handleSnapshot :: "daemon_env \<Rightarrow> bytes \<Rightarrow> Daemon \<Rightarrow> handled" where
  "handleSnapshot V body d = (case decodeStruct SnapshotReq body of
     None \<Rightarrow> failWith (''bad snapshot request: '' @ dvErr V BadJson) d
   | Some m \<Rightarrow>
     if strF m ''agent_id'' = [] then failWith ''agent_id required for snapshot'' d
     else if 128 < length (strF m ''agent_id'') \<or> 32 < length (strF m ''snap_type'') \<or> 4096 < length (strF m ''paths'')
       then failWith ''field too long'' d
     else (case CaptureSnapshot (dvCrypto V) (dvArc V) (dvFs V) (dvSt V) (snapTypeOf m) (strF m ''agent_id'') (fst (Tip (dChain d))) []
         (dSnapStore d, dWorld d) of
       (Inl e, s, w) \<Rightarrow> failWith (''snapshot failed: '' @ dvErr V (SnErr e)) (d\<lparr>dSnapStore := s, dWorld := w\<rparr>)
     | (Inr sn, s, w) \<Rightarrow> (Ok (MsgSnapshotResp, SnapshotResp sn), d\<lparr>dSnapStore := s, dWorld := w\<rparr>)))"

definition handleRestore :: "daemon_env \<Rightarrow> bytes \<Rightarrow> Daemon \<Rightarrow> handled" where
  "handleRestore V body d = (case decodeStruct RestoreReq body of
     None \<Rightarrow> failWith (''bad restore request: '' @ dvErr V BadJson) d
   | Some m \<Rightarrow>
     if u64F m ''target_index'' = 0 then failWith ''target_index must be > 0'' d
     else if 32 < length (strF m ''snap_type'') then failWith ''snap_type too long'' d
     else (case RestoreSnapshot (dvCrypto V) (dvArc V) (dvFs V) (seQueryErr (dvSt V)) (snapTypeOf m) (u64F m ''target_index'') (dSnapStore d) (dWorld d) of
       (Some e, w) \<Rightarrow> failWith (''restore failed: '' @ dvErr V (SnErr e)) (d\<lparr>dWorld := w\<rparr>)
     | (None, w) \<Rightarrow> (Ok (MsgRestoreResp, RestoreResp (u64F m ''target_index'') ''state restored''), d\<lparr>dWorld := w\<rparr>)))"

definition handleSnapshotList :: "daemon_env \<Rightarrow> bytes \<Rightarrow> Daemon \<Rightarrow> handled" where
  "handleSnapshotList V body d = (case decodeStruct SnapshotListReq body of
     None \<Rightarrow> failWith (''bad snapshot list request: '' @ dvErr V BadJson) d
   | Some m \<Rightarrow>
     if strF m ''agent_id'' = [] then failWith ''agent_id required'' d
     else if 128 < length (strF m ''agent_id'') \<or> 32 < length (strF m ''snap_type'') then failWith ''field too long'' d
     else let l0 = intF m ''limit''; l1 = (if l0 \<le> 0 then 50 else l0); limit = (if 1000 < l1 then 1000 else l1) in
       (case ListSnapshots (seQueryErr (dvSt V)) (strF m ''agent_id'') (snapTypeOf m) limit (intF m ''offset'') (dSnapStore d) of
         Inl e \<Rightarrow> failWith (''listing snapshots: '' @ dvErr V (SnErr e)) d
       | Inr sns \<Rightarrow> (Ok (MsgSnapshotListResp, SnapshotListResp sns), d)))"

text \<open>The daemon's snapshotter is the file system snapshotter of its workspace.\<close>

definition handleSnapshotDiff :: "daemon_env \<Rightarrow> bytes \<Rightarrow> Daemon \<Rightarrow> handled" where
  "handleSnapshotDiff V body d = (case decodeStruct SnapshotDiffReq body of
     None \<Rightarrow> failWith (''bad snapshot diff request: '' @ dvErr V BadJson) d
   | Some m \<Rightarrow>
     if strF m ''agent_id'' = [] then failWith ''agent_id required'' d
     else if 128 < length (strF m ''agent_id'') \<or> 32 < length (strF m ''snap_type'') then failWith ''field too long'' d
     else (case ListSnapshots (seQueryErr (dvSt V)) (strF m ''agent_id'') (snapTypeOf m) 2 0 (dSnapStore d) of
         Inl e \<Rightarrow> failWith (''listing snapshots: '' @ dvErr V (SnErr e)) d
       | Inr sns \<Rightarrow>
         if length sns < 2 then (Ok (MsgSnapshotDiffResp, SnapshotDiffResp [] [] [] ''Need at least 2 snapshots to compute a diff''), d)
         else (case ssSnaps (dSnapStore d) SnapFileSystem of
           None \<Rightarrow> failWith ''filesystem snapshotter not available'' d
         | Some S \<Rightarrow> (case DiffSnap (dvArc V) (dvFs V) S (snStoragePath (sns ! 1)) (dWorld d) of
             Inl e \<Rightarrow> failWith (''diff failed: '' @ dvErr V (FsErr e)) d
           | Inr (added, modified, deleted) \<Rightarrow> (Ok (MsgSnapshotDiffResp, SnapshotDiffResp added modified deleted []), d)))))"

section \<open>Credentials\<close>

definition provisionReq :: "fields \<Rightarrow> ProvisionRequest" where
  "provisionReq m = (let a0 = strF m ''action''; action = (if a0 = [] then ''read'' else a0);
       t0 = intF m ''ttl_seconds''; t1 = (if t0 \<le> 0 then 60 else t0); ttl = (if 60 < t1 then 60 else t1) in
     \<lparr>prAgentID = strF m ''agent_id'', prActionType = action,
       prScope = \<lparr>scResource = strF m ''resource'', scPermissions = [action], scConstraints = []\<rparr>, prTTLSeconds = ttl,
       prRequestID = [], prPreReceiptID = [], prParentAgentID = [], prTimestamp = 0\<rparr>)"

text \<open>The provider of environment credentials first, then that of development credentials, with the same request.\<close>

definition handleTokenRequest :: "daemon_env \<Rightarrow> bytes \<Rightarrow> Daemon \<Rightarrow> handled" where
  "handleTokenRequest V body d = (case decodeStruct TokenRequestReq body of
     None \<Rightarrow> failWith (''bad request: '' @ dvErr V BadJson) d
   | Some m \<Rightarrow>
     if strF m ''agent_id'' = [] \<or> strF m ''resource'' = [] then failWith ''agent_id and resource required'' d
     else (case Provision (dvCrypto V) (dvBr V) (dvProv V) ''env'' (provisionReq m) (dBroker d) of
       (Inr c, _, b) \<Rightarrow> (Ok (MsgTokenResp, TokenRequestResp c), d\<lparr>dBroker := b\<rparr>)
     | (Inl _, req, b) \<Rightarrow> (case Provision (dvCrypto V) (dvBr2 V) (dvProv V) ''dev'' req b of
         (Inr c, _, b2) \<Rightarrow> (Ok (MsgTokenResp, TokenRequestResp c), d\<lparr>dBroker := b2\<rparr>)
       | (Inl e, _, b2) \<Rightarrow> failWith (''provisioning failed: '' @ dvErr V (BrErr e)) (d\<lparr>dBroker := b2\<rparr>))))"

definition handleTokenRevoke :: "daemon_env \<Rightarrow> bytes \<Rightarrow> Daemon \<Rightarrow> handled" where
  "handleTokenRevoke V body d = (let i = (case decodeStruct TokenRevokeReq body of None \<Rightarrow> [] | Some m \<Rightarrow> strF m ''token_id'') in
     if i = [] then failWith ''token_id required'' d
     else (case Revoke (dvProv V) i (dBroker d) of
       (Some e, b) \<Rightarrow> failWith (''revoke failed: '' @ dvErr V (BrErr e)) (d\<lparr>dBroker := b\<rparr>)
     | (None, b) \<Rightarrow> (Ok (MsgTokenRevokeResp, successResp True []), d\<lparr>dBroker := b\<rparr>)))"

definition handleTokenList :: "daemon_env \<Rightarrow> Daemon \<Rightarrow> handled" where
  "handleTokenList V d = (Ok (MsgTokenListResp, TokenListResp (ListActive (dvNow V) (dBroker d))), d)"

section \<open>Audit events and policies\<close>

definition handleAuditEvents :: "daemon_env \<Rightarrow> bytes \<Rightarrow> Daemon \<Rightarrow> handled" where
  "handleAuditEvents V body d = (let limit = intF (decodeLenient AuditEventsReq body) ''limit''
     in (Ok (MsgAuditEventsResp, AuditEventsResp (getAuditEvents limit (dAudit d))), d))"

definition policyOf :: "fields \<Rightarrow> Condition \<Rightarrow> PAction \<Rightarrow> Policy" where
  "policyOf m c a = \<lparr>PolID = strF m ''id'', Name = strF m ''name'', Description = strF m ''description'', Enabled = boolF m ''enabled'',
     Priority = intF m ''priority'', Severity = strF m ''severity'', Conditions = c, Action = a, CreatedNS = 0, UpdatedNS = 0\<rparr>"

text \<open>\<open>polStore\<close> is a new store on the same table: what it marks dirty is not the executor's cache.\<close>

definition handlePolicyRegister :: "daemon_env \<Rightarrow> bytes \<Rightarrow> Daemon \<Rightarrow> handled" where
  "handlePolicyRegister V body d = (case decodeStruct PolicyRegisterReq body of
     None \<Rightarrow> failWith (''bad request: '' @ dvErr V BadJson) d
   | Some m \<Rightarrow>
     if strF m ''id'' = [] \<or> strF m ''name'' = [] \<or> strF m ''conditions'' = [] \<or> strF m ''action'' = []
       then failWith ''id, name, conditions, action required'' d
     else (case Option.bind (jsonParse (strF m ''conditions'')) (condOfJson (dvStd V)) of
       None \<Rightarrow> failWith (''invalid conditions JSON: '' @ dvErr V BadJson) d
     | Some c \<Rightarrow> (case unmarshalAction (strF m ''action'') of
         None \<Rightarrow> failWith (''invalid action JSON: '' @ dvErr V BadJson) d
       | Some a \<Rightarrow> (case CompileRegexp (dvStd V) c of
           None \<Rightarrow> failWith (''invalid regex in conditions: '' @ dvErr V (PolErr (PRegexErr (strF m ''id'')))) d
         | Some c' \<Rightarrow>
           if Effect a \<notin> {EffectAllow, EffectDeny, EffectWarn, EffectAudit}
             then failWith (''effect must be '' @ ticked ''allow'' @ '', '' @ ticked ''deny'' @ '', '' @ ticked ''warn'' @ '', or '' @ ticked ''audit'') d
           else (case Insert (dvStd V) (dvDb V) (dvNow V) (policyOf m c' a) (dPolicies d, NewStore) of
             (Ok _, rows, _) \<Rightarrow> (Ok (MsgPolicyRegisterResp, successResp True ''policy registered''), d\<lparr>dPolicies := rows\<rparr>)
           | (Err e, rows, _) \<Rightarrow> failWith (''saving policy: '' @ dvErr V (PolErr e)) (d\<lparr>dPolicies := rows\<rparr>)
           | (Panic, rows, _) \<Rightarrow> (Panic, d))))))"

definition handlePolicyList :: "daemon_env \<Rightarrow> bytes \<Rightarrow> Daemon \<Rightarrow> handled" where
  "handlePolicyList V body d = (let enabledOnly = boolF (decodeLenient PolicyListReq body) ''enabled_only'';
       res = (if enabledOnly then fst (ListEnabled (dvStd V) (dvPolQ V) (dvPolR V) (dvT1 V) (dvT2 V) (dvT3 V) (dPolicies d) NewStore)
              else listNoLock (dvStd V) (dvPolQ V) (dvPolR V) (dPolicies d)) in
     (case res of
        Ok ps \<Rightarrow> (Ok (MsgPolicyListResp, PolicyListResp ps), d)
      | Err e \<Rightarrow> failWith (''listing policies: '' @ dvErr V (PolErr e)) d
      | Panic \<Rightarrow> (Panic, d)))"

definition handlePolicyDelete :: "daemon_env \<Rightarrow> bytes \<Rightarrow> Daemon \<Rightarrow> handled" where
  "handlePolicyDelete V body d = (let i = (case decodeStruct PolicyDeleteReq body of None \<Rightarrow> [] | Some m \<Rightarrow> strF m ''id'') in
     if i = [] then failWith ''id required'' d
     else (case Delete (dvDb V) i (dPolicies d, NewStore) of
       (Ok _, rows, _) \<Rightarrow> (Ok (MsgPolicyDeleteResp, successResp True ''policy deleted''), d\<lparr>dPolicies := rows\<rparr>)
     | (Err e, rows, _) \<Rightarrow> failWith (''deleting policy: '' @ dvErr V (PolErr e)) (d\<lparr>dPolicies := rows\<rparr>)
     | (Panic, rows, _) \<Rightarrow> (Panic, d)))"

definition handlePolicyEvaluate :: "daemon_env \<Rightarrow> bytes \<Rightarrow> Daemon \<Rightarrow> handled" where
  "handlePolicyEvaluate V body d = (case decodeStruct PolicyEvaluateReq body of
     None \<Rightarrow> failWith (''bad request: '' @ dvErr V BadJson) d
   | Some m \<Rightarrow> (case evaluate V (requestFacts m) d of
       (r, d1) \<Rightarrow> (Ok (MsgPolicyEvaluateResp, PolicyEvaluateResp (Allowed r) (Denied r) (Nociception r) (PolicyResults r)), d1)))"

section \<open>Compensation\<close>

definition allowedCompensationCmds :: "string list" where
  "allowedCompensationCmds = [''curl'', ''wget'', ''rm'', ''mv'', ''cp'', ''mkdir'', ''rmdir'', ''touch'', ''chmod'', ''chown'', ''ln'',
     ''cat'', ''echo'', ''tee'', ''git'', ''docker'', ''systemctl'', ''service'', ''kill'', ''pkill'']"

definition safeCmdChar :: "char \<Rightarrow> bool" where
  "safeCmdChar c \<longleftrightarrow> wordChar c \<or> c \<in> set ''-/.:@,=+~% '' \<or> c \<in> {CHR 0x5C, CHR 0x09, CHR 0x0A, CHR 0x0C, CHR 0x0D}"

definition safeCmdPattern :: "string \<Rightarrow> bool" where
  "safeCmdPattern s \<longleftrightarrow> s \<noteq> [] \<and> list_all safeCmdChar s"

definition handleRegisterCompensate :: "daemon_env \<Rightarrow> bytes \<Rightarrow> Daemon \<Rightarrow> handled" where
  "handleRegisterCompensate V body d = (case decodeStruct RegisterCompensateReq body of
     None \<Rightarrow> failWith (''bad request: '' @ dvErr V BadJson) d
   | Some m \<Rightarrow> let cmd = strF m ''reverse_cmd'' in
     if strF m ''agent_id'' = [] \<or> strF m ''receipt_id'' = [] \<or> cmd = [] then failWith ''agent_id, receipt_id, reverse_cmd required'' d
     else if \<not> safeCmdPattern cmd
       then failWith ''reverse_cmd contains unsafe characters (only alphanumeric, path chars, and spaces allowed)'' d
     else if 500 < length cmd then failWith ''reverse_cmd too long (max 500)'' d
     else (case Get (dvDb V) (strF m ''receipt_id'') (dChain d) of
       Err e \<Rightarrow> failWith (''receipt not found: '' @ dvErr V (ChErr e)) d
     | Panic \<Rightarrow> (Panic, d)
     | Ok r \<Rightarrow> (case SaveCompensation (dvDb2 V) \<lparr>crID = 0, crChainIndex = ChainIndex r, crAgentID = strF m ''agent_id'',
           crReceiptID = strF m ''receipt_id'', crActionType = strF m ''action_type'', crReverseAction = strF m ''reverse_action'',
           crReverseCmd = cmd, crExecuted = False, crCreatedNS = dvNow V\<rparr> (dChain d) of
         (Ok _, c) \<Rightarrow> (Ok (MsgRegisterCompensateResp, successResp True ''compensation registered''), d\<lparr>dChain := c\<rparr>)
       | (Err e, c) \<Rightarrow> failWith (''saving compensation: '' @ dvErr V (ChErr e)) (d\<lparr>dChain := c\<rparr>)
       | (Panic, c) \<Rightarrow> (Panic, d))))"

text \<open>\<open>strings.Fields\<close>: the words between runs of white space.\<close>

function splitFields :: "string \<Rightarrow> string \<Rightarrow> string list" where
  "splitFields cur s = (if s = [] then (if cur = [] then [] else [cur])
     else if 0 < dropRune spaceRunes s then (if cur = [] then [] else [cur]) @ splitFields [] (drop (dropRune spaceRunes s) s)
     else splitFields (cur @ [hd s]) (tl s))"
  by pat_completeness auto
termination
  by (relation "measure (\<lambda>(_, s). length s)") auto

declare splitFields.simps [simp del]

definition filepathBase :: "string \<Rightarrow> string" where
  "filepathBase p = (if p = [] then ''.'' else
     let q = rev (dropWhile (\<lambda>c. c = slash) (rev p)) in if q = [] then ''/'' else List.last (splitOn slash q))"

text \<open>
  \<open>executeCompensation\<close>: running a command gives an error and its output or succeeds; the
  command is recorded.
\<close>

definition executeCompensation :: "daemon_env \<Rightarrow> CompensationRecord \<Rightarrow> Daemon \<Rightarrow> derr option \<times> Daemon" where
  "executeCompensation V c d = (case splitFields [] (crReverseCmd c) of
     [] \<Rightarrow> (Some EmptyCmd, d)
   | cmd # args \<Rightarrow>
     if filepathBase cmd \<notin> set allowedCompensationCmds then (Some (CmdNotAllowed cmd), d)
     else let d1 = d\<lparr>dRan := dRan d @ [(cmd, args)]\<rparr> in
       (case dvExec V cmd args of
          None \<Rightarrow> (None, d1)
        | Some (err, out) \<Rightarrow> (Some (CmdFailed (crReverseCmd c) err (if 512 < length out then take 512 out @ ''... (truncated)'' else out)), d1)))"

definition indexTag :: "u64 \<Rightarrow> string" where
  "indexTag i = ''['' @ showNat (unat i) @ '']''"

text \<open>Failure to mark a compensation as executed is ignored (\<open>dvMark\<close>).\<close>

fun runCompensations :: "daemon_env \<Rightarrow> CompensationRecord list \<Rightarrow> string list \<times> nat \<times> nat \<Rightarrow> Daemon
    \<Rightarrow> (string list \<times> nat \<times> nat) \<times> Daemon" where
  "runCompensations V [] acc d = (acc, d)"
| "runCompensations V (c # cs) acc d = (case acc of (details, nrun, nfail) \<Rightarrow>
     if crReverseCmd c = [] then runCompensations V cs acc d
     else (case executeCompensation V c d of
       (Some e, d1) \<Rightarrow> runCompensations V cs (details @ [indexTag (crChainIndex c) @ '' FAIL: '' @ dvErr V e], nrun, nfail + 1) d1
     | (None, d1) \<Rightarrow> runCompensations V cs (details @ [indexTag (crChainIndex c) @ '' OK: '' @ crReverseAction c], nrun + 1, nfail)
         (d1\<lparr>dChain := snd (MarkCompensationExecuted (dvMark V (crID c)) (crID c) (dChain d1))\<rparr>)))"

definition handleCompensate :: "daemon_env \<Rightarrow> bytes \<Rightarrow> Daemon \<Rightarrow> handled" where
  "handleCompensate V body d = (case decodeStruct CompensateReq body of
     None \<Rightarrow> failWith (''bad request: '' @ dvErr V BadJson) d
   | Some m \<Rightarrow>
     if u64F m ''target_index'' = 0 then failWith ''target_index required'' d
     else (case GetCompensations (dvDb V) (u64F m ''target_index'') (dChain d) of
       Err e \<Rightarrow> failWith (''querying compensations: '' @ dvErr V (ChErr e)) d
     | Panic \<Rightarrow> (Panic, d)
     | Ok comps \<Rightarrow>
       if comps = [] then (Ok (MsgCompensateResp, CompensateResp True 0 0 [] ''no compensations found at or above this index''), d)
       else if boolF m ''dry_run'' then
         (Ok (MsgCompensateResp, CompensateResp True (length comps) 0
            (map (\<lambda>c. indexTag (crChainIndex c) @ '' '' @ crActionType c @ '': '' @ crReverseAction c @ '' (cmd: '' @ crReverseCmd c @ '')'') comps)
            (''dry run '' @ emDash @ '' no actions executed'')), d)
       else (case runCompensations V comps ([], 0, 0) d of ((details, nrun, nfail), d1) \<Rightarrow>
         (Ok (MsgCompensateResp, CompensateResp (nfail = 0) nrun nfail details
            (''executed '' @ showNat nrun @ ''/'' @ showNat (length comps) @ '' compensations'')), d1))))"

section \<open>The MCP proxy\<close>

text \<open>
  \<open>net.ParseIP\<close> for IPv4 (four decimal numbers below 256 without leading zeros); \<open>dvIP6\<close>
  says of any other text whether it is an IPv6 address and then whether it is loopback, private
  or unspecified.
\<close>

definition octet :: "string \<Rightarrow> nat option" where
  "octet s = (if s \<noteq> [] \<and> length s \<le> 3 \<and> list_all is_digit s \<and> (length s = 1 \<or> hd s \<noteq> CHR ''0'') \<and> readNat s < 256
     then Some (readNat s) else None)"

definition parseIPv4 :: "string \<Rightarrow> (nat \<times> nat \<times> nat \<times> nat) option" where
  "parseIPv4 s = (case map octet (splitOn (CHR ''.'') s) of
     [Some a, Some b, Some c, Some e] \<Rightarrow> Some (a, b, c, e) | _ \<Rightarrow> None)"

definition internalIPv4 :: "nat \<times> nat \<times> nat \<times> nat \<Rightarrow> bool" where
  "internalIPv4 ip = (case ip of (a, b, c, e) \<Rightarrow> a = 127 \<or> a = 10 \<or> (a = 172 \<and> 16 \<le> b \<and> b < 32) \<or> (a = 192 \<and> b = 168) \<or>
     (a = 0 \<and> b = 0 \<and> c = 0 \<and> e = 0))"

definition internalIP :: "daemon_env \<Rightarrow> string \<Rightarrow> bool" where
  "internalIP V s = (case parseIPv4 s of Some ip \<Rightarrow> internalIPv4 ip | None \<Rightarrow> (case dvIP6 V s of Some b \<Rightarrow> b | None \<Rightarrow> False))"

text \<open>\<open>dvParseURL\<close> is \<open>url.Parse\<close>: the scheme and the host name, \<open>dvLookup\<close> the name resolution.\<close>

definition validateTargetURL :: "daemon_env \<Rightarrow> string \<Rightarrow> string option" where
  "validateTargetURL V u = (case dvParseURL V u of None \<Rightarrow> Some ''invalid URL''
   | Some (scheme, host) \<Rightarrow>
     if host = [] then Some ''empty hostname''
     else if \<not> dvDev V \<and> scheme \<noteq> ''https'' \<and> scheme \<noteq> ''wss''
       then Some ''target URL scheme must be https or wss (set ANS_DEV=1 to allow plaintext)''
     else (case dvLookup V host of None \<Rightarrow> Some ''cannot resolve target host''
       | Some ips \<Rightarrow> (case find (internalIP V) ips of
           Some ip \<Rightarrow> Some (''target URL resolves to a private/loopback address ('' @ ip @ '') '' @ emDash @ '' not allowed'')
         | None \<Rightarrow> None)))"

definition proxyRunning :: "mcp_proxy option \<Rightarrow> bool" where
  "proxyRunning p = (case p of Some q \<Rightarrow> mpRunning q | None \<Rightarrow> False)"

definition mcpConfig :: "fields \<Rightarrow> mcp_proxy" where
  "mcpConfig m = (let p = \<lparr>mpListenAddr = strF m ''listen_addr'', mpTargetURL = strF m ''target_url'', mpRedactPII = False,
       mpRatePerMin = 0, mpTokenBudget = 0, mpRunning = False\<rparr> in
     if boolF m ''safety_disable'' then p
     else p\<lparr>mpRedactPII := (case optBoolF m ''redact_pii'' of Some b \<Rightarrow> b | None \<Rightarrow> True),
       mpRatePerMin := (case optIntF m ''rate_limit'' of Some i \<Rightarrow> i | None \<Rightarrow> 60),
       mpTokenBudget := (case optIntF m ''token_budget'' of Some i \<Rightarrow> i | None \<Rightarrow> 50000)\<rparr>)"

text \<open>\<open>Start\<close> fails when the listener cannot be opened (\<open>dvListen\<close>); the proxy object stays.\<close>

definition handleMCPStart :: "daemon_env \<Rightarrow> bytes \<Rightarrow> Daemon \<Rightarrow> handled" where
  "handleMCPStart V body d = (case decodeStruct MCPStartReq body of
     None \<Rightarrow> failWith (''bad request: '' @ dvErr V BadJson) d
   | Some m \<Rightarrow>
     if strF m ''listen_addr'' = [] \<or> strF m ''target_url'' = [] then failWith ''listen_addr and target_url required'' d
     else (case validateTargetURL V (strF m ''target_url'') of
       Some e \<Rightarrow> failWith (''invalid target_url: '' @ e) d
     | None \<Rightarrow>
       if proxyRunning (dProxy d) then (Ok (MsgMCPStartResp, successResp False ''proxy already running''), d)
       else (case dvListen V of
         Some e \<Rightarrow> (Ok (MsgMCPStartResp, successResp False (''mcp proxy listen: '' @ e)), d\<lparr>dProxy := Some (mcpConfig m)\<rparr>)
       | None \<Rightarrow> (Ok (MsgMCPStartResp, successResp True ''mcp proxy started''), d\<lparr>dProxy := Some ((mcpConfig m)\<lparr>mpRunning := True\<rparr>)\<rparr>))))"

text \<open>
  The handler as it answers once \<open>Stop\<close> has returned. \<open>Stop\<close> itself, with the wait for the proxy's
  connections during which the handler stands still, is \<open>stopBegin\<close> and \<open>stopEnd\<close> of \<open>ProxyLife\<close>.
\<close>

definition handleMCPStop :: "daemon_env \<Rightarrow> Daemon \<Rightarrow> handled" where
  "handleMCPStop V d = (if \<not> proxyRunning (dProxy d) then (Ok (MsgMCPStopResp, successResp False ''proxy not running''), d)
     else (Ok (MsgMCPStopResp, successResp True ''mcp proxy stopped''), d\<lparr>dProxy := None\<rparr>))"

definition zeroStats :: McpStats where
  "zeroStats = \<lparr>TotalMessages = 0, TotalToks = 0, BurnToks = 0, InjectionCount = 0, PrunedCount = 0, PrunedBytes = 0, UptimeSeconds = 0\<rparr>"

definition handleMCPStatus :: "daemon_env \<Rightarrow> Daemon \<Rightarrow> handled" where
  "handleMCPStatus V d = (if \<not> proxyRunning (dProxy d) then (Ok (MsgMCPStatusResp, mcpNotRunning), d)
     else (let s = (case McpGetStats (dvDb V) (dvDb2 V) (dvNow V) (dvUptime V) (dMcpAudit d) of Some s \<Rightarrow> s | None \<Rightarrow> zeroStats)
       in (Ok (MsgMCPStatusResp, MCPStatusResp (dvRate V) (dvUptime V) s), d)))"

definition handleMCPLog :: "daemon_env \<Rightarrow> bytes \<Rightarrow> Daemon \<Rightarrow> handled" where
  "handleMCPLog V body d = (let m = decodeLenient MCPLogReq body; limit = intF m ''limit'';
       res = (if boolF m ''injections_only'' then QueryInjections (dvDb V) limit (dMcpAudit d)
              else if strF m ''method'' \<noteq> [] then QueryByMethod (dvDb V) (strF m ''method'') limit (dMcpAudit d)
              else QueryRecent (dvDb V) limit (dMcpAudit d)) in
     (case res of None \<Rightarrow> failWith (''querying mcp log: '' @ dvErr V (ChErr QueryErr)) d
      | Some es \<Rightarrow> (Ok (MsgMCPLogResp, MCPLogResp es), d)))"

section \<open>Dispatch\<close>

definition hexDigitLower :: "nat \<Rightarrow> char" where
  "hexDigitLower n = char_of (if n < 10 then 48 + n else 87 + n)"

definition dispatch :: "daemon_env \<Rightarrow> Frame \<Rightarrow> Daemon \<Rightarrow> handled" where
  "dispatch V f d = (let t = frType f; b = frBody f in
     if t = MsgSignAppend then handleSignAppend V b d
     else if t = MsgVerify then handleVerify V b d
     else if t = MsgQuery then handleQuery V b d
     else if t = MsgRegister then handleRegister V b d
     else if t = MsgStatus then handleStatus V d
     else if t = MsgSnapshot then handleSnapshot V b d
     else if t = MsgRestore then handleRestore V b d
     else if t = MsgRegisterCompensate then handleRegisterCompensate V b d
     else if t = MsgCompensate then handleCompensate V b d
     else if t = MsgPolicyRegister then handlePolicyRegister V b d
     else if t = MsgPolicyList then handlePolicyList V b d
     else if t = MsgPolicyDelete then handlePolicyDelete V b d
     else if t = MsgPolicyEvaluate then handlePolicyEvaluate V b d
     else if t = MsgTokenRequest then handleTokenRequest V b d
     else if t = MsgTokenRevoke then handleTokenRevoke V b d
     else if t = MsgTokenList then handleTokenList V d
     else if t = MsgMCPStart then handleMCPStart V b d
     else if t = MsgMCPStop then handleMCPStop V d
     else if t = MsgMCPStatus then handleMCPStatus V d
     else if t = MsgMCPLog then handleMCPLog V b d
     else if t = MsgSnapshotList then handleSnapshotList V b d
     else if t = MsgSnapshotDiff then handleSnapshotDiff V b d
     else if t = MsgAuditEvents then handleAuditEvents V b d
     else failWith (''unknown msg type 0x'' @ [hexDigitLower (t div 16), hexDigitLower (t mod 16)]) d)"

text \<open>\<open>writeOK\<close>: a reply that does not fit a frame is only logged, so nothing is sent.\<close>

definition writeOK :: "reply \<Rightarrow> bytes" where
  "writeOK r = (case WriteJSON (fst r) (snd r) of Some w \<Rightarrow> w | None \<Rightarrow> [])"

definition handleFrame :: "daemon_env \<Rightarrow> Frame \<Rightarrow> Daemon \<Rightarrow> (unit, bytes) go \<times> Daemon" where
  "handleFrame V f d = (if frType f = MsgPing then (Ok (case WriteFrame MsgPong [] of Some w \<Rightarrow> w | None \<Rightarrow> []), d)
     else (case dispatch V f d of (Ok r, d1) \<Rightarrow> (Ok (writeOK r), d1) | (_, d1) \<Rightarrow> (Panic, d1)))"

lemma ReadFrame_shrinks: "ReadFrame s = Inr (f, rest) \<Longrightarrow> length rest < length s"
  by (auto simp: ReadFrame_def Let_def split: if_splits)

text \<open>
  \<open>Handle\<close>: frames are read and answered until the input ends, is malformed or the deadline
  passes; \<open>V n\<close> is what the \<open>n\<close>-th request reads from outside. The result is what was written,
  \<open>Panic\<close> when the process died.
\<close>

function Handle :: "(nat \<Rightarrow> daemon_env) \<Rightarrow> nat \<Rightarrow> bytes \<Rightarrow> Daemon \<Rightarrow> (unit, bytes) go \<times> Daemon" where
  "Handle V n s d = (case ReadFrame s of
     Inl e \<Rightarrow> (Ok [], d)
   | Inr (f, rest) \<Rightarrow> (case handleFrame (V n) f d of
       (Ok w, d1) \<Rightarrow> (case Handle V (n + 1) rest d1 of (Ok ws, d2) \<Rightarrow> (Ok (w @ ws), d2) | (x, d2) \<Rightarrow> (Panic, d2))
     | (x, d1) \<Rightarrow> (Panic, d1)))"
  by pat_completeness auto
termination
  by (relation "measure (\<lambda>(V, n, s, d). length s)") (auto simp: ReadFrame_shrinks)

declare Handle.simps [simp del]

end
