(* ===== verification/JsonUtf8.thy ===== *)
theory JsonUtf8
  imports GoStruct
begin

text \<open>
  Decoding repairs text: every string that \<open>json.Unmarshal\<close> stores in a struct field is valid
  UTF-8, and every integer fits its type. Requests therefore need no assumption on their text;
  only what a handler cuts afterwards does.
\<close>

section \<open>Valid text\<close>

lemma validUtf8_append: "validUtf8 s \<Longrightarrow> validUtf8 t \<Longrightarrow> validUtf8 (s @ t)"
proof (induction s rule: validUtf8.induct)
  case (1 s)
  show ?case
  proof (cases "s = []")
    case False
    then obtain n where n: "utf8Len s = Some n" "validUtf8 (drop n s)"
      using "1.prems"(1) by (subst (asm) validUtf8.simps) (auto split: option.splits)
    then have "validUtf8 (drop n s @ t)" using "1.IH" [OF False n(1)] "1.prems"(2) by simp
    then show ?thesis
      using n(1) utf8Len_pos [OF n(1)] by (subst validUtf8.simps) (simp add: utf8Len_append)
  qed (use "1.prems" in simp)
qed

lemma validUtf8_rune: "utf8Len s = Some n \<Longrightarrow> validUtf8 (take n s)"
  by (subst validUtf8.simps) (simp add: utf8Len_take)

lemma validUtf8_replacement [simp]: "validUtf8 [CHR 0xEF, CHR 0xBF, CHR 0xBD]"
  by code_simp

lemma byte_char: "n < 256 \<Longrightarrow> byte (char_of n) = n"
  by simp

lemma validUtf8_encodeRune: "validUtf8 (encodeRune r)"
proof -
  consider "r < 128" | "128 \<le> r" "r < 2048" | "(55296 \<le> r \<and> r \<le> 57343) \<or> 1114111 < r"
    | "2048 \<le> r" "r < 65536" "\<not> (55296 \<le> r \<and> r \<le> 57343)" | "65536 \<le> r" "r \<le> 1114111" by linarith
  then show ?thesis
  proof cases
    case 1
    then show ?thesis by (auto simp: encodeRune_def intro!: validUtf8_ascii)
  next
    case 2
    let ?s = "[char_of (192 + r div 64), char_of (128 + r mod 64)] :: string"
    have b: "byte (char_of (192 + r div 64)) = 192 + r div 64" "byte (char_of (128 + r mod 64)) = 128 + r mod 64"
      using 2 by (auto intro!: byte_char simp: less_mult_imp_div_less)
    have "2 \<le> r div 64" "r div 64 < 32" using 2 by (simp_all add: less_mult_imp_div_less less_eq_div_iff_mult_less_eq)
    then have "utf8Len ?s = Some 2" using b by (auto simp: utf8Len.simps cont_def)
    then show ?thesis using 2 validUtf8_rune [of ?s 2] by (simp add: encodeRune_def)
  next
    case 3
    then show ?thesis by (auto simp: encodeRune_def)
  next
    case 4
    let ?s = "[char_of (224 + r div 4096), char_of (128 + r div 64 mod 64), char_of (128 + r mod 64)] :: string"
    have d: "r div 4096 < 16" using 4 by (simp add: less_mult_imp_div_less)
    have b: "byte (char_of (224 + r div 4096)) = 224 + r div 4096" "byte (char_of (128 + r div 64 mod 64)) = 128 + r div 64 mod 64"
      "byte (char_of (128 + r mod 64)) = 128 + r mod 64"
      using d by (auto intro!: byte_char)
    have q: "r div 4096 = r div 64 div 64" by (simp flip: div_mult2_eq)
    have e: "r = r div 64 * 64 + r mod 64" "r div 64 = r div 64 div 64 * 64 + r div 64 mod 64" "r mod 64 < 64" by simp_all
    have "32 \<le> r div 64 mod 64" if "r div 4096 = 0" using 4 that e unfolding q by linarith
    moreover have "r div 64 mod 64 \<le> 31" if "r div 4096 = 13"
    proof -
      have "r < 57344" using that e(1) dividend_less_times_div [of 4096 r] by simp
      then show ?thesis using 4 that e unfolding q by linarith
    qed
    ultimately have "utf8Len ?s = Some 3" using d b by (auto simp: utf8Len.simps cont_def)
    then show ?thesis using 4 validUtf8_rune [of ?s 3] by (auto simp: encodeRune_def)
  next
    case 5
    let ?s = "[char_of (240 + r div 262144), char_of (128 + r div 4096 mod 64), char_of (128 + r div 64 mod 64), char_of (128 + r mod 64)] :: string"
    have d: "r div 262144 < 5" using 5 by (simp add: less_mult_imp_div_less)
    have b: "byte (char_of (240 + r div 262144)) = 240 + r div 262144" "byte (char_of (128 + r div 4096 mod 64)) = 128 + r div 4096 mod 64"
      "byte (char_of (128 + r div 64 mod 64)) = 128 + r div 64 mod 64" "byte (char_of (128 + r mod 64)) = 128 + r mod 64"
      using d by (auto intro!: byte_char)
    have q: "r div 262144 = r div 4096 div 64" by (simp flip: div_mult2_eq)
    have e: "r = r div 4096 * 4096 + r mod 4096" "r div 4096 = r div 4096 div 64 * 64 + r div 4096 mod 64" "r mod 4096 < 4096" by simp_all
    have "16 \<le> r div 4096 mod 64" if "r div 262144 = 0" using 5 that e unfolding q by linarith
    moreover have "r div 4096 mod 64 \<le> 15" if "r div 262144 = 4" using 5 that e unfolding q by linarith
    ultimately have "utf8Len ?s = Some 4" using d b by (auto simp: utf8Len.simps cont_def)
    then show ?thesis using 5 validUtf8_rune [of ?s 4] by (auto simp: encodeRune_def)
  qed
qed

lemma unicodeEscape_utf8: "unicodeEscape s = Some (r, n) \<Longrightarrow> validUtf8 r"
  by (auto simp: unicodeEscape_def validUtf8_encodeRune split: option.splits if_splits list.splits)

lemma unescape_ascii: "unescape e = Some x \<Longrightarrow> byte x < 128"
  by (auto simp: unescape_def split: if_splits)

section \<open>Decoded strings\<close>

lemma unquote_utf8: "unquote s = Some (t, rest) \<Longrightarrow> validUtf8 t"
proof (induction s arbitrary: t rest rule: unquote.induct)
  case (1 s)
  obtain c cs where s: "s = c # cs" using "1.prems" by (subst (asm) unquote.simps) (auto split: list.splits)
  show ?case
  proof (cases "c = quote")
    case True
    then show ?thesis using "1.prems" s by (subst (asm) unquote.simps) simp
  next
    case nq: False
    show ?thesis
    proof (cases "c = bslash")
      case True
      then obtain e ds where e: "cs = e # ds" using "1.prems" s by (subst (asm) unquote.simps) (auto split: list.splits)
      show ?thesis
      proof (cases "e = CHR ''u''")
        case u: True
        then obtain r n t' where "unicodeEscape ds = Some (r, n)" "unquote (drop n ds) = Some (t', rest)" "t = r @ t'"
          using "1.prems" s True e by (subst (asm) unquote.simps) (auto split: option.splits)
        then show ?thesis
          using "1.IH"(1) [OF s nq True e u _ refl] unicodeEscape_utf8 validUtf8_append by blast
      next
        case u: False
        then obtain x t' where "unescape e = Some x" "unquote ds = Some (t', rest)" "t = x # t'"
          using "1.prems" s True e by (subst (asm) unquote.simps) (auto split: option.splits)
        then show ?thesis
          using "1.IH"(2) [OF s nq True e u] validUtf8_append [of "[x]" t'] validUtf8_ascii [of "[x]"] unescape_ascii [of e x]
          by auto
      qed
    next
      case nb: False
      have ge: "\<not> byte c < 32" using "1.prems" s nq nb by (subst (asm) unquote.simps) (auto split: if_splits)
      show ?thesis
      proof (cases "utf8Len s")
        case None
        then obtain t' where "unquote cs = Some (t', rest)" "t = [CHR 0xEF, CHR 0xBF, CHR 0xBD] @ t'"
          using "1.prems" s nq nb ge by (subst (asm) unquote.simps) auto
        then show ?thesis
          using "1.IH"(3) [OF s nq nb ge None] validUtf8_append [OF validUtf8_replacement] by auto
      next
        case (Some n)
        then obtain t' where "unquote (drop n s) = Some (t', rest)" "t = take n s @ t'"
          using "1.prems" s nq nb ge by (subst (asm) unquote.simps) auto
        then show ?thesis
          using "1.IH"(4) [OF s nq nb ge Some] validUtf8_append [OF validUtf8_rune [OF Some]] by auto
      qed
    qed
  qed
qed

fun textOk :: "json \<Rightarrow> bool" where
  "textOk (JStr s) = validUtf8 s"
| "textOk (JArr vs) = list_all textOk vs"
| "textOk (JObj ms) = list_all (\<lambda>(k, v). textOk v) ms"
| "textOk _ = True"

lemma parse_textOk:
  "parseValue n d s = Some (v, rest) \<Longrightarrow> textOk v"
  "parseElems n d s = Some (vs, rest) \<Longrightarrow> list_all textOk vs"
  "parseMembers n d s = Some (ms, rest) \<Longrightarrow> list_all (\<lambda>(k, v). textOk v) ms"
proof (induction n d s and n d s and n d s arbitrary: v rest and vs rest and ms rest rule: parseValue_parseElems_parseMembers.induct)
  case (2 n d s)
  then show ?case
    by (auto split: list.splits if_splits option.splits dest: unquote_utf8)
next
  case (4 n d s)
  then show ?case by (auto split: list.splits if_splits option.splits)
next
  case (6 n d s)
  then show ?case by (auto split: list.splits if_splits option.splits)
qed simp_all

lemma jsonParse_textOk: "jsonParse s = Some v \<Longrightarrow> textOk v"
  by (auto simp: jsonParse_def simp del: parseValue.simps split: option.splits if_splits dest: parse_textOk(1))

section \<open>Decoded fields\<close>

definition fieldsOk :: "fields \<Rightarrow> bool" where
  "fieldsOk m \<longleftrightarrow> (\<forall>k s. m k = Some (FStr s) \<longrightarrow> validUtf8 s) \<and> (\<forall>k i. m k = Some (FInt i) \<longrightarrow> in_i64 i)"

lemma parseI64_in: "parseI64 t = Some i \<Longrightarrow> in_i64 i"
  by (auto simp: parseI64_def Let_def split: list.splits if_splits)

lemma decodeField_ok:
  assumes "decodeField kd old v = Some x" and "textOk v" and "fieldsOk m"
  shows "fieldsOk (m(f \<mapsto> x))"
  using assms by (auto simp: decodeField_def fieldsOk_def parseI64_in split: fkind.splits json.splits)

lemma decodeMembers_ok: "decodeMembers sch ms m = Some m' \<Longrightarrow> list_all (\<lambda>(k, v). textOk v) ms \<Longrightarrow> fieldsOk m \<Longrightarrow> fieldsOk m'"
proof (induction sch ms m rule: decodeMembers.induct)
  case (2 sch k v ms m)
  have nl: "fieldsOk (m(f := None))" for f using "2.prems"(3) by (auto simp: fieldsOk_def)
  show ?case
  proof (cases "matchField (map fst sch) k")
    case None
    then show ?thesis using 2 by simp
  next
    case (Some f)
    then obtain kd where kd: "map_of sch f = Some kd" using "2.prems"(1) by (auto split: option.splits)
    show ?thesis
    proof (cases "v = JNull")
      case True
      then show ?thesis using "2.IH"(2) [OF Some kd True] "2.prems" Some kd nl by (auto split: if_splits)
    next
      case False
      then obtain x where x: "decodeField kd (m f) v = Some x" using "2.prems"(1) Some kd by (auto split: option.splits)
      then have "fieldsOk (m(f \<mapsto> x))" using decodeField_ok [OF x] "2.prems" by simp
      then show ?thesis using "2.IH"(3) [OF Some kd False x] "2.prems" Some kd False x
        by (simp del: fun_upd_apply)
    qed
  qed
qed simp

lemma decodeStruct_ok:
  assumes "decodeStruct sch raw = Some m"
  shows "fieldsOk m"
proof -
  have e: "fieldsOk Map.empty" by (simp add: fieldsOk_def)
  show ?thesis
    using assms e decodeMembers_ok [OF _ _ e] jsonParse_textOk
    by (force simp: decodeStruct_def split: option.splits json.splits)
qed

lemma strF_utf8: "fieldsOk m \<Longrightarrow> validUtf8 (strF m k)"
  by (auto simp: strF_def fieldsOk_def split: option.split fval.split)

lemma intF_in: "fieldsOk m \<Longrightarrow> in_i64 (intF m k)"
  by (auto simp: intF_def fieldsOk_def in_i64_def split: option.split fval.split)

end
