(* ===== verification/DaemonProps.thy ===== *)
theory DaemonProps
  imports Handlers JsonUtf8
begin

text \<open>
  What the daemon guarantees across its components: an append happens only for an allowed
  action of a known agent and adds one receipt; whatever requests arrive, the chain stays
  verifiable and only allowed commands are run; and the interactions that go wrong.
\<close>

section \<open>What the handlers leave alone\<close>

lemma evaluate_simps [simp]:
  "dChain (snd (evaluate V f d)) = dChain d" "dKeystore (snd (evaluate V f d)) = dKeystore d"
  "dRan (snd (evaluate V f d)) = dRan d" "dPolicies (snd (evaluate V f d)) = dPolicies d" "dAudit (snd (evaluate V f d)) = dAudit d"
  "dNDJSON (snd (evaluate V f d)) = dNDJSON d" "dHooks (snd (evaluate V f d)) = dHooks d"
  by (simp_all add: evaluate_def case_prod_beta)

lemma afterAppend_simps [simp]:
  "dChain (snd (afterAppend V raw d)) = dChain d" "dKeystore (snd (afterAppend V raw d)) = dKeystore d"
  "dRan (snd (afterAppend V raw d)) = dRan d"
  by (simp_all add: afterAppend_def Let_def split: go.split option.split)

lemma afterAppend_hooks:
  "dHooks (snd (afterAppend V raw d)) = dHooks d \<or> dHooks (snd (afterAppend V raw d)) = dHooks d @ [raw]"
  by (simp add: afterAppend_def Let_def split: go.split)

lemma failWith_simps [simp]: "fst (failWith m d) = Ok (MsgError, ErrorResp m)" "snd (failWith m d) = d"
  by (simp_all add: failWith_def)

text \<open>A request that gets as far as the append.\<close>

lemma handleSignAppend_append:
  assumes "decodeStruct SignAppendReq body = Some m" "signAppendInvalid m = None"
    and ev: "evaluate V (requestFacts m) d = (res, d1)" and "Allowed res"
    and "Load (dvCrypto V) (dvAead V) (dvKs V) (strF m ''agent_id'') (dKeystore d) = (Inr agent, ks)"
    and "AppendNew (dvCrypto V) (buildReceipt (dvCrypto V) (dvNow V) m) (agPrivateKey agent) (dvWall V) (dvDb V) (dChain d) = (x, c)"
  shows "handleSignAppend V body d = (case x of
         Panic \<Rightarrow> (Panic, d1\<lparr>dKeystore := ks, dChain := c\<rparr>)
       | Err e \<Rightarrow> failWith (''append failed: '' @ dvErr V (ChErr e)) (d1\<lparr>dKeystore := ks, dChain := c\<rparr>)
       | Ok r \<Rightarrow> (case afterAppend V (RawJSON r) (d1\<lparr>dKeystore := ks, dChain := c\<rparr>) of
            (Ok _, d3) \<Rightarrow> (Ok (MsgSignAppendResp, SignAppendResp (ReceiptID r) (ChainIndex r) (fst (ComputeHash (dvCrypto V) r)) (Signature r)), d3)
          | (_, d3) \<Rightarrow> (Panic, d3)))"
proof -
  have "dKeystore d1 = dKeystore d" "dChain d1 = dChain d"
    using evaluate_simps(1,2) [of V "requestFacts m" d] ev by simp_all
  then show ?thesis using assms by (cases x) (simp_all add: handleSignAppend_def Let_def)
qed

text \<open>The stages of \<open>handleSignAppend\<close>, one rule per outcome.\<close>

lemma signAppend_cases:
  obtains
    (rejected) e where "fst (handleSignAppend V body d) = Ok (MsgError, ErrorResp e)" "snd (handleSignAppend V body d) = d"
  | (denied) m res d1 where "decodeStruct SignAppendReq body = Some m" "signAppendInvalid m = None"
      "evaluate V (requestFacts m) d = (res, d1)" "\<not> Allowed res"
      "handleSignAppend V body d = (Ok (denyReply res), d1)"
  | (unknown) m res d1 e ks where "decodeStruct SignAppendReq body = Some m"
      "evaluate V (requestFacts m) d = (res, d1)"
      "Load (dvCrypto V) (dvAead V) (dvKs V) (strF m ''agent_id'') (dKeystore d) = (Inl e, ks)"
      "handleSignAppend V body d = failWith (''agent not found: '' @ dvErr V (KsErr e)) (d1\<lparr>dKeystore := ks\<rparr>)"
  | (loaded) m res d1 agent ks x c where "decodeStruct SignAppendReq body = Some m" "signAppendInvalid m = None"
      "evaluate V (requestFacts m) d = (res, d1)" "Allowed res"
      "Load (dvCrypto V) (dvAead V) (dvKs V) (strF m ''agent_id'') (dKeystore d) = (Inr agent, ks)"
      "AppendNew (dvCrypto V) (buildReceipt (dvCrypto V) (dvNow V) m) (agPrivateKey agent) (dvWall V) (dvDb V) (dChain d) = (x, c)"
      "handleSignAppend V body d = (case x of
         Panic \<Rightarrow> (Panic, d1\<lparr>dKeystore := ks, dChain := c\<rparr>)
       | Err e \<Rightarrow> failWith (''append failed: '' @ dvErr V (ChErr e)) (d1\<lparr>dKeystore := ks, dChain := c\<rparr>)
       | Ok r \<Rightarrow> (case afterAppend V (RawJSON r) (d1\<lparr>dKeystore := ks, dChain := c\<rparr>) of
            (Ok _, d3) \<Rightarrow> (Ok (MsgSignAppendResp, SignAppendResp (ReceiptID r) (ChainIndex r) (fst (ComputeHash (dvCrypto V) r)) (Signature r)), d3)
          | (_, d3) \<Rightarrow> (Panic, d3)))"
proof -
  show thesis
  proof (cases "decodeStruct SignAppendReq body")
    case None
    then show ?thesis using rejected by (simp add: handleSignAppend_def)
  next
    case (Some m)
    note dec = Some
    let ?f = "requestFacts m"
    obtain res d1 where ev: "evaluate V ?f d = (res, d1)" by (metis prod.exhaust)
    then have k: "dKeystore d1 = dKeystore d" "dChain d1 = dChain d"
      using evaluate_simps(1,2) [of V ?f d] by simp_all
    show ?thesis
    proof (cases "signAppendInvalid m")
      case (Some e)
      then show ?thesis using dec rejected by (simp add: handleSignAppend_def)
    next
      case None
      note inv = None
      show ?thesis
      proof (cases "Allowed res")
        case False
        then show ?thesis using denied [OF dec inv ev] by (simp add: handleSignAppend_def dec inv ev)
      next
        case True
        obtain a ks where ld: "Load (dvCrypto V) (dvAead V) (dvKs V) (strF m ''agent_id'') (dKeystore d) = (a, ks)" by (metis prod.exhaust)
        show ?thesis
        proof (cases a)
          case (Inl e)
          then show ?thesis using unknown [OF dec ev] ld True by (simp add: handleSignAppend_def dec inv ev k)
        next
          case (Inr agent)
          obtain x c where ap: "AppendNew (dvCrypto V) (buildReceipt (dvCrypto V) (dvNow V) m) (agPrivateKey agent) (dvWall V) (dvDb V) (dChain d) = (x, c)"
            by (metis prod.exhaust)
          note ld' = ld [unfolded Inr]
          show ?thesis by (rule loaded [OF dec inv ev True ld' ap handleSignAppend_append [OF dec inv ev True ld' ap]])
        qed
      qed
    qed
  qed
qed

text \<open>What a sign-append request can change. It starts at most one webhook goroutine.\<close>

lemma signAppend_hooks:
  "\<exists>hs. dHooks (snd (handleSignAppend V body d)) = dHooks d @ hs \<and> length hs \<le> 1"
proof -
  have ev: "dHooks d1 = dHooks d" if "evaluate V f d = (res, d1)" for f res d1
    using evaluate_simps(7) [of V f d] that by simp
  show ?thesis
  proof (cases rule: signAppend_cases [of V body d])
    case (denied m res d1)
    then show ?thesis using ev [OF denied(3)] by simp
  next
    case (unknown m res d1 e ks)
    then show ?thesis using ev [OF unknown(2)] by simp
  next
    case (loaded m res d1 agent ks x c)
    let ?d2 = "d1\<lparr>dKeystore := ks, dChain := c\<rparr>"
    show ?thesis
    proof (cases x)
      case (Ok r)
      obtain y d3 where y: "afterAppend V (RawJSON r) ?d2 = (y, d3)" by (metis prod.exhaust)
      have "snd (handleSignAppend V body d) = d3" using loaded(7) Ok y by (simp split: go.split)
      then show ?thesis using afterAppend_hooks [of V "RawJSON r" ?d2] y ev [OF loaded(3)] by auto
    qed (use loaded(7) ev [OF loaded(3)] in simp_all)
  qed simp
qed

lemma signAppend_final:
  fixes V body d
  defines "d' \<equiv> snd (handleSignAppend V body d)"
  shows "dRan d' = dRan d"
    and "dKeystore d' = dKeystore d \<or> (\<exists>i. dKeystore d' = snd (Load (dvCrypto V) (dvAead V) (dvKs V) i (dKeystore d)))"
    and "dChain d' = dChain d \<or> (\<exists>m agent ks x. decodeStruct SignAppendReq body = Some m \<and>
       Load (dvCrypto V) (dvAead V) (dvKs V) (strF m ''agent_id'') (dKeystore d) = (Inr agent, ks) \<and>
       AppendNew (dvCrypto V) (buildReceipt (dvCrypto V) (dvNow V) m) (agPrivateKey agent) (dvWall V) (dvDb V) (dChain d) = (x, dChain d'))"
proof -
  have ev: "dRan d1 = dRan d" "dKeystore d1 = dKeystore d" "dChain d1 = dChain d" if "evaluate V f d = (res, d1)" for f res d1
    using evaluate_simps(1-3) [of V f d] that by simp_all
  have "dRan d' = dRan d \<and>
    (dKeystore d' = dKeystore d \<or> (\<exists>i. dKeystore d' = snd (Load (dvCrypto V) (dvAead V) (dvKs V) i (dKeystore d)))) \<and>
    (dChain d' = dChain d \<or> (\<exists>m agent ks x. decodeStruct SignAppendReq body = Some m \<and>
       Load (dvCrypto V) (dvAead V) (dvKs V) (strF m ''agent_id'') (dKeystore d) = (Inr agent, ks) \<and>
       AppendNew (dvCrypto V) (buildReceipt (dvCrypto V) (dvNow V) m) (agPrivateKey agent) (dvWall V) (dvDb V) (dChain d) = (x, dChain d')))"
  proof (cases rule: signAppend_cases [of V body d])
    case (rejected e)
    then show ?thesis by (simp add: d'_def)
  next
    case (denied m res d1)
    then show ?thesis using ev [OF denied(3)] by (simp add: d'_def)
  next
    case (unknown m res d1 e ks)
    then have "dRan d' = dRan d \<and> dChain d' = dChain d \<and> dKeystore d' = snd (Load (dvCrypto V) (dvAead V) (dvKs V) (strF m ''agent_id'') (dKeystore d))"
      using ev [OF unknown(2)] by (simp add: d'_def)
    then show ?thesis by metis
  next
    case (loaded m res d1 agent ks x c)
    let ?d2 = "d1\<lparr>dKeystore := ks, dChain := c\<rparr>"
    have "dRan d' = dRan d \<and> dKeystore d' = ks \<and> dChain d' = c"
    proof (cases x)
      case (Ok r)
      obtain y d3 where y: "afterAppend V (RawJSON r) ?d2 = (y, d3)" by (metis prod.exhaust)
      have "d' = d3" using loaded(7) Ok y by (simp add: d'_def split: go.split)
      then show ?thesis using afterAppend_simps [of V "RawJSON r" ?d2] y ev [OF loaded(3)] by simp
    qed (use loaded(7) ev [OF loaded(3)] in \<open>simp_all add: d'_def\<close>)
    moreover have "ks = snd (Load (dvCrypto V) (dvAead V) (dvKs V) (strF m ''agent_id'') (dKeystore d))" using loaded(5) by simp
    ultimately show ?thesis using loaded(1,5,6) by metis
  qed
  then show "dRan d' = dRan d"
    "dKeystore d' = dKeystore d \<or> (\<exists>i. dKeystore d' = snd (Load (dvCrypto V) (dvAead V) (dvKs V) i (dKeystore d)))"
    "dChain d' = dChain d \<or> (\<exists>m agent ks x. decodeStruct SignAppendReq body = Some m \<and>
       Load (dvCrypto V) (dvAead V) (dvKs V) (strF m ''agent_id'') (dKeystore d) = (Inr agent, ks) \<and>
       AppendNew (dvCrypto V) (buildReceipt (dvCrypto V) (dvNow V) m) (agPrivateKey agent) (dvWall V) (dvDb V) (dChain d) = (x, dChain d'))"
    by blast+
qed

section \<open>Appending through the daemon\<close>

lemma buildReceipt_Inr:
  "\<exists>r. buildReceipt C now m p i = Inr r \<and> AgentID r = strF m ''agent_id'' \<and> ActionType r = strF m ''action_type'' \<and>
     Phase r = (if strF m ''phase'' = ''pre'' then ''pre'' else ''post'') \<and> ChainIndex r = i \<and> PrevReceiptHash r = p"
  by (simp add: buildReceipt_def Let_def PreAction_def PostAction_def NewBuilder_def WithParent_def PhasePre_def PhasePost_def)

lemma signAppendInvalid_phase: "signAppendInvalid m = None \<Longrightarrow> strF m ''phase'' \<in> {''pre'', ''post''}"
  by (auto simp: signAppendInvalid_def Let_def split: if_splits)

lemma AppendNew_receipts:
  assumes "AppendNew C f priv wall fault c = (x, c')"
  shows "is_Ok x \<or> receipts (db c') = receipts (db c)"
  using AppendNew_not_Ok [OF assms] by (cases "is_Ok x") auto

lemma AppendNew_row:
  assumes "AppendNew C (buildReceipt C now m) priv wall fault c = (Ok r, c')"
  shows "receipts (db c') = receipts (db c) @ [storedRow C (bare r)] \<and> chain_index (storedRow C (bare r)) = uint (lastIdx c + 1) \<and>
     agent_id (storedRow C (bare r)) = strF m ''agent_id'' \<and> action_type (storedRow C (bare r)) = strF m ''action_type'' \<and>
     phase (storedRow C (bare r)) = (if strF m ''phase'' = ''pre'' then ''pre'' else ''post'') \<and> ChainIndex r = lastIdx c + 1 \<and>
     raw_receipt (storedRow C (bare r)) = RawJSON r"
proof (rule AppendNew_Ok [OF assms])
  fix s b
  assume b: "buildReceipt C now m (lastHash c) (lastIdx c + 1) = Inr b"
    and s: "Sign C priv (b\<lparr>TimestampNS := fst (Now wall (hlc c))\<rparr>) = (Ok s :: (chain_error, Receipt) go)"
    and r: "r = s\<lparr>cachedRaw := marshalReceipt s, cachedHash := hashHex C (marshalReceipt s)\<rparr>"
    and ix: "ChainIndex s = lastIdx c + 1"
    and c': "c' = c\<lparr>hlc := snd (Now wall (hlc c)), db := (db c)\<lparr>receipts := receipts (db c) @ [storedRow C s]\<rparr>,
       lastIdx := lastIdx c + 1, lastHash := hashHex C (marshalReceipt s)\<rparr>"
  have "bare r = s" using r Sign_Ok(4) [OF s] by (simp add: bare_def)
  moreover have "AgentID s = AgentID b" "Phase s = Phase b" "ActionType s = ActionType b"
    using Sign_Ok(8,9) [OF s] s by (auto simp: Sign_def Let_def split: go.splits if_splits)
  ultimately show ?thesis
    using buildReceipt_Inr [of C now m "lastHash c" "lastIdx c + 1"] b ix c' r
    by (auto simp: storedRow_def receiptRow_def RawJSON_def Let_def)
qed

lemma afterAppend_effect:
  assumes "afterAppend V raw d = (Ok u, d3)"
  shows "recordAuditEvent (dvNow V) ''receipt-chain'' ''COMMIT'' ''receipt appended'' (dAudit d) = Ok (dAudit d3) \<and>
    dNDJSON d3 = map_option (\<lambda>out. out @ ndjsonLine raw) (dNDJSON d)"
  using assms by (auto simp: afterAppend_def Let_def split: go.splits if_splits option.splits)

text \<open>
  C6. What a client's append does. When the daemon answers a sign-append request with success,
  the policies allowed the action, the agent's key was loaded, and exactly one receipt was
  added at the end of the chain, with the next index and the agent, action type and phase of
  the request; its line was handed to the NDJSON writer, when there is one, and the append was
  recorded in the audit ring. After any other answer receipts, stream and ring are what they were.
\<close>

theorem sign_append_effect:
  assumes "handleSignAppend V body d = (Ok (t, reply), d')"
  shows "if t = MsgSignAppendResp then
      (\<exists>m agent row. decodeStruct SignAppendReq body = Some m \<and> Allowed (fst (evaluate V (requestFacts m) d)) \<and>
         fst (Load (dvCrypto V) (dvAead V) (dvKs V) (strF m ''agent_id'') (dKeystore d)) = Inr agent \<and>
         receipts (db (dChain d')) = receipts (db (dChain d)) @ [row] \<and>
         chain_index row = uint (lastIdx (dChain d) + 1) \<and> agent_id row = strF m ''agent_id'' \<and>
         action_type row = strF m ''action_type'' \<and> phase row = strF m ''phase'' \<and>
         dNDJSON d' = map_option (\<lambda>out. out @ ndjsonLine (raw_receipt row)) (dNDJSON d) \<and>
         recordAuditEvent (dvNow V) ''receipt-chain'' ''COMMIT'' ''receipt appended'' (dAudit d) = Ok (dAudit d'))
    else receipts (db (dChain d')) = receipts (db (dChain d)) \<and> dNDJSON d' = dNDJSON d \<and> dAudit d' = dAudit d"
proof (cases rule: signAppend_cases [of V body d])
  case (rejected e)
  then show ?thesis using assms by (simp add: MsgError_def MsgSignAppendResp_def)
next
  case (denied m res d1)
  then have "dChain d' = dChain d" "dNDJSON d' = dNDJSON d" "dAudit d' = dAudit d" "t \<noteq> MsgSignAppendResp"
    using assms evaluate_simps [of V "requestFacts m" d]
    by (auto simp: denyReply_def MsgError_def MsgNociceptionError_def MsgSignAppendResp_def split: option.splits)
  then show ?thesis by simp
next
  case (unknown m res d1 e ks)
  then show ?thesis
    using assms evaluate_simps [of V "requestFacts m" d] by (auto simp: failWith_def MsgError_def MsgSignAppendResp_def)
next
  case (loaded m res d1 agent ks x c)
  have ev: "dNDJSON d1 = dNDJSON d" "dAudit d1 = dAudit d" using evaluate_simps [of V "requestFacts m" d] loaded(3) by simp_all
  show ?thesis
  proof (cases x)
    case (Ok r)
    obtain y d3 where y: "afterAppend V (RawJSON r) (d1\<lparr>dKeystore := ks, dChain := c\<rparr>) = (y, d3)" by (metis prod.exhaust)
    then have "dChain d3 = c" using afterAppend_simps(1) [of V "RawJSON r" "d1\<lparr>dKeystore := ks, dChain := c\<rparr>"] by simp
    moreover have "t = MsgSignAppendResp \<and> d' = d3" using assms loaded(7) Ok y by (auto split: go.splits)
    moreover have "strF m ''phase'' \<in> {''pre'', ''post''}" using loaded(2) by (rule signAppendInvalid_phase)
    moreover obtain u where "y = Ok u" using assms loaded(7) Ok y by (cases y) auto
    then have "recordAuditEvent (dvNow V) ''receipt-chain'' ''COMMIT'' ''receipt appended'' (dAudit d) = Ok (dAudit d3)"
      "dNDJSON d3 = map_option (\<lambda>out. out @ ndjsonLine (RawJSON r)) (dNDJSON d)"
      using afterAppend_effect [of V "RawJSON r" "d1\<lparr>dKeystore := ks, dChain := c\<rparr>" u d3] y ev by simp_all
    ultimately show ?thesis
      using loaded(1,3,4,5) AppendNew_row [OF loaded(6) [unfolded Ok]] by auto
  next
    case (Err e)
    then show ?thesis using assms loaded AppendNew_receipts [OF loaded(6)] ev by (auto simp: failWith_def MsgError_def MsgSignAppendResp_def)
  next
    case Panic
    then show ?thesis using assms loaded by simp
  qed
qed

section \<open>Where requests interfere\<close>

lemma AppendNew_no_key:
  assumes "buildFn (lastHash c) (lastIdx c + 1) = Inr b" "ChainIndex b = lastIdx c + 1" "PrevReceiptHash b = lastHash c" "length priv \<noteq> 64"
  shows "fst (AppendNew C buildFn priv wall fault c) = Panic"
  using assms by (simp add: AppendNew_def Sign_def ed25519Sign_def Let_def split: prod.split)

lemma handleRegister_Ok:
  assumes "handleRegister V body d = (Ok (MsgRegisterResp, reply), d1)" "decodeStruct RegisterReq body = Some m"
  obtains a ks where "registeredAgent V m = Inr a" "Save (dvAead V) (dvKs V) a (dKeystore d) = (None, ks)"
    "d1 = d\<lparr>dKeystore := ks\<rparr>" "reply = RegisterResp (agID a)"
  using assms by (auto simp: handleRegister_def failWith_def MsgError_def MsgRegisterResp_def split: option.splits sum.splits prod.splits)

lemma registeredAgent_public:
  assumes "registeredAgent V m = Inr a" "strF m ''public_key_hex'' \<noteq> []"
  shows "agPrivateKey a = []" "agName a = strF m ''name''" "agVersion a = strF m ''version''" "agOwner a = strF m ''owner''"
  using assms by (auto simp: registeredAgent_def NewFromKeys_def Let_def split: if_splits option.splits)

lemma sanitized_utf8: "sanitizeAgentID i = None \<Longrightarrow> validUtf8 i"
  by (auto simp: sanitizeAgentID_def agentIDSafe_def idChar_def Let_def list_all_iff intro!: validUtf8_ascii split: if_splits)

text \<open>
  C37. Registering a public key disarms its agent, and the next append ends the daemon. After a
  registration with \<open>public_key_hex\<close> succeeds (the identifier is derived from the key, so
  naming the key of an agent that already has its private key stored replaces that file),
  any well-formed sign-append request of that agent that the policies allow makes the daemon
  panic in \<open>ed25519.Sign\<close>.
\<close>

theorem public_key_registration_panics:
  assumes "handleRegister V body d = (Ok (MsgRegisterResp, RegisterResp (strF q ''agent_id'')), d1)"
    and "decodeStruct RegisterReq body = Some m" and "strF m ''public_key_hex'' \<noteq> []"
    and "aead_ok (dvAead V)" and "kvNonce (dvKs V) = Some n" and "length n = nonceSize"
    and "dvCrypto W = dvCrypto V" and "dvAead W = dvAead V" and "\<not> kvReadErr (dvKs W)"
    and "decodeStruct SignAppendReq req = Some q" and "signAppendInvalid q = None" and "Allowed (fst (evaluate W (requestFacts q) d1))"
  shows "fst (handleSignAppend W req d1) = Panic"
proof -
  obtain a ks where a: "registeredAgent V m = Inr a" "Save (dvAead V) (dvKs V) a (dKeystore d) = (None, ks)"
    "d1 = d\<lparr>dKeystore := ks\<rparr>" "strF q ''agent_id'' = agID a"
    by (rule handleRegister_Ok [OF assms(1,2)]) (simp add: RegisterResp_def)
  note pub = registeredAgent_public [OF a(1) assms(3)] and s = a(2) [unfolded Save_def]
  have safe: "sanitizeAgentID (agID a) = None" using s by (auto simp: saveLocked_def split: option.splits)
  have "entry_utf8 (entryOf a)"
    using strF_utf8 [OF decodeStruct_ok [OF assms(2)]] sanitized_utf8 [OF safe] pub by (simp add: entry_utf8_def entryOf_def)
  note k = save_disk [OF assms(4) s assms(5,6) this]
  obtain agent ks2 where ld: "Load (dvCrypto W) (dvAead W) (dvKs W) (agID a) ks = (Inr agent, ks2)" "agPrivateKey agent = []"
    using k safe assms(8,9) pub(1) by (auto simp: Load_def loadLocked_eq NewFromKeys_def)
  obtain res d2 where ev: "evaluate W (requestFacts q) d1 = (res, d2)" by (metis prod.exhaust)
  then have al: "Allowed res" using assms(12) by simp
  obtain x c where ap: "AppendNew (dvCrypto W) (buildReceipt (dvCrypto W) (dvNow W) q) (agPrivateKey agent) (dvWall W) (dvDb W) (dChain d1) = (x, c)"
    by (metis prod.exhaust)
  have "x = Panic"
    using buildReceipt_Inr [of "dvCrypto W" "dvNow W" q "lastHash (dChain d1)" "lastIdx (dChain d1) + 1"] ap ld(2)
      AppendNew_no_key [of "buildReceipt (dvCrypto W) (dvNow W) q" "dChain d1" _ "[]"] by (metis fst_conv list.size(3) zero_neq_numeral)
  moreover have "Load (dvCrypto W) (dvAead W) (dvKs W) (strF q ''agent_id'') (dKeystore d1) = (Inr agent, ks2)" using ld a by simp
  ultimately show ?thesis using handleSignAppend_append [OF assms(10,11) ev al _ ap] by simp
qed

text \<open>
  Policy changes are acknowledged before they are enforced. While the executor's cache is
  fresh (up to ten seconds), a policy registered or deleted through the daemon, and confirmed
  to the client, changes no decision: the handlers mark the cache of a store of their own dirty.
\<close>

theorem policy_change_not_enforced:
  assumes "fresh (dvT1 W) (dPolicyExec d)"
    and "handlePolicyRegister V body d = (Ok (MsgPolicyRegisterResp, reply), d1) \<or>
         handlePolicyDelete V body d = (Ok (MsgPolicyDeleteResp, reply), d1)"
  shows "fst (evaluate W f d1) = fst (evaluate W f d)"
proof -
  have "dPolicyExec (snd (handlePolicyRegister V body d)) = dPolicyExec d" "dPolicyExec (snd (handlePolicyDelete V body d)) = dPolicyExec d"
    by (simp_all add: handlePolicyRegister_def handlePolicyDelete_def Let_def split: option.split go.split prod.split)
  then have "dPolicyExec d1 = dPolicyExec d" using assms(2) by auto
  then show ?thesis
    using assms(1) by (simp add: evaluate_def ExecutorEvaluate_def ListEnabled_def fresh_def case_prod_beta split: option.splits)
qed

section \<open>A daemon with one agent\<close>

definition exDEnv :: daemon_env where
  "exDEnv = \<lparr>dvCrypto = flatCrypto, dvAead = toyAead, dvStd = exLib, dvArc = toyArchiver, dvErr = (\<lambda>e. ''error''),
     dvNow = 1000, dvWall = 1000, dvKs = exKsEnv 0, dvKs2 = exKsEnv 0, dvPolQ = False, dvPolR = False,
     dvT1 = 50, dvT2 = 60, dvT3 = 70, dvDb = False, dvDb2 = False, dvMark = (\<lambda>i. False), dvPages = (1, 4096),
     dvExec = (\<lambda>c a. None), dvDev = False, dvBr = exBrokerEnv, dvBr2 = exBrokerEnv, dvProv = exProvEnv, dvFs = exFsEnv,
     dvSt = exStoreEnv 3, dvParseURL = (\<lambda>u. None), dvLookup = (\<lambda>h. None), dvIP6 = (\<lambda>s. None), dvListen = None, dvUptime = 0,
     dvUptimeText = ''0s'', dvStartedText = '''', dvRFC3339 = '''', dvRate = (\<lambda>i. ''0'')\<rparr>"

definition exSaved :: Keystore where
  "exSaved = snd (Save toyAead (exKsEnv 0) (exAgent 0) exKeystore)"

definition exDaemon :: Daemon where
  "exDaemon = \<lparr>dChain = exEmpty, dKeystore = exSaved, dSnapStore = exSnapStore, dWorld = exWorld, dPolicies = [], dPolicyExec = NewStore,
     dBroker = initBroker flatCrypto False, dProxy = None, dMcpAudit = \<lparr>mrows = [], mseq = 0\<rparr>, dNDJSON = None, dWebhookURL = [], dHooks = [], dPosted = [], dAudit = newRing,
     dRan = []\<rparr>"

definition exMembers :: "(string \<times> json) list" where
  "exMembers = [(''agent_id'', JStr ''ans_11111111111''), (''phase'', JStr ''pre''), (''action_type'', JStr ''file.read''),
     (''payload_hash'', JStr ''ab''), (''policy_decision'', JStr ''allow'')]"

definition exFields :: fields where
  "exFields = fieldsOf SignAppendReq exMembers"

lemma exDecode: "decodeStruct SignAppendReq (jsonEnc (JObj exMembers)) = Some exFields"
  unfolding exFields_def
proof (rule decodeStruct_encode)
  show "flat_ok exMembers" by (auto simp: flat_ok_def exMembers_def intro!: validUtf8_ascii)
  show "wellTyped SignAppendReq exMembers" by (simp add: wellTyped_def exMembers_def SignAppendReq_def decodeField_def)
qed

lemma exFields_str:
  "strF exFields ''agent_id'' = ''ans_11111111111''" "strF exFields ''phase'' = ''pre''" "strF exFields ''action_type'' = ''file.read''"
  "strF exFields ''payload_hash'' = ''ab''" "strF exFields ''policy_decision'' = ''allow''" "strF exFields ''payload_summary'' = []"
  "strF exFields ''auth_context'' = []" "strF exFields ''outcome_summary'' = []" "strF exFields ''parent_agent_id'' = []"
  "intF exFields ''duration_ms'' = 0"
  by (simp_all add: field_defs exFields_def fieldsOf_def exMembers_def SignAppendReq_def decodeField_def)

lemma exValid: "signAppendInvalid exFields = None"
  by (simp add: signAppendInvalid_def exFields_str Let_def)

lemma exAllowed: "dPolicies d = [] \<Longrightarrow> dPolicyExec d = NewStore \<Longrightarrow> Allowed (fst (evaluate exDEnv f d))"
  by (simp add: evaluate_def exDEnv_def ExecutorEvaluate_def ListEnabled_def NewStore_def fresh_def Evaluate_def
      listNoLock_def policyOrder_def allowResult_def Let_def)

lemma exAppended: "\<exists>r c. AppendNew flatCrypto (buildReceipt flatCrypto 1000 exFields) (Keystore.exKey 0) 1000 False exEmpty = (Ok r, c)"
proof -
  obtain b where b: "buildReceipt flatCrypto 1000 exFields GenesisHash 1 = Inr b" "ChainIndex b = 1" "PrevReceiptHash b = GenesisHash" "ReceiptID b = []"
    "validateReceipt (b\<lparr>ReceiptID := replicate 32 (CHR ''0''), Signature := []\<rparr>) = None"
    by (simp add: buildReceipt_def exFields_str Let_def NewBuilder_def PreAction_def zeroReceipt_def PhasePre_def truncateStr_def
        validateReceipt_None reReceiptID_def is_hex_lower_def reAgentID_def isIdChar_def reActionType_def isActionChar_def
        validPhases_def validPolicies_def list_all_iff)
  then show ?thesis
    using AppendNew_succeeds [where C = flatCrypto and priv = "Keystore.exKey 0" and buildFn = "buildReceipt flatCrypto 1000 exFields"
      and c = exEmpty and b = b and wall = 1000]
    by (simp add: flatCrypto_ok Keystore.exKey_def exEmpty_def emptyDB_def)
qed

lemma exLoad: "Load flatCrypto toyAead (exKsEnv 0) ''ans_11111111111'' exSaved =
   (Inr (NewFromKeys flatCrypto 200 ''bot'' ''1.0'' ''me'' (take 32 (Keystore.exKey 0)) (Keystore.exKey 0)),
    exSaved\<lparr>ksCache := [''ans_11111111111'' \<mapsto> (NewFromKeys flatCrypto 200 ''bot'' ''1.0'' ''me'' (take 32 (Keystore.exKey 0)) (Keystore.exKey 0), wrap64 (300 + cacheTTL))]\<rparr>)"
proof -
  have s: "saveLocked toyAead (exKsEnv 0) (exAgent 0) exKeystore = (None, exSaved)" using exSave by (simp add: exSaved_def Save_def)
  have c: "ksCache exSaved = Map.empty"
    by (simp add: exSaved_def Save_def saveLocked_def exKeystore_def newKeystore_def writeFile_def exKsEnv_def Let_def split: option.split)
  have n: "kvNonce (exKsEnv 0) = Some (replicate 12 (CHR ''n''))" "length (replicate 12 (CHR ''n'')) = nonceSize"
    by (simp_all add: exKsEnv_def nonceSize_def)
  note d = save_disk(1) [OF toyAead_ok s n exAgent_utf8, of flatCrypto 200, unfolded exAgent_facts]
  have e: "kvRegistered (exKsEnv 0) = 200" "kvCachedAt (exKsEnv 0) = 300" "\<not> kvReadErr (exKsEnv 0)" by (simp_all add: exKsEnv_def)
  show ?thesis unfolding Load_def loadLocked_eq exID_safe e by (simp add: c d e)
qed

lemma afterAppend_ok: "recordAuditEvent (dvNow V) ''receipt-chain'' ''COMMIT'' ''receipt appended'' (dAudit d) = Ok ring \<Longrightarrow>
    fst (afterAppend V raw d) = Ok ()"
  by (simp add: afterAppend_def Let_def split: option.split)

text \<open>A valid request of the stored agent whose append succeeds is answered with success.\<close>

lemma exSign_fields:
  assumes dec: "decodeStruct SignAppendReq body = Some m" and valid: "signAppendInvalid m = None" and ag: "strF m ''agent_id'' = ''ans_11111111111''"
    and app: "\<exists>r c. AppendNew flatCrypto (buildReceipt flatCrypto 1000 m) (Keystore.exKey 0) 1000 False exEmpty = (Ok r, c)"
  shows "\<exists>reply d'. handleSignAppend exDEnv body exDaemon = (Ok (MsgSignAppendResp, reply), d')"
proof -
  obtain res d1 where ev: "evaluate exDEnv (requestFacts m) exDaemon = (res, d1)" by (metis prod.exhaust)
  have al: "Allowed res" using exAllowed [of exDaemon "requestFacts m"] ev by (simp add: exDaemon_def)
  obtain r c where ap: "AppendNew flatCrypto (buildReceipt flatCrypto 1000 m) (Keystore.exKey 0) 1000 False exEmpty = (Ok r, c)"
    using app by blast
  obtain agent ks where ld: "Load flatCrypto toyAead (exKsEnv 0) ''ans_11111111111'' exSaved = (Inr agent, ks)" "agPrivateKey agent = Keystore.exKey 0"
    using exLoad by (simp add: NewFromKeys_def)
  let ?d2 = "d1\<lparr>dKeystore := ks, dChain := c\<rparr>"
  have "dAudit ?d2 = newRing" using ev evaluate_simps(5) [of exDEnv "requestFacts m" exDaemon] by (simp add: exDaemon_def)
  then have "fst (afterAppend exDEnv (RawJSON r) ?d2) = Ok ()"
    using afterAppend_ok [of exDEnv ?d2] by (simp add: recordAuditEvent_def newRing_def goRem_def Let_def)
  then obtain d3 where aa: "afterAppend exDEnv (RawJSON r) ?d2 = (Ok (), d3)" by (metis prod.collapse)
  have V: "dvCrypto exDEnv = flatCrypto" "dvAead exDEnv = toyAead" "dvKs exDEnv = exKsEnv 0" "dvNow exDEnv = 1000" "dvWall exDEnv = 1000"
    "dvDb exDEnv = False" "dKeystore exDaemon = exSaved" "dChain exDaemon = exEmpty"
    by (simp_all add: exDEnv_def exDaemon_def)
  show ?thesis
    using handleSignAppend_append [OF dec valid ev al, unfolded V ag, OF ld(1), unfolded ld(2), OF ap] aa by simp
qed

lemma exSign: "\<exists>reply d'. handleSignAppend exDEnv (jsonEnc (JObj exMembers)) exDaemon = (Ok (MsgSignAppendResp, reply), d')"
  by (rule exSign_fields [OF exDecode exValid exFields_str(1) exAppended])

text \<open>The append of the example.\<close>

theorem sign_append_effect_witness:
  "length (receipts (db (dChain (snd (handleSignAppend exDEnv (jsonEnc (JObj exMembers)) exDaemon))))) = 1"
proof -
  obtain reply d' where h: "handleSignAppend exDEnv (jsonEnc (JObj exMembers)) exDaemon = (Ok (MsgSignAppendResp, reply), d')"
    using exSign by blast
  have "receipts (db (dChain exDaemon)) = []" by (simp add: exDaemon_def exEmpty_def emptyDB_def)
  then show ?thesis using sign_append_effect [OF h] h by auto
qed

text \<open>Registering the public key of the stored agent.\<close>

definition exRegister :: "(string \<times> json) list" where
  "exRegister = [(''name'', JStr ''bot''), (''public_key_hex'', JStr (hexEncode (take 32 (Keystore.exKey 0))))]"

definition exRegFields :: fields where
  "exRegFields = fieldsOf RegisterReq exRegister"

lemma exRegister_decode: "decodeStruct RegisterReq (jsonEnc (JObj exRegister)) = Some exRegFields"
  unfolding exRegFields_def
proof (rule decodeStruct_encode)
  show "flat_ok exRegister" by (auto simp: flat_ok_def exRegister_def intro!: validUtf8_ascii)
  show "wellTyped RegisterReq exRegister" by (simp add: wellTyped_def exRegister_def RegisterReq_def decodeField_def)
qed

lemma exRegister_fields:
  "strF exRegFields ''name'' = ''bot''" "strF exRegFields ''version'' = []" "strF exRegFields ''owner'' = []"
  "strF exRegFields ''public_key_hex'' = hexEncode (take 32 (Keystore.exKey 0))"
  by (simp_all add: field_defs exRegFields_def fieldsOf_def exRegister_def RegisterReq_def decodeField_def)

lemma exPub_hex: "hexEncode (take 32 (Keystore.exKey 0)) \<noteq> []"
proof -
  have "length (hexEncode (take 32 (Keystore.exKey 0))) = 64" by (simp add: Keystore.exKey_def)
  then show ?thesis by auto
qed

lemma exRegistered: "\<exists>ks. handleRegister exDEnv (jsonEnc (JObj exRegister)) exDaemon =
    (Ok (MsgRegisterResp, RegisterResp ''ans_11111111111''), exDaemon\<lparr>dKeystore := ks\<rparr>)"
proof -
  let ?pub = "take 32 (Keystore.exKey 0)" and ?a = "NewFromKeys flatCrypto 200 ''bot'' [] [] (take 32 (Keystore.exKey 0)) []"
  have V: "dvCrypto exDEnv = flatCrypto" "dvAead exDEnv = toyAead" "dvKs exDEnv = exKsEnv 0" "dKeystore exDaemon = exSaved"
    by (simp_all add: exDEnv_def exDaemon_def)
  have l: "length (hexEncode ?pub) = 64" "length ?pub = 32" by (simp_all add: Keystore.exKey_def)
  note ne = exPub_hex
  have reg: "registeredAgent exDEnv exRegFields = Inr ?a"
    using ne l(2) by (simp add: registeredAgent_def exRegister_fields V Let_def exKsEnv_def)
  have i: "agID ?a = ''ans_11111111111''" by (simp add: NewFromKeys_def exAgent_facts)
  have k: "ksEncKey exSaved = replicate 32 (CHR ''k'')" using save_encKey [of toyAead "exKsEnv 0" "exAgent 0" exKeystore]
    by (simp add: exSaved_def Save_def exKeystore_def newKeystore_def)
  have "fst (Save toyAead (exKsEnv 0) ?a exSaved) = None"
    by (simp add: Save_def saveLocked_def i exID_safe ksEncrypt_def validKeyLen_def k exKsEnv_def writeFile_def Let_def)
  then obtain ks where "Save toyAead (exKsEnv 0) ?a exSaved = (None, ks)" by (metis prod.collapse)
  then show ?thesis
    using reg l i by (auto simp: handleRegister_def exRegister_decode registerInvalid_def exRegister_fields V simp del: jsonEnc.simps)
qed

theorem public_key_registration_panics_witness:
  "\<exists>reply d1. handleRegister exDEnv (jsonEnc (JObj exRegister)) exDaemon = (Ok (MsgRegisterResp, reply), d1) \<and>
     fst (handleSignAppend exDEnv (jsonEnc (JObj exMembers)) d1) = Panic"
proof -
  obtain ks where r: "handleRegister exDEnv (jsonEnc (JObj exRegister)) exDaemon =
    (Ok (MsgRegisterResp, RegisterResp ''ans_11111111111''), exDaemon\<lparr>dKeystore := ks\<rparr>)" using exRegistered by blast
  have pk: "strF exRegFields ''public_key_hex'' \<noteq> []" using exPub_hex by (simp add: exRegister_fields)
  have V: "aead_ok (dvAead exDEnv)" "kvNonce (dvKs exDEnv) = Some (replicate 12 (CHR ''n''))" "length (replicate 12 (CHR ''n'')) = nonceSize"
    "\<not> kvReadErr (dvKs exDEnv)" by (simp_all add: exDEnv_def toyAead_ok exKsEnv_def nonceSize_def)
  have "Allowed (fst (evaluate exDEnv (requestFacts exFields) (exDaemon\<lparr>dKeystore := ks\<rparr>)))"
    by (rule exAllowed) (simp_all add: exDaemon_def)
  then show ?thesis
    using public_key_registration_panics [OF _ exRegister_decode pk V(1-3) refl refl V(4) exDecode exValid] r
    by (simp add: exFields_str del: jsonEnc.simps)
qed

text \<open>A policy that denies everything, registered while the cache is fresh.\<close>

definition exFreshDaemon :: Daemon where
  "exFreshDaemon = exDaemon\<lparr>dPolicyExec := \<lparr>cache = Some \<lparr>cpPolicies = [], expiresAt = 100\<rparr>, dirty = False\<rparr>\<rparr>"

definition exDeny :: "(string \<times> json) list" where
  "exDeny = [(''id'', JStr ''p''), (''name'', JStr ''n''), (''enabled'', JBool True), (''conditions'', JStr ''{}''),
     (''action'', JStr (jsonEnc (JObj [(''effect'', JStr ''deny'')])))]"

definition exDenyBody :: bytes where
  "exDenyBody = jsonEnc (JObj exDeny)"

lemma exDeny_action: "\<forall>c\<in>set (jsonEnc (JObj [(''effect'', JStr ''deny'')])). byte c < 128"
    "jsonEnc (JObj [(''effect'', JStr ''deny'')]) \<noteq> []"
    "\<exists>a. unmarshalAction (jsonEnc (JObj [(''effect'', JStr ''deny'')])) = Some a \<and> Effect a = EffectDeny"
proof -
  show "\<forall>c\<in>set (jsonEnc (JObj [(''effect'', JStr ''deny'')])). byte c < 128" by code_simp
  have "case unmarshalAction (jsonEnc (JObj [(''effect'', JStr ''deny'')])) of Some a \<Rightarrow> Effect a = EffectDeny | None \<Rightarrow> False" by code_simp
  then show "\<exists>a. unmarshalAction (jsonEnc (JObj [(''effect'', JStr ''deny'')])) = Some a \<and> Effect a = EffectDeny"
    by (auto split: option.splits)
qed simp

lemma exDeny_conditions: "\<exists>c c' j. Option.bind (jsonParse ''{}'') (condOfJson exLib) = Some c \<and> CompileRegexp exLib c = Some c' \<and> condJson exLib c' = Some j"
proof -
  have "case Option.bind (jsonParse ''{}'') (condOfJson exLib) of None \<Rightarrow> False | Some c \<Rightarrow>
      (case CompileRegexp exLib c of None \<Rightarrow> False | Some c' \<Rightarrow> condJson exLib c' \<noteq> None)" by code_simp
  then show ?thesis by (auto split: option.splits)
qed

lemma exDeny_registered: "\<exists>reply d1. handlePolicyRegister exDEnv exDenyBody exFreshDaemon = (Ok (MsgPolicyRegisterResp, reply), d1) \<and>
    length (dPolicies d1) = 1"
proof -
  let ?act = "jsonEnc (JObj [(''effect'', JStr ''deny'')])"
  have "flat_ok exDeny" using exDeny_action(1)
    by (auto simp: flat_ok_def exDeny_def simp del: jsonEnc.simps intro!: validUtf8_ascii)
  moreover have "wellTyped PolicyRegisterReq exDeny" by (simp add: wellTyped_def exDeny_def PolicyRegisterReq_def decodeField_def del: jsonEnc.simps)
  ultimately have dec: "decodeStruct PolicyRegisterReq exDenyBody = Some (fieldsOf PolicyRegisterReq exDeny)"
    unfolding exDenyBody_def by (rule decodeStruct_encode)
  have f: "strF (fieldsOf PolicyRegisterReq exDeny) ''id'' = ''p''" "strF (fieldsOf PolicyRegisterReq exDeny) ''name'' = ''n''"
    "strF (fieldsOf PolicyRegisterReq exDeny) ''conditions'' = ''{}''" "strF (fieldsOf PolicyRegisterReq exDeny) ''action'' = ?act"
    by (simp_all add: field_defs fieldsOf_def exDeny_def PolicyRegisterReq_def decodeField_def del: jsonEnc.simps)
  obtain c c' j where c: "Option.bind (jsonParse ''{}'') (condOfJson exLib) = Some c" "CompileRegexp exLib c = Some c'" "condJson exLib c' = Some j"
    using exDeny_conditions by blast
  obtain a where a: "unmarshalAction ?act = Some a" "Effect a = EffectDeny" using exDeny_action(3) by blast
  have V: "dvStd exDEnv = exLib" "dvDb exDEnv = False" "dPolicies exFreshDaemon = []" by (simp_all add: exDEnv_def exFreshDaemon_def exDaemon_def)
  have "Conditions (policyOf m c' a) = c'" for m by (simp add: policyOf_def)
  then show ?thesis
    using exDeny_action(2) c a by (simp add: handlePolicyRegister_def dec f V Insert_def Let_def del: jsonEnc.simps)
qed

theorem policy_change_not_enforced_witness:
  "\<exists>reply d1. handlePolicyRegister exDEnv exDenyBody exFreshDaemon = (Ok (MsgPolicyRegisterResp, reply), d1) \<and> length (dPolicies d1) = 1 \<and>
     Allowed (fst (evaluate exDEnv (requestFacts exFields) d1))"
proof -
  let ?f = "requestFacts exFields"
  obtain reply d1 where h: "handlePolicyRegister exDEnv exDenyBody exFreshDaemon = (Ok (MsgPolicyRegisterResp, reply), d1)" "length (dPolicies d1) = 1"
    using exDeny_registered by blast
  have fr: "fresh (dvT1 exDEnv) (dPolicyExec exFreshDaemon)" by (simp add: fresh_def exFreshDaemon_def exDEnv_def)
  have "Allowed (fst (evaluate exDEnv ?f exFreshDaemon))"
    using fr by (simp add: evaluate_def ExecutorEvaluate_def ListEnabled_def exFreshDaemon_def Evaluate_def allowResult_def)
  then show ?thesis using policy_change_not_enforced [OF fr, of exDEnv exDenyBody reply d1 ?f] h by auto
qed

end
