(* ===== verification/DaemonSystem.thy ===== *)
theory DaemonSystem
  imports DaemonProps
begin

text \<open>
  The daemon as a machine: an event is a frame together with what the request reads from
  outside, a step is \<open>handleFrame\<close>. Any connection is a run of this machine, so an invariant
  of the steps is an invariant of the daemon; the type of every answer and one answer per
  request are read off the same steps.
\<close>

lemmas msg_defs = MsgSignAppend_def MsgSignAppendResp_def MsgVerify_def MsgVerifyResp_def MsgQuery_def MsgQueryResp_def MsgRegister_def MsgRegisterResp_def MsgStatus_def MsgStatusResp_def
  MsgPing_def MsgPong_def MsgSnapshot_def MsgSnapshotResp_def MsgRestore_def MsgRestoreResp_def MsgSnapshotList_def MsgSnapshotListResp_def
  MsgRegisterCompensate_def MsgRegisterCompensateResp_def MsgCompensate_def MsgCompensateResp_def MsgPolicyRegister_def MsgPolicyRegisterResp_def
  MsgPolicyList_def MsgPolicyListResp_def MsgPolicyDelete_def MsgPolicyDeleteResp_def MsgPolicyEvaluate_def MsgPolicyEvaluateResp_def MsgNociceptionError_def
  MsgTokenRequest_def MsgTokenResp_def MsgTokenRevoke_def MsgTokenRevokeResp_def MsgTokenList_def MsgTokenListResp_def MsgMCPStart_def MsgMCPStartResp_def
  MsgMCPStop_def MsgMCPStopResp_def MsgMCPStatus_def MsgMCPStatusResp_def MsgMCPLog_def MsgMCPLogResp_def MsgSnapshotDiff_def MsgSnapshotDiffResp_def
  MsgAuditEvents_def MsgAuditEventsResp_def MsgError_def

section \<open>The machine\<close>

definition daemonStep :: "Daemon \<Rightarrow> daemon_env \<times> Frame \<Rightarrow> Daemon" where
  "daemonStep d e = snd (handleFrame (fst e) (snd e) d)"

lemma daemonStep_dispatch: "daemonStep d (V, f) = (if frType f = MsgPing then d else snd (dispatch V f d))"
  by (simp add: daemonStep_def handleFrame_def split: prod.split go.split)

text \<open>A connection served to its end, or to the panic that ended it, is a run.\<close>

lemma Handle_run: "\<exists>es. snd (Handle V n s d) = run daemonStep d es \<and> (\<forall>e\<in>set es. \<exists>k. fst e = V k)"
proof (induction V n s d rule: Handle.induct)
  case (1 V n s d)
  show ?case
  proof (cases "ReadFrame s")
    case (Inl e)
    then show ?thesis by (subst Handle.simps) (auto intro!: exI [of _ "[]"])
  next
    case (Inr fr)
    obtain f rest where fr: "fr = (f, rest)" by (cases fr)
    obtain x d1 where h: "handleFrame (V n) f d = (x, d1)" by (metis prod.exhaust)
    have st: "daemonStep d (V n, f) = d1" using h by (simp add: daemonStep_def)
    show ?thesis
    proof (cases x)
      case (Ok w)
      obtain es where es: "snd (Handle V (n + 1) rest d1) = run daemonStep d1 es" "\<forall>e\<in>set es. \<exists>k. fst e = V k"
        using "1.IH" [OF Inr fr [symmetric] h [symmetric] Ok] by blast
      have "snd (Handle V n s d) = run daemonStep d ((V n, f) # es)"
        using es(1) st by (subst Handle.simps) (auto simp: Inr fr h Ok split: prod.splits go.splits)
      then show ?thesis using es(2) by (intro exI [of _ "(V n, f) # es"]) auto
    next
      case (Err u)
      then have "snd (Handle V n s d) = run daemonStep d [(V n, f)]" using st by (subst Handle.simps) (simp add: Inr fr h)
      then show ?thesis by (intro exI [of _ "[(V n, f)]"]) auto
    next
      case Panic
      then have "snd (Handle V n s d) = run daemonStep d [(V n, f)]" using st by (subst Handle.simps) (simp add: Inr fr h)
      then show ?thesis by (intro exI [of _ "[(V n, f)]"]) auto
    qed
  qed
qed

section \<open>What the requests leave alone\<close>

definition core :: "Daemon \<Rightarrow> Chain \<times> Keystore \<times> (string \<times> string list) list \<times> audit_ring \<times> bytes list" where
  "core d = (dChain d, dKeystore d, dRan d, dAudit d, dHooks d)"

lemma core_update [simp]:
  "core (d\<lparr>dSnapStore := s\<rparr>) = core d" "core (d\<lparr>dWorld := w\<rparr>) = core d" "core (d\<lparr>dBroker := b\<rparr>) = core d"
  "core (d\<lparr>dProxy := p\<rparr>) = core d" "core (d\<lparr>dPolicies := r\<rparr>) = core d" "core (d\<lparr>dPolicyExec := x\<rparr>) = core d"
  by (simp_all add: core_def)

lemma core_failWith [simp]: "core (snd (failWith m d)) = core d"
  by simp

lemma core_evaluate [simp]: "core (snd (evaluate V f d)) = core d"
  by (simp add: core_def)

lemma quiet_chain_reads:
  "core (snd (handleQuery V b d)) = core d" "core (snd (handleStatus V d)) = core d"
  by (simp_all add: handleQuery_def handleStatus_def split: option.split go.split)

lemma quiet_snapshots:
  "core (snd (handleSnapshot V b d)) = core d" "core (snd (handleRestore V b d)) = core d"
  "core (snd (handleSnapshotList V b d)) = core d" "core (snd (handleSnapshotDiff V b d)) = core d"
  by (simp_all add: handleSnapshot_def handleRestore_def handleSnapshotList_def handleSnapshotDiff_def Let_def
      split: option.split sum.split prod.split)

lemma quiet_tokens:
  "core (snd (handleTokenRequest V b d)) = core d" "core (snd (handleTokenRevoke V b d)) = core d" "core (snd (handleTokenList V d)) = core d"
  by (simp_all add: handleTokenRequest_def handleTokenRevoke_def handleTokenList_def Let_def split: option.split sum.split prod.split)

lemma quiet_policies:
  "core (snd (handlePolicyRegister V b d)) = core d" "core (snd (handlePolicyList V b d)) = core d"
  "core (snd (handlePolicyDelete V b d)) = core d" "core (snd (handlePolicyEvaluate V b d)) = core d"
  "core (snd (handleAuditEvents V b d)) = core d"
proof -
  show "core (snd (handlePolicyEvaluate V b d)) = core d"
    by (auto simp: handlePolicyEvaluate_def split: option.split prod.split) (metis core_evaluate snd_conv)
qed (simp_all add: handlePolicyRegister_def handlePolicyList_def handlePolicyDelete_def handleAuditEvents_def Let_def
      split: option.split go.split prod.split)

lemma quiet_mcp:
  "core (snd (handleMCPStart V b d)) = core d" "core (snd (handleMCPStop V d)) = core d"
  "core (snd (handleMCPStatus V d)) = core d" "core (snd (handleMCPLog V b d)) = core d"
  by (simp_all add: handleMCPStart_def handleMCPStop_def handleMCPStatus_def handleMCPLog_def Let_def split: option.split)

lemmas quiet = quiet_chain_reads quiet_snapshots quiet_tokens quiet_policies quiet_mcp

definition coreTypes :: "msg list" where
  "coreTypes = [MsgSignAppend, MsgVerify, MsgRegister, MsgRegisterCompensate, MsgCompensate]"

lemma dispatch_quiet: "frType f \<notin> set coreTypes \<Longrightarrow> core (snd (dispatch V f d)) = core d"
  by (simp add: dispatch_def Let_def coreTypes_def quiet)

lemma dispatch_core:
  "frType f = MsgSignAppend \<Longrightarrow> dispatch V f d = handleSignAppend V (frBody f) d"
  "frType f = MsgVerify \<Longrightarrow> dispatch V f d = handleVerify V (frBody f) d"
  "frType f = MsgRegister \<Longrightarrow> dispatch V f d = handleRegister V (frBody f) d"
  "frType f = MsgRegisterCompensate \<Longrightarrow> dispatch V f d = handleRegisterCompensate V (frBody f) d"
  "frType f = MsgCompensate \<Longrightarrow> dispatch V f d = handleCompensate V (frBody f) d"
  by (simp_all add: dispatch_def Let_def msg_defs)

section \<open>Only allowed commands run\<close>

definition allowedRan :: "Daemon \<Rightarrow> bool" where
  "allowedRan d \<longleftrightarrow> list_all (\<lambda>(cmd, args). filepathBase cmd \<in> set allowedCompensationCmds) (dRan d)"

lemma executeCompensation_allowed: "allowedRan d \<Longrightarrow> allowedRan (snd (executeCompensation V c d))"
  by (auto simp: executeCompensation_def allowedRan_def Let_def split: list.split option.split)

lemma runCompensations_allowed: "allowedRan d \<Longrightarrow> allowedRan (snd (runCompensations V cs acc d))"
proof (induction cs arbitrary: acc d)
  case (Cons c cs)
  obtain x d1 where ex: "executeCompensation V c d = (x, d1)" by (metis prod.exhaust)
  have a: "allowedRan d1" using executeCompensation_allowed [OF Cons.prems, of V c] ex by simp
  then have "allowedRan (d1\<lparr>dChain := y\<rparr>)" for y by (simp add: allowedRan_def)
  then show ?case using Cons ex a by (auto split: prod.split option.split)
qed simp

lemma handleCompensate_final:
  "snd (handleCompensate V b d) = d \<or> (\<exists>cs. snd (handleCompensate V b d) = snd (runCompensations V cs ([], 0, 0) d))"
proof (cases "decodeStruct CompensateReq b")
  case None
  then show ?thesis by (simp add: handleCompensate_def)
next
  case (Some m)
  note dec = Some
  show ?thesis
  proof (cases "GetCompensations (dvDb V) (u64F m ''target_index'') (dChain d)")
    case (Ok comps)
    obtain details nrun nfail d1 where r: "runCompensations V comps ([], 0, 0) d = ((details, nrun, nfail), d1)" by (metis prod.exhaust)
    have "snd (handleCompensate V b d) \<in> {d, d1}"
      by (simp add: handleCompensate_def dec Ok r)
    then show ?thesis using r by (metis insertE singletonD snd_conv)
  qed (simp_all add: handleCompensate_def dec)
qed

lemma handleCompensate_allowed: "allowedRan d \<Longrightarrow> allowedRan (snd (handleCompensate V b d))"
  using handleCompensate_final [of V b d] runCompensations_allowed [of d V _ "([], 0, 0)"] by metis

lemma ran_kept:
  "dRan (snd (handleVerify V b d)) = dRan d" "dRan (snd (handleRegister V b d)) = dRan d"
  "dRan (snd (handleRegisterCompensate V b d)) = dRan d"
  by (auto simp: handleVerify_def handleRegister_def handleRegisterCompensate_def Let_def failWith_def
      split: option.split go.split sum.split prod.split)

lemma daemonStep_allowed:
  assumes "allowedRan d"
  shows "allowedRan (daemonStep d e)"
proof -
  obtain V f where e: "e = (V, f)" by (cases e)
  let ?b = "frBody f"
  have k: "allowedRan (snd (handleSignAppend V ?b d))" "allowedRan (snd (handleVerify V ?b d))" "allowedRan (snd (handleRegister V ?b d))"
    "allowedRan (snd (handleRegisterCompensate V ?b d))" "allowedRan (snd (handleCompensate V ?b d))"
    using assms ran_kept [of V ?b d] signAppend_final(1) [of V ?b d] handleCompensate_allowed [OF assms, of V ?b]
    by (simp_all add: allowedRan_def)
  show ?thesis
  proof (cases "frType f \<in> set coreTypes")
    case True
    then show ?thesis using k assms by (auto simp: e daemonStep_dispatch dispatch_core coreTypes_def)
  next
    case False
    then have "dRan (snd (dispatch V f d)) = dRan d" using dispatch_quiet [of f V d] by (simp add: core_def)
    then show ?thesis using assms by (simp add: e daemonStep_dispatch allowedRan_def)
  qed
qed

text \<open>A request starts at most one webhook goroutine, and ends none.\<close>

lemma hooks_kept:
  "dHooks (snd (handleVerify V b d)) = dHooks d" "dHooks (snd (handleRegister V b d)) = dHooks d"
  "dHooks (snd (handleRegisterCompensate V b d)) = dHooks d"
  by (auto simp: handleVerify_def handleRegister_def handleRegisterCompensate_def Let_def failWith_def
      split: option.split go.split sum.split prod.split)

lemma executeCompensation_hooks: "dHooks (snd (executeCompensation V c d)) = dHooks d"
  by (auto simp: executeCompensation_def Let_def split: list.split option.split)

lemma runCompensations_hooks: "dHooks (snd (runCompensations V cs acc d)) = dHooks d"
proof (induction cs arbitrary: acc d)
  case (Cons c cs)
  obtain x d1 where ex: "executeCompensation V c d = (x, d1)" by (metis prod.exhaust)
  have "dHooks d1 = dHooks d" using executeCompensation_hooks [of V c d] ex by simp
  then show ?case using Cons.IH ex by (auto split: prod.split option.split)
qed simp

lemma daemonStep_hooks: "\<exists>hs. dHooks (daemonStep d e) = dHooks d @ hs \<and> length hs \<le> 1"
proof -
  obtain V f where e: "e = (V, f)" by (cases e)
  let ?b = "frBody f"
  have hc: "dHooks (snd (handleCompensate V ?b d)) = dHooks d"
    using handleCompensate_final [of V ?b d] runCompensations_hooks [of V _ "([], 0, 0)" d] by metis
  show ?thesis
  proof (cases "frType f \<in> set coreTypes")
    case True
    then show ?thesis using hooks_kept [of V ?b d] hc signAppend_hooks [of V ?b d]
      by (auto simp: e daemonStep_dispatch dispatch_core coreTypes_def)
  next
    case False
    then have "dHooks (snd (dispatch V f d)) = dHooks d" using dispatch_quiet [of f V d] by (simp add: core_def)
    then show ?thesis by (simp add: e daemonStep_dispatch)
  qed
qed

interpretation ranSys: inv_system daemonStep "\<lambda>e. True" allowedRan
  by unfold_locales (simp add: daemonStep_allowed)

section \<open>The chain stays verifiable\<close>

text \<open>
  The invariant: the chain is well formed under the key ring \<open>K\<close>, the keystore's cache agrees
  with its directory, and a usable private key on disk is the agent's key of the ring.
\<close>

definition keysAgree :: "crypto \<Rightarrow> aead \<Rightarrow> (string \<Rightarrow> bytes) \<Rightarrow> Keystore \<Rightarrow> bool" where
  "keysAgree C A K ks \<longleftrightarrow> (\<forall>t i a. diskAgent C A t ks i = Inr a \<longrightarrow> length (agPrivateKey a) = 64 \<longrightarrow> agPrivateKey a = K i)"

definition daemon_inv :: "crypto \<Rightarrow> aead \<Rightarrow> (string \<Rightarrow> bytes) \<Rightarrow> Daemon \<Rightarrow> bool" where
  "daemon_inv C A K d \<longleftrightarrow> chain_inv C K (dChain d) \<and> coherent C A (dKeystore d) \<and> keysAgree C A K (dKeystore d)"

text \<open>What a handler cuts from a request is still valid UTF-8.\<close>

definition cutsOk :: "fields \<Rightarrow> bool" where
  "cutsOk m \<longleftrightarrow> (if strF m ''phase'' = ''pre''
     then validUtf8 (truncateStr (strF m ''payload_summary'') 80) \<and> validUtf8 (truncateStr (strF m ''auth_context'') 200)
     else validUtf8 (truncateStr (strF m ''outcome_summary'') 120))"

text \<open>
  The events: the primitives are the given ones, the clock fits an \<open>int64\<close>, key pairs that are
  drawn are those of the ring, nonces have their length, a key file cut short by a failed write
  does not decrypt, and no text of a sign-append request is cut inside a rune.
\<close>

definition envOk :: "crypto \<Rightarrow> aead \<Rightarrow> (string \<Rightarrow> bytes) \<Rightarrow> daemon_env \<Rightarrow> bool" where
  "envOk C A K V \<longleftrightarrow> dvCrypto V = C \<and> dvAead V = A \<and> in_i64 (dvWall V) \<and>
     (case kvKeys (dvKs V) of Some (pub, priv) \<Rightarrow> K (deriveID C pub) = priv | None \<Rightarrow> True) \<and>
     (case kvNonce (dvKs V) of Some n \<Rightarrow> length n = nonceSize | None \<Rightarrow> True) \<and>
     (case kvWrite (dvKs V) of Truncated x \<Rightarrow> \<forall>k. ksDecrypt A k x = None | _ \<Rightarrow> True)"

definition requestOk :: "Frame \<Rightarrow> bool" where
  "requestOk f \<longleftrightarrow> (if frType f = MsgSignAppend then
     (case decodeStruct SignAppendReq (frBody f) of Some m \<Rightarrow> cutsOk m | None \<Rightarrow> True) else True)"

definition daemonAllowed :: "crypto \<Rightarrow> aead \<Rightarrow> (string \<Rightarrow> bytes) \<Rightarrow> daemon_env \<times> Frame \<Rightarrow> bool" where
  "daemonAllowed C A K e \<longleftrightarrow> envOk C A K (fst e) \<and> requestOk (snd e)"

lemma load_keeps_files [simp]: "ksFiles (snd (loadLocked C A E i ks)) = ksFiles ks"
  by (auto simp: loadLocked_eq split: option.split sum.split)

lemma keysAgree_load: "keysAgree C A K ks \<Longrightarrow> keysAgree C A K (snd (Load C' A E i ks))"
proof -
  assume a: "keysAgree C A K ks"
  have "diskAgent C A t (snd (Load C' A E i ks)) j = diskAgent C A t ks j" for t j
    by (rule diskAgent_cong) (simp_all add: Load_def)
  then show ?thesis using a by (simp add: keysAgree_def)
qed

lemma save_other:
  assumes "i \<noteq> agID a"
  shows "diskAgent C A t (snd (saveLocked A E a ks)) i = diskAgent C A t ks i"
  using assms diskAgent_other [OF assms, of C A t _ "ks\<lparr>ksCache := (ksCache ks)(agID a := None)\<rparr>"]
  by (simp add: saveLocked_def writeFile_def Let_def split: option.split write_outcome.split)

lemma save_same:
  assumes A: "aead_ok A" and nonce: "case kvNonce E of Some n \<Rightarrow> length n = nonceSize | None \<Rightarrow> True"
    and cut: "case kvWrite E of Truncated x \<Rightarrow> \<forall>k. ksDecrypt A k x = None | _ \<Rightarrow> True"
    and utf: "validUtf8 (agName a)" "validUtf8 (agVersion a)" "validUtf8 (agOwner a)"
    and dk: "diskAgent C A t (snd (saveLocked A E a ks)) (agID a) = Inr b"
  shows "diskAgent C A t ks (agID a) = Inr b \<or> (agPrivateKey b, agPublicKey b) = (agPrivateKey a, agPublicKey a)"
proof (cases "saveLocked A E a ks")
  case (Pair x ks')
  show ?thesis
  proof (cases x)
    case None
    then have s: "saveLocked A E a ks = (None, ks')" using Pair by simp
    then obtain n where n: "kvNonce E = Some n" "sanitizeAgentID (agID a) = None"
      by (auto simp: saveLocked_def ksEncrypt_def Let_def split: option.splits if_splits)
    have "entry_utf8 (entryOf a)" using utf sanitized_utf8 [OF n(2)] by (simp add: entry_utf8_def entryOf_def)
    then have "diskAgent C A t ks' (agID a) = Inr (NewFromKeys C t (agName a) (agVersion a) (agOwner a) (agPublicKey a) (agPrivateKey a))"
      using save_disk(1) [OF A s n(1)] nonce n(1) by simp
    then show ?thesis using dk Pair by (auto simp: NewFromKeys_def)
  next
    case (Some e)
    then have "diskAgent C A t ks' (agID a) = diskAgent C A t ks (agID a) \<or> (\<exists>u. diskAgent C A t ks' (agID a) = Inl u)"
      using Pair cut
      by (auto simp: saveLocked_def writeFile_def Let_def diskAgent_def update_conv' split: option.splits write_outcome.splits)
    then show ?thesis using dk Pair by auto
  qed
qed

lemma keysAgree_save:
  assumes "aead_ok A" "keysAgree C A K ks" "envOk C A K V"
    and "validUtf8 (agName a)" "validUtf8 (agVersion a)" "validUtf8 (agOwner a)"
    and "length (agPrivateKey a) = 64 \<longrightarrow> agPrivateKey a = K (agID a)"
  shows "keysAgree C A K (snd (Save A (dvKs V) a ks))"
  unfolding keysAgree_def Save_def
proof (intro allI impI)
  fix t i b
  assume d: "diskAgent C A t (snd (saveLocked A (dvKs V) a ks)) i = Inr b" and l: "length (agPrivateKey b) = 64"
  show "agPrivateKey b = K i"
  proof (cases "i = agID a")
    case True
    then have "diskAgent C A t ks i = Inr b \<or> (agPrivateKey b, agPublicKey b) = (agPrivateKey a, agPublicKey a)"
      using save_same [OF assms(1) _ _ assms(4-6), of "dvKs V" C t ks b] assms(3) d by (simp add: envOk_def)
    then show ?thesis using assms(2,7) l True by (auto simp: keysAgree_def)
  next
    case False
    then show ?thesis using d l assms(2) save_other [OF False] by (auto simp: keysAgree_def)
  qed
qed

lemma registeredAgent_key:
  assumes "registeredAgent V m = Inr a" "envOk C A K V" "fieldsOk m"
  shows "length (agPrivateKey a) = 64 \<longrightarrow> agPrivateKey a = K (agID a)"
    and "validUtf8 (agName a)" "validUtf8 (agVersion a)" "validUtf8 (agOwner a)"
  using assms(1,2) strF_utf8 [OF assms(3)]
  by (auto simp: registeredAgent_def NewFromKeys_def NewAgent_def envOk_def Let_def split: if_splits option.splits)

lemma handleRegister_inv:
  assumes "aead_ok A" "daemon_inv C A K d" "envOk C A K V"
  shows "daemon_inv C A K (snd (handleRegister V b d))"
proof -
  have A: "dvAead V = A" using assms(3) by (simp add: envOk_def)
  have "snd (handleRegister V b d) = d \<or> (\<exists>m a. decodeStruct RegisterReq b = Some m \<and> registeredAgent V m = Inr a \<and>
      snd (handleRegister V b d) = d\<lparr>dKeystore := snd (Save A (dvKs V) a (dKeystore d))\<rparr>)"
    by (auto simp: handleRegister_def A split: option.split sum.split prod.split)
  then show ?thesis
  proof
    assume "\<exists>m a. decodeStruct RegisterReq b = Some m \<and> registeredAgent V m = Inr a \<and>
      snd (handleRegister V b d) = d\<lparr>dKeystore := snd (Save A (dvKs V) a (dKeystore d))\<rparr>"
    then obtain m a where m: "decodeStruct RegisterReq b = Some m" and a: "registeredAgent V m = Inr a"
      and s: "snd (handleRegister V b d) = d\<lparr>dKeystore := snd (Save A (dvKs V) a (dKeystore d))\<rparr>" by blast
    note k = registeredAgent_key [OF a assms(3) decodeStruct_ok [OF m]]
    have "keysAgree C A K (snd (Save A (dvKs V) a (dKeystore d)))"
      using keysAgree_save [OF assms(1) _ assms(3) k(2-4,1)] assms(2) by (simp add: daemon_inv_def)
    then show ?thesis using s assms(2) coherent_save [of C A "dKeystore d" "dvKs V" a] by (simp add: daemon_inv_def Save_def)
  qed (use assms(2) in simp)
qed

lemma handleVerify_inv:
  assumes "daemon_inv C A K d" "envOk C A K V"
  shows "daemon_inv C A K (snd (handleVerify V b d))"
proof -
  let ?k1 = "\<lambda>i. snd (Load C A (dvKs V) i (dKeystore d))"
  have V: "dvCrypto V = C" "dvAead V = A" using assms(2) by (simp_all add: envOk_def)
  have "dKeystore (snd (handleVerify V b d)) = dKeystore d \<or> (\<exists>i. dKeystore (snd (handleVerify V b d)) = ?k1 i) \<or>
      (\<exists>i j. dKeystore (snd (handleVerify V b d)) = snd (Load C A (dvKs2 V) j (?k1 i)))"
    unfolding handleVerify_def V Let_def case_prod_beta by (simp split: go.split) blast
  then have "coherent C A (dKeystore (snd (handleVerify V b d))) \<and> keysAgree C A K (dKeystore (snd (handleVerify V b d)))"
    using assms(1) by (auto simp: daemon_inv_def Load_def coherent_load keysAgree_load [unfolded Load_def])
  moreover have "dChain (snd (handleVerify V b d)) = dChain d"
    by (simp add: handleVerify_def Let_def case_prod_beta split: go.split)
  ultimately show ?thesis using assms(1) by (simp add: daemon_inv_def)
qed

lemma phase_utf8: "validUtf8 ''pre''" "validUtf8 ''post''"
  by code_simp+

lemma buildReceipt_utf8:
  assumes "fieldsOk m" "cutsOk m" "validUtf8 p" "buildReceipt C now m p i = Inr b"
  shows "receipt_utf8 (b\<lparr>TimestampNS := 0, Signature := ''''\<rparr>)"
  using assms(2-4) strF_utf8 [OF assms(1)] intF_in [OF assms(1), of "''duration_ms''"]
  by (auto simp: buildReceipt_def Let_def PreAction_def PostAction_def NewBuilder_def WithParent_def PhasePre_def PhasePost_def
      receipt_utf8_def zeroReceipt_def cutsOk_def in_i64_def phase_utf8 split: if_splits)

lemma AppendNew_short_key:
  assumes "chain_inv C K c" "length priv \<noteq> 64" "in_i64 wall"
  shows "chain_inv C K (snd (AppendNew C f priv wall fault c))"
proof -
  have "\<not> is_Ok (fst (AppendNew C f priv wall fault c))"
    using AppendNew_Ok [of C f priv wall fault c] Sign_Ok(1) assms(2) by (metis is_Ok_iff prod.collapse)
  then have "snd (AppendNew C f priv wall fault c) = c \<or> snd (AppendNew C f priv wall fault c) = c\<lparr>hlc := snd (Now wall (hlc c))\<rparr>"
    using AppendNew_not_Ok [of C f priv wall fault c] by (metis prod.collapse)
  moreover have "in_i64 (physical (snd (Now wall (hlc c))))" using assms(3) by (simp add: Now_def Let_def wrap64_in_i64)
  ultimately show ?thesis using assms(1) by (auto simp: chain_inv_def Let_def)
qed

lemma handleSignAppend_inv:
  assumes "crypto_ok C" "daemon_inv C A K d" "envOk C A K V"
    and "case decodeStruct SignAppendReq b of Some m \<Rightarrow> cutsOk m | None \<Rightarrow> True"
  shows "daemon_inv C A K (snd (handleSignAppend V b d))"
proof -
  let ?d = "snd (handleSignAppend V b d)"
  have V: "dvCrypto V = C" "dvAead V = A" "in_i64 (dvWall V)" using assms(3) by (simp_all add: envOk_def)
  have inv: "chain_inv C K (dChain d)" "coherent C A (dKeystore d)" "keysAgree C A K (dKeystore d)"
    using assms(2) by (simp_all add: daemon_inv_def)
  have "coherent C A (dKeystore ?d) \<and> keysAgree C A K (dKeystore ?d)"
    using signAppend_final(2) [of V b d] inv V by (auto simp: Load_def coherent_load keysAgree_load [unfolded Load_def])
  moreover have "chain_inv C K (dChain ?d)"
    using signAppend_final(3) [of V b d]
  proof
    assume "\<exists>m agent ks x. decodeStruct SignAppendReq b = Some m \<and>
       Load (dvCrypto V) (dvAead V) (dvKs V) (strF m ''agent_id'') (dKeystore d) = (Inr agent, ks) \<and>
       AppendNew (dvCrypto V) (buildReceipt (dvCrypto V) (dvNow V) m) (agPrivateKey agent) (dvWall V) (dvDb V) (dChain d) = (x, dChain ?d)"
    then obtain m agent ks x where m: "decodeStruct SignAppendReq b = Some m"
      and ld: "loadLocked C A (dvKs V) (strF m ''agent_id'') (dKeystore d) = (Inr agent, ks)"
      and ap: "AppendNew C (buildReceipt C (dvNow V) m) (agPrivateKey agent) (dvWall V) (dvDb V) (dChain d) = (x, dChain ?d)"
      unfolding V Load_def by blast
    show ?thesis
    proof (cases "length (agPrivateKey agent) = 64")
      case True
      obtain t where "diskAgent C A t (dKeystore d) (strF m ''agent_id'') = Inr agent" using loadLocked_keys [OF ld inv(2)] ..
      then have "agPrivateKey agent = K (strF m ''agent_id'')" using inv(3) True by (auto simp: keysAgree_def)
      moreover have "cutsOk m" using assms(4) m by simp
      ultimately have "append_allowed K (buildReceipt C (dvNow V) m) (agPrivateKey agent) (dvWall V)"
        using buildReceipt_utf8 [OF decodeStruct_ok [OF m]] buildReceipt_Inr [of C "dvNow V" m] V(3)
        unfolding append_allowed_def by (metis sum.inject(2))
      then show ?thesis using AppendNew_inv [OF assms(1) inv(1), of _ _ _ "dvDb V"] ap by (metis snd_conv)
    next
      case False
      then show ?thesis using AppendNew_short_key [OF inv(1) False V(3)] ap by (metis snd_conv)
    qed
  qed (use inv in simp)
  ultimately show ?thesis by (simp add: daemon_inv_def)
qed

lemma runCompensations_inv:
  assumes "crypto_ok C"
  shows "daemon_inv C A K d \<Longrightarrow> daemon_inv C A K (snd (runCompensations V cs acc d))"
proof (induction cs arbitrary: acc d)
  case (Cons c cs)
  obtain x d1 where ex: "executeCompensation V c d = (x, d1)" by (metis prod.exhaust)
  have "dChain (snd (executeCompensation V c d)) = dChain d \<and> dKeystore (snd (executeCompensation V c d)) = dKeystore d"
    by (simp add: executeCompensation_def Let_def split: list.split option.split)
  then have i1: "daemon_inv C A K d1" using Cons.prems ex by (simp add: daemon_inv_def)
  then have "daemon_inv C A K (d1\<lparr>dChain := snd (MarkCompensationExecuted u j (dChain d1))\<rparr>)" for u j
    using chainStep_inv [OF assms, of K "dChain d1" "EMarkExecuted u j"] by (simp add: daemon_inv_def)
  then show ?case using Cons ex i1 by (simp split: prod.split option.split)
qed simp

lemma handleCompensate_inv:
  "crypto_ok C \<Longrightarrow> daemon_inv C A K d \<Longrightarrow> daemon_inv C A K (snd (handleCompensate V b d))"
  using handleCompensate_final [of V b d] runCompensations_inv [of C A K d V _ "([], 0, 0)"] by metis

lemma handleRegisterCompensate_inv:
  assumes "crypto_ok C" "daemon_inv C A K d"
  shows "daemon_inv C A K (snd (handleRegisterCompensate V b d))"
proof -
  have "dKeystore (snd (handleRegisterCompensate V b d)) = dKeystore d \<and> (dChain (snd (handleRegisterCompensate V b d)) = dChain d \<or>
     (\<exists>u rc. dChain (snd (handleRegisterCompensate V b d)) = snd (SaveCompensation u rc (dChain d))))"
    unfolding handleRegisterCompensate_def Let_def case_prod_beta by (auto split: option.split go.split)
  moreover have "chain_inv C K (snd (SaveCompensation u rc (dChain d)))" for u rc
    using chainStep_inv [OF assms(1), of K "dChain d" "ESaveCompensation u rc"] assms(2) by (simp add: daemon_inv_def)
  ultimately show ?thesis using assms(2) by (auto simp: daemon_inv_def)
qed

lemma daemonStep_inv:
  assumes "crypto_ok C" "aead_ok A" "daemon_inv C A K d" "daemonAllowed C A K e"
  shows "daemon_inv C A K (daemonStep d e)"
proof -
  obtain V f where e: "e = (V, f)" by (cases e)
  have al: "envOk C A K V" "requestOk f" using assms(4) by (simp_all add: e daemonAllowed_def)
  show ?thesis
  proof (cases "frType f \<in> set coreTypes")
    case True
    have "frType f = MsgSignAppend \<Longrightarrow> daemon_inv C A K (snd (handleSignAppend V (frBody f) d))"
      using handleSignAppend_inv [OF assms(1,3) al(1), of "frBody f"] al(2) by (simp add: requestOk_def)
    then show ?thesis
      using True assms(3) handleVerify_inv [OF assms(3) al(1), of "frBody f"] handleRegister_inv [OF assms(2,3) al(1), of "frBody f"]
        handleCompensate_inv [OF assms(1,3), of V "frBody f"] handleRegisterCompensate_inv [OF assms(1,3), of V "frBody f"]
      by (auto simp: e daemonStep_dispatch dispatch_core coreTypes_def)
  next
    case False
    then show ?thesis using dispatch_quiet [of f V d] assms(3) by (auto simp: e daemonStep_dispatch core_def daemon_inv_def)
  qed
qed

interpretation daemonSys: inv_system daemonStep "daemonAllowed C A K" "\<lambda>d. crypto_ok C \<and> aead_ok A \<and> daemon_inv C A K d"
  for C :: crypto and A :: aead and K :: "string \<Rightarrow> bytes"
  by unfold_locales (simp add: daemonStep_inv)

lemma NewDaemon_inv:
  assumes "NewDaemon C dev openFails mkdirErr schemaErr st = Inr d" "stChain st = emptyDB" "stKeystore st = Inr (newKeystore key [])"
  shows "daemon_inv C A K d"
proof -
  obtain c where c: "Open openFails emptyDB = Ok c" and d: "dChain d = c" "dKeystore d = newKeystore key []"
    using assms by (auto simp: NewDaemon_def split: go.splits option.splits sum.splits)
  have "keysAgree C A K (newKeystore key [])" by (simp add: keysAgree_def diskAgent_def newKeystore_def)
  then show ?thesis using Open_fresh_inv [OF c] d coherent_new [of C A key "[]"] by (simp add: daemon_inv_def)
qed

text \<open>
  Whatever clients send, the daemon's chain verifies. A daemon started on an empty database
  and an empty keystore may serve any sequence of requests of any kind, malformed ones
  included, with faults of the database, the files and the network along the way; as long as
  no text is cut inside a rune, the whole-chain verification answers Valid for every receipt stored, without keys and with the
  public keys of the agents' key ring.
\<close>

theorem daemon_chain_verifies:
  assumes "crypto_ok C" and "aead_ok A"
    and "NewDaemon C dev openFails mkdirErr schemaErr st = Inr d0" and "stChain st = emptyDB" and "stKeystore st = Inr (newKeystore key [])"
    and "list_all (daemonAllowed C A K) es" and "d = run daemonStep d0 es"
  shows "VerifyChain C noVerifyFaults None (dChain d) = Ok (validResult (length (receipts (db (dChain d)))))
    \<and> VerifyChain C noVerifyFaults (Some (\<lambda>a. Some (edPublic C (K a)))) (dChain d) = Ok (validResult (length (receipts (db (dChain d)))))"
proof -
  have "crypto_ok C \<and> aead_ok A \<and> daemon_inv C A K d0" using assms(1,2) NewDaemon_inv [OF assms(3-5)] by simp
  then have "chain_inv C K (dChain d)" using daemonSys.run_inv [OF _ assms(6)] assms(7) by (simp add: daemon_inv_def)
  then show ?thesis by (simp add: VerifyChain_inv)
qed

section \<open>The answers\<close>

text \<open>Which answer types belong to which request.\<close>

definition answerTypes :: "(msg \<times> msg) list" where
  "answerTypes = [(MsgSignAppend, MsgSignAppendResp), (MsgSignAppend, MsgNociceptionError), (MsgVerify, MsgVerifyResp),
     (MsgQuery, MsgQueryResp), (MsgRegister, MsgRegisterResp), (MsgStatus, MsgStatusResp), (MsgSnapshot, MsgSnapshotResp),
     (MsgRestore, MsgRestoreResp), (MsgRegisterCompensate, MsgRegisterCompensateResp), (MsgCompensate, MsgCompensateResp),
     (MsgPolicyRegister, MsgPolicyRegisterResp), (MsgPolicyList, MsgPolicyListResp), (MsgPolicyDelete, MsgPolicyDeleteResp),
     (MsgPolicyEvaluate, MsgPolicyEvaluateResp), (MsgTokenRequest, MsgTokenResp), (MsgTokenRevoke, MsgTokenRevokeResp),
     (MsgTokenList, MsgTokenListResp), (MsgMCPStart, MsgMCPStartResp), (MsgMCPStop, MsgMCPStopResp), (MsgMCPStatus, MsgMCPStatusResp),
     (MsgMCPLog, MsgMCPLogResp), (MsgSnapshotList, MsgSnapshotListResp), (MsgSnapshotDiff, MsgSnapshotDiffResp),
     (MsgAuditEvents, MsgAuditEventsResp)]"

definition typed :: "msg list \<Rightarrow> handled \<Rightarrow> bool" where
  "typed ts h \<longleftrightarrow> (case fst h of Ok (t, j) \<Rightarrow> (t = MsgError \<or> t \<in> set ts) \<and> (\<exists>ms. j = JObj ms) | _ \<Rightarrow> True)"

lemma typed_intros [simp]:
  "typed ts (failWith m d)" "typed ts (Panic, d)"
  "typed ts (Ok (t, JObj ms), d) \<longleftrightarrow> t = MsgError \<or> t \<in> set ts"
  by (simp_all add: typed_def failWith_def ErrorResp_def)

lemmas resp_defs = SignAppendResp_def verifyRespJson_def RegisterResp_def SnapshotResp_def RestoreResp_def SnapshotListResp_def
  SnapshotDiffResp_def successResp_def CompensateResp_def PolicyListResp_def PolicyEvaluateResp_def TokenRequestResp_def
  TokenListResp_def AuditEventsResp_def QueryResp_def MCPLogResp_def MCPStatusResp_def mcpNotRunning_def NociceptionJson_def ErrorResp_def

lemma typed_sign_append: "typed [MsgSignAppendResp, MsgNociceptionError] (handleSignAppend V b d)"
proof (cases rule: signAppend_cases [of V b d])
  case (rejected e)
  then show ?thesis by (simp add: typed_def ErrorResp_def)
next
  case (denied m res d1)
  then show ?thesis by (simp add: denyReply_def resp_defs split: option.split)
next
  case (unknown m res d1 e ks)
  then show ?thesis by simp
next
  case (loaded m res d1 agent ks x c)
  then show ?thesis by (cases x) (simp_all add: resp_defs split: prod.split go.split)
qed

lemma typed_reads:
  "typed [MsgVerifyResp] (handleVerify V b d)" "typed [MsgQueryResp] (handleQuery V b d)" "typed [MsgStatusResp] (handleStatus V d)"
  "typed [MsgRegisterResp] (handleRegister V b d)"
  by (simp_all add: handleVerify_def handleQuery_def handleStatus_def handleRegister_def resp_defs Let_def
      split: option.split go.split prod.split sum.split)

lemma typed_snapshots:
  "typed [MsgSnapshotResp] (handleSnapshot V b d)" "typed [MsgRestoreResp] (handleRestore V b d)"
  "typed [MsgSnapshotListResp] (handleSnapshotList V b d)" "typed [MsgSnapshotDiffResp] (handleSnapshotDiff V b d)"
  by (simp_all add: handleSnapshot_def handleRestore_def handleSnapshotList_def handleSnapshotDiff_def resp_defs Let_def
      split: option.split sum.split prod.split)

lemma typed_tokens:
  "typed [MsgTokenResp] (handleTokenRequest V b d)" "typed [MsgTokenRevokeResp] (handleTokenRevoke V b d)" "typed [MsgTokenListResp] (handleTokenList V d)"
  "typed [MsgAuditEventsResp] (handleAuditEvents V b d)"
  by (simp_all add: handleTokenRequest_def handleTokenRevoke_def handleTokenList_def handleAuditEvents_def resp_defs Let_def
      split: option.split sum.split prod.split)

lemma typed_policies:
  "typed [MsgPolicyRegisterResp] (handlePolicyRegister V b d)" "typed [MsgPolicyListResp] (handlePolicyList V b d)"
  "typed [MsgPolicyDeleteResp] (handlePolicyDelete V b d)" "typed [MsgPolicyEvaluateResp] (handlePolicyEvaluate V b d)"
  by (simp_all add: handlePolicyRegister_def handlePolicyList_def handlePolicyDelete_def handlePolicyEvaluate_def resp_defs Let_def
      split: option.split go.split prod.split)

lemma typed_compensation: "typed [MsgRegisterCompensateResp] (handleRegisterCompensate V b d)"
  by (simp add: handleRegisterCompensate_def resp_defs Let_def split: option.split go.split prod.split)

lemma typed_compensate: "typed [MsgCompensateResp] (handleCompensate V b d)"
  unfolding handleCompensate_def case_prod_beta by (simp add: resp_defs split: option.split go.split)

lemma typed_mcp:
  "typed [MsgMCPStartResp] (handleMCPStart V b d)" "typed [MsgMCPStopResp] (handleMCPStop V d)"
  "typed [MsgMCPStatusResp] (handleMCPStatus V d)" "typed [MsgMCPLogResp] (handleMCPLog V b d)"
  by (simp_all add: handleMCPStart_def handleMCPStop_def handleMCPStatus_def handleMCPLog_def resp_defs Let_def split: option.split)

lemmas typed_handlers = typed_sign_append typed_reads typed_snapshots typed_tokens typed_policies typed_compensation typed_compensate typed_mcp

definition answersTo :: "msg \<Rightarrow> handled \<Rightarrow> bool" where
  "answersTo q h \<longleftrightarrow> (case fst h of Ok (t, j) \<Rightarrow> (t = MsgError \<or> (q, t) \<in> set answerTypes) \<and> (\<exists>ms. j = JObj ms) | _ \<Rightarrow> True)"

lemma answersTo_typed: "typed ts h \<Longrightarrow> \<forall>u\<in>set ts. (q, u) \<in> set answerTypes \<Longrightarrow> answersTo q h"
  by (auto simp: typed_def answersTo_def split: go.splits)

lemma answersTo_failWith [simp]: "answersTo q (failWith m d)"
  by (rule answersTo_typed [of "[]"]) simp_all

lemma answersTo_handlers:
  "answersTo MsgSignAppend (handleSignAppend V b d)"
  "answersTo MsgVerify (handleVerify V b d)"
  "answersTo MsgQuery (handleQuery V b d)"
  "answersTo MsgRegister (handleRegister V b d)"
  "answersTo MsgStatus (handleStatus V d)"
  "answersTo MsgSnapshot (handleSnapshot V b d)"
  "answersTo MsgRestore (handleRestore V b d)"
  "answersTo MsgRegisterCompensate (handleRegisterCompensate V b d)"
  "answersTo MsgCompensate (handleCompensate V b d)"
  "answersTo MsgPolicyRegister (handlePolicyRegister V b d)"
  "answersTo MsgPolicyList (handlePolicyList V b d)"
  "answersTo MsgPolicyDelete (handlePolicyDelete V b d)"
  "answersTo MsgPolicyEvaluate (handlePolicyEvaluate V b d)"
  "answersTo MsgTokenRequest (handleTokenRequest V b d)"
  "answersTo MsgTokenRevoke (handleTokenRevoke V b d)"
  "answersTo MsgTokenList (handleTokenList V d)"
  "answersTo MsgMCPStart (handleMCPStart V b d)"
  "answersTo MsgMCPStop (handleMCPStop V d)"
  "answersTo MsgMCPStatus (handleMCPStatus V d)"
  "answersTo MsgMCPLog (handleMCPLog V b d)"
  "answersTo MsgSnapshotList (handleSnapshotList V b d)"
  "answersTo MsgSnapshotDiff (handleSnapshotDiff V b d)"
  "answersTo MsgAuditEvents (handleAuditEvents V b d)"
  by (rule answersTo_typed, rule typed_handlers, simp add: answerTypes_def)+

lemma dispatch_answers: "answersTo (frType f) (dispatch V f d)"
  unfolding dispatch_def Let_def by (simp add: answersTo_handlers)

text \<open>
  C33. Answers have the type their request calls for. Whatever a request contains and whatever
  fails while it is served, an answer is an error message or of a type that belongs to the
  request's type, never another, and its body is a JSON object.
\<close>

theorem answer_typed:
  assumes "dispatch V f d = (Ok (t, reply), d')"
  shows "(t = MsgError \<or> (frType f, t) \<in> set answerTypes) \<and> (\<exists>ms. reply = JObj ms)"
  using dispatch_answers [of f V d] assms by (simp add: answersTo_def)

theorem answer_typed_witness:
  "fst (dispatch exDEnv \<lparr>frType = MsgAuditEvents, frBody = []\<rparr> exDaemon) = Ok (MsgAuditEventsResp, AuditEventsResp (getAuditEvents 0 newRing)) \<and>
   (\<exists>ms. AuditEventsResp (getAuditEvents 0 newRing) = JObj ms)"
proof -
  have e: "intF (decodeLenient AuditEventsReq []) ''limit'' = 0" by (simp add: decodeLenient_def jsonParse_def skipWs_def intF_def)
  have a: "dAudit exDaemon = newRing" by (simp add: exDaemon_def)
  have "dispatch exDEnv \<lparr>frType = MsgAuditEvents, frBody = []\<rparr> exDaemon =
      (Ok (MsgAuditEventsResp, AuditEventsResp (getAuditEvents 0 newRing)), exDaemon)"
    by (simp add: dispatch_def handleAuditEvents_def msg_defs e a)
  then show ?thesis using answer_typed [of exDEnv "\<lparr>frType = MsgAuditEvents, frBody = []\<rparr>" exDaemon] by auto
qed

text \<open>A fresh daemon that registers an agent and appends for it.\<close>

definition exStored :: stored where
  "exStored = \<lparr>stChain = emptyDB, stKeystore = Inr exKeystore, stRoot = Some [''w''], stHome = Some ''/home'', stSnaps = [], stWorld = exWorld,
     stPolicies = [], stMcp = \<lparr>mrows = [], mseq = 0\<rparr>\<rparr>"

definition exRequests :: "(daemon_env \<times> Frame) list" where
  "exRequests = [(exDEnv, \<lparr>frType = MsgRegister, frBody = jsonEnc (JObj [(''name'', JStr ''bot'')])\<rparr>),
     (exDEnv, \<lparr>frType = MsgSignAppend, frBody = jsonEnc (JObj exMembers)\<rparr>), (exDEnv, \<lparr>frType = 200, frBody = ''junk''\<rparr>)]"

lemma exEnvOk: "envOk flatCrypto toyAead (\<lambda>i. Keystore.exKey 0) exDEnv"
  by (simp add: envOk_def exDEnv_def exKsEnv_def nonceSize_def in_i64_def)

lemma exStored_starts: "\<exists>d0. NewDaemon flatCrypto False (\<lambda>s. False) False False exStored = Inr d0"
proof -
  have "\<exists>c. Open (\<lambda>s. False) emptyDB = Ok c" by (simp add: Open_def openSteps_def selectTip_def emptyDB_def)
  then show ?thesis by (auto simp: NewDaemon_def exStored_def initSnapshotStore_def NewSnapStore_def)
qed

lemma exStored_empty: "stChain exStored = emptyDB" "stKeystore exStored = Inr (newKeystore (replicate 32 (CHR ''k'')) [])"
  by (simp_all add: exStored_def exKeystore_def)

lemma exRequests_allowed: "list_all (daemonAllowed flatCrypto toyAead (\<lambda>i. Keystore.exKey 0)) exRequests"
proof -
  have "cutsOk exFields" by (simp add: cutsOk_def exFields_str truncateStr_def)
  then show ?thesis
    by (simp add: exRequests_def daemonAllowed_def exEnvOk requestOk_def exDecode MsgRegister_def MsgSignAppend_def del: jsonEnc.simps)
qed

theorem daemon_chain_verifies_witness:
  "\<exists>d0. NewDaemon flatCrypto False (\<lambda>s. False) False False exStored = Inr d0 \<and>
     VerifyChain flatCrypto noVerifyFaults None (dChain (run daemonStep d0 exRequests)) =
       Ok (validResult (length (receipts (db (dChain (run daemonStep d0 exRequests))))))"
proof -
  obtain d0 where d0: "NewDaemon flatCrypto False (\<lambda>s. False) False False exStored = Inr d0" using exStored_starts by blast
  show ?thesis using daemon_chain_verifies [OF flatCrypto_ok toyAead_ok d0 exStored_empty exRequests_allowed refl] d0 by blast
qed

end
