(* ===== verification/DaemonCompensate.thy ===== *)
theory DaemonCompensate
  imports DaemonSystem
begin

text \<open>
  Compensation through the daemon: which commands are run, and that nothing keeps a command from
  being run again.
\<close>

text \<open>
  C32. Only listed commands are ever run. Whatever requests a daemon that has run no command
  receives, from whatever clients and with whatever compensation commands registered, each
  command it runs has a base name on the list of permitted compensation commands.
\<close>

theorem compensation_commands_allowed:
  assumes "dRan d = []" and "(cmd, args) \<in> set (dRan (snd (Handle V n s d)))"
  shows "filepathBase cmd \<in> set allowedCompensationCmds"
proof -
  obtain es where "snd (Handle V n s d) = run daemonStep d es" using Handle_run by blast
  moreover have "allowedRan d" using assms(1) by (simp add: allowedRan_def)
  ultimately have "allowedRan (snd (Handle V n s d))" using ranSys.run_inv [of d es] by (simp add: list_all_iff)
  then show ?thesis using assms(2) by (auto simp: allowedRan_def list_all_iff)
qed

section \<open>Every request runs everything\<close>

text \<open>The commands a compensation record makes the daemon start.\<close>

definition commandsOf :: "CompensationRecord \<Rightarrow> (string \<times> string list) list" where
  "commandsOf c = (case splitFields [] (crReverseCmd c) of
     [] \<Rightarrow> [] | cmd # args \<Rightarrow> if filepathBase cmd \<in> set allowedCompensationCmds then [(cmd, args)] else [])"

lemma splitFields_Nil [simp]: "splitFields [] [] = []"
  by (subst splitFields.simps) simp

lemma executeCompensation_ran: "dRan (snd (executeCompensation V c d)) = dRan d @ commandsOf c"
  by (simp add: executeCompensation_def commandsOf_def Let_def split: list.split option.split)

lemma runCompensations_ran: "dRan (snd (runCompensations V cs acc d)) = dRan d @ concat (map commandsOf cs)"
proof (induction cs arbitrary: acc d)
  case (Cons c cs)
  obtain x d1 where ex: "executeCompensation V c d = (x, d1)" by (metis prod.exhaust)
  have "dRan d1 = dRan d @ commandsOf c" using executeCompensation_ran [of V c d] ex by simp
  moreover have "crReverseCmd c = [] \<Longrightarrow> commandsOf c = []" by (simp add: commandsOf_def)
  ultimately show ?case using Cons.IH ex by (auto split: prod.split option.split)
qed simp

text \<open>Marking a compensation as executed changes no command.\<close>

definition sameComps :: "Chain \<Rightarrow> Chain \<Rightarrow> bool" where
  "sameComps c c' \<longleftrightarrow> map (\<lambda>r. r\<lparr>comp_executed := 0\<rparr>) (compensations (db c')) = map (\<lambda>r. r\<lparr>comp_executed := 0\<rparr>) (compensations (db c))"

lemma sameComps_mark: "sameComps c (snd (MarkCompensationExecuted u i c))"
  by (auto simp: sameComps_def MarkCompensationExecuted_def)

lemma runCompensations_same: "sameComps (dChain d) (dChain (snd (runCompensations V cs acc d)))"
proof (induction cs arbitrary: acc d)
  case Nil
  then show ?case by (simp add: sameComps_def)
next
  case (Cons c cs)
  obtain x d1 where ex: "executeCompensation V c d = (x, d1)" by (metis prod.exhaust)
  have "dChain (snd (executeCompensation V c d)) = dChain d"
    by (simp add: executeCompensation_def Let_def split: list.split option.split)
  then have "dChain d1 = dChain d" using ex by simp
  moreover have "sameComps (dChain d) (dChain (snd (runCompensations V cs acc2
      (d1\<lparr>dChain := snd (MarkCompensationExecuted u i (dChain d))\<rparr>))))" for u i acc2
    using sameComps_mark [of "dChain d" u i] Cons.IH [of "d1\<lparr>dChain := snd (MarkCompensationExecuted u i (dChain d))\<rparr>" acc2]
    by (simp add: sameComps_def)
  ultimately show ?case using Cons.IH [of d] Cons.IH [of d1] ex by (auto split: prod.split option.split)
qed

lemma sort_key_map_keep:
  assumes "\<And>x. f (z x) = f x"
  shows "sort_key f (map z xs) = map z (sort_key f xs)"
proof -
  have "insort_key f (z x) (map z ys) = map z (insort_key f x ys)" for x ys by (induction ys) (simp_all add: assms)
  then show ?thesis by (induction xs) simp_all
qed

lemma commands_same:
  assumes "sameComps c c'" "GetCompensations u i c = Ok cs"
  shows "\<exists>cs'. GetCompensations u i c' = Ok cs' \<and> map commandsOf cs' = map commandsOf cs \<and> (cs' = [] \<longleftrightarrow> cs = [])"
proof -
  let ?z = "\<lambda>r. r\<lparr>comp_executed := 0\<rparr>"
  obtain k where k: "u64Arg i = Some k" "\<not> u" using assms(2) by (auto simp: GetCompensations_def split: if_splits option.splits)
  define sel where "sel rows = rev (sort_key comp_chain_index (filter (\<lambda>row. k \<le> comp_chain_index row) rows))" for rows :: "compensation_row list"
  have f: "filter (\<lambda>row. k \<le> comp_chain_index row) (map ?z rows) = map ?z (filter (\<lambda>row. k \<le> comp_chain_index row) rows)" for rows
    by (simp add: filter_map comp_def)
  have "sort_key comp_chain_index (map ?z rows) = map ?z (sort_key comp_chain_index rows)" for rows :: "compensation_row list"
    by (rule sort_key_map_keep) simp
  then have sz: "map ?z (sel rows) = sel (map ?z rows)" for rows by (simp add: sel_def f rev_map)
  have cm: "commandsOf (scanCompensation (?z r)) = commandsOf (scanCompensation r)" for r
    by (simp add: commandsOf_def scanCompensation_def)
  have "map ?z (sel (compensations (db c'))) = map ?z (sel (compensations (db c)))"
    using assms(1) sz by (simp add: sameComps_def)
  then have "map (\<lambda>r. commandsOf (scanCompensation r)) (map ?z (sel (compensations (db c')))) =
      map (\<lambda>r. commandsOf (scanCompensation r)) (map ?z (sel (compensations (db c))))"
    by (simp only:)
  then have e: "map (\<lambda>r. commandsOf (scanCompensation r)) (sel (compensations (db c'))) = map (\<lambda>r. commandsOf (scanCompensation r)) (sel (compensations (db c)))"
    by (simp only: map_map comp_def cm)
  have "cs = map scanCompensation (sel (compensations (db c)))" using assms(2) k by (simp add: GetCompensations_def sel_def)
  moreover have "GetCompensations u i c' = Ok (map scanCompensation (sel (compensations (db c'))))" using k by (simp add: GetCompensations_def sel_def)
  moreover have "sel (compensations (db c')) = [] \<longleftrightarrow> sel (compensations (db c)) = []" using e by (metis map_is_Nil_conv)
  ultimately show ?thesis using e by (auto simp: comp_def)
qed

text \<open>
  A compensation that has succeeded is run again. Whatever a compensate request ran, the
  same request sent again runs exactly the same commands once more: the mark that a
  compensation was executed is stored but never read.
\<close>

theorem compensations_run_again:
  assumes "handleCompensate V body d = (Ok r, d1)"
  shows "\<exists>cmds. dRan d1 = dRan d @ cmds \<and> dRan (snd (handleCompensate V body d1)) = dRan d1 @ cmds"
proof (cases "decodeStruct CompensateReq body")
  case None
  then show ?thesis using assms by (auto simp: handleCompensate_def failWith_def)
next
  case (Some m)
  note dec = Some
  let ?i = "u64F m ''target_index''"
  show ?thesis
  proof (cases "GetCompensations (dvDb V) ?i (dChain d)")
    case (Ok cs)
    note get = Ok
    show ?thesis
    proof (cases "?i = 0 \<or> cs = [] \<or> boolF m ''dry_run''")
      case True
      then have "d1 = d" using assms by (auto simp: handleCompensate_def dec get failWith_def split: if_splits)
      then show ?thesis using assms by (intro exI [of _ "[]"]) simp
    next
      case False
      have d1: "d1 = snd (runCompensations V cs ([], 0, 0) d)"
        using assms False by (simp add: handleCompensate_def dec get case_prod_beta)
      obtain cs' where cs': "GetCompensations (dvDb V) ?i (dChain d1) = Ok cs'" "map commandsOf cs' = map commandsOf cs" "cs' = [] \<longleftrightarrow> cs = []"
        using commands_same [OF runCompensations_same get, of V cs "([], 0, 0)"] d1 by blast
      have "snd (handleCompensate V body d1) = snd (runCompensations V cs' ([], 0, 0) d1)"
        using False cs' by (simp add: handleCompensate_def dec case_prod_beta)
      then show ?thesis
        using runCompensations_ran [of V cs "([], 0, 0)" d] runCompensations_ran [of V cs' "([], 0, 0)" d1] d1 cs'(2) by auto
    qed
  qed (use assms in \<open>auto simp: handleCompensate_def dec failWith_def split: if_splits\<close>)
qed

section \<open>Concrete instances\<close>

definition exComp :: compensation_row where
  "exComp = \<lparr>comp_id = 1, comp_chain_index = 1, comp_agent_id = ''a'', comp_receipt_id = ''r'', comp_action_type = ''t'',
     comp_reverse_action = ''undo'', comp_reverse_cmd = ''/bin/rm x'', comp_executed = 0, comp_created_ns = 5\<rparr>"

definition exCompDaemon :: Daemon where
  "exCompDaemon = exDaemon\<lparr>dChain := exEmpty\<lparr>db := emptyDB\<lparr>compensations := [exComp]\<rparr>\<rparr>\<rparr>"

definition exCompBody :: bytes where
  "exCompBody = jsonEnc (JObj [(''target_index'', JNum ''1'')])"

lemma exComp_commands: "commandsOf (scanCompensation exComp) = [(''/bin/rm'', [''x''])]"
  by code_simp

lemma exComp_decode: "\<exists>m. decodeStruct CompensateReq exCompBody = Some m \<and> u64F m ''target_index'' = 1 \<and> \<not> boolF m ''dry_run''"
proof -
  let ?ms = "[(''target_index'', JNum ''1'')]"
  have one: "showInt 1 = ''1''" by code_simp
  moreover have "parseU64 ''1'' = Some 1" by (simp add: parseU64_def readNat_def is_digit_def)
  ultimately have one: "showInt 1 = ''1''" "parseU64 ''1'' = Some 1" by simp_all
  have "flat_ok ?ms" using one(1) by (auto simp: flat_ok_def intro!: validUtf8_ascii exI [of _ 1])
  moreover have "wellTyped CompensateReq ?ms" by (simp add: wellTyped_def CompensateReq_def decodeField_def one)
  ultimately have "decodeStruct CompensateReq exCompBody = Some (fieldsOf CompensateReq ?ms)"
    unfolding exCompBody_def by (rule decodeStruct_encode)
  then show ?thesis by (simp add: field_defs fieldsOf_def CompensateReq_def decodeField_def one)
qed

lemma exComp_runs: "\<exists>r d1. handleCompensate exDEnv exCompBody exCompDaemon = (Ok r, d1) \<and> dRan d1 = [(''/bin/rm'', [''x''])]"
proof -
  obtain m where m: "decodeStruct CompensateReq exCompBody = Some m" "u64F m ''target_index'' = 1" "\<not> boolF m ''dry_run''"
    using exComp_decode by blast
  have g: "GetCompensations (dvDb exDEnv) 1 (dChain exCompDaemon) = Ok [scanCompensation exComp]"
    by (simp add: GetCompensations_def exDEnv_def exCompDaemon_def u64Arg_def exComp_def)
  have "dRan (snd (runCompensations exDEnv [scanCompensation exComp] ([], 0, 0) exCompDaemon)) = [(''/bin/rm'', [''x''])]"
    using runCompensations_ran [of exDEnv "[scanCompensation exComp]" "([], 0, 0)" exCompDaemon] exComp_commands
    by (simp add: exCompDaemon_def exDaemon_def del: runCompensations.simps)
  then show ?thesis using m g by (simp add: handleCompensate_def case_prod_beta del: runCompensations.simps)
qed

theorem compensations_run_again_witness:
  "\<exists>r d1. handleCompensate exDEnv exCompBody exCompDaemon = (Ok r, d1) \<and>
     dRan (snd (handleCompensate exDEnv exCompBody d1)) = [(''/bin/rm'', [''x'']), (''/bin/rm'', [''x''])]"
proof -
  obtain r d1 where h: "handleCompensate exDEnv exCompBody exCompDaemon = (Ok r, d1)" "dRan d1 = [(''/bin/rm'', [''x''])]"
    using exComp_runs by blast
  have "dRan exCompDaemon = []" by (simp add: exCompDaemon_def exDaemon_def)
  then show ?thesis using compensations_run_again [OF h(1)] h by auto
qed

theorem compensation_commands_allowed_witness:
  "\<exists>w. WriteFrame MsgCompensate exCompBody = Some w \<and> (''/bin/rm'', [''x'']) \<in> set (dRan (snd (Handle (\<lambda>k. exDEnv) 0 w exCompDaemon))) \<and>
     filepathBase ''/bin/rm'' \<in> set allowedCompensationCmds"
proof -
  have "length exCompBody + 1 \<le> MaxFrameSize" by (simp add: exCompBody_def jsonString_def MaxFrameSize_def jsonBody.simps jsonEscape_def)
  then obtain w where w: "WriteFrame MsgCompensate exCompBody = Some w" by (simp add: WriteFrame_def)
  obtain r d1 where h: "handleCompensate exDEnv exCompBody exCompDaemon = (Ok r, d1)" "dRan d1 = [(''/bin/rm'', [''x''])]"
    using exComp_runs by blast
  have "MsgCompensate < 256" by (simp add: msg_defs)
  then have rd: "ReadFrame w = Inr (\<lparr>frType = MsgCompensate, frBody = exCompBody\<rparr>, [])" using ReadFrame_WriteFrame [OF w, of "[]"] by simp
  have hf: "handleFrame exDEnv \<lparr>frType = MsgCompensate, frBody = exCompBody\<rparr> exCompDaemon = (Ok (writeOK r), d1)"
    by (simp add: handleFrame_def dispatch_core h(1) MsgCompensate_def MsgPing_def)
  have "Handle (\<lambda>k. exDEnv) 1 [] d1 = (Ok [], d1)" by (subst Handle.simps) (simp add: ReadFrame_def)
  then have "snd (Handle (\<lambda>k. exDEnv) 0 w exCompDaemon) = d1" by (subst Handle.simps) (simp add: rd hf)
  then have "(''/bin/rm'', [''x'']) \<in> set (dRan (snd (Handle (\<lambda>k. exDEnv) 0 w exCompDaemon)))" using h(2) by simp
  moreover have "dRan exCompDaemon = []" by (simp add: exCompDaemon_def exDaemon_def)
  ultimately show ?thesis using compensation_commands_allowed w by blast
qed

end
