(* ===== verification/DaemonLive.thy ===== *)
theory DaemonLive
  imports DaemonSystem
begin

text \<open>
  The daemon keeps serving: as long as every stored key is a whole key pair, no request makes it
  panic, and each request of a connection gets its answer, in order.
\<close>

section \<open>No panics below the handlers\<close>

lemma no_panic_chain [simp]:
  "decodeRow row \<noteq> Panic" "decodeRows rows \<noteq> Panic" "Get u i c \<noteq> Panic" "ListReceipts u v q c \<noteq> Panic" "GetStats u p s c \<noteq> Panic"
  "GetCompensations u k c \<noteq> Panic" "fst (SaveCompensation u rc c) \<noteq> Panic"
proof -
  show row: "decodeRow r \<noteq> Panic" for r by (simp add: decodeRow_def split: option.split)
  show "decodeRows rows \<noteq> Panic" for rows by (induction rows) (auto simp: row split: go.split)
  then show "ListReceipts u v q c \<noteq> Panic" by (simp add: ListReceipts_def split: go.split)
  show "Get u i c \<noteq> Panic" by (simp add: Get_def row split: option.split)
qed (auto simp: GetStats_def GetCompensations_def SaveCompensation_def Let_def split: option.split)

lemma no_panic_policies [simp]:
  "scanPolicies L rows \<noteq> Panic" "listNoLock L u v rows \<noteq> Panic" "fst (Insert L u t p st) \<noteq> Panic" "fst (Delete u i st) \<noteq> Panic"
  "fst (ListEnabled L u v t1 t2 t3 rows NewStore) \<noteq> Panic"
proof -
  have p: "scanPolicy L row \<noteq> Panic" for row by (simp add: scanPolicy_def split: option.split)
  show sp: "scanPolicies L rows \<noteq> Panic" for rows by (induction rows) (auto simp: p split: go.split)
  then show l: "listNoLock L u v rows \<noteq> Panic" by (simp add: listNoLock_def split: go.split)
  show "fst (ListEnabled L u v t1 t2 t3 rows NewStore) \<noteq> Panic"
    using l by (auto simp: ListEnabled_def fresh_def NewStore_def Let_def split: go.split)
qed (auto simp: Insert_def Delete_def Let_def split: prod.split option.split)

lemma no_panic_pair [simp]: "SaveCompensation u rc c \<noteq> (Panic, x)" "Insert L u t p st \<noteq> (Panic, y)" "Delete u i st \<noteq> (Panic, z)"
  using no_panic_chain(7) [of u rc c] no_panic_policies(3) [of L u t p st] no_panic_policies(4) [of u i st] by force+

lemma AppendNew_panic: "fst (AppendNew C f priv wall u c) = Panic \<Longrightarrow> length priv \<noteq> 64"
  by (auto simp: AppendNew_def Let_def Sign_def ed25519Sign_def split: sum.splits if_splits prod.splits go.splits option.splits)

lemma VerifyReceipt_panic:
  "VerifyReceipt C u i pk c = Panic \<Longrightarrow> \<exists>m a pub. pk = Some m \<and> m a = Some pub \<and> length pub \<noteq> 32"
  by (auto simp: VerifyReceipt_def Let_def Verify_def ed25519Verify_def split: if_splits option.splits go.splits)

section \<open>Handlers that always answer\<close>

definition answers :: "handled \<Rightarrow> bool" where
  "answers h \<longleftrightarrow> is_Ok (fst h)"

lemma answers_simps [simp]: "answers (failWith m d)" "answers (Ok r, d)"
  by (simp_all add: answers_def)

lemma answers_reads:
  "answers (handleQuery V b d)" "answers (handleStatus V d)" "answers (handleRegister V b d)"
  by (auto simp: handleQuery_def handleStatus_def handleRegister_def split: option.split go.split sum.split prod.split)

lemma answers_snapshots:
  "answers (handleSnapshot V b d)" "answers (handleRestore V b d)" "answers (handleSnapshotList V b d)" "answers (handleSnapshotDiff V b d)"
  by (simp_all add: handleSnapshot_def handleRestore_def handleSnapshotList_def handleSnapshotDiff_def Let_def
      split: option.split sum.split prod.split)

lemma answers_tokens:
  "answers (handleTokenRequest V b d)" "answers (handleTokenRevoke V b d)" "answers (handleTokenList V d)" "answers (handleAuditEvents V b d)"
  by (simp_all add: handleTokenRequest_def handleTokenRevoke_def handleTokenList_def handleAuditEvents_def Let_def
      split: option.split sum.split prod.split)

lemma answers_policies:
  "answers (handlePolicyRegister V b d)" "answers (handlePolicyList V b d)" "answers (handlePolicyDelete V b d)" "answers (handlePolicyEvaluate V b d)"
  by (auto simp: handlePolicyRegister_def handlePolicyList_def handlePolicyDelete_def handlePolicyEvaluate_def Let_def
      split: option.split go.split prod.split)

lemma answers_compensation: "answers (handleRegisterCompensate V b d)"
  by (auto simp: handleRegisterCompensate_def Let_def split: option.split go.split prod.split)

lemma answers_compensate: "answers (handleCompensate V b d)"
  unfolding handleCompensate_def case_prod_beta by (auto split: option.split go.split)

lemma answers_mcp:
  "answers (handleMCPStart V b d)" "answers (handleMCPStop V d)" "answers (handleMCPStatus V d)" "answers (handleMCPLog V b d)"
  by (simp_all add: handleMCPStart_def handleMCPStop_def handleMCPStatus_def handleMCPLog_def Let_def split: option.split)

lemmas answers_handlers = answers_reads answers_snapshots answers_tokens answers_policies answers_compensation answers_compensate answers_mcp

section \<open>Whole key pairs\<close>

definition fullKeys :: "crypto \<Rightarrow> aead \<Rightarrow> Keystore \<Rightarrow> bool" where
  "fullKeys C A ks \<longleftrightarrow> (\<forall>t i a. diskAgent C A t ks i = Inr a \<longrightarrow> length (agPrivateKey a) = 64 \<and> length (agPublicKey a) = 32)"

definition alive :: "crypto \<Rightarrow> aead \<Rightarrow> Daemon \<Rightarrow> bool" where
  "alive C A d \<longleftrightarrow> coherent C A (dKeystore d) \<and> fullKeys C A (dKeystore d) \<and> 0 \<le> auditIdx (dAudit d)"

text \<open>The requests: key pairs have their sizes, and no registration brings a public key of its own.\<close>

definition liveEnv :: "crypto \<Rightarrow> aead \<Rightarrow> daemon_env \<Rightarrow> bool" where
  "liveEnv C A V \<longleftrightarrow> dvCrypto V = C \<and> dvAead V = A \<and>
     (case kvKeys (dvKs V) of Some (pub, priv) \<Rightarrow> length priv = 64 \<and> length pub = 32 | None \<Rightarrow> True) \<and>
     (case kvNonce (dvKs V) of Some n \<Rightarrow> length n = nonceSize | None \<Rightarrow> True) \<and>
     (case kvWrite (dvKs V) of Truncated x \<Rightarrow> \<forall>k. ksDecrypt A k x = None | _ \<Rightarrow> True)"

definition liveRequest :: "Frame \<Rightarrow> bool" where
  "liveRequest f \<longleftrightarrow> frType f < 256 \<and> (if frType f = MsgRegister then
     (case decodeStruct RegisterReq (frBody f) of Some m \<Rightarrow> strF m ''public_key_hex'' = [] | None \<Rightarrow> True) else True)"

lemma fullKeys_load: "fullKeys C A ks \<Longrightarrow> fullKeys C A (snd (Load C' A E i ks))"
proof -
  assume a: "fullKeys C A ks"
  have "diskAgent C A t (snd (Load C' A E i ks)) j = diskAgent C A t ks j" for t j
    by (rule diskAgent_cong) (simp_all add: Load_def)
  then show ?thesis using a by (simp add: fullKeys_def)
qed

lemma alive_register:
  assumes "aead_ok A" "alive C A d" "liveEnv C A V" "liveRequest f" "frType f = MsgRegister"
  shows "alive C A (snd (handleRegister V (frBody f) d))"
proof -
  let ?b = "frBody f"
  have A: "dvAead V = A" using assms(3) by (simp add: liveEnv_def)
  have "snd (handleRegister V ?b d) = d \<or> (\<exists>m a. decodeStruct RegisterReq ?b = Some m \<and> registeredAgent V m = Inr a \<and>
      snd (handleRegister V ?b d) = d\<lparr>dKeystore := snd (Save A (dvKs V) a (dKeystore d))\<rparr>)"
    by (auto simp: handleRegister_def A split: option.split sum.split prod.split)
  then show ?thesis
  proof
    assume "\<exists>m a. decodeStruct RegisterReq ?b = Some m \<and> registeredAgent V m = Inr a \<and>
      snd (handleRegister V ?b d) = d\<lparr>dKeystore := snd (Save A (dvKs V) a (dKeystore d))\<rparr>"
    then obtain m a where m: "decodeStruct RegisterReq ?b = Some m" and a: "registeredAgent V m = Inr a"
      and s: "snd (handleRegister V ?b d) = d\<lparr>dKeystore := snd (Save A (dvKs V) a (dKeystore d))\<rparr>" by blast
    have "strF m ''public_key_hex'' = []" using assms(4,5) m by (simp add: liveRequest_def)
    then have ln: "length (agPrivateKey a) = 64" "length (agPublicKey a) = 32" and u: "validUtf8 (agName a)" "validUtf8 (agVersion a)" "validUtf8 (agOwner a)"
      using a assms(3) strF_utf8 [OF decodeStruct_ok [OF m]]
      by (auto simp: registeredAgent_def NewAgent_def liveEnv_def Let_def split: option.splits)
    have "length (agPrivateKey b) = 64 \<and> length (agPublicKey b) = 32" if "diskAgent C A t (snd (saveLocked A (dvKs V) a (dKeystore d))) i = Inr b" for t i b
    proof (cases "i = agID a")
      case True
      then show ?thesis
        using save_same [OF assms(1) _ _ u, of "dvKs V" C t "dKeystore d" b] that ln assms(2,3) by (auto simp: liveEnv_def alive_def fullKeys_def)
    next
      case False
      then show ?thesis using save_other [OF False] that assms(2) by (simp add: alive_def fullKeys_def)
    qed
    then have "fullKeys C A (snd (Save A (dvKs V) a (dKeystore d)))" by (simp add: fullKeys_def Save_def)
    then show ?thesis using s assms(2) coherent_save [of C A "dKeystore d" "dvKs V" a] by (simp add: alive_def Save_def)
  qed (use assms(2) in simp)
qed

lemma load_lengths:
  assumes "Load C A E i ks = (Inr a, ks1)" "coherent C A ks" "fullKeys C A ks"
  shows "length (agPrivateKey a) = 64" "length (agPublicKey a) = 32"
  using loadLocked_keys [OF assms(1) [unfolded Load_def] assms(2)] assms(3) by (auto simp: fullKeys_def)

lemma alive_verify:
  assumes "alive C A d" "liveEnv C A V"
  shows "alive C A (snd (handleVerify V b d)) \<and> dAudit (snd (handleVerify V b d)) = dAudit d"
proof -
  let ?k1 = "\<lambda>i. snd (Load C A (dvKs V) i (dKeystore d))"
  have V: "dvCrypto V = C" "dvAead V = A" using assms(2) by (simp_all add: liveEnv_def)
  have "dKeystore (snd (handleVerify V b d)) = dKeystore d \<or> (\<exists>i. dKeystore (snd (handleVerify V b d)) = ?k1 i) \<or>
      (\<exists>i j. dKeystore (snd (handleVerify V b d)) = snd (Load C A (dvKs2 V) j (?k1 i)))"
    unfolding handleVerify_def V Let_def case_prod_beta by (simp split: go.split) blast
  then have "coherent C A (dKeystore (snd (handleVerify V b d))) \<and> fullKeys C A (dKeystore (snd (handleVerify V b d)))"
    using assms(1) by (auto simp: alive_def Load_def coherent_load fullKeys_load [unfolded Load_def])
  moreover have "dAudit (snd (handleVerify V b d)) = dAudit d"
    by (simp add: handleVerify_def Let_def case_prod_beta split: go.split)
  ultimately show ?thesis using assms(1) by (simp add: alive_def)
qed

lemma answers_verify:
  assumes "alive C A d" "liveEnv C A V"
  shows "answers (handleVerify V b d)"
proof -
  have V: "dvCrypto V = C" "dvAead V = A" using assms(2) by (simp_all add: liveEnv_def)
  have "VerifyReceipt C u i (case la of Inr ag \<Rightarrow> Some [j \<mapsto> agPublicKey ag] | Inl e \<Rightarrow> None) c \<noteq> Panic"
    if "Load C A (dvKs V) j (dKeystore d) = (la, ks1)" for u i j la ks1 c
  proof
    assume "VerifyReceipt C u i (case la of Inr ag \<Rightarrow> Some [j \<mapsto> agPublicKey ag] | Inl e \<Rightarrow> None) c = Panic"
    then obtain a pub where "la = Inr a" "pub = agPublicKey a" "length pub \<noteq> 32"
      by (auto dest!: VerifyReceipt_panic split: sum.splits if_splits)
    then show False using load_lengths(2) [of C A "dvKs V" j "dKeystore d" a ks1] that assms(1) by (simp add: alive_def)
  qed
  then show ?thesis by (auto simp: handleVerify_def V Let_def split: go.split prod.split)
qed

lemma record_live:
  assumes "0 \<le> auditIdx r" "auditIdx r + 1 < 2 ^ 63"
  shows "\<exists>r'. recordAuditEvent t a b c r = Ok r' \<and> auditIdx r' = auditIdx r + 1"
proof -
  have "0 \<le> goRem (auditIdx r) 200" using assms(1) by (simp add: goRem_def)
  then show ?thesis using assms by (simp add: recordAuditEvent_def Let_def wrap64_id in_i64_def)
qed

lemma afterAppend_live:
  assumes "0 \<le> auditIdx (dAudit d)" "auditIdx (dAudit d) + 1 < 2 ^ 63"
  shows "fst (afterAppend V raw d) = Ok () \<and> auditIdx (dAudit (snd (afterAppend V raw d))) = auditIdx (dAudit d) + 1"
proof -
  obtain ring where "recordAuditEvent (dvNow V) ''receipt-chain'' ''COMMIT'' ''receipt appended'' (dAudit d) = Ok ring"
    "auditIdx ring = auditIdx (dAudit d) + 1" using record_live [OF assms] by blast
  then show ?thesis by (simp add: afterAppend_def Let_def split: option.split)
qed

lemma live_sign_append:
  assumes "alive C A d" "liveEnv C A V" "auditIdx (dAudit d) + 1 < 2 ^ 63"
  shows "answers (handleSignAppend V b d)" and "alive C A (snd (handleSignAppend V b d))"
    and "auditIdx (dAudit (snd (handleSignAppend V b d))) \<le> auditIdx (dAudit d) + 1"
proof -
  let ?h = "handleSignAppend V b d"
  have V: "dvCrypto V = C" "dvAead V = A" using assms(2) by (simp_all add: liveEnv_def)
  have inv: "coherent C A (dKeystore d)" "fullKeys C A (dKeystore d)" "0 \<le> auditIdx (dAudit d)" using assms(1) by (simp_all add: alive_def)
  have ks: "coherent C A (dKeystore (snd ?h)) \<and> fullKeys C A (dKeystore (snd ?h))"
    using signAppend_final(2) [of V b d] inv V by (auto simp: Load_def coherent_load fullKeys_load [unfolded Load_def])
  have ev: "dAudit d1 = dAudit d" if "evaluate V f d = (res, d1)" for f res d1
    using evaluate_simps(5) [of V f d] that by simp
  have "answers ?h \<and> auditIdx (dAudit (snd ?h)) \<in> {auditIdx (dAudit d), auditIdx (dAudit d) + 1}"
  proof (cases rule: signAppend_cases [of V b d])
    case (rejected e)
    then show ?thesis by (simp add: answers_def)
  next
    case (denied m res d1)
    then show ?thesis using ev [OF denied(3)] by simp
  next
    case (unknown m res d1 e ks)
    then show ?thesis using ev [OF unknown(2)] by simp
  next
    case (loaded m res d1 agent ks x c)
    have "length (agPrivateKey agent) = 64" using load_lengths(1) [OF loaded(5) [unfolded V] inv(1,2)] .
    then have "x \<noteq> Panic" using AppendNew_panic [of C _ "agPrivateKey agent" "dvWall V" "dvDb V" "dChain d"] loaded(6) V by (metis fst_conv)
    moreover have ?thesis if "x = Ok r" for r
    proof -
      let ?d = "d1\<lparr>dKeystore := ks, dChain := c\<rparr>"
      obtain d3 where "afterAppend V (RawJSON r) ?d = (Ok (), d3)" "auditIdx (dAudit d3) = auditIdx (dAudit d) + 1"
        using afterAppend_live [of ?d V "RawJSON r"] inv(3) assms(3) ev [OF loaded(3)] by (cases "afterAppend V (RawJSON r) ?d") simp
      then show ?thesis using loaded(7) that by simp
    qed
    moreover have ?thesis if "x = Err e" for e using loaded(7) ev [OF loaded(3)] that by simp
    ultimately show ?thesis by (cases x) blast+
  qed
  then show "answers ?h" "alive C A (snd ?h)" "auditIdx (dAudit (snd ?h)) \<le> auditIdx (dAudit d) + 1"
    using ks inv(3) by (auto simp: alive_def)
qed

section \<open>Every request\<close>

lemma comp_kept:
  "dKeystore (snd (handleRegisterCompensate V b d)) = dKeystore d" "dAudit (snd (handleRegisterCompensate V b d)) = dAudit d"
  "dAudit (snd (handleRegister V b d)) = dAudit d"
  by (auto simp: handleRegister_def handleRegisterCompensate_def Let_def failWith_def split: option.split go.split sum.split prod.split)

lemma execute_kept:
  "dKeystore (snd (executeCompensation V c d)) = dKeystore d \<and> dAudit (snd (executeCompensation V c d)) = dAudit d"
  by (auto simp: executeCompensation_def Let_def split: list.split option.split)

lemma run_kept:
  "dKeystore (snd (runCompensations V cs acc d)) = dKeystore d \<and> dAudit (snd (runCompensations V cs acc d)) = dAudit d"
proof (induction cs arbitrary: acc d)
  case (Cons c cs)
  obtain x d1 where ex: "executeCompensation V c d = (x, d1)" by (metis prod.exhaust)
  then have "dKeystore d1 = dKeystore d \<and> dAudit d1 = dAudit d" using execute_kept [of V c d] by simp
  then show ?case using Cons.IH ex by (auto split: prod.split option.split)
qed simp

lemma compensate_kept:
  "dKeystore (snd (handleCompensate V b d)) = dKeystore d \<and> dAudit (snd (handleCompensate V b d)) = dAudit d"
  using handleCompensate_final [of V b d] run_kept [of V _ "([], 0, 0)" d] by metis

definition served :: "crypto \<Rightarrow> aead \<Rightarrow> Daemon \<Rightarrow> handled \<Rightarrow> bool" where
  "served C A d h \<longleftrightarrow> answers h \<and> alive C A (snd h) \<and> auditIdx (dAudit (snd h)) \<le> auditIdx (dAudit d) + 1"

lemma served_same:
  "answers h \<Longrightarrow> dKeystore (snd h) = dKeystore d \<Longrightarrow> dAudit (snd h) = dAudit d \<Longrightarrow> alive C A d \<Longrightarrow> served C A d h"
  by (simp add: served_def alive_def)

lemma live_dispatch:
  assumes A: "aead_ok A" and live: "alive C A d" "liveEnv C A V" "liveRequest f" and idx: "auditIdx (dAudit d) + 1 < 2 ^ 63"
  shows "served C A d (dispatch V f d)"
proof (cases "frType f \<in> set coreTypes")
  case True
  let ?b = "frBody f"
  have "served C A d (handleSignAppend V ?b d)" using live_sign_append [OF live(1,2) idx] by (simp add: served_def)
  moreover have "served C A d (handleVerify V ?b d)"
    using answers_verify [OF live(1,2)] alive_verify [OF live(1,2)] by (simp add: served_def)
  moreover have "served C A d (handleRegister V ?b d)" if "frType f = MsgRegister"
    using answers_reads(3) alive_register [OF A live that] comp_kept(3) [of V ?b d] by (simp add: served_def)
  moreover have "served C A d (handleRegisterCompensate V ?b d)"
    by (rule served_same) (simp_all add: answers_handlers comp_kept live)
  moreover have "served C A d (handleCompensate V ?b d)"
    by (rule served_same) (simp_all add: answers_handlers compensate_kept live)
  ultimately show ?thesis using True by (auto simp: coreTypes_def dispatch_core)
next
  case False
  have "answers (dispatch V f d)"
    using False by (simp add: dispatch_def Let_def coreTypes_def answers_handlers)
  then show ?thesis using dispatch_quiet [OF False, of V d] live(1) by (intro served_same) (simp_all add: core_def)
qed

text \<open>
  The bytes \<open>w\<close> of one answer, and the daemon \<open>d1\<close> after it: to a ping one pong frame; to any
  other request exactly one frame that carries the type and the JSON body the request's handler
  returned, of a type that belongs to the request. Only a reply that does not fit a frame leaves
  no bytes (the write fails and the failure is logged).
\<close>

definition oneAnswer :: "daemon_env \<Rightarrow> Frame \<Rightarrow> Daemon \<Rightarrow> bytes \<Rightarrow> Daemon \<Rightarrow> bool" where
  "oneAnswer V f d w d1 \<longleftrightarrow> (if frType f = MsgPing then ReadFrame w = Inr (\<lparr>frType = MsgPong, frBody = []\<rparr>, []) \<and> d1 = d
     else \<exists>t j. dispatch V f d = (Ok (t, j), d1) \<and> (t = MsgError \<or> (frType f, t) \<in> set answerTypes) \<and>
       (if length (jsonEnc j) < MaxFrameSize then ReadFrame w = Inr (\<lparr>frType = t, frBody = jsonEnc j\<rparr>, []) else w = []))"

text \<open>The answers of a connection, one for one and in order, each from the daemon its predecessor left.\<close>

fun answered :: "(nat \<Rightarrow> daemon_env) \<Rightarrow> nat \<Rightarrow> Frame list \<Rightarrow> Daemon \<Rightarrow> bytes list \<Rightarrow> Daemon \<Rightarrow> bool" where
  "answered V n (f # fs) d (w # ws) d' = (\<exists>d1. oneAnswer (V n) f d w d1 \<and> answered V (n + 1) fs d1 ws d')"
| "answered V n fs d ws d' = (fs = [] \<and> ws = [] \<and> d' = d)"

lemma writeOK_frame:
  assumes "t < 256"
  shows "if length (jsonEnc j) < MaxFrameSize then ReadFrame (writeOK (t, j)) = Inr (\<lparr>frType = t, frBody = jsonEnc j\<rparr>, [])
    else writeOK (t, j) = []"
proof (cases "length (jsonEnc j) < MaxFrameSize")
  case True
  then obtain x where x: "WriteFrame t (jsonEnc j) = Some x" by (simp add: WriteFrame_def)
  then show ?thesis using ReadFrame_WriteFrame [OF x assms, of "[]"] True by (simp add: writeOK_def WriteJSON_def)
qed (simp add: writeOK_def WriteJSON_def WriteFrame_def)

lemma answerTypes_byte: "t = MsgError \<or> (g, t) \<in> set answerTypes \<Longrightarrow> t < 256"
  by (auto simp: answerTypes_def msg_defs)

lemma live_frame:
  assumes "aead_ok A" "alive C A d" "liveEnv C A V" "liveRequest f" "auditIdx (dAudit d) + 1 < 2 ^ 63"
  shows "\<exists>w d1. handleFrame V f d = (Ok w, d1) \<and> oneAnswer V f d w d1 \<and> alive C A d1 \<and> auditIdx (dAudit d1) \<le> auditIdx (dAudit d) + 1"
proof (cases "frType f = MsgPing")
  case True
  obtain x where x: "WriteFrame MsgPong [] = Some x" by (simp add: WriteFrame_def MaxFrameSize_def)
  then show ?thesis
    using assms(2) True ReadFrame_WriteFrame [OF x, of "[]"] by (simp add: handleFrame_def oneAnswer_def MsgPong_def)
next
  case False
  obtain h d1 where d: "dispatch V f d = (h, d1)" by (metis prod.exhaust)
  then obtain t j where h: "h = Ok (t, j)" using live_dispatch [OF assms] by (cases h) (auto simp: served_def answers_def)
  have ty: "t = MsgError \<or> (frType f, t) \<in> set answerTypes" using dispatch_answers [of f V d] d h by (simp add: answersTo_def)
  have "oneAnswer V f d (writeOK (t, j)) d1"
    unfolding oneAnswer_def using False d h ty writeOK_frame [OF answerTypes_byte [OF ty]] by auto
  then show ?thesis using live_dispatch [OF assms] False d h by (simp add: handleFrame_def served_def)
qed

text \<open>
  C7. The daemon answers every request. Let the stored keys be whole key pairs and the
  keystore's cache agree with its directory (\<open>alive\<close>), let registrations
  bring no public key of their own and the audit counter stay below its overflow; drawn key pairs
  and nonces have their lengths, and a key file cut short by a failed write does not decrypt
  (\<open>liveEnv\<close>). Then serving a
  connection to its end does not panic, whatever the requests contain and whatever of the
  database, the policies, the providers and the file system fails meanwhile, and what the daemon
  writes to the connection (while it accepts writes: a failed write is only logged) is one answer
  per request, in order: to each request exactly one frame, which a client
  reads back as the type and the JSON body its handler returned (from the daemon as the requests
  before it left it), of a type that belongs to the request; to a ping the pong. The one
  exception is a reply of four megabytes or more, for which the code writes nothing. An answer is
  given when its handler returns: a command that a compensation runs, and the proxy's connections
  that an MCP stop waits for, are taken to end.
\<close>

theorem daemon_answers_every_request:
  assumes "aead_ok A" "alive C A d" "\<And>k. liveEnv C A (V k)" and "writeFrames fs = Some w" "list_all liveRequest fs"
    and "auditIdx (dAudit d) + int (length fs) < 2 ^ 63"
  shows "\<exists>ws d'. Handle V n w d = (Ok (concat ws), d') \<and> answered V n fs d ws d'"
  using assms
proof (induction fs arbitrary: n w d)
  case Nil
  then show ?case by (subst Handle.simps) (auto simp: ReadFrame_def intro!: exI [of _ "[]"])
next
  case (Cons f fs)
  obtain a b where a: "WriteFrame (frType f) (frBody f) = Some a" and b: "writeFrames fs = Some b" and w: "w = a @ b"
    using Cons.prems(4) by (auto split: option.splits)
  have rd: "ReadFrame w = Inr (f, b)"
    using ReadFrame_WriteFrame [OF a] Cons.prems(5) w by (simp add: liveRequest_def)
  obtain w1 d1 where h: "handleFrame (V n) f d = (Ok w1, d1)" "oneAnswer (V n) f d w1 d1" "alive C A d1" "auditIdx (dAudit d1) \<le> auditIdx (dAudit d) + 1"
    using live_frame [OF Cons.prems(1,2,3), of f n] Cons.prems(5,6) by auto
  obtain ws d' where "Handle V (n + 1) b d1 = (Ok (concat ws), d')" "answered V (n + 1) fs d1 ws d'"
    using Cons.IH [OF Cons.prems(1) h(3) Cons.prems(3) b] Cons.prems(5,6) h(4) by fastforce
  then show ?case using h rd by (subst Handle.simps) (auto intro!: exI [of _ "w1 # ws"])
qed

theorem daemon_answers_every_request_witness:
  "\<exists>w1 w2 d'. Handle (\<lambda>k. exDEnv) 0 (the (writeFrames [\<lparr>frType = MsgPing, frBody = []\<rparr>, \<lparr>frType = 200, frBody = ''junk''\<rparr>]))
      (exDaemon\<lparr>dKeystore := exKeystore\<rparr>) = (Ok (w1 @ w2), d') \<and>
     ReadFrame w1 = Inr (\<lparr>frType = MsgPong, frBody = []\<rparr>, []) \<and> (\<exists>body. ReadFrame w2 = Inr (\<lparr>frType = MsgError, frBody = body\<rparr>, []))"
proof -
  let ?fs = "[\<lparr>frType = MsgPing, frBody = []\<rparr>, \<lparr>frType = 200, frBody = ''junk''\<rparr>]" and ?d = "exDaemon\<lparr>dKeystore := exKeystore\<rparr>"
  have al: "alive flatCrypto toyAead ?d"
    by (simp add: alive_def fullKeys_def coherent_def exKeystore_def newKeystore_def diskAgent_def exDaemon_def newRing_def)
  have le: "liveEnv flatCrypto toyAead exDEnv"
    by (simp add: liveEnv_def exDEnv_def exKsEnv_def nonceSize_def Keystore.exKey_def)
  have wf: "writeFrames ?fs = Some (the (writeFrames ?fs))" by (simp add: WriteFrame_def MaxFrameSize_def)
  have "\<exists>ws d'. Handle (\<lambda>k. exDEnv) 0 (the (writeFrames ?fs)) ?d = (Ok (concat ws), d') \<and> answered (\<lambda>k. exDEnv) 0 ?fs ?d ws d'"
    by (rule daemon_answers_every_request [OF toyAead_ok al le wf]) (simp_all add: liveRequest_def msg_defs exDaemon_def newRing_def)
  then obtain ws d' where h: "Handle (\<lambda>k. exDEnv) 0 (the (writeFrames ?fs)) ?d = (Ok (concat ws), d')"
    and an: "answered (\<lambda>k. exDEnv) 0 ?fs ?d ws d'" by blast
  from an obtain w1 w2 where ws: "ws = [w1, w2]" and o1: "oneAnswer exDEnv (hd ?fs) ?d w1 ?d"
    and o2: "oneAnswer exDEnv (?fs ! 1) ?d w2 d'"
    by (cases ws rule: list.exhaust; cases "tl ws"; cases "tl (tl ws)") (auto simp: oneAnswer_def)
  let ?m = "''unknown msg type 0xc8''"
  have "dispatch exDEnv (?fs ! 1) ?d = failWith ?m ?d"
    by (simp add: dispatch_def Let_def msg_defs hexDigitLower_def char_of_def bit_0)
  moreover have "length (jsonEnc (ErrorResp ?m)) < 100" by code_simp
  then have "length (jsonEnc (ErrorResp ?m)) < MaxFrameSize" by (simp add: MaxFrameSize_def del: jsonEnc.simps)
  ultimately have "\<exists>body. ReadFrame w2 = Inr (\<lparr>frType = MsgError, frBody = body\<rparr>, [])"
    using o2 by (auto simp: oneAnswer_def failWith_def msg_defs)
  moreover have "ReadFrame w1 = Inr (\<lparr>frType = MsgPong, frBody = []\<rparr>, [])" using o1 by (simp add: oneAnswer_def)
  ultimately show ?thesis using h ws by auto
qed

end
