(* ===== verification/Reach.thy ===== *)
theory Reach
  imports Prelude
begin

text \<open>
  The interface of the components that run concurrently: a step relation that interleaves the
  atomic actions of processes or goroutines, an invariant that each action keeps, and what follows
  for every state that can be reached. Beside it, the contract of a phase that ends: every action
  the program takes decreases a measure, and until the end there is one to take.
\<close>

locale reach_system =
  fixes step :: "'s \<Rightarrow> 's \<Rightarrow> bool" and inv :: "'s \<Rightarrow> bool"
  assumes step_keeps: "step s t \<Longrightarrow> inv s \<Longrightarrow> inv t"
begin

lemma reach_inv: "step\<^sup>*\<^sup>* s t \<Longrightarrow> inv s \<Longrightarrow> inv t"
  by (induction rule: rtranclp_induct) (auto intro: step_keeps)

end

locale ending_system = reach_system +
  fixes final :: "'a \<Rightarrow> bool" and size_of :: "'a \<Rightarrow> nat"
  assumes progress: "inv s \<Longrightarrow> \<not> final s \<Longrightarrow> \<exists>t. step s t"
    and decrease: "step s t \<Longrightarrow> inv s \<Longrightarrow> size_of t < size_of s"
begin

lemma reaches_final: "inv s \<Longrightarrow> \<exists>t. step\<^sup>*\<^sup>* s t \<and> inv t \<and> final t"
proof (induction "size_of s" arbitrary: s rule: less_induct)
  case less
  show ?case
  proof (cases "final s")
    case True
    then show ?thesis using less.prems by blast
  next
    case False
    then obtain u where "step s u" using progress less.prems by blast
    then show ?thesis using less decrease step_keeps by (meson converse_rtranclp_into_rtranclp)
  qed
qed

lemma run_bounded: "(step ^^ n) s t \<Longrightarrow> inv s \<Longrightarrow> n + size_of t \<le> size_of s"
proof (induction n arbitrary: s)
  case (Suc n)
  obtain u where u: "step s u" "(step ^^ n) u t" using relpowp_Suc_D2 [OF Suc.prems(1)] by blast
  then have "n + size_of t \<le> size_of u" using Suc step_keeps by blast
  then show ?case using decrease [OF u(1)] Suc.prems(2) by simp
qed simp

end

end
