(* ===== verification/Socket.thy ===== *)
theory Socket
  imports Reach Json GoText
begin

text \<open>
  \<open>internal/daemon/socket.go\<close> and \<open>socket_windows.go\<close>: where the daemon listens, how it takes the
  lock file and the Unix socket, and how a client dials. The file system is a map from path to
  file; \<open>Listen\<close> is one call, and \<open>hostStep\<close> interleaves the system calls of any number of
  processes that start, stop or are killed on the same path.
\<close>

section \<open>Paths\<close>

text \<open>\<open>filepath.Clean\<close> and \<open>filepath.Join\<close> of two elements.\<close>

fun cleanParts :: "bool \<Rightarrow> string list \<Rightarrow> string list \<Rightarrow> string list" where
  "cleanParts rooted out [] = out"
| "cleanParts rooted out (c # cs) =
     (if c = '''' \<or> c = ''.'' then cleanParts rooted out cs
      else if c = ''..'' then
        (if out \<noteq> [] \<and> last out \<noteq> ''..'' then cleanParts rooted (butlast out) cs
         else if rooted then cleanParts rooted out cs
         else cleanParts rooted (out @ [c]) cs)
      else cleanParts rooted (out @ [c]) cs)"

definition filepathClean :: "string \<Rightarrow> string" where
  "filepathClean p =
     (let rooted = (take 1 p = ''/''); body = joinWith ''/'' (cleanParts rooted [] (splitOn (CHR ''/'') p))
      in if rooted then ''/'' @ body else if body = '''' then ''.'' else body)"

definition filepathJoin :: "string \<Rightarrow> string \<Rightarrow> string" where
  "filepathJoin a b = (if a = '''' \<and> b = '''' then ''''
     else if a = '''' then filepathClean b else if b = '''' then filepathClean a else filepathClean (a @ ''/'' @ b))"

type_synonym getenv = "string \<Rightarrow> string"

definition SocketPath :: "getenv \<Rightarrow> string" where
  "SocketPath env = (if env ''ANS_SOCK_PATH'' \<noteq> '''' then env ''ANS_SOCK_PATH''
     else if env ''XDG_RUNTIME_DIR'' \<noteq> '''' then filepathJoin (env ''XDG_RUNTIME_DIR'') ''ans.sock''
     else ''/tmp/ans.sock'')"

section \<open>The system calls\<close>

text \<open>A socket file knows the process that listens on it and its permission bits.\<close>

datatype hostfile = RegFile string | SockFile nat nat

type_synonym hostfs = "string \<rightharpoonup> hostfile"

text \<open>
  What \<open>Listen\<close> meets: the process id, the environment, the permission bits that the umask leaves
  to a new socket, and the failures of the calls (\<open>lnUnlink p\<close>: removing \<open>p\<close> in a clean-up fails,
  which the code ignores).
\<close>

record listen_env =
  lnPid :: nat
  lnGetenv :: getenv
  lnMode :: nat
  lnOpen :: "string option"
  lnRemove :: "string option"
  lnBind :: "string option"
  lnChmod :: "string option"
  lnUnlink :: "string \<Rightarrow> bool"

datatype open_err = FileExists | OpenErr string

definition openExcl :: "listen_env \<Rightarrow> string \<Rightarrow> hostfs \<Rightarrow> open_err + hostfs" where
  "openExcl E p fs = (case lnOpen E of
     Some e \<Rightarrow> Inl (OpenErr e)
   | None \<Rightarrow> if fs p \<noteq> None then Inl FileExists else Inr (fs(p \<mapsto> RegFile (showNat (lnPid E) @ [CHR 0x0A]))))"

text \<open>\<open>os.Remove\<close>; that the file does not exist counts as success, as the caller does.\<close>

definition removeStale :: "listen_env \<Rightarrow> string \<Rightarrow> hostfs \<Rightarrow> string + hostfs" where
  "removeStale E p fs = (case lnRemove E of Some e \<Rightarrow> Inl e | None \<Rightarrow> Inr (fs(p := None)))"

definition bindSocket :: "listen_env \<Rightarrow> string \<Rightarrow> hostfs \<Rightarrow> string + hostfs" where
  "bindSocket E p fs = (case lnBind E of
     Some e \<Rightarrow> Inl e
   | None \<Rightarrow> if fs p \<noteq> None then Inl (''listen unix '' @ p @ '': bind: address already in use'')
       else Inr (fs(p \<mapsto> SockFile (lnPid E) (lnMode E))))"

definition chmodSocket :: "listen_env \<Rightarrow> string \<Rightarrow> hostfs \<Rightarrow> string + hostfs" where
  "chmodSocket E p fs = (case lnChmod E of
     Some e \<Rightarrow> Inl e
   | None \<Rightarrow> (case fs p of
       None \<Rightarrow> Inl (''chmod '' @ p @ '': no such file or directory'')
     | Some (SockFile i m) \<Rightarrow> Inr (fs(p \<mapsto> SockFile i 384))
     | Some f \<Rightarrow> Inr fs))"

definition discard :: "listen_env \<Rightarrow> string \<Rightarrow> hostfs \<Rightarrow> hostfs" where
  "discard E p fs = (if lnUnlink E p then fs else fs(p := None))"

text \<open>\<open>Close\<close> of a Unix listener removes the file it was bound to.\<close>

definition closeListener :: "string \<Rightarrow> hostfs \<Rightarrow> hostfs" where
  "closeListener p fs = fs(p := None)"

section \<open>\<open>Listen\<close> and \<open>Dial\<close>\<close>

definition lockPath :: "string \<Rightarrow> string" where
  "lockPath p = p @ ''.lock''"

definition lockError :: "string \<Rightarrow> open_err \<Rightarrow> string" where
  "lockError p e = (case e of
     FileExists \<Rightarrow> ''daemon already running (lock: '' @ lockPath p @ '')''
   | OpenErr m \<Rightarrow> ''acquiring lock '' @ lockPath p @ '': '' @ m)"

definition Listen :: "listen_env \<Rightarrow> hostfs \<Rightarrow> (string + string) \<times> hostfs" where
  "Listen E fs = (let p = SocketPath (lnGetenv E); l = lockPath p in
     case openExcl E l fs of
       Inl e \<Rightarrow> (Inl (lockError p e), fs)
     | Inr fs1 \<Rightarrow> (case removeStale E p fs1 of
         Inl e \<Rightarrow> (Inl (''removing stale socket '' @ p @ '': '' @ e), discard E l fs1)
       | Inr fs2 \<Rightarrow> (case bindSocket E p fs2 of
           Inl e \<Rightarrow> (Inl (''listening on '' @ p @ '': '' @ e), discard E l (discard E p fs2))
         | Inr fs3 \<Rightarrow> (case chmodSocket E p fs3 of
             Inl e \<Rightarrow> (Inl (''setting socket permissions: '' @ e), discard E l (discard E p (closeListener p fs3)))
           | Inr fs4 \<Rightarrow> (Inr p, fs4)))))"

text \<open>\<open>outcome\<close> is what the timed dial returns.\<close>

definition Dial :: "getenv \<Rightarrow> string + 'conn \<Rightarrow> string + 'conn" where
  "Dial env outcome = (case outcome of
     Inl e \<Rightarrow> Inl (''cannot connect to ANS daemon at '' @ SocketPath env @ '': '' @ e @ [CHR 0x0A] @ ''Run: ans start'')
   | Inr c \<Rightarrow> Inr c)"

text \<open>The named pipe of Windows; what \<open>go-winio\<close> answers on a pipe name is an argument.\<close>

definition windowsPipeName :: string where
  "windowsPipeName = [CHR 0x5C, CHR 0x5C, CHR ''.'', CHR 0x5C] @ ''pipe'' @ [CHR 0x5C] @ ''ans''"

definition WinSocketPath :: "getenv \<Rightarrow> string" where
  "WinSocketPath env = (if env ''ANS_SOCK_PATH'' \<noteq> '''' then env ''ANS_SOCK_PATH'' else windowsPipeName)"

definition WinListen :: "(string \<Rightarrow> string \<Rightarrow> nat \<Rightarrow> nat \<Rightarrow> string + 'l) \<Rightarrow> string + 'l" where
  "WinListen listenPipe = (case listenPipe windowsPipeName ''D:P(A;;GA;;;OW)'' 65536 65536 of
     Inl e \<Rightarrow> Inl (''listening on named pipe '' @ windowsPipeName @ '': '' @ e) | Inr l \<Rightarrow> Inr l)"

definition WinDial :: "(string \<Rightarrow> string + 'conn) \<Rightarrow> string + 'conn" where
  "WinDial dialPipe = (case dialPipe windowsPipeName of
     Inl e \<Rightarrow> Inl (''cannot connect to ANS daemon at '' @ windowsPipeName @ '': '' @ e @ [CHR 0x0A] @ ''Run: ans start'')
   | Inr c \<Rightarrow> Inr c)"

section \<open>Processes on one path\<close>

text \<open>Where a process is in \<open>Listen\<close>; \<open>Idle\<close> processes may call it, again after they have ended.\<close>

datatype listen_pc = Idle | Locked | Cleared | Bound | Serving

record host =
  hfs :: hostfs
  hpc :: "nat \<Rightarrow> listen_pc"

definition moved :: "nat \<Rightarrow> listen_pc \<Rightarrow> hostfs \<Rightarrow> host \<Rightarrow> host" where
  "moved i pc fs h = h\<lparr>hfs := fs, hpc := (hpc h)(i := pc)\<rparr>"

text \<open>
  One action of one process: the calls of \<open>Listen\<close>, each with its failure branch, the end of a
  daemon that serves (\<open>stop\<close>: \<open>Run\<close> closes the listener and returns) and the death of a process
  at any point.
\<close>

inductive hostStep :: "string \<Rightarrow> host \<Rightarrow> host \<Rightarrow> bool" for p where
  acquire: "hpc h (lnPid E) = Idle \<Longrightarrow> openExcl E (lockPath p) (hfs h) = Inr fs \<Longrightarrow> hostStep p h (moved (lnPid E) Locked fs h)"
| refused: "hpc h (lnPid E) = Idle \<Longrightarrow> openExcl E (lockPath p) (hfs h) = Inl e \<Longrightarrow> hostStep p h h"
| clear: "hpc h (lnPid E) = Locked \<Longrightarrow> removeStale E p (hfs h) = Inr fs \<Longrightarrow> hostStep p h (moved (lnPid E) Cleared fs h)"
| clear_fail: "hpc h (lnPid E) = Locked \<Longrightarrow> removeStale E p (hfs h) = Inl e \<Longrightarrow>
    hostStep p h (moved (lnPid E) Idle (discard E (lockPath p) (hfs h)) h)"
| bind: "hpc h (lnPid E) = Cleared \<Longrightarrow> bindSocket E p (hfs h) = Inr fs \<Longrightarrow> hostStep p h (moved (lnPid E) Bound fs h)"
| bind_fail: "hpc h (lnPid E) = Cleared \<Longrightarrow> bindSocket E p (hfs h) = Inl e \<Longrightarrow>
    hostStep p h (moved (lnPid E) Idle (discard E (lockPath p) (discard E p (hfs h))) h)"
| chmod: "hpc h (lnPid E) = Bound \<Longrightarrow> chmodSocket E p (hfs h) = Inr fs \<Longrightarrow> hostStep p h (moved (lnPid E) Serving fs h)"
| chmod_fail: "hpc h (lnPid E) = Bound \<Longrightarrow> chmodSocket E p (hfs h) = Inl e \<Longrightarrow>
    hostStep p h (moved (lnPid E) Idle (discard E (lockPath p) (discard E p (closeListener p (hfs h)))) h)"
| stop: "hpc h i = Serving \<Longrightarrow> hostStep p h (moved i Idle (closeListener p (hfs h)) h)"
| killed: "hpc h i \<noteq> Idle \<Longrightarrow> hostStep p h (moved i Idle (hfs h) h)"

inductive_cases hostStepE: "hostStep p h h'"

lemma lockPath_neq [simp]: "lockPath p \<noteq> p" "p \<noteq> lockPath p"
proof -
  have "length (lockPath p) \<noteq> length p" by (simp add: lockPath_def)
  then show "lockPath p \<noteq> p" by metis
  then show "p \<noteq> lockPath p" by metis
qed

lemma moved_sel [simp]: "hfs (moved i pc fs h) = fs" "hpc (moved i pc fs h) j = (if j = i then pc else hpc h j)"
  by (simp_all add: moved_def)

text \<open>The calls of \<open>Listen\<close> without another process in between are the call itself.\<close>

lemma Listen_steps:
  assumes "hpc h (lnPid E) = Idle" and "Listen E (hfs h) = (Inr p, fs)"
  shows "(hostStep p)\<^sup>*\<^sup>* h (moved (lnPid E) Serving fs h)"
proof -
  from assms(2) obtain fs1 fs2 fs3 where p: "p = SocketPath (lnGetenv E)"
    and s: "openExcl E (lockPath p) (hfs h) = Inr fs1" "removeStale E p fs1 = Inr fs2" "bindSocket E p fs2 = Inr fs3" "chmodSocket E p fs3 = Inr fs"
    by (auto simp: Listen_def Let_def split: sum.splits)
  let ?i = "lnPid E"
  note a = hostStep.acquire [of h E p fs1, OF assms(1) s(1)]
  note b = hostStep.clear [of "moved ?i Locked fs1 h" E p fs2]
  note c = hostStep.bind [of "moved ?i Cleared fs2 (moved ?i Locked fs1 h)" E p fs3]
  note d = hostStep.chmod [of "moved ?i Bound fs3 (moved ?i Cleared fs2 (moved ?i Locked fs1 h))" E p fs]
  have "(hostStep p)\<^sup>*\<^sup>* h (moved ?i Serving fs (moved ?i Bound fs3 (moved ?i Cleared fs2 (moved ?i Locked fs1 h))))"
    using a b c d s by (simp add: rtranclp.rtrancl_into_rtrancl)
  then show ?thesis by (simp add: moved_def)
qed

section \<open>Ownership\<close>

text \<open>
  Whoever is past the lock is alone, and the lock file is there; a socket that is being served has
  mode 0600.
\<close>

definition owned :: "string \<Rightarrow> host \<Rightarrow> bool" where
  "owned p h \<longleftrightarrow> (\<forall>i. hpc h i \<noteq> Idle \<longrightarrow> hfs h (lockPath p) \<noteq> None \<and> (\<forall>j. hpc h j \<noteq> Idle \<longrightarrow> j = i) \<and>
     (hpc h i = Bound \<longrightarrow> (\<exists>m. hfs h p = Some (SockFile i m))) \<and> (hpc h i = Serving \<longrightarrow> hfs h p = Some (SockFile i 384)))"

text \<open>The lock file is there and nobody owns it.\<close>

definition orphaned :: "string \<Rightarrow> host \<Rightarrow> bool" where
  "orphaned p h \<longleftrightarrow> hfs h (lockPath p) \<noteq> None \<and> (\<forall>i. hpc h i = Idle)"

lemma ownedD:
  assumes "owned p h" and "hpc h i \<noteq> Idle"
  shows "hfs h (lockPath p) \<noteq> None" and "j \<noteq> i \<Longrightarrow> hpc h j = Idle" and "hpc h i = Serving \<Longrightarrow> hfs h p = Some (SockFile i 384)"
  using assms unfolding owned_def by blast+

lemma owned_left: "owned p h \<Longrightarrow> hpc h i \<noteq> Idle \<Longrightarrow> owned p (moved i Idle fs h)"
  unfolding owned_def by (metis moved_sel(2))

lemma owned_moved:
  assumes "owned p h" and "hpc h i \<noteq> Idle" and "fs (lockPath p) \<noteq> None"
    and "pc = Bound \<Longrightarrow> \<exists>m. fs p = Some (SockFile i m)" and "pc = Serving \<Longrightarrow> fs p = Some (SockFile i 384)"
  shows "owned p (moved i pc fs h)"
  using assms(3-5) ownedD(2) [OF assms(1,2)] by (auto simp: owned_def)

lemmas call_defs = openExcl_def removeStale_def bindSocket_def chmodSocket_def discard_def closeListener_def

lemma hostStep_owned:
  assumes "hostStep p h h'" and inv: "owned p h"
  shows "owned p h'"
  using assms(1)
proof cases
  case (acquire E fs)
  then have "hfs h (lockPath p) = None" by (auto simp: openExcl_def split: option.splits if_splits)
  then have "\<forall>i. hpc h i = Idle" using inv by (auto simp: owned_def)
  then show ?thesis using acquire by (auto simp: owned_def openExcl_def split: option.splits if_splits)
next
  case (clear E fs)
  then show ?thesis using inv ownedD(1) [OF inv, of "lnPid E"] by (auto simp: removeStale_def intro!: owned_moved split: option.splits)
next
  case (bind E fs)
  then show ?thesis using inv ownedD(1) [OF inv, of "lnPid E"] by (auto simp: bindSocket_def intro!: owned_moved split: option.splits if_splits)
next
  case (chmod E fs)
  then obtain m where "hfs h p = Some (SockFile (lnPid E) m)" using inv unfolding owned_def by (metis listen_pc.distinct(5))
  then show ?thesis using chmod inv ownedD(1) [OF inv, of "lnPid E"] by (auto simp: chmodSocket_def intro!: owned_moved split: option.splits)
qed (use inv in \<open>auto intro: owned_left\<close>)

lemma hostStep_orphaned:
  assumes "hostStep p h h'" and "orphaned p h"
  shows "orphaned p h'"
  using assms by (cases rule: hostStep.cases) (auto simp: orphaned_def openExcl_def split: option.splits if_splits)

interpretation hostOwned: reach_system "hostStep p" "owned p" for p
  by unfold_locales (rule hostStep_owned)

interpretation hostOrphaned: reach_system "hostStep p" "orphaned p" for p
  by unfold_locales (rule hostStep_orphaned)

text \<open>
  C23. One daemon per socket. Let any number of processes call \<open>Listen\<close> on a path that has no lock
  file, their system calls interleaved in any order, with any failures, stops and kills: at every
  moment at most one of them is past the lock, so a socket that is being served is never removed or
  replaced by a second daemon, and it has mode 0600.
\<close>

theorem listen_exclusive:
  assumes "(hostStep p)\<^sup>*\<^sup>* h0 h" and "\<And>i. hpc h0 i = Idle" and "hpc h i = Serving"
  shows "hfs h p = Some (SockFile i 384) \<and> hfs h (lockPath p) \<noteq> None \<and> (\<forall>j. hpc h j \<noteq> Idle \<longrightarrow> j = i)"
proof -
  have "owned p h" using hostOwned.reach_inv [OF assms(1)] assms(2) by (simp add: owned_def)
  then show ?thesis using assms(3) ownedD [of p h i] by fastforce
qed

text \<open>
  C38. A daemon cannot be restarted. No program removes the lock file of a daemon that has served:
  once that daemon has stopped, in the orderly way or not, no process passes the lock again, whatever
  happens afterwards, and every call of \<open>Listen\<close> reports a daemon that is already running.
\<close>

theorem stopped_daemon_blocks_restart:
  assumes "(hostStep p)\<^sup>*\<^sup>* h0 h" and "\<And>i. hpc h0 i = Idle" and "hpc h i = Serving"
    and "h1 \<in> {moved i Idle (closeListener p (hfs h)) h, moved i Idle (hfs h) h}" and "(hostStep p)\<^sup>*\<^sup>* h1 h2"
    and "SocketPath (lnGetenv E) = p" and "lnOpen E = None"
  shows "(\<forall>j. hpc h2 j = Idle) \<and> Listen E (hfs h2) = (Inl (''daemon already running (lock: '' @ p @ ''.lock)''), hfs h2)"
proof -
  have "owned p h" using hostOwned.reach_inv [OF assms(1)] assms(2) by (simp add: owned_def)
  then have "orphaned p h1" using assms(3,4) ownedD [of p h i] by (auto simp: orphaned_def closeListener_def)
  then have "orphaned p h2" using hostOrphaned.reach_inv [OF assms(5)] by simp
  then show ?thesis using assms(6,7) by (auto simp: orphaned_def Listen_def Let_def openExcl_def lockError_def lockPath_def)
qed

section \<open>A host\<close>

definition exListen :: listen_env where
  "exListen = \<lparr>lnPid = 7, lnGetenv = (\<lambda>v. ''''), lnMode = 493, lnOpen = None, lnRemove = None, lnBind = None, lnChmod = None,
     lnUnlink = (\<lambda>p. False)\<rparr>"

definition exHost :: host where
  "exHost = \<lparr>hfs = (\<lambda>q. None), hpc = (\<lambda>i. Idle)\<rparr>"

lemma exListen_serves:
  "\<exists>h. (hostStep ''/tmp/ans.sock'')\<^sup>*\<^sup>* exHost h \<and> hpc h 7 = Serving \<and> hfs h ''/tmp/ans.sock'' \<noteq> None"
proof -
  have "\<exists>fs. Listen exListen (hfs exHost) = (Inr ''/tmp/ans.sock'', fs) \<and> fs ''/tmp/ans.sock'' \<noteq> None"
    by (simp add: Listen_def exListen_def exHost_def SocketPath_def call_defs lockPath_def Let_def)
  then obtain fs where fs: "Listen exListen (hfs exHost) = (Inr ''/tmp/ans.sock'', fs)" "fs ''/tmp/ans.sock'' \<noteq> None" by blast
  have "(hostStep ''/tmp/ans.sock'')\<^sup>*\<^sup>* exHost (moved 7 Serving fs exHost)"
    using Listen_steps [of exHost exListen, OF _ fs(1)] by (simp add: exHost_def exListen_def)
  then show ?thesis using fs(2) by fastforce
qed

theorem listen_exclusive_witness:
  "\<exists>h. (hostStep ''/tmp/ans.sock'')\<^sup>*\<^sup>* exHost h \<and> hpc h 7 = Serving \<and> hfs h ''/tmp/ans.sock'' = Some (SockFile 7 384)"
  using exListen_serves listen_exclusive [of "''/tmp/ans.sock''" exHost _ 7] by (auto simp: exHost_def)

theorem stopped_daemon_blocks_restart_witness:
  "\<exists>h. (hostStep ''/tmp/ans.sock'')\<^sup>*\<^sup>* exHost h \<and> hpc h 7 = Idle \<and>
     fst (Listen exListen (hfs h)) = Inl ''daemon already running (lock: /tmp/ans.sock.lock)''"
proof -
  obtain h where h: "(hostStep ''/tmp/ans.sock'')\<^sup>*\<^sup>* exHost h" "hpc h 7 = Serving" using exListen_serves by blast
  let ?h1 = "moved 7 Idle (closeListener ''/tmp/ans.sock'' (hfs h)) h"
  have r: "(hostStep ''/tmp/ans.sock'')\<^sup>*\<^sup>* exHost ?h1" using h hostStep.stop by (meson rtranclp.rtrancl_into_rtrancl)
  have "Listen exListen (hfs ?h1) = (Inl (''daemon already running (lock: '' @ ''/tmp/ans.sock'' @ ''.lock)''), hfs ?h1)"
    using stopped_daemon_blocks_restart [OF h(1) _ h(2), of ?h1 ?h1 exListen]
    by (simp add: exHost_def exListen_def SocketPath_def)
  then show ?thesis using r by (intro exI [of _ ?h1]) simp
qed

end
