(* ===== verification/Server.thy ===== *)
theory Server
  imports DaemonSystem Socket
begin

text \<open>
  \<open>Run\<close>, \<open>RunOnListener\<close> and \<open>serveListener\<close> of \<open>internal/daemon/daemon.go\<close>, with the connection
  loop \<open>Handle\<close> of \<open>handlers.go\<close> as one goroutine per connection: the accept loop, the goroutine
  that waits for a signal, the handlers and the webhook goroutines they start take turns in any
  order. One request is one step, so what is interleaved are the requests of different
  connections. The wait group counts the open connections and the webhook goroutines.
\<close>

section \<open>State\<close>

text \<open>A handler is at the top of its loop, waits for a frame, or has closed its connection.\<close>

datatype conn_pc = AtTop | Reading | Closed

record conn =
  cnIn :: bytes
  cnOut :: bytes
  cnPc :: conn_pc

datatype loop_pc = Accepting | Waiting | Returned

text \<open>
  \<open>svDone\<close>: the context is cancelled; \<open>svOpen\<close>: the listener is open; \<open>svChainOpen\<close>: the
  database is open; \<open>svAlive\<close>: no handler has panicked, which would end the process.
\<close>

record server =
  svDaemon :: Daemon
  svDone :: bool
  svOpen :: bool
  svLoop :: loop_pc
  svConns :: "conn list"
  svWG :: nat
  svChainOpen :: bool
  svAlive :: bool

definition newConn :: conn where
  "newConn = \<lparr>cnIn = [], cnOut = [], cnPc = AtTop\<rparr>"

definition RunOnListener :: "Daemon \<Rightarrow> server" where
  "RunOnListener d = \<lparr>svDaemon = d, svDone = False, svOpen = True, svLoop = Accepting, svConns = [], svWG = 0,
     svChainOpen = True, svAlive = True\<rparr>"

text \<open>\<open>Run\<close> up to \<open>serveListener\<close>; when the socket cannot be had, the database is closed and the error returned.\<close>

definition Run :: "listen_env \<Rightarrow> hostfs \<Rightarrow> Daemon \<Rightarrow> (string + server) \<times> hostfs" where
  "Run E fs d = (case Listen E fs of
     (Inl e, fs') \<Rightarrow> (Inl (''starting listener: '' @ e), fs')
   | (Inr p, fs') \<Rightarrow> (Inr (RunOnListener d), fs'))"

section \<open>Steps\<close>

text \<open>
  The daemon a request leaves; the wait group goes up by the webhook goroutines it started
  (\<open>d.wg.Add\<close> in \<open>afterAppend\<close>).
\<close>

definition withDaemon :: "Daemon \<Rightarrow> server \<Rightarrow> server" where
  "withDaemon d s = s\<lparr>svDaemon := d, svWG := svWG s + (length (dHooks d) - length (dHooks (svDaemon s)))\<rparr>"

definition setConn :: "nat \<Rightarrow> conn \<Rightarrow> server \<Rightarrow> server" where
  "setConn i c s = s\<lparr>svConns := (svConns s)[i := c]\<rparr>"

text \<open>The deferred calls of a handler's goroutine: the connection is closed and counted off.\<close>

definition closeConn :: "nat \<Rightarrow> server \<Rightarrow> server" where
  "closeConn i s = s\<lparr>svConns := (svConns s)[i := (svConns s ! i)\<lparr>cnPc := Closed\<rparr>], svWG := svWG s - 1\<rparr>"

text \<open>
  What the process does by itself. \<open>ok\<close> restricts which requests, with what they meet outside, are
  considered. A frame that is not complete ends its connection only by the deadline or the end of
  input, a frame of a bad size at once; both are \<open>read_error\<close>. After the signal has cancelled the
  context, its goroutine closes the listener; only then does the blocked \<open>Accept\<close> fail and the
  accept loop see the cancellation. A webhook goroutine ends by itself (its client has a timeout)
  and counts itself off.
\<close>

inductive progStep :: "(daemon_env \<times> Frame \<Rightarrow> bool) \<Rightarrow> server \<Rightarrow> server \<Rightarrow> bool" for ok where
  top_stop: "svAlive s \<Longrightarrow> i < length (svConns s) \<Longrightarrow> cnPc (svConns s ! i) = AtTop \<Longrightarrow> svDone s \<Longrightarrow> progStep ok s (closeConn i s)"
| top_read: "svAlive s \<Longrightarrow> i < length (svConns s) \<Longrightarrow> cnPc (svConns s ! i) = AtTop \<Longrightarrow> \<not> svDone s \<Longrightarrow>
    progStep ok s (setConn i ((svConns s ! i)\<lparr>cnPc := Reading\<rparr>) s)"
| read_error: "svAlive s \<Longrightarrow> i < length (svConns s) \<Longrightarrow> cnPc (svConns s ! i) = Reading \<Longrightarrow> ReadFrame (cnIn (svConns s ! i)) = Inl e \<Longrightarrow>
    progStep ok s (closeConn i s)"
| answer: "svAlive s \<Longrightarrow> i < length (svConns s) \<Longrightarrow> c = svConns s ! i \<Longrightarrow> cnPc c = Reading \<Longrightarrow> ReadFrame (cnIn c) = Inr (f, rest) \<Longrightarrow>
    ok (V, f) \<Longrightarrow> handleFrame V f (svDaemon s) = (Ok w, d) \<Longrightarrow>
    progStep ok s (withDaemon d (setConn i \<lparr>cnIn = rest, cnOut = cnOut c @ w, cnPc = AtTop\<rparr> s))"
| crash: "svAlive s \<Longrightarrow> i < length (svConns s) \<Longrightarrow> c = svConns s ! i \<Longrightarrow> cnPc c = Reading \<Longrightarrow> ReadFrame (cnIn c) = Inr (f, rest) \<Longrightarrow>
    ok (V, f) \<Longrightarrow> handleFrame V f (svDaemon s) = (x, d) \<Longrightarrow> \<not> is_Ok x \<Longrightarrow> progStep ok s (s\<lparr>svDaemon := d, svAlive := False\<rparr>)"
| hook_done: "svAlive s \<Longrightarrow> k < length (dHooks (svDaemon s)) \<Longrightarrow>
    progStep ok s (s\<lparr>svDaemon := finishHook V k (svDaemon s), svWG := svWG s - 1\<rparr>)"
| close_listener: "svAlive s \<Longrightarrow> svDone s \<Longrightarrow> svOpen s \<Longrightarrow> progStep ok s (s\<lparr>svOpen := False\<rparr>)"
| accept_stop: "svAlive s \<Longrightarrow> svLoop s = Accepting \<Longrightarrow> svDone s \<Longrightarrow> \<not> svOpen s \<Longrightarrow> progStep ok s (s\<lparr>svLoop := Waiting\<rparr>)"
| all_done: "svAlive s \<Longrightarrow> svLoop s = Waiting \<Longrightarrow> svWG s = 0 \<Longrightarrow> progStep ok s (s\<lparr>svLoop := Returned\<rparr>)"
| close_chain: "svAlive s \<Longrightarrow> svLoop s = Returned \<Longrightarrow> svChainOpen s \<Longrightarrow> progStep ok s (s\<lparr>svChainOpen := False\<rparr>)"

text \<open>
  What comes from outside: connections (also between the cancellation and the closing of the
  listener), bytes, the signal, and failures of \<open>Accept\<close> on the open listener: while the context
  is alive the loop goes on, afterwards it ends.
\<close>

inductive envStep :: "server \<Rightarrow> server \<Rightarrow> bool" where
  connect: "svAlive s \<Longrightarrow> svLoop s = Accepting \<Longrightarrow> svOpen s \<Longrightarrow> envStep s (s\<lparr>svConns := svConns s @ [newConn], svWG := svWG s + 1\<rparr>)"
| accept_error: "svAlive s \<Longrightarrow> svLoop s = Accepting \<Longrightarrow> \<not> svDone s \<Longrightarrow> envStep s s"
| send: "svAlive s \<Longrightarrow> i < length (svConns s) \<Longrightarrow> envStep s (setConn i ((svConns s ! i)\<lparr>cnIn := cnIn (svConns s ! i) @ bs\<rparr>) s)"
| signal: "svAlive s \<Longrightarrow> envStep s (s\<lparr>svDone := True\<rparr>)"
| accept_fails: "svAlive s \<Longrightarrow> svLoop s = Accepting \<Longrightarrow> svDone s \<Longrightarrow> svOpen s \<Longrightarrow> envStep s (s\<lparr>svLoop := Waiting\<rparr>)"

definition serverStep :: "(daemon_env \<times> Frame \<Rightarrow> bool) \<Rightarrow> server \<Rightarrow> server \<Rightarrow> bool" where
  "serverStep ok s t \<longleftrightarrow> progStep ok s t \<or> envStep s t"

section \<open>The wait group\<close>

definition openConns :: "conn list \<Rightarrow> conn list" where
  "openConns cs = filter (\<lambda>c. cnPc c \<noteq> Closed) cs"

text \<open>What the wait group should count: open connections and running webhook goroutines.\<close>

definition running :: "server \<Rightarrow> nat" where
  "running s = length (openConns (svConns s)) + length (dHooks (svDaemon s))"

definition counted :: "server \<Rightarrow> bool" where
  "counted s \<longleftrightarrow> (svAlive s \<longrightarrow> svWG s = running s) \<and> (svLoop s = Returned \<longrightarrow> svAlive s \<and> svWG s = 0) \<and>
     (\<not> svChainOpen s \<longrightarrow> svLoop s = Returned)"

lemma openConns_update:
  assumes "i < length cs"
  shows "length (openConns (cs[i := c])) + (if cnPc (cs ! i) = Closed then 0 else 1) =
    length (openConns cs) + (if cnPc c = Closed then 0 else 1)"
proof -
  have cs: "cs = take i cs @ cs ! i # drop (Suc i) cs" by (rule id_take_nth_drop [OF assms])
  have "cs[i := c] = take i cs @ c # drop (Suc i) cs" by (rule upd_conv_take_nth_drop [OF assms])
  then have "length (openConns (cs[i := c])) = length (openConns (take i cs)) + (if cnPc c = Closed then 0 else 1) + length (openConns (drop (Suc i) cs))"
    by (simp add: openConns_def)
  moreover have "length (openConns cs) = length (openConns (take i cs)) + (if cnPc (cs ! i) = Closed then 0 else 1) + length (openConns (drop (Suc i) cs))"
    by (subst cs) (simp add: openConns_def)
  ultimately show ?thesis by simp
qed

lemma closeConn_counted: "counted s \<Longrightarrow> i < length (svConns s) \<Longrightarrow> cnPc (svConns s ! i) \<noteq> Closed \<Longrightarrow> counted (closeConn i s)"
  using openConns_update [of i "svConns s" "(svConns s ! i)\<lparr>cnPc := Closed\<rparr>"] by (auto simp: counted_def running_def closeConn_def)

lemma setConn_counted:
  "counted s \<Longrightarrow> i < length (svConns s) \<Longrightarrow> (cnPc c = Closed \<longleftrightarrow> cnPc (svConns s ! i) = Closed) \<Longrightarrow> counted (setConn i c s)"
  using openConns_update [of i "svConns s" c] by (auto simp: counted_def running_def setConn_def split: if_splits)

lemma open_not_returned: "counted s \<Longrightarrow> i < length (svConns s) \<Longrightarrow> cnPc (svConns s ! i) \<noteq> Closed \<Longrightarrow> svLoop s \<noteq> Returned"
  using nth_mem by (fastforce simp: counted_def running_def openConns_def filter_empty_conv)

lemma withDaemon_counted:
  "counted s \<Longrightarrow> svLoop s \<noteq> Returned \<Longrightarrow> length (dHooks (svDaemon s)) \<le> length (dHooks d) \<Longrightarrow> counted (withDaemon d s)"
  by (auto simp: counted_def running_def withDaemon_def)

lemma finishHook_hooks: "k < length (dHooks d) \<Longrightarrow> Suc (length (dHooks (finishHook V k d))) = length (dHooks d)"
  by (auto simp: finishHook_def webhookPost_def split: option.split)

lemma handleFrame_hooks:
  assumes "handleFrame V f d = (x, d1)"
  shows "length (dHooks d) \<le> length (dHooks d1) \<and> length (dHooks d1) \<le> length (dHooks d) + 1"
  using daemonStep_hooks [of d "(V, f)"] assms by (auto simp: daemonStep_def)

lemma progStep_counted:
  assumes "progStep ok s t" and inv: "counted s"
  shows "counted t"
  using assms(1)
proof cases
  case (answer i c f rest V w d)
  let ?s = "setConn i \<lparr>cnIn = rest, cnOut = cnOut c @ w, cnPc = AtTop\<rparr> s"
  have "counted ?s" using inv answer by (intro setConn_counted) auto
  moreover have "svLoop ?s \<noteq> Returned" using open_not_returned [OF inv] answer by (simp add: setConn_def)
  ultimately show ?thesis
    using answer(1) withDaemon_counted [of ?s d] handleFrame_hooks [OF answer(8)] by (simp add: setConn_def)
next
  case (crash i c f rest V x d)
  then show ?thesis using inv open_not_returned [OF inv crash(3)] by (auto simp: counted_def)
next
  case (hook_done k V)
  then show ?thesis using inv finishHook_hooks [OF hook_done(3), of V] by (auto simp: counted_def running_def)
next
  case (top_stop i)
  then show ?thesis using closeConn_counted [OF inv] by simp
next
  case (top_read i)
  then show ?thesis using setConn_counted [OF inv] by simp
next
  case (read_error i e)
  then show ?thesis using closeConn_counted [OF inv] by simp
qed (use inv in \<open>auto simp: counted_def running_def\<close>)

lemma envStep_counted:
  assumes "envStep s t" and inv: "counted s"
  shows "counted t"
  using assms(1)
proof cases
  case (send i bs)
  then show ?thesis using inv by (auto intro: setConn_counted)
qed (use inv in \<open>auto simp: counted_def running_def openConns_def newConn_def\<close>)

section \<open>Requests of all connections\<close>

lemma serverStep_daemon:
  assumes "serverStep ok s t"
  shows "svDaemon t = svDaemon s \<or> (\<exists>e. ok e \<and> svDaemon t = daemonStep (svDaemon s) e) \<or>
    (\<exists>V k. svDaemon t = finishHook V k (svDaemon s))"
proof -
  consider "progStep ok s t" | "envStep s t" using assms by (auto simp: serverStep_def)
  then show ?thesis
  proof cases
    case 1
    then show ?thesis
    proof cases
      case (answer i c f rest V w d)
      then have "svDaemon t = daemonStep (svDaemon s) (V, f)" by (simp add: withDaemon_def daemonStep_def)
      then show ?thesis using answer(7) by blast
    next
      case (crash i c f rest V x d)
      then have "svDaemon t = daemonStep (svDaemon s) (V, f)" by (simp add: daemonStep_def)
      then show ?thesis using crash(7) by blast
    next
      case (hook_done k V)
      then have "svDaemon t = finishHook V k (svDaemon s)" by simp
      then show ?thesis by blast
    qed (auto simp: closeConn_def setConn_def)
  next
    case 2
    then show ?thesis by cases (auto simp: setConn_def)
  qed
qed

lemma finishHook_kept [simp]:
  "dChain (finishHook V k d) = dChain d" "dKeystore (finishHook V k d) = dKeystore d"
  by (simp_all add: finishHook_def webhookPost_def split: option.split)

interpretation serverSys: reach_system "serverStep (daemonAllowed C A K)"
    "\<lambda>s. crypto_ok C \<and> aead_ok A \<and> daemon_inv C A K (svDaemon s) \<and> counted s"
  for C A K
proof unfold_locales
  fix s t
  assume st: "serverStep (daemonAllowed C A K) s t" and inv: "crypto_ok C \<and> aead_ok A \<and> daemon_inv C A K (svDaemon s) \<and> counted s"
  have "daemon_inv C A K (svDaemon t)" using serverStep_daemon [OF st]
  proof (elim disjE)
    assume "\<exists>e. daemonAllowed C A K e \<and> svDaemon t = daemonStep (svDaemon s) e"
    then show ?thesis using inv daemonSys.step_inv [of C A K "svDaemon s"] by auto
  next
    assume "\<exists>V k. svDaemon t = finishHook V k (svDaemon s)"
    then show ?thesis using inv by (auto simp: daemon_inv_def)
  qed (use inv in simp)
  moreover have "counted t" using st inv progStep_counted envStep_counted by (auto simp: serverStep_def)
  ultimately show "crypto_ok C \<and> aead_ok A \<and> daemon_inv C A K (svDaemon t) \<and> counted t" using inv by simp
qed

lemma NewDaemon_hooks: "NewDaemon C dev openFails mkdirErr schemaErr st = Inr d \<Longrightarrow> dHooks d = []"
  by (auto simp: NewDaemon_def split: go.splits sum.splits option.splits)

lemma server_inv:
  assumes "crypto_ok C" and "aead_ok A"
    and "NewDaemon C dev openFails mkdirErr schemaErr st = Inr d0" and "stChain st = emptyDB" and "stKeystore st = Inr (newKeystore key [])"
    and "(serverStep (daemonAllowed C A K))\<^sup>*\<^sup>* (RunOnListener d0) s"
  shows "chain_inv C K (dChain (svDaemon s))" and "counted s"
proof -
  have "crypto_ok C \<and> aead_ok A \<and> daemon_inv C A K (svDaemon (RunOnListener d0)) \<and> counted (RunOnListener d0)"
    using assms(1,2) NewDaemon_inv [OF assms(3-5)] by (simp add: RunOnListener_def counted_def running_def openConns_def NewDaemon_hooks [OF assms(3)])
  then show "chain_inv C K (dChain (svDaemon s))" "counted s" using serverSys.reach_inv [OF assms(6)] by (auto simp: daemon_inv_def)
qed

text \<open>
  C4. The running daemon. Start a daemon on an empty database and keystore and let any number of
  clients connect, send and disconnect, their requests interleaved in any order, with timeouts, a
  signal, webhook goroutines ending late or even a panicking handler at any moment. The requests
  are those \<open>daemonAllowed\<close> admits: no sign-append request has a text that is cut inside a rune
  (such a request is accepted, and no chain verifies after it), the wall clock fits an
  \<open>int64\<close>, the key pairs a registration draws are the ring's, nonces have their length, and a key
  file left cut short by a failed write does not decrypt. Then in every state that is reached the
  chain verifies, with and without the agents' keys. While no handler has panicked, the wait group
  counts the open connections and the running webhook goroutines; and the database is closed
  only after the accept loop has ended, every connection is closed and every webhook goroutine
  has ended, so no request ever meets a closed database.
\<close>

theorem server_chain_verifies:
  assumes "crypto_ok C" and "aead_ok A"
    and "NewDaemon C dev openFails mkdirErr schemaErr st = Inr d0" and "stChain st = emptyDB" and "stKeystore st = Inr (newKeystore key [])"
    and "(serverStep (daemonAllowed C A K))\<^sup>*\<^sup>* (RunOnListener d0) s"
  shows "VerifyChain C noVerifyFaults None (dChain (svDaemon s)) = Ok (validResult (length (receipts (db (dChain (svDaemon s)))))) \<and>
    VerifyChain C noVerifyFaults (Some (\<lambda>a. Some (edPublic C (K a)))) (dChain (svDaemon s)) =
      Ok (validResult (length (receipts (db (dChain (svDaemon s)))))) \<and>
    (svAlive s \<longrightarrow> svWG s = length (openConns (svConns s)) + length (dHooks (svDaemon s))) \<and>
    (\<not> svChainOpen s \<longrightarrow> svLoop s = Returned \<and> openConns (svConns s) = [] \<and> dHooks (svDaemon s) = [])"
  using server_inv [OF assms] by (auto simp: VerifyChain_inv counted_def running_def)

section \<open>Shutting down\<close>

text \<open>
  What is left to do. A handler that is reading may still answer one request, which may start one
  webhook goroutine.
\<close>

fun connSize :: "conn_pc \<Rightarrow> nat" where
  "connSize Reading = 3"
| "connSize AtTop = 1"
| "connSize Closed = 0"

fun loopSize :: "loop_pc \<Rightarrow> nat" where
  "loopSize Accepting = 2"
| "loopSize Waiting = 1"
| "loopSize Returned = 0"

definition serverSize :: "server \<Rightarrow> nat" where
  "serverSize s = sum_list (map (\<lambda>c. connSize (cnPc c)) (svConns s)) + loopSize (svLoop s) +
     (if svOpen s then 1 else 0) + (if svChainOpen s then 1 else 0) + (if svAlive s then 1 + length (dHooks (svDaemon s)) else 0)"

definition stopping :: "server \<Rightarrow> bool" where
  "stopping s \<longleftrightarrow> svDone s \<and> counted s"

definition ended :: "server \<Rightarrow> bool" where
  "ended s \<longleftrightarrow> \<not> svAlive s \<or> \<not> svChainOpen s"

lemma sum_connSize_update:
  assumes "i < length cs"
  shows "sum_list (map (\<lambda>c. connSize (cnPc c)) (cs[i := c])) + connSize (cnPc (cs ! i)) =
    sum_list (map (\<lambda>c. connSize (cnPc c)) cs) + connSize (cnPc c)"
proof -
  have cs: "cs = take i cs @ cs ! i # drop (Suc i) cs" by (rule id_take_nth_drop [OF assms])
  have "cs[i := c] = take i cs @ c # drop (Suc i) cs" by (rule upd_conv_take_nth_drop [OF assms])
  then show ?thesis by (subst (3) cs) simp
qed

lemma progStep_decrease:
  assumes "progStep ok s t" and "stopping s"
  shows "serverSize t < serverSize s"
  using assms(1)
proof cases
  case (top_stop i)
  then show ?thesis using sum_connSize_update [of i "svConns s" "(svConns s ! i)\<lparr>cnPc := Closed\<rparr>"]
    by (simp add: serverSize_def closeConn_def)
next
  case (read_error i e)
  then show ?thesis using sum_connSize_update [of i "svConns s" "(svConns s ! i)\<lparr>cnPc := Closed\<rparr>"]
    by (simp add: serverSize_def closeConn_def)
next
  case (answer i c f rest V w d)
  then show ?thesis using sum_connSize_update [of i "svConns s" "\<lparr>cnIn = rest, cnOut = cnOut c @ w, cnPc = AtTop\<rparr>"]
      handleFrame_hooks [OF answer(8)]
    by (simp add: serverSize_def setConn_def withDaemon_def)
next
  case (hook_done k V)
  then show ?thesis using finishHook_hooks [OF hook_done(3), of V] by (simp add: serverSize_def)
qed (use assms(2) in \<open>auto simp: serverSize_def stopping_def\<close>)

lemma progStep_done: "progStep ok s t \<Longrightarrow> svDone t = svDone s"
  by (erule progStep.cases) (auto simp: closeConn_def setConn_def withDaemon_def)

lemma progStep_progress:
  assumes "stopping s" and "\<not> ended s"
  shows "\<exists>t. progStep (\<lambda>e. True) s t"
proof (cases "openConns (svConns s) = []")
  case True
  have up: "svAlive s" "svDone s" "svChainOpen s" and wg: "svWG s = length (dHooks (svDaemon s))"
    using assms True by (auto simp: stopping_def ended_def counted_def running_def)
  show ?thesis
  proof (cases "dHooks (svDaemon s) = []")
    case True
    then show ?thesis using up wg progStep.close_listener [of s] progStep.accept_stop [of s] progStep.all_done [of s] progStep.close_chain [of s]
      by (cases "svLoop s"; cases "svOpen s") auto
  next
    case False
    then show ?thesis using progStep.hook_done [OF up(1), of 0] by blast
  qed
next
  case False
  then obtain c where "c \<in> set (svConns s)" "cnPc c \<noteq> Closed" by (auto simp: openConns_def filter_empty_conv)
  then obtain i where i: "i < length (svConns s)" "cnPc (svConns s ! i) \<noteq> Closed" by (auto simp: in_set_conv_nth)
  have up: "svAlive s" "svDone s" using assms by (simp_all add: ended_def stopping_def)
  show ?thesis
  proof (cases "cnPc (svConns s ! i)")
    case AtTop
    then show ?thesis using progStep.top_stop [OF up(1) i(1) _ up(2)] by blast
  next
    case Reading
    show ?thesis
    proof (cases "ReadFrame (cnIn (svConns s ! i))")
      case (Inl e)
      then show ?thesis using progStep.read_error [OF up(1) i(1) Reading] by blast
    next
      case (Inr r)
      obtain f rest where r: "r = (f, rest)" by fastforce
      obtain x d where h: "handleFrame undefined f (svDaemon s) = (x, d)" by (metis surj_pair)
      show ?thesis
      proof (cases x)
        case (Ok w)
        show ?thesis
          by (rule exI, rule progStep.answer [OF up(1) i(1) refl Reading Inr [unfolded r] _ h [unfolded Ok]]) simp
      next
        case (Err e)
        show ?thesis
          by (rule exI, rule progStep.crash [OF up(1) i(1) refl Reading Inr [unfolded r] _ h]) (simp_all add: Err)
      next
        case Panic
        show ?thesis
          by (rule exI, rule progStep.crash [OF up(1) i(1) refl Reading Inr [unfolded r] _ h]) (simp_all add: Panic)
      qed
    qed
  qed (use i in simp)
qed

interpretation stopSys: ending_system "progStep (\<lambda>e. True)" stopping ended serverSize
proof unfold_locales
  fix s t
  assume "progStep (\<lambda>e. True) s t" "stopping s"
  then show "stopping t" "serverSize t < serverSize s" using progStep_counted progStep_done progStep_decrease by (auto simp: stopping_def)
next
  fix s
  assume "stopping s" "\<not> ended s"
  then show "\<exists>t. progStep (\<lambda>e. True) s t" by (rule progStep_progress)
qed

lemma serverSize_bound: "serverSize s \<le> 3 * running s + 5"
proof -
  have "sum_list (map (\<lambda>c. connSize (cnPc c)) cs) \<le> 3 * length (openConns cs)" for cs
  proof (induction cs)
    case (Cons c cs)
    then show ?case by (cases "cnPc c") (simp_all add: openConns_def)
  qed (simp add: openConns_def)
  then have "sum_list (map (\<lambda>c. connSize (cnPc c)) (svConns s)) \<le> 3 * length (openConns (svConns s))" .
  moreover have "loopSize (svLoop s) \<le> 2" by (cases "svLoop s") simp_all
  ultimately show ?thesis by (simp add: serverSize_def running_def)
qed

text \<open>
  C8. Shutdown terminates. Take any state of a daemon that started with no webhook goroutine. Let
  the signal have cancelled the context, and let nothing more come
  from the clients. Then the process takes at most three steps per open connection and running
  webhook goroutine and five more, however the goroutines are scheduled: the listener is closed,
  the blocked \<open>Accept\<close> fails, each handler answers at most the request it is waiting for (which may
  start one more webhook), each webhook goroutine ends by its timeout at the latest, and the wait
  group reaches zero. When no step is left, a handler has panicked, or the listener is closed, the
  accept loop has returned, no connection is open, no webhook goroutine is running and the
  database is closed; and that end is reached. A handler's work counts as one step that
  ends; the wait of the MCP stop handler for the proxy's connections is the subject of the theory
  \<open>ProxyLife\<close>.
\<close>

theorem shutdown_completes:
  assumes "(serverStep ok)\<^sup>*\<^sup>* (RunOnListener d0) s" and "dHooks d0 = []" and "svDone s"
  shows "(\<forall>n t. (progStep (\<lambda>e. True) ^^ n) s t \<longrightarrow> n \<le> 3 * (length (openConns (svConns s)) + length (dHooks (svDaemon s))) + 5 \<and>
      ((\<nexists>u. progStep (\<lambda>e. True) t u) \<longrightarrow> \<not> svAlive t \<or>
        (\<not> svOpen t \<and> svLoop t = Returned \<and> svWG t = 0 \<and> openConns (svConns t) = [] \<and> dHooks (svDaemon t) = [] \<and> \<not> svChainOpen t))) \<and>
    (\<exists>t. (progStep (\<lambda>e. True))\<^sup>*\<^sup>* s t \<and> (\<not> svAlive t \<or> \<not> svChainOpen t))"
proof -
  have keep: "serverStep ok u v \<Longrightarrow> counted u \<Longrightarrow> counted v" for u v
    using progStep_counted envStep_counted by (auto simp: serverStep_def)
  have "counted s" using assms(1)
  proof (induction rule: rtranclp_induct)
    case base
    then show ?case using assms(2) by (simp add: RunOnListener_def counted_def running_def openConns_def)
  qed (rule keep)
  then have st: "stopping s" using assms(3) by (simp add: stopping_def)
  then have "n \<le> 3 * running s + 5 \<and> stopping t" if "(progStep (\<lambda>e. True) ^^ n) s t" for n t
    using stopSys.run_bounded [OF that] stopSys.reach_inv [OF relpowp_imp_rtranclp [OF that]] serverSize_bound [of s]
    by (auto simp: stopping_def)
  moreover have "\<not> svAlive t \<or> (\<not> svOpen t \<and> svLoop t = Returned \<and> svWG t = 0 \<and> openConns (svConns t) = [] \<and>
      dHooks (svDaemon t) = [] \<and> \<not> svChainOpen t)"
    if "stopping t" "\<nexists>u. progStep (\<lambda>e. True) t u" for t
    using that progStep_progress [OF that(1)] progStep.close_listener [of t]
    by (auto simp: ended_def stopping_def counted_def running_def)
  ultimately show ?thesis using stopSys.reaches_final [OF st] unfolding ended_def running_def by blast
qed

section \<open>One connection is \<open>Handle\<close>\<close>

text \<open>
  A connection that is served without a signal, on the bytes its client has sent, does what
  \<open>Handle\<close> does on them: it leaves the same daemon and has written the same answers.
\<close>

lemma top_reads:
  assumes "svAlive s" "\<not> svDone s" "i < length (svConns s)" "cnPc (svConns s ! i) = AtTop"
  obtains s1 where "serverStep ok s s1" "svAlive s1" "i < length (svConns s1)" "cnPc (svConns s1 ! i) = Reading" "\<not> svDone s1"
    "cnIn (svConns s1 ! i) = cnIn (svConns s ! i)" "cnOut (svConns s1 ! i) = cnOut (svConns s ! i)" "svDaemon s1 = svDaemon s"
proof (rule that)
  show "serverStep ok s (setConn i ((svConns s ! i)\<lparr>cnPc := Reading\<rparr>) s)"
    using progStep.top_read [OF assms(1,3,4,2)] by (simp add: serverStep_def)
qed (use assms in \<open>simp_all add: setConn_def\<close>)

text \<open>The three ways a turn of the loop can go.\<close>

lemma turn_ends:
  assumes "svAlive s" "\<not> svDone s" "i < length (svConns s)" "cnPc (svConns s ! i) = AtTop" and "ReadFrame (cnIn (svConns s ! i)) = Inl e"
  shows "\<exists>t. (serverStep ok)\<^sup>*\<^sup>* s t \<and> svAlive t \<and> svDaemon t = svDaemon s \<and> cnPc (svConns t ! i) = Closed \<and> cnOut (svConns t ! i) = cnOut (svConns s ! i)"
proof (rule top_reads [OF assms(1-4), of ok])
  fix s1
  assume s1: "serverStep ok s s1" "svAlive s1" "i < length (svConns s1)" "cnPc (svConns s1 ! i) = Reading"
    "cnIn (svConns s1 ! i) = cnIn (svConns s ! i)" "cnOut (svConns s1 ! i) = cnOut (svConns s ! i)" "svDaemon s1 = svDaemon s"
  then have "serverStep ok s1 (closeConn i s1)" using progStep.read_error [OF s1(2-4)] assms(5) by (simp add: serverStep_def)
  then show ?thesis using s1 by (intro exI [of _ "closeConn i s1"]) (auto simp: closeConn_def)
qed

lemma turn_answers:
  assumes "svAlive s" "\<not> svDone s" "i < length (svConns s)" "cnPc (svConns s ! i) = AtTop" and "ReadFrame (cnIn (svConns s ! i)) = Inr (f, rest)"
    and "ok (V, f)" and "handleFrame V f (svDaemon s) = (Ok w, d)"
  obtains t where "(serverStep ok)\<^sup>*\<^sup>* s t" "svAlive t" "\<not> svDone t" "i < length (svConns t)" "cnPc (svConns t ! i) = AtTop"
    "cnIn (svConns t ! i) = rest" "cnOut (svConns t ! i) = cnOut (svConns s ! i) @ w" "svDaemon t = d"
proof (rule top_reads [OF assms(1-4), of ok])
  fix s1
  assume s1: "serverStep ok s s1" "svAlive s1" "i < length (svConns s1)" "cnPc (svConns s1 ! i) = Reading" "\<not> svDone s1"
    "cnIn (svConns s1 ! i) = cnIn (svConns s ! i)" "cnOut (svConns s1 ! i) = cnOut (svConns s ! i)" "svDaemon s1 = svDaemon s"
  let ?t = "withDaemon d (setConn i \<lparr>cnIn = rest, cnOut = cnOut (svConns s1 ! i) @ w, cnPc = AtTop\<rparr> s1)"
  have "serverStep ok s1 ?t"
    using progStep.answer [OF s1(2,3) refl s1(4), of f rest ok V w d] assms(5-7) s1(6,8) by (simp add: serverStep_def)
  then have "(serverStep ok)\<^sup>*\<^sup>* s ?t" using s1(1) by (meson r_into_rtranclp rtranclp_trans)
  then show thesis by (rule that) (use s1 in \<open>simp_all add: setConn_def withDaemon_def\<close>)
qed

lemma turn_crashes:
  assumes "svAlive s" "\<not> svDone s" "i < length (svConns s)" "cnPc (svConns s ! i) = AtTop" and "ReadFrame (cnIn (svConns s ! i)) = Inr (f, rest)"
    and "ok (V, f)" and "handleFrame V f (svDaemon s) = (x, d)" and "\<not> is_Ok x"
  shows "\<exists>t. (serverStep ok)\<^sup>*\<^sup>* s t \<and> \<not> svAlive t \<and> svDaemon t = d"
proof (rule top_reads [OF assms(1-4), of ok])
  fix s1
  assume s1: "serverStep ok s s1" "svAlive s1" "i < length (svConns s1)" "cnPc (svConns s1 ! i) = Reading"
    "cnIn (svConns s1 ! i) = cnIn (svConns s ! i)" "svDaemon s1 = svDaemon s"
  then have "serverStep ok s1 (s1\<lparr>svDaemon := d, svAlive := False\<rparr>)"
    using progStep.crash [OF s1(2,3) refl s1(4), of f rest ok V x d] assms(5-8) by (simp add: serverStep_def)
  then show ?thesis using s1(1) by (intro exI [of _ "s1\<lparr>svDaemon := d, svAlive := False\<rparr>"]) auto
qed

lemma Handle_served:
  assumes "svAlive s" "\<not> svDone s" "i < length (svConns s)" "cnPc (svConns s ! i) = AtTop"
    and "\<forall>f\<in>set (readFrames (cnIn (svConns s ! i))). \<forall>k. ok (V k, f)"
  shows "\<exists>t. (serverStep ok)\<^sup>*\<^sup>* s t \<and> svDaemon t = snd (Handle V n (cnIn (svConns s ! i)) (svDaemon s)) \<and>
    (\<forall>out. fst (Handle V n (cnIn (svConns s ! i)) (svDaemon s)) = Ok out \<longrightarrow>
       svAlive t \<and> cnPc (svConns t ! i) = Closed \<and> cnOut (svConns t ! i) = cnOut (svConns s ! i) @ out)"
  using assms
proof (induction "length (cnIn (svConns s ! i))" arbitrary: s n rule: less_induct)
  case less
  note up = less.prems(1-4)
  let ?w = "cnIn (svConns s ! i)"
  show ?case
  proof (cases "ReadFrame ?w")
    case (Inl e)
    then have "Handle V n ?w (svDaemon s) = (Ok [], svDaemon s)" by (subst Handle.simps) simp
    then show ?thesis using turn_ends [OF up Inl, of ok] by auto
  next
    case (Inr r)
    obtain f rest where r: "r = (f, rest)" by fastforce
    note rd = Inr [unfolded r]
    obtain x d where h: "handleFrame (V n) f (svDaemon s) = (x, d)" by (metis surj_pair)
    have fs: "readFrames ?w = f # readFrames rest" using rd by (subst readFrames.simps) simp
    then have okf: "ok (V n, f)" using less.prems(5) by simp
    show ?thesis
    proof (cases "is_Ok x")
      case True
      then obtain w1 where x: "x = Ok w1" by (auto simp: is_Ok_iff)
      obtain u where u: "(serverStep ok)\<^sup>*\<^sup>* s u" "svAlive u" "\<not> svDone u" "i < length (svConns u)" "cnPc (svConns u ! i) = AtTop"
        "cnIn (svConns u ! i) = rest" "cnOut (svConns u ! i) = cnOut (svConns s ! i) @ w1" "svDaemon u = d"
        using turn_answers [OF up rd, of ok "V n"] okf h [unfolded x] by metis
      have "length rest < length ?w" using ReadFrame_shrinks rd by blast
      then obtain t where t: "(serverStep ok)\<^sup>*\<^sup>* u t" "svDaemon t = snd (Handle V (n + 1) rest d)"
        "\<forall>out. fst (Handle V (n + 1) rest d) = Ok out \<longrightarrow>
           svAlive t \<and> cnPc (svConns t ! i) = Closed \<and> cnOut (svConns t ! i) = (cnOut (svConns s ! i) @ w1) @ out"
        using less.hyps [of u "n + 1"] u(2-8) less.prems(5) fs by auto
      have "Handle V n ?w (svDaemon s) = (case Handle V (n + 1) rest d of (Ok ws, d2) \<Rightarrow> (Ok (w1 @ ws), d2) | (x, d2) \<Rightarrow> (Panic, d2))"
        by (subst Handle.simps) (simp add: rd h x)
      then show ?thesis using rtranclp_trans [OF u(1) t(1)] t(2,3) by (intro exI [of _ t]) (auto split: prod.splits go.splits)
    next
      case False
      then have "Handle V n ?w (svDaemon s) = (Panic, d)" by (subst Handle.simps) (cases x; simp add: rd h)
      then show ?thesis using turn_crashes [OF up rd, of ok "V n"] okf h False by auto
    qed
  qed
qed

lemma client_served:
  assumes "\<forall>f\<in>set (readFrames w). \<forall>k. ok (V k, f)"
  shows "\<exists>s. (serverStep ok)\<^sup>*\<^sup>* (RunOnListener d) s \<and> svDaemon s = snd (Handle V 0 w d)"
proof -
  let ?s = "(RunOnListener d)\<lparr>svConns := [newConn\<lparr>cnIn := w\<rparr>], svWG := 1\<rparr>"
  have "envStep (RunOnListener d) ((RunOnListener d)\<lparr>svConns := [newConn], svWG := 1\<rparr>)"
    using envStep.connect [of "RunOnListener d"] by (simp add: RunOnListener_def)
  moreover have "envStep ((RunOnListener d)\<lparr>svConns := [newConn], svWG := 1\<rparr>) ?s"
    using envStep.send [of "(RunOnListener d)\<lparr>svConns := [newConn], svWG := 1\<rparr>" 0 w] by (simp add: RunOnListener_def setConn_def newConn_def)
  ultimately have "(serverStep ok)\<^sup>*\<^sup>* (RunOnListener d) ?s"
    by (meson converse_rtranclp_into_rtranclp r_into_rtranclp serverStep_def)
  moreover obtain t where "(serverStep ok)\<^sup>*\<^sup>* ?s t" "svDaemon t = snd (Handle V 0 w d)"
    using Handle_served [of ?s 0 ok V 0] assms by (auto simp: RunOnListener_def newConn_def)
  ultimately show ?thesis by (meson rtranclp_trans)
qed

section \<open>A client\<close>

lemma exServed:
  obtains d0 w s where "NewDaemon flatCrypto False (\<lambda>s. False) False False exStored = Inr d0"
    "WriteFrame MsgRegister (frBody (snd (hd exRequests))) = Some w" "svDaemon s = snd (Handle (\<lambda>k. exDEnv) 0 w d0)"
    "(serverStep (daemonAllowed flatCrypto toyAead (\<lambda>i. Keystore.exKey 0)))\<^sup>*\<^sup>* (RunOnListener d0) s"
proof -
  obtain d0 where d0: "NewDaemon flatCrypto False (\<lambda>s. False) False False exStored = Inr d0" using exStored_starts by blast
  let ?f = "snd (hd exRequests)"
  have f: "frType ?f = MsgRegister" "fst (hd exRequests) = exDEnv" by (simp_all add: exRequests_def)
  have "length (jsonEnc (JObj [(''name'', JStr ''bot'')])) < 100" by code_simp
  then have "length (frBody ?f) < 100" by (simp add: exRequests_def del: jsonEnc.simps)
  then obtain w where w: "WriteFrame MsgRegister (frBody ?f) = Some w" by (simp add: WriteFrame_def MaxFrameSize_def)
  then have "ReadFrame w = Inr (?f, [])" using ReadFrame_WriteFrame [OF w, of "[]"] f by (simp add: MsgRegister_def)
  then have "readFrames w = [?f]" by (subst readFrames.simps) (subst readFrames.simps, simp add: ReadFrame_def)
  moreover have "daemonAllowed flatCrypto toyAead (\<lambda>i. Keystore.exKey 0) (exDEnv, ?f)"
    using exRequests_allowed f by (simp add: exRequests_def)
  ultimately show ?thesis
    using client_served [of w "daemonAllowed flatCrypto toyAead (\<lambda>i. Keystore.exKey 0)" "\<lambda>k. exDEnv" d0] that d0 w by auto
qed

theorem server_chain_verifies_witness:
  "\<exists>d0 w (s :: server). NewDaemon flatCrypto False (\<lambda>s. False) False False exStored = Inr d0 \<and> WriteFrame MsgRegister (frBody (snd (hd exRequests))) = Some w \<and>
     svDaemon s = snd (Handle (\<lambda>k. exDEnv) 0 w d0) \<and>
     VerifyChain flatCrypto noVerifyFaults None (dChain (svDaemon s)) = Ok (validResult (length (receipts (db (dChain (svDaemon s))))))"
proof (rule exServed)
  fix d0 w s
  assume h: "NewDaemon flatCrypto False (\<lambda>s. False) False False exStored = Inr d0" "WriteFrame MsgRegister (frBody (snd (hd exRequests))) = Some w"
    "svDaemon s = snd (Handle (\<lambda>k. exDEnv) 0 w d0)"
    and r: "(serverStep (daemonAllowed flatCrypto toyAead (\<lambda>i. Keystore.exKey 0)))\<^sup>*\<^sup>* (RunOnListener d0) s"
  note v = server_chain_verifies [OF flatCrypto_ok toyAead_ok h(1) exStored_empty r, THEN conjunct1]
  show ?thesis by (rule exI [of _ d0], rule exI [of _ w], rule exI [of _ s]) (intro conjI h v)
qed

text \<open>A signal arrives while one connection is open.\<close>

theorem shutdown_completes_witness:
  "\<exists>s t. s = (RunOnListener (exDaemon\<lparr>dWebhookURL := ''https://hook''\<rparr>))\<lparr>svConns := [newConn], svWG := 1, svDone := True\<rparr> \<and>
     (progStep (\<lambda>e. True))\<^sup>*\<^sup>* s t \<and> (\<not> svAlive t \<or> \<not> svChainOpen t)"
proof -
  let ?d = "exDaemon\<lparr>dWebhookURL := ''https://hook''\<rparr>"
  let ?s1 = "(RunOnListener ?d)\<lparr>svConns := [newConn], svWG := 1\<rparr>" and ?s2 = "(RunOnListener ?d)\<lparr>svConns := [newConn], svWG := 1, svDone := True\<rparr>"
  have "envStep (RunOnListener ?d) ?s1" using envStep.connect [of "RunOnListener ?d"] by (simp add: RunOnListener_def)
  moreover have "envStep ?s1 ?s2" using envStep.signal [of ?s1] by (simp add: RunOnListener_def)
  ultimately have "(serverStep (\<lambda>e. True))\<^sup>*\<^sup>* (RunOnListener ?d) ?s2"
    by (meson converse_rtranclp_into_rtranclp r_into_rtranclp serverStep_def)
  then show ?thesis using shutdown_completes [of "\<lambda>e. True" ?d ?s2] by (simp add: exDaemon_def)
qed

end
