(* ===== verification/SplitRune.thy ===== *)
theory SplitRune
  imports DaemonSystem
begin

text \<open>
  What happens to text that the builder cuts inside a rune (\<open>truncateStr\<close> of
  \<open>internal/receipt/receipt.go\<close>): the encoder writes an escape for the broken byte, the decoder
  reads the replacement character, and encoding that again gives other bytes than the stored ones.
\<close>

section \<open>Decoding text that is not valid\<close>

fun repaired :: "json \<Rightarrow> json" where
  "repaired (JStr s) = JStr (coerceUtf8 s)"
| "repaired v = v"

abbreviation repairMember :: "string \<times> json \<Rightarrow> string \<times> json" where
  "repairMember \<equiv> (\<lambda>(k, v). (k, repaired v))"

fun plain :: "json \<Rightarrow> bool" where
  "plain (JStr s) = True"
| "plain (JNum t) = (\<exists>i. t = showInt i)"
| "plain v = False"

definition plainMembers :: "(string \<times> json) list \<Rightarrow> bool" where
  "plainMembers ms \<longleftrightarrow> (\<forall>(k, v)\<in>set ms. validUtf8 k \<and> plain v)"

lemma parseValue_plain:
  assumes "plain v" and "stops s"
  shows "parseValue (Suc n) d (jsonEnc v @ s) = Some (repaired v, s)"
  using assms
proof (cases v)
  case (JStr t)
  then show ?thesis by (simp add: jsonString_def skipWs_Cons unquote_jsonBody_any)
qed (auto simp: parseValue_num simp del: parseValue.simps)

lemma parseMembers_plain:
  "plainMembers ms \<Longrightarrow> ms \<noteq> [] \<Longrightarrow> length ms < n \<Longrightarrow>
   parseMembers n d (joinWith '','' (map encMember ms) @ CHR ''}'' # s) = Some (map repairMember ms, s)"
proof (induction ms arbitrary: n)
  case (Cons m ms)
  obtain k v where m: "m = (k, v)" by (cases m)
  obtain j where n: "n = Suc (Suc j)" using Cons.prems(3) by (cases n; cases "n - 1") auto
  have kv: "validUtf8 k" "plain v" "plainMembers ms" using Cons.prems(1) m by (auto simp: plainMembers_def)
  have pv: "parseValue (Suc j) d (jsonEnc v @ c # t) = Some (repaired v, c # t)" if "term_char c" for c t
    using parseValue_plain [OF kv(2), of "c # t"] that by simp
  show ?case
  proof (cases "ms = []")
    case True
    then show ?thesis using pv [of "CHR ''}''" s]
      by (simp add: m n term_char_def skipWs_Cons jsonString_def unquote_jsonBody [OF kv(1)] del: parseValue.simps)
  next
    case False
    then show ?thesis using pv [of "CHR '',''" "joinWith '','' (map encMember ms) @ CHR ''}'' # s"] Cons.IH [OF kv(3), of "Suc j"] Cons.prems(3) n
      by (simp add: m term_char_def skipWs_Cons joinWith_Cons jsonString_def unquote_jsonBody [OF kv(1)] del: parseValue.simps)
  qed
qed simp

lemma length_joinWith: "length (joinWith '','' xs) = sum_list (map length xs) + (length xs - 1)"
  by (induction xs) (auto simp: joinWith_Cons)

lemma jsonParse_plain:
  assumes "plainMembers ms" and "ms \<noteq> []"
  shows "jsonParse (jsonEnc (JObj ms)) = Some (JObj (map repairMember ms))"
proof -
  let ?b = "joinWith '','' (map encMember ms)"
  have "length (jsonString k) \<ge> 1" for k by (simp add: jsonString_def)
  then have "\<forall>x\<in>set (map encMember ms). 1 \<le> length x" by fastforce
  then have "length xs \<le> sum_list (map length xs)" if "set xs \<subseteq> set (map encMember ms)" for xs
    using that by (induction xs) fastforce+
  then have "length ms \<le> length ?b" unfolding length_joinWith using order_refl length_map by (metis trans_le_add1)
  then have "parseMembers (length ?b + 3) 1 (?b @ CHR ''}'' # []) = Some (map repairMember ms, [])"
    by (intro parseMembers_plain assms) simp
  moreover obtain es where "?b = quote # es" using assms(2) by (cases ms) (auto simp: joinWith_Cons jsonString_def)
  ultimately show ?thesis by (simp add: jsonParse_def skipWs_Cons skipWs_def numeral_eq_Suc del: parseMembers.simps)
qed

section \<open>The receipt that is read back\<close>

definition repairReceipt :: "Receipt \<Rightarrow> Receipt" where
  "repairReceipt r = (bare r)\<lparr>ReceiptID := coerceUtf8 (ReceiptID r), Phase := coerceUtf8 (Phase r), AgentID := coerceUtf8 (AgentID r),
     ParentAgentID := coerceUtf8 (ParentAgentID r), PrevReceiptHash := coerceUtf8 (PrevReceiptHash r),
     ActionType := coerceUtf8 (ActionType r), PayloadHash := coerceUtf8 (PayloadHash r), PayloadSummary := coerceUtf8 (PayloadSummary r),
     PolicyDecision := coerceUtf8 (PolicyDecision r), AuthorizingContext := coerceUtf8 (AuthorizingContext r),
     SnapshotID := coerceUtf8 (SnapshotID r), Outcome := coerceUtf8 (Outcome r), OutcomeSummary := coerceUtf8 (OutcomeSummary r),
     PreReceiptID := coerceUtf8 (PreReceiptID r), Signature := coerceUtf8 (Signature r)\<rparr>"

lemma coerceUtf8_Nil [simp]: "coerceUtf8 s = [] \<longleftrightarrow> s = []"
  by (subst coerceUtf8.simps) (auto split: list.split option.split dest: utf8Len_pos)

lemma repair_parts:
  "map repairMember (reqS k s) = reqS k (coerceUtf8 s)" "map repairMember (optS k s) = optS k (coerceUtf8 s)"
  "map repairMember (reqI k i) = reqI k i" "map repairMember (optI k i) = optI k i"
  by (simp_all add: reqS_def optS_def reqI_def optI_def)

lemma receiptFields_repair: "map repairMember (receiptFields r) = receiptFields (repairReceipt r)"
  by (simp add: receiptFields_def repair_parts repairReceipt_def bare_def del: map_append flip: map_append) (simp add: repair_parts)

lemma receiptFields_plain: "plainMembers (receiptFields r)"
  by (auto simp: plainMembers_def receiptFields_def reqS_def optS_def reqI_def optI_def validUtf8_ascii)

lemma unmarshal_repaired:
  assumes "in_i64 (DurationMS r)" "in_i64 (TimestampNS r)"
  shows "unmarshalReceipt (marshalReceipt r) = Some (repairReceipt r)"
proof -
  have "receiptFields r \<noteq> []" by (simp add: receiptFields_def reqS_def)
  then have "jsonParse (marshalReceipt r) = Some (JObj (receiptFields (repairReceipt r)))"
    using jsonParse_plain [OF receiptFields_plain] unfolding marshalReceipt_def receiptFields_repair by simp
  moreover have "setReceiptFields (receiptFields (repairReceipt r)) zeroReceipt = Some (bare (repairReceipt r))"
    by (rule setReceiptFields_receiptFields) (use assms in \<open>simp_all add: repairReceipt_def bare_def\<close>)
  moreover have "bare (repairReceipt r) = repairReceipt r" by (simp add: repairReceipt_def bare_def)
  ultimately show ?thesis by (simp add: unmarshalReceipt_def)
qed

section \<open>Other bytes\<close>

text \<open>The escape of a broken byte is six bytes long, the replacement character three.\<close>

lemma jsonBody_replacement: "jsonBody ([CHR 0xEF, CHR 0xBF, CHR 0xBD] @ s) = [CHR 0xEF, CHR 0xBF, CHR 0xBD] @ jsonBody s"
proof -
  have "utf8Len ([CHR 0xEF, CHR 0xBF, CHR 0xBD] @ s) = Some 3" by (intro utf8Len_append) code_simp
  then show ?thesis by (subst jsonBody.simps) simp
qed

text \<open>A whole rune in front is encoded for itself.\<close>

lemma jsonBody_multi:
  assumes "utf8Len x = Some (length x)" and "\<not> byte (hd x) < 128"
  shows "jsonBody (x @ t) = (if x = [CHR 0xE2, CHR 0x80, CHR 0xA8] then bslash # ''u2028''
      else if x = [CHR 0xE2, CHR 0x80, CHR 0xA9] then bslash # ''u2029'' else x) @ jsonBody t"
proof -
  obtain c xs where x: "x = c # xs" using assms(1) by (cases x) (auto simp: utf8Len.simps)
  have "utf8Len (c # xs @ t) = Some (Suc (length xs))" using utf8Len_append [OF assms(1), of t] x by simp
  then show ?thesis using assms(2) x by (subst jsonBody.simps) simp
qed

lemma jsonBody_rune:
  assumes "utf8Len s = Some n"
  shows "jsonBody (take n s @ t) = jsonBody (take n s) @ jsonBody t"
proof -
  obtain c cs where s: "s = c # cs" using assms by (cases s) (auto simp: utf8Len.simps)
  have n: "length (take n s) = n" "0 < n" using utf8Len_pos [OF assms] by simp_all
  show ?thesis
  proof (cases "byte c < 128")
    case True
    then have "n = 1" using assms s by simp
    then show ?thesis using s True by (simp add: jsonBody.simps [of "c # t"] jsonBody.simps [of "[c]"] jsonBody.simps [of "[]"])
  next
    case False
    have "utf8Len (take n s) = Some (length (take n s))" using utf8Len_take [OF assms] n(1) by simp
    moreover have "\<not> byte (hd (take n s)) < 128" using False s n(2) by (cases n) auto
    ultimately show ?thesis using jsonBody_multi [of "take n s" t] jsonBody_multi [of "take n s" "[]"] by (simp add: jsonBody.simps [of "[]"])
  qed
qed

lemma jsonBody_coerce: "length (jsonBody (coerceUtf8 s)) \<le> length (jsonBody s) \<and> (\<not> validUtf8 s \<longrightarrow> length (jsonBody (coerceUtf8 s)) < length (jsonBody s))"
proof (induction s rule: coerceUtf8.induct)
  case (1 s)
  show ?case
  proof (cases s)
    case Nil
    then show ?thesis by (simp add: coerceUtf8.simps [of "[]"])
  next
    case (Cons c cs)
    show ?thesis
    proof (cases "utf8Len s")
      case None
      then have "\<not> byte c < 128" using Cons by auto
      then have "jsonBody s = bslash # ''ufffd'' @ jsonBody cs" using None Cons by (subst jsonBody.simps) simp
      moreover have "coerceUtf8 s = [CHR 0xEF, CHR 0xBF, CHR 0xBD] @ coerceUtf8 cs" using None Cons by (subst coerceUtf8.simps) simp
      ultimately show ?thesis using "1.IH"(1) [OF Cons None] jsonBody_replacement [of "coerceUtf8 cs"] by simp
    next
      case (Some n)
      have "coerceUtf8 s = take n s @ coerceUtf8 (drop n s)" using Some Cons by (subst coerceUtf8.simps) simp
      moreover have "jsonBody s = jsonBody (take n s) @ jsonBody (drop n s)" using jsonBody_rune [OF Some, of "drop n s"] by simp
      moreover have "validUtf8 s \<longleftrightarrow> validUtf8 (drop n s)" using Some Cons by (subst validUtf8.simps) simp
      ultimately show ?thesis using "1.IH"(2) [OF Cons Some] jsonBody_rune [OF Some, of "coerceUtf8 (drop n s)"] by simp
    qed
  qed
qed

lemma encMember_repair:
  "length (encMember (repairMember m)) \<le> length (encMember m)"
  "snd m = JStr s \<Longrightarrow> \<not> validUtf8 s \<Longrightarrow> length (encMember (repairMember m)) < length (encMember m)"
  using jsonBody_coerce by (cases m; cases "snd m"; force simp: jsonString_def)+

lemma jsonEnc_repair:
  assumes "m \<in> set ms" and "snd m = JStr s" and "\<not> validUtf8 s"
  shows "length (jsonEnc (JObj (map repairMember ms))) < length (jsonEnc (JObj ms))"
proof -
  obtain xs ys where ms: "ms = xs @ m # ys" using assms(1) by (auto simp: in_set_conv_decomp)
  have le: "sum_list (map (\<lambda>m. length (encMember (repairMember m))) zs) \<le> sum_list (map (\<lambda>m. length (encMember m)) zs)" for zs
    by (rule sum_list_mono) (rule encMember_repair(1))
  have "sum_list (map (\<lambda>m. length (encMember (repairMember m))) ms) < sum_list (map (\<lambda>m. length (encMember m)) ms)"
    using le [of xs] le [of ys] encMember_repair(2) [OF assms(2,3)] unfolding ms map_append list.map sum_list.append sum_list.Cons by linarith
  then show ?thesis by (simp add: length_joinWith comp_def)
qed

lemma marshal_repaired:
  assumes "\<not> validUtf8 (PayloadSummary r) \<or> \<not> validUtf8 (AuthorizingContext r) \<or> \<not> validUtf8 (OutcomeSummary r)"
  shows "marshalReceipt (repairReceipt r) \<noteq> marshalReceipt r"
proof -
  have "optS k s \<noteq> [] \<and> set (optS k s) = {(k, JStr s)}" if "\<not> validUtf8 s" for k s using that by (auto simp: optS_def)
  then obtain k s where "(k, JStr s) \<in> set (receiptFields r)" "\<not> validUtf8 s" using assms unfolding receiptFields_def by fastforce
  then have "length (marshalReceipt (repairReceipt r)) < length (marshalReceipt r)"
    unfolding marshalReceipt_def receiptFields_repair [symmetric] by (intro jsonEnc_repair) auto
  then show ?thesis by auto
qed

section \<open>A chain that no longer verifies\<close>

text \<open>A builder that cuts inside a rune leaves a receipt with text that is not valid.\<close>

lemma buildReceipt_split:
  assumes "\<not> cutsOk m" and "buildReceipt C now m p i = Inr b"
  shows "\<not> validUtf8 (PayloadSummary b) \<or> \<not> validUtf8 (AuthorizingContext b) \<or> \<not> validUtf8 (OutcomeSummary b)"
  using assms by (auto simp: buildReceipt_def Let_def PreAction_def PostAction_def cutsOk_def split: if_splits)

lemma append_split:
  assumes "AppendNew C (buildReceipt C now m) priv wall fault c = (Ok r, c')" and "\<not> cutsOk m" and "fieldsOk m" and "in_i64 wall"
  shows "\<exists>s. receipts (db c') = receipts (db c) @ [storedRow C s] \<and> unmarshalReceipt (marshalReceipt s) = Some (repairReceipt s) \<and>
    marshalReceipt (repairReceipt s) \<noteq> marshalReceipt s"
proof (rule AppendNew_Ok [OF assms(1)])
  fix s b
  assume b: "buildReceipt C now m (lastHash c) (lastIdx c + 1) = Inr b"
    and s: "Sign C priv (b\<lparr>TimestampNS := fst (Now wall (hlc c))\<rparr>) = (Ok s :: (chain_error, Receipt) go)"
    and c': "c' = c\<lparr>hlc := snd (Now wall (hlc c)), db := (db c)\<lparr>receipts := receipts (db c) @ [storedRow C s]\<rparr>,
       lastIdx := lastIdx c + 1, lastHash := hashHex C (marshalReceipt s)\<rparr>"
  have same: "PayloadSummary s = PayloadSummary b" "AuthorizingContext s = AuthorizingContext b" "OutcomeSummary s = OutcomeSummary b"
    "DurationMS s = DurationMS b"
    using s by (auto simp: Sign_def Let_def split: go.splits if_splits)
  have "in_i64 (DurationMS b)" using b intF_in [OF assms(3), of "''duration_ms''"]
    by (auto simp: buildReceipt_def Let_def PreAction_def PostAction_def zeroReceipt_def in_i64_def split: if_splits)
  moreover have "in_i64 (TimestampNS s)" using Sign_Ok(7) [OF s] Now_in_i64 [OF assms(4)] by simp
  ultimately have "unmarshalReceipt (marshalReceipt s) = Some (repairReceipt s)" using unmarshal_repaired same by simp
  moreover have "marshalReceipt (repairReceipt s) \<noteq> marshalReceipt s"
    using marshal_repaired [of s] buildReceipt_split [OF assms(2) b] unfolding same by blast
  ultimately show ?thesis using c' by auto
qed

text \<open>
  C12. Text cut inside a rune breaks the chain for good. When the daemon accepts a sign-append
  request whose summary or context it cuts in the middle of a rune, the receipt that is read back
  from the new row encodes to other bytes than the stored ones. From then on no chain that holds the
  row verifies, unless these two texts happen to have the same SHA-256 digest.
\<close>

theorem split_rune_breaks_chain:
  assumes "handleSignAppend V body d = (Ok (MsgSignAppendResp, reply), d')" and "decodeStruct SignAppendReq body = Some m"
    and "\<not> cutsOk m" and "in_i64 (dvWall V)"
  shows "\<exists>row r. receipts (db (dChain d')) = receipts (db (dChain d)) @ [row] \<and> unmarshalReceipt (raw_receipt row) = Some r \<and>
    marshalReceipt r \<noteq> raw_receipt row \<and>
    (\<forall>c pk v. row \<in> set (receipts (db c)) \<and> VerifyChain (dvCrypto V) noVerifyFaults pk c = Ok v \<and> Valid v \<longrightarrow>
       hashHex (dvCrypto V) (marshalReceipt r) = hashHex (dvCrypto V) (raw_receipt row))"
proof (cases rule: signAppend_cases [of V body d])
  case (rejected e)
  then show ?thesis using assms(1) by (simp add: MsgError_def MsgSignAppendResp_def)
next
  case (denied m' res d1)
  then show ?thesis using assms(1)
    by (auto simp: denyReply_def MsgError_def MsgNociceptionError_def MsgSignAppendResp_def split: option.splits)
next
  case (unknown m' res d1 e ks)
  then show ?thesis using assms(1) by (auto simp: failWith_def MsgError_def MsgSignAppendResp_def)
next
  case (loaded m' res d1 agent ks x c)
  then obtain r where x: "x = Ok r"
    using assms(1) by (cases x) (auto simp: failWith_def MsgError_def MsgSignAppendResp_def)
  have m: "m' = m" using loaded(1) assms(2) by simp
  obtain s where s: "receipts (db c) = receipts (db (dChain d)) @ [storedRow (dvCrypto V) s]"
    "unmarshalReceipt (marshalReceipt s) = Some (repairReceipt s)" "marshalReceipt (repairReceipt s) \<noteq> marshalReceipt s"
    using append_split [OF loaded(6) [unfolded x m] assms(3) decodeStruct_ok [OF assms(2)] assms(4)] by blast
  obtain y d3 where y: "afterAppend V (RawJSON r) (d1\<lparr>dKeystore := ks, dChain := c\<rparr>) = (y, d3)" by (metis prod.exhaust)
  have "d' = d3" using assms(1) loaded(7) x y by (auto split: go.splits)
  then have "dChain d' = c" using afterAppend_simps(1) [of V "RawJSON r" "d1\<lparr>dKeystore := ks, dChain := c\<rparr>"] y by simp
  moreover have "hashHex (dvCrypto V) (marshalReceipt (repairReceipt s)) = hashHex (dvCrypto V) (marshalReceipt s)"
    if "storedRow (dvCrypto V) s \<in> set (receipts (db c'))" "VerifyChain (dvCrypto V) noVerifyFaults pk c' = Ok v" "Valid v" for c' pk v
  proof -
    have "bare (repairReceipt s) = repairReceipt s" by (simp add: repairReceipt_def bare_def)
    then show ?thesis using valid_checks [OF that(2,3,1)] s(2) ComputeHash_bare [of "dvCrypto V" "repairReceipt s"] by simp
  qed
  ultimately show ?thesis using s by (intro exI [of _ "storedRow (dvCrypto V) s"] exI [of _ "repairReceipt s"]) auto
qed

section \<open>A summary with an accented letter\<close>

definition exSplitMembers :: "(string \<times> json) list" where
  "exSplitMembers = exMembers @ [(''payload_summary'', JStr (replicate 76 (CHR ''a'') @ [CHR 0xC3, CHR 0xA9, CHR 0xC3, CHR 0xA9, CHR 0xC3, CHR 0xA9]))]"

definition exSplitFields :: fields where
  "exSplitFields = fieldsOf SignAppendReq exSplitMembers"

lemma exSplit_summary: "validUtf8 (replicate 76 (CHR ''a'') @ [CHR 0xC3, CHR 0xA9, CHR 0xC3, CHR 0xA9, CHR 0xC3, CHR 0xA9])"
  "\<not> validUtf8 (replicate 76 (CHR ''a'') @ [CHR 0xC3] @ ''...'')"
  by code_simp+

lemma exSplit_decode: "decodeStruct SignAppendReq (jsonEnc (JObj exSplitMembers)) = Some exSplitFields"
  unfolding exSplitFields_def
proof (rule decodeStruct_encode)
  show "flat_ok exSplitMembers" using exSplit_summary(1) by (auto simp: flat_ok_def exSplitMembers_def exMembers_def intro!: validUtf8_ascii)
  show "wellTyped SignAppendReq exSplitMembers" by (simp add: wellTyped_def exSplitMembers_def exMembers_def SignAppendReq_def decodeField_def)
qed

lemma exSplit_str:
  "strF exSplitFields ''agent_id'' = ''ans_11111111111''" "strF exSplitFields ''phase'' = ''pre''" "strF exSplitFields ''action_type'' = ''file.read''"
  "strF exSplitFields ''payload_hash'' = ''ab''" "strF exSplitFields ''policy_decision'' = ''allow''"
  "strF exSplitFields ''payload_summary'' = replicate 76 (CHR ''a'') @ [CHR 0xC3, CHR 0xA9, CHR 0xC3, CHR 0xA9, CHR 0xC3, CHR 0xA9]"
  "strF exSplitFields ''auth_context'' = []" "strF exSplitFields ''outcome_summary'' = []" "strF exSplitFields ''parent_agent_id'' = []"
  "intF exSplitFields ''duration_ms'' = 0"
  by (simp_all add: field_defs exSplitFields_def fieldsOf_def exSplitMembers_def exMembers_def SignAppendReq_def decodeField_def)

lemma exSplit_cut: "truncateStr (strF exSplitFields ''payload_summary'') 80 = replicate 76 (CHR ''a'') @ [CHR 0xC3] @ ''...''"
  by (simp add: exSplit_str truncateStr_def)

lemma exSplit_cuts: "\<not> cutsOk exSplitFields"
  unfolding cutsOk_def exSplit_cut using exSplit_summary(2) exSplit_str(2) by simp

lemma exSplit_appended:
  "\<exists>r c. AppendNew flatCrypto (buildReceipt flatCrypto 1000 exSplitFields) (Keystore.exKey 0) 1000 False exEmpty = (Ok r, c)"
proof -
  obtain b where b: "buildReceipt flatCrypto 1000 exSplitFields GenesisHash 1 = Inr b" "ChainIndex b = 1" "PrevReceiptHash b = GenesisHash" "ReceiptID b = []"
    "validateReceipt (b\<lparr>ReceiptID := replicate 32 (CHR ''0''), Signature := []\<rparr>) = None"
    by (simp add: buildReceipt_def exSplit_str exSplit_cut [unfolded exSplit_str] Let_def NewBuilder_def PreAction_def zeroReceipt_def PhasePre_def
        truncateStr_def validateReceipt_None reReceiptID_def is_hex_lower_def reAgentID_def isIdChar_def reActionType_def isActionChar_def
        validPhases_def validPolicies_def list_all_iff)
  then show ?thesis
    using AppendNew_succeeds [where C = flatCrypto and priv = "Keystore.exKey 0" and buildFn = "buildReceipt flatCrypto 1000 exSplitFields"
      and c = exEmpty and b = b and wall = 1000]
    by (simp add: flatCrypto_ok Keystore.exKey_def exEmpty_def emptyDB_def)
qed

theorem split_rune_breaks_chain_witness:
  "\<exists>row r. receipts (db (dChain (snd (handleSignAppend exDEnv (jsonEnc (JObj exSplitMembers)) exDaemon)))) = [row] \<and>
     unmarshalReceipt (raw_receipt row) = Some r \<and> marshalReceipt r \<noteq> raw_receipt row"
proof -
  have "signAppendInvalid exSplitFields = None" by (simp add: signAppendInvalid_def exSplit_str Let_def)
  then obtain reply d' where h: "handleSignAppend exDEnv (jsonEnc (JObj exSplitMembers)) exDaemon = (Ok (MsgSignAppendResp, reply), d')"
    using exSign_fields [OF exSplit_decode _ exSplit_str(1) exSplit_appended] by blast
  have w: "in_i64 (dvWall exDEnv)" by (simp add: exDEnv_def in_i64_def)
  have "receipts (db (dChain exDaemon)) = []" by (simp add: exDaemon_def exEmpty_def emptyDB_def)
  then show ?thesis using split_rune_breaks_chain [OF h exSplit_decode exSplit_cuts w] h by auto
qed

end
