(* ===== verification/Models.thy ===== *)
theory Models
  imports GoStruct McpText "HOL-Library.AList"
begin

text \<open>
  The view models (\<open>internal/model\<close>) that the client and the poller pass on, and how
  \<open>encoding/json\<close> decodes a value into them: a Go type is described by a \<open>gtype\<close>, a decoded
  value is a \<open>mval\<close>, and each model struct is the record read off a decoded value. Parsing of
  timestamps and the range check of floating-point literals belong to packages \<open>time\<close> and
  \<open>strconv\<close> and are the parameters \<open>decode_lib\<close>; a time is the number of nanoseconds since
  1970, a floating-point number its literal.
\<close>

section \<open>Decoding into a Go type\<close>

datatype gtype = GStr | GInt | GFloat | GBool | GTime | GRaw | GPtr gtype | GSlice gtype
  | GStruct "(string \<times> gtype) list" | GStamped gtype

datatype mval = WNil | WStr string | WInt i64 | WFloat string | WBool bool | WTime int | WRaw json
  | WSlice "mval list" | WStruct "(string \<times> mval) list"

record decode_lib =
  dlParse :: "string \<Rightarrow> int option"
  dlStrict :: "string \<Rightarrow> int option"
  dlFloat :: "string \<Rightarrow> bool"

text \<open>The zero \<open>time.Time\<close> is the start of the year 1.\<close>

definition year1 :: int where
  "year1 = - 62135596800 * 10 ^ 9"

fun zeroOf :: "gtype \<Rightarrow> mval" where
  "zeroOf GStr = WStr []"
| "zeroOf GInt = WInt 0"
| "zeroOf GFloat = WFloat ''0''"
| "zeroOf GBool = WBool False"
| "zeroOf GTime = WTime year1"
| "zeroOf (GStruct fs) = WStruct (map (\<lambda>(k, t). (k, zeroOf t)) fs)"
| "zeroOf (GStamped t) = zeroOf t"
| "zeroOf _ = WNil"

definition fieldsV :: "mval \<Rightarrow> (string \<times> mval) list" where
  "fieldsV v = (case v of WStruct fs \<Rightarrow> fs | _ \<Rightarrow> [])"

definition elemsV :: "mval \<Rightarrow> mval list" where
  "elemsV v = (case v of WSlice vs \<Rightarrow> vs | _ \<Rightarrow> [])"

text \<open>
  The timestamp of a receipt (\<open>Receipt.UnmarshalJSON\<close>): the member is kept raw; a string in
  RFC 3339 is parsed, an integer counts nanoseconds, \<open>null\<close> unmarshals into both targets and so
  becomes the first of January 1970, anything else leaves the time the receipt had.
\<close>

definition stampOf :: "decode_lib \<Rightarrow> int \<Rightarrow> mval option \<Rightarrow> int" where
  "stampOf L old raw = (case raw of
     Some (WRaw (JStr s)) \<Rightarrow> (case dlParse L s of Some t \<Rightarrow> t | None \<Rightarrow> old)
   | Some (WRaw (JNum n)) \<Rightarrow> (case parseI64 n of Some t \<Rightarrow> t | None \<Rightarrow> old)
   | Some (WRaw JNull) \<Rightarrow> (case dlParse L [] of Some t \<Rightarrow> t | None \<Rightarrow> 0)
   | _ \<Rightarrow> old)"

definition timeAt :: "mval \<Rightarrow> int" where
  "timeAt v = (case map_of (fieldsV v) ''timestamp'' of Some (WTime t) \<Rightarrow> t | _ \<Rightarrow> year1)"

definition clearStamp :: "mval \<Rightarrow> mval" where
  "clearStamp v = WStruct (AList.update ''timestamp'' WNil (fieldsV v))"

definition setStamp :: "decode_lib \<Rightarrow> int \<Rightarrow> mval \<Rightarrow> mval" where
  "setStamp L old v = WStruct (AList.update ''timestamp'' (WTime (stampOf L old (map_of (fieldsV v) ''timestamp''))) (fieldsV v))"

text \<open>
  One value: \<open>old\<close> is what the target holds. \<open>null\<close> clears a slice or pointer, is kept by a raw
  message and leaves everything else alone; array elements are decoded over those of the old
  slice; members that match no field are skipped; a value of the wrong type is an error.
\<close>

fun decodeVal :: "decode_lib \<Rightarrow> gtype \<Rightarrow> mval \<Rightarrow> json \<Rightarrow> mval option"
  and decodeElems :: "decode_lib \<Rightarrow> gtype \<Rightarrow> mval list \<Rightarrow> json list \<Rightarrow> mval list option"
  and decodeMems :: "decode_lib \<Rightarrow> (string \<times> gtype) list \<Rightarrow> (string \<times> mval) list \<Rightarrow> (string \<times> json) list \<Rightarrow> (string \<times> mval) list option" where
  "decodeVal L (GPtr t) old v = (if v = JNull then Some WNil else decodeVal L t (if old = WNil then zeroOf t else old) v)"
| "decodeVal L (GStamped t) old v = map_option (setStamp L (timeAt old)) (decodeVal L t (clearStamp old) v)"
| "decodeVal L GRaw old v = Some (WRaw v)"
| "decodeVal L (GSlice t) old JNull = Some WNil"
| "decodeVal L t old JNull = Some old"
| "decodeVal L GStr old (JStr s) = Some (WStr s)"
| "decodeVal L GInt old (JNum n) = map_option WInt (parseI64 n)"
| "decodeVal L GFloat old (JNum n) = (if dlFloat L n then Some (WFloat n) else None)"
| "decodeVal L GBool old (JBool b) = Some (WBool b)"
| "decodeVal L GTime old (JStr s) = map_option WTime (dlStrict L s)"
| "decodeVal L (GSlice t) old (JArr vs) = map_option WSlice (decodeElems L t (elemsV old) vs)"
| "decodeVal L (GStruct fs) old (JObj ms) = map_option WStruct (decodeMems L fs (fieldsV old) ms)"
| "decodeVal L t old v = None"
| "decodeElems L t olds [] = Some []"
| "decodeElems L t olds (v # vs) =
     (case decodeVal L t (case olds of [] \<Rightarrow> zeroOf t | o1 # _ \<Rightarrow> o1) v of None \<Rightarrow> None | Some x \<Rightarrow>
      map_option (Cons x) (decodeElems L t (drop 1 olds) vs))"
| "decodeMems L fs cur [] = Some cur"
| "decodeMems L fs cur ((k, v) # ms) = (case matchField (map fst fs) k of
     None \<Rightarrow> decodeMems L fs cur ms
   | Some f \<Rightarrow> (case (map_of fs f, map_of cur f) of
       (Some t, Some old) \<Rightarrow> (case decodeVal L t old v of None \<Rightarrow> None | Some x \<Rightarrow> decodeMems L fs (AList.update f x cur) ms)
     | _ \<Rightarrow> None))"

definition unmarshal :: "decode_lib \<Rightarrow> gtype \<Rightarrow> json \<Rightarrow> mval option" where
  "unmarshal L t v = decodeVal L t (zeroOf t) v"

section \<open>Reading a decoded value\<close>

definition atStr :: "mval \<Rightarrow> string \<Rightarrow> string" where
  "atStr v k = (case map_of (fieldsV v) k of Some (WStr s) \<Rightarrow> s | _ \<Rightarrow> [])"

definition atInt :: "mval \<Rightarrow> string \<Rightarrow> i64" where
  "atInt v k = (case map_of (fieldsV v) k of Some (WInt i) \<Rightarrow> i | _ \<Rightarrow> 0)"

definition atFloat :: "mval \<Rightarrow> string \<Rightarrow> string" where
  "atFloat v k = (case map_of (fieldsV v) k of Some (WFloat s) \<Rightarrow> s | _ \<Rightarrow> ''0'')"

definition atBool :: "mval \<Rightarrow> string \<Rightarrow> bool" where
  "atBool v k = (case map_of (fieldsV v) k of Some (WBool b) \<Rightarrow> b | _ \<Rightarrow> False)"

definition atTime :: "mval \<Rightarrow> string \<Rightarrow> int" where
  "atTime v k = (case map_of (fieldsV v) k of Some (WTime t) \<Rightarrow> t | _ \<Rightarrow> year1)"

definition atRaw :: "mval \<Rightarrow> string \<Rightarrow> json option" where
  "atRaw v k = (case map_of (fieldsV v) k of Some (WRaw j) \<Rightarrow> Some j | _ \<Rightarrow> None)"

definition atList :: "mval \<Rightarrow> string \<Rightarrow> mval list" where
  "atList v k = (case map_of (fieldsV v) k of Some x \<Rightarrow> elemsV x | None \<Rightarrow> [])"

definition strOf :: "mval \<Rightarrow> string" where "strOf v = (case v of WStr s \<Rightarrow> s | _ \<Rightarrow> [])"
definition floatOf :: "mval \<Rightarrow> string" where "floatOf v = (case v of WFloat s \<Rightarrow> s | _ \<Rightarrow> ''0'')"
definition intOf :: "mval \<Rightarrow> i64" where "intOf v = (case v of WInt i \<Rightarrow> i | _ \<Rightarrow> 0)"
definition boolOf :: "mval \<Rightarrow> bool" where "boolOf v = (case v of WBool b \<Rightarrow> b | _ \<Rightarrow> False)"

text \<open>A slice of pointers: a \<open>null\<close> element is a nil pointer.\<close>

definition ptrList :: "(mval \<Rightarrow> 'a) \<Rightarrow> mval \<Rightarrow> 'a option list" where
  "ptrList f v = map (\<lambda>x. if x = WNil then None else Some (f x)) (elemsV v)"

section \<open>The model structs\<close>

text \<open>\<open>model.Agent\<close>\<close>

record mAgent =
  maID :: string
  maName :: string
  maVersion :: string
  maOwner :: string
  maPublicKey :: string
  maCreatedAt :: int

definition AgentT :: gtype where
  "AgentT = GStruct [(''agent_id'', GStr), (''name'', GStr), (''version'', GStr), (''owner'', GStr), (''public_key'', GStr), (''created_at'', GTime)]"

definition agentOf :: "mval \<Rightarrow> mAgent" where
  "agentOf v = \<lparr>maID = atStr v ''agent_id'', maName = atStr v ''name'', maVersion = atStr v ''version'', maOwner = atStr v ''owner'',
     maPublicKey = atStr v ''public_key'', maCreatedAt = atTime v ''created_at''\<rparr>"

text \<open>\<open>model.DaemonStatus\<close>\<close>

record mStatus =
  msRunning :: bool
  msPID :: i64
  msUptimeSeconds :: i64
  msChainLength :: i64
  msAgentCount :: i64
  msDBSizeMB :: string
  msChainVerified :: bool
  msVersion :: string

definition DaemonStatusT :: gtype where
  "DaemonStatusT = GStruct [(''running'', GBool), (''pid'', GInt), (''uptime_seconds'', GInt), (''chain_length'', GInt), (''agent_count'', GInt),
     (''db_size_mb'', GFloat), (''chain_verified'', GBool), (''version'', GStr)]"

definition statusOf :: "mval \<Rightarrow> mStatus" where
  "statusOf v = \<lparr>msRunning = atBool v ''running'', msPID = atInt v ''pid'', msUptimeSeconds = atInt v ''uptime_seconds'',
     msChainLength = atInt v ''chain_length'', msAgentCount = atInt v ''agent_count'', msDBSizeMB = atFloat v ''db_size_mb'',
     msChainVerified = atBool v ''chain_verified'', msVersion = atStr v ''version''\<rparr>"

text \<open>Cutting to at most \<open>n\<close> bytes, with or without an ellipsis, and to at most \<open>n\<close> runes.\<close>

definition ellipsis :: string where "ellipsis = [CHR 0xE2, CHR 0x80, CHR 0xA6]"

definition shortBytes :: "nat \<Rightarrow> string \<Rightarrow> string" where
  "shortBytes n s = (if n \<le> length s then take n s else s)"

definition shortDots :: "nat \<Rightarrow> string \<Rightarrow> string" where
  "shortDots n s = (if n \<le> length s then take n s @ ellipsis else s)"

definition shortRunes :: "nat \<Rightarrow> string \<Rightarrow> string" where
  "shortRunes n s = (if n < length (runesOf s) then concat (take n (runesOf s)) else s)"

definition AgentShortID :: "mAgent \<Rightarrow> string" where "AgentShortID a = shortBytes 13 (maID a)"
definition ShortPubKey :: "mAgent \<Rightarrow> string" where "ShortPubKey a = shortDots 16 (maPublicKey a)"

text \<open>\<open>model.CompensationStep\<close>, \<open>CompensationPlan\<close> and \<open>CompensationResult\<close>\<close>

record mStep =
  mcChainIndex :: i64
  mcActionType :: string
  mcCommand :: string
  mcHasComp :: bool

record mPlan =
  mpSteps :: "mStep option list"
  mpWouldRun :: i64
  mpSkipped :: i64

record mRanStep =
  mnChainIndex :: i64
  mnCommand :: string
  mnExitCode :: i64
  mnStderr :: string

record mResult =
  mzRan :: i64
  mzFailed :: i64
  mzSteps :: "mRanStep list"

definition CompensationPlanT :: gtype where
  "CompensationPlanT = GStruct [(''steps'', GSlice (GPtr (GStruct [(''chain_index'', GInt), (''action_type'', GStr), (''command'', GStr), (''has_compensation'', GBool)]))),
     (''would_run'', GInt), (''skipped'', GInt)]"

definition stepOf :: "mval \<Rightarrow> mStep" where
  "stepOf v = \<lparr>mcChainIndex = atInt v ''chain_index'', mcActionType = atStr v ''action_type'', mcCommand = atStr v ''command'', mcHasComp = atBool v ''has_compensation''\<rparr>"

definition planOf :: "mval \<Rightarrow> mPlan" where
  "planOf v = \<lparr>mpSteps = map (\<lambda>x. if x = WNil then None else Some (stepOf x)) (atList v ''steps''), mpWouldRun = atInt v ''would_run'', mpSkipped = atInt v ''skipped''\<rparr>"

definition CompensationResultT :: gtype where
  "CompensationResultT = GStruct [(''ran'', GInt), (''failed'', GInt),
     (''steps'', GSlice (GStruct [(''chain_index'', GInt), (''command'', GStr), (''exit_code'', GInt), (''stderr'', GStr)]))]"

definition ranStepOf :: "mval \<Rightarrow> mRanStep" where
  "ranStepOf v = \<lparr>mnChainIndex = atInt v ''chain_index'', mnCommand = atStr v ''command'', mnExitCode = atInt v ''exit_code'', mnStderr = atStr v ''stderr''\<rparr>"

definition resultOf :: "mval \<Rightarrow> mResult" where
  "resultOf v = \<lparr>mzRan = atInt v ''ran'', mzFailed = atInt v ''failed'', mzSteps = map ranStepOf (atList v ''steps'')\<rparr>"

text \<open>\<open>model.DoctorCheck\<close> and \<open>DoctorReport\<close>\<close>

record mCheck =
  mkName :: string
  mkValue :: string
  mkStatus :: string
  mkDetail :: string

record mReport =
  mrChecks :: "mCheck option list"
  mrAllOK :: bool

definition DoctorReportT :: gtype where
  "DoctorReportT = GStruct [(''checks'', GSlice (GPtr (GStruct [(''name'', GStr), (''value'', GStr), (''status'', GStr), (''detail'', GStr)]))), (''all_ok'', GBool)]"

definition checkOf :: "mval \<Rightarrow> mCheck" where
  "checkOf v = \<lparr>mkName = atStr v ''name'', mkValue = atStr v ''value'', mkStatus = atStr v ''status'', mkDetail = atStr v ''detail''\<rparr>"

definition reportOf :: "mval \<Rightarrow> mReport" where
  "reportOf v = \<lparr>mrChecks = map (\<lambda>x. if x = WNil then None else Some (checkOf x)) (atList v ''checks''), mrAllOK = atBool v ''all_ok''\<rparr>"

text \<open>\<open>model.MCPStatus\<close> and \<open>MCPLogEntry\<close>\<close>

record mMcp =
  myRunning :: bool
  myUptimeSeconds :: i64
  myListenAddr :: string
  myTargetURL :: string
  myTotalMessages :: i64
  myTotalTokens :: i64
  myBurnRate :: string
  myInjections :: i64
  myPruned :: i64
  myRateLimited :: i64
  myBudgetExceeded :: i64
  myPolicyDenied :: i64
  myToolsDenied :: i64
  myReqHistory :: "string list"
  myTokHistory :: "string list"

definition MCPStatusT :: gtype where
  "MCPStatusT = GStruct [(''running'', GBool), (''uptime_seconds'', GInt), (''listen_addr'', GStr), (''target_url'', GStr), (''total_messages'', GInt),
     (''total_tokens'', GInt), (''burn_rate_per_sec'', GFloat), (''injection_count'', GInt), (''pruned_count'', GInt), (''rate_limited_count'', GInt),
     (''budget_exceeded_count'', GInt), (''policy_denied_count'', GInt), (''tools_denied_count'', GInt),
     (''req_history'', GSlice GFloat), (''tok_history'', GSlice GFloat)]"

definition mcpOf :: "mval \<Rightarrow> mMcp" where
  "mcpOf v = \<lparr>myRunning = atBool v ''running'', myUptimeSeconds = atInt v ''uptime_seconds'', myListenAddr = atStr v ''listen_addr'',
     myTargetURL = atStr v ''target_url'', myTotalMessages = atInt v ''total_messages'', myTotalTokens = atInt v ''total_tokens'',
     myBurnRate = atFloat v ''burn_rate_per_sec'', myInjections = atInt v ''injection_count'', myPruned = atInt v ''pruned_count'',
     myRateLimited = atInt v ''rate_limited_count'', myBudgetExceeded = atInt v ''budget_exceeded_count'', myPolicyDenied = atInt v ''policy_denied_count'',
     myToolsDenied = atInt v ''tools_denied_count'', myReqHistory = map floatOf (atList v ''req_history''), myTokHistory = map floatOf (atList v ''tok_history'')\<rparr>"

record mLog =
  mlTimestamp :: int
  mlDirection :: string
  mlMethod :: string
  mlTokenEstimate :: i64
  mlInjDetected :: bool
  mlPIIFound :: bool
  mlPolicyResult :: string
  mlContentPreview :: string

definition MCPLogEntryT :: gtype where
  "MCPLogEntryT = GStruct [(''timestamp'', GTime), (''direction'', GStr), (''method'', GStr), (''token_estimate'', GInt), (''injection_detected'', GBool),
     (''pii_found'', GBool), (''policy_result'', GStr), (''content_preview'', GStr)]"

definition logOf :: "mval \<Rightarrow> mLog" where
  "logOf v = \<lparr>mlTimestamp = atTime v ''timestamp'', mlDirection = atStr v ''direction'', mlMethod = atStr v ''method'', mlTokenEstimate = atInt v ''token_estimate'',
     mlInjDetected = atBool v ''injection_detected'', mlPIIFound = atBool v ''pii_found'', mlPolicyResult = atStr v ''policy_result'',
     mlContentPreview = atStr v ''content_preview''\<rparr>"

definition ShortMethod :: "mLog \<Rightarrow> string" where "ShortMethod e = shortRunes 18 (mlMethod e)"
definition TimeStr :: "(string \<Rightarrow> int \<Rightarrow> string) \<Rightarrow> mLog \<Rightarrow> string" where "TimeStr format e = format ''15:04:05'' (mlTimestamp e)"

text \<open>\<open>model.Policy\<close> and \<open>PolicyEvalResult\<close>\<close>

record mPolicy =
  moID :: string
  moName :: string
  moEnabled :: bool
  moPriority :: i64
  moSeverity :: string
  moEffect :: string
  moConditions :: "json option"

definition PolicyT :: gtype where
  "PolicyT = GStruct [(''id'', GStr), (''name'', GStr), (''enabled'', GBool), (''priority'', GInt), (''severity'', GStr), (''effect'', GStr), (''conditions'', GRaw)]"

definition viewPolicyOf :: "mval \<Rightarrow> mPolicy" where
  "viewPolicyOf v = \<lparr>moID = atStr v ''id'', moName = atStr v ''name'', moEnabled = atBool v ''enabled'', moPriority = atInt v ''priority'',
     moSeverity = atStr v ''severity'', moEffect = atStr v ''effect'', moConditions = atRaw v ''conditions''\<rparr>"

record mEval =
  meAllowed :: bool
  meDenyingPolicy :: string
  meDenyReason :: string
  meErrorType :: string
  meErrorCode :: string
  meEvaluated :: i64

definition PolicyEvalResultT :: gtype where
  "PolicyEvalResultT = GStruct [(''allowed'', GBool), (''denying_policy_id'', GStr), (''deny_reason'', GStr), (''error_type'', GStr), (''error_code'', GStr), (''policies_evaluated'', GInt)]"

definition evalOf :: "mval \<Rightarrow> mEval" where
  "evalOf v = \<lparr>meAllowed = atBool v ''allowed'', meDenyingPolicy = atStr v ''denying_policy_id'', meDenyReason = atStr v ''deny_reason'',
     meErrorType = atStr v ''error_type'', meErrorCode = atStr v ''error_code'', meEvaluated = atInt v ''policies_evaluated''\<rparr>"

definition PolicyShortID :: "mPolicy \<Rightarrow> string" where "PolicyShortID p = shortBytes 20 (moID p)"
definition ShortName :: "mPolicy \<Rightarrow> string" where "ShortName p = shortRunes 26 (moName p)"

text \<open>\<open>model.Receipt\<close> with its own \<open>UnmarshalJSON\<close>\<close>

record mReceipt =
  mtIndex :: i64
  mtID :: string
  mtPrevHash :: string
  mtAgentID :: string
  mtActionType :: string
  mtPhase :: string
  mtOutcome :: string
  mtDurationMS :: i64
  mtTimestamp :: int
  mtPolicyDecision :: string
  mtPayloadSummary :: string
  mtSnapshotID :: string
  mtSignature :: string

definition ReceiptT :: gtype where
  "ReceiptT = GStamped (GStruct [(''timestamp'', GRaw), (''index'', GInt), (''receipt_id'', GStr), (''prev_hash'', GStr), (''agent_id'', GStr), (''action_type'', GStr),
     (''phase'', GStr), (''outcome'', GStr), (''duration_ms'', GInt), (''policy_decision'', GStr), (''payload_summary'', GStr), (''snapshot_id'', GStr),
     (''signature'', GStr)])"

definition receiptOf :: "mval \<Rightarrow> mReceipt" where
  "receiptOf v = \<lparr>mtIndex = atInt v ''index'', mtID = atStr v ''receipt_id'', mtPrevHash = atStr v ''prev_hash'', mtAgentID = atStr v ''agent_id'',
     mtActionType = atStr v ''action_type'', mtPhase = atStr v ''phase'', mtOutcome = atStr v ''outcome'', mtDurationMS = atInt v ''duration_ms'',
     mtTimestamp = atTime v ''timestamp'', mtPolicyDecision = atStr v ''policy_decision'', mtPayloadSummary = atStr v ''payload_summary'',
     mtSnapshotID = atStr v ''snapshot_id'', mtSignature = atStr v ''signature''\<rparr>"

definition ReceiptShortID :: "mReceipt \<Rightarrow> string" where "ReceiptShortID r = shortBytes 12 (mtID r)"
definition ShortPrevHash :: "mReceipt \<Rightarrow> string" where "ShortPrevHash r = shortBytes 12 (mtPrevHash r)"
definition ShortSignature :: "mReceipt \<Rightarrow> string" where "ShortSignature r = shortDots 16 (mtSignature r)"
definition ShortAgent :: "mReceipt \<Rightarrow> string" where "ShortAgent r = shortBytes 13 (mtAgentID r)"

text \<open>\<open>model.Snapshot\<close>\<close>

record mSnapshot =
  mvID :: string
  mvAgentID :: string
  mvChainIndex :: i64
  mvType :: string
  mvSizeBytes :: i64
  mvTimestamp :: int
  mvIsDiff :: bool
  mvBaseID :: string

definition SnapshotT :: gtype where
  "SnapshotT = GStruct [(''snapshot_id'', GStr), (''agent_id'', GStr), (''chain_index'', GInt), (''snapshot_type'', GStr), (''size_bytes'', GInt),
     (''timestamp'', GTime), (''is_diff'', GBool), (''base_snapshot_id'', GStr)]"

definition snapshotOf :: "mval \<Rightarrow> mSnapshot" where
  "snapshotOf v = \<lparr>mvID = atStr v ''snapshot_id'', mvAgentID = atStr v ''agent_id'', mvChainIndex = atInt v ''chain_index'', mvType = atStr v ''snapshot_type'',
     mvSizeBytes = atInt v ''size_bytes'', mvTimestamp = atTime v ''timestamp'', mvIsDiff = atBool v ''is_diff'', mvBaseID = atStr v ''base_snapshot_id''\<rparr>"

definition SnapshotShortID :: "mSnapshot \<Rightarrow> string" where "SnapshotShortID s = shortBytes 12 (mvID s)"

text \<open>
  \<open>SizeStr\<close>. Division by a power of two is exact in \<open>float64\<close> once the size itself has been
  rounded to 53 bits, and \<open>%.1f\<close> rounds the exact quotient to tenths, ties to even.
\<close>

definition roundEven :: "nat \<Rightarrow> nat \<Rightarrow> nat" where
  "roundEven n d = (let q = n div d; r = n mod d in if 2 * r < d \<or> 2 * r = d \<and> even q then q else q + 1)"

fun bitLen :: "nat \<Rightarrow> nat" where
  "bitLen n = (if n = 0 then 0 else 1 + bitLen (n div 2))"

declare bitLen.simps [simp del]

definition float53 :: "nat \<Rightarrow> nat" where
  "float53 n = (let u = 2 ^ (bitLen n - 53) in roundEven n u * u)"

definition tenths :: "nat \<Rightarrow> string" where
  "tenths t = showNat (t div 10) @ ''.'' @ showNat (t mod 10)"

definition SizeStr :: "mSnapshot \<Rightarrow> string" where
  "SizeStr s = (let b = mvSizeBytes s in
     if b < 0 then ''0B''
     else if b < 1024 then showInt b @ ''B''
     else if b < 1024 * 1024 then tenths (roundEven (10 * float53 (nat b)) 1024) @ ''KB''
     else tenths (roundEven (10 * float53 (nat b)) (1024 * 1024)) @ ''MB'')"

text \<open>
  \<open>model.Token\<close>; \<open>secs\<close> is \<open>int(d.Seconds())\<close>, the conversion of a duration through a
  floating-point number of seconds, and \<open>time.Until\<close> saturates.
\<close>

record mToken =
  mqID :: string
  mqType :: string
  mqAgentID :: string
  mqResource :: string
  mqPermissions :: "string list"
  mqExpiresAt :: int
  mqIssuedAt :: int
  mqRevoked :: bool

definition TokenT :: gtype where
  "TokenT = GStruct [(''credential_id'', GStr), (''type'', GStr), (''agent_id'', GStr), (''resource'', GStr), (''permissions'', GSlice GStr),
     (''expires_at'', GTime), (''issued_at'', GTime), (''revoked'', GBool)]"

definition tokenOf :: "mval \<Rightarrow> mToken" where
  "tokenOf v = \<lparr>mqID = atStr v ''credential_id'', mqType = atStr v ''type'', mqAgentID = atStr v ''agent_id'', mqResource = atStr v ''resource'',
     mqPermissions = map strOf (atList v ''permissions''), mqExpiresAt = atTime v ''expires_at'', mqIssuedAt = atTime v ''issued_at'', mqRevoked = atBool v ''revoked''\<rparr>"

definition TokenShortID :: "mToken \<Rightarrow> string" where "TokenShortID t = shortBytes 12 (mqID t)"

definition untilSat :: "int \<Rightarrow> int \<Rightarrow> i64" where
  "untilSat now t = max (- (2 ^ 63)) (min (2 ^ 63 - 1) (t - now))"

definition TTLSeconds :: "(i64 \<Rightarrow> int) \<Rightarrow> int \<Rightarrow> mToken \<Rightarrow> int" where
  "TTLSeconds secs now t = (let r = secs (untilSat now (mqExpiresAt t)) in if r < 0 then 0 else r)"

definition TypeIcon :: "mToken \<Rightarrow> string" where
  "TypeIcon t =
     (if mqType t = ''aws-sts'' then [CHR 0xE2, CHR 0x98, CHR 0x81]
      else if mqType t = ''vault'' then [CHR 0xE2, CHR 0x8C, CHR 0x87]
      else if mqType t = ''gcp-iam'' then [CHR 0xE2, CHR 0x97, CHR 0x86]
      else if mqType t = ''azure-ad'' then [CHR 0xE2, CHR 0x96, CHR 0xB2]
      else if mqType t = ''oauth2'' then [CHR 0xE2, CHR 0x97, CHR 0x8E]
      else [CHR 0xE2, CHR 0xAC, CHR 0xA1])"

definition TTLColorClass :: "(i64 \<Rightarrow> int) \<Rightarrow> int \<Rightarrow> mToken \<Rightarrow> string" where
  "TTLColorClass secs now t = (let s = TTLSeconds secs now t in if 30 < s then ''ok'' else if 10 < s then ''warn'' else ''fail'')"

definition ShortResource :: "mToken \<Rightarrow> string" where "ShortResource t = shortRunes 32 (mqResource t)"

definition PermStr :: "mToken \<Rightarrow> string" where
  "PermStr t = (if mqPermissions t = [] then ''[]'' else ''['' @ joinWith '' '' (mqPermissions t) @ '']'')"

end
