(* ===== verification/Client.thy ===== *)
theory Client
  imports Models Protocol
begin

text \<open>
  The socket client (\<open>internal/client/client.go\<close>): one connection per call, a request and a
  response as JSON objects behind a four-byte length, and one method per command. \<open>cePeer\<close> is
  the other end: what it sends back, up to its closing the connection or the deadline, when it
  has received the given bytes. Dialling and the two writes can fail.
\<close>

record Request =
  rqType :: string
  rqPayload :: "json option"

definition requestJson :: "Request \<Rightarrow> json" where
  "requestJson r = JObj ((''type'', JStr (rqType r)) # (case rqPayload r of None \<Rightarrow> [] | Some p \<Rightarrow> [(''payload'', p)]))"

definition ResponseT :: gtype where
  "ResponseT = GStruct [(''type'', GStr), (''ok'', GBool), (''error'', GStr), (''payload'', GRaw)]"

record MCPStartOptions =
  moListen :: string
  moTarget :: string
  moSafetyDisable :: bool
  moRateLimit :: i64
  moTokenBudget :: i64
  moPIIRedact :: bool

record client_env =
  ceDial :: bool
  ceHeader :: bool
  ceBody :: bool
  cePeer :: "bytes \<Rightarrow> bytes"
  ceLib :: decode_lib

datatype client_err = ConnectErr | WriteHeaderErr | WriteBodyErr | ReadHeaderErr | ReadBodyErr | UnmarshalErr | RemoteErr string | ResultErr

definition requestBody :: "Request \<Rightarrow> bytes" where
  "requestBody r = jsonEnc (requestJson r)"

definition requestBytes :: "Request \<Rightarrow> bytes" where
  "requestBytes r = putUint32 (length (requestBody r)) @ requestBody r"

definition readResponse :: "decode_lib \<Rightarrow> bytes \<Rightarrow> client_err + mval" where
  "readResponse L s = (if length s < 4 then Inl ReadHeaderErr
     else let n = getUint32 (take 4 s); rest = drop 4 s in
       if length rest < n then Inl ReadBodyErr
       else (case jsonParse (take n rest) of None \<Rightarrow> Inl UnmarshalErr | Some v \<Rightarrow>
         (case unmarshal L ResponseT v of None \<Rightarrow> Inl UnmarshalErr | Some r \<Rightarrow>
            if atBool r ''ok'' then Inr r else Inl (RemoteErr (atStr r ''error'')))))"

definition roundTrip :: "client_env \<Rightarrow> Request \<Rightarrow> client_err + mval" where
  "roundTrip E r = (if ceDial E then Inl ConnectErr
     else if ceHeader E then Inl WriteHeaderErr
     else if ceBody E then Inl WriteBodyErr
     else readResponse (ceLib E) (cePeer E (requestBytes r)))"

text \<open>\<open>do\<close> with a result to fill, and with none. A response without a payload leaves the result zero.\<close>

definition doResult :: "client_env \<Rightarrow> string \<Rightarrow> json option \<Rightarrow> gtype \<Rightarrow> client_err + mval" where
  "doResult E t payload rt = (case roundTrip E \<lparr>rqType = t, rqPayload = payload\<rparr> of
     Inl e \<Rightarrow> Inl e
   | Inr r \<Rightarrow> (case atRaw r ''payload'' of
       None \<Rightarrow> Inr (zeroOf rt)
     | Some p \<Rightarrow> (case unmarshal (ceLib E) rt p of None \<Rightarrow> Inl ResultErr | Some v \<Rightarrow> Inr v)))"

definition doNil :: "client_env \<Rightarrow> string \<Rightarrow> json option \<Rightarrow> client_err option" where
  "doNil E t payload = (case roundTrip E \<lparr>rqType = t, rqPayload = payload\<rparr> of Inl e \<Rightarrow> Some e | Inr r \<Rightarrow> None)"

section \<open>The methods\<close>

definition intJ :: "i64 \<Rightarrow> json" where "intJ i = JNum (showInt i)"

definition clientInit :: "client_env \<Rightarrow> client_err option" where
  "clientInit E = doNil E ''init'' None"

definition clientDaemonStatus :: "client_env \<Rightarrow> client_err + mStatus" where
  "clientDaemonStatus E = map_sum id statusOf (doResult E ''daemon_status'' None DaemonStatusT)"

definition clientStartDaemon :: "client_env \<Rightarrow> bool \<Rightarrow> string \<Rightarrow> client_err option" where
  "clientStartDaemon E ndjson webhook = doNil E ''start_daemon'' (Some (JObj [(''ndjson'', JBool ndjson), (''webhook'', JStr webhook)]))"

definition clientStopDaemon :: "client_env \<Rightarrow> client_err option" where
  "clientStopDaemon E = doNil E ''stop_daemon'' None"

definition clientDoctor :: "client_env \<Rightarrow> client_err + mReport" where
  "clientDoctor E = map_sum id reportOf (doResult E ''doctor'' None DoctorReportT)"

definition clientUpdate :: "client_env \<Rightarrow> client_err + string" where
  "clientUpdate E = map_sum id strOf (doResult E ''update'' None GStr)"

definition clientUninstall :: "client_env \<Rightarrow> client_err option" where
  "clientUninstall E = doNil E ''uninstall'' None"

definition clientListReceipts :: "client_env \<Rightarrow> i64 \<Rightarrow> string \<Rightarrow> client_err + mReceipt option list" where
  "clientListReceipts E n agent = map_sum id (ptrList receiptOf)
     (doResult E ''list_receipts'' (Some (JObj [(''agent_id'', JStr agent), (''n'', intJ n)])) (GSlice (GPtr ReceiptT)))"

definition clientVerifyReceipt :: "client_env \<Rightarrow> string \<Rightarrow> client_err + bool" where
  "clientVerifyReceipt E i = map_sum id boolOf (doResult E ''verify_receipt'' (Some (JObj [(''id'', JStr i)])) GBool)"

definition clientVerifyChain :: "client_env \<Rightarrow> client_err + (bool \<times> i64)" where
  "clientVerifyChain E = map_sum id (\<lambda>v. (atBool v ''verified'', atInt v ''count''))
     (doResult E ''verify_chain'' None (GStruct [(''verified'', GBool), (''count'', GInt)]))"

definition clientListAgents :: "client_env \<Rightarrow> client_err + mAgent option list" where
  "clientListAgents E = map_sum id (ptrList agentOf) (doResult E ''list_agents'' None (GSlice (GPtr AgentT)))"

definition clientRegisterAgent :: "client_env \<Rightarrow> string \<Rightarrow> string \<Rightarrow> string \<Rightarrow> client_err + mAgent" where
  "clientRegisterAgent E name version owner = map_sum id agentOf
     (doResult E ''register_agent'' (Some (JObj [(''name'', JStr name), (''owner'', JStr owner), (''version'', JStr version)])) AgentT)"

definition clientExport :: "client_env \<Rightarrow> string \<Rightarrow> string \<Rightarrow> client_err + i64" where
  "clientExport E format output = map_sum id intOf
     (doResult E ''export'' (Some (JObj [(''format'', JStr format), (''output'', JStr output)])) GInt)"

definition clientPrune :: "client_env \<Rightarrow> i64 \<Rightarrow> client_err + string" where
  "clientPrune E bound = map_sum id strOf (doResult E ''prune'' (Some (JObj [(''up_to'', intJ bound)])) GStr)"

definition clientRotateKey :: "client_env \<Rightarrow> string \<Rightarrow> client_err + mAgent" where
  "clientRotateKey E agent = map_sum id agentOf (doResult E ''rotate_key'' (Some (JObj [(''agent_id'', JStr agent)])) AgentT)"

definition clientListSnapshots :: "client_env \<Rightarrow> string \<Rightarrow> i64 \<Rightarrow> client_err + mSnapshot option list" where
  "clientListSnapshots E agent n = map_sum id (ptrList snapshotOf)
     (doResult E ''list_snapshots'' (Some (JObj [(''agent_id'', JStr agent), (''n'', intJ n)])) (GSlice (GPtr SnapshotT)))"

text \<open>A nil slice of paths is \<open>null\<close>.\<close>

definition clientSnapshotTake :: "client_env \<Rightarrow> string \<Rightarrow> string \<Rightarrow> string list option \<Rightarrow> client_err + mSnapshot" where
  "clientSnapshotTake E agent snapType paths = map_sum id snapshotOf
     (doResult E ''snapshot_take'' (Some (JObj [(''agent_id'', JStr agent),
        (''paths'', case paths of None \<Rightarrow> JNull | Some ps \<Rightarrow> strsJson ps), (''type'', JStr snapType)])) SnapshotT)"

definition clientSnapshotDiff :: "client_env \<Rightarrow> string \<Rightarrow> client_err + string" where
  "clientSnapshotDiff E agent = map_sum id strOf (doResult E ''snapshot_diff'' (Some (JObj [(''agent_id'', JStr agent)])) GStr)"

definition clientTimeTravel :: "client_env \<Rightarrow> string \<Rightarrow> string \<Rightarrow> client_err option" where
  "clientTimeTravel E indexOrHash snapType =
     doNil E ''time_travel'' (Some (JObj [(''index_or_hash'', JStr indexOrHash), (''type'', JStr snapType)]))"

definition clientCompensateDryRun :: "client_env \<Rightarrow> i64 \<Rightarrow> client_err + mPlan" where
  "clientCompensateDryRun E i = map_sum id planOf (doResult E ''compensate_dry_run'' (Some (JObj [(''index'', intJ i)])) CompensationPlanT)"

definition clientCompensate :: "client_env \<Rightarrow> i64 \<Rightarrow> client_err + mResult" where
  "clientCompensate E i = map_sum id resultOf (doResult E ''compensate'' (Some (JObj [(''index'', intJ i)])) CompensationResultT)"

definition clientListPolicies :: "client_env \<Rightarrow> client_err + mPolicy option list" where
  "clientListPolicies E = map_sum id (ptrList viewPolicyOf) (doResult E ''list_policies'' None (GSlice (GPtr PolicyT)))"

definition clientPolicyAdd :: "client_env \<Rightarrow> string \<Rightarrow> client_err + mPolicy" where
  "clientPolicyAdd E policyJSON = map_sum id viewPolicyOf (doResult E ''policy_add'' (Some (JObj [(''json'', JStr policyJSON)])) PolicyT)"

definition clientPolicyRemove :: "client_env \<Rightarrow> string \<Rightarrow> client_err option" where
  "clientPolicyRemove E i = doNil E ''policy_remove'' (Some (JObj [(''id'', JStr i)]))"

definition clientPolicyToggle :: "client_env \<Rightarrow> string \<Rightarrow> bool \<Rightarrow> client_err option" where
  "clientPolicyToggle E i enabled = doNil E ''policy_toggle'' (Some (JObj [(''enabled'', JBool enabled), (''id'', JStr i)]))"

definition clientPolicyEval :: "client_env \<Rightarrow> string \<Rightarrow> string \<Rightarrow> client_err + mEval" where
  "clientPolicyEval E actionType payloadSummary = map_sum id evalOf
     (doResult E ''policy_eval'' (Some (JObj [(''action_type'', JStr actionType), (''payload_summary'', JStr payloadSummary)])) PolicyEvalResultT)"

definition clientListTokens :: "client_env \<Rightarrow> client_err + mToken option list" where
  "clientListTokens E = map_sum id (ptrList tokenOf) (doResult E ''list_tokens'' None (GSlice (GPtr TokenT)))"

definition clientTokenRequest :: "client_env \<Rightarrow> string \<Rightarrow> string \<Rightarrow> i64 \<Rightarrow> client_err + mToken" where
  "clientTokenRequest E resource action ttl = map_sum id tokenOf
     (doResult E ''token_request'' (Some (JObj [(''action'', JStr action), (''resource'', JStr resource), (''ttl'', intJ ttl)])) TokenT)"

definition clientTokenRevoke :: "client_env \<Rightarrow> string \<Rightarrow> client_err option" where
  "clientTokenRevoke E i = doNil E ''token_revoke'' (Some (JObj [(''id'', JStr i)]))"

definition clientMCPStatus :: "client_env \<Rightarrow> client_err + mMcp" where
  "clientMCPStatus E = map_sum id mcpOf (doResult E ''mcp_status'' None MCPStatusT)"

definition clientMCPStart :: "client_env \<Rightarrow> MCPStartOptions \<Rightarrow> client_err option" where
  "clientMCPStart E opts = doNil E ''mcp_start'' (Some (JObj [(''Listen'', JStr (moListen opts)), (''Target'', JStr (moTarget opts)),
     (''SafetyDisable'', JBool (moSafetyDisable opts)), (''RateLimit'', intJ (moRateLimit opts)), (''TokenBudget'', intJ (moTokenBudget opts)),
     (''PIIRedact'', JBool (moPIIRedact opts))]))"

definition clientMCPStop :: "client_env \<Rightarrow> client_err option" where
  "clientMCPStop E = doNil E ''mcp_stop'' None"

definition clientMCPLog :: "client_env \<Rightarrow> i64 \<Rightarrow> string \<Rightarrow> bool \<Rightarrow> client_err + mLog option list" where
  "clientMCPLog E n methodName injOnly = map_sum id (ptrList logOf)
     (doResult E ''mcp_log'' (Some (JObj [(''inj_only'', JBool injOnly), (''method'', JStr methodName), (''n'', intJ n)])) (GSlice (GPtr MCPLogEntryT)))"

section \<open>A peer of the client's own protocol\<close>

definition responseBytes :: "json \<Rightarrow> bytes" where
  "responseBytes v = putUint32 (length (jsonEnc v)) @ jsonEnc v"

end
