(* ===== verification/Poller.thy ===== *)
theory Poller
  imports Client
begin

text \<open>
  The poller (\<open>internal/poller/poller.go\<close>): seven goroutines that fetch a part of the daemon's
  state at every tick and offer it on a channel, and the one-shot goroutines of a forced refresh.
  The client is an interface, here the record \<open>client_ops\<close> over any client state; what happens
  is an interleaving of the steps of all goroutines and of the consumer, so a fetch and the
  delivery of its result are separate steps.
\<close>

section \<open>The client the poller is given\<close>

record 's client_ops =
  coDaemonStatus :: "'s \<Rightarrow> (client_err + mStatus) \<times> 's"
  coListReceipts :: "i64 \<Rightarrow> string \<Rightarrow> 's \<Rightarrow> (client_err + mReceipt option list) \<times> 's"
  coMCPStatus :: "'s \<Rightarrow> (client_err + mMcp) \<times> 's"
  coMCPLog :: "i64 \<Rightarrow> string \<Rightarrow> bool \<Rightarrow> 's \<Rightarrow> (client_err + mLog option list) \<times> 's"
  coListTokens :: "'s \<Rightarrow> (client_err + mToken option list) \<times> 's"
  coListSnapshots :: "string \<Rightarrow> i64 \<Rightarrow> 's \<Rightarrow> (client_err + mSnapshot option list) \<times> 's"
  coListPolicies :: "'s \<Rightarrow> (client_err + mPolicy option list) \<times> 's"

text \<open>The socket client keeps no state; the \<open>k\<close>-th call meets the environment \<open>E k\<close>.\<close>

definition stateless :: "(client_env \<Rightarrow> 'r) \<Rightarrow> (nat \<Rightarrow> client_env) \<Rightarrow> nat \<Rightarrow> 'r \<times> nat" where
  "stateless f E k = (f (E k), k + 1)"

definition socketOps :: "(nat \<Rightarrow> client_env) \<Rightarrow> nat client_ops" where
  "socketOps E = \<lparr>coDaemonStatus = stateless clientDaemonStatus E, coListReceipts = (\<lambda>n a. stateless (\<lambda>V. clientListReceipts V n a) E),
     coMCPStatus = stateless clientMCPStatus E, coMCPLog = (\<lambda>n m i. stateless (\<lambda>V. clientMCPLog V n m i) E),
     coListTokens = stateless clientListTokens E, coListSnapshots = (\<lambda>a n. stateless (\<lambda>V. clientListSnapshots V a n) E),
     coListPolicies = stateless clientListPolicies E\<rparr>"

section \<open>State\<close>

datatype subsystem = SubDaemon | SubChain | SubMCP | SubMCPLog | SubToken | SubSnaps | SubPolicy

datatype poll_value = PStatus mStatus | PReceipts "mReceipt option list" | PMcp mMcp | PLog "mLog option list"
  | PTokens "mToken option list" | PSnaps "mSnapshot option list" | PPolicies "mPolicy option list"

text \<open>The dynamic type of a result, which the type assertion before a send compares with the channel's.\<close>

fun kindOf :: "poll_value \<Rightarrow> subsystem" where
  "kindOf (PStatus _) = SubDaemon"
| "kindOf (PReceipts _) = SubChain"
| "kindOf (PMcp _) = SubMCP"
| "kindOf (PLog _) = SubMCPLog"
| "kindOf (PTokens _) = SubToken"
| "kindOf (PSnaps _) = SubSnaps"
| "kindOf (PPolicies _) = SubPolicy"

type_synonym poll_result = "client_err + poll_value"

text \<open>
  \<open>plBusy k\<close> is the result that goroutine \<open>k\<close> has fetched and not yet offered; \<open>plShots\<close> are the
  one-shot goroutines of forced refreshes, each with its result once it has one.
\<close>

record 's Poller =
  plClient :: 's
  plChan :: "subsystem \<Rightarrow> poll_value list"
  plErrors :: "client_err list"
  plPaused :: bool
  plStop :: bool
  plRunning :: "subsystem \<Rightarrow> bool"
  plBusy :: "subsystem \<Rightarrow> poll_result option"
  plShots :: "(subsystem \<times> poll_result option) list"

definition NewPoller :: "'s \<Rightarrow> 's Poller" where
  "NewPoller s = \<lparr>plClient = s, plChan = (\<lambda>k. []), plErrors = [], plPaused = False, plStop = False, plRunning = (\<lambda>k. False), plBusy = (\<lambda>k. None), plShots = []\<rparr>"

section \<open>Operations\<close>

text \<open>What each goroutine calls.\<close>

fun pollCall :: "'s client_ops \<Rightarrow> subsystem \<Rightarrow> 's \<Rightarrow> poll_result \<times> 's" where
  "pollCall c SubDaemon s = map_prod (map_sum id PStatus) id (coDaemonStatus c s)"
| "pollCall c SubChain s = map_prod (map_sum id PReceipts) id (coListReceipts c 50 [] s)"
| "pollCall c SubMCP s = map_prod (map_sum id PMcp) id (coMCPStatus c s)"
| "pollCall c SubMCPLog s = map_prod (map_sum id PLog) id (coMCPLog c 20 [] False s)"
| "pollCall c SubToken s = map_prod (map_sum id PTokens) id (coListTokens c s)"
| "pollCall c SubSnaps s = map_prod (map_sum id PSnaps) id (coListSnapshots c [] 20 s)"
| "pollCall c SubPolicy s = map_prod (map_sum id PPolicies) id (coListPolicies c s)"

text \<open>Non-blocking sends: a full channel drops the new value. The capacities are 1 and 64.\<close>

definition offer :: "subsystem \<Rightarrow> poll_value \<Rightarrow> 's Poller \<Rightarrow> 's Poller" where
  "offer k v p = (if kindOf v = k \<and> length (plChan p k) < 1 then p\<lparr>plChan := (plChan p)(k := plChan p k @ [v])\<rparr> else p)"

definition offerErr :: "client_err \<Rightarrow> 's Poller \<Rightarrow> 's Poller" where
  "offerErr e p = (if length (plErrors p) < 64 then p\<lparr>plErrors := plErrors p @ [e]\<rparr> else p)"

definition Start :: "'s Poller \<Rightarrow> 's Poller" where
  "Start p = p\<lparr>plRunning := (\<lambda>k. True)\<rparr>"

definition Pause :: "'s Poller \<Rightarrow> 's Poller" where
  "Pause p = p\<lparr>plPaused := True\<rparr>"

definition Resume :: "'s Poller \<Rightarrow> 's Poller" where
  "Resume p = p\<lparr>plPaused := False\<rparr>"

text \<open>A tick of goroutine \<open>k\<close>, and what it does with the result.\<close>

definition pollTick :: "'s client_ops \<Rightarrow> subsystem \<Rightarrow> 's Poller \<Rightarrow> 's Poller" where
  "pollTick c k p = (if plPaused p then p
     else (case pollCall c k (plClient p) of (r, s) \<Rightarrow> p\<lparr>plClient := s, plBusy := (plBusy p)(k := Some r)\<rparr>))"

definition pollDeliver :: "subsystem \<Rightarrow> poll_result \<Rightarrow> 's Poller \<Rightarrow> 's Poller" where
  "pollDeliver k r p = (let p1 = p\<lparr>plBusy := (plBusy p)(k := None)\<rparr> in
     case r of Inl e \<Rightarrow> offerErr e p1 | Inr v \<Rightarrow> offer k v p1)"

text \<open>
  \<open>ForceRefresh\<close>: it empties the channels one after the other and then the errors, and starts a
  one-shot goroutine per subsystem, except for the MCP log; these report no errors.
\<close>

definition drain :: "subsystem \<Rightarrow> 's Poller \<Rightarrow> 's Poller" where
  "drain k p = p\<lparr>plChan := (plChan p)(k := [])\<rparr>"

definition drainErrors :: "'s Poller \<Rightarrow> 's Poller" where
  "drainErrors p = p\<lparr>plErrors := []\<rparr>"

definition refreshed :: "subsystem list" where
  "refreshed = [SubDaemon, SubChain, SubMCP, SubToken, SubSnaps, SubPolicy]"

definition spawnShots :: "'s Poller \<Rightarrow> 's Poller" where
  "spawnShots p = p\<lparr>plShots := plShots p @ map (\<lambda>k. (k, None)) refreshed\<rparr>"

definition shotFetch :: "'s client_ops \<Rightarrow> nat \<Rightarrow> 's Poller \<Rightarrow> 's Poller" where
  "shotFetch c i p = (let k = fst (plShots p ! i) in
     case pollCall c k (plClient p) of (r, s) \<Rightarrow> p\<lparr>plClient := s, plShots := (plShots p)[i := (k, Some r)]\<rparr>)"

definition shotDeliver :: "nat \<Rightarrow> poll_result \<Rightarrow> 's Poller \<Rightarrow> 's Poller" where
  "shotDeliver i r p = (let k = fst (plShots p ! i); p1 = p\<lparr>plShots := take i (plShots p) @ drop (i + 1) (plShots p)\<rparr> in
     case r of Inl e \<Rightarrow> p1 | Inr v \<Rightarrow> offer k v p1)"

section \<open>The steps\<close>

datatype poll_event = EvTick subsystem | EvDeliver subsystem | EvExit subsystem | EvPause | EvResume | EvClose
  | EvReceive subsystem | EvReceiveErr | EvDrain subsystem | EvDrainErrors | EvSpawn | EvShotFetch nat | EvShotDeliver nat

text \<open>
  A goroutine whose stop channel is closed may still take a tick that is ready, since \<open>select\<close>
  chooses between the two; \<open>Stop\<close> closes the channel once (a second close panics) and returns
  when no goroutine runs.
\<close>

inductive pollStep :: "'s client_ops \<Rightarrow> 's Poller \<Rightarrow> poll_event \<Rightarrow> 's Poller \<Rightarrow> bool" for c where
  tick: "plRunning p k \<Longrightarrow> plBusy p k = None \<Longrightarrow> pollStep c p (EvTick k) (pollTick c k p)"
| deliver: "plBusy p k = Some r \<Longrightarrow> pollStep c p (EvDeliver k) (pollDeliver k r p)"
| exit: "plRunning p k \<Longrightarrow> plBusy p k = None \<Longrightarrow> plStop p \<Longrightarrow> pollStep c p (EvExit k) (p\<lparr>plRunning := (plRunning p)(k := False)\<rparr>)"
| pause: "pollStep c p EvPause (Pause p)"
| resume: "pollStep c p EvResume (Resume p)"
| close: "\<not> plStop p \<Longrightarrow> pollStep c p EvClose (p\<lparr>plStop := True\<rparr>)"
| receive: "plChan p k = v # vs \<Longrightarrow> pollStep c p (EvReceive k) (p\<lparr>plChan := (plChan p)(k := vs)\<rparr>)"
| receiveErr: "plErrors p = e # es \<Longrightarrow> pollStep c p EvReceiveErr (p\<lparr>plErrors := es\<rparr>)"
| drain: "pollStep c p (EvDrain k) (drain k p)"
| drainErrors: "pollStep c p EvDrainErrors (drainErrors p)"
| spawn: "pollStep c p EvSpawn (spawnShots p)"
| shotFetch: "i < length (plShots p) \<Longrightarrow> snd (plShots p ! i) = None \<Longrightarrow> pollStep c p (EvShotFetch i) (shotFetch c i p)"
| shotDeliver: "i < length (plShots p) \<Longrightarrow> snd (plShots p ! i) = Some r \<Longrightarrow> pollStep c p (EvShotDeliver i) (shotDeliver i r p)"

inductive pollRun :: "'s client_ops \<Rightarrow> 's Poller \<Rightarrow> poll_event list \<Rightarrow> 's Poller \<Rightarrow> bool" for c where
  none: "pollRun c p [] p"
| more: "pollRun c p es q \<Longrightarrow> pollStep c q e q' \<Longrightarrow> pollRun c p (es @ [e]) q'"

inductive_cases tickE: "pollStep c p (EvTick k) q"
inductive_cases deliverE: "pollStep c p (EvDeliver k) q"
inductive_cases exitE: "pollStep c p (EvExit k) q"
inductive_cases receiveE: "pollStep c p (EvReceive k) q"
inductive_cases shotDeliverE: "pollStep c p (EvShotDeliver i) q"

section \<open>Results have the type of their channel\<close>

lemma map_sum_Inr: "map_sum f g x = Inr v \<longleftrightarrow> (\<exists>y. x = Inr y \<and> v = g y)"
  by (cases x) auto

lemma pollCall_kind: "pollCall c k s = (Inr v, s') \<Longrightarrow> kindOf v = k"
  by (cases k) (auto simp: map_prod_def map_sum_Inr split: prod.splits)

definition typedResult :: "subsystem \<Rightarrow> poll_result option \<Rightarrow> bool" where
  "typedResult k r \<longleftrightarrow> (case r of Some (Inr v) \<Rightarrow> kindOf v = k | _ \<Rightarrow> True)"

definition poll_inv :: "'s Poller \<Rightarrow> bool" where
  "poll_inv p \<longleftrightarrow> (\<forall>k. length (plChan p k) \<le> 1 \<and> (\<forall>v\<in>set (plChan p k). kindOf v = k) \<and> typedResult k (plBusy p k)) \<and>
     length (plErrors p) \<le> 64 \<and> (\<forall>(k, r)\<in>set (plShots p). typedResult k r)"

lemma poll_inv_new [simp]: "poll_inv (NewPoller s)"
  by (simp add: poll_inv_def NewPoller_def typedResult_def)

lemma poll_inv_offer: "poll_inv p \<Longrightarrow> poll_inv (offer k v p)"
  by (auto simp: poll_inv_def offer_def)

lemma poll_inv_offerErr: "poll_inv p \<Longrightarrow> poll_inv (offerErr e p)"
  by (auto simp: poll_inv_def offerErr_def)

lemma pollCall_typed: "pollCall c k s = (r, s') \<Longrightarrow> typedResult k (Some r)"
  using pollCall_kind [of c k s] by (auto simp: typedResult_def split: sum.splits)

lemma pollStep_inv: "pollStep c p e q \<Longrightarrow> poll_inv p \<Longrightarrow> poll_inv q"
proof (induction rule: pollStep.induct)
  case (tick p k)
  then show ?case using pollCall_typed [of c k "plClient p"] by (auto simp: pollTick_def poll_inv_def split: prod.split)
next
  case (deliver p k r)
  then have "poll_inv (p\<lparr>plBusy := (plBusy p)(k := None)\<rparr>)" by (auto simp: poll_inv_def typedResult_def)
  then show ?case by (simp add: pollDeliver_def Let_def poll_inv_offer poll_inv_offerErr split: sum.split)
next
  case (shotFetch i p)
  then show ?case using pollCall_typed [of c "fst (plShots p ! i)" "plClient p"] 
    by (auto simp: shotFetch_def poll_inv_def Let_def split: prod.split dest!: set_update_subset_insert [THEN subsetD])
next
  case (shotDeliver i p r)
  then have "poll_inv (p\<lparr>plShots := take i (plShots p) @ drop (i + 1) (plShots p)\<rparr>)"
    by (auto simp: poll_inv_def dest: in_set_takeD in_set_dropD)
  then show ?case by (auto simp: shotDeliver_def Let_def poll_inv_offer split: sum.split)
next
  case (receive p k v vs)
  then have "length (v # vs) \<le> 1" "\<forall>w\<in>set (v # vs). kindOf w = k" unfolding poll_inv_def by metis+
  then show ?case using receive(2) by (simp add: poll_inv_def)
qed (auto simp: poll_inv_def Pause_def Resume_def drain_def drainErrors_def spawnShots_def typedResult_def)

lemma pollRun_inv: "pollRun c p es q \<Longrightarrow> poll_inv p \<Longrightarrow> poll_inv q"
  by (induction rule: pollRun.induct) (auto intro: pollStep_inv)

section \<open>What a consumer sees\<close>

lemma offer_full: "plChan p k = [v] \<Longrightarrow> plChan (offer j w p) k = [v]"
  by (auto simp: offer_def)

lemma offerErr_chan [simp]: "plChan (offerErr e p) = plChan p"
  by (simp add: offerErr_def)

lemma pollStep_keeps:
  "pollStep c p e q \<Longrightarrow> plChan p k = [v] \<Longrightarrow> e \<noteq> EvReceive k \<Longrightarrow> e \<noteq> EvDrain k \<Longrightarrow> plChan q k = [v]"
  by (induction rule: pollStep.induct)
    (auto simp: pollTick_def pollDeliver_def shotFetch_def shotDeliver_def Pause_def Resume_def drain_def drainErrors_def spawnShots_def offer_full Let_def
      split: prod.split sum.split)

lemma pollRun_keeps: "pollRun c p es q \<Longrightarrow> plChan p k = [v] \<Longrightarrow> EvReceive k \<notin> set es \<Longrightarrow> EvDrain k \<notin> set es \<Longrightarrow> plChan q k = [v]"
  by (induction rule: pollRun.induct) (auto intro: pollStep_keeps)

text \<open>A tick and its delivery put a fetched value on an empty channel.\<close>

lemma tick_delivers:
  assumes "plRunning p k" "plBusy p k = None" "\<not> plPaused p" "plChan p k = []" "pollCall c k (plClient p) = (Inr v, s)"
  shows "\<exists>q. pollRun c p [EvTick k, EvDeliver k] q \<and> plChan q k = [v] \<and> plClient q = s \<and> plRunning q = plRunning p \<and> plPaused q = plPaused p \<and> plBusy q k = None"
proof -
  let ?q = "p\<lparr>plClient := s, plBusy := (plBusy p)(k := Some (Inr v))\<rparr>"
  have "pollTick c k p = ?q" using assms(3,5) by (simp add: pollTick_def)
  then have "pollStep c p (EvTick k) ?q" using pollStep.tick [of p k c] assms(1,2) by simp
  moreover have "pollStep c ?q (EvDeliver k) (pollDeliver k (Inr v) ?q)" by (rule pollStep.deliver) simp
  ultimately have "pollRun c p ([] @ [EvTick k] @ [EvDeliver k]) (pollDeliver k (Inr v) ?q)"
    using pollRun.more [OF pollRun.more [OF pollRun.none]] by simp
  moreover have "kindOf v = k" using pollCall_kind [OF assms(5)] .
  ultimately show ?thesis using assms(1,4) by (intro exI [of _ "pollDeliver k (Inr v) ?q"]) (simp add: pollDeliver_def offer_def Let_def)
qed

text \<open>
  The consumer sees the oldest poll, not the latest. A channel holds one value and a full
  channel drops what is offered. In every state reachable from a new poller each channel has at most one
  value, of its type, and there are at most 64 pending errors; and once a value is on a channel,
  it stays there, whatever is polled, paused, stopped or refreshed, until the consumer takes it or a forced refresh drains the channel.
\<close>

theorem poller_keeps_oldest:
  assumes "pollRun c (Start (NewPoller s)) es p" and "plChan p k = v # vs" and "pollRun c p fs q"
    and "EvReceive k \<notin> set fs" "EvDrain k \<notin> set fs"
  shows "vs = [] \<and> kindOf v = k \<and> plChan q k = [v] \<and> length (plErrors q) \<le> 64"
proof -
  have "poll_inv (Start (NewPoller s))" using poll_inv_new [of s] by (simp add: poll_inv_def Start_def)
  then have p: "poll_inv p" using pollRun_inv [OF assms(1)] by simp
  then have "length (v # vs) \<le> 1" "kindOf v = k" using assms(2) unfolding poll_inv_def by (metis, metis list.set_intros(1))
  moreover have "poll_inv q" using pollRun_inv [OF assms(3) p] .
  ultimately show ?thesis using pollRun_keeps [OF assms(3), of k v] assms(2,4,5) by (simp add: poll_inv_def)
qed

section \<open>Pausing and stopping\<close>

text \<open>Nothing in flight, and the goroutines paused or gone.\<close>

definition quietPoller :: "'s Poller \<Rightarrow> bool" where
  "quietPoller p \<longleftrightarrow> (plPaused p \<or> (\<forall>k. \<not> plRunning p k)) \<and> (\<forall>k. plBusy p k = None) \<and> plShots p = []"

lemma pollStep_quiet:
  "pollStep c p e q \<Longrightarrow> quietPoller p \<Longrightarrow> e \<noteq> EvResume \<Longrightarrow> e \<noteq> EvSpawn \<Longrightarrow>
     quietPoller q \<and> plClient q = plClient p \<and> (\<forall>k. length (plChan q k) \<le> length (plChan p k))"
  by (induction rule: pollStep.induct)
    (auto simp: quietPoller_def pollTick_def Pause_def drain_def drainErrors_def)

text \<open>
  While the poller is paused, or has been stopped, and nothing is in flight, the client is not
  called and no value appears on a channel, until it is resumed or a refresh is forced.
\<close>

theorem quiet_poller:
  assumes "pollRun c p es q" and "quietPoller p" "EvResume \<notin> set es" "EvSpawn \<notin> set es"
  shows "plClient q = plClient p \<and> (\<forall>k. length (plChan q k) \<le> length (plChan p k)) \<and> quietPoller q"
  using assms
proof (induction rule: pollRun.induct)
  case (more p es q e q')
  then have "plClient q = plClient p" "\<forall>k. length (plChan q k) \<le> length (plChan p k)" "quietPoller q" by simp_all
  then show ?case using pollStep_quiet [OF more(2)] more(5,6) by (auto intro: le_trans)
qed simp

text \<open>A client that counts its calls, polled twice before the consumer looks.\<close>

definition exStatus :: "nat \<Rightarrow> mStatus" where
  "exStatus n = \<lparr>msRunning = True, msPID = int n, msUptimeSeconds = 0, msChainLength = 0, msAgentCount = 0, msDBSizeMB = ''0'', msChainVerified = True, msVersion = []\<rparr>"

definition countingOps :: "nat client_ops" where
  "countingOps = \<lparr>coDaemonStatus = (\<lambda>s. (Inr (exStatus s), s + 1)), coListReceipts = (\<lambda>n a s. (Inl ConnectErr, s)), coMCPStatus = (\<lambda>s. (Inl ConnectErr, s)),
     coMCPLog = (\<lambda>n m i s. (Inl ConnectErr, s)), coListTokens = (\<lambda>s. (Inl ConnectErr, s)), coListSnapshots = (\<lambda>a n s. (Inl ConnectErr, s)),
     coListPolicies = (\<lambda>s. (Inl ConnectErr, s))\<rparr>"

theorem poller_keeps_oldest_witness:
  "\<exists>p q. pollRun countingOps (Start (NewPoller 0)) [EvTick SubDaemon, EvDeliver SubDaemon] p \<and>
     pollRun countingOps p [EvTick SubDaemon, EvDeliver SubDaemon] q \<and> plClient q = 2 \<and> plChan q SubDaemon = [PStatus (exStatus 0)]"
proof -
  let ?st = "Start (NewPoller (0 :: nat))"
  have "plRunning ?st SubDaemon" "plBusy ?st SubDaemon = None" "\<not> plPaused ?st" "plChan ?st SubDaemon = []" "plClient ?st = 0"
    by (simp_all add: Start_def NewPoller_def)
  moreover have call: "pollCall countingOps SubDaemon n = (Inr (PStatus (exStatus n)), n + 1)" for n by (simp add: countingOps_def)
  ultimately obtain p where p: "pollRun countingOps ?st [EvTick SubDaemon, EvDeliver SubDaemon] p" "plChan p SubDaemon = [PStatus (exStatus 0)]" "plClient p = 1"
    "plRunning p = plRunning ?st" "plPaused p = plPaused ?st" "plBusy p SubDaemon = None"
    using tick_delivers [of ?st SubDaemon countingOps "PStatus (exStatus 0)" 1] by fastforce
  let ?q = "p\<lparr>plClient := 2, plBusy := (plBusy p)(SubDaemon := Some (Inr (PStatus (exStatus 1))))\<rparr>"
  have "pollTick countingOps SubDaemon p = ?q" using p call [of 1] by (simp add: pollTick_def Start_def NewPoller_def)
  then have "pollStep countingOps p (EvTick SubDaemon) ?q" using pollStep.tick [of p SubDaemon countingOps] p by (simp add: Start_def)
  moreover have "pollStep countingOps ?q (EvDeliver SubDaemon) (pollDeliver SubDaemon (Inr (PStatus (exStatus 1))) ?q)" by (rule pollStep.deliver) simp
  ultimately have r: "pollRun countingOps p [EvTick SubDaemon, EvDeliver SubDaemon] (pollDeliver SubDaemon (Inr (PStatus (exStatus 1))) ?q)"
    using pollRun.more [OF pollRun.more [OF pollRun.none]] by fastforce
  moreover have "plChan (pollDeliver SubDaemon (Inr (PStatus (exStatus 1))) ?q) SubDaemon = [PStatus (exStatus 0)]"
    using poller_keeps_oldest [OF p(1) p(2) r] by simp
  moreover have "plClient (pollDeliver SubDaemon (Inr (PStatus (exStatus 1))) ?q) = 2" by (simp add: pollDeliver_def offer_def Let_def)
  ultimately show ?thesis using p(1) by blast
qed

end
