(* ===== verification/ClientWire.thy ===== *)
theory ClientWire
  imports Client DaemonSystem
begin

text \<open>
  The client against the daemon. The two sides frame their messages differently: the daemon
  reads a type byte before the JSON, the client writes none.
\<close>

section \<open>The client's own protocol\<close>

lemma readResponse_bytes:
  assumes "length (jsonEnc v) < 2 ^ 32" "jsonParse (jsonEnc v) = Some v"
  shows "readResponse L (responseBytes v @ tl1) = (case unmarshal L ResponseT v of None \<Rightarrow> Inl UnmarshalErr | Some r \<Rightarrow>
     if atBool r ''ok'' then Inr r else Inl (RemoteErr (atStr r ''error'')))"
proof -
  have "getUint32 (putUint32 (length (jsonEnc v))) = length (jsonEnc v)" by (rule getUint32_putUint32) (use assms(1) in simp)
  then show ?thesis using assms(2) by (simp add: readResponse_def responseBytes_def Let_def)
qed

section \<open>The daemon's protocol\<close>

definition daemonSends :: "(nat \<Rightarrow> daemon_env) \<Rightarrow> Daemon \<Rightarrow> bytes \<Rightarrow> bytes" where
  "daemonSends V d w = (case fst (Handle V 0 w d) of Ok out \<Rightarrow> out | _ \<Rightarrow> [])"

lemma char_FF: "char_of (255 :: nat) = CHR 0xFF"
  by code_simp

lemma jsonParse_FF: "jsonParse (CHR 0xFF # s) = None"
  by (simp add: jsonParse_def skipWs_def scanNumber_def scanInt_def is_digit_def)

lemma requestBody_brace: "\<exists>s. requestBody r = CHR ''{'' # s"
  by (simp add: requestBody_def requestJson_def)

lemma unknown_type:
  assumes "frType f = 123"
  shows "\<exists>m. handleFrame V f d = (Ok (writeOK (MsgError, ErrorResp m)), d)"
  using assms by (auto simp: handleFrame_def dispatch_def Let_def msg_defs failWith_def)

lemma client_request_served:
  assumes "length (requestBody r) < 2 ^ 32"
  shows "\<exists>m. Handle V n (requestBytes r) d = (Ok [], d) \<or> Handle V n (requestBytes r) d = (Ok (writeOK (MsgError, ErrorResp m)), d)"
proof -
  obtain s where s: "requestBody r = CHR ''{'' # s" using requestBody_brace by blast
  have "getUint32 (putUint32 (length (requestBody r))) = length (requestBody r)" by (rule getUint32_putUint32) (use assms in simp)
  then have "ReadFrame (requestBytes r) = (if MaxFrameSize < length (requestBody r) then Inl (BadFrameSize (length (requestBody r)))
      else Inr (\<lparr>frType = 123, frBody = s\<rparr>, []))"
    by (simp add: ReadFrame_def requestBytes_def s Let_def)
  moreover have "Handle V (n + 1) [] d = (Ok [], d)" by (subst Handle.simps) (simp add: ReadFrame_def)
  moreover obtain m where "handleFrame (V n) \<lparr>frType = 123, frBody = s\<rparr> d = (Ok (writeOK (MsgError, ErrorResp m)), d)"
    using unknown_type [of "\<lparr>frType = 123, frBody = s\<rparr>" "V n" d] by auto
  ultimately show ?thesis by (subst (1 2) Handle.simps) auto
qed

lemma error_frame_unreadable: "readResponse L (writeOK (MsgError, ErrorResp m)) \<in> {Inl ReadHeaderErr, Inl UnmarshalErr}"
proof (cases "WriteFrame MsgError (jsonEnc (ErrorResp m))")
  case None
  then show ?thesis by (simp add: writeOK_def WriteJSON_def readResponse_def)
next
  case (Some w)
  let ?b = "jsonEnc (ErrorResp m)"
  have w: "w = putUint32 (1 + length ?b) @ CHR 0xFF # ?b" and "length ?b + 1 \<le> MaxFrameSize"
    using Some by (auto simp: WriteFrame_def MsgError_def char_FF split: if_splits)
  then have "getUint32 (putUint32 (1 + length ?b)) = 1 + length ?b" by (intro getUint32_putUint32) (simp add: MaxFrameSize_def)
  then show ?thesis using Some by (simp add: writeOK_def WriteJSON_def readResponse_def w Let_def jsonParse_FF del: jsonEnc.simps)
qed

lemma client_call_fails:
  assumes "length (requestBody \<lparr>rqType = t, rqPayload = p\<rparr>) < 2 ^ 32" and "cePeer E = daemonSends V d"
  shows "(\<exists>e\<in>{ConnectErr, WriteHeaderErr, WriteBodyErr, ReadHeaderErr, UnmarshalErr}. doResult E t p rt = Inl e \<and> doNil E t p = Some e) \<and>
    snd (Handle V 0 (requestBytes \<lparr>rqType = t, rqPayload = p\<rparr>) d) = d"
proof -
  let ?r = "\<lparr>rqType = t, rqPayload = p\<rparr>"
  obtain m where h: "Handle V 0 (requestBytes ?r) d = (Ok [], d) \<or> Handle V 0 (requestBytes ?r) d = (Ok (writeOK (MsgError, ErrorResp m)), d)"
    using client_request_served [OF assms(1)] by blast
  then have "readResponse (ceLib E) (daemonSends V d (requestBytes ?r)) \<in> {Inl ReadHeaderErr, Inl UnmarshalErr}"
    using error_frame_unreadable [of "ceLib E" m] by (elim disjE) (simp_all add: daemonSends_def readResponse_def [of _ "[]"])
  then have "\<exists>e\<in>{ConnectErr, WriteHeaderErr, WriteBodyErr, ReadHeaderErr, UnmarshalErr}. doResult E t p rt = Inl e \<and> doNil E t p = Some e"
    by (auto simp: doResult_def doNil_def roundTrip_def assms(2))
  then show ?thesis using h by auto
qed

text \<open>
  C13. The client and the daemon do not speak the same protocol. Connected to the daemon, in
  whatever state it is and whatever it has stored, every call of the client (the payloads below
  four gigabytes) fails: the daemon takes the opening brace of the request for the message type,
  answers \<open>unknown msg type 0x7b\<close>, or closes the connection when the request is above four
  megabytes, and the client cannot parse the type byte of that answer. The daemon's state does
  not change.
\<close>

theorem socket_client_never_served:
  assumes "length (requestBody \<lparr>rqType = t, rqPayload = p\<rparr>) < 2 ^ 32" and "cePeer E = daemonSends V d"
  shows "(\<exists>e\<in>{ConnectErr, WriteHeaderErr, WriteBodyErr, ReadHeaderErr, UnmarshalErr}. doResult E t p rt = Inl e \<and> doNil E t p = Some e) \<and>
    snd (Handle V 0 (requestBytes \<lparr>rqType = t, rqPayload = p\<rparr>) d) = d"
  using client_call_fails [OF assms] .

theorem socket_client_never_served_witness:
  "\<exists>e\<in>{ConnectErr, WriteHeaderErr, WriteBodyErr, ReadHeaderErr, UnmarshalErr}.
     doResult \<lparr>ceDial = False, ceHeader = False, ceBody = False, cePeer = daemonSends (\<lambda>k. exDEnv) exDaemon,
       ceLib = \<lparr>dlParse = (\<lambda>s. None), dlStrict = (\<lambda>s. None), dlFloat = (\<lambda>s. True)\<rparr>\<rparr> ''list_agents'' None (GSlice (GPtr AgentT)) = Inl e"
proof -
  have "length (requestBody \<lparr>rqType = ''list_agents'', rqPayload = None\<rparr>) < 2 ^ 32"
    by (simp add: requestBody_def requestJson_def jsonString_def jsonBody.simps jsonEscape_def utf8Len.simps)
  then show ?thesis using socket_client_never_served [of "''list_agents''" None "\<lparr>ceDial = False, ceHeader = False, ceBody = False,
      cePeer = daemonSends (\<lambda>k. exDEnv) exDaemon, ceLib = \<lparr>dlParse = (\<lambda>s. None), dlStrict = (\<lambda>s. None), dlFloat = (\<lambda>s. True)\<rparr>\<rparr>"
      "\<lambda>k. exDEnv" exDaemon] by auto
qed

text \<open>
  Against a peer of its own protocol the client works: a successful response returns the
  decoded payload, a failed one the error text.
\<close>

definition response :: "bool \<Rightarrow> string \<Rightarrow> json \<Rightarrow> json" where
  "response ok e p = JObj [(''type'', JStr ''response''), (''ok'', JBool ok), (''error'', JStr e), (''payload'', p)]"

lemma response_decoded:
  "unmarshal L ResponseT (response ok e p) =
     Some (WStruct [(''type'', WStr ''response''), (''ok'', WBool ok), (''error'', WStr e), (''payload'', WRaw p)])"
  by (simp add: unmarshal_def ResponseT_def response_def fieldsV_def matchField_def)

theorem client_own_protocol:
  assumes "cePeer E (requestBytes \<lparr>rqType = t, rqPayload = q\<rparr>) = responseBytes (response ok e p)"
    and "\<not> ceDial E" "\<not> ceHeader E" "\<not> ceBody E"
    and "json_ok (response ok e p)" "jdepth (response ok e p) \<le> 10000" "length (jsonEnc (response ok e p)) < 2 ^ 32"
  shows "doResult E t q rt = (if \<not> ok then Inl (RemoteErr e)
     else (case unmarshal (ceLib E) rt p of None \<Rightarrow> Inl ResultErr | Some v \<Rightarrow> Inr v))"
proof -
  have "readResponse (ceLib E) (responseBytes (response ok e p) @ []) =
      (if ok then Inr (WStruct [(''type'', WStr ''response''), (''ok'', WBool ok), (''error'', WStr e), (''payload'', WRaw p)]) else Inl (RemoteErr e))"
    using readResponse_bytes [OF assms(7) jsonParse_enc [OF assms(5,6)], of "ceLib E" "[]"]
    by (simp add: response_decoded atBool_def atStr_def fieldsV_def)
  then show ?thesis using assms(1-4) by (simp add: doResult_def roundTrip_def atRaw_def fieldsV_def)
qed

end
