(* ===== verification/PollerWire.thy ===== *)
theory PollerWire
  imports Poller ClientWire
begin

text \<open>The poller over the socket client over the daemon: nothing is ever shown.\<close>

lemma short_requests:
  "length (requestBody \<lparr>rqType = ''daemon_status'', rqPayload = None\<rparr>) < 2 ^ 32"
  "length (requestBody \<lparr>rqType = ''mcp_status'', rqPayload = None\<rparr>) < 2 ^ 32"
  "length (requestBody \<lparr>rqType = ''list_tokens'', rqPayload = None\<rparr>) < 2 ^ 32"
  "length (requestBody \<lparr>rqType = ''list_policies'', rqPayload = None\<rparr>) < 2 ^ 32"
  "length (requestBody \<lparr>rqType = ''list_receipts'', rqPayload = Some (JObj [(''agent_id'', JStr []), (''n'', intJ 50)])\<rparr>) < 2 ^ 32"
  "length (requestBody \<lparr>rqType = ''list_snapshots'', rqPayload = Some (JObj [(''agent_id'', JStr []), (''n'', intJ 20)])\<rparr>) < 2 ^ 32"
  "length (requestBody \<lparr>rqType = ''mcp_log'', rqPayload = Some (JObj [(''inj_only'', JBool False), (''method'', JStr []), (''n'', intJ 20)])\<rparr>) < 2 ^ 32"
  by (simp_all add: requestBody_def requestJson_def jsonString_def jsonBody.simps jsonEscape_def intJ_def showInt_def showNat.simps)

lemma poll_fails:
  assumes "cePeer (E s) = daemonSends V d"
  shows "\<exists>e. pollCall (socketOps E) k s = (Inl e, s + 1)"
proof -
  note ops = socketOps_def stateless_def clientDaemonStatus_def clientListReceipts_def clientMCPStatus_def
    clientMCPLog_def clientListTokens_def clientListSnapshots_def clientListPolicies_def
  show ?thesis
  proof (cases k)
    case SubDaemon
    then show ?thesis using client_call_fails [OF short_requests(1) assms, of DaemonStatusT] by (auto simp: ops)
  next
    case SubChain
    then show ?thesis using client_call_fails [OF short_requests(5) assms, of "GSlice (GPtr ReceiptT)"] by (auto simp: ops)
  next
    case SubMCP
    then show ?thesis using client_call_fails [OF short_requests(2) assms, of MCPStatusT] by (auto simp: ops)
  next
    case SubMCPLog
    then show ?thesis using client_call_fails [OF short_requests(7) assms, of "GSlice (GPtr MCPLogEntryT)"] by (auto simp: ops)
  next
    case SubToken
    then show ?thesis using client_call_fails [OF short_requests(3) assms, of "GSlice (GPtr TokenT)"] by (auto simp: ops)
  next
    case SubSnaps
    then show ?thesis using client_call_fails [OF short_requests(6) assms, of "GSlice (GPtr SnapshotT)"] by (auto simp: ops)
  next
    case SubPolicy
    then show ?thesis using client_call_fails [OF short_requests(4) assms, of "GSlice (GPtr PolicyT)"] by (auto simp: ops)
  qed
qed

definition emptyPoller :: "'s Poller \<Rightarrow> bool" where
  "emptyPoller p \<longleftrightarrow> (\<forall>k. plChan p k = [] \<and> (\<forall>v. plBusy p k \<noteq> Some (Inr v))) \<and> (\<forall>(k, r)\<in>set (plShots p). \<forall>v. r \<noteq> Some (Inr v))"

lemma pollStep_empty:
  assumes "pollStep (socketOps E) p e q" "emptyPoller p" "\<And>n. \<exists>V d. cePeer (E n) = daemonSends V d"
  shows "emptyPoller q"
  using assms(1,2)
proof (induction rule: pollStep.induct)
  case (tick p k)
  obtain V d e where "pollCall (socketOps E) k (plClient p) = (Inl e, plClient p + 1)" using assms(3) poll_fails by blast
  then show ?case using tick by (auto simp: pollTick_def emptyPoller_def)
next
  case (deliver p k r)
  then show ?case by (cases r) (auto simp: pollDeliver_def emptyPoller_def offerErr_def Let_def)
next
  case (shotFetch i p)
  obtain V d e where "pollCall (socketOps E) (fst (plShots p ! i)) (plClient p) = (Inl e, plClient p + 1)" using assms(3) poll_fails by blast
  then show ?case using shotFetch by (auto simp: shotFetch_def emptyPoller_def Let_def dest!: set_update_subset_insert [THEN subsetD])
next
  case (shotDeliver i p r)
  have "plShots p ! i \<in> set (plShots p)" using shotDeliver by simp
  then have "\<forall>v. snd (plShots p ! i) \<noteq> Some (Inr v)" using shotDeliver(3) unfolding emptyPoller_def case_prod_beta by blast
  then obtain e where "r = Inl e" using shotDeliver(2) by (cases r) auto
  moreover have "set (take i (plShots p) @ drop (i + 1) (plShots p)) \<subseteq> set (plShots p)" by (auto dest: in_set_takeD in_set_dropD)
  ultimately show ?case using shotDeliver(3) by (simp add: shotDeliver_def emptyPoller_def Let_def) blast
qed (auto simp: emptyPoller_def Pause_def Resume_def drain_def drainErrors_def spawnShots_def)

text \<open>
  Over the socket client a poller that is connected to daemons, whatever they hold, never has a
  value for its consumer.
\<close>

theorem poller_shows_nothing:
  assumes "\<And>n. \<exists>V d. cePeer (E n) = daemonSends V d" and "pollRun (socketOps E) (Start (NewPoller n)) es p"
  shows "plChan p k = []"
proof -
  have "pollRun (socketOps E) p0 es p \<Longrightarrow> emptyPoller p0 \<Longrightarrow> emptyPoller p" for p0
    by (induction rule: pollRun.induct) (auto intro: pollStep_empty assms(1))
  moreover have "emptyPoller (Start (NewPoller n))" by (simp add: emptyPoller_def Start_def NewPoller_def)
  ultimately show ?thesis using assms(2) by (auto simp: emptyPoller_def)
qed

end
