(* ===== verification/MockClient.thy ===== *)
theory MockClient
  imports Poller AuditRing
begin

text \<open>
  The demonstration client (\<open>internal/client/mock.go\<close>): canned data, lists that its methods
  change, and receipts that grow with every listing. Random bytes are a stream \<open>mxRandom\<close> read
  from the position \<open>mxPos\<close>, times are the argument \<open>now\<close>; the pointers that the methods hand
  out are modelled by the values they point at.
\<close>

section \<open>State\<close>

record MockClient =
  mxReceipts :: "mReceipt list"
  mxCalls :: i64
  mxTokens :: "mToken list"
  mxPolicies :: "mPolicy list"
  mxRunning :: bool
  mxStatus :: mMcp
  mxLog :: "mLog list"
  mxIssued :: int
  mxRandom :: "nat \<Rightarrow> char"
  mxPos :: nat

definition randHex :: "nat \<Rightarrow> MockClient \<Rightarrow> string \<times> MockClient" where
  "randHex n m = (hexEncode (map (\<lambda>i. mxRandom m (mxPos m + i)) [0..<n]), m\<lparr>mxPos := mxPos m + n\<rparr>)"

definition mockAgents :: "string list" where
  "mockAgents = [''ans_3vQb7uL6x9'', ''ans_9yWc2kM4x1'', ''ans_1aB2cD3eF4'']"

definition mockOutcomes :: "string list" where
  "mockOutcomes = [''success'', ''failure'', ''partial'', ''denied'']"

definition mockActions :: "string list" where
  "mockActions = [''file.write'', ''file.read'', ''shell.exec'', ''http.post'', ''http.get'', ''agent.delegate'', ''db.query'', ''db.insert'']"

section \<open>Seeding\<close>

text \<open>
  The \<open>i\<close>-th seeded receipt, newest first: four draws in the order of the code, the previous
  hash first when there is none yet. The hash a receipt names is the identifier of the one before
  it in the list, that is of the newer receipt.
\<close>

definition seedReceipt :: "int \<Rightarrow> nat \<Rightarrow> string \<times> MockClient \<Rightarrow> string \<times> MockClient" where
  "seedReceipt now i s = (case s of (prevHash, m) \<Rightarrow>
     case randHex 16 m of (rid, m1) \<Rightarrow>
     case (if prevHash = [] then randHex 16 m1 else (prevHash, m1)) of (prev, m2) \<Rightarrow>
     case randHex 12 m2 of (snap, m3) \<Rightarrow>
     case randHex 32 m3 of (sig, m4) \<Rightarrow>
     (rid, m4\<lparr>mxReceipts := mxReceipts m4 @ [\<lparr>mtIndex = 1247 - int i, mtID = rid, mtPrevHash = prev, mtAgentID = mockAgents ! (i mod 3),
        mtActionType = mockActions ! (i mod 8), mtPhase = [''pre'', ''post''] ! (i mod 2), mtOutcome = mockOutcomes ! (i mod 4),
        mtDurationMS = 100 + (int i * 37) mod 5000, mtTimestamp = now - int i * 30 * 10 ^ 9, mtPolicyDecision = [''allow'', ''deny''] ! (i mod 2),
        mtPayloadSummary = ''payload data for receipt '' @ showInt (1247 - int i), mtSnapshotID = snap, mtSignature = sig\<rparr>]\<rparr>))"

definition seedPolicies :: "mPolicy list" where
  "seedPolicies =
    [\<lparr>moID = ''no-pii-on-open-models'', moName = ''Block PII on Open Models'', moEnabled = True, moPriority = 100, moSeverity = ''HIGH'', moEffect = ''deny'', moConditions = None\<rparr>,
     \<lparr>moID = ''rate-limit-shell-exec'', moName = ''Limit shell.exec rate'', moEnabled = True, moPriority = 50, moSeverity = ''MEDIUM'', moEffect = ''deny'', moConditions = None\<rparr>,
     \<lparr>moID = ''warn-large-payloads'', moName = ''Warn on large payloads'', moEnabled = False, moPriority = 10, moSeverity = ''LOW'', moEffect = ''warn'', moConditions = None\<rparr>]"

definition seedTokens :: "int \<Rightarrow> mToken list" where
  "seedTokens at =
    [\<lparr>mqID = ''cred_a1b2c3d4'', mqType = ''aws-sts'', mqAgentID = ''ans_3vQb7uL6x9'', mqResource = ''s3://prod-bucket/config.json'', mqPermissions = [''read''],
      mqExpiresAt = at + 60 * 10 ^ 9, mqIssuedAt = at, mqRevoked = False\<rparr>,
     \<lparr>mqID = ''cred_b2c3d4e5'', mqType = ''vault'', mqAgentID = ''ans_9yWc2kM4x1'', mqResource = ''vault://database/creds/readonly'', mqPermissions = [''read'', ''list''],
      mqExpiresAt = at + 45 * 10 ^ 9, mqIssuedAt = at, mqRevoked = False\<rparr>,
     \<lparr>mqID = ''cred_c3d4e5f6'', mqType = ''oauth2'', mqAgentID = ''ans_3vQb7uL6x9'', mqResource = ''gcp://project/sa/deployer'', mqPermissions = [''write''],
      mqExpiresAt = at + 30 * 10 ^ 9, mqIssuedAt = at, mqRevoked = False\<rparr>]"

text \<open>The status; \<open>reqs\<close> and \<open>toks\<close> are the thirty random samples each history starts with.\<close>

definition seedStatus :: "string list \<Rightarrow> string list \<Rightarrow> mMcp" where
  "seedStatus reqs toks = \<lparr>myRunning = True, myUptimeSeconds = 13320, myListenAddr = '':8080'', myTargetURL = ''http://localhost:9090'', myTotalMessages = 1523,
     myTotalTokens = 284501, myBurnRate = ''832.4'', myInjections = 3, myPruned = 47, myRateLimited = 2, myBudgetExceeded = 0, myPolicyDenied = 1, myToolsDenied = 0,
     myReqHistory = reqs, myTokHistory = toks\<rparr>"

definition seedLog :: "int \<Rightarrow> mLog list" where
  "seedLog now = map (\<lambda>i. \<lparr>mlTimestamp = now - int i * 3 * 10 ^ 9, mlDirection = [''request'', ''response''] ! (i mod 2),
     mlMethod = [''tools/call'', ''tools/list'', ''resources/read'', ''resources/list'', ''prompts/get'', ''tools/execute''] ! (i mod 6),
     mlTokenEstimate = 50 + (int i * 17) mod 2000, mlInjDetected = (i mod 17 = 0), mlPIIFound = (i mod 23 = 0),
     mlPolicyResult = [''allow'', ''allow'', ''allow'', ''deny''] ! (i mod 4), mlContentPreview = ''content excerpt for log entry '' @ showNat i\<rparr>) [0..<50]"

definition NewMock :: "(nat \<Rightarrow> char) \<Rightarrow> string list \<Rightarrow> string list \<Rightarrow> int \<Rightarrow> MockClient" where
  "NewMock rnd reqs toks now =
     snd (foldl (\<lambda>s i. seedReceipt now i s) ([], \<lparr>mxReceipts = [], mxCalls = 0, mxTokens = seedTokens now, mxPolicies = seedPolicies, mxRunning = False,
        mxStatus = seedStatus reqs toks, mxLog = seedLog now, mxIssued = now, mxRandom = rnd, mxPos = 0\<rparr>) [0..<50])"

section \<open>Methods\<close>

definition prependReceipt :: "int \<Rightarrow> MockClient \<Rightarrow> MockClient" where
  "prependReceipt now m = (let idx = 1248 + int (length (mxReceipts m)); i = length (mxReceipts m) mod 4 in
     case randHex 16 m of (rid, m1) \<Rightarrow> case randHex 12 m1 of (snap, m2) \<Rightarrow> case randHex 32 m2 of (sig, m3) \<Rightarrow>
     m3\<lparr>mxReceipts := \<lparr>mtIndex = idx, mtID = rid, mtPrevHash = (case mxReceipts m of [] \<Rightarrow> [] | r # _ \<Rightarrow> mtID r), mtAgentID = mockAgents ! (i mod 3),
        mtActionType = mockActions ! i, mtPhase = ''post'', mtOutcome = mockOutcomes ! i, mtDurationMS = 100 + (int i * 37) mod 5000, mtTimestamp = now,
        mtPolicyDecision = ''allow'', mtPayloadSummary = ''new payload for receipt '' @ showInt idx, mtSnapshotID = snap, mtSignature = sig\<rparr> # mxReceipts m3\<rparr>)"

text \<open>\<open>n > 0\<close> cuts a list that is longer.\<close>

definition cutTo :: "i64 \<Rightarrow> 'a list \<Rightarrow> 'a list" where
  "cutTo n xs = (if 0 < n \<and> n < int (length xs) then take (nat n) xs else xs)"

definition mockListReceipts :: "int \<Rightarrow> i64 \<Rightarrow> string \<Rightarrow> MockClient \<Rightarrow> mReceipt list \<times> MockClient" where
  "mockListReceipts now n agent m = (let
     m1 = m\<lparr>mxCalls := wrap64 (mxCalls m + 1)\<rparr>;
     m2 = (if 1 < mxCalls m1 then prependReceipt now m1 else m1)
   in (cutTo n (filter (\<lambda>r. agent = [] \<or> mtAgentID r = agent) (mxReceipts m2)), m2))"

definition mockDaemonStatus :: "MockClient \<Rightarrow> mStatus" where
  "mockDaemonStatus m = \<lparr>msRunning = True, msPID = 12345, msUptimeSeconds = 13320, msChainLength = int (length (mxReceipts m)), msAgentCount = 3,
     msDBSizeMB = ''4.2'', msChainVerified = True, msVersion = ''v0.1.0''\<rparr>"

definition mockCheck :: "string \<Rightarrow> string \<Rightarrow> string \<Rightarrow> mCheck option" where
  "mockCheck n v d = Some \<lparr>mkName = n, mkValue = v, mkStatus = ''ok'', mkDetail = d\<rparr>"

definition mockDoctor :: mReport where
  "mockDoctor = \<lparr>mrChecks = [mockCheck ''Socket'' ''~/.ans/daemon.sock'' ''exists mode 0600'', mockCheck ''Daemon PID'' ''12345'' ''running'',
      mockCheck ''Config'' ''~/.ans/config.json'' ''valid'', mockCheck ''Chain DB'' ''~/.ans/chain.db'' ''4.2 MB'', mockCheck ''Chain Length'' ''1,247 receipts'' [],
      mockCheck ''Chain Verify'' ''intact'' [], mockCheck ''Key Store'' ''3 agents'' [], mockCheck ''Snapshots'' ''47 files 5.8 MB'' []], mrAllOK = True\<rparr>"

definition mockVerifyChain :: "MockClient \<Rightarrow> bool \<times> int" where
  "mockVerifyChain m = (True, int (length (mxReceipts m)))"

definition mockListAgents :: "int \<Rightarrow> MockClient \<Rightarrow> mAgent list \<times> MockClient" where
  "mockListAgents now m = (case randHex 32 m of (k1, m1) \<Rightarrow> case randHex 32 m1 of (k2, m2) \<Rightarrow>
     ([\<lparr>maID = ''ans_3vQb7uL6x9'', maName = ''main-agent'', maVersion = ''1.0.0'', maOwner = ''acme-corp'', maPublicKey = k1, maCreatedAt = now - 72 * 3600 * 10 ^ 9\<rparr>,
       \<lparr>maID = ''ans_9yWc2kM4x1'', maName = ''backup-agent'', maVersion = ''1.0.0'', maOwner = ''acme-corp'', maPublicKey = k2, maCreatedAt = now - 48 * 3600 * 10 ^ 9\<rparr>], m2))"

definition mockRegisterAgent :: "int \<Rightarrow> string \<Rightarrow> string \<Rightarrow> string \<Rightarrow> MockClient \<Rightarrow> mAgent \<times> MockClient" where
  "mockRegisterAgent now name version owner m = (case randHex 10 m of (i, m1) \<Rightarrow> case randHex 32 m1 of (k, m2) \<Rightarrow>
     (\<lparr>maID = ''ans_'' @ i, maName = name, maVersion = version, maOwner = owner, maPublicKey = k, maCreatedAt = now\<rparr>, m2))"

definition mockRotateKey :: "string \<Rightarrow> MockClient \<Rightarrow> mAgent \<times> MockClient" where
  "mockRotateKey agent m = (case randHex 32 m of (k, m1) \<Rightarrow>
     (\<lparr>maID = agent, maName = [], maVersion = [], maOwner = [], maPublicKey = k, maCreatedAt = year1\<rparr>, m1))"

definition mockPrune :: "MockClient \<Rightarrow> string \<times> MockClient" where
  "mockPrune m = randHex 32 m"

fun mockSnapshots :: "int \<Rightarrow> string \<Rightarrow> nat list \<Rightarrow> MockClient \<Rightarrow> mSnapshot list \<times> MockClient" where
  "mockSnapshots now agent [] m = ([], m)"
| "mockSnapshots now agent (i # is) m = (case randHex 12 m of (rid, m1) \<Rightarrow> case mockSnapshots now agent is m1 of (ss, m2) \<Rightarrow>
     (\<lparr>mvID = rid, mvAgentID = agent, mvChainIndex = 1247 - int i, mvType = ''filesystem'', mvSizeBytes = 128000 + int i * 100,
       mvTimestamp = now - int i * 30 * 10 ^ 9, mvIsDiff = False, mvBaseID = []\<rparr> # ss, m2))"

definition mockListSnapshots :: "int \<Rightarrow> string \<Rightarrow> i64 \<Rightarrow> MockClient \<Rightarrow> mSnapshot list \<times> MockClient" where
  "mockListSnapshots now agent n m = mockSnapshots now agent [0..<10] m"

definition mockSnapshotTake :: "int \<Rightarrow> string \<Rightarrow> string \<Rightarrow> MockClient \<Rightarrow> mSnapshot \<times> MockClient" where
  "mockSnapshotTake now agent typ m = (case randHex 12 m of (rid, m1) \<Rightarrow>
     (\<lparr>mvID = rid, mvAgentID = agent, mvChainIndex = 0, mvType = typ, mvSizeBytes = 128000, mvTimestamp = now, mvIsDiff = False, mvBaseID = []\<rparr>, m1))"

definition mockSnapshotDiff :: string where
  "mockSnapshotDiff = ''MODIFIED  /etc/nginx/nginx.conf'' @ [CHR 0x0A] @ ''ADDED     /etc/nginx/conf.d/ssl.conf'' @ [CHR 0x0A] @ ''DELETED   /tmp/deploy.lock''"

definition mockCompensateDryRun :: "i64 \<Rightarrow> mPlan" where
  "mockCompensateDryRun i = \<lparr>mpSteps = [Some \<lparr>mcChainIndex = i, mcActionType = ''file.delete'', mcCommand = ''restore-backup.sh /etc/nginx/nginx.conf'', mcHasComp = True\<rparr>,
      Some \<lparr>mcChainIndex = wrap64 (i - 2), mcActionType = ''db.query'', mcCommand = [], mcHasComp = False\<rparr>], mpWouldRun = 1, mpSkipped = 1\<rparr>"

definition mockCompensate :: "i64 \<Rightarrow> mResult" where
  "mockCompensate i = \<lparr>mzRan = 1, mzFailed = 0, mzSteps = [\<lparr>mnChainIndex = i, mnCommand = ''restore-backup.sh'', mnExitCode = 0, mnStderr = []\<rparr>]\<rparr>"

definition mockListPolicies :: "MockClient \<Rightarrow> mPolicy list" where
  "mockListPolicies m = mxPolicies m"

definition mockPolicyAdd :: "MockClient \<Rightarrow> mPolicy \<times> MockClient" where
  "mockPolicyAdd m = (case randHex 16 m of (rid, m1) \<Rightarrow>
     let p = \<lparr>moID = rid, moName = ''custom-policy'', moEnabled = True, moPriority = 50, moSeverity = ''MEDIUM'', moEffect = ''deny'', moConditions = None\<rparr>
     in (p, m1\<lparr>mxPolicies := mxPolicies m1 @ [p]\<rparr>))"

definition mockPolicyRemove :: "string \<Rightarrow> MockClient \<Rightarrow> MockClient" where
  "mockPolicyRemove i m = m\<lparr>mxPolicies := filter (\<lambda>p. moID p \<noteq> i) (mxPolicies m)\<rparr>"

fun togglePolicy :: "string \<Rightarrow> bool \<Rightarrow> mPolicy list \<Rightarrow> mPolicy list" where
  "togglePolicy i e [] = []"
| "togglePolicy i e (p # ps) = (if moID p = i then p\<lparr>moEnabled := e\<rparr> # ps else p # togglePolicy i e ps)"

definition mockPolicyToggle :: "string \<Rightarrow> bool \<Rightarrow> MockClient \<Rightarrow> MockClient" where
  "mockPolicyToggle i e m = m\<lparr>mxPolicies := togglePolicy i e (mxPolicies m)\<rparr>"

definition mockPolicyEval :: "string \<Rightarrow> mEval" where
  "mockPolicyEval summary = (if summary \<noteq> [] then \<lparr>meAllowed = False, meDenyingPolicy = ''no-pii-on-open-models'', meDenyReason = ''Cannot send PII to open-weight models'',
       meErrorType = ''NociceptionError'', meErrorCode = ''0x1F'', meEvaluated = 3\<rparr>
     else \<lparr>meAllowed = True, meDenyingPolicy = [], meDenyReason = [], meErrorType = [], meErrorCode = [], meEvaluated = 3\<rparr>)"

definition mockListTokens :: "MockClient \<Rightarrow> mToken list" where
  "mockListTokens m = mxTokens m"

definition mockTokenRequest :: "int \<Rightarrow> int \<Rightarrow> string \<Rightarrow> string \<Rightarrow> i64 \<Rightarrow> MockClient \<Rightarrow> mToken \<times> MockClient" where
  "mockTokenRequest now now2 resource action ttl m = (case randHex 8 m of (rid, m1) \<Rightarrow>
     let t = \<lparr>mqID = ''cred_'' @ rid, mqType = ''aws-sts'', mqAgentID = ''ans_3vQb7uL6x9'', mqResource = resource, mqPermissions = [action],
       mqExpiresAt = now2 + wrap64 (ttl * 10 ^ 9), mqIssuedAt = now, mqRevoked = False\<rparr>
     in (t, m1\<lparr>mxTokens := mxTokens m1 @ [t]\<rparr>))"

definition mockTokenRevoke :: "string \<Rightarrow> MockClient \<Rightarrow> MockClient" where
  "mockTokenRevoke i m = m\<lparr>mxTokens := filter (\<lambda>t. mqID t \<noteq> i) (mxTokens m)\<rparr>"

text \<open>A history keeps its last sixty samples.\<close>

definition pushSample :: "string \<Rightarrow> string list \<Rightarrow> string list" where
  "pushSample x h = (let h1 = h @ [x] in if 60 < length h1 then drop 1 h1 else h1)"

definition mockMCPStatus :: "MockClient \<Rightarrow> mMcp \<times> MockClient" where
  "mockMCPStatus m = (let n = mxCalls m; st = mxStatus m;
     st1 = st\<lparr>myTotalMessages := wrap64 (myTotalMessages st + 1 + goRem n 5), myReqHistory := pushSample (showInt (5 + goRem n 20)) (myReqHistory st),
       myTokHistory := pushSample (showInt (200 + goRem n 800)) (myTokHistory st)\<rparr>
   in (st1, m\<lparr>mxStatus := st1, mxCalls := wrap64 (n + 1)\<rparr>))"

definition mockMCPStart :: "MockClient \<Rightarrow> MockClient" where
  "mockMCPStart m = m\<lparr>mxRunning := True\<rparr>"

definition mockMCPStop :: "MockClient \<Rightarrow> MockClient" where
  "mockMCPStop m = m\<lparr>mxRunning := False\<rparr>"

definition mockMCPLog :: "i64 \<Rightarrow> string \<Rightarrow> bool \<Rightarrow> MockClient \<Rightarrow> mLog list" where
  "mockMCPLog n meth injOnly m = cutTo n (filter (\<lambda>e. \<not> (injOnly \<and> \<not> mlInjDetected e) \<and> (meth = [] \<or> mlMethod e = meth)) (mxLog m))"

text \<open>The constant methods.\<close>

definition mockUpdate :: string where "mockUpdate = ''v0.2.0''"
definition mockExport :: int where "mockExport = 284000"

section \<open>The mock as the poller's client\<close>

definition found :: "'a list \<Rightarrow> client_err + 'a option list" where
  "found xs = Inr (map Some xs)"

definition mockOps :: "int \<Rightarrow> MockClient client_ops" where
  "mockOps now = \<lparr>coDaemonStatus = (\<lambda>m. (Inr (mockDaemonStatus m), m)), coListReceipts = (\<lambda>n a m. map_prod found id (mockListReceipts now n a m)),
     coMCPStatus = (\<lambda>m. map_prod Inr id (mockMCPStatus m)), coMCPLog = (\<lambda>n meth i m. (found (mockMCPLog n meth i m), m)),
     coListTokens = (\<lambda>m. (found (mockListTokens m), m)), coListSnapshots = (\<lambda>a n m. map_prod found id (mockListSnapshots now a n m)),
     coListPolicies = (\<lambda>m. (found (mockListPolicies m), m))\<rparr>"

section \<open>What its lists promise\<close>

lemma cutTo_length: "0 < n \<Longrightarrow> int (length (cutTo n xs)) \<le> n"
  by (simp add: cutTo_def)

lemma prependReceipt_receipts:
  "\<exists>r. mxReceipts (prependReceipt now m) = r # mxReceipts m \<and> mtIndex r = 1248 + int (length (mxReceipts m)) \<and>
     mtPrevHash r = (case mxReceipts m of [] \<Rightarrow> [] | r0 # _ \<Rightarrow> mtID r0)"
  by (simp add: prependReceipt_def randHex_def Let_def)

text \<open>
  A listing returns at most \<open>n\<close> receipts, all of the agent asked for; every listing but the
  first has put one new receipt, linked to the newest before it, in front.
\<close>

theorem mock_listing:
  assumes "mockListReceipts now n agent m = (rs, m')" and "0 < n"
  shows "int (length rs) \<le> n \<and> (\<forall>r\<in>set rs. agent = [] \<or> mtAgentID r = agent) \<and>
    (mxReceipts m' = mxReceipts m \<or> (\<exists>r. mxReceipts m' = r # mxReceipts m \<and> mtPrevHash r = (case mxReceipts m of [] \<Rightarrow> [] | r0 # _ \<Rightarrow> mtID r0)))"
proof -
  let ?m1 = "m\<lparr>mxCalls := wrap64 (mxCalls m + 1)\<rparr>"
  have m': "mxReceipts m' = mxReceipts m \<or> mxReceipts m' = mxReceipts (prependReceipt now ?m1)"
    and rs: "rs = cutTo n (filter (\<lambda>r. agent = [] \<or> mtAgentID r = agent) (mxReceipts m'))"
    using assms(1) by (auto simp: mockListReceipts_def Let_def split: if_splits)
  have "set rs \<subseteq> set (filter (\<lambda>r. agent = [] \<or> mtAgentID r = agent) (mxReceipts m'))" unfolding rs cutTo_def by (auto dest: in_set_takeD)
  moreover obtain r where "mxReceipts (prependReceipt now ?m1) = r # mxReceipts m" "mtPrevHash r = (case mxReceipts m of [] \<Rightarrow> [] | r0 # _ \<Rightarrow> mtID r0)"
    using prependReceipt_receipts [of now ?m1] by auto
  ultimately show ?thesis using m' cutTo_length [OF assms(2)] rs by auto
qed

end
