(* ===== verification/Export.thy ===== *)
theory Export
  imports ChainSystem McpText
begin

text \<open>
  The exports of the chain (\<open>internal/chain/export.go\<close>, \<open>export_parquet.go\<close>): JSON lines, CSV,
  the plain-text report and the rows of a Parquet file. \<open>encoding/csv\<close> and the compaction that
  \<open>json.Encoder\<close> applies to a raw message are modelled; formatting of times and the Parquet
  encoder are parameters. Database and writer failures are given by \<open>export_env\<close>.
\<close>

abbreviation newline :: char where "newline \<equiv> CHR 0x0A"

record export_env =
  xvQuery :: bool
  xvScan :: "nat \<Rightarrow> bool"
  xvRows :: bool
  xvWrite :: "nat \<Rightarrow> nat option"
  xvGot :: nat
  xvFlush :: "nat option"
  xvTime :: "string \<Rightarrow> i64 \<Rightarrow> string"

text \<open>
  \<open>xvScan k\<close> is a failing scan of the \<open>k\<close>-th row, \<open>xvRows\<close> what \<open>rows.Err()\<close> reports at the end;
  \<open>xvWrite k = Some n\<close> says that the \<open>k\<close>-th write fails after \<open>n\<close> bytes. A CSV writer is
  buffered: \<open>xvGot\<close> is how much of the text it had passed on when an error ended the export,
  \<open>xvFlush = Some n\<close> a final flush that fails after \<open>n\<close> bytes.
\<close>

datatype export_err = ExQuery | ExScan | ExWrite | ExRows | ExCorrupt | ExJson

text \<open>\<open>buildExportQuery\<close>: the matching rows in chain order.\<close>

definition exportRows :: "QueryOptions \<Rightarrow> Chain \<Rightarrow> receipt_row list" where
  "exportRows q c = sort_key chain_index (filter (matchesQuery q) (receipts (db c)))"

section \<open>JSON lines\<close>

text \<open>\<open>json.Compact\<close>: white space outside strings is dropped; the flags are \<open>in a string\<close> and \<open>after a backslash\<close>.\<close>

fun compactText :: "bool \<Rightarrow> bool \<Rightarrow> string \<Rightarrow> string" where
  "compactText str esc [] = []"
| "compactText False esc (c # s) = (if byte c \<in> {32, 9, 10, 13} then compactText False False s else c # compactText (c = quote) False s)"
| "compactText True False (c # s) = c # (if c = bslash then compactText True True s else compactText (c \<noteq> quote) False s)"
| "compactText True True (c # s) = c # compactText True False s"

definition encodeRaw :: "bytes \<Rightarrow> bytes option" where
  "encodeRaw raw = (case jsonParse raw of None \<Rightarrow> None | Some v \<Rightarrow> Some (compactText False False raw @ [newline]))"

fun jsonlRows :: "export_env \<Rightarrow> nat \<Rightarrow> receipt_row list \<Rightarrow> export_err option \<times> bytes" where
  "jsonlRows X k [] = (if xvRows X then Some ExRows else None, [])"
| "jsonlRows X k (row # rows) =
     (if xvScan X k then (Some ExScan, [])
      else (case encodeRaw (raw_receipt row) of None \<Rightarrow> (Some ExJson, []) | Some line \<Rightarrow>
        (case xvWrite X k of Some n \<Rightarrow> (Some ExWrite, take n line) | None \<Rightarrow>
         (case jsonlRows X (k + 1) rows of (e, out) \<Rightarrow> (e, line @ out)))))"

definition ExportJSONL :: "export_env \<Rightarrow> QueryOptions \<Rightarrow> Chain \<Rightarrow> export_err option \<times> bytes" where
  "ExportJSONL X q c = (if xvQuery X then (Some ExQuery, []) else jsonlRows X 0 (exportRows q c))"

section \<open>CSV\<close>

text \<open>\<open>csv.Writer\<close> with its defaults: comma, line feed, quotes where needed.\<close>

definition fieldNeedsQuotes :: "string \<Rightarrow> bool" where
  "fieldNeedsQuotes f \<longleftrightarrow> f \<noteq> [] \<and>
     (f = [bslash, CHR ''.''] \<or> newline \<in> set f \<or> CHR 0x0D \<in> set f \<or> quote \<in> set f \<or> CHR '','' \<in> set f \<or> dropRune spaceRunes f \<noteq> 0)"

definition csvField :: "string \<Rightarrow> string" where
  "csvField f = (if fieldNeedsQuotes f then quote # concat (map (\<lambda>c. if c = quote then [quote, quote] else [c]) f) @ [quote] else f)"

definition csvRecord :: "string list \<Rightarrow> string" where
  "csvRecord fs = joinWith '','' (map csvField fs) @ [newline]"

definition csvHeader :: "string list" where
  "csvHeader = [''chain_index'', ''receipt_id'', ''phase'', ''agent_id'', ''action_type'', ''policy_decision'', ''outcome'', ''duration_ms'',
     ''timestamp'', ''payload_summary'', ''outcome_summary'', ''prev_receipt_hash'']"

definition csvReceipt :: "export_env \<Rightarrow> Receipt \<Rightarrow> string list" where
  "csvReceipt X r = [showNat (unat (ChainIndex r)), ReceiptID r, Phase r, AgentID r, ActionType r, PolicyDecision r, Outcome r,
     showInt (DurationMS r), xvTime X ''2006-01-02T15:04:05.999999999Z07:00'' (TimestampNS r), PayloadSummary r, OutcomeSummary r, PrevReceiptHash r]"

fun csvRows :: "export_env \<Rightarrow> nat \<Rightarrow> receipt_row list \<Rightarrow> export_err option \<times> bytes" where
  "csvRows X k [] = (None, [])"
| "csvRows X k (row # rows) =
     (if xvScan X k then (Some ExScan, [])
      else (case unmarshalReceipt (raw_receipt row) of None \<Rightarrow> (Some ExCorrupt, []) | Some r \<Rightarrow>
        (case xvWrite X (k + 1) of Some n \<Rightarrow> (Some ExWrite, take n (csvRecord (csvReceipt X r))) | None \<Rightarrow>
         (case csvRows X (k + 1) rows of (e, out) \<Rightarrow> (e, csvRecord (csvReceipt X r) @ out)))))"

text \<open>The error of the final flush is not looked at.\<close>

definition ExportCSV :: "export_env \<Rightarrow> QueryOptions \<Rightarrow> Chain \<Rightarrow> export_err option \<times> bytes" where
  "ExportCSV X q c = (case xvWrite X 0 of Some n \<Rightarrow> (Some ExWrite, take (xvGot X) (take n (csvRecord csvHeader))) | None \<Rightarrow>
     if xvQuery X then (Some ExQuery, take (xvGot X) (csvRecord csvHeader))
     else (case csvRows X 0 (exportRows q c) of
       (Some e, out) \<Rightarrow> (Some e, take (xvGot X) (csvRecord csvHeader @ out))
     | (None, out) \<Rightarrow> (if xvRows X then Some ExRows else None,
          case xvFlush X of None \<Rightarrow> csvRecord csvHeader @ out | Some n \<Rightarrow> take n (csvRecord csvHeader @ out))))"

section \<open>The text report\<close>

definition padRight :: "nat \<Rightarrow> string \<Rightarrow> string" where
  "padRight n s = s @ replicate (n - length (runesOf s)) (CHR '' '')"

definition safeID :: "string \<Rightarrow> string" where
  "safeID i = (if 8 \<le> length i then take 8 i else i)"

definition reportStatus :: "Receipt \<Rightarrow> string" where
  "reportStatus r = (if Phase r = ''post'' \<and> Outcome r = ''success'' then ''OK''
     else if Phase r = ''post'' \<and> Outcome r = ''failure'' then ''FAIL'' else ''->'')"

definition rule1 :: string where "rule1 = replicate 65 (CHR ''='') @ [newline]"
definition rule2 :: string where "rule2 = replicate 65 (CHR ''-'') @ [newline]"

definition reportReceipt :: "(string \<Rightarrow> i64 \<Rightarrow> string) \<Rightarrow> Receipt \<Rightarrow> string" where
  "reportReceipt fmt r = ''['' @ fmt ''2006-01-02 15:04:05'' (TimestampNS r) @ ''] '' @ padRight 4 (reportStatus r) @ '' '' @ safeID (ReceiptID r) @ '' '' @
     padRight 20 (ActionType r) @ '' '' @ PayloadSummary r @ [newline]"

text \<open>The layout \<open>time.RFC3339\<close>, and the head of the report from the statistics and the verdict.\<close>

definition rfc3339 :: string where "rfc3339 = ''2006-01-02T15:04:05Z07:00''"

definition reportHead :: "(string \<Rightarrow> i64 \<Rightarrow> string) \<Rightarrow> (verification_error \<Rightarrow> string) \<Rightarrow> i64 \<Rightarrow> Stats \<Rightarrow> VerificationResult \<Rightarrow> string" where
  "reportHead fmt errText now st res =
     rule1 @ ''  ANS AUDIT REPORT'' @ [newline] @ rule1 @ [newline] @
     ''Generated:      '' @ fmt rfc3339 now @ [newline, newline] @
     ''Total receipts: '' @ showInt (TotalReceipts st) @ [newline] @
     ''Total agents:   '' @ showInt (TotalAgents st) @ [newline] @
     ''Chain length:   '' @ showNat (unat (ChainLength st)) @ [newline] @
     (if 0 < OldestReceiptNS st then ''Oldest:         '' @ fmt rfc3339 (OldestReceiptNS st) @ [newline] @
        ''Newest:         '' @ fmt rfc3339 (NewestReceiptNS st) @ [newline] else []) @
     [newline] @ ''INTEGRITY'' @ [newline] @ rule2 @
     (if Valid res then ''PASS - '' @ showInt (TotalChecked res) @ '' receipts verified'' @ [newline, newline]
      else ''FAIL at index '' @ showInt (FirstBrokenAt res) @ '': '' @ errText (VError res) @ [newline, newline]) @
     ''RECEIPTS (most recent 50)'' @ [newline] @ rule2"

text \<open>
  \<open>ExportTextReport\<close>: \<open>sf\<close>, \<open>vf\<close> and \<open>lf\<close> are the failures of the statistics, the verification
  and the listing; write errors are ignored, so the bytes are those handed to the writer.
\<close>

definition ExportTextReport ::
  "crypto \<Rightarrow> (string \<Rightarrow> i64 \<Rightarrow> string) \<Rightarrow> (verification_error \<Rightarrow> string) \<Rightarrow> i64 \<Rightarrow> bool \<times> int \<times> int \<Rightarrow> verify_faults \<Rightarrow> bool \<times> bool \<Rightarrow> Chain
   \<Rightarrow> (chain_error, unit) go \<times> bytes" where
  "ExportTextReport C fmt errText now sf vf lf c =
     (case GetStats (fst sf) (fst (snd sf)) (snd (snd sf)) c of
        Err e \<Rightarrow> (Err e, []) | Panic \<Rightarrow> (Panic, [])
      | Ok st \<Rightarrow> (case VerifyChain C vf None c of
          Ok res \<Rightarrow> (case ListReceipts (fst lf) (snd lf) (noFilter\<lparr>qLimit := 50\<rparr>) c of
              Ok rs \<Rightarrow> (Ok (), reportHead fmt errText now st res @ concat (map (reportReceipt fmt) rs))
            | Err e \<Rightarrow> (Err e, reportHead fmt errText now st res)
            | Panic \<Rightarrow> (Panic, reportHead fmt errText now st res))
        | _ \<Rightarrow> (Panic, [])))"

section \<open>Parquet\<close>

record parquetRow =
  pqChainIndex :: i64
  pqReceiptID :: string
  pqPhase :: string
  pqAgentID :: string
  pqParentAgentID :: string
  pqActionType :: string
  pqPayloadHash :: string
  pqPayloadSummary :: string
  pqPolicyDecision :: string
  pqAuthorizingContext :: string
  pqOutcome :: string
  pqOutcomeSummary :: string
  pqDurationMS :: i64
  pqPreReceiptID :: string
  pqPrevReceiptHash :: string
  pqReceiptHash :: string
  pqTimestampNS :: i64
  pqTimestampRFC3339 :: string

definition rowFromReceipt :: "crypto \<Rightarrow> export_env \<Rightarrow> Receipt \<Rightarrow> parquetRow" where
  "rowFromReceipt C X r = \<lparr>pqChainIndex = sint (ChainIndex r), pqReceiptID = ReceiptID r, pqPhase = Phase r, pqAgentID = AgentID r,
     pqParentAgentID = ParentAgentID r, pqActionType = ActionType r, pqPayloadHash = PayloadHash r, pqPayloadSummary = PayloadSummary r,
     pqPolicyDecision = PolicyDecision r, pqAuthorizingContext = AuthorizingContext r, pqOutcome = Outcome r, pqOutcomeSummary = OutcomeSummary r,
     pqDurationMS = DurationMS r, pqPreReceiptID = PreReceiptID r, pqPrevReceiptHash = PrevReceiptHash r, pqReceiptHash = fst (ComputeHash C r),
     pqTimestampNS = TimestampNS r, pqTimestampRFC3339 = xvTime X ''2006-01-02T15:04:05.999999999Z07:00'' (TimestampNS r)\<rparr>"

fun parquetRows :: "crypto \<Rightarrow> export_env \<Rightarrow> nat \<Rightarrow> receipt_row list \<Rightarrow> export_err + parquetRow list" where
  "parquetRows C X k [] = (if xvRows X then Inl ExRows else Inr [])"
| "parquetRows C X k (row # rows) =
     (if xvScan X k then Inl ExScan
      else (case unmarshalReceipt (raw_receipt row) of None \<Rightarrow> Inl ExCorrupt | Some r \<Rightarrow>
        map_sum id (Cons (rowFromReceipt C X r)) (parquetRows C X (k + 1) rows)))"

text \<open>
  \<open>ExportParquet\<close>: the rows that reach the Parquet writer, and whether that file was finished.
  Without rows no writer is made and nothing is written. \<open>xvFlush\<close> is a failing \<open>Close\<close>.
\<close>

definition ExportParquet :: "crypto \<Rightarrow> export_env \<Rightarrow> QueryOptions \<Rightarrow> Chain \<Rightarrow> export_err option \<times> parquetRow list option" where
  "ExportParquet C X q c = (if xvQuery X then (Some ExQuery, None)
     else (case parquetRows C X 0 (exportRows q c) of
       Inl e \<Rightarrow> (Some e, None)
     | Inr rs \<Rightarrow> if rs = [] then (None, None)
         else (case find (\<lambda>k. xvWrite X k \<noteq> None) [0..<length rs] of
             Some k \<Rightarrow> (Some ExWrite, Some (take k rs))
           | None \<Rightarrow> (if xvFlush X = None then None else Some ExWrite, Some rs))))"

section \<open>Compaction leaves what the program encodes alone\<close>

definition bodyOk :: "string \<Rightarrow> bool" where
  "bodyOk t \<longleftrightarrow> newline \<notin> set t \<and> (\<forall>rest. compactText True False (t @ rest) = t @ compactText True False rest)"

lemma bodyOk_append: "bodyOk t \<Longrightarrow> bodyOk u \<Longrightarrow> bodyOk (t @ u)"
  by (simp add: bodyOk_def)

lemma bodyOk_Nil [simp]: "bodyOk []"
  by (simp add: bodyOk_def)

lemma bodyOk_plain: "\<forall>c\<in>set t. c \<noteq> quote \<and> c \<noteq> bslash \<and> c \<noteq> newline \<Longrightarrow> bodyOk t"
proof (induction t)
  case (Cons c t)
  then have "bodyOk t" "c \<noteq> quote" "c \<noteq> bslash" "c \<noteq> newline" by auto
  then show ?case by (simp add: bodyOk_def)
qed simp

lemma bodyOk_escape: "c \<noteq> newline \<Longrightarrow> bodyOk t \<Longrightarrow> bodyOk (bslash # c # t)"
  by (simp add: bodyOk_def)

lemma hexdig_plain: "n < 16 \<Longrightarrow> hexdig n \<noteq> quote \<and> hexdig n \<noteq> bslash \<and> hexdig n \<noteq> newline"
proof -
  assume "n < 16"
  then have "n \<in> {0, 1, 2, 3, 4, 5, 6, 7, 8, 9, 10, 11, 12, 13, 14, 15}" by simp presburger
  then show ?thesis by (auto simp: hexdig_def char_of_eq_iff take_bit_eq_mod)
qed

lemma bodyOk_jsonEscape: "byte c < 128 \<Longrightarrow> bodyOk (jsonEscape c)"
proof -
  assume "byte c < 128"
  then have "byte c div 16 < 16" by simp
  then have "bodyOk [hexdig (byte c div 16), hexdig (byte c mod 16)]" using hexdig_plain by (intro bodyOk_plain) simp
  then have u: "bodyOk (bslash # CHR ''u'' # ''00'' @ [hexdig (byte c div 16), hexdig (byte c mod 16)])"
    by (intro bodyOk_escape bodyOk_append) (auto intro: bodyOk_plain)
  have "bodyOk [c]" if "c \<noteq> quote" "c \<noteq> bslash" "c \<noteq> newline" using that by (intro bodyOk_plain) simp
  moreover have "c = quote \<longleftrightarrow> byte c = 34" "c = bslash \<longleftrightarrow> byte c = 92" "c = newline \<longleftrightarrow> byte c = 10"
    by (auto dest: byte_eq_charI simp: char_of_eq_iff take_bit_eq_mod)
  ultimately show ?thesis using u by (auto simp: jsonEscape_def Let_def intro!: bodyOk_escape)
qed

lemma utf8_chunk_high: "utf8Len s = Some n \<Longrightarrow> 128 \<le> byte (hd s) \<Longrightarrow> c \<in> set (take n s) \<Longrightarrow> 128 \<le> byte c"
  by (cases s) (auto simp: utf8Len.simps cont_def Let_def split: if_splits list.splits)

lemma bodyOk_jsonBody: "bodyOk (jsonBody s)"
proof (induction s rule: jsonBody.induct)
  case (1 s)
  have esc: "bodyOk (bslash # CHR ''u'' # t)" if "\<forall>c\<in>set t. c \<noteq> quote \<and> c \<noteq> bslash \<and> c \<noteq> newline" for t
    using that by (intro bodyOk_escape bodyOk_plain) auto
  show ?case
  proof (cases s)
    case (Cons c cs)
    show ?thesis
    proof (cases "byte c < 128")
      case True
      then show ?thesis using "1.IH"(1) [OF Cons] Cons bodyOk_jsonEscape by (subst jsonBody.simps) (simp add: bodyOk_append)
    next
      case False
      show ?thesis
      proof (cases "utf8Len s")
        case None
        have "bodyOk ((bslash # ''ufffd'') @ jsonBody cs)"
          using "1.IH"(2) [OF Cons False None] by (intro bodyOk_append) (simp_all add: esc)
        then show ?thesis using Cons None False by (subst jsonBody.simps) simp
      next
        case (Some n)
        have IH: "bodyOk (jsonBody (drop n s))" using "1.IH"(3) [OF Cons False Some] .
        have "\<forall>c\<in>set (take n s). 128 \<le> byte c" using utf8_chunk_high [OF Some] Cons False by auto
        then have "bodyOk (take n s)" by (intro bodyOk_plain) auto
        moreover have "bodyOk (bslash # ''u2028'')" "bodyOk (bslash # ''u2029'')" by (simp_all add: esc)
        ultimately show ?thesis
          using Cons False Some IH bodyOk_append [OF _ IH] by (subst jsonBody.simps) auto
      qed
    qed
  qed (subst jsonBody.simps, simp)
qed

definition tight :: "string \<Rightarrow> bool" where
  "tight t \<longleftrightarrow> newline \<notin> set t \<and> (\<forall>rest. compactText False False (t @ rest) = t @ compactText False False rest)"

lemma tight_append: "tight t \<Longrightarrow> tight u \<Longrightarrow> tight (t @ u)"
  by (simp add: tight_def)

lemma tight_plain: "\<forall>c\<in>set t. byte c \<notin> {32, 9, 10, 13, 34} \<Longrightarrow> tight t"
proof (induction t)
  case (Cons c t)
  then have "tight t" "byte c \<notin> {32, 9, 10, 13, 34}" by auto
  moreover from this have "c \<noteq> quote" "c \<noteq> newline" by auto
  ultimately show ?case by (simp add: tight_def)
qed (simp add: tight_def)

lemma tight_marks [simp]: "tight '',''" "tight '':''" "tight ''[''" "tight '']''" "tight ''{''" "tight ''}''" "tight ''null''" "tight ''true''" "tight ''false''"
  by (rule tight_plain, simp)+

lemma tight_jsonString: "tight (jsonString s)"
  using bodyOk_jsonBody [of s] by (simp add: tight_def jsonString_def bodyOk_def)

lemma tight_joinWith: "(\<And>x. x \<in> set xs \<Longrightarrow> tight x) \<Longrightarrow> tight sep \<Longrightarrow> tight (joinWith sep xs)"
  by (induction xs) (auto simp: joinWith_Cons intro: tight_append tight_plain)

lemma tight_showInt: "tight (showInt i)"
proof (rule tight_plain)
  have "is_digit c" if "c \<in> set (showNat n)" for c n using list_all_showNat that by (auto simp: list_all_iff)
  then have "byte c = 45 \<or> is_digit c" if "c \<in> set (showInt i)" for c using that by (auto simp: showInt_def split: if_splits)
  then show "\<forall>c\<in>set (showInt i). byte c \<notin> {32, 9, 10, 13, 34}" by (force simp: is_digit_def)
qed

lemma tight_jsonEnc: "json_ok v \<Longrightarrow> tight (jsonEnc v)"
proof (induction v rule: jsonEnc.induct)
  case (5 vs)
  have "tight (joinWith '','' (map jsonEnc vs))" using 5 by (intro tight_joinWith) auto
  then have "tight (''['' @ joinWith '','' (map jsonEnc vs) @ '']'')" by (intro tight_append) simp_all
  then show ?case by simp
next
  case (6 ms)
  let ?f = "\<lambda>(k, v). jsonString k @ '':'' @ jsonEnc v"
  have "tight (?f m)" if "m \<in> set ms" for m
    using 6 that by (cases m) (force intro!: tight_append tight_jsonString simp del: append_Cons append_Nil)
  then have "tight (joinWith '','' (map ?f ms))" by (intro tight_joinWith) auto
  then have "tight (''{'' @ joinWith '','' (map ?f ms) @ ''}'')" by (intro tight_append) simp_all
  then show ?case by simp
qed (auto simp: tight_jsonString tight_showInt)

section \<open>A reader for CSV\<close>

text \<open>RFC 4180 with line feeds: the state, the field and the record read so far, the rest of the text.\<close>

datatype csv_state = FieldStart | Unquoted | Quoted | AfterQuote

fun csvRead :: "csv_state \<Rightarrow> string \<Rightarrow> string list \<Rightarrow> string \<Rightarrow> string list list option" where
  "csvRead st f r [] = (if st = FieldStart \<and> r = [] then Some [] else None)"
| "csvRead FieldStart f r (c # s) =
     (if c = quote then csvRead Quoted [] r s
      else if c = CHR '','' then csvRead FieldStart [] (r @ [[]]) s
      else if c = newline then map_option (Cons (r @ [[]])) (csvRead FieldStart [] [] s)
      else csvRead Unquoted [c] r s)"
| "csvRead Unquoted f r (c # s) =
     (if c = quote then None
      else if c = CHR '','' then csvRead FieldStart [] (r @ [f]) s
      else if c = newline then map_option (Cons (r @ [f])) (csvRead FieldStart [] [] s)
      else csvRead Unquoted (f @ [c]) r s)"
| "csvRead Quoted f r (c # s) = (if c = quote then csvRead AfterQuote f r s else csvRead Quoted (f @ [c]) r s)"
| "csvRead AfterQuote f r (c # s) =
     (if c = quote then csvRead Quoted (f @ [quote]) r s
      else if c = CHR '','' then csvRead FieldStart [] (r @ [f]) s
      else if c = newline then map_option (Cons (r @ [f])) (csvRead FieldStart [] [] s)
      else None)"

definition csvParse :: "string \<Rightarrow> string list list option" where
  "csvParse s = csvRead FieldStart [] [] s"

lemma csvRead_unquoted:
  "\<forall>c\<in>set t. c \<noteq> quote \<and> c \<noteq> CHR '','' \<and> c \<noteq> newline \<Longrightarrow> csvRead Unquoted f r (t @ s) = csvRead Unquoted (f @ t) r s"
  by (induction t arbitrary: f) auto

lemma csvRead_quoted:
  "csvRead Quoted f r (concat (map (\<lambda>c. if c = quote then [quote, quote] else [c]) t) @ s) = csvRead Quoted (f @ t) r s"
  by (induction t arbitrary: f) auto

text \<open>After a field comes its separator, and the reader has the field.\<close>

lemma csvRead_field:
  "csvRead FieldStart [] r (csvField f @ CHR '','' # s) = csvRead FieldStart [] (r @ [f]) s"
  "csvRead FieldStart [] r (csvField f @ newline # s) = map_option (Cons (r @ [f])) (csvRead FieldStart [] [] s)"
proof -
  have "csvRead FieldStart [] r (csvField f @ CHR '','' # s) = csvRead FieldStart [] (r @ [f]) s \<and>
      csvRead FieldStart [] r (csvField f @ newline # s) = map_option (Cons (r @ [f])) (csvRead FieldStart [] [] s)"
  proof (cases "fieldNeedsQuotes f")
    case True
    then show ?thesis by (simp add: csvField_def csvRead_quoted)
  next
    case False
    then have "\<forall>c\<in>set f. c \<noteq> quote \<and> c \<noteq> CHR '','' \<and> c \<noteq> newline" by (auto simp: fieldNeedsQuotes_def)
    then show ?thesis using False by (cases f) (simp_all add: csvField_def csvRead_unquoted)
  qed
  then show "csvRead FieldStart [] r (csvField f @ CHR '','' # s) = csvRead FieldStart [] (r @ [f]) s"
    "csvRead FieldStart [] r (csvField f @ newline # s) = map_option (Cons (r @ [f])) (csvRead FieldStart [] [] s)" by simp_all
qed

lemma csvRead_record: "fs \<noteq> [] \<Longrightarrow> csvRead FieldStart [] r (csvRecord fs @ s) = map_option (Cons (r @ fs)) (csvRead FieldStart [] [] s)"
proof (induction fs arbitrary: r)
  case (Cons f fs)
  show ?case
  proof (cases "fs = []")
    case True
    then show ?thesis by (simp add: csvRecord_def csvRead_field)
  next
    case False
    then have "csvRecord (f # fs) @ s = csvField f @ CHR '','' # csvRecord fs @ s" by (simp add: csvRecord_def joinWith_Cons)
    then show ?thesis using Cons.IH [OF False, of "r @ [f]"] by (simp add: csvRead_field)
  qed
qed simp

lemma csvParse_records: "\<forall>fs\<in>set recs. fs \<noteq> [] \<Longrightarrow> csvParse (concat (map csvRecord recs)) = Some recs"
  by (induction recs) (simp_all add: csvParse_def csvRead_record)

section \<open>What the exports contain\<close>

definition noExportFaults :: "export_env \<Rightarrow> bool" where
  "noExportFaults X \<longleftrightarrow> \<not> xvQuery X \<and> (\<forall>k. \<not> xvScan X k) \<and> \<not> xvRows X \<and> (\<forall>k. xvWrite X k = None) \<and> xvFlush X = None"

text \<open>On a well-formed chain every row is the stored form of the receipt it decodes to.\<close>

lemma rows_stored:
  "list_all (row_ok C K) rows \<Longrightarrow> \<exists>rs. rows = map (storedRow C) rs \<and>
     (\<forall>r\<in>set rs. receipt_utf8 r \<and> bare r = r \<and> Verify C r (edPublic C (K (AgentID r))) = Ok ())"
proof (induction rows)
  case (Cons row rows)
  obtain r where "row = storedRow C r" "receipt_utf8 r \<and> bare r = r \<and> Verify C r (edPublic C (K (AgentID r))) = Ok ()"
    using Cons.prems by (auto elim: row_okE)
  moreover obtain rs where "rows = map (storedRow C) rs"
    "\<forall>r\<in>set rs. receipt_utf8 r \<and> bare r = r \<and> Verify C r (edPublic C (K (AgentID r))) = Ok ()" using Cons by auto
  ultimately show ?case by (intro exI [of _ "r # rs"]) simp
qed simp

lemma exportRows_inv:
  assumes "chain_inv C K c"
  shows "exportRows q c = filter (matchesQuery q) (receipts (db c))"
    and "\<exists>rs. exportRows q c = map (storedRow C) rs \<and> (\<forall>r\<in>set rs. receipt_utf8 r \<and> bare r = r)"
proof -
  have "sorted (map chain_index (receipts (db c)))" using assms chained_sorted by (auto simp: chain_inv_def Let_def)
  then show ex: "exportRows q c = filter (matchesQuery q) (receipts (db c))"
    unfolding exportRows_def sort_key_filter_comm by (simp add: sort_key_sorted_id)
  have "list_all (row_ok C K) (filter (matchesQuery q) (receipts (db c)))" using assms by (auto simp: chain_inv_def Let_def list_all_iff)
  then show "\<exists>rs. exportRows q c = map (storedRow C) rs \<and> (\<forall>r\<in>set rs. receipt_utf8 r \<and> bare r = r)" unfolding ex using rows_stored by blast
qed

lemma decode_stored: "receipt_utf8 r \<Longrightarrow> bare r = r \<Longrightarrow> unmarshalReceipt (raw_receipt (storedRow C r)) = Some r"
  using unmarshal_marshal [of r] by simp

lemma receipt_json_ok: "receipt_utf8 r \<Longrightarrow> json_ok (JObj (receiptFields r))"
  using receiptFields_flat [of r] by (auto simp: flat_ok_def)

lemma encodeRaw_stored:
  assumes "receipt_utf8 r"
  shows "encodeRaw (marshalReceipt r) = Some (marshalReceipt r @ [newline])" and "newline \<notin> set (marshalReceipt r)"
proof -
  have t: "tight (marshalReceipt r)" unfolding marshalReceipt_def by (rule tight_jsonEnc [OF receipt_json_ok [OF assms]])
  then show "newline \<notin> set (marshalReceipt r)" by (simp add: tight_def)
  have "compactText False False (marshalReceipt r @ []) = marshalReceipt r @ compactText False False []" using t unfolding tight_def by blast
  moreover have "jsonParse (marshalReceipt r) \<noteq> None"
    unfolding marshalReceipt_def using jsonParse_flat [OF receiptFields_flat [OF assms]] by simp
  ultimately show "encodeRaw (marshalReceipt r) = Some (marshalReceipt r @ [newline])" by (auto simp: encodeRaw_def)
qed

lemma splitOn_append_sep: "sep \<notin> set t \<Longrightarrow> splitOn sep (t @ sep # s) = t # splitOn sep s"
  by (induction t) auto

lemma jsonlRows_stored:
  assumes "noExportFaults X" "\<forall>r\<in>set rs. receipt_utf8 r"
  shows "jsonlRows X k (map (storedRow C) rs) = (None, concat (map (\<lambda>r. marshalReceipt r @ [newline]) rs))"
  using assms(2)
proof (induction rs arbitrary: k)
  case Nil
  then show ?case using assms(1) by (simp add: noExportFaults_def)
next
  case (Cons r rs)
  then show ?case using assms(1) encodeRaw_stored(1) [of r] by (simp add: noExportFaults_def)
qed

lemma export_jsonl_lines:
  assumes "noExportFaults X" "exportRows q c = map (storedRow C) rs" "\<forall>r\<in>set rs. receipt_utf8 r"
  shows "\<exists>out. ExportJSONL X q c = (None, out) \<and> splitOn newline out = map marshalReceipt rs @ [[]]"
proof -
  have "splitOn newline (concat (map (\<lambda>r. marshalReceipt r @ [newline]) rs)) = map marshalReceipt rs @ [[]]"
    using assms(3) by (induction rs) (simp_all add: splitOn_append_sep encodeRaw_stored(2))
  then show ?thesis using assms jsonlRows_stored [OF assms(1,3), of 0 C] by (simp add: ExportJSONL_def noExportFaults_def)
qed

lemma csvRows_stored:
  assumes "noExportFaults X" "\<forall>r\<in>set rs. receipt_utf8 r \<and> bare r = r"
  shows "csvRows X k (map (storedRow C) rs) = (None, concat (map (\<lambda>r. csvRecord (csvReceipt X r)) rs))"
  using assms(2)
proof (induction rs arbitrary: k)
  case (Cons r rs)
  then show ?case using assms(1) decode_stored [of r C] by (simp add: noExportFaults_def)
qed simp

lemma parquetRows_stored:
  assumes "noExportFaults X" "\<forall>r\<in>set rs. receipt_utf8 r \<and> bare r = r"
  shows "parquetRows C X k (map (storedRow C) rs) = Inr (map (rowFromReceipt C X) rs)"
  using assms(2)
proof (induction rs arbitrary: k)
  case Nil
  then show ?case using assms(1) by (simp add: noExportFaults_def)
next
  case (Cons r rs)
  then show ?case using assms(1) decode_stored [of r C] by (simp add: noExportFaults_def)
qed

text \<open>
  C36. Exports are faithful. On a well-formed chain, when nothing fails, the three machine-readable
  exports hold exactly the receipts that match the query, in chain order: the lines of the JSON
  export are the bytes that were hashed and stored, so every receipt can be verified from the file;
  a CSV reader gets back the header and one record per receipt whatever commas, quotes and line
  breaks the summaries contain; and each Parquet row carries the hash stored for its receipt.
\<close>

theorem exports_faithful:
  assumes "chain_inv C K c" and "noExportFaults X"
  shows "\<exists>rs. filter (matchesQuery q) (receipts (db c)) = map (storedRow C) rs \<and>
    (\<exists>out. ExportJSONL X q c = (None, out) \<and> splitOn newline out = map marshalReceipt rs @ [[]]) \<and>
    (\<exists>out. ExportCSV X q c = (None, out) \<and> csvParse out = Some (csvHeader # map (csvReceipt X) rs)) \<and>
    ExportParquet C X q c = (None, if rs = [] then None else Some (map (rowFromReceipt C X) rs)) \<and>
    map (\<lambda>r. pqReceiptHash (rowFromReceipt C X r)) rs = map (\<lambda>r. receipt_hash (storedRow C r)) rs"
proof -
  note rows = exportRows_inv(1) [OF assms(1), of q]
  obtain rs where rs: "exportRows q c = map (storedRow C) rs" "\<forall>r\<in>set rs. receipt_utf8 r \<and> bare r = r"
    using exportRows_inv(2) [OF assms(1)] by blast
  have "\<exists>out. ExportJSONL X q c = (None, out) \<and> splitOn newline out = map marshalReceipt rs @ [[]]"
    using export_jsonl_lines [OF assms(2) rs(1)] rs(2) by blast
  moreover have "ExportCSV X q c = (None, csvRecord csvHeader @ concat (map (\<lambda>r. csvRecord (csvReceipt X r)) rs))"
    using assms(2) csvRows_stored [OF assms(2), of rs 0 C] rs by (simp add: ExportCSV_def noExportFaults_def)
  moreover have "csvParse (csvRecord csvHeader @ concat (map (\<lambda>r. csvRecord (csvReceipt X r)) rs)) = Some (csvHeader # map (csvReceipt X) rs)"
    using csvParse_records [of "csvHeader # map (csvReceipt X) rs"] by (simp add: csvHeader_def csvReceipt_def comp_def)
  moreover have "find (\<lambda>k. xvWrite X k \<noteq> None) [0..<length rs] = None" using assms(2) by (simp add: find_None_iff noExportFaults_def)
  then have "ExportParquet C X q c = (None, if rs = [] then None else Some (map (rowFromReceipt C X) rs))"
    using assms(2) parquetRows_stored [OF assms(2), of rs C 0] rs by (simp add: ExportParquet_def noExportFaults_def)
  moreover have "pqReceiptHash (rowFromReceipt C X r) = receipt_hash (storedRow C r)" if "r \<in> set rs" for r
  proof -
    have "cachedHash (bare r) = []" by (simp add: bare_def)
    then have "cachedHash r = []" using rs(2) that by auto
    then show ?thesis by (simp add: rowFromReceipt_def ComputeHash_def Let_def)
  qed
  ultimately show ?thesis using rs(1) unfolding rows by auto
qed

definition exExport :: export_env where
  "exExport = \<lparr>xvQuery = False, xvScan = (\<lambda>k. False), xvRows = False, xvWrite = (\<lambda>k. None), xvGot = 0, xvFlush = None, xvTime = (\<lambda>l t. showInt t)\<rparr>"

theorem exports_faithful_witness:
  "\<exists>rs out. length rs = 3 \<and> ExportCSV exExport noFilter (exChain 3) = (None, out) \<and> csvParse out = Some (csvHeader # map (csvReceipt exExport) rs)"
proof -
  have "chain_inv toyCrypto (\<lambda>_. exKey) (exChain 3)" by (rule exChain_inv) simp
  moreover have "noExportFaults exExport" by (simp add: noExportFaults_def exExport_def)
  ultimately obtain rs out where "filter (matchesQuery noFilter) (receipts (db (exChain 3))) = map (storedRow toyCrypto) rs"
    and out: "ExportCSV exExport noFilter (exChain 3) = (None, out)" "csvParse out = Some (csvHeader # map (csvReceipt exExport) rs)"
    using exports_faithful [of toyCrypto "\<lambda>_. exKey" "exChain 3" exExport noFilter] by blast
  moreover have "length (filter (matchesQuery noFilter) (receipts (db (exChain 3)))) = 3"
    by (simp add: exChain_def numeral_3_eq_3 matchesQuery_def noFilter_def)
  ultimately have "length rs = 3" by (metis length_map)
  then show ?thesis using out by blast
qed

end
