(* ===== verification/ExportPDF.thy ===== *)
theory ExportPDF
  imports Export
begin

text \<open>
  The PDF report (\<open>internal/chain/export_pdf.go\<close>): a PDF file written by hand, with its objects,
  its bookmarks and the table of the objects' byte offsets. All coordinates are whole numbers, so
  \<open>%.1f\<close> prints them with a final \<open>.0\<close>.
\<close>

section \<open>Text\<close>

definition replaceChar :: "char \<Rightarrow> string \<Rightarrow> string \<Rightarrow> string" where
  "replaceChar c t s = concat (map (\<lambda>x. if x = c then t else [x]) s)"

definition pdfEscape :: "string \<Rightarrow> string" where
  "pdfEscape s = replaceChar (CHR '')'') [bslash, CHR '')''] (replaceChar (CHR ''('') [bslash, CHR ''(''] (replaceChar bslash [bslash, bslash] s))"

definition asciiRune :: "string \<Rightarrow> bool" where
  "asciiRune r \<longleftrightarrow> length r = 1 \<and> byte (hd r) \<le> 0x7E"

definition sanitizePDFTextSlow :: "string \<Rightarrow> string" where
  "sanitizePDFTextSlow s = concat (map (\<lambda>r.
     if asciiRune r then r
     else if r = [CHR 0xE2, CHR 0x80, CHR 0x93] \<or> r = [CHR 0xE2, CHR 0x80, CHR 0x94] then ''-''
     else if r = [CHR 0xE2, CHR 0x80, CHR 0x98] \<or> r = [CHR 0xE2, CHR 0x80, CHR 0x99] then [CHR 0x27]
     else if r = [CHR 0xE2, CHR 0x80, CHR 0x9C] \<or> r = [CHR 0xE2, CHR 0x80, CHR 0x9D] then [quote]
     else ''?'') (runesOf s))"

definition sanitizePDFText :: "string \<Rightarrow> string" where
  "sanitizePDFText s = (if list_all asciiRune (runesOf s) then s else sanitizePDFTextSlow s)"

definition truncatePDF :: "string \<Rightarrow> nat \<Rightarrow> string" where
  "truncatePDF s n = (let t = sanitizePDFText s in if length t \<le> n then t else take n t)"

section \<open>Pages\<close>

text \<open>A page builder is the list of its operators.\<close>

definition f1 :: "int \<Rightarrow> string" where "f1 i = showInt i @ ''.0''"

definition pdfText :: "int \<Rightarrow> string \<Rightarrow> int \<Rightarrow> int \<Rightarrow> string" where
  "pdfText sz t x y = ''BT /F1 '' @ f1 sz @ '' Tf '' @ f1 x @ '' '' @ f1 y @ '' Td ('' @ pdfEscape t @ '') Tj ET''"

definition pdfLine :: "int \<Rightarrow> int \<Rightarrow> int \<Rightarrow> int \<Rightarrow> string" where
  "pdfLine x1 y1 x2 y2 = f1 x1 @ '' '' @ f1 y1 @ '' m '' @ f1 x2 @ '' '' @ f1 y2 @ '' l S''"

definition pageContent :: "string list \<Rightarrow> string" where
  "pageContent ops = joinWith [newline] ops"

record pdfBuilder =
  pbObjects :: "string list"
  pbPages :: "nat list"
  pbNext :: nat
  pbOutlines :: "(string \<times> nat) list"

definition pdfBegin :: pdfBuilder where
  "pdfBegin = \<lparr>pbObjects = [], pbPages = [], pbNext = 1, pbOutlines = []\<rparr>"

definition pdfObject :: "nat \<Rightarrow> string \<Rightarrow> string" where
  "pdfObject i content = showNat i @ '' 0 obj'' @ [newline] @ content @ [newline] @ ''endobj''"

definition addObject :: "string \<Rightarrow> pdfBuilder \<Rightarrow> nat \<times> pdfBuilder" where
  "addObject content b = (pbNext b, b\<lparr>pbNext := pbNext b + 1, pbObjects := pbObjects b @ [pdfObject (pbNext b) content]\<rparr>)"

definition addOutline :: "string \<Rightarrow> nat \<Rightarrow> pdfBuilder \<Rightarrow> pdfBuilder" where
  "addOutline title i b = b\<lparr>pbOutlines := pbOutlines b @ [(title, i)]\<rparr>"

definition addPage :: "string list \<Rightarrow> pdfBuilder \<Rightarrow> pdfBuilder" where
  "addPage ops b = (let s = pageContent ops in
     case addObject (''<< /Length '' @ showNat (length s) @ '' >>'' @ [newline] @ ''stream'' @ [newline] @ s @ [newline] @ ''endstream'') b of
       (i, b1) \<Rightarrow> b1\<lparr>pbPages := pbPages b1 @ [i]\<rparr>)"

section \<open>The file\<close>

record pdf_out =
  poText :: string
  poPos :: nat
  poOffsets :: "nat list"

definition pdfEmit :: "pdf_out \<Rightarrow> string \<Rightarrow> pdf_out" where
  "pdfEmit p obj = p\<lparr>poText := poText p @ obj @ [newline], poPos := poPos p + length obj + 1, poOffsets := poOffsets p @ [poPos p]\<rparr>"

definition pdfStart :: pdf_out where
  "pdfStart = \<lparr>poText = ''%PDF-1.4'' @ [newline], poPos = 9, poOffsets = []\<rparr>"

definition ref :: "nat \<Rightarrow> string" where "ref i = showNat i @ '' 0 R''"

definition fontObj :: "nat \<Rightarrow> string" where
  "fontObj i = pdfObject i ''<< /Type /Font /Subtype /Type1 /BaseFont /Courier >>''"

definition pageObj :: "nat \<Rightarrow> nat \<Rightarrow> nat \<Rightarrow> nat \<Rightarrow> string" where
  "pageObj i pagesNode content font = pdfObject i (''<< /Type /Page /Parent '' @ ref pagesNode @ [newline] @ ''   /MediaBox [0 0 612 792]'' @ [newline] @
     ''   /Contents '' @ ref content @ [newline] @ ''   /Resources << /Font << /F1 '' @ ref font @ '' >> >> >>'')"

definition pagesObj :: "nat \<Rightarrow> nat list \<Rightarrow> string" where
  "pagesObj i kids = pdfObject i (''<< /Type /Pages /Kids ['' @ joinWith '' '' (map ref kids) @ ''] /Count '' @ showNat (length kids) @ '' >>'')"

definition itemObj :: "nat \<Rightarrow> string \<Rightarrow> nat \<Rightarrow> nat \<Rightarrow> string" where
  "itemObj i title root page = pdfObject i (''<< /Title ('' @ pdfEscape title @ '') /Parent '' @ ref root @ '' /Dest ['' @ ref page @ '' /Fit] >>'')"

definition rootObj :: "nat \<Rightarrow> nat \<Rightarrow> nat \<Rightarrow> nat \<Rightarrow> string" where
  "rootObj i first lst n = pdfObject i (''<< /Type /Outlines /First '' @ ref first @ '' /Last '' @ ref lst @ '' /Count '' @ showNat n @ '' >>'')"

definition catalogObj :: "nat \<Rightarrow> nat \<Rightarrow> nat option \<Rightarrow> string" where
  "catalogObj i pagesNode outlines = pdfObject i (''<< /Type /Catalog /Pages '' @ ref pagesNode @
     (case outlines of None \<Rightarrow> [] | Some r \<Rightarrow> '' /Outlines '' @ ref r) @ '' >>'')"

definition pad10 :: "nat \<Rightarrow> string" where
  "pad10 n = replicate (10 - length (showNat n)) (CHR ''0'') @ showNat n"

text \<open>The cross-reference table, written from the offsets in the order the objects were emitted, and the trailer.\<close>

definition xrefSection :: "pdf_out \<Rightarrow> nat \<Rightarrow> string" where
  "xrefSection p catalogID = ''xref'' @ [newline] @ ''0 '' @ showNat (catalogID + 1) @ [newline] @ ''0000000000 65535 f '' @ [newline] @
     concat (map (\<lambda>off. pad10 off @ '' 00000 n '' @ [newline]) (poOffsets p)) @
     ''trailer'' @ [newline] @ ''<< /Size '' @ showNat (catalogID + 1) @ '' /Root '' @ ref catalogID @ '' >>'' @ [newline] @
     ''startxref'' @ [newline] @ showNat (poPos p) @ [newline] @ ''%%EOF'' @ [newline]"

text \<open>Bookmarks: a page index out of range is a panic.\<close>

fun outlineItems :: "nat list \<Rightarrow> nat \<Rightarrow> nat \<Rightarrow> (string \<times> nat) list \<Rightarrow> string list option" where
  "outlineItems kids root i [] = Some []"
| "outlineItems kids root i ((title, pg) # es) = (if pg < length kids
     then map_option (Cons (itemObj i title root (kids ! pg))) (outlineItems kids root (i + 1) es) else None)"

definition pdfFinish :: "pdfBuilder \<Rightarrow> string option" where
  "pdfFinish b = (let
     p1 = foldl pdfEmit pdfStart (pbObjects b);
     font = pbNext b;
     p2 = pdfEmit p1 (fontObj font);
     n = length (pbPages b);
     kids = [font + 1..<font + 1 + n];
     pagesNode = font + 1 + n;
     p3 = foldl pdfEmit p2 (map (\<lambda>(i, content). pageObj i pagesNode content font) (zip kids (pbPages b)));
     p4 = pdfEmit p3 (pagesObj pagesNode kids);
     next = pagesNode + 1;
     m = length (pbOutlines b)
   in if m = 0 then (let p5 = pdfEmit p4 (catalogObj next pagesNode None) in Some (poText p5 @ xrefSection p5 next))
      else (case outlineItems kids next (next + 1) (pbOutlines b) of None \<Rightarrow> None | Some items \<Rightarrow>
        let p5 = pdfEmit (foldl pdfEmit p4 items) (rootObj next (next + 1) (next + m) m);
            p6 = pdfEmit p5 (catalogObj (next + m + 1) pagesNode (Some next))
        in Some (poText p6 @ xrefSection p6 (next + m + 1))))"

section \<open>The report\<close>

definition coverPage :: "(string \<Rightarrow> i64 \<Rightarrow> string) \<Rightarrow> (verification_error \<Rightarrow> string) \<Rightarrow> i64 \<Rightarrow> Stats \<Rightarrow> VerificationResult \<Rightarrow> string list" where
  "coverPage fmt errText now st res =
     [pdfText 24 ''ANS Audit Report'' 400 740,
      pdfText 12 ''Agent Nervous System - Cryptographic Receipt Chain'' 400 715,
      pdfText 10 (''Generated: '' @ fmt rfc3339 now) 400 695,
      pdfLine 50 685 560 685,
      pdfText 11 ''CHAIN SUMMARY'' 50 665,
      pdfText 10 (''Total receipts:  '' @ showInt (TotalReceipts st)) 50 645,
      pdfText 10 (''Total agents:    '' @ showInt (TotalAgents st)) 50 625,
      pdfText 10 (''Chain length:    '' @ showNat (unat (ChainLength st))) 50 605] @
     (if 0 < OldestReceiptNS st then
        [pdfText 10 (''Oldest receipt:  '' @ fmt rfc3339 (OldestReceiptNS st)) 50 585,
         pdfText 10 (''Newest receipt:  '' @ fmt rfc3339 (NewestReceiptNS st)) 50 565] else []) @
     [pdfLine 50 555 560 555,
      pdfText 11 ''INTEGRITY'' 50 535,
      (if Valid res then pdfText 10 (''PASS - all '' @ showInt (TotalChecked res) @ '' receipts verified'') 50 515
       else pdfText 10 (''FAIL at index '' @ showInt (FirstBrokenAt res) @ '': '' @ errText (VError res)) 50 515)]"

text \<open>The rows of a table, thirteen points apart from \<open>y\<close> down.\<close>

fun tableRows :: "int \<Rightarrow> string list \<Rightarrow> string list" where
  "tableRows y [] = []"
| "tableRows y (l # ls) = pdfText 7 l 50 y # tableRows (y - 13) ls"

definition pdfReceipt :: "(string \<Rightarrow> i64 \<Rightarrow> string) \<Rightarrow> Receipt \<Rightarrow> string" where
  "pdfReceipt fmt r = padRight 6 (showNat (unat (ChainIndex r))) @ '' '' @ padRight 8 (safeID (ReceiptID r)) @ '' '' @ padRight 6 (truncatePDF (Phase r) 5) @ '' '' @
     padRight 18 (truncatePDF (AgentID r) 17) @ '' '' @ padRight 20 (truncatePDF (ActionType r) 19) @ '' '' @ padRight 9 (truncatePDF (Outcome r) 8) @ '' '' @
     fmt ''2006-01-02 15:04:05'' (TimestampNS r)"

definition receiptPage :: "(string \<Rightarrow> i64 \<Rightarrow> string) \<Rightarrow> nat \<Rightarrow> nat \<Rightarrow> Receipt list \<Rightarrow> string list" where
  "receiptPage fmt start ntot batch =
     [pdfText 11 (''RECEIPTS ('' @ showNat (start + 1) @ ''-'' @ showNat (start + length batch) @ '' of '' @ showNat ntot @ '')'') 50 760,
      pdfText 8 ''IDX    RECEIPT   PHASE  AGENT              ACTION               OUTCOME   TIMESTAMP'' 50 742,
      pdfLine 50 738 560 738] @ tableRows 726 (map (pdfReceipt fmt) batch)"

function receiptPages :: "(string \<Rightarrow> i64 \<Rightarrow> string) \<Rightarrow> nat \<Rightarrow> nat \<Rightarrow> Receipt list \<Rightarrow> pdfBuilder \<Rightarrow> pdfBuilder" where
  "receiptPages fmt start ntot rs b = (if rs = [] then b
     else receiptPages fmt (start + 35) ntot (drop 35 rs) (addPage (receiptPage fmt start ntot (take 35 rs)) b))"
  by pat_completeness auto
termination
  by (relation "measure (\<lambda>(fmt, start, ntot, rs, b). length rs)") auto

declare receiptPages.simps [simp del]

definition pdfAnchor :: "(string \<Rightarrow> i64 \<Rightarrow> string) \<Rightarrow> Anchor \<Rightarrow> string" where
  "pdfAnchor fmt a = padRight 7 (showNat (unat (FromIndex a))) @ '' '' @ padRight 8 (showNat (unat (ToIndex a))) @ '' '' @ padRight 7 (showInt (ACount a)) @ '' '' @
     padRight 44 (if 32 < length (MerkleRoot a) then take 32 (MerkleRoot a) @ ''...'' else MerkleRoot a) @ '' '' @ fmt ''2006-01-02 15:04:05'' (PrunedAt a)"

definition anchorPage :: "(string \<Rightarrow> i64 \<Rightarrow> string) \<Rightarrow> Anchor list \<Rightarrow> string list" where
  "anchorPage fmt as = [pdfText 11 ''PRUNED SEGMENTS (ANCHORS)'' 50 760,
     pdfText 8 ''FROM    TO       COUNT   MERKLE ROOT (first 32 hex)                       PRUNED AT'' 50 742,
     pdfLine 50 738 560 738] @ tableRows 726 (map (pdfAnchor fmt) as)"

definition outlines :: "Receipt list \<Rightarrow> Anchor list \<Rightarrow> pdfBuilder \<Rightarrow> pdfBuilder" where
  "outlines rs as b = (let
     b1 = addOutline ''Cover Page & Integrity'' 0 b;
     b2 = (if rs = [] then b1 else addOutline (''Receipts ('' @ showNat (length rs) @ '' total)'') 1 b1)
   in if as = [] then b2 else addOutline (''Anchors ('' @ showNat (length as) @ '')'') (1 + (length rs + 35 - 1) div 35) b2)"

definition pdfReport :: "(string \<Rightarrow> i64 \<Rightarrow> string) \<Rightarrow> (verification_error \<Rightarrow> string) \<Rightarrow> i64 \<Rightarrow> Stats \<Rightarrow> VerificationResult \<Rightarrow> Receipt list \<Rightarrow> Anchor list \<Rightarrow> pdfBuilder" where
  "pdfReport fmt errText now st res rs as = (let
     b1 = outlines rs as (addPage (coverPage fmt errText now st res) pdfBegin);
     b2 = receiptPages fmt 0 (length rs) rs b1
   in if as = [] then b2 else addPage (anchorPage fmt as) b2)"

text \<open>
  \<open>ExportPDF\<close>: \<open>sf\<close>, \<open>vf\<close>, \<open>af\<close> and \<open>lf\<close> are the failures of the statistics, the verification, the
  anchors (whose error is ignored) and the listing, \<open>wr = Some n\<close> a write that fails after \<open>n\<close> bytes.
\<close>

definition ExportPDF ::
  "crypto \<Rightarrow> (string \<Rightarrow> i64 \<Rightarrow> string) \<Rightarrow> (verification_error \<Rightarrow> string) \<Rightarrow> i64 \<Rightarrow> bool \<times> int \<times> int \<Rightarrow> verify_faults \<Rightarrow> bool \<Rightarrow> bool \<times> bool \<Rightarrow> nat option \<Rightarrow> Chain
   \<Rightarrow> (chain_error option, unit) go \<times> bytes" where
  "ExportPDF C fmt errText now sf vf af lf wr c =
     (case GetStats (fst sf) (fst (snd sf)) (snd (snd sf)) c of
        Err e \<Rightarrow> (Err (Some e), []) | Panic \<Rightarrow> (Panic, [])
      | Ok st \<Rightarrow> (case VerifyChain C vf None c of
          Ok res \<Rightarrow> (case ListReceipts (fst lf) (snd lf) (noFilter\<lparr>qLimit := 500\<rparr>) c of
              Err e \<Rightarrow> (Err (Some e), []) | Panic \<Rightarrow> (Panic, [])
            | Ok rs \<Rightarrow> (case pdfFinish (pdfReport fmt errText now st res (rev rs) (case ListAnchors af c of Ok as \<Rightarrow> as | _ \<Rightarrow> [])) of
                None \<Rightarrow> (Panic, [])
              | Some out \<Rightarrow> (case wr of None \<Rightarrow> (Ok (), out) | Some n \<Rightarrow> (Err None, take n out))))
        | _ \<Rightarrow> (Panic, [])))"

section \<open>Where the objects are\<close>

text \<open>Emitting keeps the position at the end of the text, so each offset is where its object starts.\<close>

lemma foldl_emit:
  assumes "poPos p = length (poText p)"
  shows "poText (foldl pdfEmit p es) = poText p @ concat (map (\<lambda>e. e @ [newline]) es)"
    and "poPos (foldl pdfEmit p es) = length (poText (foldl pdfEmit p es))"
    and "poOffsets (foldl pdfEmit p es) = poOffsets p @ map (\<lambda>k. length (poText p) + length (concat (map (\<lambda>e. e @ [newline]) (take k es)))) [0..<length es]"
proof -
  have "poText (foldl pdfEmit p es) = poText p @ concat (map (\<lambda>e. e @ [newline]) es) \<and>
      poPos (foldl pdfEmit p es) = length (poText (foldl pdfEmit p es)) \<and>
      poOffsets (foldl pdfEmit p es) = poOffsets p @ map (\<lambda>k. length (poText p) + length (concat (map (\<lambda>e. e @ [newline]) (take k es)))) [0..<length es]"
  proof (induction es rule: rev_induct)
    case Nil
    then show ?case using assms by simp
  next
    case (snoc e es)
    then show ?case by (simp add: pdfEmit_def)
  qed
  then show "poText (foldl pdfEmit p es) = poText p @ concat (map (\<lambda>e. e @ [newline]) es)"
    "poPos (foldl pdfEmit p es) = length (poText (foldl pdfEmit p es))"
    "poOffsets (foldl pdfEmit p es) = poOffsets p @ map (\<lambda>k. length (poText p) + length (concat (map (\<lambda>e. e @ [newline]) (take k es)))) [0..<length es]"
    by blast+
qed

lemma emitted_at:
  assumes "k < length es"
  shows "\<exists>rest. drop (poOffsets (foldl pdfEmit pdfStart es) ! k) (poText (foldl pdfEmit pdfStart es)) = es ! k @ rest"
proof -
  let ?c = "\<lambda>xs. concat (map (\<lambda>e. e @ [newline]) xs)"
  have s: "poPos pdfStart = length (poText pdfStart)" by (simp add: pdfStart_def)
  have "es = take k es @ es ! k # drop (Suc k) es" using assms by (rule id_take_nth_drop)
  then have "?c es = ?c (take k es) @ es ! k @ [newline] @ ?c (drop (Suc k) es)" by (metis concat.simps(2) concat_append append_assoc list.simps(9) map_append)
  moreover have "poOffsets (foldl pdfEmit pdfStart es) ! k = length (poText pdfStart) + length (?c (take k es))"
    using assms foldl_emit(3) [OF s, of es] by (simp add: pdfStart_def)
  ultimately show ?thesis using foldl_emit(1) [OF s, of es] by simp
qed

text \<open>An object starts with its number.\<close>

definition startsObject :: "string \<Rightarrow> nat \<Rightarrow> bool" where
  "startsObject s i \<longleftrightarrow> hasPrefix s (showNat i @ '' 0 obj'')"

lemma startsObject_number: "startsObject (showNat i @ '' 0 obj'' @ rest) j \<longleftrightarrow> i = j"
proof
  have dig: "takeWhile is_digit (showNat n @ CHR '' '' # t) = showNat n" for n t
    using list_all_showNat [of n] by (simp add: list_all_iff takeWhile_append2 is_digit_def)
  assume "startsObject (showNat i @ '' 0 obj'' @ rest) j"
  then have "showNat i @ CHR '' '' # (''0 obj'' @ rest) = showNat j @ CHR '' '' # (''0 obj'' @ drop (length (showNat j @ '' 0 obj'')) (showNat i @ '' 0 obj'' @ rest))"
    unfolding startsObject_def hasPrefix_def by (metis append.assoc append_Cons append_Nil append_take_drop_id)
  then have "showNat i = showNat j" by (metis dig)
  then show "i = j" by (simp add: showNat_inj)
qed (simp add: startsObject_def hasPrefix_def)

definition objectsNumbered :: "string list \<Rightarrow> nat list \<Rightarrow> bool" where
  "objectsNumbered es is \<longleftrightarrow> list_all2 (\<lambda>e i. \<exists>content. e = pdfObject i content) es is"

lemma located:
  assumes "objectsNumbered es is" "k < length es"
  shows "startsObject (drop (poOffsets (foldl pdfEmit pdfStart es) ! k) (poText (foldl pdfEmit pdfStart es) @ tl1)) j \<longleftrightarrow> is ! k = j"
proof -
  let ?p = "foldl pdfEmit pdfStart es"
  obtain rest where r: "drop (poOffsets ?p ! k) (poText ?p) = es ! k @ rest" using emitted_at [OF assms(2)] by blast
  obtain content where c: "es ! k = pdfObject (is ! k) content"
    using assms list_all2_nthD by (auto simp: objectsNumbered_def) blast
  have "drop (poOffsets ?p ! k) (poText ?p) \<noteq> []" using r c by (simp add: pdfObject_def)
  then have "poOffsets ?p ! k \<le> length (poText ?p)" by (metis drop_all linorder_le_cases)
  then have "drop (poOffsets ?p ! k) (poText ?p @ tl1) = showNat (is ! k) @ '' 0 obj'' @ [newline] @ content @ [newline] @ ''endobj'' @ rest @ tl1"
    using r c by (simp add: pdfObject_def)
  then show ?thesis using startsObject_number by metis
qed

section \<open>How the objects are numbered\<close>

definition numbered :: "pdfBuilder \<Rightarrow> bool" where
  "numbered b \<longleftrightarrow> 1 \<le> pbNext b \<and> objectsNumbered (pbObjects b) [1..<pbNext b]"

lemma objectsNumbered_append: "objectsNumbered xs is \<Longrightarrow> objectsNumbered ys js \<Longrightarrow> objectsNumbered (xs @ ys) (is @ js)"
  by (simp add: objectsNumbered_def list_all2_appendI)

lemma objectsNumbered_simps [simp]:
  "objectsNumbered [] []" "objectsNumbered (e # es) (i # is) \<longleftrightarrow> (\<exists>content. e = pdfObject i content) \<and> objectsNumbered es is"
  by (simp_all add: objectsNumbered_def)

lemma object_forms [simp]:
  "\<exists>content. fontObj i = pdfObject i content" "\<exists>content. pagesObj i ks = pdfObject i content" "\<exists>content. itemObj i t r g = pdfObject i content"
  "\<exists>content. rootObj i f l n = pdfObject i content" "\<exists>content. catalogObj i g ro = pdfObject i content"
  by (auto simp: fontObj_def pagesObj_def itemObj_def rootObj_def catalogObj_def)

lemma numbered_begin [simp]: "numbered pdfBegin"
  by (simp add: numbered_def pdfBegin_def objectsNumbered_def)

lemma numbered_outline [simp]: "numbered (addOutline t i b) = numbered b"
  by (simp add: numbered_def addOutline_def)

lemma numbered_page: "numbered b \<Longrightarrow> numbered (addPage ops b)"
  using objectsNumbered_append [of "pbObjects b" "[1..<pbNext b]" "[pdfObject (pbNext b) x]" "[pbNext b]" for x]
  by (auto simp: numbered_def addPage_def addObject_def Let_def)

lemma addPage_simps [simp]: "length (pbPages (addPage ops b)) = length (pbPages b) + 1" "pbOutlines (addPage ops b) = pbOutlines b"
  by (simp_all add: addPage_def addObject_def Let_def)

lemma addOutline_simps [simp]: "pbPages (addOutline t i b) = pbPages b" "pbOutlines (addOutline t i b) = pbOutlines b @ [(t, i)]"
  by (simp_all add: addOutline_def)

lemma pages_count: "0 < n \<Longrightarrow> (n + 34) div 35 = 1 + (n - 35 + 34) div (35 :: nat)"
proof (cases "35 \<le> n")
  case True
  then obtain k where "n = 35 + k" using le_Suc_ex by blast
  then show ?thesis by simp
next
  case False
  moreover assume "0 < n"
  ultimately have "(n + 34) div 35 = 1" by (intro div_nat_eqI) auto
  then show ?thesis using False by simp
qed

lemma receiptPages_builder:
  "numbered b \<Longrightarrow> numbered (receiptPages fmt start ntot rs b) \<and> pbOutlines (receiptPages fmt start ntot rs b) = pbOutlines b \<and>
     length (pbPages (receiptPages fmt start ntot rs b)) = length (pbPages b) + (length rs + 35 - 1) div 35"
proof (induction fmt start ntot rs b rule: receiptPages.induct)
  case (1 fmt start ntot rs b)
  show ?case
  proof (cases "rs = []")
    case True
    then show ?thesis using "1.prems" by (subst (1 2 3) receiptPages.simps) simp
  next
    case False
    have "(34 + length rs) div 35 = Suc ((34 + (length rs - 35)) div 35)" using pages_count [of "length rs"] False by (simp add: add.commute)
    then show ?thesis using "1.IH" [OF False numbered_page [OF "1.prems"]] False by (subst (1 2 3) receiptPages.simps) simp
  qed
qed

lemma pdfReport_builder:
  "numbered (pdfReport fmt errText now st res rs as) \<and> pbOutlines (pdfReport fmt errText now st res rs as) \<noteq> [] \<and>
   (\<forall>(t, i)\<in>set (pbOutlines (pdfReport fmt errText now st res rs as)). i < length (pbPages (pdfReport fmt errText now st res rs as)))"
proof -
  let ?b1 = "outlines rs as (addPage (coverPage fmt errText now st res) pdfBegin)"
  let ?b2 = "receiptPages fmt 0 (length rs) rs ?b1"
  have "numbered ?b1" by (simp add: outlines_def Let_def numbered_page)
  note b2 = receiptPages_builder [OF this, of fmt 0 "length rs" rs]
  have p1: "length (pbPages ?b1) = 1" by (simp add: outlines_def Let_def pdfBegin_def)
  have ge: "1 \<le> (length rs + 34) div 35" if "rs \<noteq> []" using that by (cases rs) simp_all
  have o1: "pbOutlines ?b1 \<noteq> []" by (simp add: outlines_def Let_def)
  have lt: "i < 1 + (length rs + 34) div 35 + (if as = [] then 0 else 1)" if "(t, i) \<in> set (pbOutlines ?b1)" for t i
    using that ge by (auto simp: outlines_def Let_def pdfBegin_def split: if_splits)
  let ?b = "pdfReport fmt errText now st res rs as"
  have "numbered ?b" "pbOutlines ?b = pbOutlines ?b1" "length (pbPages ?b) = 1 + (length rs + 34) div 35 + (if as = [] then 0 else 1)"
    using b2 p1 by (cases "as = []"; simp add: pdfReport_def Let_def numbered_page add.commute)+
  then show ?thesis using o1 lt by auto
qed

lemma outlineItems_ok:
  "\<forall>(t, i)\<in>set es. i < length kids \<Longrightarrow> \<exists>items. outlineItems kids root i es = Some items \<and> objectsNumbered items [i..<i + length es]"
proof (induction es arbitrary: i)
  case Nil
  then show ?case by (simp add: objectsNumbered_def)
next
  case (Cons e es)
  obtain t pg where e: "e = (t, pg)" by (cases e)
  obtain items where it: "outlineItems kids root (i + 1) es = Some items" "objectsNumbered items [i + 1..<i + 1 + length es]"
    using Cons by fastforce
  have "objectsNumbered (itemObj i t root (kids ! pg) # items) (i # [i + 1..<i + 1 + length es])"
    using it(2) by simp
  moreover have "i # [i + 1..<i + 1 + length es] = [i..<i + length (e # es)]" by (simp add: upt_conv_Cons del: upt_Suc)
  ultimately have "objectsNumbered (itemObj i t root (kids ! pg) # items) [i..<i + length (e # es)]" by (simp only:)
  then show ?case using it(1) Cons.prems e by (auto simp del: upt_Suc)
qed

lemma pages_numbered:
  "objectsNumbered (map (\<lambda>(i, content). pageObj i pn content font) (zip [a..<a + length ps] ps)) [a..<a + length ps]"
  by (auto simp: objectsNumbered_def list_all2_conv_all_nth pageObj_def)

text \<open>The objects in the order they are written: the outline's items come before its root, which was numbered first.\<close>

lemma pdfFinish_order:
  assumes "numbered b" "pbOutlines b \<noteq> []" "\<forall>(t, i)\<in>set (pbOutlines b). i < length (pbPages b)"
  shows "\<exists>es root. objectsNumbered es ([1..<root] @ [root + 1..<root + 1 + length (pbOutlines b)] @ [root, root + length (pbOutlines b) + 1]) \<and> 1 \<le> root \<and>
    pdfFinish b = Some (poText (foldl pdfEmit pdfStart es) @ xrefSection (foldl pdfEmit pdfStart es) (root + length (pbOutlines b) + 1))"
proof -
  let ?n = "length (pbPages b)" and ?m = "length (pbOutlines b)" and ?font = "pbNext b"
  let ?kids = "[?font + 1..<?font + 1 + ?n]" and ?pn = "?font + 1 + ?n"
  let ?root = "?pn + 1"
  obtain items where it: "outlineItems ?kids ?root (?root + 1) (pbOutlines b) = Some items" "objectsNumbered items [?root + 1..<?root + 1 + ?m]"
    using outlineItems_ok [of "pbOutlines b" ?kids ?root "?root + 1"] assms(3) by (auto simp del: upt_Suc)
  let ?pages = "map (\<lambda>(i, content). pageObj i ?pn content ?font) (zip ?kids (pbPages b))"
  let ?es = "pbObjects b @ [fontObj ?font] @ ?pages @ [pagesObj ?pn ?kids] @ items @ [rootObj ?root (?root + 1) (?root + ?m) ?m, catalogObj (?root + ?m + 1) ?pn (Some ?root)]"
  have "[1..<?root] = [1..<?font] @ [?font] @ ?kids @ [?pn]"
  proof -
    have "[1..<?root] = [1..<?font] @ [?font..<?root]" using assms(1) upt_add_eq_append [of 1 ?font "?root - ?font"] by (simp add: numbered_def del: upt_Suc)
    moreover have "[?font..<?root] = ?font # ?kids @ [?pn]" by (subst upt_conv_Cons) (simp_all add: upt_Suc_append del: upt_Suc)
    ultimately show ?thesis by simp
  qed
  moreover have "objectsNumbered ?es ([1..<?font] @ [?font] @ ?kids @ [?pn] @ [?root + 1..<?root + 1 + ?m] @ [?root, ?root + ?m + 1])"
    using assms(1) it(2) pages_numbered [of ?pn ?font "?font + 1" "pbPages b"]
    by (intro objectsNumbered_append) (simp_all add: numbered_def del: upt_Suc)
  ultimately have "objectsNumbered ?es ([1..<?root] @ [?root + 1..<?root + 1 + ?m] @ [?root, ?root + ?m + 1])" by simp
  moreover have "pdfFinish b = Some (poText (foldl pdfEmit pdfStart ?es) @ xrefSection (foldl pdfEmit pdfStart ?es) (?root + ?m + 1))"
    using assms(2) it(1) by (simp add: pdfFinish_def Let_def del: upt_Suc)
  ultimately show ?thesis by (intro exI [of _ ?es] exI [of _ ?root]) simp
qed

lemma outline_order_nth:
  assumes "1 \<le> root" "1 \<le> m" "1 \<le> i" "i \<le> root + m + 1"
  shows "([1..<root] @ [root + 1..<root + 1 + m] @ [root, root + m + 1]) ! (i - 1) = i \<longleftrightarrow> i < root \<or> i = root + m + 1"
proof -
  consider "i < root" | "root \<le> i" "i < root + m" | "i = root + m" | "i = root + m + 1" using assms(4) by linarith
  then show ?thesis
  proof cases
    case 2
    then have "([1..<root] @ [root + 1..<root + 1 + m] @ [root, root + m + 1]) ! (i - 1) = i + 1" using assms by (auto simp: nth_append simp del: upt_Suc)
    then show ?thesis using 2 by simp
  qed (use assms in \<open>auto simp: nth_append simp del: upt_Suc\<close>)
qed

text \<open>
  The cross-reference table of an exported PDF is wrong exactly for the bookmarks. Every file
  that \<open>ExportPDF\<close> writes has a table with one offset per object, and the offset recorded for an
  object number is where that object begins, except for the outline's root and its items (there is
  always at least one): these are numbered root first and written root last, so each of their
  entries points at another object.
\<close>

theorem pdf_outline_offsets_wrong:
  assumes "ExportPDF C fmt errText now sf vf af lf None c = (Ok (), out)"
  shows "\<exists>p root m. out = poText p @ xrefSection p (root + m + 1) \<and> 1 \<le> root \<and> 1 \<le> m \<and> length (poOffsets p) = root + m + 1 \<and>
    (\<forall>i. 1 \<le> i \<and> i \<le> root + m + 1 \<longrightarrow> (startsObject (drop (poOffsets p ! (i - 1)) out) i \<longleftrightarrow> \<not> (root \<le> i \<and> i \<le> root + m)))"
proof -
  obtain st res rs as where fin1: "pdfFinish (pdfReport fmt errText now st res rs as) = Some out"
    using assms by (auto simp: ExportPDF_def split: go.splits option.splits)
  let ?b = "pdfReport fmt errText now st res rs as" and ?m = "length (pbOutlines (pdfReport fmt errText now st res rs as))"
  obtain es root where es: "objectsNumbered es ([1..<root] @ [root + 1..<root + 1 + ?m] @ [root, root + ?m + 1])" "1 \<le> root"
    and fin: "pdfFinish ?b = Some (poText (foldl pdfEmit pdfStart es) @ xrefSection (foldl pdfEmit pdfStart es) (root + ?m + 1))"
    using pdfFinish_order [of ?b] pdfReport_builder by blast
  let ?p = "foldl pdfEmit pdfStart es"
  have out: "out = poText ?p @ xrefSection ?p (root + ?m + 1)" using fin fin1 by simp
  have m: "1 \<le> ?m" using pdfReport_builder [of fmt errText now st res rs as] by (simp add: Suc_le_eq)
  have len: "length es = root + ?m + 1" using list_all2_lengthD [OF es(1) [unfolded objectsNumbered_def]] es(2) by (simp del: upt_Suc)
  have "length (poOffsets ?p) = root + ?m + 1" using foldl_emit(3) [of pdfStart es] len by (simp add: pdfStart_def)
  moreover have "startsObject (drop (poOffsets ?p ! (i - 1)) out) i \<longleftrightarrow> \<not> (root \<le> i \<and> i \<le> root + ?m)" if "1 \<le> i \<and> i \<le> root + ?m + 1" for i
  proof -
    have "i - 1 < length es" using that len by linarith
    then have "startsObject (drop (poOffsets ?p ! (i - 1)) out) i \<longleftrightarrow> i < root \<or> i = root + ?m + 1"
      using located [OF es(1), of "i - 1"] outline_order_nth [OF es(2) m, of i] that unfolding out by blast
    then show ?thesis using that by linarith
  qed
  ultimately show ?thesis using out m es(2) by blast
qed

lemma rows_decode: "list_all (row_ok C K) rows \<Longrightarrow> \<exists>rs. decodeRows rows = Ok rs"
  by (induction rows) (auto simp: decodeRow_def elim: row_okE)

lemma export_pdf_ok:
  assumes "chain_inv C K c"
  shows "\<exists>out. ExportPDF C fmt errText now (False, pc, ps) noVerifyFaults False (False, False) None c = (Ok (), out)"
proof -
  have "list_all (row_ok C K) (selectRows (noFilter\<lparr>qLimit := 500\<rparr>) (db c))"
    using assms by (auto simp: chain_inv_def Let_def list_all_iff selectRows_def dest!: in_set_takeD in_set_dropD)
  then obtain rs where rs: "ListReceipts False False (noFilter\<lparr>qLimit := 500\<rparr>) c = Ok rs" using rows_decode by (fastforce simp: ListReceipts_def)
  moreover obtain res where "VerifyChain C noVerifyFaults None c = Ok res" using VerifyChain_inv [OF assms, of None] by simp
  moreover obtain st where "GetStats False pc ps c = Ok st" by (simp add: GetStats_def Let_def)
  moreover obtain out where "pdfFinish (pdfReport fmt errText now st res (rev rs) (case ListAnchors False c of Ok as \<Rightarrow> as | _ \<Rightarrow> [])) = Some out"
    using pdfFinish_order [of "pdfReport fmt errText now st res (rev rs) (case ListAnchors False c of Ok as \<Rightarrow> as | _ \<Rightarrow> [])"] pdfReport_builder by blast
  ultimately show ?thesis by (simp add: ExportPDF_def)
qed

theorem pdf_outline_offsets_wrong_witness:
  "\<exists>out p root m. ExportPDF toyCrypto (\<lambda>l t. []) (\<lambda>e. []) 0 (False, 0, 0) noVerifyFaults False (False, False) None (exChain 3) = (Ok (), out) \<and>
     out = poText p @ xrefSection p (root + m + 1) \<and> \<not> startsObject (drop (poOffsets p ! (root - 1)) out) root \<and>
     startsObject (drop (poOffsets p ! (root + m)) out) (root + m + 1)"
proof -
  have inv: "chain_inv toyCrypto (\<lambda>_. exKey) (exChain 3)" by (rule exChain_inv) simp
  obtain out where out: "ExportPDF toyCrypto (\<lambda>l t. []) (\<lambda>e. []) 0 (False, 0, 0) noVerifyFaults False (False, False) None (exChain 3) = (Ok (), out)"
    using export_pdf_ok [OF inv] by blast
  obtain p root m where p: "out = poText p @ xrefSection p (root + m + 1)" "1 \<le> root"
    and all: "\<forall>i. 1 \<le> i \<and> i \<le> root + m + 1 \<longrightarrow> (startsObject (drop (poOffsets p ! (i - 1)) out) i \<longleftrightarrow> \<not> (root \<le> i \<and> i \<le> root + m))"
    using pdf_outline_offsets_wrong [OF out] by blast
  have "\<not> startsObject (drop (poOffsets p ! (root - 1)) out) root" "startsObject (drop (poOffsets p ! (root + m)) out) (root + m + 1)"
    using all [THEN spec, of root] all [THEN spec, of "root + m + 1"] p(2) by simp_all
  then show ?thesis using out p(1) by blast
qed

end
