(* ===== verification/Merge.thy ===== *)
theory Merge
  imports ChainSystem
begin

text \<open>
  \<open>internal/chain/merge.go\<close>: the causal merge of several agents' receipts. Go's maps are
  functions with the zero value outside their domain, the loop of Kahn's algorithm is
  \<open>while_option\<close>, and \<open>sort.Slice\<close>, which may permute equal elements, is a
  parameter with its documented contract; \<open>sort.SliceStable\<close> is \<open>sort_key\<close>.
\<close>

section \<open>Model\<close>

record MergedReceipt =
  MReceipt :: Receipt
  SourceAgentID :: string

text \<open>The contract of \<open>sort.Slice\<close> on timestamps: a permutation in ascending order.\<close>

definition slice_sort :: "(Receipt list \<Rightarrow> Receipt list) \<Rightarrow> bool" where
  "slice_sort srt \<longleftrightarrow> (\<forall>xs. mset (srt xs) = mset xs \<and> sorted (map TimestampNS (srt xs)))"

text \<open>
  \<open>inDegree\<close> and \<open>revDeps\<close>, filled by the first loop of \<open>topoSort\<close>.
\<close>

fun degDeps :: "string \<Rightarrow> string list \<Rightarrow> (string \<Rightarrow> int) \<times> (string \<Rightarrow> string list)
    \<Rightarrow> (string \<Rightarrow> int) \<times> (string \<Rightarrow> string list)" where
  "degDeps rid [] st = st"
| "degDeps rid (d # ds) (deg, rv) = degDeps rid ds (deg(rid := deg rid + 1), rv(d := rv d @ [rid]))"

definition countDegrees :: "(string \<Rightarrow> string list) \<Rightarrow> Receipt list
    \<Rightarrow> (string \<Rightarrow> int) \<times> (string \<Rightarrow> string list)" where
  "countDegrees deps rs = foldl (\<lambda>st r. degDeps (ReceiptID r) (deps (ReceiptID r)) st) (\<lambda>_. 0, \<lambda>_. []) rs"

record topo_state =
  inDegree :: "string \<Rightarrow> int"
  queue :: "Receipt list"
  tResult :: "Receipt list"

fun relax :: "(string \<Rightarrow> Receipt option) \<Rightarrow> string list \<Rightarrow> (string \<Rightarrow> int) \<Rightarrow> Receipt list
    \<Rightarrow> (string \<Rightarrow> int) \<times> Receipt list" where
  "relax byID [] deg freed = (deg, freed)"
| "relax byID (d # ds) deg freed =
     (let deg1 = deg(d := deg d - 1);
          freed1 = (if deg1 d = 0 then (case byID d of Some r \<Rightarrow> freed @ [r] | None \<Rightarrow> freed) else freed)
      in relax byID ds deg1 freed1)"

definition topoStep :: "(Receipt list \<Rightarrow> Receipt list) \<Rightarrow> (string \<Rightarrow> string list) \<Rightarrow> (string \<Rightarrow> Receipt option)
    \<Rightarrow> topo_state \<Rightarrow> topo_state" where
  "topoStep srt revDeps byID s = (case queue s of [] \<Rightarrow> s | node # rest \<Rightarrow>
     (let (deg, freed) = relax byID (revDeps (ReceiptID node)) (inDegree s) [] in
      \<lparr>inDegree = deg, queue = sort_key TimestampNS (srt freed @ rest), tResult = tResult s @ [node]\<rparr>))"

definition topoInit :: "(Receipt list \<Rightarrow> Receipt list) \<Rightarrow> (string \<Rightarrow> string list) \<Rightarrow> Receipt list \<Rightarrow> topo_state" where
  "topoInit srt deps rs = (let deg = fst (countDegrees deps rs) in
     \<lparr>inDegree = deg, queue = srt (filter (\<lambda>r. deg (ReceiptID r) = 0) rs), tResult = []\<rparr>)"

text \<open>\<open>None\<close>: the loop does not end.\<close>

definition topoSort :: "(Receipt list \<Rightarrow> Receipt list) \<Rightarrow> Receipt list \<Rightarrow> (string \<Rightarrow> string list)
    \<Rightarrow> (string \<Rightarrow> Receipt option) \<Rightarrow> Receipt list option" where
  "topoSort srt rs deps byID =
     (case while_option (\<lambda>s. queue s \<noteq> []) (topoStep srt (snd (countDegrees deps rs)) byID) (topoInit srt deps rs) of
        None \<Rightarrow> None
      | Some s \<Rightarrow>
          (let result = tResult s in
           if length result < length rs
           then Some (result @ srt (filter (\<lambda>r. ReceiptID r \<notin> ReceiptID ` set result) rs))
           else Some result))"

definition byIDOf :: "Receipt list \<Rightarrow> string \<Rightarrow> Receipt option" where
  "byIDOf rs = foldl (\<lambda>m r. m(ReceiptID r := Some r)) (\<lambda>_. None) rs"

definition isDelegation :: "string \<Rightarrow> Receipt \<Rightarrow> bool" where
  "isDelegation parent r \<longleftrightarrow> AgentID r = parent \<and> ActionType r = ActionAgentDelegate \<and> Phase r = PhasePre"

text \<open>
  The receipts that must come before \<open>r\<close>. \<open>xfault\<close> says for which agent the query across
  agents fails; such an error is logged and ignored.
\<close>

definition beforeOf :: "(string \<Rightarrow> bool) \<Rightarrow> Chain \<Rightarrow> Receipt list \<Rightarrow> Receipt \<Rightarrow> string list" where
  "beforeOf xfault c rs r =
     (if Phase r = PhasePost \<and> PreReceiptID r \<noteq> '''' \<and> byIDOf rs (PreReceiptID r) \<noteq> None
      then [PreReceiptID r] else []) @
     (if ParentAgentID r = '''' then []
      else (case find (isDelegation (ParentAgentID r)) rs of
          Some other \<Rightarrow> [ReceiptID other]
        | None \<Rightarrow>
            (case ListReceipts (xfault (ParentAgentID r)) False
                (noFilter\<lparr>qAgentID := ParentAgentID r, qActionType := ActionAgentDelegate, qPhase := PhasePre\<rparr>) c of
               Ok (x # _) \<Rightarrow> [ReceiptID x]
             | _ \<Rightarrow> [])))"

definition depsOf :: "(string \<Rightarrow> bool) \<Rightarrow> Chain \<Rightarrow> Receipt list \<Rightarrow> string \<Rightarrow> string list" where
  "depsOf xfault c rs = foldl (\<lambda>m r. m(ReceiptID r := beforeOf xfault c rs r)) (\<lambda>_. []) rs"

fun collect :: "(string \<Rightarrow> bool) \<Rightarrow> Chain \<Rightarrow> string list \<Rightarrow> (chain_error, Receipt list) go" where
  "collect fault c [] = Ok []"
| "collect fault c (aid # aids) = (case ListReceipts (fault aid) False (noFilter\<lparr>qAgentID := aid\<rparr>) c of
     Ok rs \<Rightarrow> (case collect fault c aids of Ok rs' \<Rightarrow> Ok (rs @ rs') | Err e \<Rightarrow> Err e | Panic \<Rightarrow> Panic)
   | Err e \<Rightarrow> Err e | Panic \<Rightarrow> Panic)"

text \<open>The outer option: \<open>None\<close> when the call does not return.\<close>

definition MergeChains :: "(Receipt list \<Rightarrow> Receipt list) \<Rightarrow> (string \<Rightarrow> bool) \<Rightarrow> (string \<Rightarrow> bool)
    \<Rightarrow> string list \<Rightarrow> Chain \<Rightarrow> (chain_error, MergedReceipt list) go option" where
  "MergeChains srt fault xfault agentIDs c = (case collect fault c agentIDs of
     Err e \<Rightarrow> Some (Err e)
   | Panic \<Rightarrow> Some Panic
   | Ok rs \<Rightarrow>
       if rs = [] then Some (Ok [])
       else map_option (\<lambda>sorted. Ok (map (\<lambda>r. \<lparr>MReceipt = r, SourceAgentID = AgentID r\<rparr>) sorted))
              (topoSort srt rs (depsOf xfault c rs) (byIDOf rs)))"

definition MarshalMergedChain :: "MergedReceipt list \<Rightarrow> bytes" where
  "MarshalMergedChain merged = concat (map (\<lambda>m.
     jsonEnc (JObj (receiptFields (MReceipt m) @ [(''SourceAgentID'', JStr (SourceAgentID m))])) @ [CHR 0x0A]) merged)"

section \<open>Maps built by loops\<close>

lemma foldl_upd_notin: "k \<notin> f ` set rs \<Longrightarrow> foldl (\<lambda>m r. m(f r := g r)) m rs k = m k"
  by (induction rs arbitrary: m) auto

lemma foldl_upd_in: "distinct (map f rs) \<Longrightarrow> r \<in> set rs \<Longrightarrow> foldl (\<lambda>m r. m(f r := g r)) m rs (f r) = g r"
proof (induction rs arbitrary: m)
  case (Cons a rs)
  show ?case
  proof (cases "r = a")
    case True
    then have "foldl (\<lambda>m r. m(f r := g r)) (m(f a := g a)) rs (f a) = (m(f a := g a)) (f a)"
      using Cons.prems by (intro foldl_upd_notin) simp
    then show ?thesis unfolding True foldl.simps fun_upd_same .
  next
    case False
    then have "foldl (\<lambda>m r. m(f r := g r)) (m(f a := g a)) rs (f r) = g r"
      using Cons.prems by (intro Cons.IH) simp_all
    then show ?thesis unfolding foldl.simps .
  qed
qed simp

lemma byIDOf_in: "distinct (map ReceiptID rs) \<Longrightarrow> r \<in> set rs \<Longrightarrow> byIDOf rs (ReceiptID r) = Some r"
  unfolding byIDOf_def by (rule foldl_upd_in)

lemma byIDOf_notin: "k \<notin> ReceiptID ` set rs \<Longrightarrow> byIDOf rs k = None"
  unfolding byIDOf_def by (simp add: foldl_upd_notin)

lemma byIDOf_Some: "distinct (map ReceiptID rs) \<Longrightarrow> byIDOf rs d = Some r \<longleftrightarrow> r \<in> set rs \<and> ReceiptID r = d"
  using byIDOf_in [of rs] byIDOf_notin [of d rs] by (cases "d \<in> ReceiptID ` set rs") (auto simp: distinct_map inj_on_def)

lemma depsOf_in: "distinct (map ReceiptID rs) \<Longrightarrow> r \<in> set rs \<Longrightarrow> depsOf xf c rs (ReceiptID r) = beforeOf xf c rs r"
  unfolding depsOf_def by (rule foldl_upd_in)

lemma degDeps_eq:
  "degDeps rid ds (deg, rv) =
     (deg(rid := deg rid + int (length ds)), \<lambda>d. rv d @ replicate (count_list ds d) rid)"
  by (induction ds arbitrary: deg rv) (auto simp: fun_eq_iff replicate_append_same)

lemma countDegrees_eq:
  "foldl (\<lambda>st r. degDeps (ReceiptID r) (deps (ReceiptID r)) st) (deg, rv) rs =
     (\<lambda>i. deg i + int (sum_list (map (\<lambda>r. if ReceiptID r = i then length (deps i) else 0) rs)),
      \<lambda>d. rv d @ concat (map (\<lambda>r. replicate (count_list (deps (ReceiptID r)) d) (ReceiptID r)) rs))"
  by (induction rs arbitrary: deg rv) (auto simp: degDeps_eq fun_eq_iff)

lemma countDegrees_deg:
  assumes "distinct (map ReceiptID rs)" "r \<in> set rs"
  shows "fst (countDegrees deps rs) (ReceiptID r) = int (length (deps (ReceiptID r)))"
proof -
  have "sum_list (map (\<lambda>x. if ReceiptID x = ReceiptID r then length (deps (ReceiptID r)) else 0) rs) =
      length (deps (ReceiptID r))"
    using assms by (induction rs) (auto simp: sum_list_eq_0_iff image_iff intro!: sum_list_0)
  then show ?thesis by (simp add: countDegrees_def countDegrees_eq)
qed

lemma countDegrees_rev:
  assumes "distinct (map ReceiptID rs)"
  shows "count_list (snd (countDegrees deps rs) d) i =
    (if i \<in> ReceiptID ` set rs then count_list (deps i) d else 0)"
proof -
  have rep: "count_list (replicate n x) i = (if x = i then n else 0)" for n and x :: string
    by (induction n) auto
  have "count_list (concat (map (\<lambda>r. replicate (count_list (deps (ReceiptID r)) d) (ReceiptID r)) rs)) i =
      (if i \<in> ReceiptID ` set rs then count_list (deps i) d else 0)"
    using assms by (induction rs) (auto simp: rep)
  then show ?thesis by (simp add: countDegrees_def countDegrees_eq)
qed

section \<open>Kahn's algorithm\<close>

text \<open>
  Decrementing a list of dependents: each in-degree falls by the number of occurrences, and the
  receipts whose in-degree reaches zero are collected once.
\<close>

lemma relax_eq:
  assumes "\<forall>i. int (count_list ds i) \<le> deg i \<or> count_list ds i = 0"
    and "relax byID ds deg freed = (deg', freed')"
  shows "deg' = (\<lambda>i. deg i - int (count_list ds i)) \<and>
    (\<exists>new. freed' = freed @ new \<and>
       set new = {r. \<exists>d\<in>set ds. deg d = int (count_list ds d) \<and> byID d = Some r} \<and>
       ((\<forall>d r. byID d = Some r \<longrightarrow> ReceiptID r = d) \<longrightarrow> distinct (map ReceiptID new)))"
  using assms
proof (induction ds arbitrary: deg freed)
  case (Cons d ds)
  let ?deg = "deg(d := deg d - 1)"
  let ?hit = "deg d = 1"
  let ?n1 = "(if ?hit then (case byID d of Some r \<Rightarrow> [r] | None \<Rightarrow> []) else [])"
  have cnt: "int (count_list ds i) \<le> ?deg i \<or> count_list ds i = 0" for i
    using Cons.prems(1) [rule_format, of i] by auto
  have rel: "relax byID ds ?deg (freed @ ?n1) = (deg', freed')"
    using Cons.prems(2) by (auto simp: Let_def split: option.splits)
  obtain new where IH: "deg' = (\<lambda>i. ?deg i - int (count_list ds i))" "freed' = (freed @ ?n1) @ new"
      "set new = {r. \<exists>e\<in>set ds. ?deg e = int (count_list ds e) \<and> byID e = Some r}"
      "(\<forall>d r. byID d = Some r \<longrightarrow> ReceiptID r = d) \<longrightarrow> distinct (map ReceiptID new)"
    using Cons.IH [OF _ rel] cnt by blast
  have hit: "?hit \<Longrightarrow> count_list ds d = 0"
    using Cons.prems(1) [rule_format, of d] by auto
  have dset: "d \<in> set ds \<Longrightarrow> 0 < count_list ds d" using count_list_0_iff [of ds d] by auto
  let ?H = "{e\<in>set ds. ?deg e = int (count_list ds e)}"
  let ?H' = "{e\<in>set (d # ds). deg e = int (count_list (d # ds) e)}"
  have H': "?H' = (if ?hit then insert d ?H else ?H)"
    using hit dset by (auto simp: count_list_0_iff)
  have dH: "?hit \<Longrightarrow> d \<notin> ?H" using hit dset by auto
  have st: "set (?n1 @ new) = {r. \<exists>e\<in>set (d # ds). deg e = int (count_list (d # ds) e) \<and> byID e = Some r}"
  proof -
    have "(\<exists>e\<in>set (d # ds). deg e = int (count_list (d # ds) e) \<and> byID e = Some r) \<longleftrightarrow> (\<exists>e\<in>?H'. byID e = Some r)" for r
      by blast
    then have "{r. \<exists>e\<in>set (d # ds). deg e = int (count_list (d # ds) e) \<and> byID e = Some r} = {r. \<exists>e\<in>?H'. byID e = Some r}"
      by presburger
    also have "\<dots> = set ?n1 \<union> {r. \<exists>e\<in>?H. byID e = Some r}"
    proof (cases ?hit)
      case True
      then have h: "?H' = insert d ?H" using H' by presburger
      show ?thesis unfolding h using True by (cases "byID d") auto
    next
      case False
      then have h: "?H' = ?H" using H' by presburger
      show ?thesis unfolding h using False by simp
    qed
    finally have eq: "{r. \<exists>e\<in>set (d # ds). deg e = int (count_list (d # ds) e) \<and> byID e = Some r} =
        set ?n1 \<union> {r. \<exists>e\<in>?H. byID e = Some r}" .
    have "{r. \<exists>e\<in>?H. byID e = Some r} = set new" unfolding IH(3) by blast
    then show ?thesis unfolding eq set_append by (rule arg_cong [symmetric])
  qed
  have di: "distinct (map ReceiptID (?n1 @ new))" if id: "\<forall>d r. byID d = Some r \<longrightarrow> ReceiptID r = d"
  proof (cases "?hit \<and> byID d \<noteq> None")
    case True
    then obtain r where r: "byID d = Some r" by blast
    have "d \<notin> ReceiptID ` set new"
    proof
      assume "d \<in> ReceiptID ` set new"
      then obtain x where x: "x \<in> set new" "ReceiptID x = d" by blast
      from x(1) obtain e where e: "e \<in> set ds" "?deg e = int (count_list ds e)" "byID e = Some x"
        unfolding IH(3) by blast
      then have "e = d" using id x(2) by metis
      then show False using e(1,2) dH True by blast
    qed
    moreover have "?n1 = [r]" using True r by simp
    moreover have "distinct (map ReceiptID new)" using IH(4) id by blast
    moreover have "ReceiptID r = d" using id r by blast
    ultimately show ?thesis by simp
  next
    case False
    then have n: "?n1 = []" by (cases "byID d") auto
    show ?thesis unfolding n using IH(4) id by (metis append_Nil)
  qed
  have "deg' = (\<lambda>i. deg i - int (count_list (d # ds) i))" using IH(1) by (auto simp: fun_eq_iff)
  moreover have "freed' = freed @ (?n1 @ new)" using IH(2) by simp
  ultimately show ?case using st di by blast
qed auto

text \<open>
  The loop invariant: emitted and queued receipts are distinct and taken from the input; every
  in-degree counts the dependencies not yet emitted; the receipts at in-degree zero are those
  queued or emitted; every emitted receipt comes after its dependencies.
\<close>

definition emitted :: "topo_state \<Rightarrow> string set" where
  "emitted s = ReceiptID ` set (tResult s)"

definition pending :: "(string \<Rightarrow> string list) \<Rightarrow> string set \<Rightarrow> string \<Rightarrow> int" where
  "pending deps E i = int (length (filter (\<lambda>d. d \<notin> E) (deps i)))"

definition depsOrdered :: "(string \<Rightarrow> string list) \<Rightarrow> Receipt list \<Rightarrow> bool" where
  "depsOrdered deps rs \<longleftrightarrow> (\<forall>i < length rs. set (deps (ReceiptID (rs ! i))) \<subseteq> ReceiptID ` set (take i rs))"

definition topoInv :: "Receipt list \<Rightarrow> (string \<Rightarrow> string list) \<Rightarrow> topo_state \<Rightarrow> bool" where
  "topoInv rs deps s \<longleftrightarrow>
     distinct (map ReceiptID (tResult s @ queue s)) \<and> set (tResult s @ queue s) \<subseteq> set rs \<and>
     (\<forall>r\<in>set rs. inDegree s (ReceiptID r) = pending deps (emitted s) (ReceiptID r)) \<and>
     (\<forall>r\<in>set rs. inDegree s (ReceiptID r) = 0 \<longleftrightarrow> r \<in> set (tResult s @ queue s)) \<and>
     depsOrdered deps (tResult s)"

lemma pending_insert:
  assumes "n \<notin> E"
  shows "pending deps (insert n E) i = pending deps E i - int (count_list (deps i) n)"
    and "int (count_list (deps i) n) \<le> pending deps E i"
proof -
  have "length (filter (\<lambda>d. d \<notin> E) ds) = length (filter (\<lambda>d. d \<notin> insert n E) ds) + count_list ds n" for ds
    using assms by (induction ds) auto
  from this [of "deps i"] show "pending deps (insert n E) i = pending deps E i - int (count_list (deps i) n)"
    and "int (count_list (deps i) n) \<le> pending deps E i"
    by (simp_all add: pending_def)
qed

lemma pending_zero: "pending deps E i = 0 \<longleftrightarrow> set (deps i) \<subseteq> E"
  by (auto simp: pending_def filter_empty_conv)

lemma depsOrdered_snoc:
  "depsOrdered deps (rs @ [r]) \<longleftrightarrow> depsOrdered deps rs \<and> set (deps (ReceiptID r)) \<subseteq> ReceiptID ` set rs"
  by (auto simp: depsOrdered_def nth_append less_Suc_eq)

lemma slice_sortD: "slice_sort srt \<Longrightarrow> mset (srt xs) = mset xs" "slice_sort srt \<Longrightarrow> sorted (map TimestampNS (srt xs))"
  by (simp_all add: slice_sort_def)

lemma slice_sort_set: "slice_sort srt \<Longrightarrow> set (srt xs) = set xs"
  using slice_sortD(1) mset_eq_setD by blast

lemma slice_sort_distinct: "slice_sort srt \<Longrightarrow> distinct (map ReceiptID (srt xs)) = distinct (map ReceiptID xs)"
  by (rule mset_eq_distinctD) (simp add: slice_sortD(1))

lemma topoInit_inv:
  assumes "slice_sort srt" "distinct (map ReceiptID rs)"
  shows "topoInv rs deps (topoInit srt deps rs)"
proof -
  let ?q = "filter (\<lambda>r. fst (countDegrees deps rs) (ReceiptID r) = 0) rs"
  have "distinct (map ReceiptID ?q)" using assms(2) by (simp add: distinct_map_filter)
  moreover have "fst (countDegrees deps rs) (ReceiptID r) = pending deps {} (ReceiptID r)" if "r \<in> set rs" for r
    using countDegrees_deg [OF assms(2) that] by (simp add: pending_def)
  ultimately show ?thesis
    using slice_sort_set [OF assms(1)] slice_sort_distinct [OF assms(1)]
    by (auto simp: topoInv_def topoInit_def Let_def emitted_def depsOrdered_def)
qed

lemma topoStep_inv:
  assumes srt: "slice_sort srt" and dist: "distinct (map ReceiptID rs)"
    and inv: "topoInv rs deps s" and ne: "queue s \<noteq> []"
  shows "topoInv rs deps (topoStep srt (snd (countDegrees deps rs)) (byIDOf rs) s)"
    and "length (tResult (topoStep srt (snd (countDegrees deps rs)) (byIDOf rs) s)) = Suc (length (tResult s))"
proof -
  obtain node rest where q: "queue s = node # rest" using ne by (cases "queue s") auto
  let ?n = "ReceiptID node" and ?ds = "snd (countDegrees deps rs) (ReceiptID node)" and ?byID = "byIDOf rs"
  obtain deg freed where rel: "relax ?byID ?ds (inDegree s) [] = (deg, freed)"
    by (cases "relax ?byID ?ds (inDegree s) []")
  have di: "distinct (map ReceiptID (tResult s @ queue s))" and sub: "set (tResult s @ queue s) \<subseteq> set rs"
    and dg: "\<And>r. r \<in> set rs \<Longrightarrow> inDegree s (ReceiptID r) = pending deps (emitted s) (ReceiptID r)"
    and z: "\<And>r. r \<in> set rs \<Longrightarrow> inDegree s (ReceiptID r) = 0 \<longleftrightarrow> r \<in> set (tResult s @ queue s)"
    and re: "depsOrdered deps (tResult s)"
    using inv by (auto simp: topoInv_def)
  have nE: "?n \<notin> emitted s" and nrs: "node \<in> set rs" using di sub q by (auto simp: emitted_def)
  note cnt = countDegrees_rev [OF dist, of deps ?n]
  have bid: "\<forall>d r. ?byID d = Some r \<longrightarrow> ReceiptID r = d"
    by (simp add: byIDOf_Some [OF dist])
  have pre: "\<forall>i. int (count_list ?ds i) \<le> inDegree s i \<or> count_list ?ds i = 0"
    using cnt dg pending_insert(2) [OF nE] by auto
  from relax_eq [OF pre rel] bid
  have deg: "deg = (\<lambda>i. inDegree s i - int (count_list ?ds i))"
    and fs: "set freed = {r. \<exists>d\<in>set ?ds. inDegree s d = int (count_list ?ds d) \<and> ?byID d = Some r}"
    and fd: "distinct (map ReceiptID freed)" by auto
  have deg': "deg (ReceiptID r) = pending deps (insert ?n (emitted s)) (ReceiptID r)" if "r \<in> set rs" for r
    using that dg pending_insert(1) [OF nE] cnt by (simp add: deg)
  have freed_iff: "r \<in> set freed \<longleftrightarrow> r \<in> set rs \<and> deg (ReceiptID r) = 0 \<and> inDegree s (ReceiptID r) \<noteq> 0" for r
  proof
    assume "r \<in> set freed"
    then obtain d where d: "d \<in> set ?ds" "inDegree s d = int (count_list ?ds d)" "?byID d = Some r"
      using fs by auto
    moreover have "0 < count_list ?ds d" using d(1) count_list_0_iff [of ?ds d] by auto
    moreover have "r \<in> set rs" using d(3) by (simp add: byIDOf_Some [OF dist])
    ultimately show "r \<in> set rs \<and> deg (ReceiptID r) = 0 \<and> inDegree s (ReceiptID r) \<noteq> 0"
      using bid deg by auto
  next
    assume r: "r \<in> set rs \<and> deg (ReceiptID r) = 0 \<and> inDegree s (ReceiptID r) \<noteq> 0"
    then have "inDegree s (ReceiptID r) = int (count_list ?ds (ReceiptID r))" by (simp add: deg)
    moreover from this r have "ReceiptID r \<in> set ?ds" using count_list_0_iff [of ?ds "ReceiptID r"] by auto
    ultimately show "r \<in> set freed" using fs byIDOf_in [OF dist] r by auto
  qed
  let ?s = "\<lparr>inDegree = deg, queue = sort_key TimestampNS (srt freed @ rest), tResult = tResult s @ [node]\<rparr>"
  have st: "topoStep srt (snd (countDegrees deps rs)) ?byID s = ?s"
    by (simp add: topoStep_def q rel)
  have E': "emitted ?s = insert ?n (emitted s)" by (simp add: emitted_def)
  have setq: "set (queue ?s) = set freed \<union> set rest" using slice_sort_set [OF srt] by simp
  have still0: "deg (ReceiptID r) = 0" if "r \<in> set (tResult s @ queue s)" for r
  proof -
    have "r \<in> set rs" using that sub by blast
    then show ?thesis using that z [of r] pre [rule_format, of "ReceiptID r"] by (auto simp: deg)
  qed
  have old: "r \<in> set (tResult s @ queue s) \<longleftrightarrow> r \<in> set (tResult s) \<or> r = node \<or> r \<in> set rest" for r
    by (auto simp: q)
  have "distinct (map ReceiptID (tResult ?s @ queue ?s))"
  proof -
    have "ReceiptID ` set freed \<inter> ReceiptID ` set (tResult s @ queue s) = {}"
    proof (rule ccontr)
      assume "\<not> ?thesis"
      then obtain r t where rt: "r \<in> set freed" "t \<in> set (tResult s @ queue s)" "ReceiptID r = ReceiptID t" by auto
      then show False using freed_iff z [of t] sub by (metis subsetD)
    qed
    moreover have "distinct (map ReceiptID (sort_key TimestampNS (srt freed @ rest))) = distinct (map ReceiptID (freed @ rest))"
      by (rule mset_eq_distinctD) (simp add: slice_sortD(1) [OF srt])
    ultimately show ?thesis using di fd slice_sort_set [OF srt] unfolding q by auto
  qed
  moreover have "set (tResult ?s @ queue ?s) \<subseteq> set rs" using sub setq freed_iff q by auto
  moreover have "\<forall>r\<in>set rs. deg (ReceiptID r) = 0 \<longleftrightarrow> r \<in> set (tResult ?s @ queue ?s)"
    using freed_iff z still0 old setq by auto
  moreover have "depsOrdered deps (tResult ?s)"
    using re z [OF nrs] dg [OF nrs] q pending_zero [of deps "emitted s"] by (simp add: depsOrdered_snoc emitted_def)
  ultimately show "topoInv rs deps (topoStep srt (snd (countDegrees deps rs)) ?byID s)"
    using deg' E' unfolding st topoInv_def by simp
  show "length (tResult (topoStep srt (snd (countDegrees deps rs)) ?byID s)) = Suc (length (tResult s))"
    unfolding st by simp
qed

section \<open>The result of the sort\<close>

definition precedes :: "'a \<Rightarrow> 'a \<Rightarrow> 'a list \<Rightarrow> bool" where
  "precedes p r xs \<longleftrightarrow> (\<exists>us vs ws. xs = us @ p # vs @ r # ws)"

lemma precedes_nth: "i < j \<Longrightarrow> j < length xs \<Longrightarrow> precedes (xs ! i) (xs ! j) xs"
proof -
  assume ij: "i < j" "j < length xs"
  have "xs = take j xs @ xs ! j # drop (Suc j) xs" using ij by (simp add: id_take_nth_drop)
  moreover have "take j xs = take i (take j xs) @ xs ! i # drop (Suc i) (take j xs)"
    using ij id_take_nth_drop [of i "take j xs"] by simp
  ultimately have "xs = take i (take j xs) @ xs ! i # drop (Suc i) (take j xs) @ xs ! j # drop (Suc j) xs"
    by (metis append.assoc append_Cons)
  then show ?thesis unfolding precedes_def by blast
qed

lemma precedes_append_left: "precedes p r xs \<Longrightarrow> precedes p r (xs @ ys)"
  unfolding precedes_def by (metis append.assoc append_Cons)

lemma precedes_append_right: "precedes p r ys \<Longrightarrow> precedes p r (xs @ ys)"
  unfolding precedes_def by (metis append.assoc)

lemma precedes_across: "p \<in> set xs \<Longrightarrow> r \<in> set ys \<Longrightarrow> precedes p r (xs @ ys)"
proof -
  assume "p \<in> set xs" "r \<in> set ys"
  then obtain us vs us' ws where "xs = us @ p # vs" "ys = us' @ r # ws" by (metis split_list)
  then have "xs @ ys = us @ p # (vs @ us') @ r # ws" by simp
  then show ?thesis unfolding precedes_def by blast
qed

lemma precedes_sorted:
  assumes "sorted (map f xs)" "p \<in> set xs" "r \<in> set xs" "f p < f r"
  shows "precedes p r xs"
proof -
  obtain i j where i: "i < length xs" "xs ! i = p" and j: "j < length xs" "xs ! j = r"
    using assms(2,3) by (auto simp: in_set_conv_nth)
  have "i < j"
  proof (rule ccontr)
    assume "\<not> i < j"
    then have "map f xs ! j \<le> map f xs ! i" using assms(1) i(1) j(1) by (intro sorted_nth_mono) auto
    then show False using i j assms(4) by simp
  qed
  then show ?thesis using precedes_nth [of i j xs] i j by simp
qed

lemma topoInv_length:
  assumes "topoInv rs deps s" "distinct (map ReceiptID rs)"
  shows "length (tResult s) \<le> length rs"
proof -
  have d: "distinct (tResult s)" "set (tResult s) \<subseteq> set rs" using assms(1) by (auto simp: topoInv_def distinct_map)
  then have "card (set (tResult s)) \<le> card (set rs)" by (intro card_mono) auto
  then show ?thesis using d(1) assms(2) by (simp add: distinct_card distinct_map)
qed

text \<open>
  \<open>topoSort\<close> returns, and its result is a permutation of the input: a front that respects
  the dependencies and a timestamp-sorted rest whose members all wait for a receipt outside
  the front.
\<close>

lemma topoSort_result:
  assumes srt: "slice_sort srt" and dist: "distinct (map ReceiptID rs)"
  obtains front late where "topoSort srt rs deps (byIDOf rs) = Some (front @ late)"
    "mset (front @ late) = mset rs" "depsOrdered deps front" "sorted (map TimestampNS late)"
    "\<forall>r\<in>set late. \<not> set (deps (ReceiptID r)) \<subseteq> ReceiptID ` set front"
proof -
  let ?step = "topoStep srt (snd (countDegrees deps rs)) (byIDOf rs)" and ?s0 = "topoInit srt deps rs"
  have i0: "topoInv rs deps ?s0" by (rule topoInit_inv [OF srt dist])
  have "\<exists>t. while_option (\<lambda>s. queue s \<noteq> []) ?step ?s0 = Some t"
  proof (rule measure_while_option_Some [where P = "topoInv rs deps" and f = "\<lambda>s. length rs - length (tResult s)"])
    fix s assume s: "topoInv rs deps s" "queue s \<noteq> []"
    note st = topoStep_inv [OF srt dist s]
    have "length (tResult (?step s)) \<le> length rs" using topoInv_length [OF st(1) dist] .
    then show "topoInv rs deps (?step s) \<and> length rs - length (tResult (?step s)) < length rs - length (tResult s)"
      using st by simp
  qed (rule i0)
  then obtain s where w: "while_option (\<lambda>s. queue s \<noteq> []) ?step ?s0 = Some s" by blast
  have inv: "topoInv rs deps s"
    using while_option_rule [where P = "topoInv rs deps", OF _ w i0] topoStep_inv(1) [OF srt dist] by blast
  have q: "queue s = []" using while_option_stop [OF w] by simp
  let ?front = "tResult s" and ?rem = "filter (\<lambda>r. ReceiptID r \<notin> ReceiptID ` set (tResult s)) rs"
  have df: "distinct (map ReceiptID ?front)" "set ?front \<subseteq> set rs"
    using inv q by (auto simp: topoInv_def)
  have inr: "ReceiptID r \<in> ReceiptID ` set ?front \<longleftrightarrow> r \<in> set ?front" if "r \<in> set rs" for r
    using dist df(2) that by (auto simp: distinct_map inj_on_def)
  have "mset ?front = mset (filter (\<lambda>r. ReceiptID r \<in> ReceiptID ` set ?front) rs)"
    using df dist inr by (intro set_eq_iff_mset_eq_distinct [THEN iffD1]) (auto simp: distinct_map)
  then have perm: "mset (?front @ ?rem) = mset rs" 
    using multiset_partition [of "mset rs" "\<lambda>r. ReceiptID r \<in> ReceiptID ` set ?front"] by simp
  have len: "length ?front < length rs \<or> ?rem = []"
    using arg_cong [OF perm, of size] by (cases ?rem) auto
  have "topoSort srt rs deps (byIDOf rs) = Some (?front @ (if length ?front < length rs then srt ?rem else []))"
    by (simp add: topoSort_def w Let_def)
  moreover have "srt [] = []" using slice_sortD(1) [OF srt, of "[]"] by simp
  ultimately have res: "topoSort srt rs deps (byIDOf rs) = Some (?front @ srt ?rem)" using len by auto
  show thesis
  proof (rule that [OF res])
    show "mset (?front @ srt ?rem) = mset rs" using perm slice_sortD(1) [OF srt] by simp
    show "depsOrdered deps ?front" using inv by (simp add: topoInv_def)
    show "sorted (map TimestampNS (srt ?rem))" by (rule slice_sortD(2) [OF srt])
    show "\<forall>r\<in>set (srt ?rem). \<not> set (deps (ReceiptID r)) \<subseteq> ReceiptID ` set ?front"
    proof
      fix r assume "r \<in> set (srt ?rem)"
      then have r: "r \<in> set rs" "r \<notin> set ?front" using slice_sort_set [OF srt] by auto
      then have "inDegree s (ReceiptID r) \<noteq> 0" using inv q by (auto simp: topoInv_def)
      then show "\<not> set (deps (ReceiptID r)) \<subseteq> ReceiptID ` set ?front"
        using inv r(1) pending_zero [of deps "emitted s"] by (auto simp: topoInv_def emitted_def)
    qed
  qed
qed

lemma depsOrdered_precedes:
  assumes "depsOrdered deps front" "r \<in> set front" "ReceiptID p \<in> set (deps (ReceiptID r))"
    and "\<And>x. x \<in> set front \<Longrightarrow> ReceiptID x = ReceiptID p \<Longrightarrow> x = p"
  shows "precedes p r front"
proof -
  obtain i where i: "i < length front" "front ! i = r" using assms(2) by (auto simp: in_set_conv_nth)
  then have "ReceiptID p \<in> ReceiptID ` set (take i front)" using assms(1,3) by (auto simp: depsOrdered_def)
  then have "p \<in> set (take i front)" using assms(4) by (metis image_iff in_set_takeD)
  then obtain j where "j < i" "front ! j = p" using i(1) by (auto simp: in_set_conv_nth)
  then show ?thesis using precedes_nth [of j i front] i by simp
qed

lemma topoSort_precedes:
  assumes srt: "slice_sort srt" and dist: "distinct (map ReceiptID rs)"
  obtains res where "topoSort srt rs deps (byIDOf rs) = Some res" "mset res = mset rs"
    "\<And>p r. p \<in> set rs \<Longrightarrow> r \<in> set rs \<Longrightarrow> ReceiptID p \<in> set (deps (ReceiptID r)) \<Longrightarrow>
        TimestampNS p < TimestampNS r \<Longrightarrow> precedes p r res"
    "\<And>rank :: Receipt \<Rightarrow> nat. (\<forall>r\<in>set rs. \<forall>d\<in>set (deps (ReceiptID r)). \<exists>p\<in>set rs. ReceiptID p = d \<and> rank p < rank r) \<Longrightarrow>
        depsOrdered deps res"
proof -
  obtain front late where fb: "topoSort srt rs deps (byIDOf rs) = Some (front @ late)"
    "mset (front @ late) = mset rs" "depsOrdered deps front" "sorted (map TimestampNS late)"
    "\<forall>r\<in>set late. \<not> set (deps (ReceiptID r)) \<subseteq> ReceiptID ` set front"
    by (rule topoSort_result [OF assms])
  have st: "set rs = set front \<union> set late" using mset_eq_setD [OF fb(2)] by simp
  have inj: "x = p" if "x \<in> set rs" "p \<in> set rs" "ReceiptID x = ReceiptID p" for x p
    using dist that by (auto simp: distinct_map inj_on_def)
  show thesis
  proof (rule that [OF fb(1,2)])
    fix p r assume pr: "p \<in> set rs" "r \<in> set rs" "ReceiptID p \<in> set (deps (ReceiptID r))" "TimestampNS p < TimestampNS r"
    show "precedes p r (front @ late)"
    proof (cases "r \<in> set front")
      case True
      then have "precedes p r front" using depsOrdered_precedes [OF fb(3) True pr(3)] inj pr(1) st by blast
      then show ?thesis by (rule precedes_append_left)
    next
      case False
      then have rb: "r \<in> set late" using pr(2) st by blast
      show ?thesis
      proof (cases "p \<in> set front")
        case True
        then show ?thesis using rb by (rule precedes_across)
      next
        case False
        then have "p \<in> set late" using pr(1) st by blast
        from precedes_sorted [OF fb(4) this rb pr(4)] show ?thesis by (rule precedes_append_right)
      qed
    qed
  next
    fix rank :: "Receipt \<Rightarrow> nat"
    assume rk: "\<forall>r\<in>set rs. \<forall>d\<in>set (deps (ReceiptID r)). \<exists>p\<in>set rs. ReceiptID p = d \<and> rank p < rank r"
    have "r \<notin> set late" for r
    proof (induction "rank r" arbitrary: r rule: less_induct)
      case less
      show ?case
      proof
        assume r: "r \<in> set late"
        then obtain d where d: "d \<in> set (deps (ReceiptID r))" "d \<notin> ReceiptID ` set front" using fb(5) by blast
        then obtain p where "p \<in> set rs" "ReceiptID p = d" "rank p < rank r" using rk r st by blast
        then show False using less [of p] d(2) st by blast
      qed
    qed
    then have "late = []" by (cases late) auto
    then show "depsOrdered deps (front @ late)" using fb(3) by simp
  qed
qed

section \<open>Merging a well-formed chain\<close>

definition rowReceipt :: "receipt_row \<Rightarrow> Receipt" where
  "rowReceipt row = (case unmarshalReceipt (raw_receipt row) of Some r \<Rightarrow> r | None \<Rightarrow> zeroReceipt)"

lemma rowReceipt_ok:
  assumes "row_ok C K row"
  shows "decodeRow row = Ok (rowReceipt row)" "ReceiptID (rowReceipt row) = receipt_id row"
    "AgentID (rowReceipt row) = agent_id row"
  by (rule row_okE [OF assms], simp add: decodeRow_def rowReceipt_def)+

lemma decodeRows_ok: "\<forall>row\<in>set rows. row_ok C K row \<Longrightarrow> decodeRows rows = Ok (map rowReceipt rows)"
  by (induction rows) (auto simp: rowReceipt_ok)

lemma ListReceipts_agent:
  assumes inv: "chain_inv C K c" and "aid \<noteq> ''''"
  shows "ListReceipts False False (noFilter\<lparr>qAgentID := aid\<rparr>) c =
    Ok (rev (map rowReceipt (filter (\<lambda>row. agent_id row = aid) (receipts (db c)))))"
proof -
  have ok: "\<forall>row\<in>set (receipts (db c)). row_ok C K row"
    and so: "sorted (map chain_index (receipts (db c)))"
    using inv chained_sorted by (auto simp: chain_inv_def Let_def list_all_iff)
  have "selectRows (noFilter\<lparr>qAgentID := aid\<rparr>) (db c) = rev (filter (\<lambda>row. agent_id row = aid) (receipts (db c)))"
    using assms(2) sort_key_sorted_id [OF so]
    by (simp add: selectRows_def noFilter_def matchesQuery_def [abs_def] sort_key_filter_comm)
  then show ?thesis
    using decodeRows_ok [of "rev (filter (\<lambda>row. agent_id row = aid) (receipts (db c)))" C K] ok
    by (simp add: ListReceipts_def rev_map)
qed

lemma collect_ok:
  assumes "chain_inv C K c" and "'''' \<notin> set aids" and "distinct aids"
  shows "\<exists>rs. collect (\<lambda>_. False) c aids = Ok rs \<and>
    mset rs = mset (map rowReceipt (filter (\<lambda>row. agent_id row \<in> set aids) (receipts (db c))))"
  using assms(2,3)
proof (induction aids)
  case (Cons aid aids)
  then obtain rs where rs: "collect (\<lambda>_. False) c aids = Ok rs"
    "mset rs = mset (map rowReceipt (filter (\<lambda>row. agent_id row \<in> set aids) (receipts (db c))))" by auto
  have one: "ListReceipts False False (noFilter\<lparr>qAgentID := aid\<rparr>) c =
      Ok (rev (map rowReceipt (filter (\<lambda>row. agent_id row = aid) (receipts (db c)))))"
    using Cons.prems by (intro ListReceipts_agent [OF assms(1)]) auto
  have "mset (filter (\<lambda>row. agent_id row \<in> set (aid # aids)) rows) =
      mset (filter (\<lambda>row. agent_id row = aid) rows) + mset (filter (\<lambda>row. agent_id row \<in> set aids) rows)" for rows
    using Cons.prems by (induction rows) auto
  from arg_cong [OF this [of "receipts (db c)"], of "image_mset rowReceipt"]
  show ?case using one rs by simp
qed simp

section \<open>Properties\<close>

text \<open>
  C17. The causal merge loses and duplicates nothing and always returns. On a well-formed chain,
  for distinct agents, \<open>MergeChains\<close> returns exactly the stored receipts of these agents,
  each once and labelled with its agent, and a post-action receipt comes after its pre-action
  receipt whenever the pre-action receipt has the smaller timestamp, whatever the order
  \<open>sort.Slice\<close> gives to equal timestamps.
\<close>

theorem merge_is_causal_permutation:
  assumes "chain_inv C K c" and "slice_sort srt" and "distinct agentIDs" and "'''' \<notin> set agentIDs"
  shows "\<exists>ms. MergeChains srt (\<lambda>_. False) xfault agentIDs c = Some (Ok ms) \<and>
    mset (map MReceipt ms) = mset (map rowReceipt (filter (\<lambda>row. agent_id row \<in> set agentIDs) (receipts (db c)))) \<and>
    (\<forall>m\<in>set ms. SourceAgentID m = AgentID (MReceipt m)) \<and>
    (\<forall>p\<in>set (map MReceipt ms). \<forall>r\<in>set (map MReceipt ms).
       Phase r = PhasePost \<and> PreReceiptID r = ReceiptID p \<and> ReceiptID p \<noteq> '''' \<and> TimestampNS p < TimestampNS r \<longrightarrow>
       precedes p r (map MReceipt ms))"
proof -
  let ?sel = "filter (\<lambda>row. agent_id row \<in> set agentIDs) (receipts (db c))"
  obtain rs where rs: "collect (\<lambda>_. False) c agentIDs = Ok rs" "mset rs = mset (map rowReceipt ?sel)"
    using collect_ok [OF assms(1,4,3)] by blast
  have ok: "\<forall>row\<in>set (receipts (db c)). row_ok C K row" and di: "distinct (map receipt_id (receipts (db c)))"
    using assms(1) by (auto simp: chain_inv_def Let_def list_all_iff)
  have "map ReceiptID (map rowReceipt ?sel) = map receipt_id ?sel"
    using ok rowReceipt_ok(2) by (auto simp: map_eq_conv)
  then have "distinct (map ReceiptID (map rowReceipt ?sel))" using distinct_map_filter [OF di] by presburger
  then have dist: "distinct (map ReceiptID rs)"
    using mset_eq_distinctD [of "map ReceiptID rs" "map ReceiptID (map rowReceipt ?sel)"] rs(2)
    by (metis mset_map)
  show ?thesis
  proof (cases "rs = []")
    case True
    then show ?thesis using rs by (auto simp: MergeChains_def)
  next
    case False
    let ?deps = "depsOf xfault c rs"
    obtain res where res: "topoSort srt rs ?deps (byIDOf rs) = Some res" "mset res = mset rs"
      and pr: "\<And>p r. p \<in> set rs \<Longrightarrow> r \<in> set rs \<Longrightarrow> ReceiptID p \<in> set (?deps (ReceiptID r)) \<Longrightarrow>
        TimestampNS p < TimestampNS r \<Longrightarrow> precedes p r res"
      by (rule topoSort_precedes [OF assms(2) dist, of ?deps]) blast
    have st: "set res = set rs" using mset_eq_setD [OF res(2)] .
    let ?ms = "map (\<lambda>r. \<lparr>MReceipt = r, SourceAgentID = AgentID r\<rparr>) res"
    have mr: "map MReceipt ?ms = res" by (simp add: comp_def)
    have "precedes p r res" if "p \<in> set res" "r \<in> set res" "Phase r = PhasePost" "PreReceiptID r = ReceiptID p"
        "ReceiptID p \<noteq> ''''" "TimestampNS p < TimestampNS r" for p r
    proof (rule pr)
      show "ReceiptID p \<in> set (?deps (ReceiptID r))"
        using that st by (simp add: depsOf_in [OF dist] beforeOf_def byIDOf_in [OF dist])
    qed (use that st in auto)
    moreover have "MergeChains srt (\<lambda>_. False) xfault agentIDs c = Some (Ok ?ms)"
      using False by (simp add: MergeChains_def rs(1) res(1))
    ultimately show ?thesis using rs(2) res(2) mr by (intro exI [of _ ?ms]) auto
  qed
qed

text \<open>
  Kahn's loop is a topological sort. For receipts with distinct identifiers and
  dependencies that stay inside the set and have no cycle, \<open>topoSort\<close> returns a permutation
  in which every receipt stands after all its dependencies, also when the timestamps disagree.
\<close>

theorem topoSort_respects_dependencies:
  assumes "slice_sort srt" and "distinct (map ReceiptID rs)"
    and "\<forall>r\<in>set rs. \<forall>d\<in>set (deps (ReceiptID r)). \<exists>p\<in>set rs. ReceiptID p = d \<and> (rank p :: nat) < rank r"
  shows "\<exists>res. topoSort srt rs deps (byIDOf rs) = Some res \<and> mset res = mset rs \<and>
    (\<forall>i < length res. set (deps (ReceiptID (res ! i))) \<subseteq> ReceiptID ` set (take i res))"
proof -
  obtain res where "topoSort srt rs deps (byIDOf rs) = Some res" "mset res = mset rs" "depsOrdered deps res"
    by (rule topoSort_precedes [OF assms(1,2), of deps]) (use assms(3) in blast)
  then show ?thesis unfolding depsOrdered_def by blast
qed

section \<open>Concrete instances\<close>

lemma sort_key_slice_sort: "slice_sort (sort_key TimestampNS)"
  by (simp add: slice_sort_def)

theorem merge_is_causal_permutation_witness:
  "\<exists>ms. MergeChains (sort_key TimestampNS) (\<lambda>_. False) (\<lambda>_. False) [''ans_agent''] (exChain 3) = Some (Ok ms) \<and>
    mset (map MReceipt ms) = mset (map rowReceipt (filter (\<lambda>row. agent_id row \<in> {''ans_agent''}) (exRows 3)))"
  using merge_is_causal_permutation [OF exChain_inv sort_key_slice_sort, of 3 "[''ans_agent'']" "\<lambda>_. False"]
  by (auto simp: exChain_def simp del: exRows.simps)

definition exPre :: Receipt where
  "exPre = zeroReceipt\<lparr>ReceiptID := ''a'', Phase := PhasePre, TimestampNS := 9\<rparr>"

definition exPost :: Receipt where
  "exPost = zeroReceipt\<lparr>ReceiptID := ''b'', Phase := PhasePost, PreReceiptID := ''a'', TimestampNS := 3\<rparr>"

theorem topoSort_respects_dependencies_witness:
  "\<exists>res. topoSort (sort_key TimestampNS) [exPost, exPre] (\<lambda>i. if i = ''b'' then [''a''] else []) (byIDOf [exPost, exPre]) = Some res \<and>
    mset res = mset [exPost, exPre] \<and>
    (\<forall>i < length res. set ((\<lambda>i. if i = ''b'' then [''a''] else []) (ReceiptID (res ! i))) \<subseteq> ReceiptID ` set (take i res))"
  by (rule topoSort_respects_dependencies [OF sort_key_slice_sort, where rank = "\<lambda>r. length (PreReceiptID r)"])
     (simp_all add: exPre_def exPost_def zeroReceipt_def)

end
