(* ===== verification/TokenStore.thy ===== *)
theory TokenStore
  imports Json
begin

text \<open>
  \<open>internal/identitybroker/store.go\<close> and the data types of \<open>broker.go\<close>: ephemeral
  tokens, the \<open>TokenStore\<close> interface as a record of operations with the locale of what it
  promises, and the SQLite implementation, which is interpreted in that locale.
  A \<open>time.Time\<close> is the number of nanoseconds since the Unix epoch, an unbounded integer
  (the zero time lies in the year 1); \<open>UnixNano\<close> wraps it to 64 bits.
\<close>

section \<open>Data\<close>

type_synonym time = int

definition zeroTime :: time where
  "zeroTime = - 62135596800 * 10 ^ 9"

record Token =
  tkID :: string
  tkAgentID :: string
  tkResource :: string
  tkResourceType :: string
  tkExpiresAt :: time
  tkCreatedAt :: time
  tkLastUsedAt :: time
  tkUsageCount :: i64
  tkMaxUsage :: i64
  tkRevoked :: bool
  tkRevokedAt :: time
  tkRevokedBy :: string
  tkProviderData :: string
  tkMetadata :: string

datatype token_err =
    DriverFailed
  | NoRows
  | BadProviderData string
  | BadMetadata string

section \<open>The interface\<close>

text \<open>
  \<open>type TokenStore interface\<close>: an implementation is a record of its methods, each a function
  of the store's state. \<open>CleanupExpired\<close> and \<open>RevokeAllForAgent\<close> read the wall clock.
\<close>

record 's TokenStore =
  tsInsert :: "Token \<Rightarrow> 's \<Rightarrow> (token_err + unit) \<times> 's"
  tsGet :: "string \<Rightarrow> 's \<Rightarrow> (token_err + Token) \<times> 's"
  tsUpdate :: "Token \<Rightarrow> 's \<Rightarrow> (token_err + unit) \<times> 's"
  tsDelete :: "string \<Rightarrow> 's \<Rightarrow> (token_err + unit) \<times> 's"
  tsList :: "string \<Rightarrow> string \<Rightarrow> i64 \<Rightarrow> 's \<Rightarrow> (token_err + Token list) \<times> 's"
  tsCleanupExpired :: "i64 \<Rightarrow> 's \<Rightarrow> (token_err + nat) \<times> 's"
  tsRevokeAllForAgent :: "i64 \<Rightarrow> string \<Rightarrow> string \<Rightarrow> 's \<Rightarrow> (token_err + unit) \<times> 's"

text \<open>
  What a client may rely on, over the tokens the store holds (\<open>lookup\<close>): a call that
  fails leaves them as they were, a call that succeeds changes exactly what it names. \<open>canon\<close>
  is what a stored token reads back as.
\<close>

definition revokeToken :: "i64 \<Rightarrow> string \<Rightarrow> Token \<Rightarrow> Token" where
  "revokeToken now by t = t\<lparr>tkRevoked := True, tkRevokedAt := now, tkRevokedBy := by\<rparr>"

definition expiredToken :: "i64 \<Rightarrow> Token \<Rightarrow> bool" where
  "expiredToken now t \<longleftrightarrow> tkExpiresAt t < now \<or> (tkRevoked t \<and> tkRevokedAt t < now)"

locale token_store =
  fixes S :: "'s TokenStore"
    and lookup :: "'s \<Rightarrow> string \<Rightarrow> Token option"
    and canon :: "Token \<Rightarrow> Token"
    and ok :: "'s \<Rightarrow> bool"
  assumes insert_law: "ok s \<Longrightarrow> tsInsert S t s = (r, s') \<Longrightarrow>
      ok s' \<and> lookup s' = (if isl r then lookup s else (lookup s)(tkID t \<mapsto> canon t))"
    and get_law: "ok s \<Longrightarrow> tsGet S i s = (g, s') \<Longrightarrow>
      ok s' \<and> lookup s' = lookup s \<and> (\<forall>t. g = Inr t \<longrightarrow> lookup s i = Some t)"
    and update_law: "ok s \<Longrightarrow> tsUpdate S t s = (r, s') \<Longrightarrow>
      ok s' \<and> lookup s' = (if isl r \<or> lookup s (tkID t) = None then lookup s
                            else (lookup s)(tkID t \<mapsto> canon t))"
    and delete_law: "ok s \<Longrightarrow> tsDelete S i s = (r, s') \<Longrightarrow>
      ok s' \<and> lookup s' = (if isl r then lookup s else (lookup s)(i := None))"
    and list_law: "ok s \<Longrightarrow> tsList S a ty n s = (l, s') \<Longrightarrow>
      ok s' \<and> lookup s' = lookup s \<and> (\<forall>ts t. l = Inr ts \<longrightarrow> t \<in> set ts \<longrightarrow> lookup s (tkID t) = Some t)"
    and cleanup_law: "ok s \<Longrightarrow> tsCleanupExpired S now s = (c, s') \<Longrightarrow>
      ok s' \<and> lookup s' = (if isl c then lookup s
        else (\<lambda>i. case lookup s i of None \<Rightarrow> None | Some t \<Rightarrow> if expiredToken now t then None else Some t))"
    and revoke_all_law: "ok s \<Longrightarrow> tsRevokeAllForAgent S now a by s = (r, s') \<Longrightarrow>
      ok s' \<and> lookup s' = (if isl r then lookup s
        else (\<lambda>i. case lookup s i of None \<Rightarrow> None | Some t \<Rightarrow>
               Some (if tkAgentID t = a \<and> \<not> tkRevoked t then revokeToken now by t else t)))"
    and lookup_id: "ok s \<Longrightarrow> lookup s i = Some t \<Longrightarrow> tkID t = i"
    and canon_keeps: "tkID (canon t) = tkID t" "tkRevoked (canon t) = tkRevoked t"
      "tkUsageCount (canon t) = tkUsageCount t" "tkMaxUsage (canon t) = tkMaxUsage t"
      "tkAgentID (canon t) = tkAgentID t"

section \<open>The SQLite table\<close>

record token_row =
  trId :: string
  trAgentId :: string
  trResource :: string
  trResourceType :: string
  trExpiresAt :: i64
  trCreatedAt :: i64
  trLastUsedAt :: i64
  trUsageCount :: i64
  trMaxUsage :: i64
  trRevoked :: i64
  trRevokedAt :: i64
  trRevokedBy :: string
  trProviderData :: string
  trMetadata :: string

text \<open>
  The database as the store sees it: the rows in insertion order and a script that says of each
  coming statement whether the driver fails it (an empty script: none fails).
\<close>

record token_db =
  tokTable :: "token_row list"
  tokFaults :: "bool list"

definition dbStep :: "token_db \<Rightarrow> bool \<times> token_db" where
  "dbStep db = (case tokFaults db of [] \<Rightarrow> (False, db) | f # fs \<Rightarrow> (f, db\<lparr>tokFaults := fs\<rparr>))"

text \<open>A statement: when the driver fails it, nothing changes.\<close>

definition dbExec :: "(token_row list \<Rightarrow> token_row list \<times> 'a) \<Rightarrow> token_db \<Rightarrow> (token_err + 'a) \<times> token_db" where
  "dbExec f db = (case dbStep db of (failed, db') \<Rightarrow>
     if failed then (Inl DriverFailed, db')
     else (case f (tokTable db') of (rows, v) \<Rightarrow> (Inr v, db'\<lparr>tokTable := rows\<rparr>)))"

definition UnixNano :: "time \<Rightarrow> i64" where
  "UnixNano t = wrap64 t"

definition boolToInt_token :: "bool \<Rightarrow> i64" where
  "boolToInt_token b = (if b then 1 else 0)"

text \<open>\<open>json.Marshal\<close> of a string never fails.\<close>

definition tokenRow :: "Token \<Rightarrow> token_row" where
  "tokenRow t = \<lparr>trId = tkID t, trAgentId = tkAgentID t, trResource = tkResource t,
     trResourceType = tkResourceType t, trExpiresAt = UnixNano (tkExpiresAt t),
     trCreatedAt = UnixNano (tkCreatedAt t), trLastUsedAt = UnixNano (tkLastUsedAt t),
     trUsageCount = tkUsageCount t, trMaxUsage = tkMaxUsage t,
     trRevoked = boolToInt_token (tkRevoked t), trRevokedAt = UnixNano (tkRevokedAt t),
     trRevokedBy = tkRevokedBy t, trProviderData = jsonString (tkProviderData t),
     trMetadata = jsonString (tkMetadata t)\<rparr>"

definition unmarshalString :: "string \<Rightarrow> string option" where
  "unmarshalString s = (case jsonParse s of Some (JStr x) \<Rightarrow> Some x | Some JNull \<Rightarrow> Some [] | _ \<Rightarrow> None)"

definition scanToken :: "token_row \<Rightarrow> token_err + Token" where
  "scanToken r =
     (case unmarshalString (trProviderData r) of None \<Rightarrow> Inl (BadProviderData (trId r)) | Some pd \<Rightarrow>
     (case unmarshalString (trMetadata r) of None \<Rightarrow> Inl (BadMetadata (trId r)) | Some md \<Rightarrow>
        Inr \<lparr>tkID = trId r, tkAgentID = trAgentId r, tkResource = trResource r,
          tkResourceType = trResourceType r, tkExpiresAt = trExpiresAt r, tkCreatedAt = trCreatedAt r,
          tkLastUsedAt = trLastUsedAt r, tkUsageCount = trUsageCount r, tkMaxUsage = trMaxUsage r,
          tkRevoked = (trRevoked r \<noteq> 0), tkRevokedAt = trRevokedAt r, tkRevokedBy = trRevokedBy r,
          tkProviderData = pd, tkMetadata = md\<rparr>))"

section \<open>Operations\<close>

text \<open>\<open>INSERT OR REPLACE\<close>: a row with this primary key goes, the new row comes last.\<close>

definition TokenInsert :: "Token \<Rightarrow> token_db \<Rightarrow> (token_err + unit) \<times> token_db" where
  "TokenInsert t = dbExec (\<lambda>rows. (filter (\<lambda>r. trId r \<noteq> tkID t) rows @ [tokenRow t], ()))"

definition TokenGet :: "string \<Rightarrow> token_db \<Rightarrow> (token_err + Token) \<times> token_db" where
  "TokenGet i db = (case dbExec (\<lambda>rows. (rows, find (\<lambda>r. trId r = i) rows)) db of
     (Inl e, db') \<Rightarrow> (Inl e, db')
   | (Inr None, db') \<Rightarrow> (Inl NoRows, db')
   | (Inr (Some r), db') \<Rightarrow> (scanToken r, db'))"

text \<open>\<open>UPDATE ... WHERE id=?\<close>: no row, no error.\<close>

definition TokenUpdate :: "Token \<Rightarrow> token_db \<Rightarrow> (token_err + unit) \<times> token_db" where
  "TokenUpdate t = dbExec (\<lambda>rows. (map (\<lambda>r. if trId r = tkID t then tokenRow t else r) rows, ()))"

definition TokenDelete :: "string \<Rightarrow> token_db \<Rightarrow> (token_err + unit) \<times> token_db" where
  "TokenDelete i = dbExec (\<lambda>rows. (filter (\<lambda>r. trId r \<noteq> i) rows, ()))"

fun scanTokens :: "token_row list \<Rightarrow> token_err + Token list" where
  "scanTokens [] = Inr []"
| "scanTokens (r # rs) = (case scanToken r of Inl e \<Rightarrow> Inl e | Inr t \<Rightarrow>
     (case scanTokens rs of Inl e \<Rightarrow> Inl e | Inr ts \<Rightarrow> Inr (t # ts)))"

text \<open>The empty string is no filter; a negative \<open>LIMIT\<close> is none.\<close>

definition selectTokens :: "string \<Rightarrow> string \<Rightarrow> i64 \<Rightarrow> token_row list \<Rightarrow> token_row list" where
  "selectTokens a ty n rows = (let
       sel = filter (\<lambda>r. (a \<noteq> [] \<longrightarrow> trAgentId r = a) \<and> (ty \<noteq> [] \<longrightarrow> trResourceType r = ty)) rows;
       srt = sort_key (\<lambda>r. - trCreatedAt r) sel
     in if n < 0 then srt else take (nat n) srt)"

definition TokenList :: "string \<Rightarrow> string \<Rightarrow> i64 \<Rightarrow> token_db \<Rightarrow> (token_err + Token list) \<times> token_db" where
  "TokenList a ty n db = (case dbExec (\<lambda>rows. (rows, selectTokens a ty n rows)) db of
     (Inl e, db') \<Rightarrow> (Inl e, db')
   | (Inr rs, db') \<Rightarrow> (scanTokens rs, db'))"

definition cleanupRow :: "i64 \<Rightarrow> token_row \<Rightarrow> bool" where
  "cleanupRow now r \<longleftrightarrow> trExpiresAt r < now \<or> (trRevoked r = 1 \<and> trRevokedAt r < now)"

definition TokenCleanupExpired :: "i64 \<Rightarrow> token_db \<Rightarrow> (token_err + nat) \<times> token_db" where
  "TokenCleanupExpired now =
     dbExec (\<lambda>rows. (filter (\<lambda>r. \<not> cleanupRow now r) rows, length (filter (cleanupRow now) rows)))"

definition TokenRevokeAllForAgent :: "i64 \<Rightarrow> string \<Rightarrow> string \<Rightarrow> token_db \<Rightarrow> (token_err + unit) \<times> token_db" where
  "TokenRevokeAllForAgent now a by = dbExec (\<lambda>rows. (map (\<lambda>r.
       if trAgentId r = a \<and> trRevoked r = 0
       then r\<lparr>trRevoked := 1, trRevokedAt := now, trRevokedBy := by\<rparr> else r) rows, ()))"

definition SQLiteTokenStore :: "token_db TokenStore" where
  "SQLiteTokenStore = \<lparr>tsInsert = TokenInsert, tsGet = TokenGet, tsUpdate = TokenUpdate,
     tsDelete = TokenDelete, tsList = TokenList, tsCleanupExpired = TokenCleanupExpired,
     tsRevokeAllForAgent = TokenRevokeAllForAgent\<rparr>"

definition NewTokenDB :: "bool list \<Rightarrow> token_db" where
  "NewTokenDB faults = \<lparr>tokTable = [], tokFaults = faults\<rparr>"

section \<open>What the table holds\<close>

lemma find_filter_key: "find (\<lambda>r. k r = i) (filter (\<lambda>r. k r \<noteq> j) rows) =
    (if i = j then None else find (\<lambda>r. k r = i) rows)"
  by (induction rows) auto

lemma find_map_key: "(\<And>r. k (f r) = k r) \<Longrightarrow>
    find (\<lambda>r. k r = i) (map f rows) = map_option f (find (\<lambda>r. k r = i) rows)"
  by (induction rows) auto

lemma find_SomeD: "find P xs = Some x \<Longrightarrow> x \<in> set xs \<and> P x"
  by (auto simp: find_Some_iff)

lemma find_filter_distinct: "distinct (map k rows) \<Longrightarrow> find (\<lambda>r. k r = i) (filter P rows) =
    (case find (\<lambda>r. k r = i) rows of None \<Rightarrow> None | Some r \<Rightarrow> if P r then Some r else None)"
proof (induction rows)
  case (Cons a rows)
  then have "k a \<notin> k ` set rows" by simp
  then have "find (\<lambda>r. k r = k a) rows = None" by (metis (mono_tags, lifting) find_None_iff imageI)
  with Cons show ?case by (auto split: option.splits)
qed simp

lemma find_key_mem: "distinct (map k rows) \<Longrightarrow> r \<in> set rows \<Longrightarrow> find (\<lambda>x. k x = k r) rows = Some r"
  by (induction rows) (auto simp: image_iff)

definition canonToken :: "Token \<Rightarrow> Token" where
  "canonToken t = t\<lparr>tkExpiresAt := UnixNano (tkExpiresAt t), tkCreatedAt := UnixNano (tkCreatedAt t),
     tkLastUsedAt := UnixNano (tkLastUsedAt t), tkRevokedAt := UnixNano (tkRevokedAt t),
     tkProviderData := coerceUtf8 (tkProviderData t), tkMetadata := coerceUtf8 (tkMetadata t)\<rparr>"

definition tokLookup :: "token_db \<Rightarrow> string \<Rightarrow> Token option" where
  "tokLookup db i = (case find (\<lambda>r. trId r = i) (tokTable db) of None \<Rightarrow> None | Some r \<Rightarrow>
     (case scanToken r of Inl _ \<Rightarrow> None | Inr t \<Rightarrow> Some t))"

text \<open>
  The invariant of the table: the primary key is unique, every row decodes, and the flag is
  zero or one.
\<close>

definition rowOk :: "token_row \<Rightarrow> bool" where
  "rowOk r \<longleftrightarrow> \<not> isl (scanToken r) \<and> trRevoked r \<in> {0, 1}"

definition tokOk :: "token_db \<Rightarrow> bool" where
  "tokOk db \<longleftrightarrow> distinct (map trId (tokTable db)) \<and> (\<forall>r\<in>set (tokTable db). rowOk r)"

lemma unmarshalString_jsonString [simp]: "unmarshalString (jsonString s) = Some (coerceUtf8 s)"
  by (simp add: unmarshalString_def jsonParse_string)

lemma scan_tokenRow [simp]: "scanToken (tokenRow t) = Inr (canonToken t)"
  by (simp add: scanToken_def tokenRow_def canonToken_def boolToInt_token_def)

lemma rowOk_tokenRow [simp]: "rowOk (tokenRow t)"
  by (simp add: rowOk_def) (simp add: tokenRow_def boolToInt_token_def)

lemma trId_tokenRow [simp]: "trId (tokenRow t) = tkID t"
  by (simp add: tokenRow_def)

lemma scanToken_key: "scanToken r = Inr t \<Longrightarrow> tkID t = trId r \<and> tkAgentID t = trAgentId r \<and>
    tkExpiresAt t = trExpiresAt r \<and> tkRevokedAt t = trRevokedAt r \<and> (tkRevoked t \<longleftrightarrow> trRevoked r \<noteq> 0)"
  by (auto simp: scanToken_def split: option.splits)

lemma scanToken_revoke:
  assumes "scanToken r = Inr t"
  shows "scanToken (r\<lparr>trRevoked := 1, trRevokedAt := now, trRevokedBy := by\<rparr>) = Inr (revokeToken now by t)"
  using assms by (auto simp: scanToken_def revokeToken_def split: option.splits)

text \<open>Every statement through \<open>dbExec\<close> fails without effect or runs on the table.\<close>

lemma dbExec_cases:
  assumes "dbExec f db = (r, db')"
  obtains (fault) "r = Inl DriverFailed" "tokTable db' = tokTable db"
  | (run) "r = Inr (snd (f (tokTable db)))" "tokTable db' = fst (f (tokTable db))"
  using assms by (auto simp: dbExec_def dbStep_def split: list.splits if_splits prod.splits)

lemma same_table: "tokTable db' = tokTable db \<Longrightarrow> tokOk db \<Longrightarrow> tokOk db' \<and> tokLookup db' = tokLookup db"
  by (auto simp: tokOk_def tokLookup_def)

lemma tokOk_row: "tokOk db \<Longrightarrow> r \<in> set (tokTable db) \<Longrightarrow> \<exists>t. scanToken r = Inr t"
  by (auto simp: tokOk_def rowOk_def isl_def) (metis sum.exhaust_sel sum.disc(1))

lemma tokLookup_row:
  assumes "tokOk db" and "find (\<lambda>r. trId r = i) (tokTable db) = Some r"
  shows "\<exists>t. scanToken r = Inr t \<and> tokLookup db i = Some t"
  using tokOk_row [OF assms(1)] find_SomeD [OF assms(2)] assms(2)
  by (fastforce simp: tokLookup_def)

section \<open>The SQLite store keeps the contract\<close>

lemma TokenInsert_law:
  assumes ok: "tokOk db" and run: "TokenInsert t db = (r, db')"
  shows "tokOk db' \<and> tokLookup db' = (if isl r then tokLookup db else (tokLookup db)(tkID t \<mapsto> canonToken t))"
  using run unfolding TokenInsert_def
proof (cases rule: dbExec_cases)
  case fault
  then show ?thesis using same_table [OF fault(2) ok] by simp
next
  case run
  then have "tokLookup db' i = (if i = tkID t then Some (canonToken t) else tokLookup db i)" for i
    by (simp add: tokLookup_def find_append find_filter_key split: option.splits)
  moreover have "tokOk db'"
    using ok run by (auto simp: tokOk_def distinct_map_filter)
  ultimately show ?thesis using run by auto
qed

lemma TokenGet_law:
  assumes ok: "tokOk db" and run: "TokenGet i db = (r, db')"
  shows "tokOk db' \<and> tokLookup db' = tokLookup db \<and> (\<forall>t. r = Inr t \<longrightarrow> tokLookup db i = Some t)"
proof -
  obtain g where g: "dbExec (\<lambda>rows. (rows, find (\<lambda>r. trId r = i) rows)) db = (g, db')"
    and r: "r = (case g of Inl e \<Rightarrow> Inl e | Inr None \<Rightarrow> Inl NoRows | Inr (Some x) \<Rightarrow> scanToken x)"
    using run by (auto simp: TokenGet_def split: prod.splits sum.splits option.splits)
  from g show ?thesis
  proof (cases rule: dbExec_cases)
    case fault
    then show ?thesis using same_table [OF fault(2) ok] r by simp
  next
    case run
    then show ?thesis using ok r
      by (auto simp: tokOk_def tokLookup_def split: option.splits)
  qed
qed

lemma TokenUpdate_law:
  assumes ok: "tokOk db" and run: "TokenUpdate t db = (r, db')"
  shows "tokOk db' \<and> tokLookup db' = (if isl r \<or> tokLookup db (tkID t) = None then tokLookup db
    else (tokLookup db)(tkID t \<mapsto> canonToken t))"
  using run unfolding TokenUpdate_def
proof (cases rule: dbExec_cases)
  case fault
  then show ?thesis using same_table [OF fault(2) ok] by simp
next
  case run
  let ?f = "\<lambda>r. if trId r = tkID t then tokenRow t else r"
  have key: "trId (?f r) = trId r" for r by simp
  have f: "find (\<lambda>r. trId r = i) (tokTable db') = map_option ?f (find (\<lambda>r. trId r = i) (tokTable db))" for i
    using run find_map_key [where k = trId and f = ?f, OF key] by simp
  have "tokLookup db' i = (if i = tkID t \<and> tokLookup db i \<noteq> None then Some (canonToken t) else tokLookup db i)" for i
  proof (cases "find (\<lambda>r. trId r = i) (tokTable db)")
    case None
    then show ?thesis by (simp add: tokLookup_def f)
  next
    case (Some x)
    then obtain u where "scanToken x = Inr u" "tokLookup db i = Some u" "trId x = i"
      using tokLookup_row [OF ok Some] find_SomeD [OF Some] by blast
    with Some show ?thesis by (simp add: tokLookup_def f)
  qed
  moreover have "map trId (tokTable db') = map trId (tokTable db)"
    using run by (simp add: key)
  then have "distinct (map trId (tokTable db'))" using ok by (simp only: tokOk_def)
  then have "tokOk db'"
    using ok run(2) by (simp only: tokOk_def) auto
  ultimately show ?thesis using run by auto
qed

lemma TokenDelete_law:
  assumes ok: "tokOk db" and run: "TokenDelete i db = (r, db')"
  shows "tokOk db' \<and> tokLookup db' = (if isl r then tokLookup db else (tokLookup db)(i := None))"
  using run unfolding TokenDelete_def
proof (cases rule: dbExec_cases)
  case fault
  then show ?thesis using same_table [OF fault(2) ok] by simp
next
  case run
  then have "tokLookup db' j = (if j = i then None else tokLookup db j)" for j
    by (simp add: tokLookup_def find_filter_key)
  moreover have "tokOk db'"
    using ok run by (auto simp: tokOk_def distinct_map_filter)
  ultimately show ?thesis using run by auto
qed

lemma scanTokens_mem:
  "scanTokens rs = Inr ts \<Longrightarrow> t \<in> set ts \<Longrightarrow> \<exists>r\<in>set rs. scanToken r = Inr t"
  by (induction rs arbitrary: ts) (auto split: sum.splits)

lemma set_selectTokens: "set (selectTokens a ty n rows) \<subseteq> set rows"
  by (auto simp: selectTokens_def Let_def dest: in_set_takeD split: if_splits)

lemma TokenList_law:
  assumes ok: "tokOk db" and run: "TokenList a ty n db = (r, db')"
  shows "tokOk db' \<and> tokLookup db' = tokLookup db \<and>
    (\<forall>ts t. r = Inr ts \<longrightarrow> t \<in> set ts \<longrightarrow> tokLookup db (tkID t) = Some t)"
proof -
  have mem: "tokLookup db (tkID t) = Some t"
    if sel: "scanTokens (selectTokens a ty n (tokTable db)) = Inr ts" and el: "t \<in> set ts" for ts t
  proof -
    obtain x where x: "x \<in> set (tokTable db)" "scanToken x = Inr t"
      using scanTokens_mem [OF sel el] set_selectTokens by blast
    then show ?thesis
      using find_key_mem [of trId, OF _ x(1)] ok scanToken_key [OF x(2)]
      by (simp add: tokLookup_def tokOk_def)
  qed
  obtain g where g: "dbExec (\<lambda>rows. (rows, selectTokens a ty n rows)) db = (g, db')"
    and r: "r = (case g of Inl e \<Rightarrow> Inl e | Inr rs \<Rightarrow> scanTokens rs)"
    using run by (auto simp: TokenList_def split: prod.splits sum.splits)
  from g show ?thesis
  proof (cases rule: dbExec_cases)
    case fault
    then show ?thesis using same_table [OF fault(2) ok] r by simp
  next
    case run
    then show ?thesis using same_table [of db', OF _ ok] r mem by simp
  qed
qed

lemma scanToken_cleanup:
  "rowOk r \<Longrightarrow> scanToken r = Inr t \<Longrightarrow> cleanupRow now r = expiredToken now t"
  by (auto simp: cleanupRow_def expiredToken_def rowOk_def dest!: scanToken_key)

lemma TokenCleanup_law:
  assumes ok: "tokOk db" and run: "TokenCleanupExpired now db = (r, db')"
  shows "tokOk db' \<and> tokLookup db' = (if isl r then tokLookup db
    else (\<lambda>i. case tokLookup db i of None \<Rightarrow> None | Some t \<Rightarrow> if expiredToken now t then None else Some t))"
  using run unfolding TokenCleanupExpired_def
proof (cases rule: dbExec_cases)
  case fault
  then show ?thesis using same_table [OF fault(2) ok] by simp
next
  case run
  have d: "distinct (map trId (tokTable db))" using ok by (simp add: tokOk_def)
  have "tokLookup db' i = (case tokLookup db i of None \<Rightarrow> None | Some t \<Rightarrow> if expiredToken now t then None else Some t)" for i
  proof (cases "find (\<lambda>r. trId r = i) (tokTable db)")
    case None
    then show ?thesis using run by (simp add: tokLookup_def find_filter_distinct [OF d])
  next
    case (Some x)
    then obtain u where "scanToken x = Inr u" "tokLookup db i = Some u" "rowOk x"
      using tokLookup_row [OF ok Some] find_SomeD [OF Some] ok by (auto simp: tokOk_def)
    with Some show ?thesis using run
      by (simp add: tokLookup_def find_filter_distinct [OF d] scanToken_cleanup)
  qed
  moreover have "tokOk db'"
    using ok run by (auto simp: tokOk_def distinct_map_filter)
  ultimately show ?thesis using run by auto
qed

lemma TokenRevokeAll_law:
  assumes ok: "tokOk db" and run: "TokenRevokeAllForAgent now a by db = (r, db')"
  shows "tokOk db' \<and> tokLookup db' = (if isl r then tokLookup db
    else (\<lambda>i. case tokLookup db i of None \<Rightarrow> None | Some t \<Rightarrow>
           Some (if tkAgentID t = a \<and> \<not> tkRevoked t then revokeToken now by t else t)))"
  using run unfolding TokenRevokeAllForAgent_def
proof (cases rule: dbExec_cases)
  case fault
  then show ?thesis using same_table [OF fault(2) ok] by simp
next
  case run
  let ?f = "\<lambda>r. if trAgentId r = a \<and> trRevoked r = 0
    then r\<lparr>trRevoked := 1, trRevokedAt := now, trRevokedBy := by\<rparr> else r"
  have key: "trId (?f r) = trId r" for r by simp
  have f: "find (\<lambda>r. trId r = i) (tokTable db') = map_option ?f (find (\<lambda>r. trId r = i) (tokTable db))" for i
    using run find_map_key [where k = trId and f = ?f, OF key] by simp
  have "tokLookup db' i = (case tokLookup db i of None \<Rightarrow> None | Some t \<Rightarrow>
      Some (if tkAgentID t = a \<and> \<not> tkRevoked t then revokeToken now by t else t))" for i
  proof (cases "find (\<lambda>r. trId r = i) (tokTable db)")
    case None
    then show ?thesis by (simp add: tokLookup_def f)
  next
    case (Some x)
    then obtain u where u: "scanToken x = Inr u" "tokLookup db i = Some u"
      using tokLookup_row [OF ok Some] by blast
    with Some show ?thesis
      using scanToken_key [OF u(1)] scanToken_revoke [OF u(1)] by (simp add: tokLookup_def f)
  qed
  moreover have "map trId (tokTable db') = map trId (tokTable db)"
    using run by (simp add: key)
  then have "distinct (map trId (tokTable db'))" using ok by (simp only: tokOk_def)
  moreover have "rowOk (?f x)" if "rowOk x" for x
    using that by (cases "scanToken x") (auto simp: rowOk_def scanToken_revoke)
  then have "\<forall>x\<in>set (tokTable db'). rowOk x"
    using ok unfolding tokOk_def run(2) fst_conv set_map by blast
  ultimately show ?thesis using run by (auto simp: tokOk_def)
qed

lemma tokLookup_id: "tokLookup s i = Some t \<Longrightarrow> tkID t = i"
  by (auto simp: tokLookup_def dest!: find_SomeD dest: scanToken_key split: option.splits sum.splits)

lemmas SQLiteTokenStore_sel [simp] =
  arg_cong [OF SQLiteTokenStore_def, of tsInsert, simplified]
  arg_cong [OF SQLiteTokenStore_def, of tsGet, simplified]
  arg_cong [OF SQLiteTokenStore_def, of tsUpdate, simplified]
  arg_cong [OF SQLiteTokenStore_def, of tsDelete, simplified]
  arg_cong [OF SQLiteTokenStore_def, of tsList, simplified]
  arg_cong [OF SQLiteTokenStore_def, of tsCleanupExpired, simplified]
  arg_cong [OF SQLiteTokenStore_def, of tsRevokeAllForAgent, simplified]

interpretation sqliteTokens: token_store SQLiteTokenStore tokLookup canonToken tokOk
proof (unfold_locales, unfold SQLiteTokenStore_sel, goal_cases)
  case 1 then show ?case by (rule TokenInsert_law)
next
  case 2 then show ?case by (rule TokenGet_law)
next
  case 3 then show ?case by (rule TokenUpdate_law)
next
  case 4 then show ?case by (rule TokenDelete_law)
next
  case 5 then show ?case by (rule TokenList_law)
next
  case 6 then show ?case by (rule TokenCleanup_law)
next
  case 7 then show ?case by (rule TokenRevokeAll_law)
next
  case 8 then show ?case by (blast dest: tokLookup_id)
qed (simp_all add: canonToken_def)

lemma NewTokenDB_ok [simp]: "tokOk (NewTokenDB fs)" "tokLookup (NewTokenDB fs) i = None"
  by (simp_all add: tokOk_def tokLookup_def NewTokenDB_def)

end
