(* ===== verification/TokenManager.thy ===== *)
theory TokenManager
  imports TokenStore
begin

text \<open>
  \<open>TokenManager\<close> of \<open>internal/identitybroker/broker.go\<close>: it provisions, validates and
  revokes tokens over a \<open>TokenStore\<close> and an identity \<open>Provider\<close>, both interfaces of the
  source and so arguments here. Its lemmas are proved once for every store that keeps the contract
  \<open>token_store\<close>, then stated for the SQLite store.
\<close>

section \<open>Data\<close>

record TokenRequest =
  rqAgentID :: string
  rqResource :: string
  rqResourceType :: string
  rqPurpose :: string
  rqTTLSeconds :: i64
  rqMaxUsage :: i64
  rqMetadata :: string

record TokenResponse =
  rsTokenID :: string
  rsTokenValue :: string
  rsExpiresAt :: time
  rsResource :: string
  rsResourceType :: string
  rsMetadata :: string

record ValidationResult =
  vrValid :: bool
  vrTokenID :: string
  vrAgentID :: string
  vrResource :: string
  vrError :: string
  vrUsageCount :: i64

text \<open>The methods of \<open>Provider\<close> that the manager calls; an error is its message.\<close>

record 'p Provider =
  pvProvisionToken :: "TokenRequest \<Rightarrow> 'p \<Rightarrow> (string + TokenResponse) \<times> 'p"
  pvValidateToken :: "string \<Rightarrow> 'p \<Rightarrow> (string + Token) \<times> 'p"
  pvRevokeToken :: "string \<Rightarrow> string \<Rightarrow> 'p \<Rightarrow> string option \<times> 'p"

record ('s, 'p) TokenManager =
  tmStore :: "'s TokenStore"
  tmProvider :: "'p Provider"
  tmTTL :: i64

definition NewTokenManager :: "'s TokenStore \<Rightarrow> 'p Provider \<Rightarrow> i64 \<Rightarrow> ('s, 'p) TokenManager" where
  "NewTokenManager st pv ttl = \<lparr>tmStore = st, tmProvider = pv, tmTTL = ttl\<rparr>"

datatype manager_err =
    StoreFailed token_err
  | ProviderFailed string
  | UpdateProviderDataFailed token_err
  | UpdateUsageFailed token_err
  | TokenNotFound token_err
  | UpdateFailed token_err
  | ProviderRevokeFailed string

section \<open>Durations\<close>

text \<open>
  \<open>int(d.Seconds())\<close>: \<open>Seconds\<close> adds the whole seconds and the fraction as
  float64, and the conversion truncates. The sum rounds up to the next second when the fraction is
  within half a unit in the last place of it, which takes at least \<open>2 ^ 23\<close> seconds.
\<close>

definition durationSeconds :: "i64 \<Rightarrow> i64" where
  "durationSeconds d = (let
       s = \<bar>d\<bar> div 10 ^ 9; n = \<bar>d\<bar> mod 10 ^ 9;
       e = length (filter (\<lambda>i. 2 ^ Suc i \<le> s) [0..<63]);
       q = (if 2 ^ 23 \<le> s \<and> (10 ^ 9 - n) * 2 ^ (53 - e) \<le> 10 ^ 9 then s + 1 else s)
     in if d < 0 then - q else q)"

text \<open>\<open>time.Duration(ttl) * time.Second\<close> is an int64 product.\<close>

definition expiryOf :: "time \<Rightarrow> i64 \<Rightarrow> time" where
  "expiryOf now ttl = now + wrap64 (ttl * 10 ^ 9)"

text \<open>\<open>rand.Read\<close> gives 16 bytes or fails.\<close>

definition generateTokenID :: "bytes option \<Rightarrow> i64 \<Rightarrow> string" where
  "generateTokenID rnd now = (case rnd of None \<Rightarrow> ''fallback-'' @ showInt now | Some b \<Rightarrow> hexEncode b)"

section \<open>Operations\<close>

text \<open>
  What an operation reads from outside: the random bytes and, in the order of the calls, the wall
  clock (nanoseconds).
\<close>

record env =
  envRand :: "bytes option"
  envNow1 :: time
  envNow2 :: time
  envNow3 :: time

text \<open>The request is a pointer: the caller and the provider see the default lifetime in it.\<close>

definition withDefaultTTL :: "('s, 'p) TokenManager \<Rightarrow> TokenRequest \<Rightarrow> TokenRequest" where
  "withDefaultTTL tm req =
     (if rqTTLSeconds req \<le> 0 then req\<lparr>rqTTLSeconds := durationSeconds (tmTTL tm)\<rparr> else req)"

definition tokenIDOf :: "env \<Rightarrow> string" where
  "tokenIDOf E = ''tok_'' @ generateTokenID (envRand E) (UnixNano (envNow1 E))"

definition newToken :: "env \<Rightarrow> TokenRequest \<Rightarrow> Token" where
  "newToken E req = \<lparr>tkID = tokenIDOf E,
     tkAgentID = rqAgentID req, tkResource = rqResource req, tkResourceType = rqResourceType req,
     tkExpiresAt = expiryOf (envNow3 E) (rqTTLSeconds req), tkCreatedAt = envNow2 E,
     tkLastUsedAt = zeroTime, tkUsageCount = 0, tkMaxUsage = rqMaxUsage req, tkRevoked = False,
     tkRevokedAt = zeroTime, tkRevokedBy = [], tkProviderData = [], tkMetadata = rqMetadata req\<rparr>"

definition ProvisionToken ::
  "('s, 'p) TokenManager \<Rightarrow> env \<Rightarrow> TokenRequest \<Rightarrow> 's \<times> 'p \<Rightarrow> (manager_err + TokenResponse) \<times> 's \<times> 'p" where
  "ProvisionToken tm E req0 = (\<lambda>(s, p).
     let req = withDefaultTTL tm req0; token = newToken E req in
     (case tsInsert (tmStore tm) token s of
        (Inl e, s1) \<Rightarrow> (Inl (StoreFailed e), s1, p)
      | (Inr _, s1) \<Rightarrow>
     (case pvProvisionToken (tmProvider tm) req p of
        (Inl msg, p1) \<Rightarrow> (Inl (ProviderFailed msg), snd (tsDelete (tmStore tm) (tkID token) s1), p1)
      | (Inr resp, p1) \<Rightarrow>
     (case tsUpdate (tmStore tm) (token\<lparr>tkProviderData := rsTokenValue resp\<rparr>) s1 of
        (Inl e, s2) \<Rightarrow> (Inl (UpdateProviderDataFailed e), s2, p1)
      | (Inr _, s2) \<Rightarrow>
          (Inr \<lparr>rsTokenID = tkID token, rsTokenValue = rsTokenValue resp,
                rsExpiresAt = tkExpiresAt token, rsResource = tkResource token,
                rsResourceType = tkResourceType token, rsMetadata = tkMetadata token\<rparr>, s2, p1)))))"

definition invalidResult :: "string \<Rightarrow> ValidationResult" where
  "invalidResult msg = \<lparr>vrValid = False, vrTokenID = [], vrAgentID = [], vrResource = [],
     vrError = msg, vrUsageCount = 0\<rparr>"

text \<open>
  \<open>ValidateToken\<close> reads the stored token and decides (\<open>validateRead\<close>), then writes the
  usage back (\<open>validateWrite\<close>). The manager's mutex covers both, but the store's methods
  can be called from elsewhere in between, so the two halves are separate definitions.
\<close>

definition validateRead ::
  "('s, 'p) TokenManager \<Rightarrow> time \<Rightarrow> string \<Rightarrow> 's \<times> 'p \<Rightarrow> (ValidationResult + Token) \<times> 's \<times> 'p" where
  "validateRead tm now val = (\<lambda>(s, p).
     (case pvValidateToken (tmProvider tm) val p of
        (Inl msg, p1) \<Rightarrow> (Inl (invalidResult msg), s, p1)
      | (Inr token, p1) \<Rightarrow>
     (case tsGet (tmStore tm) (tkID token) s of
        (Inl _, s1) \<Rightarrow> (Inl (invalidResult ''token not found in store''), s1, p1)
      | (Inr stored, s1) \<Rightarrow>
          if tkRevoked stored then (Inl (invalidResult ''token revoked''), s1, p1)
          else if tkExpiresAt stored < now then (Inl (invalidResult ''token expired''), s1, p1)
          else if tkMaxUsage stored \<le> tkUsageCount stored
            then (Inl (invalidResult ''token usage limit exceeded''), s1, p1)
          else (Inr stored, s1, p1))))"

definition validateWrite ::
  "('s, 'p) TokenManager \<Rightarrow> time \<Rightarrow> Token \<Rightarrow> 's \<times> 'p \<Rightarrow> (manager_err + ValidationResult) \<times> 's \<times> 'p" where
  "validateWrite tm now stored0 = (\<lambda>(s, p).
     let stored = stored0\<lparr>tkLastUsedAt := now, tkUsageCount := wrap64 (tkUsageCount stored0 + 1)\<rparr> in
     (case tsUpdate (tmStore tm) stored s of
        (Inl e, s1) \<Rightarrow> (Inl (UpdateUsageFailed e), s1, p)
      | (Inr _, s1) \<Rightarrow>
          (Inr \<lparr>vrValid = True, vrTokenID = tkID stored, vrAgentID = tkAgentID stored,
                vrResource = tkResource stored, vrError = [], vrUsageCount = tkUsageCount stored\<rparr>, s1, p)))"

definition ValidateToken ::
  "('s, 'p) TokenManager \<Rightarrow> env \<Rightarrow> string \<Rightarrow> 's \<times> 'p \<Rightarrow> (manager_err + ValidationResult) \<times> 's \<times> 'p" where
  "ValidateToken tm E val st =
     (case validateRead tm (envNow1 E) val st of
        (Inl res, st1) \<Rightarrow> (Inr res, st1)
      | (Inr stored, st1) \<Rightarrow> validateWrite tm (envNow2 E) stored st1)"

definition RevokeToken ::
  "('s, 'p) TokenManager \<Rightarrow> env \<Rightarrow> string \<Rightarrow> string \<Rightarrow> 's \<times> 'p \<Rightarrow> manager_err option \<times> 's \<times> 'p" where
  "RevokeToken tm E tokenID revokedBy = (\<lambda>(s, p).
     (case tsGet (tmStore tm) tokenID s of
        (Inl e, s1) \<Rightarrow> (Some (TokenNotFound e), s1, p)
      | (Inr token, s1) \<Rightarrow>
     (case tsUpdate (tmStore tm) (token\<lparr>tkRevoked := True, tkRevokedAt := envNow1 E, tkRevokedBy := revokedBy\<rparr>) s1 of
        (Inl e, s2) \<Rightarrow> (Some (UpdateFailed e), s2, p)
      | (Inr _, s2) \<Rightarrow>
     (case pvRevokeToken (tmProvider tm) tokenID revokedBy p of
        (Some msg, p1) \<Rightarrow> (Some (ProviderRevokeFailed msg), s2, p1)
      | (None, p1) \<Rightarrow> (None, s2, p1)))))"

definition ManagerCleanupExpired ::
  "('s, 'p) TokenManager \<Rightarrow> env \<Rightarrow> 's \<times> 'p \<Rightarrow> (token_err + nat) \<times> 's \<times> 'p" where
  "ManagerCleanupExpired tm E = (\<lambda>(s, p).
     case tsCleanupExpired (tmStore tm) (UnixNano (envNow1 E)) s of (r, s1) \<Rightarrow> (r, s1, p))"

section \<open>Sequences of operations\<close>

text \<open>
  The calls a deployment makes: the manager's methods, and \<open>RevokeAllForAgent\<close>, which is called
  on the store. \<open>mgrTrace\<close> collects the results of the validations.
\<close>

datatype mgr_event =
    EvProvision env TokenRequest
  | EvValidate env string
  | EvRevoke env string string
  | EvCleanup env
  | EvRevokeAll i64 string string

definition mgrStep ::
  "('s, 'p) TokenManager \<Rightarrow> mgr_event \<Rightarrow> 's \<times> 'p \<Rightarrow> ValidationResult list \<times> 's \<times> 'p" where
  "mgrStep tm ev st = (case ev of
     EvProvision E req \<Rightarrow> ([], snd (ProvisionToken tm E req st))
   | EvValidate E v \<Rightarrow> (case ValidateToken tm E v st of (r, st') \<Rightarrow> (case r of Inl _ \<Rightarrow> [] | Inr x \<Rightarrow> [x], st'))
   | EvRevoke E i b \<Rightarrow> ([], snd (RevokeToken tm E i b st))
   | EvCleanup E \<Rightarrow> ([], snd (ManagerCleanupExpired tm E st))
   | EvRevokeAll now a b \<Rightarrow> ([], snd (tsRevokeAllForAgent (tmStore tm) now a b (fst st)), snd st))"

fun mgrTrace ::
  "('s, 'p) TokenManager \<Rightarrow> mgr_event list \<Rightarrow> 's \<times> 'p \<Rightarrow> ValidationResult list \<times> 's \<times> 'p" where
  "mgrTrace tm [] st = ([], st)"
| "mgrTrace tm (e # es) st = (case mgrStep tm e st of (vs, st1) \<Rightarrow>
     (case mgrTrace tm es st1 of (ws, st2) \<Rightarrow> (vs @ ws, st2)))"

text \<open>The event does not draw the identifier \<open>i\<close> again.\<close>

fun drawsNot :: "string \<Rightarrow> mgr_event \<Rightarrow> bool" where
  "drawsNot i (EvProvision E req) \<longleftrightarrow> tokenIDOf E \<noteq> i"
| "drawsNot i _ \<longleftrightarrow> True"

definition accepts :: "string \<Rightarrow> ValidationResult \<Rightarrow> bool" where
  "accepts i r \<longleftrightarrow> vrValid r \<and> vrTokenID r = i"

section \<open>The manager over any store that keeps the contract\<close>

lemma newToken_sel [simp]:
  "tkID (newToken E req) = tokenIDOf E"
  "tkUsageCount (newToken E req) = 0" "\<not> tkRevoked (newToken E req)"
  "tkMaxUsage (newToken E req) = rqMaxUsage req"
  "tkExpiresAt (newToken E req) = expiryOf (envNow3 E) (rqTTLSeconds req)"
  by (simp_all add: newToken_def)

lemma invalidResult_sel [simp]: "\<not> vrValid (invalidResult m)" "\<not> accepts i (invalidResult m)"
  by (simp_all add: invalidResult_def accepts_def)

locale token_manager = token_store S lookup canon ok
  for S :: "'s TokenStore" and lookup :: "'s \<Rightarrow> string \<Rightarrow> Token option"
    and canon :: "Token \<Rightarrow> Token" and ok :: "'s \<Rightarrow> bool" +
  fixes tm :: "('s, 'p) TokenManager"
  assumes store: "tmStore tm = S"
begin

text \<open>The parts of the store's state that matter to the token \<open>i\<close>.\<close>

definition dead :: "'s \<Rightarrow> string \<Rightarrow> bool" where
  "dead s i \<longleftrightarrow> (case lookup s i of None \<Rightarrow> True | Some t \<Rightarrow> tkRevoked t)"

definition quota :: "'s \<Rightarrow> string \<Rightarrow> nat" where
  "quota s i = (case lookup s i of None \<Rightarrow> 0 | Some t \<Rightarrow> nat (tkMaxUsage t - tkUsageCount t))"

definition ranged :: "'s \<Rightarrow> string \<Rightarrow> bool" where
  "ranged s i \<longleftrightarrow> (case lookup s i of None \<Rightarrow> True | Some t \<Rightarrow> in_i64 (tkMaxUsage t) \<and> in_i64 (tkUsageCount t))"

lemma provision_other:
  assumes "ok s" and "ProvisionToken tm E req (s, p) = (r, s', p')"
    and "tokenIDOf E \<noteq> i"
  shows "ok s' \<and> lookup s' i = lookup s i"
proof -
  let ?t = "newToken E (withDefaultTTL tm req)"
  obtain a s1 where a: "tsInsert S ?t s = (a, s1)" by fastforce
  have 1: "ok s1" "lookup s1 i = lookup s i"
    using insert_law [OF assms(1) a] assms(3) by auto
  have 2: "ok s2 \<and> lookup s2 i = lookup s1 i" if "s2 = snd (tsDelete S (tkID ?t) s1)" for s2
    using delete_law [OF 1(1) prod.collapse [symmetric]] assms(3) that by auto
  have 3: "ok s2 \<and> lookup s2 i = lookup s1 i" if "tsUpdate S (?t\<lparr>tkProviderData := v\<rparr>) s1 = (d, s2)" for d s2 v
    using update_law [OF 1(1) that] assms(3) by auto
  show ?thesis
    using assms(2) a 1 2 3 by (auto simp: ProvisionToken_def Let_def store split: sum.splits prod.splits)
qed

lemma validateRead_law:
  assumes "ok s" and "validateRead tm now v (s, p) = (r, s', p')"
  shows "ok s' \<and> lookup s' = lookup s \<and> (case r of Inl res \<Rightarrow> \<not> vrValid res
    | Inr t \<Rightarrow> lookup s (tkID t) = Some t \<and> \<not> tkRevoked t \<and> now \<le> tkExpiresAt t \<and> tkUsageCount t < tkMaxUsage t)"
proof -
  obtain a p1 where a: "pvValidateToken (tmProvider tm) v p = (a, p1)" by fastforce
  show ?thesis
  proof (cases a)
    case (Inl m)
    then show ?thesis using assms a by (auto simp: validateRead_def)
  next
    case (Inr x)
    obtain g s1 where g: "tsGet S (tkID x) s = (g, s1)" by fastforce
    note G = get_law [OF assms(1) g]
    have "tkID t = tkID x" if "g = Inr t" for t using G lookup_id [OF assms(1)] that by blast
    then show ?thesis using assms(2) a g G Inr
      by (cases g) (auto simp: validateRead_def store split: if_splits)
  qed
qed

lemma ValidateToken_law:
  assumes "ok s" and run: "ValidateToken tm E v (s, p) = (r, s', p')"
  shows "ok s' \<and> ((\<exists>res t. r = Inr res \<and> vrValid res \<and> lookup s (vrTokenID res) = Some t \<and>
        tkID t = vrTokenID res \<and> \<not> tkRevoked t \<and> envNow1 E \<le> tkExpiresAt t \<and> tkUsageCount t < tkMaxUsage t \<and>
        lookup s' = (lookup s)(vrTokenID res \<mapsto>
          canon (t\<lparr>tkLastUsedAt := envNow2 E, tkUsageCount := wrap64 (tkUsageCount t + 1)\<rparr>))) \<or>
      (\<forall>res. r = Inr res \<longrightarrow> \<not> vrValid res) \<and> lookup s' = lookup s)"
proof -
  obtain a s1 p1 where a: "validateRead tm (envNow1 E) v (s, p) = (a, s1, p1)" by (metis prod_cases3)
  note R = validateRead_law [OF assms(1) a]
  show ?thesis
  proof (cases a)
    case (Inl res)
    then show ?thesis using run a R by (auto simp: ValidateToken_def)
  next
    case (Inr t)
    let ?t = "t\<lparr>tkLastUsedAt := envNow2 E, tkUsageCount := wrap64 (tkUsageCount t + 1)\<rparr>"
    obtain u s2 where u: "tsUpdate S ?t s1 = (u, s2)" by fastforce
    have "ok s1" using R by blast
    from update_law [OF this u] run a u R Inr show ?thesis
      by (cases u) (auto simp: ValidateToken_def validateWrite_def store)
  qed
qed

lemma RevokeToken_law:
  assumes "ok s" and run: "RevokeToken tm E i b (s, p) = (r, s', p')"
  shows "ok s' \<and> (lookup s' = lookup s \<and> (\<exists>e. r = Some (TokenNotFound e) \<or> r = Some (UpdateFailed e)) \<or>
    (\<exists>t. lookup s i = Some t \<and>
       lookup s' = (lookup s)(i \<mapsto> canon (t\<lparr>tkRevoked := True, tkRevokedAt := envNow1 E, tkRevokedBy := b\<rparr>))))"
proof -
  obtain g s1 where g: "tsGet S i s = (g, s1)" by fastforce
  note G = get_law [OF assms(1) g]
  show ?thesis
  proof (cases g)
    case (Inl e)
    then show ?thesis using run g G by (auto simp: RevokeToken_def store)
  next
    case (Inr t)
    let ?t = "t\<lparr>tkRevoked := True, tkRevokedAt := envNow1 E, tkRevokedBy := b\<rparr>"
    obtain u s2 where u: "tsUpdate S ?t s1 = (u, s2)" by fastforce
    have k: "ok s1" "lookup s1 = lookup s" "lookup s i = Some t" using G Inr by auto
    then have "tkID t = i" using lookup_id assms(1) by blast
    with update_law [OF k(1) u] k run g u Inr show ?thesis
      by (cases u) (auto simp: RevokeToken_def store split: prod.splits option.splits)
  qed
qed

end

section \<open>Traces\<close>

context token_manager
begin

lemma validate_step:
  assumes "ok s" and r: "ValidateToken tm E v (s, p) = (r, s', p')"
    and vs: "vs = (case r of Inl _ \<Rightarrow> [] | Inr x \<Rightarrow> [x])"
  shows "ok s' \<and> (dead s i \<longrightarrow> dead s' i \<and> filter (accepts i) vs = []) \<and>
    (ranged s i \<longrightarrow> ranged s' i \<and> length (filter (accepts i) vs) + quota s' i \<le> quota s i)"
  using ValidateToken_law [OF assms(1) r]
proof (elim conjE disjE exE)
  fix res t
  assume o: "ok s'" and h: "r = Inr res" "vrValid res" "lookup s (vrTokenID res) = Some t"
    "\<not> tkRevoked t" "tkUsageCount t < tkMaxUsage t"
    "lookup s' = (lookup s)(vrTokenID res \<mapsto>
      canon (t\<lparr>tkLastUsedAt := envNow2 E, tkUsageCount := wrap64 (tkUsageCount t + 1)\<rparr>))"
  have w: "wrap64 (tkUsageCount t + 1) = tkUsageCount t + 1"
    if "in_i64 (tkMaxUsage t)" "in_i64 (tkUsageCount t)"
    using that h(5) by (intro wrap64_id) (auto simp: in_i64_def)
  show ?thesis
  proof (cases "vrTokenID res = i")
    case True
    with o h vs w show ?thesis
      by (auto simp: dead_def ranged_def quota_def accepts_def canon_keeps in_i64_def)
  next
    case False
    with o h vs show ?thesis by (auto simp: dead_def ranged_def quota_def accepts_def)
  qed
next
  assume "ok s'" "\<forall>res. r = Inr res \<longrightarrow> \<not> vrValid res" "lookup s' = lookup s"
  with vs show ?thesis
    by (auto simp: dead_def ranged_def quota_def accepts_def split: sum.splits)
qed

text \<open>What one step does to the token \<open>i\<close>, whichever operation it is.\<close>

lemma step_law:
  assumes "ok s" and "drawsNot i ev" and "mgrStep tm ev (s, p) = (vs, s', p')"
  shows "ok s'"
    and "dead s i \<Longrightarrow> dead s' i \<and> filter (accepts i) vs = []"
    and "ranged s i \<Longrightarrow> ranged s' i \<and> length (filter (accepts i) vs) + quota s' i \<le> quota s i"
proof -
  have "ok s' \<and> (dead s i \<longrightarrow> dead s' i \<and> filter (accepts i) vs = []) \<and>
    (ranged s i \<longrightarrow> ranged s' i \<and> length (filter (accepts i) vs) + quota s' i \<le> quota s i)"
  proof (cases ev)
    case (EvProvision E req)
    then obtain r where "ProvisionToken tm E req (s, p) = (r, s', p')" "vs = []"
      using assms(3) by (auto simp: mgrStep_def prod_eq_iff)
    then show ?thesis
      using provision_other [OF assms(1), of E req p r s' p' i] assms(2) EvProvision
      by (auto simp: dead_def ranged_def quota_def)
  next
    case (EvValidate E v)
    then obtain r where "ValidateToken tm E v (s, p) = (r, s', p')"
      and "vs = (case r of Inl _ \<Rightarrow> [] | Inr x \<Rightarrow> [x])"
      using assms(3) by (auto simp: mgrStep_def split: prod.splits)
    from validate_step [OF assms(1) this] show ?thesis .
  next
    case (EvRevoke E j b)
    then obtain r where r: "RevokeToken tm E j b (s, p) = (r, s', p')" and "vs = []"
      using assms(3) by (auto simp: mgrStep_def prod_eq_iff)
    with RevokeToken_law [OF assms(1) r] show ?thesis
      by (auto simp: dead_def ranged_def quota_def canon_keeps)
  next
    case (EvCleanup E)
    then obtain r where r: "tsCleanupExpired S (UnixNano (envNow1 E)) s = (r, s')" and "vs = []"
      using assms(3) by (auto simp: mgrStep_def ManagerCleanupExpired_def store split: prod.splits)
    with cleanup_law [OF assms(1) r] show ?thesis
      by (auto simp: dead_def ranged_def quota_def split: option.splits)
  next
    case (EvRevokeAll now a b)
    then obtain r where r: "tsRevokeAllForAgent S now a b s = (r, s')" and "vs = []"
      using assms(3) by (auto simp: mgrStep_def store prod_eq_iff)
    with revoke_all_law [OF assms(1) r] show ?thesis
      by (auto simp: dead_def ranged_def quota_def revokeToken_def split: option.splits)
  qed
  then show "ok s'"
    and "dead s i \<Longrightarrow> dead s' i \<and> filter (accepts i) vs = []"
    and "ranged s i \<Longrightarrow> ranged s' i \<and> length (filter (accepts i) vs) + quota s' i \<le> quota s i"
    by blast+
qed

lemma trace_dead:
  "ok s \<Longrightarrow> list_all (drawsNot i) es \<Longrightarrow> dead s i \<Longrightarrow> filter (accepts i) (fst (mgrTrace tm es (s, p))) = []"
proof (induction es arbitrary: s p)
  case (Cons ev es)
  obtain vs s1 p1 where st: "mgrStep tm ev (s, p) = (vs, s1, p1)" by (metis prod_cases3)
  have d: "drawsNot i ev" using Cons.prems by simp
  note L = step_law [OF Cons.prems(1) d st]
  have "filter (accepts i) (fst (mgrTrace tm es (s1, p1))) = []"
    using L Cons.prems by (intro Cons.IH) auto
  then show ?case using L(2) Cons.prems st by (auto split: prod.splits)
qed simp

lemma trace_quota:
  "ok s \<Longrightarrow> list_all (drawsNot i) es \<Longrightarrow> ranged s i \<Longrightarrow>
   length (filter (accepts i) (fst (mgrTrace tm es (s, p)))) \<le> quota s i"
proof (induction es arbitrary: s p)
  case (Cons ev es)
  obtain vs s1 p1 where st: "mgrStep tm ev (s, p) = (vs, s1, p1)" by (metis prod_cases3)
  have d: "drawsNot i ev" using Cons.prems by simp
  note L = step_law [OF Cons.prems(1) d st]
  have "length (filter (accepts i) (fst (mgrTrace tm es (s1, p1)))) \<le> quota s1 i"
    using L Cons.prems by (intro Cons.IH) auto
  then show ?case using L(3) Cons.prems st by (auto split: prod.splits)
qed simp

end

interpretation sqliteManager: token_manager SQLiteTokenStore tokLookup canonToken tokOk
    "NewTokenManager SQLiteTokenStore P ttl" for P ttl
  by unfold_locales (simp add: NewTokenManager_def)

section \<open>Properties\<close>

text \<open>Concrete values for the witnesses.\<close>

definition exEnv :: "nat \<Rightarrow> env" where
  "exEnv k = \<lparr>envRand = Some (replicate 16 (char_of k)), envNow1 = 10 ^ 18 + int k, envNow2 = 10 ^ 18 + int k,
     envNow3 = 10 ^ 18 + int k\<rparr>"

definition exRequest :: TokenRequest where
  "exRequest = \<lparr>rqAgentID = ''ans_a'', rqResource = ''s3://b'', rqResourceType = ''s3'', rqPurpose = '''',
     rqTTLSeconds = 30, rqMaxUsage = 2, rqMetadata = ''m''\<rparr>"

definition exProvider :: "nat Provider" where
  "exProvider = \<lparr>pvProvisionToken = (\<lambda>req p. (Inr \<lparr>rsTokenID = '''', rsTokenValue = ''v'',
       rsExpiresAt = 0, rsResource = '''', rsResourceType = '''', rsMetadata = ''''\<rparr>, p)),
     pvValidateToken = (\<lambda>v p. (Inr (newToken (exEnv 1) exRequest), p)),
     pvRevokeToken = (\<lambda>i b p. (None, p))\<rparr>"

definition exManager :: "(token_db, nat) TokenManager" where
  "exManager = NewTokenManager SQLiteTokenStore exProvider (60 * 10 ^ 9)"

definition exProvisioned :: "token_db \<times> nat" where
  "exProvisioned = snd (ProvisionToken exManager (exEnv 1) exRequest (NewTokenDB [], 0))"

lemma exProvisioned_eq: "exProvisioned = (\<lparr>tokTable = [\<lparr>trId = ''tok_01010101010101010101010101010101'', trAgentId = ''ans_a'',
    trResource = ''s3://b'', trResourceType = ''s3'', trExpiresAt = 1000000030000000001, trCreatedAt = 1000000000000000001,
    trLastUsedAt = - 6795364578871345152, trUsageCount = 0, trMaxUsage = 2, trRevoked = 0,
    trRevokedAt = - 6795364578871345152, trRevokedBy = [], trProviderData = [CHR 0x22, CHR ''v'', CHR 0x22],
    trMetadata = [CHR 0x22, CHR ''m'', CHR 0x22]\<rparr>], tokFaults = []\<rparr>, 0)"
  by code_simp

lemma revoked_dead:
  assumes "tokOk s" and "RevokeToken (NewTokenManager SQLiteTokenStore P ttl) E i b (s, p) = (r, s', p')"
    and "r = None \<or> (\<exists>m. r = Some (ProviderRevokeFailed m))"
  shows "tokOk s'" and "sqliteManager.dead s' i"
  using sqliteManager.RevokeToken_law [OF assms(1, 2)] assms(3)
  by (auto simp: sqliteManager.dead_def sqliteTokens.canon_keeps)

text \<open>
  C24. Revocation is final. Once \<open>RevokeToken\<close> has revoked a token in the store, also when
  the provider's own revocation then failed, no sequence of later operations (provisioning,
  validation, revocation, cleanup, with any driver failures) validates it, as long as the
  random identifier is not drawn a second time.
\<close>

theorem revocation_is_final:
  assumes "tokOk s"
    and "RevokeToken (NewTokenManager SQLiteTokenStore P ttl) E i b (s, p) = (r, s', p')"
    and "r = None \<or> (\<exists>m. r = Some (ProviderRevokeFailed m))"
    and "list_all (drawsNot i) es"
  shows "\<forall>x\<in>set (fst (mgrTrace (NewTokenManager SQLiteTokenStore P ttl) es (s', p'))).
    \<not> (vrValid x \<and> vrTokenID x = i)"
  using sqliteManager.trace_dead [OF revoked_dead(1) assms(4) revoked_dead(2), OF assms(1-3) assms(1-3)]
  by (simp add: filter_empty_conv accepts_def)

theorem revocation_is_final_witness:
  "filter (accepts (tokenIDOf (exEnv 1))) (fst (mgrTrace exManager [EvValidate (exEnv 1) ''v'']
     (snd (RevokeToken exManager (exEnv 1) (tokenIDOf (exEnv 1)) ''me'' exProvisioned)))) = []"
proof -
  let ?r = "RevokeToken exManager (exEnv 1) (tokenIDOf (exEnv 1)) ''me'' exProvisioned"
  have a: "tokOk (fst exProvisioned)" unfolding exProvisioned_eq by code_simp
  have "fst ?r = None" unfolding exProvisioned_eq by code_simp
  then have r: "RevokeToken (NewTokenManager SQLiteTokenStore exProvider (60 * 10 ^ 9)) (exEnv 1)
      (tokenIDOf (exEnv 1)) ''me'' (fst exProvisioned, snd exProvisioned) = (None, fst (snd ?r), snd (snd ?r))"
    unfolding exManager_def by (metis prod.collapse)
  show ?thesis
    using revocation_is_final [OF a r, of "[EvValidate (exEnv 1) ''v'']"] unfolding exManager_def
    by (simp add: filter_empty_conv accepts_def)
qed

text \<open>
  C25. Usage limit. Over any sequence of operations a token is accepted at most as often as
  its remaining quota, \<open>MaxUsage - UsageCount\<close>, allows; in particular a token whose
  \<open>MaxUsage\<close> is zero is never accepted.
\<close>

theorem token_usage_bounded:
  assumes "tokOk s" and "tokLookup s i = Some t"
    and "in_i64 (tkMaxUsage t)" and "in_i64 (tkUsageCount t)"
    and "list_all (drawsNot i) es"
  shows "length (filter (accepts i) (fst (mgrTrace (NewTokenManager SQLiteTokenStore P ttl) es (s, p))))
    \<le> nat (tkMaxUsage t - tkUsageCount t)"
  using sqliteManager.trace_quota [OF assms(1,5)] assms(2-4)
  by (simp add: sqliteManager.quota_def sqliteManager.ranged_def)

theorem token_usage_bounded_witness:
  "length (filter (accepts (tokenIDOf (exEnv 1))) (fst (mgrTrace exManager
     (replicate 3 (EvValidate (exEnv 1) ''v'')) exProvisioned))) = 2"
proof -
  have a: "tokOk (fst exProvisioned)" unfolding exProvisioned_eq by code_simp
  have b: "tokLookup (fst exProvisioned) (tokenIDOf (exEnv 1)) \<noteq> None" unfolding exProvisioned_eq by code_simp
  then obtain t where t: "tokLookup (fst exProvisioned) (tokenIDOf (exEnv 1)) = Some t" by blast
  have "map_option (\<lambda>t. (tkMaxUsage t, tkUsageCount t)) (tokLookup (fst exProvisioned) (tokenIDOf (exEnv 1))) = Some (2, 0)"
    unfolding exProvisioned_eq by code_simp
  then have q: "tkMaxUsage t = 2" "tkUsageCount t = 0" using t by auto
  have "length (filter (accepts (tokenIDOf (exEnv 1))) (fst (mgrTrace exManager
     (replicate 3 (EvValidate (exEnv 1) ''v'')) exProvisioned))) \<le> 2"
    using token_usage_bounded [OF a t, of "replicate 3 (EvValidate (exEnv 1) ''v'')" exProvider "60 * 10 ^ 9" "snd exProvisioned"] q
    by (simp add: in_i64_def exManager_def numeral_3_eq_3)
  moreover have "2 \<le> length (filter (accepts (tokenIDOf (exEnv 1))) (fst (mgrTrace exManager
     (replicate 3 (EvValidate (exEnv 1) ''v'')) exProvisioned)))" unfolding exProvisioned_eq by code_simp
  ultimately show ?thesis by simp
qed

text \<open>Without driver failures the statements of the store are determined.\<close>

lemma faultless_insert: "tokFaults db = [] \<Longrightarrow> tokOk db \<Longrightarrow> \<exists>db'. TokenInsert t db = (Inr (), db') \<and>
    tokFaults db' = [] \<and> tokOk db' \<and> tokLookup db' = (tokLookup db)(tkID t \<mapsto> canonToken t)"
  using TokenInsert_law [of db t] by (fastforce simp: TokenInsert_def dbExec_def dbStep_def)

lemma faultless_update: "tokFaults db = [] \<Longrightarrow> tokOk db \<Longrightarrow> tokLookup db (tkID t) \<noteq> None \<Longrightarrow>
    \<exists>db'. TokenUpdate t db = (Inr (), db') \<and>
      tokFaults db' = [] \<and> tokOk db' \<and> tokLookup db' = (tokLookup db)(tkID t \<mapsto> canonToken t)"
  using TokenUpdate_law [of db t] by (fastforce simp: TokenUpdate_def dbExec_def dbStep_def)

lemma faultless_delete: "tokFaults db = [] \<Longrightarrow> tokOk db \<Longrightarrow> \<exists>db'. TokenDelete i db = (Inr (), db') \<and>
    tokFaults db' = [] \<and> tokOk db' \<and> tokLookup db' = (tokLookup db)(i := None)"
  using TokenDelete_law [of db i] by (fastforce simp: TokenDelete_def dbExec_def dbStep_def)

lemma faultless_get: "tokFaults db = [] \<Longrightarrow> tokOk db \<Longrightarrow> tokLookup db i = Some t \<Longrightarrow> TokenGet i db = (Inr t, db)"
  by (auto simp: TokenGet_def dbExec_def dbStep_def tokLookup_def split: option.splits sum.splits)

text \<open>
  C26. A provisioned token is usable. When the provider accepts the request and later
  resolves the token value to the identifier the manager drew, and the database works, the first
  validation no later than the expiry (as stored, in 64-bit nanoseconds) succeeds, counts one use and
  names the agent and resource of the request, provided the request allows a use.
\<close>

theorem provisioned_token_validates:
  assumes db: "tokOk s" "tokFaults s = []"
    and run: "ProvisionToken (NewTokenManager SQLiteTokenStore P ttl) E req (s, p) = (Inr resp, s', p')"
    and prov: "pvValidateToken P v p' = (Inr tok, p2)" "tkID tok = rsTokenID resp"
    and time: "envNow1 F \<le> UnixNano (rsExpiresAt resp)" and use: "0 < rqMaxUsage req"
  shows "\<exists>st. ValidateToken (NewTokenManager SQLiteTokenStore P ttl) F v (s', p') =
    (Inr \<lparr>vrValid = True, vrTokenID = rsTokenID resp, vrAgentID = rqAgentID req,
       vrResource = rqResource req, vrError = [], vrUsageCount = 1\<rparr>, st)"
proof -
  let ?tm = "NewTokenManager SQLiteTokenStore P ttl"
  let ?t = "newToken E (withDefaultTTL ?tm req)"
  obtain s1 where s1: "TokenInsert ?t s = (Inr (), s1)" "tokFaults s1 = []" "tokOk s1"
      "tokLookup s1 (tkID ?t) = Some (canonToken ?t)"
    using faultless_insert [OF db(2,1)] by (metis fun_upd_same)
  obtain rp where rp: "pvProvisionToken P (withDefaultTTL ?tm req) p = (Inr rp, p')"
    using run s1(1) by (auto simp: ProvisionToken_def Let_def NewTokenManager_def split: prod.splits sum.splits)
  let ?u = "?t\<lparr>tkProviderData := rsTokenValue rp\<rparr>"
  obtain s2 where s2: "TokenUpdate ?u s1 = (Inr (), s2)" "tokFaults s2 = []" "tokOk s2"
      "tokLookup s2 (tkID ?t) = Some (canonToken ?u)"
    using faultless_update [of s1 ?u] s1 by auto
  have res: "s' = s2" "rsTokenID resp = tkID ?t" "rsExpiresAt resp = tkExpiresAt ?t"
    using run s1(1) rp s2(1) by (auto simp: ProvisionToken_def Let_def NewTokenManager_def)
  have get: "TokenGet (tkID tok) s' = (Inr (canonToken ?u), s2)"
    using faultless_get [OF s2(2,3,4)] prov(2) res by simp
  let ?w = "canonToken ?u\<lparr>tkLastUsedAt := envNow2 F, tkUsageCount := 1\<rparr>"
  have "\<exists>s3. TokenUpdate ?w s2 = (Inr (), s3)"
    using faultless_update [OF s2(2,3), of ?w] s2(4) by (auto simp: canonToken_def)
  then obtain s3 where s3: "TokenUpdate ?w s2 = (Inr (), s3)" by blast
  have c: "tkUsageCount (canonToken ?u) = 0" "\<not> tkRevoked (canonToken ?u)" "tkMaxUsage (canonToken ?u) = rqMaxUsage req"
    "tkExpiresAt (canonToken ?u) = UnixNano (rsExpiresAt resp)" "wrap64 1 = 1"
    "tkAgentID ?w = rqAgentID req" "tkResource ?w = rqResource req" "tkID ?w = rsTokenID resp"
    using res by (simp_all add: canonToken_def newToken_def withDefaultTTL_def wrap64_def)
  show ?thesis
    using prov(1) get s3 c time use
    by (simp add: ValidateToken_def validateRead_def validateWrite_def NewTokenManager_def Let_def)
qed

theorem provisioned_token_validates_witness:
  "\<exists>st. ValidateToken exManager (exEnv 2) ''v'' exProvisioned =
    (Inr \<lparr>vrValid = True, vrTokenID = tokenIDOf (exEnv 1), vrAgentID = ''ans_a'',
       vrResource = ''s3://b'', vrError = [], vrUsageCount = 1\<rparr>, st)"
proof -
  let ?r = "ProvisionToken exManager (exEnv 1) exRequest (NewTokenDB [], 0)"
  have "\<not> isl (fst ?r)" unfolding exProvisioned_eq by code_simp
  then obtain resp where resp: "fst ?r = Inr resp" by (cases "fst ?r") auto
  have "map_sum (\<lambda>_. ()) (\<lambda>x. (rsTokenID x, UnixNano (rsExpiresAt x))) (fst ?r) =
      Inr (tokenIDOf (exEnv 1), 10 ^ 18 + 1 + 30 * 10 ^ 9)" unfolding exProvisioned_eq by code_simp
  then have f: "rsTokenID resp = tokenIDOf (exEnv 1)" "envNow1 (exEnv 2) \<le> UnixNano (rsExpiresAt resp)"
    unfolding resp by (simp_all add: exEnv_def [of 2])
  have run: "ProvisionToken (NewTokenManager SQLiteTokenStore exProvider (60 * 10 ^ 9)) (exEnv 1) exRequest
      (NewTokenDB [], 0) = (Inr resp, fst exProvisioned, snd exProvisioned)"
    using resp unfolding exProvisioned_def exManager_def by (metis prod.collapse)
  have val: "pvValidateToken exProvider ''v'' (snd exProvisioned) =
      (Inr (newToken (exEnv 1) exRequest), snd exProvisioned)" by (simp add: exProvider_def)
  show ?thesis
    using provisioned_token_validates [OF _ _ run val _ f(2)] f(1) unfolding exManager_def
    by (simp add: NewTokenDB_def tokOk_def exRequest_def)
qed

text \<open>
  A failed provisioning leaves no token behind. When the database works, the provider
  refuses the request and the drawn identifier is new, the store holds exactly the tokens
  it held before.
\<close>

theorem failed_provision_leaves_no_token:
  assumes db: "tokOk s" "tokFaults s = []" and new: "tokLookup s (tokenIDOf E) = None"
    and run: "ProvisionToken (NewTokenManager SQLiteTokenStore P ttl) E req (s, p) = (Inl e, s', p')"
  shows "tokLookup s' = tokLookup s"
proof -
  let ?tm = "NewTokenManager SQLiteTokenStore P ttl"
  let ?t = "newToken E (withDefaultTTL ?tm req)"
  obtain s1 where s1: "TokenInsert ?t s = (Inr (), s1)" "tokFaults s1 = []" "tokOk s1"
      "tokLookup s1 = (tokLookup s)(tokenIDOf E \<mapsto> canonToken ?t)"
    using faultless_insert [OF db(2,1)] by (metis newToken_sel(1))
  obtain s2 where s2: "TokenDelete (tokenIDOf E) s1 = (Inr (), s2)" "tokLookup s2 = (tokLookup s1)(tokenIDOf E := None)"
    using faultless_delete [OF s1(2,3)] by blast
  have up: "\<exists>s3. TokenUpdate (?t\<lparr>tkProviderData := v\<rparr>) s1 = (Inr (), s3)" for v
    using faultless_update [OF s1(2,3), of "?t\<lparr>tkProviderData := v\<rparr>"] s1(4) by auto
  have "s' = s2"
  proof (cases "fst (pvProvisionToken P (withDefaultTTL ?tm req) p)")
    case (Inl m)
    then show ?thesis
      using run s1(1) s2(1)
      by (auto simp: ProvisionToken_def Let_def NewTokenManager_def split: prod.splits)
  next
    case (Inr rp)
    obtain s3 where "TokenUpdate (?t\<lparr>tkProviderData := rsTokenValue rp\<rparr>) s1 = (Inr (), s3)"
      using up by blast
    with Inr show ?thesis
      using run s1(1) by (auto simp: ProvisionToken_def Let_def NewTokenManager_def split: prod.splits)
  qed
  with s1(4) s2(2) new show ?thesis by (auto simp: fun_eq_iff)
qed

theorem failed_provision_leaves_no_token_witness:
  "tokLookup (fst (snd (ProvisionToken (NewTokenManager SQLiteTokenStore
       (exProvider\<lparr>pvProvisionToken := \<lambda>req p. (Inl ''down'', p)\<rparr>) 0) (exEnv 2) exRequest exProvisioned)))
   = tokLookup (fst exProvisioned)"
proof -
  let ?P = "exProvider\<lparr>pvProvisionToken := \<lambda>req p. (Inl ''down'', p)\<rparr>"
  let ?r = "ProvisionToken (NewTokenManager SQLiteTokenStore ?P 0) (exEnv 2) exRequest exProvisioned"
  have a: "tokOk (fst exProvisioned)" "tokFaults (fst exProvisioned) = []"
    "tokLookup (fst exProvisioned) (tokenIDOf (exEnv 2)) = None" unfolding exProvisioned_eq by code_simp+
  have "isl (fst ?r)" unfolding exProvisioned_eq by code_simp
  then obtain e where "fst ?r = Inl e" by (cases "fst ?r") auto
  then have "ProvisionToken (NewTokenManager SQLiteTokenStore ?P 0) (exEnv 2) exRequest
      (fst exProvisioned, snd exProvisioned) = (Inl e, fst (snd ?r), snd (snd ?r))"
    by (metis prod.collapse)
  from failed_provision_leaves_no_token [OF a this] show ?thesis .
qed

text \<open>
  C27. Revoking all tokens of an agent can be undone by a validation in flight. The manager's
  mutex does not cover \<open>RevokeAllForAgent\<close>, and \<open>ValidateToken\<close> writes the
  whole row it read earlier: when the revocation runs between its read and its write, the token
  was revoked in the store, the validation still succeeds, and afterwards the stored token is not
  revoked any more.
\<close>

theorem revoke_all_lost_update:
  assumes db: "tokOk s" "tokFaults s = []"
    and read: "validateRead (NewTokenManager SQLiteTokenStore P ttl) now1 v (s, p) = (Inr t, s1, p1)"
    and revoke: "TokenRevokeAllForAgent now2 (tkAgentID t) who s1 = (Inr (), s2)"
  shows "(\<exists>u. tokLookup s2 (tkID t) = Some u \<and> tkRevoked u) \<and>
    (\<exists>res s3. validateWrite (NewTokenManager SQLiteTokenStore P ttl) now3 t (s2, p1) = (Inr res, s3, p1) \<and>
       vrValid res \<and> (\<exists>u. tokLookup s3 (tkID t) = Some u \<and> \<not> tkRevoked u))"
proof -
  have R: "tokOk s1" "tokLookup s1 (tkID t) = Some t" "\<not> tkRevoked t"
    using sqliteManager.validateRead_law [OF db(1) read] by auto
  have f1: "tokFaults s1 = []"
    using read db(2) by (auto simp: validateRead_def NewTokenManager_def TokenGet_def dbExec_def dbStep_def
        split: prod.splits sum.splits option.splits if_splits)
  then have f2: "tokFaults s2 = []"
    using revoke by (auto simp: TokenRevokeAllForAgent_def dbExec_def dbStep_def)
  have V: "tokOk s2" "tokLookup s2 (tkID t) = Some (revokeToken now2 who t)"
    using TokenRevokeAll_law [OF R(1) revoke] R by auto
  let ?w = "t\<lparr>tkLastUsedAt := now3, tkUsageCount := wrap64 (tkUsageCount t + 1)\<rparr>"
  obtain s3 where s3: "TokenUpdate ?w s2 = (Inr (), s3)" "tokLookup s3 (tkID t) = Some (canonToken ?w)"
    using faultless_update [OF f2 V(1), of ?w] V(2) by auto
  then show ?thesis
    using V(2) R(3) by (auto simp: validateWrite_def NewTokenManager_def revokeToken_def canonToken_def)
qed

definition exStored :: Token where
  "exStored = \<lparr>tkID = ''tok_01010101010101010101010101010101'', tkAgentID = ''ans_a'',
    tkResource = ''s3://b'', tkResourceType = ''s3'', tkExpiresAt = 1000000030000000001, tkCreatedAt = 1000000000000000001,
    tkLastUsedAt = - 6795364578871345152, tkUsageCount = 0, tkMaxUsage = 2, tkRevoked = False,
    tkRevokedAt = - 6795364578871345152, tkRevokedBy = [], tkProviderData = ''v'', tkMetadata = ''m''\<rparr>"

theorem revoke_all_lost_update_witness:
  "\<exists>res s3. validateWrite exManager (10 ^ 18) exStored
     (snd (TokenRevokeAllForAgent 5 ''ans_a'' ''admin'' (fst exProvisioned)), 0) = (Inr res, s3, 0) \<and>
     vrValid res \<and> (\<exists>u. tokLookup s3 (tkID exStored) = Some u \<and> \<not> tkRevoked u)"
proof -
  have a: "tokOk (fst exProvisioned)" "tokFaults (fst exProvisioned) = []" unfolding exProvisioned_eq by code_simp+
  have r: "validateRead (NewTokenManager SQLiteTokenStore exProvider (60 * 10 ^ 9)) (10 ^ 18) ''v'' (fst exProvisioned, 0) =
     (Inr exStored, fst exProvisioned, 0)"
    unfolding exProvisioned_eq exStored_def fst_conv by code_simp
  have k: "TokenRevokeAllForAgent 5 (tkAgentID exStored) ''admin'' (fst exProvisioned) =
     (Inr (), snd (TokenRevokeAllForAgent 5 ''ans_a'' ''admin'' (fst exProvisioned)))" unfolding exProvisioned_eq by code_simp
  show ?thesis
    using revoke_all_lost_update [OF a r k, of "10 ^ 18"] unfolding exManager_def by blast
qed

text \<open>
  Tokens read back as they were stored. When the database works, a token whose times fit in
  64-bit nanoseconds and whose provider data and metadata are valid UTF-8 comes back
  unchanged from \<open>Get\<close> after \<open>Insert\<close>; the JSON columns are encoded and decoded on the way.
\<close>

theorem token_insert_get:
  assumes "tokOk s" and "tokFaults s = []"
    and "in_i64 (tkExpiresAt t)" "in_i64 (tkCreatedAt t)" "in_i64 (tkLastUsedAt t)" "in_i64 (tkRevokedAt t)"
    and "validUtf8 (tkProviderData t)" "validUtf8 (tkMetadata t)"
  shows "fst (TokenGet (tkID t) (snd (TokenInsert t s))) = Inr t"
proof -
  have c: "canonToken t = t"
    using assms by (simp add: canonToken_def UnixNano_def wrap64_id coerceUtf8_valid)
  obtain s1 where "TokenInsert t s = (Inr (), s1)" "tokFaults s1 = []" "tokOk s1" "tokLookup s1 (tkID t) = Some t"
    using faultless_insert [OF assms(2,1), of t] c by auto
  then show ?thesis using faultless_get by simp
qed

theorem token_insert_get_witness:
  "fst (TokenGet (tkID exStored) (snd (TokenInsert exStored (NewTokenDB [])))) = Inr exStored"
proof -
  have "in_i64 (tkExpiresAt exStored)" "in_i64 (tkCreatedAt exStored)" "in_i64 (tkLastUsedAt exStored)"
    "in_i64 (tkRevokedAt exStored)" by (simp_all add: exStored_def in_i64_def)
  moreover have "validUtf8 (tkProviderData exStored)" "validUtf8 (tkMetadata exStored)"
    by (auto simp: exStored_def intro!: validUtf8_ascii)
  ultimately show ?thesis using token_insert_get [of "NewTokenDB []" exStored] by (simp add: NewTokenDB_def tokOk_def)
qed

end
