(* ===== verification/MachineSecret.thy ===== *)
theory MachineSecret
  imports Keystore
begin

text \<open>
  \<open>machineSecret\<close>, \<open>deriveMachineKey\<close> and \<open>NewKeystore\<close> of
  \<open>internal/identity/keystore.go\<close>. The secret file is created with \<open>O_EXCL\<close> so that
  concurrent processes agree on it; the calls are a step relation in which any number of
  processes interleave their file operations, and the agreement is an invariant of its reachable
  states. HKDF, from a third-party package, is a parameter.
\<close>

section \<open>Concurrent calls of machineSecret\<close>

text \<open>
  Where a process is: before the first read; with a fresh secret, before the exclusive create;
  after losing the race for it, before reading the winner's file; after creating the file, before
  the write; after a failed write, before the removal; returned.
\<close>

datatype proc = Start | Drawn bytes | Raced | Created bytes | Removing | Done bytes | Failed

type_synonym secret_state = "bytes option \<times> (nat \<Rightarrow> proc)"

inductive secretStep :: "secret_state \<Rightarrow> secret_state \<Rightarrow> bool" where
  read_ok: "ps p = Start \<Longrightarrow> file = Some d \<Longrightarrow> length d = 32 \<Longrightarrow>
    secretStep (file, ps) (file, ps(p := Done d))"
| read_bad: "ps p = Start \<Longrightarrow> file = Some d \<Longrightarrow> length d \<noteq> 32 \<Longrightarrow>
    secretStep (file, ps) (file, ps(p := Failed))"
| draw: "ps p = Start \<Longrightarrow> length s = 32 \<Longrightarrow> secretStep (file, ps) (file, ps(p := Drawn s))"
| draw_fail: "ps p = Start \<Longrightarrow> secretStep (file, ps) (file, ps(p := Failed))"
| create: "ps p = Drawn s \<Longrightarrow> file = None \<Longrightarrow> secretStep (file, ps) (Some [], ps(p := Created s))"
| create_exists: "ps p = Drawn s \<Longrightarrow> file \<noteq> None \<Longrightarrow> secretStep (file, ps) (file, ps(p := Raced))"
| create_fail: "ps p = Drawn s \<Longrightarrow> secretStep (file, ps) (file, ps(p := Failed))"
| reread_ok: "ps p = Raced \<Longrightarrow> file = Some d \<Longrightarrow> length d = 32 \<Longrightarrow>
    secretStep (file, ps) (file, ps(p := Done d))"
| reread_bad: "ps p = Raced \<Longrightarrow> secretStep (file, ps) (file, ps(p := Failed))"
| store: "ps p = Created s \<Longrightarrow> secretStep (file, ps) (Some s, ps(p := Done s))"
| store_fail: "ps p = Created s \<Longrightarrow> length part < 32 \<Longrightarrow> secretStep (file, ps) (Some part, ps(p := Removing))"
| remove: "ps p = Removing \<Longrightarrow> secretStep (file, ps) (None, ps(p := Failed))"
| remove_fail: "ps p = Removing \<Longrightarrow> secretStep (file, ps) (file, ps(p := Failed))"

inductive secretReachable :: "secret_state \<Rightarrow> bool" where
  init: "secretReachable (file, \<lambda>_. Start)"
| step: "secretReachable st \<Longrightarrow> secretStep st st' \<Longrightarrow> secretReachable st'"

inductive_cases secretStepE: "secretStep (file, ps) (file', ps')"

text \<open>
  The invariant: a returned secret is the file's content; while a process is between its create
  and its return the file is not yet complete and no other process is there.
\<close>

definition writer :: "proc \<Rightarrow> bool" where
  "writer x \<longleftrightarrow> (case x of Created _ \<Rightarrow> True | Removing \<Rightarrow> True | _ \<Rightarrow> False)"

lemma writer_simps [simp]: "writer (Created s)" "writer Removing" "\<not> writer Start" "\<not> writer (Drawn s)"
  "\<not> writer Raced" "\<not> writer (Done s)" "\<not> writer Failed"
  by (simp_all add: writer_def)

definition secretInv :: "secret_state \<Rightarrow> bool" where
  "secretInv st = (case st of (file, ps) \<Rightarrow>
     (\<forall>p s. ps p = Done s \<longrightarrow> file = Some s \<and> length s = 32) \<and>
     (\<forall>p s. ps p = Drawn s \<or> ps p = Created s \<longrightarrow> length s = 32) \<and>
     (\<forall>p. writer (ps p) \<longrightarrow> (\<exists>d. file = Some d \<and> length d < 32)) \<and>
     (\<forall>p q. writer (ps p) \<and> writer (ps q) \<longrightarrow> p = q))"

lemma secretInvD:
  assumes "secretInv (file, ps)"
  shows "ps p = Done s \<Longrightarrow> file = Some s \<and> length s = 32"
    and "ps p = Drawn s \<Longrightarrow> length s = 32" and "ps p = Created s \<Longrightarrow> length s = 32"
    and "writer (ps p) \<Longrightarrow> \<exists>d. file = Some d \<and> length d < 32"
    and "writer (ps p) \<Longrightarrow> writer (ps q) \<Longrightarrow> p = q"
  using assms by (auto simp: secretInv_def)

lemma secretInv_local:
  assumes inv: "secretInv (file, ps)" and new: "\<not> writer x"
    and d: "\<And>s. x = Done s \<Longrightarrow> file = Some s \<and> length s = 32" and r: "\<And>s. x = Drawn s \<Longrightarrow> length s = 32"
  shows "secretInv (file, ps(p := x))"
  using inv new d r unfolding secretInv_def by (auto split: if_splits)

lemma writer_no_done: "secretInv (file, ps) \<Longrightarrow> writer (ps p) \<Longrightarrow> ps q \<noteq> Done s"
  using secretInvD(1,4) by (metis less_irrefl option.inject)

text \<open>The steps that change the file are those of the only writer, or find no file.\<close>

lemma secretInv_owner:
  assumes inv: "secretInv (fl, ps)" and nd: "\<And>q t. ps q \<noteq> Done t" and nw: "\<And>q. q \<noteq> p \<Longrightarrow> \<not> writer (ps q)"
    and d: "\<And>s. x = Done s \<Longrightarrow> fl' = Some s \<and> length s = 32"
    and r: "\<And>s. x = Drawn s \<or> x = Created s \<Longrightarrow> length s = 32"
    and w: "writer x \<Longrightarrow> \<exists>d. fl' = Some d \<and> length d < 32"
  shows "secretInv (fl', ps(p := x))"
proof -
  have "length s = 32" if "ps q = Drawn s \<or> ps q = Created s" for q s
    using secretInvD(2,3) [OF inv] that by blast
  then have "\<forall>q s. (ps(p := x)) q = Drawn s \<or> (ps(p := x)) q = Created s \<longrightarrow> length s = 32" using r by auto
  moreover have "\<forall>q s. (ps(p := x)) q = Done s \<longrightarrow> fl' = Some s \<and> length s = 32" using nd d by simp
  moreover have o: "writer ((ps(p := x)) q) \<Longrightarrow> q = p" for q using nw by (cases "q = p") auto
  then have "\<forall>q. writer ((ps(p := x)) q) \<longrightarrow> (\<exists>d. fl' = Some d \<and> length d < 32)" using w by (metis fun_upd_same)
  moreover have "\<forall>q q'. writer ((ps(p := x)) q) \<and> writer ((ps(p := x)) q') \<longrightarrow> q = q'" using o by blast
  ultimately show ?thesis unfolding secretInv_def prod.case by blast
qed

lemma secretInv_writer:
  assumes "secretInv (fl, ps)" and "writer (ps p)"
    and "\<And>s. x = Done s \<Longrightarrow> fl' = Some s \<and> length s = 32"
    and "\<And>s. x = Drawn s \<or> x = Created s \<Longrightarrow> length s = 32"
    and "writer x \<Longrightarrow> \<exists>d. fl' = Some d \<and> length d < 32"
  shows "secretInv (fl', ps(p := x))"
  using writer_no_done [OF assms(1,2)] secretInvD(5) [OF assms(1,2)]
  by (intro secretInv_owner [OF assms(1)]) (use assms(3-5) in blast)+

lemma secretInv_step:
  assumes "secretStep st st'" and "secretInv st"
  shows "secretInv st'"
  using assms
proof (induction rule: secretStep.induct)
  case (create ps p s fl)
  have "\<not> writer (ps q)" "ps q \<noteq> Done t" for q t
    using secretInvD(1,4) [OF create.prems] create.hyps(2) by fastforce+
  then show ?case
    using secretInvD(2) [OF create.prems create.hyps(1)] by (intro secretInv_owner [OF create.prems]) simp_all
next
  case (store ps p s fl)
  then show ?case using secretInvD(3) [OF store.prems store.hyps]
    by (intro secretInv_writer [OF store.prems]) simp_all
next
  case (store_fail ps p s part fl)
  then show ?case by (intro secretInv_writer [OF store_fail.prems]) simp_all
next
  case (remove ps p fl)
  then show ?case by (intro secretInv_writer [OF remove.prems]) simp_all
qed (rule secretInv_local; simp)+

lemma secretReachable_inv: "secretReachable st \<Longrightarrow> secretInv st"
  by (induction rule: secretReachable.induct) (auto simp: secretInv_def [of "(_, \<lambda>_. Start)"] secretInv_step)

text \<open>
  C29. Concurrent processes agree on the machine secret. However the file operations of any
  number of processes that call \<open>machineSecret\<close> interleave, and whichever of them fail
  (read, random source, create, write, removal), all calls that return a secret return the same
  one: the 32 bytes in the file.
\<close>

theorem machine_secret_agreement:
  assumes "secretReachable (file, ps)" and "ps p = Done s" and "ps q = Done t"
  shows "s = t \<and> file = Some s \<and> length s = 32"
  using secretInvD(1) [OF secretReachable_inv [OF assms(1)] assms(2)]
    secretInvD(1) [OF secretReachable_inv [OF assms(1)] assms(3)] by simp

theorem machine_secret_agreement_witness:
  "\<exists>ps. secretReachable (Some (replicate 32 (CHR ''a'')), ps) \<and> ps 0 = Done (replicate 32 (CHR ''a'')) \<and>
     ps 1 = Done (replicate 32 (CHR ''a'')) \<and> length (replicate 32 (CHR ''a'')) = 32"
proof -
  let ?a = "replicate 32 (CHR ''a'')" and ?b = "replicate 32 (CHR ''b'')"
  let ?p1 = "(\<lambda>_. Start)(0 := Drawn ?a)"
  let ?p2 = "?p1(1 := Drawn ?b)"
  let ?p3 = "?p2(0 := Created ?a)"
  let ?p4 = "?p3(1 := Raced)"
  let ?p5 = "?p4(0 := Done ?a)"
  let ?p6 = "?p5(1 := Done ?a)"
  have "secretReachable (None, \<lambda>_. Start)" by (rule init)
  then have "secretReachable (None, ?p1)" by (rule step) (rule draw; simp)
  then have "secretReachable (None, ?p2)" by (rule step) (rule draw; simp)
  then have "secretReachable (Some [], ?p3)" by (rule step) (rule create; simp)
  then have "secretReachable (Some [], ?p4)" by (rule step) (rule create_exists; simp)
  then have "secretReachable (Some ?a, ?p5)" by (rule step) (rule store; simp)
  then have r: "secretReachable (Some ?a, ?p6)" by (rule step) (rule reread_ok; simp)
  then show ?thesis using machine_secret_agreement [OF r, of 0 ?a 1 ?a] by (intro exI [of _ ?p6]) simp
qed

section \<open>The key and the keystore\<close>

datatype new_ks_err = NoHome | MkdirFailed | SecretFailed | HkdfFailed

text \<open>\<open>hkdf secret salt info n\<close>: \<open>n\<close> bytes read from HKDF-SHA256, or an error.\<close>

type_synonym hkdf = "bytes \<Rightarrow> bytes \<Rightarrow> bytes \<Rightarrow> nat \<Rightarrow> bytes option"

definition deriveMachineKey :: "hkdf \<Rightarrow> bytes option \<Rightarrow> new_ks_err + bytes" where
  "deriveMachineKey H secret = (case secret of None \<Rightarrow> Inl SecretFailed | Some s \<Rightarrow>
     (case H s ''ans-keystore-v1'' ''keystore-enc-key'' 32 of None \<Rightarrow> Inl HkdfFailed | Some k \<Rightarrow> Inr k))"

text \<open>
  \<open>NewKeystore dir\<close>: the default directory needs the home directory; \<open>mkdir\<close> and the
  directory's files are the file system's.
\<close>

definition NewKeystore :: "hkdf \<Rightarrow> string option \<Rightarrow> (string \<Rightarrow> bool) \<Rightarrow> (string \<Rightarrow> (string \<times> bytes) list) \<Rightarrow>
    bytes option \<Rightarrow> string \<Rightarrow> new_ks_err + Keystore" where
  "NewKeystore H home mkdir files secret dir =
     (case (if dir = [] then map_option (\<lambda>h. h @ ''/.ans/keys'') home else Some dir) of
        None \<Rightarrow> Inl NoHome
      | Some d \<Rightarrow> if \<not> mkdir d then Inl MkdirFailed else
          (case deriveMachineKey H secret of Inl e \<Rightarrow> Inl e | Inr k \<Rightarrow> Inr (newKeystore k (files d))))"

end
