(* ===== verification/ProxyPipe.thy ===== *)
theory ProxyPipe
  imports McpProxy "HOL-Library.Sublist"
begin

text \<open>
  \<open>pipe\<close> and \<open>DialTarget\<close> of \<open>internal/mcp/proxy.go\<close>: one direction of a proxied connection, from
  the bytes that arrive to the bytes that are passed on, line by line through \<open>processLine\<close>.
\<close>

section \<open>Dialling\<close>

text \<open>
  \<open>url.Parse\<close> (scheme and host of the target, or its error) and the two dialers are arguments.
\<close>

definition DialTarget :: "(string \<Rightarrow> string + (string \<times> string)) \<Rightarrow> (string \<Rightarrow> string + 'conn) \<Rightarrow> (string \<Rightarrow> string + 'conn) \<Rightarrow> string \<Rightarrow> string + 'conn" where
  "DialTarget parse dialTCP dialTLS targetURL = (case parse targetURL of
     Inl e \<Rightarrow> Inl (''invalid target URL: '' @ e)
   | Inr (scheme, host) \<Rightarrow>
       if scheme \<in> {''http'', ''ws''} then dialTCP host
       else if scheme \<in> {''https'', ''wss''} then dialTLS host
       else if scheme = ''tcp'' then dialTCP host
       else dialTCP targetURL)"

section \<open>Reading lines\<close>

datatype net_err = EOF | ErrBufferFull | NetTimeout string | NetErr string

fun isTimeout :: "net_err \<Rightarrow> bool" where
  "isTimeout (NetTimeout _) = True"
| "isTimeout _ = False"

definition readerSize :: nat where
  "readerSize = 4 * 1024 * 1024"

text \<open>
  \<open>ReadSlice\<close>: the bytes up to and including the first line end, if it is within the buffer.
  \<open>fin\<close> is the error that the connection gives after its last byte; what it leaves of a line that
  is not complete is dropped.
\<close>

definition readSlice :: "net_err \<Rightarrow> bytes \<Rightarrow> net_err + (bytes \<times> bytes)" where
  "readSlice fin bs = (let l = takeWhile (\<lambda>c. c \<noteq> newline) bs; k = length l in
     if k < length bs \<and> k < readerSize then Inr (l @ [newline], drop (Suc k) bs)
     else if readerSize \<le> length bs then Inl ErrBufferFull
     else Inl fin)"

lemma readSlice_shrinks: "readSlice fin bs = Inr (l, rest) \<Longrightarrow> length rest < length bs"
  by (auto simp: readSlice_def Let_def split: if_splits)

lemma readSlice_line: "t = takeWhile (\<lambda>c. c \<noteq> newline) bs \<Longrightarrow> readSlice fin bs = Inr (l, rest) \<Longrightarrow> l = t @ [newline] \<and> bs = l @ rest"
proof -
  assume t: "t = takeWhile (\<lambda>c. c \<noteq> newline) bs" and r: "readSlice fin bs = Inr (l, rest)"
  then have k: "length t < length bs" and l: "l = t @ [newline]" and rest: "rest = drop (Suc (length t)) bs"
    by (auto simp: readSlice_def Let_def split: if_splits)
  have "bs ! length t = newline" using nth_length_takeWhile [of "\<lambda>c. c \<noteq> newline" bs] k t by simp
  moreover have "take (length t) bs = t" unfolding t by (rule takeWhile_eq_take [symmetric])
  ultimately have "bs = t @ newline # rest" using id_take_nth_drop [OF k] rest by simp
  then show ?thesis using l by simp
qed

section \<open>The loop\<close>

text \<open>
  What iteration \<open>n\<close> meets: the stop channel, the time, a failing audit insert, a failing write with
  the number of bytes the other side had taken before it failed.
\<close>

record pipe_env =
  peStop :: bool
  peNow :: i64
  peAudit :: bool
  peWrite :: "nat option"

datatype pipe_end = Stopped | LineTooLong | InputEnded | ReadFailed string | WriteFailed

definition endOf :: "net_err \<Rightarrow> pipe_end" where
  "endOf e = (case e of ErrBufferFull \<Rightarrow> LineTooLong | NetErr m \<Rightarrow> ReadFailed m | _ \<Rightarrow> InputEnded)"

text \<open>
  The result: why the loop ended, the bytes that reached the other side, the bytes written back to
  the client, the state of limiters and audit log. \<open>env n\<close> holds the policy and approval
  callbacks as they answer in iteration \<open>n\<close>: the daemon's callbacks read a policy store that
  changes under them, so their answers may differ from one line to the next.
\<close>

function pipe :: "(nat \<Rightarrow> proxy_env) \<Rightarrow> Direction \<Rightarrow> (nat \<Rightarrow> pipe_env) \<Rightarrow> net_err \<Rightarrow> nat \<Rightarrow> bytes \<Rightarrow> proxy_state
    \<Rightarrow> pipe_end \<times> bytes \<times> bytes \<times> proxy_state" where
  "pipe env dir E fin n bs st =
     (if peStop (E n) then (Stopped, [], [], st)
      else (case readSlice fin bs of
        Inl e \<Rightarrow> (endOf e, [], [], st)
      | Inr (lineBytes, rest) \<Rightarrow>
          (case processLine (env n) (peAudit (E n)) (peNow (E n)) dir lineBytes st of
             (None, ans, st1) \<Rightarrow> (case pipe env dir E fin (n + 1) rest st1 of
                (why, out, ret, st2) \<Rightarrow> (why, out, (case ans of None \<Rightarrow> [] | Some a \<Rightarrow> a) @ ret, st2))
           | (Some w, ans, st1) \<Rightarrow>
               (case peWrite (E n) of
                  Some k \<Rightarrow> (WriteFailed, take k w, [], st1)
                | None \<Rightarrow> (case pipe env dir E fin (n + 1) rest st1 of
                    (why, out, ret, st2) \<Rightarrow> (why, w @ out, ret, st2))))))"
  by pat_completeness auto
termination
  by (relation "measure (\<lambda>(env, dir, E, fin, n, bs, st). length bs)") (auto simp: readSlice_shrinks)

declare pipe.simps [simp del]

section \<open>What passes\<close>

text \<open>The complete lines of the input, without their line ends.\<close>

definition inputLines :: "bytes \<Rightarrow> string list" where
  "inputLines bs = map trimCRLF (butlast (splitOn newline bs))"

definition approved :: "proxy_env \<Rightarrow> string \<Rightarrow> bool" where
  "approved env line \<longleftrightarrow> (let m = leMethod (analyze line DirClientToServer 0) in
     (\<forall>f. sCheckPolicy (safety env) = Some f \<longrightarrow> m \<noteq> '''' \<longrightarrow> fst (f (clientAddr env) m)) \<and>
     (\<forall>g. sApproveTool (safety env) = Some g \<longrightarrow> m = MethodToolsCall \<longrightarrow>
        (\<exists>msg. unmarshalRPC line = Some msg \<and> fst (g (clientAddr env) (extractToolName (jParams msg)) (jParams msg)))))"

lemma analyze_method: "leMethod (analyze line dir now) = leMethod (analyze line dir now')"
  by (simp add: analyze_def Let_def split: option.split)

lemma inputLines_step:
  assumes "readSlice fin bs = Inr (l, rest)"
  shows "inputLines bs = trimCRLF l # inputLines rest"
proof -
  define t where "t = takeWhile (\<lambda>c. c \<noteq> newline) bs"
  have l: "l = t @ [newline]" and bs: "bs = t @ newline # rest" using readSlice_line [OF t_def assms] by auto
  have "newline \<notin> set t" unfolding t_def by (auto dest: set_takeWhileD)
  then have "splitOn newline bs = t # splitOn newline rest" unfolding bs by (induction t) auto
  moreover have "splitOn newline rest \<noteq> []" by (cases rest) (auto split: list.splits)
  moreover have "trimCRLF l = trimCRLF t" by (simp add: l trimCRLF_def)
  ultimately show ?thesis by (simp add: inputLines_def)
qed

text \<open>A line that is passed on, with its row in the audit log up to the row's number.\<close>

definition entryOf :: "i64 \<Rightarrow> string \<Rightarrow> LogEntry" where
  "entryOf now l = analyze l DirClientToServer now"

lemma entryOf_id: "(entryOf now l)\<lparr>leID := i, leID := 0\<rparr> = entryOf now l"
  by (simp add: entryOf_def analyze_def Let_def split: option.split)

lemma processLine_client:
  assumes "processLine env af now DirClientToServer l st = (out, ans, st')"
  shows "(out = None \<and> mrows (auditLog st') = mrows (auditLog st)) \<or>
    (out = Some (trimCRLF l @ [newline]) \<and> trimCRLF l \<noteq> '''' \<and> approved env (trimCRLF l) \<and>
     (af \<or> (\<exists>e. mrows (auditLog st') = mrows (auditLog st) @ [e] \<and> e\<lparr>leID := 0\<rparr> = entryOf now (trimCRLF l))))"
proof (cases "trimCRLF l = ''''")
  case True
  then show ?thesis using assms by (simp add: processLine_def Let_def)
next
  case False
  let ?line = "trimCRLF l"
  let ?entry = "analyze ?line DirClientToServer now"
  obtain v st1 where c: "checkRequestSafety env now ?line ?entry st = (v, st1)" by fastforce
  show ?thesis
  proof (cases v)
    case (Inl r)
    then show ?thesis using assms c False checkRequestSafety_log [of env now ?line ?entry st] by (simp add: processLine_def Let_def)
  next
    case (Inr u)
    have "approved env ?line"
      using checkRequestSafety_passed(3,4) [of env now ?line ?entry st st1] c Inr
      unfolding approved_def Let_def analyze_method [of ?line DirClientToServer 0 now] by simp
    moreover have "out = Some (?line @ [newline])" "st' = st1\<lparr>auditLog := snd (AuditInsert af ?entry (auditLog st1))\<rparr>"
      using assms c False Inr by (simp_all add: processLine_def Let_def)
    moreover have "auditLog st1 = auditLog st" using checkRequestSafety_log [of env now ?line ?entry st] c by simp
    ultimately show ?thesis using False entryOf_id [where now = now and l = ?line] by (auto simp: AuditInsert_def entryOf_def)
  qed
qed

text \<open>
  What one run of the loop passes on, and what it adds to the audit log. \<open>ps\<close> are the lines that
  were written completely, each with the iteration that read it, \<open>part\<close> is the beginning of one
  more line whose write failed.
\<close>

definition writeLines :: "(nat \<times> string) list \<Rightarrow> bytes" where
  "writeLines ps = concat (map (\<lambda>(k, l). l @ [newline]) ps)"

definition passes :: "(nat \<Rightarrow> proxy_env) \<Rightarrow> (nat \<Rightarrow> pipe_env) \<Rightarrow> (nat \<times> string) list \<Rightarrow> pipe_end \<Rightarrow> bytes \<Rightarrow> LogEntry list \<Rightarrow> LogEntry list \<Rightarrow> bool" where
  "passes env E input why out old new \<longleftrightarrow>
     (\<exists>ps part. out = writeLines ps @ part \<and> subseq ps input \<and> (\<forall>(k, l)\<in>set ps. l \<noteq> '''' \<and> approved (env k) l) \<and>
       (part = [] \<or> why = WriteFailed \<and> (\<exists>k l. subseq (ps @ [(k, l)]) input \<and> approved (env k) l \<and> prefix part (l @ [newline]))) \<and>
       ((\<forall>k. \<not> peAudit (E k)) \<and> why \<noteq> WriteFailed \<longrightarrow>
          (\<exists>es. new = old @ es \<and> map (\<lambda>e. e\<lparr>leID := 0\<rparr>) es = map (\<lambda>(k, l). entryOf (peNow (E k)) l) ps)))"

lemma passes_nothing: "new = old \<Longrightarrow> passes env E input why [] old new"
  unfolding passes_def by (intro exI [of _ "[]"]) (simp add: writeLines_def)

lemma passes_part:
  "approved (env n) l \<Longrightarrow> prefix part (l @ [newline]) \<Longrightarrow> passes env E ((n, l) # input) WriteFailed part old new"
  unfolding passes_def by (rule exI [of _ "[]"], rule exI [of _ part]) (auto simp: writeLines_def)

lemma passes_dropped: "passes env E input why out old new \<Longrightarrow> passes env E (x # input) why out old new"
  unfolding passes_def by (blast intro: list_emb_Cons)

lemma passes_line:
  assumes "l \<noteq> ''''" and "approved (env n) l"
    and "\<not> peAudit (E n) \<Longrightarrow> \<exists>e. mid = old @ [e] \<and> e\<lparr>leID := 0\<rparr> = entryOf (peNow (E n)) l" and "passes env E input why out mid new"
  shows "passes env E ((n, l) # input) why (l @ [newline] @ out) old new"
proof -
  obtain ps part where ps: "out = writeLines ps @ part" "subseq ps input" "\<forall>(k, l)\<in>set ps. l \<noteq> '''' \<and> approved (env k) l"
    "part = [] \<or> why = WriteFailed \<and> (\<exists>k l. subseq (ps @ [(k, l)]) input \<and> approved (env k) l \<and> prefix part (l @ [newline]))"
    "(\<forall>k. \<not> peAudit (E k)) \<and> why \<noteq> WriteFailed \<longrightarrow>
       (\<exists>es. new = mid @ es \<and> map (\<lambda>e. e\<lparr>leID := 0\<rparr>) es = map (\<lambda>(k, l). entryOf (peNow (E k)) l) ps)"
    using assms(4) unfolding passes_def by blast
  let ?ps = "(n, l) # ps"
  have "(\<forall>k. \<not> peAudit (E k)) \<and> why \<noteq> WriteFailed \<longrightarrow>
      (\<exists>es. new = old @ es \<and> map (\<lambda>e. e\<lparr>leID := 0\<rparr>) es = map (\<lambda>(k, l). entryOf (peNow (E k)) l) ?ps)"
  proof
    assume "(\<forall>k. \<not> peAudit (E k)) \<and> why \<noteq> WriteFailed"
    then obtain e es where "mid = old @ [e]" "e\<lparr>leID := 0\<rparr> = entryOf (peNow (E n)) l" "new = mid @ es"
      "map (\<lambda>e. e\<lparr>leID := 0\<rparr>) es = map (\<lambda>(k, l). entryOf (peNow (E k)) l) ps" using assms(3) ps(5) by blast
    then show "\<exists>es. new = old @ es \<and> map (\<lambda>e. e\<lparr>leID := 0\<rparr>) es = map (\<lambda>(k, l). entryOf (peNow (E k)) l) ?ps"
      by (intro exI [of _ "e # es"]) simp
  qed
  moreover have "part = [] \<or> why = WriteFailed \<and>
      (\<exists>k m. subseq (?ps @ [(k, m)]) ((n, l) # input) \<and> approved (env k) m \<and> prefix part (m @ [newline]))"
    using ps(4) by auto
  moreover have "l @ [newline] @ out = writeLines ?ps @ part" using ps(1) by (simp add: writeLines_def)
  moreover have "subseq ?ps ((n, l) # input)" "\<forall>(k, m)\<in>set ?ps. m \<noteq> '''' \<and> approved (env k) m"
    using ps(2,3) assms(1,2) by auto
  ultimately show ?thesis unfolding passes_def by blast
qed

lemma pipe_passes:
  assumes "pipe env DirClientToServer E fin n bs st = (why, out, ret, st')"
  shows "passes env E (enumerate n (inputLines bs)) why out (mrows (auditLog st)) (mrows (auditLog st'))"
  using assms
proof (induction "length bs" arbitrary: n bs st why out ret st' rule: less_induct)
  case less
  show ?case
  proof (cases "peStop (E n) \<or> (\<exists>e. readSlice fin bs = Inl e)")
    case True
    then have "out = [] \<and> st' = st" using less.prems by (subst (asm) pipe.simps) (auto split: if_splits)
    then show ?thesis by (auto intro: passes_nothing)
  next
    case False
    then obtain l rest where rd: "readSlice fin bs = Inr (l, rest)" by (metis obj_sumE surj_pair)
    obtain o1 ans st1 where p: "processLine (env n) (peAudit (E n)) (peNow (E n)) DirClientToServer l st = (o1, ans, st1)" by (metis prod_cases3)
    obtain why2 out2 ret2 st2 where r: "pipe env DirClientToServer E fin (n + 1) rest st1 = (why2, out2, ret2, st2)" by (metis prod_cases4)
    have il: "enumerate n (inputLines bs) = (n, trimCRLF l) # enumerate (n + 1) (inputLines rest)"
      using inputLines_step [OF rd] by simp
    note ih = less.hyps [OF readSlice_shrinks [OF rd] r]
    show ?thesis
    proof (cases o1)
      case None
      then have "why = why2 \<and> out = out2 \<and> st' = st2" using less.prems False by (subst (asm) pipe.simps) (simp add: rd p r [simplified])
      then show ?thesis using processLine_client [OF p] None passes_dropped [OF ih] unfolding il by auto
    next
      case (Some w)
      then have pl: "w = trimCRLF l @ [newline]" "trimCRLF l \<noteq> ''''" "approved (env n) (trimCRLF l)"
        "\<not> peAudit (E n) \<Longrightarrow> \<exists>e. mrows (auditLog st1) = mrows (auditLog st) @ [e] \<and> e\<lparr>leID := 0\<rparr> = entryOf (peNow (E n)) (trimCRLF l)"
        using processLine_client [OF p] by auto
      show ?thesis
      proof (cases "peWrite (E n)")
        case (Some k)
        then have "why = WriteFailed \<and> out = take k w" using less.prems False \<open>o1 = Some w\<close> by (subst (asm) pipe.simps) (simp add: rd p)
        moreover have "prefix (take k w) (trimCRLF l @ [newline])" unfolding pl(1) by (rule take_is_prefix)
        ultimately show ?thesis unfolding il using passes_part [where env = env, OF pl(3)] by blast
      next
        case nofail: None
        then have "why = why2 \<and> out = w @ out2 \<and> st' = st2" using less.prems False Some by (subst (asm) pipe.simps) (simp add: rd p r [simplified])
        then show ?thesis unfolding il using passes_line [where env = env and E = E, OF pl(2,3,4) ih] pl(1) by simp
      qed
    qed
  qed
qed

text \<open>
  C20. The stream that reaches the server. Whatever bytes a client sends, and whatever stops,
  timeouts and failures happen, what reaches the server in this direction are complete lines of the
  input, in their order and unchanged up to the line end, followed, only when a write failed part
  way, by the beginning of one more line. Every line of which anything was written is one that the
  callbacks approved when it was read: in the iteration that reads the line the policy callback
  allowed its method, and when it is a tool call it was approved; the callbacks may answer
  differently in every iteration. When the audit inserts succeed and no write failed, this run of
  the loop has added to the audit log exactly one row per line written, in order, each equal to the
  analysis of its line at its time in every column but the row number.
\<close>

theorem pipe_forwards_only_approved:
  assumes "pipe env DirClientToServer E fin n bs st = (why, out, ret, st')"
  shows "\<exists>ps part. out = concat (map (\<lambda>(k, l). l @ [newline]) ps) @ part \<and> subseq ps (enumerate n (inputLines bs)) \<and>
    (\<forall>(k, l)\<in>set ps. l \<noteq> '''' \<and> approved (env k) l) \<and>
    (part = [] \<or> why = WriteFailed \<and> (\<exists>k l. subseq (ps @ [(k, l)]) (enumerate n (inputLines bs)) \<and> approved (env k) l \<and>
       prefix part (l @ [newline]))) \<and>
    ((\<forall>k. \<not> peAudit (E k)) \<and> why \<noteq> WriteFailed \<longrightarrow> (\<exists>es. mrows (auditLog st') = mrows (auditLog st) @ es \<and>
       map (\<lambda>e. e\<lparr>leID := 0\<rparr>) es = map (\<lambda>(k, l). analyze l DirClientToServer (peNow (E k))) ps))"
  using pipe_passes [OF assms] unfolding passes_def writeLines_def entryOf_def .

text \<open>
  C40. A batch is not checked. A line that is a JSON array, the form of a JSON-RPC batch, is not
  decoded as a message: it has no method for the policy callback and no tool for the approval
  callback, so without rate limit and token budget the proxy forwards it whatever these callbacks
  deny, the tool calls of the batch included.
\<close>

theorem batch_bypasses_policy:
  assumes "jsonParse line = Some (JArr ms)" and "trimCRLF lineBytes = line" and "rateLim st = None" and "tokBudget st = None"
  shows "\<exists>st'. processLine env auditFault now DirClientToServer lineBytes st = (Some (line @ [newline]), None, st')"
proof -
  have "jsonParse '''' = None" by code_simp
  then have ne: "line \<noteq> ''''" using assms(1) by auto
  have "unmarshalRPC line = None" using assms(1) by (simp add: unmarshalRPC_def rawObject_def)
  then have "leMethod (analyze line DirClientToServer now) = ''''" by (simp add: analyze_def Let_def split: option.split)
  then have "checkRequestSafety env now line (analyze line DirClientToServer now) st = (Inr (), st)"
    using assms(3,4)
    by (simp add: checkRequestSafety_def rateStage_def budgetStage_def policyStage_def toolStage_def MethodToolsCall_def split: option.split)
  then show ?thesis using assms(2) ne by (simp add: processLine_def Let_def)
qed

section \<open>A client\<close>

definition denyAll :: proxy_env where
  "denyAll = \<lparr>clientAddr = ''1.2.3.4:5'', safety = \<lparr>sRedactPII = False, sRatePerMin = 0, sTokenBudget = 0,
      sCheckPolicy = Some (\<lambda>a m. (False, ''no'')), sApproveTool = Some (\<lambda>a t p. (False, ''no''))\<rparr>,
    refillFn = (\<lambda>p e. 0), uniFn = (\<lambda>s. False)\<rparr>"

definition exPipe :: "nat \<Rightarrow> pipe_env" where
  "exPipe n = \<lparr>peStop = False, peNow = 1, peAudit = False, peWrite = None\<rparr>"

definition toolCall :: string where
  "toolCall = ''{'' @ [quote] @ ''method'' @ [quote] @ '':'' @ [quote] @ ''tools/call'' @ [quote] @ ''}''"

text \<open>
  A tool call that is denied, then a line without a method, whose write fails after one byte: that
  byte is all that reaches the server.
\<close>

definition exCut :: "nat \<Rightarrow> pipe_env" where
  "exCut n = (exPipe n)\<lparr>peWrite := (if n = 1 then Some 1 else None)\<rparr>"

lemma processLine_blocked:
  assumes "rateLim st = None" "tokBudget st = None" "processLine env af now DirClientToServer l st = (None, ans, st')"
  shows "st' = st"
  using assms by (auto simp: processLine_def checkRequestSafety_def rateStage_def budgetStage_def Let_def split: if_splits option.splits sum.splits prod.splits)

lemma toolCall_denied:
  assumes "trimCRLF l = toolCall"
  shows "fst (processLine denyAll False 1 DirClientToServer l exState) = None"
proof -
  have "unmarshalRPC toolCall = Some (emptyRPC\<lparr>jMethod := ''tools/call''\<rparr>)" by code_simp
  then have "\<not> approved denyAll (trimCRLF l)" by (simp add: assms approved_def denyAll_def analyze_def Let_def split: option.split)
  then show ?thesis using processLine_client [of denyAll False 1 l exState] by (metis prod_cases3 fst_conv)
qed

lemma exCut_run:
  "\<exists>ret st'. pipe (\<lambda>n. denyAll) DirClientToServer exCut EOF 0 (toolCall @ [newline] @ ''hi'' @ [newline]) exState = (WriteFailed, ''h'', ret, st')"
proof -
  have r1: "readSlice EOF (toolCall @ [newline] @ ''hi'' @ [newline]) = Inr (toolCall @ [newline], ''hi'' @ [newline])"
    and r2: "readSlice EOF (''hi'' @ [newline]) = Inr (''hi'' @ [newline], [])"
    by (simp_all add: readSlice_def toolCall_def readerSize_def Let_def)
  have "trimCRLF (toolCall @ [newline]) = toolCall" by code_simp
  then obtain ans st1 where p0: "processLine denyAll False 1 DirClientToServer (toolCall @ [newline]) exState = (None, ans, st1)"
    using toolCall_denied by (metis fst_conv surj_pair)
  have "st1 = exState" by (rule processLine_blocked [OF _ _ p0]) (simp_all add: exState_def)
  note p1 = p0 [unfolded this]
  have "fst (processLine denyAll False 1 DirClientToServer (''hi'' @ [newline]) exState) = Some (''hi'' @ [newline])" by code_simp
  then obtain a st2 where p2: "processLine denyAll False 1 DirClientToServer (''hi'' @ [newline]) exState = (Some (''hi'' @ [newline]), a, st2)"
    by (metis fst_conv surj_pair)
  have "pipe (\<lambda>n. denyAll) DirClientToServer exCut EOF 1 (''hi'' @ [newline]) exState = (WriteFailed, ''h'', [], st2)"
    using r2 p2 by (subst pipe.simps) (simp add: exCut_def exPipe_def)
  then show ?thesis using r1 p1 by (subst pipe.simps) (simp add: exCut_def exPipe_def)
qed

theorem pipe_forwards_only_approved_witness:
  "\<exists>ret st' (ps :: (nat \<times> string) list) part. pipe (\<lambda>n. denyAll) DirClientToServer exCut EOF 0 (toolCall @ [newline] @ ''hi'' @ [newline]) exState = (WriteFailed, ''h'', ret, st') \<and>
     ''h'' = concat (map (\<lambda>(k, l). l @ [newline]) ps) @ part \<and> (\<forall>(k, l)\<in>set ps. approved denyAll l) \<and>
     (\<exists>k l. (k, l) \<in> set (enumerate 0 (inputLines (toolCall @ [newline] @ ''hi'' @ [newline]))) \<and> approved denyAll l \<and> prefix part (l @ [newline]))"
proof -
  let ?in = "toolCall @ [newline] @ ''hi'' @ [newline]"
  obtain ret st' where p: "pipe (\<lambda>n. denyAll) DirClientToServer exCut EOF 0 ?in exState = (WriteFailed, ''h'', ret, st')"
    using exCut_run by blast
  obtain ps part where ps: "''h'' = concat (map (\<lambda>(k, l). l @ [newline]) ps) @ part" "\<forall>(k, l)\<in>set ps. l \<noteq> '''' \<and> approved denyAll l"
    and pt: "part = [] \<or> (\<exists>k l. subseq (ps @ [(k, l)]) (enumerate 0 (inputLines ?in)) \<and> approved denyAll l \<and> prefix part (l @ [newline]))"
    using pipe_forwards_only_approved [OF p] by blast
  have "part \<noteq> []"
  proof
    assume "part = []"
    then have "List.last (''h'' :: string) = newline" using ps(1) by (cases ps rule: rev_cases) (auto split: prod.splits)
    then show False by simp
  qed
  then obtain k l where kl: "subseq (ps @ [(k, l)]) (enumerate 0 (inputLines ?in))" "approved denyAll l" "prefix part (l @ [newline])" using pt by blast
  have "(k, l) \<in> set (enumerate 0 (inputLines ?in))" using subseq_order.order_trans list_emb_set [OF kl(1), of "(k, l)"] by auto
  moreover have "\<forall>(k, l)\<in>set ps. approved denyAll l" using ps(2) by auto
  ultimately show ?thesis using p ps(1) kl(2,3) by blast
qed

theorem batch_bypasses_policy_witness:
  "fst (processLine denyAll False 1 DirClientToServer toolCall exState) = None \<and>
   fst (processLine denyAll False 1 DirClientToServer (''['' @ toolCall @ '']'') exState) = Some (''['' @ toolCall @ '']'' @ [newline])"
proof -
  have ms: "jsonParse (''['' @ toolCall @ '']'') = Some (JArr [JObj [(''method'', JStr ''tools/call'')]])" by code_simp
  have "trimCRLF (''['' @ toolCall @ '']'') = ''['' @ toolCall @ '']''" by code_simp
  then obtain st' where "processLine denyAll False 1 DirClientToServer (''['' @ toolCall @ '']'') exState = (Some ((''['' @ toolCall @ '']'') @ [newline]), None, st')"
    using batch_bypasses_policy [OF ms, of "''['' @ toolCall @ '']''" exState denyAll False 1] by (auto simp: exState_def)
  moreover have "trimCRLF toolCall = toolCall" by code_simp
  ultimately show ?thesis using toolCall_denied by simp
qed

end
