(* ===== verification/ProxyLife.thy ===== *)
theory ProxyLife
  imports Reach McpProxy
begin

text \<open>
  The life of the proxy of \<open>internal/mcp/proxy.go\<close>: \<open>NewProxy\<close>, \<open>Start\<close>, \<open>Stop\<close>, \<open>acceptLoop\<close>
  and \<open>handleConn\<close> as goroutines that take turns. Listeners and stop channels have numbers, so that
  a field that is assigned anew is told apart from the object a goroutine still holds. What a
  piped connection does with its lines is \<open>ProxyPipe\<close>.
\<close>

section \<open>State\<close>

text \<open>
  Where an accept loop is: before \<open>p.listener.Accept()\<close>, in \<open>Accept\<close> on the listener it has read,
  with a connection not yet counted, with an error before it looks at \<open>p.stopCh\<close>, at its end.
\<close>

datatype accept_pc = LoopTop | InAccept nat | GotConn | AcceptFailed | LoopEnded

text \<open>
  Where a connection is: dialling the target, dialled, with a slot of the semaphore but before it
  reads the stop channel, piping (\<open>Piping ch a b\<close>: the stop channel it holds, and which of its two
  pipes run), and then in its deferred calls, which run last first: the slot is given back, the
  two connections are closed, the wait group is counted down.
\<close>

datatype handle_pc = Dialing | Dialed | Acquired | Piping nat bool bool | Closing | Shut | Gone

text \<open>\<open>pxStopping\<close>: a \<open>Stop\<close> has closed the channel and waits, with the mutex held.\<close>

record proxy =
  pxListenAddr :: string
  pxRunning :: bool
  pxStarted :: i64
  pxListener :: "nat option"
  pxStopCh :: nat
  pxOpen :: "nat list"
  pxClosed :: "nat list"
  pxStopping :: bool
  pxWG :: nat
  pxSem :: nat
  pxLoops :: "accept_pc list"
  pxConns :: "handle_pc list"
  pxNext :: nat

definition maxProxyConns :: nat where
  "maxProxyConns = 100"

definition NewProxy :: "string \<Rightarrow> proxy" where
  "NewProxy addr = \<lparr>pxListenAddr = addr, pxRunning = False, pxStarted = 0, pxListener = None, pxStopCh = 0, pxOpen = [], pxClosed = [],
     pxStopping = False, pxWG = 0, pxSem = 0, pxLoops = [], pxConns = [], pxNext = 1\<rparr>"

section \<open>Operations\<close>

definition ProxyStart :: "string option \<Rightarrow> i64 \<Rightarrow> proxy \<Rightarrow> string option \<times> proxy" where
  "ProxyStart listenErr now p =
     (if pxRunning p then (Some (''mcp proxy already running on '' @ pxListenAddr p), p)
      else (case listenErr of
        Some e \<Rightarrow> (Some (''mcp proxy listen: '' @ e), p)
      | None \<Rightarrow> (None, p\<lparr>pxListener := Some (pxNext p), pxOpen := pxNext p # pxOpen p, pxNext := pxNext p + 1, pxRunning := True,
          pxStarted := now, pxLoops := pxLoops p @ [LoopTop]\<rparr>)))"

text \<open>\<open>Stop\<close> up to \<open>wg.Wait()\<close>, and after it.\<close>

definition stopBegin :: "proxy \<Rightarrow> proxy" where
  "stopBegin p = (if pxRunning p then p\<lparr>pxRunning := False, pxClosed := pxStopCh p # pxClosed p,
       pxOpen := (case pxListener p of None \<Rightarrow> pxOpen p | Some l \<Rightarrow> removeAll l (pxOpen p)), pxStopping := True\<rparr> else p)"

definition stopEnd :: "proxy \<Rightarrow> proxy" where
  "stopEnd p = p\<lparr>pxStopCh := pxNext p, pxNext := pxNext p + 1, pxStopping := False\<rparr>"

definition ProxyIsRunning :: "proxy \<Rightarrow> bool" where
  "ProxyIsRunning p = pxRunning p"

definition ProxyUptime :: "i64 \<Rightarrow> proxy \<Rightarrow> i64" where
  "ProxyUptime now p = (if \<not> pxRunning p then 0 else wrap64 (now - pxStarted p))"

definition setLoop :: "nat \<Rightarrow> accept_pc \<Rightarrow> proxy \<Rightarrow> proxy" where
  "setLoop i pc p = p\<lparr>pxLoops := (pxLoops p)[i := pc]\<rparr>"

definition setHandle :: "nat \<Rightarrow> handle_pc \<Rightarrow> proxy \<Rightarrow> proxy" where
  "setHandle j pc p = p\<lparr>pxConns := (pxConns p)[j := pc]\<rparr>"

section \<open>Steps\<close>

text \<open>One step of accept loop \<open>i\<close>.\<close>

inductive loopStep :: "nat \<Rightarrow> proxy \<Rightarrow> proxy \<Rightarrow> bool" for i where
  enter: "i < length (pxLoops p) \<Longrightarrow> pxLoops p ! i = LoopTop \<Longrightarrow> pxListener p = Some l \<Longrightarrow> loopStep i p (setLoop i (InAccept l) p)"
| accept: "i < length (pxLoops p) \<Longrightarrow> pxLoops p ! i = InAccept l \<Longrightarrow> l \<in> set (pxOpen p) \<Longrightarrow> loopStep i p (setLoop i GotConn p)"
| accept_error: "i < length (pxLoops p) \<Longrightarrow> pxLoops p ! i = InAccept l \<Longrightarrow> loopStep i p (setLoop i AcceptFailed p)"
| spawn: "i < length (pxLoops p) \<Longrightarrow> pxLoops p ! i = GotConn \<Longrightarrow>
    loopStep i p ((setLoop i LoopTop p)\<lparr>pxWG := pxWG p + 1, pxConns := pxConns p @ [Dialing]\<rparr>)"
| leave: "i < length (pxLoops p) \<Longrightarrow> pxLoops p ! i = AcceptFailed \<Longrightarrow> pxStopCh p \<in> set (pxClosed p) \<Longrightarrow> loopStep i p (setLoop i LoopEnded p)"
| retry: "i < length (pxLoops p) \<Longrightarrow> pxLoops p ! i = AcceptFailed \<Longrightarrow> pxStopCh p \<notin> set (pxClosed p) \<Longrightarrow> loopStep i p (setLoop i LoopTop p)"

text \<open>One step of the goroutines of connection \<open>j\<close>.\<close>

inductive connStep :: "nat \<Rightarrow> proxy \<Rightarrow> proxy \<Rightarrow> bool" for j where
  dial_fail: "j < length (pxConns p) \<Longrightarrow> pxConns p ! j = Dialing \<Longrightarrow> connStep j p (setHandle j Closing p)"
| dial_ok: "j < length (pxConns p) \<Longrightarrow> pxConns p ! j = Dialing \<Longrightarrow> connStep j p (setHandle j Dialed p)"
| full: "j < length (pxConns p) \<Longrightarrow> pxConns p ! j = Dialed \<Longrightarrow> maxProxyConns \<le> pxSem p \<Longrightarrow> connStep j p (setHandle j Closing p)"
| acquire: "j < length (pxConns p) \<Longrightarrow> pxConns p ! j = Dialed \<Longrightarrow> pxSem p < maxProxyConns \<Longrightarrow>
    connStep j p ((setHandle j Acquired p)\<lparr>pxSem := pxSem p + 1\<rparr>)"
| piped: "j < length (pxConns p) \<Longrightarrow> pxConns p ! j = Acquired \<Longrightarrow> connStep j p (setHandle j (Piping (pxStopCh p) True True) p)"
| client_ends: "j < length (pxConns p) \<Longrightarrow> pxConns p ! j = Piping ch True b \<Longrightarrow> connStep j p (setHandle j (Piping ch False b) p)"
| server_ends: "j < length (pxConns p) \<Longrightarrow> pxConns p ! j = Piping ch a True \<Longrightarrow> connStep j p (setHandle j (Piping ch a False) p)"
| release: "j < length (pxConns p) \<Longrightarrow> pxConns p ! j = Piping ch False False \<Longrightarrow>
    connStep j p ((setHandle j Closing p)\<lparr>pxSem := pxSem p - 1\<rparr>)"
| close_conns: "j < length (pxConns p) \<Longrightarrow> pxConns p ! j = Closing \<Longrightarrow> connStep j p (setHandle j Shut p)"
| wg_done: "j < length (pxConns p) \<Longrightarrow> pxConns p ! j = Shut \<Longrightarrow> connStep j p ((setHandle j Gone p)\<lparr>pxWG := pxWG p - 1\<rparr>)"

text \<open>What happens while nobody calls \<open>Start\<close> or \<open>Stop\<close>, and everything.\<close>

inductive quietStep :: "proxy \<Rightarrow> proxy \<Rightarrow> bool" where
  loop: "loopStep i p q \<Longrightarrow> quietStep p q"
| conn: "connStep j p q \<Longrightarrow> quietStep p q"

inductive proxyStep :: "proxy \<Rightarrow> proxy \<Rightarrow> bool" where
  start: "\<not> pxStopping p \<Longrightarrow> ProxyStart e now p = (r, q) \<Longrightarrow> proxyStep p q"
| stop_begin: "\<not> pxStopping p \<Longrightarrow> proxyStep p (stopBegin p)"
| stop_end: "pxStopping p \<Longrightarrow> pxWG p = 0 \<Longrightarrow> proxyStep p (stopEnd p)"
| quiet: "quietStep p q \<Longrightarrow> proxyStep p q"

section \<open>Counting\<close>

definition live :: "handle_pc \<Rightarrow> bool" where
  "live c \<longleftrightarrow> c \<noteq> Gone"

text \<open>The connections that hold a slot of the semaphore.\<close>

fun piping :: "handle_pc \<Rightarrow> bool" where
  "piping Acquired = True"
| "piping (Piping _ _ _) = True"
| "piping _ = False"

text \<open>
  The wait group counts the live connections, the semaphore those with a slot; the current stop
  channel is closed exactly while a \<open>Stop\<close> waits.
\<close>

definition tallied :: "proxy \<Rightarrow> bool" where
  "tallied p \<longleftrightarrow> pxWG p = length (filter live (pxConns p)) \<and> pxSem p = length (filter piping (pxConns p)) \<and> pxSem p \<le> maxProxyConns \<and>
     (pxStopCh p \<in> set (pxClosed p) \<longleftrightarrow> pxStopping p) \<and> pxStopCh p < pxNext p \<and> (\<forall>c\<in>set (pxClosed p). c < pxNext p) \<and>
     (pxStopping p \<longrightarrow> \<not> pxRunning p) \<and> (pxLoops p \<noteq> [] \<longrightarrow> pxListener p \<noteq> None)"

lemma filter_update:
  assumes "j < length cs"
  shows "length (filter P (cs[j := c])) + (if P (cs ! j) then 1 else 0) = length (filter P cs) + (if P c then 1 else 0)"
proof -
  have cs: "cs = take j cs @ cs ! j # drop (Suc j) cs" by (rule id_take_nth_drop [OF assms])
  have "cs[j := c] = take j cs @ c # drop (Suc j) cs" by (rule upd_conv_take_nth_drop [OF assms])
  moreover have "length (filter P cs) = length (filter P (take j cs)) + (if P (cs ! j) then 1 else 0) + length (filter P (drop (Suc j) cs))"
    by (subst cs) simp
  ultimately show ?thesis by simp
qed

lemma loopStep_tallied: "loopStep i p q \<Longrightarrow> tallied p \<Longrightarrow> tallied q"
  by (erule loopStep.cases) (auto simp: tallied_def setLoop_def live_def)

lemma handle_tallied:
  assumes "tallied p" and "j < length (pxConns p)" and "live (pxConns p ! j)" and "q = (setHandle j c p)\<lparr>pxSem := s, pxWG := w\<rparr>"
    and "s + (if piping (pxConns p ! j) then 1 else 0) = pxSem p + (if piping c then 1 else 0)" and "s \<le> maxProxyConns"
    and "w + 1 = pxWG p + (if live c then 1 else 0)"
  shows "tallied q"
  using assms filter_update [OF assms(2), of live c] filter_update [OF assms(2), of piping c]
  by (auto simp: tallied_def setHandle_def split: if_splits)

text \<open>A step that neither takes nor gives back anything.\<close>

lemma move_tallied:
  assumes "tallied p" and "j < length (pxConns p)" and "live (pxConns p ! j)" and "live c" and "piping c = piping (pxConns p ! j)"
  shows "tallied (setHandle j c p)"
proof (rule handle_tallied [OF assms(1-3), where c = c and s = "pxSem p" and w = "pxWG p"])
  show "pxSem p \<le> maxProxyConns" using assms(1) by (simp add: tallied_def)
qed (simp_all add: assms(4,5) setHandle_def)

lemma connStep_tallied:
  assumes "connStep j p q" and t: "tallied p"
  shows "tallied q"
proof -
  have pos: "0 < length (filter P (pxConns p))" if "j < length (pxConns p)" "P (pxConns p ! j)" for P
    using that by (auto simp: filter_empty_conv)
  have wg: "0 < pxWG p" if "j < length (pxConns p)" "live (pxConns p ! j)" using pos [of live] that t by (simp add: tallied_def)
  have sem: "0 < pxSem p" if "j < length (pxConns p)" "piping (pxConns p ! j)" using pos [of piping] that t by (simp add: tallied_def)
  have le: "pxSem p \<le> maxProxyConns" using t by (simp add: tallied_def)
  show ?thesis using assms(1)
  proof cases
    case acquire
    then show ?thesis by (intro handle_tallied [OF t, where j = j and c = Acquired and s = "pxSem p + 1" and w = "pxWG p"]) (auto simp: live_def setHandle_def)
  next
    case (release ch)
    then show ?thesis using sem le
      by (intro handle_tallied [OF t, where j = j and c = Closing and s = "pxSem p - 1" and w = "pxWG p"]) (auto simp: live_def setHandle_def)
  next
    case wg_done
    then show ?thesis using wg le by (intro handle_tallied [OF t, where j = j and c = Gone and s = "pxSem p" and w = "pxWG p - 1"]) (auto simp: live_def setHandle_def)
  qed (auto simp: live_def intro!: move_tallied [OF t])
qed

lemma quietStep_tallied: "quietStep p q \<Longrightarrow> tallied p \<Longrightarrow> tallied q"
  by (auto elim!: quietStep.cases intro: loopStep_tallied connStep_tallied)

lemma proxyStep_tallied:
  assumes "proxyStep p q" and "tallied p"
  shows "tallied q"
  using assms(1)
proof cases
  case (start e now r)
  then show ?thesis using assms(2) by (auto simp: tallied_def ProxyStart_def less_SucI split: if_splits option.splits)
next
  case stop_end
  then show ?thesis using assms(2) by (auto simp: tallied_def stopEnd_def less_SucI)
next
  case stop_begin
  then show ?thesis using assms(2) by (auto simp: tallied_def stopBegin_def)
next
  case quiet
  then show ?thesis using quietStep_tallied assms(2) by simp
qed

interpretation proxySys: reach_system proxyStep tallied
  by unfold_locales (rule proxyStep_tallied)

lemma NewProxy_tallied: "tallied (NewProxy addr)"
  by (simp add: tallied_def NewProxy_def)


section \<open>After \<open>Stop\<close>\<close>

text \<open>Loop \<open>i\<close> is alive and the channel it looks at is open.\<close>

definition loopAlive :: "nat \<Rightarrow> proxy \<Rightarrow> bool" where
  "loopAlive i p \<longleftrightarrow> i < length (pxLoops p) \<and> pxLoops p ! i \<noteq> LoopEnded \<and> pxStopCh p \<notin> set (pxClosed p) \<and> pxListener p \<noteq> None"

lemma loopStep_alive: "loopStep k p q \<Longrightarrow> loopAlive i p \<Longrightarrow> loopAlive i q"
  by (erule loopStep.cases) (auto simp: loopAlive_def setLoop_def nth_list_update)

lemma connStep_alive: "connStep j p q \<Longrightarrow> loopAlive i p \<Longrightarrow> loopAlive i q"
  by (erule connStep.cases) (auto simp: loopAlive_def setHandle_def)

interpretation quietSys: reach_system quietStep "loopAlive i" for i
  by unfold_locales (auto elim!: quietStep.cases intro: loopStep_alive connStep_alive)

lemma alive_moves: "loopAlive i p \<Longrightarrow> \<exists>q. loopStep i p q"
  by (cases "pxLoops p ! i") (auto simp: loopAlive_def intro: loopStep.intros)

text \<open>
  C39. An accept loop can outlive \<open>Stop\<close>. \<open>Stop\<close> puts a fresh channel in place of the one it
  closed, and the accept loop reads that field only after \<open>Accept\<close> has failed. If the loop has not
  looked by the time \<open>Stop\<close> returns, then until the next \<open>Stop\<close> or \<open>Start\<close> it never ends: in every
  state that is reached it is alive and has a step to take, a busy loop over a closed listener.
\<close>

theorem accept_loop_survives_stop:
  assumes "proxyStep\<^sup>*\<^sup>* (NewProxy addr) p" and "pxStopping p" and "pxWG p = 0"
    and "i < length (pxLoops p)" and "pxLoops p ! i \<noteq> LoopEnded" and "quietStep\<^sup>*\<^sup>* (stopEnd p) q"
  shows "\<not> pxRunning (stopEnd p) \<and> pxLoops q ! i \<noteq> LoopEnded \<and> (\<exists>r. loopStep i q r)"
proof -
  have t: "tallied p" by (rule proxySys.reach_inv [OF assms(1) NewProxy_tallied])
  then have "loopAlive i (stopEnd p)" using assms(4,5) by (auto simp: tallied_def loopAlive_def stopEnd_def)
  then have "loopAlive i q" by (rule quietSys.reach_inv [OF assms(6)])
  then show ?thesis using alive_moves t assms(2) by (auto simp: loopAlive_def tallied_def stopEnd_def)
qed

section \<open>A run\<close>

text \<open>\<open>Start\<close>, the loop enters \<open>Accept\<close>, \<open>Stop\<close> closes the listener and finds no connection to wait for.\<close>

definition exStopping :: proxy where
  "exStopping = \<lparr>pxListenAddr = '':1'', pxRunning = False, pxStarted = 0, pxListener = Some 1, pxStopCh = 0, pxOpen = [], pxClosed = [0],
     pxStopping = True, pxWG = 0, pxSem = 0, pxLoops = [InAccept 1], pxConns = [], pxNext = 2\<rparr>"

lemma exStopping_reached: "proxyStep\<^sup>*\<^sup>* (NewProxy '':1'') exStopping"
proof -
  let ?p1 = "snd (ProxyStart None 0 (NewProxy '':1''))"
  have "proxyStep (NewProxy '':1'') ?p1" by (rule proxyStep.start [where e = None and now = 0]) (auto simp: NewProxy_def prod_eq_iff)
  moreover have "proxyStep ?p1 (setLoop 0 (InAccept 1) ?p1)"
    by (rule proxyStep.quiet, rule quietStep.loop [where i = 0], rule loopStep.enter) (simp_all add: ProxyStart_def NewProxy_def)
  moreover have "proxyStep (setLoop 0 (InAccept 1) ?p1) (stopBegin (setLoop 0 (InAccept 1) ?p1))"
    by (rule proxyStep.stop_begin) (simp add: ProxyStart_def NewProxy_def setLoop_def)
  moreover have "stopBegin (setLoop 0 (InAccept 1) ?p1) = exStopping"
    by (simp add: stopBegin_def ProxyStart_def NewProxy_def setLoop_def exStopping_def)
  ultimately show ?thesis by (metis converse_rtranclp_into_rtranclp r_into_rtranclp)
qed

theorem accept_loop_survives_stop_witness:
  "proxyStep\<^sup>*\<^sup>* (NewProxy '':1'') exStopping \<and> \<not> pxRunning (stopEnd exStopping) \<and> (\<exists>r. loopStep 0 (stopEnd exStopping) r)"
  using accept_loop_survives_stop [OF exStopping_reached, of 0 "stopEnd exStopping"] exStopping_reached by (simp add: exStopping_def)

text \<open>
  A connection that \<open>Accept\<close> has returned but that is not yet counted is not waited for: \<open>Stop\<close>
  returns, and afterwards the connection is counted and piped, on a channel that is open.
\<close>

definition exTaken :: proxy where
  "exTaken = \<lparr>pxListenAddr = '':1'', pxRunning = True, pxStarted = 0, pxListener = Some 1, pxStopCh = 0, pxOpen = [1], pxClosed = [],
     pxStopping = False, pxWG = 0, pxSem = 0, pxLoops = [GotConn], pxConns = [], pxNext = 2\<rparr>"

lemma exTaken_reached: "proxyStep\<^sup>*\<^sup>* (NewProxy '':1'') exTaken"
proof -
  let ?p1 = "snd (ProxyStart None 0 (NewProxy '':1''))"
  let ?p2 = "setLoop 0 (InAccept 1) ?p1"
  have "proxyStep (NewProxy '':1'') ?p1" by (rule proxyStep.start [where e = None and now = 0]) (auto simp: NewProxy_def prod_eq_iff)
  moreover have "proxyStep ?p1 ?p2"
    by (rule proxyStep.quiet, rule quietStep.loop [where i = 0], rule loopStep.enter) (simp_all add: ProxyStart_def NewProxy_def)
  moreover have "proxyStep ?p2 (setLoop 0 GotConn ?p2)"
    by (rule proxyStep.quiet, rule quietStep.loop [where i = 0], rule loopStep.accept [where l = 1]) (simp_all add: ProxyStart_def NewProxy_def setLoop_def)
  moreover have "setLoop 0 GotConn ?p2 = exTaken" by (simp add: ProxyStart_def NewProxy_def setLoop_def exTaken_def)
  ultimately show ?thesis by (metis converse_rtranclp_into_rtranclp r_into_rtranclp)
qed

definition exPiped :: proxy where
  "exPiped = \<lparr>pxListenAddr = '':1'', pxRunning = False, pxStarted = 0, pxListener = Some 1, pxStopCh = 2, pxOpen = [], pxClosed = [0],
     pxStopping = False, pxWG = 1, pxSem = 1, pxLoops = [LoopTop], pxConns = [Piping 2 True True], pxNext = 3\<rparr>"

lemma exPiped_reached: "proxyStep\<^sup>*\<^sup>* (NewProxy '':1'') exPiped"
proof -
  let ?p4 = "stopEnd (stopBegin exTaken)"
  let ?p5 = "(setLoop 0 LoopTop ?p4)\<lparr>pxWG := pxWG ?p4 + 1, pxConns := pxConns ?p4 @ [Dialing]\<rparr>"
  let ?p6 = "setHandle 0 Dialed ?p5"
  let ?p7 = "(setHandle 0 Acquired ?p6)\<lparr>pxSem := pxSem ?p6 + 1\<rparr>"
  let ?p8 = "setHandle 0 (Piping (pxStopCh ?p7) True True) ?p7"
  note defs = exTaken_def stopBegin_def stopEnd_def setLoop_def setHandle_def maxProxyConns_def
  have "proxyStep exTaken (stopBegin exTaken)" by (rule proxyStep.stop_begin) (simp add: defs)
  moreover have "proxyStep (stopBegin exTaken) ?p4" by (rule proxyStep.stop_end) (simp_all add: defs)
  moreover have "proxyStep ?p4 ?p5" by (rule proxyStep.quiet, rule quietStep.loop [where i = 0], rule loopStep.spawn) (simp_all add: defs)
  moreover have "proxyStep ?p5 ?p6" by (rule proxyStep.quiet, rule quietStep.conn [where j = 0], rule connStep.dial_ok) (simp_all add: defs)
  moreover have "proxyStep ?p6 ?p7" by (rule proxyStep.quiet, rule quietStep.conn [where j = 0], rule connStep.acquire) (simp_all add: defs)
  moreover have "proxyStep ?p7 ?p8" by (rule proxyStep.quiet, rule quietStep.conn [where j = 0], rule connStep.piped) (simp_all add: defs)
  ultimately have "proxyStep\<^sup>*\<^sup>* (NewProxy '':1'') ?p8" using exTaken_reached by (meson rtranclp.rtrancl_into_rtrancl)
  moreover have "?p8 = exPiped" by (simp add: defs exPiped_def)
  ultimately show ?thesis by simp
qed

lemma connection_outlives_stop:
  "\<exists>p. proxyStep\<^sup>*\<^sup>* (NewProxy '':1'') p \<and> \<not> pxRunning p \<and> \<not> pxStopping p \<and> Piping (pxStopCh p) True True \<in> set (pxConns p) \<and>
     pxStopCh p \<notin> set (pxClosed p)"
  using exPiped_reached by (intro exI [of _ exPiped]) (simp add: exPiped_def)


end
