(* ===== verification/Spec2Isabelle.thy ===== *)
theory Spec2Isabelle
  imports DaemonCompensate DaemonLive Server SplitRune PollerWire MockClient ExportPDF Merge TokenManager MachineSecret
    ProxyPipe ProxyLife
begin

text \<open>
  Verification of the Agent Nervous System (ANS), a Go program that keeps a tamper-evident record of
  what software agents do. All source names below are under \<open>src/internal\<close>.

  \<^bold>\<open>The program.\<close> A daemon (\<open>daemon\<close>) listens on a local socket and serves frames of a type
  byte and a JSON body. A sign-append request is checked against policies (\<open>policy\<close>), signed with the
  agent's key (\<open>identity\<close>) and stored in a hash chain of receipts (\<open>receipt\<close>, \<open>clock\<close>, \<open>chain\<close>) that can be
  verified, pruned under Merkle anchors, merged and exported. Other requests take and restore
  workspace snapshots (\<open>snapshot\<close>), run registered compensations, hand out short-lived credentials
  (\<open>broker\<close>), and start a proxy for the Model Context Protocol that limits, redacts and logs
  (\<open>mcp\<close>). Package \<open>identitybroker\<close> keeps usage-limited tokens. A client, a poller and view models
  (\<open>client\<close>, \<open>poller\<close>, \<open>model\<close>) serve a terminal interface.

  \<^bold>\<open>How it is modelled.\<close> Go values are HOL values: structs are records, strings and byte slices
  are lists of characters, \<open>uint64\<close> is a 64-bit word, \<open>int64\<close> an integer with its wrap-around
  written out (\<open>wrap64\<close>), slices are lists, maps are functions or association lists. A call that
  can fail returns a sum or option, one that can also panic the type \<open>go\<close>. Methods take the state
  of their receiver and return the new one. What a function reads from outside (clocks, random
  numbers, the file system, the outcome of each database call, HTTP answers) is an argument, in
  records such as \<open>daemon_env\<close>, \<open>fs_env\<close> or \<open>export_env\<close>, so every error return of the source is a
  branch. SQLite tables are lists of rows; a statement's failure is a boolean of its environment.
  Third-party code and cryptography are parameters with named hypotheses: \<open>crypto_ok\<close> (SHA-256 yields
  32 bytes, a signature made with a key verifies under its public key), \<open>aead_ok\<close> (AES-GCM opens what
  it sealed), \<open>archiver_ok\<close> (tar and gzip read back what they wrote, with times cut to seconds); toy
  instances satisfy them in the witnesses. The standard library the program uses is modelled:
  \<open>encoding/json\<close>, \<open>csv\<close>, \<open>hex\<close>, \<open>base64\<close>, UTF-8, paths, and the regular expressions of the PII and
  injection patterns. Loops are recursive functions that terminate; the only fuel is that of the
  JSON parser, where the length of the input plus two is enough (\<open>parseValue_enc\<close>).

  \<^bold>\<open>Theories.\<close>
  \<^item> Foundations: \<open>Prelude\<close> (results, 64-bit integers, runs of a machine and the locale
    \<open>inv_system\<close> for invariants of runs), \<open>Reach\<close> (step relations: the locales \<open>reach_system\<close> for invariants of
    reachable states and \<open>ending_system\<close> for phases that end), \<open>GoLib\<close>, \<open>GoText\<close>, \<open>GoPath\<close>, \<open>Json\<close>, \<open>JsonUtf8\<close>, \<open>GoStruct\<close>, \<open>Base64\<close>,
    \<open>Base58\<close>.
  \<^item> The chain: \<open>Clock\<close> (\<open>clock/hlc.go\<close>), \<open>Receipt\<close> (\<open>receipt\<close>), \<open>Chain\<close> (\<open>chain/chain.go\<close>: schema, append,
    queries, compensations), \<open>Prune\<close>, \<open>Verify\<close>, \<open>Merge\<close> (the files of those names), \<open>ChainSystem\<close> (all
    operations interleaved), \<open>Export\<close> (\<open>export.go\<close>, \<open>export_parquet.go\<close>), \<open>ExportPDF\<close> (\<open>export_pdf.go\<close>).
  \<^item> Policies: \<open>Policy\<close> (\<open>policy.go\<close>), \<open>Pii\<close> (\<open>pii.go\<close>), \<open>PolicyStore\<close> (\<open>store.go\<close>, \<open>executor.go\<close>; the engine is the
    locale \<open>policy_engine\<close>).
  \<^item> The proxy: \<open>McpSafety\<close> (rate limit, token budget), \<open>McpText\<close> (optimizer, redaction, injection
    patterns), \<open>McpProxy\<close> (messages, audit log, per-line processing), \<open>ProxyPipe\<close> (one direction of a
    connection, from bytes to bytes), \<open>ProxyLife\<close> (\<open>Start\<close>, \<open>Stop\<close>, accept loop and connections as
    goroutines that take turns).
  \<^item> Keys and tokens: \<open>Keystore\<close> (\<open>identity\<close>), \<open>MachineSecret\<close> (the secret's file under concurrent
    processes), \<open>TokenStore\<close> (the interface as the locale \<open>token_store\<close> and its SQLite implementation),
    \<open>TokenManager\<close> (\<open>broker.go\<close> of \<open>identitybroker\<close> over any store).
  \<^item> Credentials and snapshots: \<open>Broker\<close> (the contract of a provider is the locale
    \<open>credential_provider\<close>), \<open>Providers\<close> (the seven of them), \<open>SnapshotFS\<close>, \<open>SnapshotStore\<close>.
  \<^item> The daemon: \<open>Protocol\<close>, \<open>Messages\<close> (\<open>protocol.go\<close>), \<open>AuditRing\<close>, \<open>Daemon\<close> (\<open>daemon.go\<close>), \<open>Handlers\<close>
    (\<open>handlers.go\<close>), \<open>Socket\<close> (\<open>socket.go\<close>, \<open>socket_windows.go\<close>: the lock file and the socket, with processes
    that compete for them), \<open>Server\<close> (\<open>Run\<close> and \<open>serveListener\<close>: connections, signal and shutdown),
    \<open>DaemonProps\<close>, \<open>DaemonSystem\<close>, \<open>DaemonCompensate\<close>, \<open>DaemonLive\<close>, \<open>SplitRune\<close> (theorems about the whole).
  \<^item> The client side: \<open>Models\<close> (\<open>model\<close>), \<open>Client\<close>, \<open>MockClient\<close> (\<open>client\<close>), \<open>Poller\<close> (\<open>poller\<close>), \<open>ClientWire\<close> and
    \<open>PollerWire\<close> (client and poller connected to the daemon).

  \<^bold>\<open>What is shown.\<close> Every chain that the operations build from valid text verifies, a valid verdict
  means exactly the links and hashes it should, an overwritten row is detected up to a collision and
  reported at its index or the next one, appends are atomic and append-only, pruning keeps proofs of inclusion, timestamps increase, merging is a causal
  permutation, exports are faithful. These lift to the daemon, whatever frames clients send over
  however many connections, by an invariant of its steps; every request is answered by one frame
  that carries what its handler returned, with the right type, and only listed commands run. One daemon at most owns
  the socket, a shutdown ends (webhook goroutines and the blocked \<open>Accept\<close> included), and it
  closes the database last. Policies are compiled without changing decisions and fail closed; what the proxy forwards are
  lines that were approved, but for the part of one on which a write failed, and it pipes at most a hundred connections;
  the rate limit bounds bursts, with 64-bit counters and limits for which none overflows; revocation of a token is final and its usage
  bounded; the keystore's cache is transparent and concurrent processes agree on the secret;
  restoring stays inside the workspace, unless a symbolic link leads out of it, and brings it back. The audit ring refines the list of all
  events, and the keystore its directory.
  Where the code does not do what it means to, a theorem says what it does: deletions that
  verification does not see, a failed prune that breaks verification, policy changes that are not
  enforced at once, registrations that make the daemon panic, compensations that run again, lost
  revocations, a client and a daemon that do not share a protocol, a PDF whose bookmarks are
  not where its table says, text cut inside a rune that breaks the chain, a lock file that outlives
  its daemon, an accept loop that outlives its proxy, batches that no policy sees, links that a
  restore follows out of the workspace, and a rate limit so large that its bucket overflows.

  \<^bold>\<open>Assumptions worth knowing.\<close> The daemon runs handlers concurrently; the model interleaves whole
  requests (\<open>Server\<close>), which is what the locks of the chain, the keystore and the stores give for each
  operation, but interleavings inside one handler are not modelled, except where they are the point
  (\<open>MachineSecret\<close>, \<open>revoke_all_lost_update\<close>, \<open>Poller\<close>, \<open>Socket\<close>, \<open>ProxyLife\<close>, where a step is one action of
  one goroutine or one system call). A handler is a step that returns: a compensation's command, and
  the proxy's connections that an MCP stop waits for, are taken to end. The webhook goroutine of an
  append is a separate step, counted by the daemon's wait group. The theorems on reachable chains
  assume \<open>eventAllowed\<close> or \<open>daemonAllowed\<close>: no text is cut inside a rune and keys are those of one
  ring, which they must (\<open>split_rune_breaks_chain\<close>); for a chain alone also that a prune's deletion
  does not fail (\<open>failed_prune_breaks_verification\<close>). Deadlines may pass at any moment. Symbolic links hold
  the absolute path their text denotes, and system calls follow them the way the kernel does.
  Floating-point values (bucket refill, burn rate) are parameters or literals.

  \<^bold>\<open>Not modelled.\<close> Log lines, the embedded assets (\<open>assets\<close>), the kernel's side of sockets and the
  bytes of SQLite, Parquet, tar and gzip files, which other programs write and read.
\<close>

section \<open>From a request to an exported file\<close>

lemma chained_links:
  "chained i h (map (storedRow C) rs) \<Longrightarrow> Suc k < length rs \<Longrightarrow> PrevReceiptHash (rs ! Suc k) = hashHex C (marshalReceipt (rs ! k))"
proof (induction rs arbitrary: i h k)
  case (Cons r rs)
  then have tl: "chained (i + 1) (hashHex C (marshalReceipt r)) (map (storedRow C) rs)" by simp
  show ?case
  proof (cases k)
    case 0
    then show ?thesis using Cons.prems tl by (cases rs) simp_all
  next
    case (Suc j)
    then show ?thesis using Cons.IH [OF tl, of j] Cons.prems(2) by simp
  qed
qed simp

text \<open>
  C5. The log can be audited from an export alone. Take a daemon started on an empty database and
  keystore, let clients send it requests over any connections, in any order, and export its chain
  as JSON lines. The requests are those \<open>daemonAllowed\<close> admits: no text of a sign-append request is
  cut inside a rune (the line of such a receipt would not decode to what was signed), the wall clock
  fits an \<open>int64\<close>, drawn key pairs are the ring's, nonces have their length and a key file cut short
  by a failed write does not decrypt; the export's own reads and writes do not fail. Then the file's
  lines are the receipts of the chain, one each, every line decodes to a receipt signed by its agent's key
  of the key ring, and every receipt names the SHA-256 hash of the line before it as its previous
  hash; the first line names the genesis hash while nothing has been pruned.
\<close>

theorem exported_lines_form_chain:
  assumes "crypto_ok C" and "aead_ok A"
    and "NewDaemon C dev openFails mkdirErr schemaErr st = Inr d0" and "stChain st = emptyDB" and "stKeystore st = Inr (newKeystore key [])"
    and "(serverStep (daemonAllowed C A K))\<^sup>*\<^sup>* (RunOnListener d0) s" and "d = svDaemon s" and "noExportFaults X"
  shows "\<exists>rs out. ExportJSONL X noFilter (dChain d) = (None, out) \<and> splitOn newline out = map marshalReceipt rs @ [[]] \<and>
    receipts (db (dChain d)) = map (storedRow C) rs \<and>
    (\<forall>r\<in>set rs. unmarshalReceipt (marshalReceipt r) = Some r \<and> Verify C r (edPublic C (K (AgentID r))) = Ok ()) \<and>
    (\<forall>k. Suc k < length rs \<longrightarrow> PrevReceiptHash (rs ! Suc k) = hashHex C (marshalReceipt (rs ! k))) \<and>
    (anchors (db (dChain d)) = [] \<and> rs \<noteq> [] \<longrightarrow> PrevReceiptHash (rs ! 0) = GenesisHash)"
proof -
  have inv: "chain_inv C K (dChain d)" using server_inv(1) [OF assms(1-6)] assms(7) by simp
  then obtain rs where rows: "receipts (db (dChain d)) = map (storedRow C) rs"
    and rs: "\<forall>r\<in>set rs. receipt_utf8 r \<and> bare r = r \<and> Verify C r (edPublic C (K (AgentID r))) = Ok ()"
    using rows_stored [of C K] unfolding chain_inv_def Let_def by blast
  have "matchesQuery noFilter = (\<lambda>row. True)" by (auto simp: matchesQuery_def noFilter_def)
  then have "exportRows noFilter (dChain d) = map (storedRow C) rs" using exportRows_inv(1) [OF inv] rows by simp
  then obtain out where "ExportJSONL X noFilter (dChain d) = (None, out)" "splitOn newline out = map marshalReceipt rs @ [[]]"
    using export_jsonl_lines [OF assms(8)] rs by blast
  moreover have "\<forall>r\<in>set rs. unmarshalReceipt (marshalReceipt r) = Some r" using rs unmarshal_marshal by fastforce
  moreover have "PrevReceiptHash (rs ! Suc k) = hashHex C (marshalReceipt (rs ! k))" if "Suc k < length rs" for k
    using inv that rows by (auto simp: chain_inv_def Let_def intro: chained_links)
  moreover have "PrevReceiptHash (rs ! 0) = GenesisHash" if "anchors (db (dChain d)) = []" "rs \<noteq> []"
    using inv that rows by (cases rs) (auto simp: chain_inv_def Let_def headPrev_def)
  ultimately show ?thesis using rs rows by blast
qed

theorem exported_lines_form_chain_witness:
  "\<exists>d0 w rs out. NewDaemon flatCrypto False (\<lambda>s. False) False False DaemonSystem.exStored = Inr d0 \<and>
     WriteFrame MsgRegister (frBody (snd (hd exRequests))) = Some w \<and>
     ExportJSONL exExport noFilter (dChain (snd (Handle (\<lambda>k. exDEnv) 0 w d0))) = (None, out) \<and> splitOn newline out = map marshalReceipt rs @ [[]]"
proof (rule exServed)
  fix d0 w s
  assume h: "NewDaemon flatCrypto False (\<lambda>s. False) False False DaemonSystem.exStored = Inr d0"
    "WriteFrame MsgRegister (frBody (snd (hd exRequests))) = Some w" "svDaemon s = snd (Handle (\<lambda>k. exDEnv) 0 w d0)"
    and r: "(serverStep (daemonAllowed flatCrypto toyAead (\<lambda>i. Keystore.exKey 0)))\<^sup>*\<^sup>* (RunOnListener d0) s"
  have "noExportFaults exExport" by (simp add: noExportFaults_def exExport_def)
  then show ?thesis
    using exported_lines_form_chain [OF flatCrypto_ok toyAead_ok h(1) exStored_empty r h(3) [symmetric], of exExport] h(1,2) by blast
qed

end
